(* ===== verification/Ably_Prelude.thy ===== *)
theory Ably_Prelude
  imports Main "HOL-Library.Word"
begin

text \<open>
  Shared vocabulary of the development: the C integer types the sources use, C strings and the
  fixed-size buffers they are copied into (\<^verbatim>\<open>snprintf\<close>, \<^verbatim>\<open>strncpy\<close>), the searching functions of
  \<^verbatim>\<open>string.h\<close>, decimal and hexadecimal formatting, and the collections of rules the component
  theories add to.

  A C string is a HOL \<open>string\<close> (a list of characters, without the terminating NUL); a nullable
  \<^verbatim>\<open>const char *\<close> is a \<open>string option\<close>. Raw byte buffers are lists of 8-bit words.
\<close>

unbundle bit_operations_syntax

section \<open>Machine integers and collections of rules\<close>

type_synonym byte = "8 word"
type_synonym u32 = "32 word"
type_synonym u64 = "64 word"

named_theorems cstr_simps \<open>lengths and contents of C string buffers\<close>
named_theorems inv_rules \<open>preservation of component invariants\<close>
named_theorems frame_simps \<open>fields an operation leaves alone\<close>

section \<open>C strings in fixed-size buffers\<close>

text \<open>The contents of \<^verbatim>\<open>char dst[n]\<close> after \<^verbatim>\<open>snprintf(dst, n, "%s", s)\<close>: at most \<open>n - 1\<close>
  characters of \<open>s\<close>, then NUL. \<^verbatim>\<open>strncpy(dst, s, n - 1)\<close> with a NUL stored at \<open>n - 1\<close> leaves the
  same string.\<close>

definition c_copy :: "nat \<Rightarrow> string \<Rightarrow> string" where
  "c_copy n s = take (n - 1) s"

lemma c_copy_fits [cstr_simps]: "0 < n \<Longrightarrow> length (c_copy n s) < n"
  by (simp add: c_copy_def)

lemma c_copy_id [cstr_simps]: "length s < n \<Longrightarrow> c_copy n s = s"
  by (simp add: c_copy_def)

lemma c_copy_Nil [simp]: "c_copy n [] = []"
  by (simp add: c_copy_def)

lemma c_copy_idem [cstr_simps]: "c_copy n (c_copy n s) = c_copy n s"
  by (simp add: c_copy_def)

lemma set_c_copy: "set (c_copy n s) \<subseteq> set s"
  by (simp add: c_copy_def set_take_subset)

text \<open>A nullable string that is absent or empty: the test \<^verbatim>\<open>s && s[0]\<close>.\<close>

fun c_nonempty :: "string option \<Rightarrow> bool" where
  "c_nonempty None = False"
| "c_nonempty (Some s) = (s \<noteq> [])"

text \<open>\<^verbatim>\<open>buf[0] ? buf : NULL\<close>.\<close>

definition c_opt :: "string \<Rightarrow> string option" where
  "c_opt s = (if s = [] then None else Some s)"

lemma c_opt_simps [simp]: "c_opt [] = None" "c_opt (c # s) = Some (c # s)"
  by (simp_all add: c_opt_def)

text \<open>A string the server sends, \<^verbatim>\<open>s ? s : ""\<close>.\<close>

definition c_str :: "string option \<Rightarrow> string" where
  "c_str s = (case s of None \<Rightarrow> [] | Some t \<Rightarrow> t)"

lemma c_str_simps [simp]: "c_str None = []" "c_str (Some s) = s"
  by (simp_all add: c_str_def)

text \<open>The C string at the start of a buffer: it ends at the first NUL.\<close>

definition c_string :: "string \<Rightarrow> string" where
  "c_string s = takeWhile (\<lambda>c. c \<noteq> CHR 0x00) s"

lemma length_c_string: "length (c_string s) \<le> length s"
  by (simp add: c_string_def length_takeWhile_le)

section \<open>Searching\<close>

text \<open>\<^verbatim>\<open>strchr\<close> / \<^verbatim>\<open>memchr\<close>: the index of the first occurrence.\<close>

fun find_char :: "char \<Rightarrow> string \<Rightarrow> nat option" where
  "find_char c [] = None"
| "find_char c (x # xs) = (if x = c then Some 0 else map_option Suc (find_char c xs))"

fun is_prefix :: "string \<Rightarrow> string \<Rightarrow> bool" where
  "is_prefix [] ys = True"
| "is_prefix (x # xs) [] = False"
| "is_prefix (x # xs) (y # ys) = (x = y \<and> is_prefix xs ys)"

text \<open>\<^verbatim>\<open>strstr\<close>: the index of the first occurrence of the needle.\<close>

fun find_sub :: "string \<Rightarrow> string \<Rightarrow> nat option" where
  "find_sub pat [] = (if pat = [] then Some 0 else None)"
| "find_sub pat (x # xs) =
     (if is_prefix pat (x # xs) then Some 0 else map_option Suc (find_sub pat xs))"

lemma find_char_Some:
  "find_char c s = Some i \<Longrightarrow> i < length s \<and> s ! i = c \<and> c \<notin> set (take i s)"
proof (induction s arbitrary: i)
  case Nil
  then show ?case by simp
next
  case (Cons x xs)
  then show ?case by (cases "x = c") (auto split: if_splits)
qed

lemma find_char_None: "find_char c s = None \<longleftrightarrow> c \<notin> set s"
  by (induction s) auto

lemma is_prefix_append [simp]: "is_prefix xs (xs @ ys)"
  by (induction xs) auto

section \<open>Formatting numbers\<close>

definition digit_char :: "nat \<Rightarrow> char" where
  "digit_char d = char_of (48 + d)"

fun dec_of_nat :: "nat \<Rightarrow> string" where
  "dec_of_nat n = (if n < 10 then [digit_char n] else dec_of_nat (n div 10) @ [digit_char (n mod 10)])"

declare dec_of_nat.simps [simp del]

text \<open>\<^verbatim>\<open>%d\<close> and \<^verbatim>\<open>PRId64\<close>.\<close>

definition dec_of_int :: "int \<Rightarrow> string" where
  "dec_of_int i = (if i < 0 then CHR ''-'' # dec_of_nat (nat (- i)) else dec_of_nat (nat i))"

lemma dec_of_nat_nonempty [simp]: "dec_of_nat n \<noteq> []"
  by (subst dec_of_nat.simps) simp

lemma dec_of_int_nonempty [simp]: "dec_of_int i \<noteq> []"
  by (simp add: dec_of_int_def)

section \<open>Fixed arrays\<close>

text \<open>The index of the first slot that satisfies a test: the loop
  \<^verbatim>\<open>for (i = 0; i < n; i++) if (test(a[i])) ...\<close>.\<close>

fun first_index :: "('a \<Rightarrow> bool) \<Rightarrow> 'a list \<Rightarrow> nat option" where
  "first_index P [] = None"
| "first_index P (x # xs) = (if P x then Some 0 else map_option Suc (first_index P xs))"

lemma first_index_Some:
  "first_index P xs = Some i \<Longrightarrow> i < length xs \<and> P (xs ! i) \<and> (\<forall>j < i. \<not> P (xs ! j))"
proof (induction xs arbitrary: i)
  case Nil
  then show ?case by simp
next
  case (Cons x xs)
  show ?case
  proof (cases "P x")
    case True
    with Cons.prems show ?thesis by simp
  next
    case False
    with Cons.prems obtain k where k: "first_index P xs = Some k" and i: "i = Suc k" by auto
    from Cons.IH [OF k] False i show ?thesis by (auto simp: less_Suc_eq_0_disj)
  qed
qed

lemma first_index_None: "first_index P xs = None \<longleftrightarrow> (\<forall>x \<in> set xs. \<not> P x)"
  by (induction xs) auto

lemma first_index_exists: "x \<in> set xs \<Longrightarrow> P x \<Longrightarrow> \<exists>i. first_index P xs = Some i"
  using first_index_None [of P xs] by (cases "first_index P xs") auto

lemma replicate_numeral: "replicate (numeral k) x = x # replicate (pred_numeral k) x"
  by (simp add: numeral_eq_Suc)

lemma distinct_map_filter_nth:
  "(\<And>i j. i < length xs \<Longrightarrow> j < length xs \<Longrightarrow> P (xs ! i) \<Longrightarrow> P (xs ! j) \<Longrightarrow> f (xs ! i) = f (xs ! j) \<Longrightarrow> i = j) \<Longrightarrow>
   distinct (map f (filter P xs))"
proof (induction xs)
  case (Cons x xs)
  have ih: "distinct (map f (filter P xs))"
  proof (rule Cons.IH)
    fix i j
    assume "i < length xs" "j < length xs" "P (xs ! i)" "P (xs ! j)" "f (xs ! i) = f (xs ! j)"
    then show "i = j" using Cons.prems [of "Suc i" "Suc j"] by simp
  qed
  have "f x \<notin> f ` set (filter P xs)" if "P x"
  proof
    assume "f x \<in> f ` set (filter P xs)"
    then obtain j where "j < length xs" "P (xs ! j)" "f x = f (xs ! j)" by (auto simp: in_set_conv_nth)
    then show False using Cons.prems [of 0 "Suc j"] \<open>P x\<close> by simp
  qed
  then show ?case using ih by simp
qed simp

end
