(* ===== verification/Ably_Types.thy ===== *)
theory Ably_Types
  imports Ably_Prelude
begin

text \<open>
  The public data types of \<^verbatim>\<open>include/ably/ably_types.h\<close>: error codes, wire encodings, connection
  and channel states, messages, presence messages, occupancy metrics and error information, with
  the capacity constants that bound every fixed-size structure of the library.
\<close>

section \<open>Capacity constants\<close>

definition ABLY_MAX_CHANNELS :: nat where "ABLY_MAX_CHANNELS = 64"
definition ABLY_MAX_CHANNEL_NAME_LEN :: nat where "ABLY_MAX_CHANNEL_NAME_LEN = 256"
definition ABLY_MAX_SUBSCRIBERS_PER_CHANNEL :: nat where "ABLY_MAX_SUBSCRIBERS_PER_CHANNEL = 32"
definition ABLY_SEND_RING_CAPACITY :: nat where "ABLY_SEND_RING_CAPACITY = 256"
definition ABLY_MAX_KEY_LEN :: nat where "ABLY_MAX_KEY_LEN = 256"
definition ABLY_MAX_MESSAGE_NAME_LEN :: nat where "ABLY_MAX_MESSAGE_NAME_LEN = 256"
definition ABLY_MAX_MESSAGE_DATA_LEN :: nat where "ABLY_MAX_MESSAGE_DATA_LEN = 32 * 1024"
definition ABLY_MAX_CLIENT_ID_LEN :: nat where "ABLY_MAX_CLIENT_ID_LEN = 256"
definition ABLY_MAX_PRESENCE_MEMBERS :: nat where "ABLY_MAX_PRESENCE_MEMBERS = 128"

lemmas capacity_defs =
  ABLY_MAX_CHANNELS_def ABLY_MAX_CHANNEL_NAME_LEN_def ABLY_MAX_SUBSCRIBERS_PER_CHANNEL_def
  ABLY_SEND_RING_CAPACITY_def ABLY_MAX_KEY_LEN_def ABLY_MAX_MESSAGE_NAME_LEN_def
  ABLY_MAX_MESSAGE_DATA_LEN_def ABLY_MAX_CLIENT_ID_LEN_def ABLY_MAX_PRESENCE_MEMBERS_def

section \<open>Error codes\<close>

datatype ably_error =
    ABLY_OK | ABLY_ERR_NOMEM | ABLY_ERR_INVALID_ARG | ABLY_ERR_AUTH | ABLY_ERR_NETWORK
  | ABLY_ERR_HTTP | ABLY_ERR_PROTOCOL | ABLY_ERR_TIMEOUT | ABLY_ERR_STATE | ABLY_ERR_THREAD
  | ABLY_ERR_CAPACITY | ABLY_ERR_INTERNAL

text \<open>The enumerators' integer values (some calls return them as \<^verbatim>\<open>int\<close>).\<close>

fun ably_error_code :: "ably_error \<Rightarrow> int" where
  "ably_error_code ABLY_OK = 0"
| "ably_error_code ABLY_ERR_NOMEM = -1"
| "ably_error_code ABLY_ERR_INVALID_ARG = -2"
| "ably_error_code ABLY_ERR_AUTH = -3"
| "ably_error_code ABLY_ERR_NETWORK = -4"
| "ably_error_code ABLY_ERR_HTTP = -5"
| "ably_error_code ABLY_ERR_PROTOCOL = -6"
| "ably_error_code ABLY_ERR_TIMEOUT = -7"
| "ably_error_code ABLY_ERR_STATE = -8"
| "ably_error_code ABLY_ERR_THREAD = -9"
| "ably_error_code ABLY_ERR_CAPACITY = -10"
| "ably_error_code ABLY_ERR_INTERNAL = -99"

fun ably_error_str :: "ably_error \<Rightarrow> string" where
  "ably_error_str ABLY_OK = ''OK''"
| "ably_error_str ABLY_ERR_NOMEM = ''out of memory''"
| "ably_error_str ABLY_ERR_INVALID_ARG = ''invalid argument''"
| "ably_error_str ABLY_ERR_AUTH = ''authentication failure''"
| "ably_error_str ABLY_ERR_NETWORK = ''network error''"
| "ably_error_str ABLY_ERR_HTTP = ''unexpected HTTP status''"
| "ably_error_str ABLY_ERR_PROTOCOL = ''protocol error''"
| "ably_error_str ABLY_ERR_TIMEOUT = ''operation timed out''"
| "ably_error_str ABLY_ERR_STATE = ''invalid state for operation''"
| "ably_error_str ABLY_ERR_THREAD = ''thread error''"
| "ably_error_str ABLY_ERR_CAPACITY = ''capacity limit reached''"
| "ably_error_str ABLY_ERR_INTERNAL = ''internal error''"

section \<open>Encodings and states\<close>

datatype ably_encoding = ENCODING_JSON | ENCODING_MSGPACK

datatype ably_connection_state =
    CONN_INITIALIZED | CONN_CONNECTING | CONN_CONNECTED | CONN_DISCONNECTED
  | CONN_SUSPENDED | CONN_CLOSING | CONN_CLOSED | CONN_FAILED

datatype ably_channel_state =
    CHAN_INITIALIZED | CHAN_ATTACHING | CHAN_ATTACHED | CHAN_DETACHING | CHAN_DETACHED | CHAN_FAILED

datatype ably_presence_action =
    PRESENCE_ABSENT | PRESENCE_PRESENT | PRESENCE_ENTER | PRESENCE_LEAVE | PRESENCE_UPDATE
  | PRESENCE_OTHER int \<comment> \<open>a decoded integer that is none of the enumerators\<close>

fun presence_action_of_int :: "int \<Rightarrow> ably_presence_action" where
  "presence_action_of_int i =
     (if i = 0 then PRESENCE_ABSENT else if i = 1 then PRESENCE_PRESENT
      else if i = 2 then PRESENCE_ENTER else if i = 3 then PRESENCE_LEAVE
      else if i = 4 then PRESENCE_UPDATE else PRESENCE_OTHER i)"

fun presence_action_code :: "ably_presence_action \<Rightarrow> int" where
  "presence_action_code PRESENCE_ABSENT = 0"
| "presence_action_code PRESENCE_PRESENT = 1"
| "presence_action_code PRESENCE_ENTER = 2"
| "presence_action_code PRESENCE_LEAVE = 3"
| "presence_action_code PRESENCE_UPDATE = 4"
| "presence_action_code (PRESENCE_OTHER i) = i"

lemma presence_action_roundtrip: "presence_action_code (presence_action_of_int i) = i"
  by simp

section \<open>Messages\<close>

record ably_message =
  am_id :: "string option"
  am_name :: "string option"
  am_data :: "string option"
  am_client_id :: "string option"
  am_timestamp :: int

record ably_presence_message =
  pm_action :: ably_presence_action
  pm_client_id :: string
  pm_connection_id :: string
  pm_data :: string
  pm_timestamp :: int

record ably_occupancy =
  occ_connections :: int
  occ_publishers :: int
  occ_subscribers :: int
  occ_presence_connections :: int
  occ_presence_members :: int
  occ_presence_subscribers :: int

definition zero_occupancy :: ably_occupancy where
  "zero_occupancy = \<lparr>occ_connections = 0, occ_publishers = 0, occ_subscribers = 0,
     occ_presence_connections = 0, occ_presence_members = 0, occ_presence_subscribers = 0\<rparr>"

record ably_error_info =
  ably_code :: int
  err_message :: string

definition no_error_info :: ably_error_info where
  "no_error_info = \<lparr>ably_code = 0, err_message = []\<rparr>"

definition error_info :: "int \<Rightarrow> string option \<Rightarrow> ably_error_info" where
  "error_info code msg = \<lparr>ably_code = code, err_message = c_copy 256 (c_str msg)\<rparr>"

record ably_history_page =
  hp_items :: "ably_message list"
  hp_next_cursor :: string

end
