(* ===== verification/Ably_Base64.thy ===== *)
theory Ably_Base64
  imports Ably_Types
begin

text \<open>
  \<^verbatim>\<open>src/base64.c\<close>: the RFC 4648 encoder used for the \<^verbatim>\<open>Authorization\<close> header and the WebSocket
  key, and the decoder used for binary payloads and VCDIFF deltas. The bytes are 8-bit words, the
  24-bit groups 32-bit words, shifted and masked as in the source.
\<close>

section \<open>Encoding\<close>

definition b64_table :: string where
  "b64_table = ''ABCDEFGHIJKLMNOPQRSTUVWXYZabcdefghijklmnopqrstuvwxyz0123456789+/''"

definition ably_base64_encode_len :: "nat \<Rightarrow> nat" where
  "ably_base64_encode_len src_len = ((src_len + 2) div 3) * 4 + 1"

text \<open>A 24-bit group, and \<^verbatim>\<open>b64_table[(triple >> k) & 0x3F]\<close>.\<close>

definition b64_triple :: "byte \<Rightarrow> byte \<Rightarrow> byte \<Rightarrow> u32" where
  "b64_triple a b c = push_bit 16 (ucast a) OR push_bit 8 (ucast b) OR ucast c"

definition b64_pick :: "u32 \<Rightarrow> nat \<Rightarrow> char" where
  "b64_pick triple k = b64_table ! unat (drop_bit k triple AND 0x3F)"

text \<open>The main loop takes three bytes at a time; what is left (one or two bytes) makes the padded
  group, in which the absent bytes contribute no bits.\<close>

fun ably_base64_encode :: "byte list \<Rightarrow> string" where
  "ably_base64_encode (a # b # c # src) =
     (let triple = b64_triple a b c
      in [b64_pick triple 18, b64_pick triple 12, b64_pick triple 6, b64_pick triple 0]
         @ ably_base64_encode src)"
| "ably_base64_encode [a, b] =
     (let triple = b64_triple a b 0
      in [b64_pick triple 18, b64_pick triple 12, b64_pick triple 6, CHR ''=''])"
| "ably_base64_encode [a] =
     (let triple = b64_triple a 0 0
      in [b64_pick triple 18, b64_pick triple 12, CHR ''='', CHR ''=''])"
| "ably_base64_encode [] = []"

section \<open>Decoding\<close>

definition ably_base64_decode_max_len :: "nat \<Rightarrow> nat" where
  "ably_base64_decode_max_len encoded_len = (encoded_len div 4) * 3 + 3"

text \<open>The decode table: \<open>-1\<close> invalid, \<open>-2\<close> padding, otherwise the sextet.\<close>

definition b64_dec :: "int list" where
  "b64_dec =
     replicate 32 (-1) @
     replicate 11 (-1) @ [62, -1, -1, -1, 63] @
     [52, 53, 54, 55, 56, 57, 58, 59, 60, 61, -1, -1, -1, -2, -1, -1] @
     [-1, 0, 1, 2, 3, 4, 5, 6, 7, 8, 9, 10, 11, 12, 13, 14] @
     [15, 16, 17, 18, 19, 20, 21, 22, 23, 24, 25, -1, -1, -1, -1, -1] @
     [-1, 26, 27, 28, 29, 30, 31, 32, 33, 34, 35, 36, 37, 38, 39, 40] @
     [41, 42, 43, 44, 45, 46, 47, 48, 49, 50, 51, -1, -1, -1, -1, -1] @
     replicate 128 (-1)"

definition b64_val :: "char \<Rightarrow> int" where
  "b64_val c = b64_dec ! of_char c"

text \<open>\<^verbatim>\<open>(uint8_t)((x << m) | (y >> n))\<close> for two table values.\<close>

definition b64_join :: "int \<Rightarrow> nat \<Rightarrow> int \<Rightarrow> nat \<Rightarrow> byte" where
  "b64_join x m y n = ucast (push_bit m (of_int x :: u32) OR drop_bit n (of_int y))"

text \<open>The loop over complete groups of four; \<open>out\<close> holds the bytes written so far, \<open>None\<close> is the
  result \<open>-1\<close>. The padding character ends the loop.\<close>

fun b64_decode_loop :: "nat \<Rightarrow> byte list \<Rightarrow> string \<Rightarrow> byte list option" where
  "b64_decode_loop dst_len out (p # q # r # s # src) =
     (let a = b64_val p; b = b64_val q; c = b64_val r; d = b64_val s
      in if a < 0 \<or> b < 0 then None
         else if length out + 1 > dst_len then None
         else let out1 = out @ [b64_join a 2 b 4]
         in if c = -2 then Some out1
         else if c < 0 then None
         else if length out1 + 1 > dst_len then None
         else let out2 = out1 @ [b64_join b 4 c 2]
         in if d = -2 then Some out2
         else if d < 0 then None
         else if length out2 + 1 > dst_len then None
         else b64_decode_loop dst_len (out2 @ [b64_join c 6 d 0]) src)"
| "b64_decode_loop dst_len out _ = Some out"

definition b64_skip :: "char \<Rightarrow> bool" where
  "b64_skip c \<longleftrightarrow> c = CHR 0x00 \<or> c = CHR 0x0A \<or> c = CHR 0x0D \<or> c = CHR '' ''"

text \<open>The trailing whitespace loop shortens \<open>src_len\<close>.\<close>

definition b64_strip :: "string \<Rightarrow> string" where
  "b64_strip s = rev (dropWhile b64_skip (rev s))"

definition ably_base64_decode :: "nat \<Rightarrow> string \<Rightarrow> byte list option" where
  "ably_base64_decode dst_len src = b64_decode_loop dst_len [] (b64_strip src)"

section \<open>Lengths and alphabet\<close>

lemma length_b64_table [simp]: "length b64_table = 64"
  by (simp add: b64_table_def)

lemma b64_groups_step: "(5 + n) div 3 = Suc (Suc (Suc n) div 3)"
  by presburger

lemma length_ably_base64_encode: "length (ably_base64_encode xs) + 1 = ably_base64_encode_len (length xs)"
  by (induction xs rule: ably_base64_encode.induct)
     (auto simp: ably_base64_encode_len_def Let_def b64_groups_step)

lemma b64_index_bound: "unat (drop_bit k (t :: u32) AND 0x3F) < 64"
proof -
  have "drop_bit k t AND 0x3F \<le> 0x3F" by (rule word_and_le1)
  then show ?thesis by (simp add: word_le_nat_alt)
qed

lemma b64_pick_in_table: "b64_pick t k \<in> set b64_table"
  unfolding b64_pick_def by (rule nth_mem) (simp add: b64_index_bound)

lemma set_ably_base64_encode: "set (ably_base64_encode xs) \<subseteq> insert (CHR ''='') (set b64_table)"
  by (induction xs rule: ably_base64_encode.induct) (auto simp: Let_def b64_pick_in_table)

section \<open>Decoding what was encoded\<close>

lemma b64_val_table: "i < 64 \<Longrightarrow> b64_val (b64_table ! i) = int i"
proof -
  have "map b64_val b64_table = map int [0..<64]"
    by (simp add: b64_table_def b64_val_def b64_dec_def nth_append upt_rec)
  then have "map b64_val b64_table ! i = map int [0..<64] ! i" by (rule arg_cong)
  then show "i < 64 \<Longrightarrow> ?thesis" by simp
qed

lemma b64_val_pick: "b64_val (b64_pick t k) = int (unat (drop_bit k t AND 0x3F))"
  unfolding b64_pick_def by (rule b64_val_table) (rule b64_index_bound)

lemma b64_val_pad: "b64_val (CHR ''='') = -2"
  by code_simp

lemma b64_val_pick_nonneg [simp]: "\<not> b64_val (b64_pick t k) < 0" "b64_val (b64_pick t k) \<noteq> -2"
proof -
  have "0 \<le> b64_val (b64_pick t k)" by (simp add: b64_val_pick)
  then show "\<not> b64_val (b64_pick t k) < 0" "b64_val (b64_pick t k) \<noteq> -2" by linarith+
qed

lemma b64_mask: "(0x3F :: u32) = mask 6"
  by (simp add: mask_eq_exp_minus_1)

lemma b64_join_pick:
  "b64_join (b64_val (b64_pick t k)) m (b64_val (b64_pick u l)) n =
     ucast (push_bit m (drop_bit k t AND mask 6) OR drop_bit n (drop_bit l u AND mask 6))"
  unfolding b64_join_def b64_val_pick b64_mask by simp

lemma b64_Suc2: "2 \<le> n \<Longrightarrow> Suc (Suc (n - 2)) = n"
  by simp

lemma b64_group_a:
  "b64_join (b64_val (b64_pick (b64_triple a b c) 18)) 2 (b64_val (b64_pick (b64_triple a b c) 12)) 4 = a"
  unfolding b64_join_pick b64_triple_def
  by (rule bit_word_eqI) (auto simp: bit_simps b64_Suc2 dest: bit_imp_le_length)

lemma b64_group_b:
  "b64_join (b64_val (b64_pick (b64_triple a b c) 12)) 4 (b64_val (b64_pick (b64_triple a b c) 6)) 2 = b"
  unfolding b64_join_pick b64_triple_def
  by (rule bit_word_eqI) (auto simp: bit_simps b64_Suc2 dest: bit_imp_le_length)

lemma b64_group_c:
  "b64_join (b64_val (b64_pick (b64_triple a b c) 6)) 6 (b64_val (b64_pick (b64_triple a b c) 0)) 0 = c"
  unfolding b64_join_pick b64_triple_def
  by (rule bit_word_eqI) (auto simp: bit_simps b64_Suc2 dest: bit_imp_le_length)

lemmas b64_group = b64_group_a b64_group_b b64_group_c

lemma b64_strip_id: "(s = [] \<or> \<not> b64_skip (last s)) \<Longrightarrow> b64_strip s = s"
  by (cases s rule: rev_cases) (auto simp: b64_strip_def)

lemma not_skip_table: "c \<in> insert (CHR ''='') (set b64_table) \<Longrightarrow> \<not> b64_skip c"
  by (auto simp: b64_skip_def b64_table_def)

lemma b64_decode_loop_encode:
  "length out + length xs \<le> dst_len \<Longrightarrow>
   b64_decode_loop dst_len out (ably_base64_encode xs) = Some (out @ xs)"
  by (induction xs arbitrary: out rule: ably_base64_encode.induct)
     (simp_all add: Let_def b64_group b64_val_pad)

lemma b64_strip_encode: "b64_strip (ably_base64_encode xs) = ably_base64_encode xs"
proof (rule b64_strip_id, cases "ably_base64_encode xs = []")
  case False
  then have "last (ably_base64_encode xs) \<in> insert (CHR ''='') (set b64_table)"
    using set_ably_base64_encode last_in_set by blast
  then show "ably_base64_encode xs = [] \<or> \<not> b64_skip (last (ably_base64_encode xs))"
    using not_skip_table by blast
qed simp

lemma b64_decode_loop_length:
  "b64_decode_loop dst_len out src = Some ys \<Longrightarrow> length out \<le> dst_len \<Longrightarrow>
     length ys \<le> dst_len \<and> length ys \<le> length out + 3 * (length src div 4)"
proof (induction dst_len out src rule: b64_decode_loop.induct)
  case (1 dst_len out p q r s src)
  have step: "length (p # q # r # s # src) div 4 = Suc (length src div 4)" by simp
  show ?case using "1.prems" "1.IH" [OF refl refl refl refl _ _ refl _ _ _ refl]
    unfolding step by (auto simp add: Let_def split: if_splits)
qed auto

lemma b64_decode_loop_trailing:
  "length xs mod 3 = 0 \<Longrightarrow> length out + length xs \<le> dst_len \<Longrightarrow>
   b64_decode_loop dst_len out (ably_base64_encode xs @ ys) = b64_decode_loop dst_len (out @ xs) ys"
  by (induction xs arbitrary: out rule: ably_base64_encode.induct)
     (simp_all add: Let_def b64_group b64_val_pad)

lemma base64_decode_encode:
  "length xs \<le> dst_len \<Longrightarrow> ably_base64_decode dst_len (ably_base64_encode xs) = Some xs"
  by (simp add: ably_base64_decode_def b64_strip_encode b64_decode_loop_encode)

lemma length_base64_encode: "length (ably_base64_encode xs) = (length xs + 2) div 3 * 4"
proof (induction xs rule: ably_base64_encode.induct)
  case (1 a b c src)
  have "(5 + n) div 3 = Suc ((n + 2) div 3)" for n :: nat by presburger
  then show ?case using 1 by (simp add: Let_def)
qed (simp_all add: Let_def)

section \<open>Properties\<close>

text \<open>C39. Base64 round trip: decoding an encoded buffer into a destination that is large enough gives
  the buffer back.\<close>

theorem base64_roundtrip:
  "length xs \<le> dst_len \<Longrightarrow> ably_base64_decode dst_len (ably_base64_encode xs) = Some xs"
  by (rule base64_decode_encode)

lemma base64_roundtrip_witness:
  "ably_base64_decode 4 (ably_base64_encode [0xD6, 0xC3, 0xC4, 0x00]) = Some [0xD6, 0xC3, 0xC4, 0x00]"
  using base64_roundtrip [of "[0xD6, 0xC3, 0xC4, 0x00]" 4] by simp

lemma length_b64_strip: "length (b64_strip s) \<le> length s"
  by (simp add: b64_strip_def) (metis length_dropWhile_le length_rev)

text \<open>Whatever the input, the decoder never writes past the caller's buffer, and never more than
  three bytes for each complete group of four characters, so a buffer of
  \<open>ably_base64_decode_max_len\<close> bytes always suffices.\<close>

theorem base64_decode_bound:
  assumes "ably_base64_decode dst_len src = Some ys"
  shows "length ys \<le> dst_len \<and> length ys < ably_base64_decode_max_len (length src)"
proof -
  have "length ys \<le> dst_len" "length ys \<le> 3 * (length (b64_strip src) div 4)"
    using b64_decode_loop_length [of dst_len "[]"] assms by (auto simp: ably_base64_decode_def)
  moreover have "length (b64_strip src) div 4 \<le> length src div 4"
    by (rule div_le_mono) (rule length_b64_strip)
  ultimately show ?thesis by (simp add: ably_base64_decode_max_len_def)
qed

lemma base64_decode_bound_witness:
  "ably_base64_decode 8 ''TWE='' = Some [0x4D, 0x61] \<and>
   length [0x4D, 0x61 :: byte] \<le> 8 \<and> length [0x4D, 0x61 :: byte] < ably_base64_decode_max_len 4"
proof -
  have v: "b64_val (CHR ''T'') = 19" "b64_val (CHR ''W'') = 22" "b64_val (CHR ''E'') = 4"
    "b64_val (CHR ''='') = -2" by code_simp+
  have d: "ably_base64_decode 8 ''TWE='' = Some [0x4D, 0x61]"
    by (simp add: ably_base64_decode_def b64_strip_def b64_skip_def b64_join_def v)
  then show ?thesis using base64_decode_bound [OF d] by (simp add: ably_base64_decode_max_len_def)
qed

text \<open>An incomplete last group is silently dropped: after complete groups, up to three further
  characters of any kind (which cannot encode anything) are ignored, although the header promises
  \<open>-1\<close> on invalid input.\<close>

theorem base64_incomplete_group_accepted:
  assumes "length xs mod 3 = 0" "length xs \<le> dst_len"
    and "length junk < 4" "junk \<noteq> []" "\<not> b64_skip (last junk)"
  shows "ably_base64_decode dst_len (ably_base64_encode xs @ junk) = Some xs"
proof -
  have "b64_strip (ably_base64_encode xs @ junk) = ably_base64_encode xs @ junk"
    using assms by (intro b64_strip_id) simp
  moreover have "b64_decode_loop dst_len xs junk = Some xs"
    using assms(3) by (cases "(dst_len, xs, junk)" rule: b64_decode_loop.cases) auto
  ultimately show ?thesis
    using b64_decode_loop_trailing [of xs "[]" dst_len junk] assms
    by (simp add: ably_base64_decode_def)
qed

lemma base64_incomplete_group_accepted_witness:
  "ably_base64_decode 3 (ably_base64_encode [0x4D, 0x61, 0x6E] @ ''!?'') = Some [0x4D, 0x61, 0x6E]"
  by (rule base64_incomplete_group_accepted) (simp_all add: b64_skip_def)

end
