(* ===== verification/Ably_Vcdiff.thy ===== *)
theory Ably_Vcdiff
  imports Ably_Types
begin

text \<open>
  \<^verbatim>\<open>src/delta/vcdiff.c\<close>: the VCDIFF decoder applied to delta-compressed messages, an untrusted
  binary format. A pointer pair \<^verbatim>\<open>(cursor, end)\<close> is the list of bytes between the two; \<^verbatim>\<open>output\<close>
  and \<^verbatim>\<open>out_pos\<close> are the list of bytes written so far.

  Every read, write and pointer movement of the C code is a checked access here (\<open>vc_nth\<close>, \<open>vc_upd\<close>,
  \<open>vc_slice\<close>, \<open>vc_read\<close>, \<open>vc_write\<close>), whatever the code tests before it: outside its object it gives \<open>VC_FAULT\<close>
  (undefined behaviour in C), so that memory safety is a statement about results and a test that is missing shows.
  Only the loops \<^verbatim>\<open>while (p < end)\<close> that read one byte at \<^verbatim>\<open>p\<close> are matches on the list. The 64-bit lengths read from the delta stay words, because their sum is computed
  in 64 bits.
\<close>

section \<open>Results\<close>

datatype vcdiff_error =
    VCDIFF_ERR_INVALID_MAGIC | VCDIFF_ERR_SECONDARY_COMP | VCDIFF_ERR_CUSTOM_TABLE
  | VCDIFF_ERR_TRUNCATED | VCDIFF_ERR_INVALID | VCDIFF_ERR_OUTPUT_FULL | VCDIFF_ERR_BAD_OPCODE

datatype vc_fault =
    BadAccess \<comment> \<open>a read or write outside its array\<close>
  | SectionsPastEnd nat nat nat
      \<comment> \<open>pointers to the three sections (of these lengths) formed past the end of the delta\<close>

datatype 'a vc_result = VC_OK 'a | VC_ERR vcdiff_error | VC_FAULT vc_fault

fun vc_bind :: "'a vc_result \<Rightarrow> ('a \<Rightarrow> 'b vc_result) \<Rightarrow> 'b vc_result" where
  "vc_bind (VC_OK x) f = f x"
| "vc_bind (VC_ERR e) f = VC_ERR e"
| "vc_bind (VC_FAULT u) f = VC_FAULT u"

lemma vc_bind_OK: "vc_bind m f = VC_OK y \<longleftrightarrow> (\<exists>x. m = VC_OK x \<and> f x = VC_OK y)"
  by (cases m) auto

lemma vc_bind_FAULT:
  "vc_bind m f = VC_FAULT u \<longleftrightarrow> m = VC_FAULT u \<or> (\<exists>x. m = VC_OK x \<and> f x = VC_FAULT u)"
  by (cases m) auto

lemma vc_bind_cong [fundef_cong]:
  "m = m' \<Longrightarrow> (\<And>x. m' = VC_OK x \<Longrightarrow> f x = f' x) \<Longrightarrow> vc_bind m f = vc_bind m' f'"
  by (cases m') auto

text \<open>\<^verbatim>\<open>a[i]\<close>, \<^verbatim>\<open>a[i] = v\<close>, and the bytes \<^verbatim>\<open>p .. p + len\<close> of an object.\<close>

definition vc_nth :: "'a list \<Rightarrow> nat \<Rightarrow> 'a vc_result" where
  "vc_nth xs i = (if i < length xs then VC_OK (xs ! i) else VC_FAULT BadAccess)"

definition vc_upd :: "'a list \<Rightarrow> nat \<Rightarrow> 'a \<Rightarrow> 'a list vc_result" where
  "vc_upd xs i v = (if i < length xs then VC_OK (xs[i := v]) else VC_FAULT BadAccess)"

definition vc_slice :: "'a list \<Rightarrow> nat \<Rightarrow> nat \<Rightarrow> 'a list vc_result" where
  "vc_slice xs pos len =
     (if pos + len \<le> length xs then VC_OK (take len (drop pos xs)) else VC_FAULT BadAccess)"

text \<open>\<open>n\<close> bytes at a cursor that moves behind them, and bytes stored at \<^verbatim>\<open>output + out_pos\<close> (\<^verbatim>\<open>memcpy\<close>, \<^verbatim>\<open>memset\<close>, a
  single store), which must lie in the \<open>cap\<close> bytes of the output buffer.\<close>

definition vc_read :: "nat \<Rightarrow> 'a list \<Rightarrow> ('a list \<times> 'a list) vc_result" where
  "vc_read n p = (if n \<le> length p then VC_OK (take n p, drop n p) else VC_FAULT BadAccess)"

definition vc_write :: "nat \<Rightarrow> 'a list \<Rightarrow> 'a list \<Rightarrow> 'a list vc_result" where
  "vc_write cap out bs = (if length out + length bs \<le> cap then VC_OK (out @ bs) else VC_FAULT BadAccess)"

lemma vc_read_OK [simp]: "vc_read n p = VC_OK (x, q) \<longleftrightarrow> n \<le> length p \<and> x = take n p \<and> q = drop n p"
  by (auto simp: vc_read_def)

lemma vc_read_FAULT [simp]: "vc_read n p = VC_FAULT u \<longleftrightarrow> length p < n \<and> u = BadAccess"
  by (auto simp: vc_read_def)

lemma vc_write_OK [simp]: "vc_write cap out bs = VC_OK out' \<longleftrightarrow> length out + length bs \<le> cap \<and> out' = out @ bs"
  by (auto simp: vc_write_def)

lemma vc_write_FAULT [simp]: "vc_write cap out bs = VC_FAULT u \<longleftrightarrow> cap < length out + length bs \<and> u = BadAccess"
  by (auto simp: vc_write_def)

lemmas vc_access_defs = vc_read_def vc_write_def

section \<open>The code table\<close>

datatype inst = INST_NOOP | INST_ADD | INST_RUN | INST_COPY

record code_entry =
  ce_t1 :: inst
  ce_s1 :: nat
  ce_m1 :: nat
  ce_t2 :: inst
  ce_s2 :: nat
  ce_m2 :: nat

definition code_entry :: "inst \<Rightarrow> nat \<Rightarrow> nat \<Rightarrow> inst \<Rightarrow> nat \<Rightarrow> nat \<Rightarrow> code_entry" where
  "code_entry t1 s1 m1 t2 s2 m2 =
     \<lparr>ce_t1 = t1, ce_s1 = s1, ce_m1 = m1, ce_t2 = t2, ce_s2 = s2, ce_m2 = m2\<rparr>"

definition S_NEAR :: nat where "S_NEAR = 4"
definition S_SAME :: nat where "S_SAME = 3"
definition NUM_MODES :: nat where "NUM_MODES = 2 + S_NEAR + S_SAME"

lemmas mode_defs = S_NEAR_def S_SAME_def NUM_MODES_def

text \<open>The entries in the order in which the loops store them; entry 255 stays zero.\<close>

definition build_code_table :: "code_entry list" where
  "build_code_table =
     [code_entry INST_NOOP 0 0 INST_NOOP 0 0] @
     map (\<lambda>sz. code_entry INST_ADD sz 0 INST_NOOP 0 0) [0..<17] @
     [code_entry INST_RUN 0 0 INST_NOOP 0 0] @
     concat (map (\<lambda>m. code_entry INST_COPY 0 m INST_NOOP 0 0 #
        map (\<lambda>sz. code_entry INST_COPY sz m INST_NOOP 0 0) [4..<19]) [0..<NUM_MODES]) @
     concat (map (\<lambda>a. concat (map (\<lambda>m.
        map (\<lambda>sz. code_entry INST_ADD a 0 INST_COPY sz m) [4..<7]) [0..<NUM_MODES - 3])) [1..<5]) @
     concat (map (\<lambda>m.
        map (\<lambda>a. code_entry INST_COPY 4 m INST_ADD a 0) [1..<5]) [0..<NUM_MODES - 4]) @
     [code_entry INST_NOOP 0 0 INST_NOOP 0 0]"

section \<open>Variable-length integers\<close>

text \<open>\<^verbatim>\<open>read_varint\<close>: the value and the number of bytes consumed, or \<open>None\<close> (the result 0) when
  the bytes run out or the ninth byte still has its continuation bit.\<close>

fun read_varint_loop :: "u64 \<Rightarrow> nat \<Rightarrow> byte list \<Rightarrow> (u64 \<times> nat) option" where
  "read_varint_loop v n [] = None"
| "read_varint_loop v n (b # bs) =
     (let n' = n + 1; v' = push_bit 7 v OR ucast (b AND 0x7F)
      in if b AND 0x80 = 0 then Some (v', n')
         else if 9 \<le> n' then None
         else read_varint_loop v' n' bs)"

definition read_varint :: "byte list \<Rightarrow> (u64 \<times> nat) option" where
  "read_varint bs = read_varint_loop 0 0 bs"

text \<open>\<^verbatim>\<open>n = read_varint(p, end, &v); if (!n) return ABLY_VCDIFF_ERR_TRUNCATED; p += n;\<close>\<close>

definition vc_varint :: "byte list \<Rightarrow> (u64 \<times> byte list) vc_result" where
  "vc_varint p = (case read_varint p of None \<Rightarrow> VC_ERR VCDIFF_ERR_TRUNCATED
                  | Some (v, n) \<Rightarrow> VC_OK (v, drop n p))"

text \<open>A byte read guarded by \<^verbatim>\<open>p >= end\<close>.\<close>

definition vc_byte :: "byte list \<Rightarrow> (byte \<times> byte list) vc_result" where
  "vc_byte p =
     (if p = [] then VC_ERR VCDIFF_ERR_TRUNCATED
      else vc_bind (vc_read 1 p) (\<lambda>(bs, p). VC_OK (hd bs, p)))"

lemma vc_byte_simps [simp]:
  shows "vc_byte [] = VC_ERR VCDIFF_ERR_TRUNCATED" "vc_byte (b # p) = VC_OK (b, p)"
  by (simp_all add: vc_byte_def vc_read_def)

section \<open>Instructions\<close>

text \<open>The state of one window: address caches, the three section cursors, the output, and how much
  of the output is this window's target.\<close>

record vc_window =
  near_cache :: "u32 list"
  near_next :: nat
  same_cache :: "u32 list"
  data_cur :: "byte list"
  inst_cur :: "byte list"
  addr_cur :: "byte list"
  vc_output :: "byte list"
  tgt_written :: nat

text \<open>The copy loop: \<open>combined\<close> is \<^verbatim>\<open>(size_t)addr + j\<close>, \<open>k\<close> the bytes still to copy.\<close>

fun copy_loop ::
  "byte list \<Rightarrow> nat \<Rightarrow> nat \<Rightarrow> nat \<Rightarrow> nat \<Rightarrow> byte list \<Rightarrow> nat \<Rightarrow> (byte list \<times> nat) vc_result" where
  "copy_loop seg out_cap start combined 0 out tw = VC_OK (out, tw)"
| "copy_loop seg out_cap start combined (Suc k) out tw =
     vc_bind
       (if combined < length seg then vc_nth seg combined
        else let tgt_off = combined - length seg
             in if tw \<le> tgt_off then VC_ERR VCDIFF_ERR_INVALID else vc_nth out (start + tgt_off))
       (\<lambda>b. vc_bind (vc_write out_cap out [b])
         (\<lambda>out. copy_loop seg out_cap start (combined + 1) k out (tw + 1)))"

text \<open>The address of a COPY: the four kinds of mode.\<close>

definition copy_address :: "nat \<Rightarrow> nat \<Rightarrow> vc_window \<Rightarrow> (u32 \<times> byte list) vc_result" where
  "copy_address mode src_len st =
     (if mode = 0 then
        vc_bind (vc_varint (addr_cur st)) (\<lambda>(a, p). VC_OK (ucast a, p))
      else if mode = 1 then
        vc_bind (vc_varint (addr_cur st))
          (\<lambda>(a, p). VC_OK (of_nat (src_len + tgt_written st) - ucast a, p))
      else if mode < 2 + S_NEAR then
        vc_bind (vc_varint (addr_cur st))
          (\<lambda>(a, p). vc_bind (vc_nth (near_cache st) (mode - 2)) (\<lambda>x. VC_OK (x + ucast a, p)))
      else
        let same_idx = mode - (2 + S_NEAR)
        in vc_bind (vc_byte (addr_cur st))
          (\<lambda>(b, p). vc_bind (vc_nth (same_cache st) (same_idx * 256 + unat b)) (\<lambda>x. VC_OK (x, p))))"

definition update_cache :: "u32 \<Rightarrow> vc_window \<Rightarrow> vc_window vc_result" where
  "update_cache addr st =
     vc_bind (vc_upd (near_cache st) (near_next st) addr) (\<lambda>near.
     vc_bind (vc_upd (same_cache st) (unat (addr mod of_nat (S_SAME * 256))) addr) (\<lambda>same.
       VC_OK (st\<lparr>near_cache := near, near_next := (near_next st + 1) mod S_NEAR,
                same_cache := same\<rparr>)))"

definition execute_copy :: "byte list \<Rightarrow> nat \<Rightarrow> nat \<Rightarrow> nat \<Rightarrow> nat \<Rightarrow> vc_window \<Rightarrow> vc_window vc_result" where
  "execute_copy seg out_cap start mode sz st =
     (if NUM_MODES \<le> mode then VC_ERR VCDIFF_ERR_BAD_OPCODE
      else vc_bind (copy_address mode (length seg) st)
        (\<lambda>(addr, p). vc_bind (update_cache addr (st\<lparr>addr_cur := p\<rparr>))
        (\<lambda>st1.
           if length (vc_output st1) + sz > out_cap then VC_ERR VCDIFF_ERR_OUTPUT_FULL
           else vc_bind
                (copy_loop seg out_cap start (unat addr) sz (vc_output st1) (tgt_written st1))
                (\<lambda>(out, tw). VC_OK (st1\<lparr>vc_output := out, tgt_written := tw\<rparr>)))))"

text \<open>\<^verbatim>\<open>size = isize\<close>, or a varint from the instruction section when \<^verbatim>\<open>isize == 0\<close>.\<close>

definition inst_size :: "nat \<Rightarrow> vc_window \<Rightarrow> (nat \<times> vc_window) vc_result" where
  "inst_size isize st =
     (if isize = 0
      then vc_bind (vc_varint (inst_cur st)) (\<lambda>(sz, p). VC_OK (unat sz, st\<lparr>inst_cur := p\<rparr>))
      else VC_OK (isize, st))"

text \<open>One pass of the two instructions of an opcode.\<close>

definition exec_inst :: "byte list \<Rightarrow> nat \<Rightarrow> nat \<Rightarrow> inst \<Rightarrow> nat \<Rightarrow> nat \<Rightarrow> vc_window \<Rightarrow> vc_window vc_result" where
  "exec_inst seg out_cap start itype isize imode st =
     (if itype = INST_NOOP then VC_OK st
      else vc_bind (inst_size isize st)
        (\<lambda>(sz, st).
           if itype = INST_ADD then
             (if length (data_cur st) < sz then VC_ERR VCDIFF_ERR_INVALID
              else if length (vc_output st) + sz > out_cap then VC_ERR VCDIFF_ERR_OUTPUT_FULL
              else vc_bind (vc_read sz (data_cur st)) (\<lambda>(bs, data).
                   vc_bind (vc_write out_cap (vc_output st) bs) (\<lambda>out.
                   VC_OK (st\<lparr>vc_output := out, data_cur := data, tgt_written := tgt_written st + sz\<rparr>))))
           else if itype = INST_RUN then
             (if data_cur st = [] then VC_ERR VCDIFF_ERR_INVALID
              else vc_bind (vc_read 1 (data_cur st)) (\<lambda>(bs, data).
                   if length (vc_output st) + sz > out_cap then VC_ERR VCDIFF_ERR_OUTPUT_FULL
                   else vc_bind (vc_write out_cap (vc_output st) (replicate sz (hd bs))) (\<lambda>out.
                        VC_OK (st\<lparr>data_cur := data, vc_output := out, tgt_written := tgt_written st + sz\<rparr>))))
           else execute_copy seg out_cap start imode sz st))"

definition exec_opcode :: "byte list \<Rightarrow> nat \<Rightarrow> nat \<Rightarrow> byte \<Rightarrow> vc_window \<Rightarrow> vc_window vc_result" where
  "exec_opcode seg out_cap start opcode st =
     vc_bind (vc_nth build_code_table (unat opcode))
       (\<lambda>ce. vc_bind (exec_inst seg out_cap start (ce_t1 ce) (ce_s1 ce) (ce_m1 ce) st)
          (\<lambda>st. exec_inst seg out_cap start (ce_t2 ce) (ce_s2 ce) (ce_m2 ce) st))"

section \<open>The instruction loop\<close>

lemma inst_size_shrinks: "inst_size i st = VC_OK (sz, st') \<Longrightarrow> length (inst_cur st') \<le> length (inst_cur st)"
  by (auto simp: inst_size_def vc_bind_OK vc_varint_def split: if_splits option.splits)

lemma inst_cur_update_cache: "update_cache a st = VC_OK st' \<Longrightarrow> inst_cur st' = inst_cur st"
  by (auto simp: update_cache_def vc_bind_OK)

lemma execute_copy_inst:
  "execute_copy seg cap start m sz st = VC_OK st' \<Longrightarrow> inst_cur st' = inst_cur st"
  by (auto simp: execute_copy_def vc_bind_OK split: if_splits dest!: inst_cur_update_cache)

lemma exec_inst_shrinks:
  "exec_inst seg cap start t s m st = VC_OK st' \<Longrightarrow> length (inst_cur st') \<le> length (inst_cur st)"
  by (auto simp: exec_inst_def vc_bind_OK split: if_splits list.splits
      dest!: inst_size_shrinks execute_copy_inst)

lemma exec_opcode_shrinks:
  "exec_opcode seg cap start opc st = VC_OK st' \<Longrightarrow> length (inst_cur st') \<le> length (inst_cur st)"
  by (auto simp: exec_opcode_def vc_bind_OK dest!: exec_inst_shrinks)

text \<open>\<^verbatim>\<open>while (inst_cur < inst_end)\<close>.\<close>

function exec_window :: "byte list \<Rightarrow> nat \<Rightarrow> nat \<Rightarrow> vc_window \<Rightarrow> vc_window vc_result" where
  "exec_window seg out_cap start st =
     (case inst_cur st of
        [] \<Rightarrow> VC_OK st
      | opcode # rest \<Rightarrow>
          vc_bind (exec_opcode seg out_cap start opcode (st\<lparr>inst_cur := rest\<rparr>))
            (exec_window seg out_cap start))"
  by pat_completeness auto
termination
  by (relation "measure (\<lambda>(seg, out_cap, start, st). length (inst_cur st))")
     (auto dest!: exec_opcode_shrinks)

declare exec_window.simps [simp del]

section \<open>Windows\<close>

text \<open>The source segment: a slice of the source (\<^verbatim>\<open>VCD_SOURCE\<close>) or of the output written so far
  (\<^verbatim>\<open>VCD_TARGET\<close>).\<close>

definition window_segment ::
  "byte list option \<Rightarrow> byte \<Rightarrow> byte list \<Rightarrow> byte list \<Rightarrow> (byte list \<times> byte list) vc_result" where
  "window_segment source win_ind p out =
     (if win_ind AND 0x03 = 0 then VC_OK ([], p)
      else vc_bind (vc_varint p) (\<lambda>(slen, p). vc_bind (vc_varint p) (\<lambda>(spos, p).
        if win_ind AND 0x01 \<noteq> 0 then
          (case source of
             None \<Rightarrow> VC_ERR VCDIFF_ERR_INVALID
           | Some src \<Rightarrow>
               if length src < unat (spos + slen) then VC_ERR VCDIFF_ERR_INVALID
               else vc_bind (vc_slice src (unat spos) (unat slen)) (\<lambda>seg. VC_OK (seg, p)))
        else if length out < unat (spos + slen) then VC_ERR VCDIFF_ERR_INVALID
        else vc_bind (vc_slice out (unat spos) (unat slen)) (\<lambda>seg. VC_OK (seg, p)))))"

text \<open>The delta encoding of a window: target length, indicator, and the three sections. The test
  \<^verbatim>\<open>(size_t)(w_end - w) < data_len + inst_len + addr_len\<close> adds in 64 bits; the section pointers
  are formed from the lengths themselves.\<close>

definition window_sections ::
  "byte list \<Rightarrow> (u64 \<times> byte list \<times> byte list \<times> byte list) vc_result" where
  "window_sections w =
     vc_bind (vc_varint w) (\<lambda>(target_len, w).
     vc_bind (vc_byte w) (\<lambda>(delta_ind, w).
     if delta_ind AND 0x07 \<noteq> 0 then VC_ERR VCDIFF_ERR_SECONDARY_COMP
     else
     vc_bind (vc_varint w) (\<lambda>(data_len, w).
     vc_bind (vc_varint w) (\<lambda>(inst_len, w).
     vc_bind (vc_varint w) (\<lambda>(addr_len, w).
     if length w < unat (data_len + inst_len + addr_len) then VC_ERR VCDIFF_ERR_TRUNCATED
     else if length w < unat data_len + unat inst_len + unat addr_len
     then VC_FAULT (SectionsPastEnd (unat data_len) (unat inst_len) (unat addr_len))
     else VC_OK (target_len, take (unat data_len) w,
            take (unat inst_len) (drop (unat data_len) w),
            take (unat addr_len) (drop (unat data_len + unat inst_len) w)))))))"

definition init_window :: "byte list \<Rightarrow> byte list \<Rightarrow> byte list \<Rightarrow> byte list \<Rightarrow> vc_window" where
  "init_window data insts addrs out =
     \<lparr>near_cache = replicate S_NEAR 0, near_next = 0, same_cache = replicate (S_SAME * 256) 0,
      data_cur = data, inst_cur = insts, addr_cur = addrs, vc_output = out, tgt_written = 0\<rparr>"

definition decode_window ::
  "byte list option \<Rightarrow> nat \<Rightarrow> byte \<Rightarrow> byte list \<Rightarrow> byte list \<Rightarrow> (byte list \<times> byte list) vc_result" where
  "decode_window source out_cap win_ind p out =
     vc_bind (window_segment source win_ind p out) (\<lambda>(seg, p).
     vc_bind (vc_varint p) (\<lambda>(wlen, p).
     if length p < unat wlen then VC_ERR VCDIFF_ERR_TRUNCATED
     else vc_bind (vc_read (unat wlen) p) (\<lambda>(w, p).
     if win_ind AND 0x04 \<noteq> 0 \<and> length p < 4 then VC_ERR VCDIFF_ERR_TRUNCATED
     else vc_bind (vc_read (if win_ind AND 0x04 \<noteq> 0 then 4 else 0) p) (\<lambda>(checksum, p).
     vc_bind (window_sections w) (\<lambda>(target_len, data, insts, addrs).
        if length out + unat target_len > out_cap then VC_ERR VCDIFF_ERR_OUTPUT_FULL
        else vc_bind (exec_window seg out_cap (length out) (init_window data insts addrs out)) (\<lambda>st.
          if tgt_written st \<noteq> unat target_len then VC_ERR VCDIFF_ERR_INVALID
          else VC_OK (vc_output st, p)))))))"

lemma length_vc_varint: "vc_varint p = VC_OK (v, q) \<Longrightarrow> length q \<le> length p"
  by (auto simp: vc_varint_def split: option.splits)

lemma window_segment_shrinks:
  "window_segment source wi p out = VC_OK (seg, q) \<Longrightarrow> length q \<le> length p"
  by (force simp: window_segment_def vc_bind_OK split: if_splits option.splits
      dest!: length_vc_varint)

lemma decode_window_shrinks:
  "decode_window source cap wi p out = VC_OK (out', q) \<Longrightarrow> length q \<le> length p"
  by (force simp: decode_window_def vc_bind_OK Let_def split: if_splits
      dest!: length_vc_varint window_segment_shrinks)

function decode_windows :: "byte list option \<Rightarrow> nat \<Rightarrow> byte list \<Rightarrow> byte list \<Rightarrow> byte list vc_result" where
  "decode_windows source out_cap p out =
     (case p of
        [] \<Rightarrow> VC_OK out
      | win_ind # p \<Rightarrow>
          vc_bind (decode_window source out_cap win_ind p out)
            (\<lambda>(out, p). decode_windows source out_cap p out))"
  by pat_completeness auto
termination
  by (relation "measure (\<lambda>(source, out_cap, p, out). length p)") (auto dest!: decode_window_shrinks)

declare decode_windows.simps [simp del]

section \<open>The decoder\<close>

definition VCDIFF_MAGIC :: "byte list" where
  "VCDIFF_MAGIC = [0xD6, 0xC3, 0xC4, 0x00]"

text \<open>\<open>delta = None\<close> is a null delta, \<open>output_len = None\<close> a null output buffer or length.\<close>

definition ably_vcdiff_decode ::
  "byte list option \<Rightarrow> byte list option \<Rightarrow> nat option \<Rightarrow> byte list vc_result" where
  "ably_vcdiff_decode source delta output_len =
     (case (delta, output_len) of
        (Some d, Some out_cap) \<Rightarrow>
          if length d < 5 then VC_ERR VCDIFF_ERR_TRUNCATED
          else vc_bind (vc_read 4 d) (\<lambda>(magic, p).
          if magic \<noteq> VCDIFF_MAGIC then VC_ERR VCDIFF_ERR_INVALID_MAGIC
          else vc_bind (vc_read 1 p) (\<lambda>(flags, p). let hdr_flags = hd flags
          in if hdr_flags AND 0x01 \<noteq> 0 then VC_ERR VCDIFF_ERR_SECONDARY_COMP
          else if hdr_flags AND 0x02 \<noteq> 0 then VC_ERR VCDIFF_ERR_CUSTOM_TABLE
          else decode_windows source out_cap p []))
      | _ \<Rightarrow> VC_ERR VCDIFF_ERR_INVALID)"

section \<open>Memory safety\<close>

lemma varint_step:
  fixes v :: u64 and b :: byte
  assumes "unat v < 2 ^ 56"
  shows "unat (push_bit 7 v OR ucast (b AND 0x7F)) = 128 * unat v + unat b mod 128"
proof -
  have m: "(0x7F :: byte) = mask 7" by (simp add: mask_eq_exp_minus_1)
  have bm: "unat (b AND 0x7F) = unat b mod 128"
    by (simp add: m unsigned_and_eq unsigned_take_bit_eq take_bit_eq_mod unat_mod flip: take_bit_eq_mask)
  have low: "unat (ucast (b AND 0x7F) :: u64) = unat b mod 128"
    by (simp add: unsigned_ucast_eq take_bit_nat_eq_self bm)
  have p: "unat (push_bit 7 v) = 128 * unat v"
    using assms by (simp add: push_bit_eq_mult unat_mult_lem [THEN iffD1] mult.commute)
  have "push_bit 7 v AND ucast (b AND 0x7F) = 0"
    unfolding m by (rule bit_word_eqI) (auto simp: bit_simps)
  then have "push_bit 7 v OR ucast (b AND 0x7F) = push_bit 7 v + ucast (b AND 0x7F)"
    by (simp add: disjunctive_add_eq_or)
  then have "unat (push_bit 7 v OR ucast (b AND 0x7F)) = unat (push_bit 7 v + ucast (b AND 0x7F))"
    by simp
  also have "\<dots> = unat (push_bit 7 v) + unat (ucast (b AND 0x7F) :: u64)"
    by (subst unat_add_lem [THEN iffD1]) (use p low assms in auto)
  finally show ?thesis using p low by simp
qed

lemma read_varint_loop_bound:
  "read_varint_loop v n bs = Some (v', n') \<Longrightarrow> n < 9 \<Longrightarrow> unat v < 2 ^ (7 * n) \<Longrightarrow>
     unat v' < 2 ^ 63 \<and> n' \<le> 9 \<and> n' \<le> n + length bs"
proof (induction v n bs rule: read_varint_loop.induct)
  case (1 v n)
  then show ?case by simp
next
  case (2 v n b bs)
  have "(2 :: nat) ^ (7 * n) \<le> 2 ^ 56" using "2.prems"(2) by (intro power_increasing) auto
  then have v: "unat v < 2 ^ 56" using "2.prems"(3) by linarith
  have "unat (push_bit 7 v OR ucast (b AND 0x7F)) < 128 * (unat v + 1)"
    unfolding varint_step [OF v] using mod_less_divisor [of 128 "unat b", simplified]
    by (simp only: distrib_left mult_1_right add_less_cancel_left)
  also have "\<dots> \<le> 128 * 2 ^ (7 * n)" using "2.prems"(3) by (intro mult_left_mono) auto
  also have "\<dots> = 2 ^ (7 * (n + 1))" by (simp add: power_add)
  finally have step: "unat (push_bit 7 v OR ucast (b AND 0x7F)) < 2 ^ (7 * (n + 1))" .
  have top: "(2 :: nat) ^ (7 * (n + 1)) \<le> 2 ^ 63"
    using "2.prems"(2) by (intro power_increasing) auto
  show ?case
  proof (cases "b AND 0x80 = 0")
    case True
    then show ?thesis using "2.prems" step top by (auto simp: Let_def)
  next
    case False
    with "2.prems" have n: "\<not> 9 \<le> n + 1"
      and rec: "read_varint_loop (push_bit 7 v OR ucast (b AND 0x7F)) (n + 1) bs = Some (v', n')"
      by (auto simp: Let_def split: if_splits)
    show ?thesis using "2.IH" [OF refl refl False n rec] n step by auto
  qed
qed

lemma read_varint_bound:
  "read_varint bs = Some (v, n) \<Longrightarrow> unat v < 2 ^ 63 \<and> n \<le> 9 \<and> n \<le> length bs"
  using read_varint_loop_bound [of 0 0 bs v n] by (simp add: read_varint_def)

lemma vc_varint_bound: "vc_varint p = VC_OK (v, q) \<Longrightarrow> unat v < 2 ^ 63"
  by (auto simp: vc_varint_def dest: read_varint_bound split: option.splits)

lemma vc_varint_no_fault [simp]: "vc_varint p \<noteq> VC_FAULT u"
  by (auto simp: vc_varint_def split: option.splits)

lemma vc_byte_no_fault [simp]: "vc_byte p \<noteq> VC_FAULT u"
  by (cases p) auto

lemma exec_window_Nil: "inst_cur st = [] \<Longrightarrow> exec_window seg cap start st = VC_OK st"
  by (subst exec_window.simps) simp

lemma exec_window_Cons:
  "inst_cur st = opcode # rest \<Longrightarrow>
   exec_window seg cap start st =
     vc_bind (exec_opcode seg cap start opcode (st\<lparr>inst_cur := rest\<rparr>)) (exec_window seg cap start)"
  by (subst exec_window.simps) simp

lemma decode_windows_Nil: "decode_windows source cap [] out = VC_OK out"
  by (subst decode_windows.simps) simp

lemma decode_windows_Cons:
  "decode_windows source cap (wi # p) out =
     vc_bind (decode_window source cap wi p out) (\<lambda>(out, p). decode_windows source cap p out)"
  by (subst decode_windows.simps) simp

text \<open>The invariant of a window's execution: the caches have their sizes, the ring index of the near
  cache is in range, and the output is what preceded the window and its target so far, within the
  capacity.\<close>

definition vc_window_ok :: "nat \<Rightarrow> nat \<Rightarrow> vc_window \<Rightarrow> bool" where
  "vc_window_ok out_cap start st \<longleftrightarrow>
     length (near_cache st) = S_NEAR \<and> near_next st < S_NEAR \<and>
     length (same_cache st) = S_SAME * 256 \<and>
     length (vc_output st) = start + tgt_written st \<and> length (vc_output st) \<le> out_cap"

lemma length_build_code_table: "length build_code_table = 256"
  by (simp add: build_code_table_def mode_defs upt_rec)

lemma copy_loop_OK:
  "copy_loop seg cap start combined k out tw = VC_OK (out', tw') \<Longrightarrow>
   length out = start + tw \<Longrightarrow>
     length out' = length out + k \<and> tw' = tw + k \<and> take (length out) out' = out"
proof (induction k arbitrary: combined out tw)
  case 0
  then show ?case by simp
next
  case (Suc k)
  from Suc.prems(1) obtain b where
    rec: "copy_loop seg cap start (combined + 1) k (out @ [b]) (tw + 1) = VC_OK (out', tw')"
    by (auto simp: vc_bind_OK split: if_splits)
  have "length (out @ [b]) = start + (tw + 1)" using Suc.prems(2) by simp
  from Suc.IH [OF rec this] have t: "take (Suc (length out)) out' = out @ [b]"
    and l: "length out' = length out + Suc k" "tw' = tw + Suc k"
    by auto
  have "take (length out) out' = take (length out) (take (Suc (length out)) out')"
    by (simp add: min_def)
  also have "\<dots> = out" unfolding t by simp
  finally show ?case using l by simp
qed

lemma copy_loop_no_fault:
  "length out = start + tw \<Longrightarrow> length out + k \<le> cap \<Longrightarrow>
   copy_loop seg cap start combined k out tw \<noteq> VC_FAULT u"
  by (induction seg cap start combined k out tw rule: copy_loop.induct)
     (auto simp: vc_bind_FAULT vc_nth_def Let_def split: if_splits)

lemma copy_address_no_fault:
  assumes "vc_window_ok cap start st" "mode < NUM_MODES"
  shows "copy_address mode n st \<noteq> VC_FAULT u"
proof -
  have "(mode - 6) * 256 + unat b < 768" if "6 \<le> mode" for b :: byte
  proof -
    have "mode - 6 \<le> 2" using assms(2) that by (simp add: mode_defs)
    moreover have "unat b < 256" using unsigned_less [of b] by simp
    ultimately show ?thesis by linarith
  qed
  then show ?thesis using assms
    by (auto simp: copy_address_def vc_bind_FAULT vc_nth_def vc_window_ok_def mode_defs Let_def)
qed

lemma update_cache_OK:
  "vc_window_ok cap start st \<Longrightarrow>
     update_cache a st = VC_OK (st\<lparr>near_cache := (near_cache st)[near_next st := a],
       near_next := (near_next st + 1) mod S_NEAR,
       same_cache := (same_cache st)[unat (a mod of_nat (S_SAME * 256)) := a]\<rparr>)"
  by (simp add: update_cache_def vc_upd_def vc_window_ok_def mode_defs unat_mod)

lemma vc_window_ok_addr_cur: "vc_window_ok cap start (st\<lparr>addr_cur := p\<rparr>) = vc_window_ok cap start st"
  by (simp add: vc_window_ok_def)

lemma execute_copy_no_fault:
  "vc_window_ok cap start st \<Longrightarrow> execute_copy seg cap start mode sz st \<noteq> VC_FAULT u"
  using copy_address_no_fault [of cap start st mode "length seg" u]
  by (auto simp: execute_copy_def vc_bind_FAULT update_cache_OK [of cap start] vc_window_ok_addr_cur
      split: if_splits)
     (auto simp: vc_window_ok_def copy_loop_no_fault)

lemma execute_copy_ok [inv_rules]:
  "execute_copy seg cap start mode sz st = VC_OK st' \<Longrightarrow> vc_window_ok cap start st \<Longrightarrow>
     vc_window_ok cap start st'"
  by (auto simp: execute_copy_def vc_bind_OK update_cache_OK [of cap start] vc_window_ok_addr_cur
      split: if_splits)
     (auto simp: vc_window_ok_def mode_defs dest!: copy_loop_OK)

lemma inst_size_frame:
  "inst_size i st = VC_OK (sz, st') \<Longrightarrow> vc_window_ok cap start st' = vc_window_ok cap start st \<and>
     vc_output st' = vc_output st \<and> tgt_written st' = tgt_written st"
  by (auto simp: inst_size_def vc_bind_OK vc_window_ok_def split: if_splits)

lemma exec_inst_no_fault:
  "vc_window_ok cap start st \<Longrightarrow> exec_inst seg cap start t i m st \<noteq> VC_FAULT u"
  by (auto simp: exec_inst_def vc_bind_FAULT inst_size_def vc_bind_OK split: if_splits list.splits
      dest!: execute_copy_no_fault [THEN notE, rotated])
     (auto simp: vc_window_ok_def)

lemma exec_inst_ok [inv_rules]:
  "exec_inst seg cap start t i m st = VC_OK st' \<Longrightarrow> vc_window_ok cap start st \<Longrightarrow>
     vc_window_ok cap start st'"
  by (auto simp: exec_inst_def vc_bind_OK split: if_splits list.splits
      dest!: inst_size_frame [where cap = cap and start = start] intro: execute_copy_ok)
     (auto simp: vc_window_ok_def)

lemma exec_opcode_no_fault:
  "vc_window_ok cap start st \<Longrightarrow> exec_opcode seg cap start opc st \<noteq> VC_FAULT u"
  using unsigned_less [of opc]
  by (auto simp: exec_opcode_def vc_bind_FAULT vc_nth_def exec_inst_no_fault length_build_code_table
      dest: exec_inst_ok)

lemma exec_opcode_ok [inv_rules]:
  "exec_opcode seg cap start opc st = VC_OK st' \<Longrightarrow> vc_window_ok cap start st \<Longrightarrow>
     vc_window_ok cap start st'"
  by (auto simp: exec_opcode_def vc_bind_OK intro: exec_inst_ok)

lemma vc_window_ok_inst_cur: "vc_window_ok cap start (st\<lparr>inst_cur := p\<rparr>) = vc_window_ok cap start st"
  by (simp add: vc_window_ok_def)

lemma exec_window_safe:
  "vc_window_ok cap start st \<Longrightarrow> exec_window seg cap start st \<noteq> VC_FAULT u"
  "exec_window seg cap start st = VC_OK st' \<Longrightarrow> vc_window_ok cap start st \<Longrightarrow>
     vc_window_ok cap start st'"
proof (atomize (full), induction seg cap start st rule: exec_window.induct)
  case (1 seg cap start st)
  show ?case
  proof (cases "inst_cur st")
    case Nil
    then show ?thesis by (simp add: exec_window_Nil)
  next
    case (Cons opc rest)
    then show ?thesis
      using "1.IH" exec_opcode_no_fault [of cap start "st\<lparr>inst_cur := rest\<rparr>" seg opc u]
        exec_opcode_ok [of seg cap start opc "st\<lparr>inst_cur := rest\<rparr>"]
      by (auto simp: exec_window_Cons vc_bind_FAULT vc_bind_OK vc_window_ok_inst_cur)
  qed
qed

lemma init_window_ok: "length out \<le> cap \<Longrightarrow> vc_window_ok cap (length out) (init_window d i a out)"
  by (simp add: vc_window_ok_def init_window_def mode_defs)

text \<open>Two varints never wrap when added, three may.\<close>

lemma varint_add:
  fixes a b :: u64
  shows "unat a < 2 ^ 63 \<Longrightarrow> unat b < 2 ^ 63 \<Longrightarrow> unat (a + b) = unat a + unat b"
  by (subst unat_add_lem [THEN iffD1]) auto

lemma window_segment_no_fault: "window_segment source wi p out \<noteq> VC_FAULT u"
  by (auto simp: window_segment_def vc_bind_FAULT vc_slice_def varint_add
      split: if_splits option.splits dest!: vc_varint_bound)

lemma window_sections_fault:
  assumes "window_sections w = VC_FAULT u"
  shows "\<exists>d i a. u = SectionsPastEnd d i a \<and> 2 ^ 64 \<le> d + i + a"
proof -
  have wrap: "2 ^ 64 \<le> unat d + unat i + unat a"
    if "unat (d + i + a) < unat d + unat i + unat a" for d i a :: u64
  proof (rule ccontr)
    assume "\<not> ?thesis"
    then have "unat (d + i + a) = unat d + unat i + unat a"
      by (simp add: unat_word_ariths)
    with that show False by simp
  qed
  show ?thesis using assms
    by (auto simp: window_sections_def vc_bind_FAULT split: if_splits
        dest!: wrap [OF order.strict_trans1 [rotated]])
qed

lemma decode_window_safe:
  "decode_window source cap wi p out = VC_FAULT u \<Longrightarrow> length out \<le> cap \<Longrightarrow>
     \<exists>d i a. u = SectionsPastEnd d i a \<and> 2 ^ 64 \<le> d + i + a"
  "decode_window source cap wi p out = VC_OK (out', q) \<Longrightarrow> length out \<le> cap \<Longrightarrow> length out' \<le> cap"
proof -
  assume "decode_window source cap wi p out = VC_FAULT u" "length out \<le> cap"
  then show "\<exists>d i a. u = SectionsPastEnd d i a \<and> 2 ^ 64 \<le> d + i + a"
    by (auto simp: decode_window_def vc_bind_FAULT Let_def window_segment_no_fault split: if_splits
        dest: window_sections_fault exec_window_safe(1) [OF init_window_ok, THEN notE])
next
  assume "decode_window source cap wi p out = VC_OK (out', q)" "length out \<le> cap"
  then show "length out' \<le> cap"
    by (auto simp: decode_window_def vc_bind_OK Let_def vc_window_ok_def split: if_splits
        dest!: exec_window_safe(2) [OF _ init_window_ok])
qed

lemma decode_windows_safe:
  "decode_windows source cap p out = VC_FAULT u \<Longrightarrow> length out \<le> cap \<Longrightarrow>
     \<exists>d i a. u = SectionsPastEnd d i a \<and> 2 ^ 64 \<le> d + i + a"
  "decode_windows source cap p out = VC_OK out' \<Longrightarrow> length out \<le> cap \<Longrightarrow> length out' \<le> cap"
proof (atomize (full), induction source cap p out rule: decode_windows.induct)
  case (1 source cap p out)
  show ?case
  proof (cases p)
    case Nil
    then show ?thesis by (simp add: decode_windows_Nil)
  next
    case (Cons wi q)
    then show ?thesis
      using "1.IH" decode_window_safe [of source cap wi q out]
      by (auto simp: decode_windows_Cons vc_bind_FAULT vc_bind_OK)
  qed
qed

section \<open>A reference encoder\<close>

text \<open>Variable-length integers as RFC 3284 writes them: base 128, most significant group first, the
  top bit set on every byte but the last.\<close>

fun vc_put_hi :: "nat \<Rightarrow> byte list" where
  "vc_put_hi n = (if n < 128 then [of_nat (n + 128)]
     else vc_put_hi (n div 128) @ [of_nat (n mod 128 + 128)])"

declare vc_put_hi.simps [simp del]

definition vc_put :: "nat \<Rightarrow> byte list" where
  "vc_put n = (if n < 128 then [] else vc_put_hi (n div 128)) @ [of_nat (n mod 128)]"

lemma byte_top_bit:
  fixes b :: byte
  shows "b AND 0x80 = 0 \<longleftrightarrow> unat b < 128"
proof -
  have "b AND 0x80 = 0 \<longleftrightarrow> \<not> bit b 7"
    using and_exp_eq_0_iff_not_bit [of b 7] by simp
  also have "\<dots> \<longleftrightarrow> even (unat b div 128)"
  proof -
    have "bit b 7 = bit (unat b) 7" by (simp add: bit_unsigned_iff)
    then show ?thesis by (simp add: bit_iff_odd)
  qed
  also have "\<dots> \<longleftrightarrow> unat b < 128"
  proof -
    have "unat b div 128 < 2" using unsigned_less [of b] by (simp add: div_less_iff_less_mult)
    then have "unat b div 128 = 0 \<or> unat b div 128 = 1" by linarith
    then show ?thesis by (auto simp: div_eq_0_iff)
  qed
  finally show ?thesis .
qed

lemma varint_digit:
  assumes "q < 2 ^ 56" "d < 128" "unat b mod 128 = d"
  shows "push_bit 7 (of_nat q :: u64) OR ucast ((b :: byte) AND 0x7F) = of_nat (128 * q + d)"
proof (rule word_unat_eq_iff [THEN iffD2])
  have q: "unat (of_nat q :: u64) = q" using assms by (simp add: unat_of_nat)
  have "128 * q + d < 2 ^ 64" using assms by simp
  then have "unat (of_nat (128 * q + d) :: u64) = 128 * q + d" by (simp add: unat_of_nat del: of_nat_add of_nat_mult)
  then show "unat (push_bit 7 (of_nat q :: u64) OR ucast (b AND 0x7F)) = unat (of_nat (128 * q + d) :: u64)"
    using varint_step [of "of_nat q" b] assms q by simp
qed

lemma put_byte:
  "d < 128 \<Longrightarrow> unat (of_nat (d + 128) :: byte) = d + 128"
  "d < 128 \<Longrightarrow> unat (of_nat d :: byte) = d"
  by (simp_all add: unat_of_nat del: of_nat_add)

lemma read_put_hi:
  "n < 128 ^ m \<Longrightarrow> m \<le> 8 \<Longrightarrow>
     read_varint_loop 0 0 (vc_put_hi n @ bs) = read_varint_loop (of_nat n) (length (vc_put_hi n)) bs \<and>
     length (vc_put_hi n) \<le> max 1 m"
proof (induction n arbitrary: m bs rule: vc_put_hi.induct)
  case (1 n)
  show ?case
  proof (cases "n < 128")
    case True
    then show ?thesis
      using varint_digit [of 0 n "of_nat (n + 128)"] put_byte [OF True]
      by (simp add: vc_put_hi.simps [of n] byte_top_bit del: of_nat_add)
  next
    case False
    then obtain k where m: "m = Suc k" using "1.prems" by (cases m) auto
    have d: "n mod 128 < 128" by simp
    have q: "n div 128 < 128 ^ k" using "1.prems" m by (simp add: div_less_iff_less_mult mult.commute)
    have "k \<noteq> 0" using q False by (cases k) auto
    have "(128 :: nat) ^ k \<le> 128 ^ 7" using "1.prems" m by (intro power_increasing) auto
    with q have q56: "n div 128 < 2 ^ 56" by simp
    note IH = "1.IH" [OF False q, of "of_nat (n mod 128 + 128) # bs"]
    have len: "length (vc_put_hi (n div 128)) < 8" using IH m "1.prems" \<open>k \<noteq> 0\<close> by auto
    show ?thesis
      using IH m "1.prems" len varint_digit [OF q56 d, of "of_nat (n mod 128 + 128)"]
        put_byte(1) [OF d] False \<open>k \<noteq> 0\<close>
      by (simp add: vc_put_hi.simps [of n] byte_top_bit del: of_nat_add)
  qed
qed

lemma read_varint_put:
  assumes "n < 2 ^ 63"
  shows "read_varint (vc_put n @ bs) = Some (of_nat n, length (vc_put n))"
proof -
  have d: "n mod 128 < 128" by simp
  have q: "n div 128 < 2 ^ 56" using assms by (simp add: div_less_iff_less_mult)
  then have q8: "n div 128 < 128 ^ 8" by simp
  note last = varint_digit [OF q d, of "of_nat (n mod 128)"] put_byte(2) [OF d]
  show ?thesis
  proof (cases "n < 128")
    case True
    then show ?thesis using last by (simp add: vc_put_def read_varint_def byte_top_bit)
  next
    case False
    then show ?thesis
      using last read_put_hi [OF q8, of "of_nat (n mod 128) # bs"]
      by (simp add: vc_put_def read_varint_def byte_top_bit)
  qed
qed

lemma vc_varint_put [simp]: "n < 2 ^ 63 \<Longrightarrow> vc_varint (vc_put n @ bs) = VC_OK (of_nat n, bs)"
  by (simp add: vc_varint_def read_varint_put)

text \<open>The instructions a delta is made of, their encoding with the size-0 opcodes of the table, and
  what a target built from them is. A COPY reads the window's source segment followed by the target,
  one byte at a time, so that it may overlap its own output.\<close>

datatype vc_op = Op_Add "byte list" | Op_Run nat byte | Op_Copy nat nat

fun vc_op_inst :: "vc_op \<Rightarrow> byte list" where
  "vc_op_inst (Op_Add bs) = 1 # vc_put (length bs)"
| "vc_op_inst (Op_Run n b) = 18 # vc_put n"
| "vc_op_inst (Op_Copy addr n) = 19 # vc_put n"

fun vc_op_data :: "vc_op \<Rightarrow> byte list" where
  "vc_op_data (Op_Add bs) = bs"
| "vc_op_data (Op_Run n b) = [b]"
| "vc_op_data (Op_Copy addr n) = []"

fun vc_op_addr :: "vc_op \<Rightarrow> byte list" where
  "vc_op_addr (Op_Copy addr n) = vc_put addr"
| "vc_op_addr _ = []"

fun vc_copied :: "byte list \<Rightarrow> nat \<Rightarrow> nat \<Rightarrow> byte list \<Rightarrow> byte list" where
  "vc_copied seg addr 0 tgt = tgt"
| "vc_copied seg addr (Suc n) tgt = vc_copied seg (addr + 1) n (tgt @ [(seg @ tgt) ! addr])"

fun vc_op_target :: "byte list \<Rightarrow> vc_op \<Rightarrow> byte list \<Rightarrow> byte list" where
  "vc_op_target seg (Op_Add bs) tgt = tgt @ bs"
| "vc_op_target seg (Op_Run n b) tgt = tgt @ replicate n b"
| "vc_op_target seg (Op_Copy addr n) tgt = vc_copied seg addr n tgt"

fun vc_target :: "byte list \<Rightarrow> vc_op list \<Rightarrow> byte list \<Rightarrow> byte list" where
  "vc_target seg [] tgt = tgt"
| "vc_target seg (p # ops) tgt = vc_target seg ops (vc_op_target seg p tgt)"

fun vc_op_valid :: "byte list \<Rightarrow> vc_op \<Rightarrow> byte list \<Rightarrow> bool" where
  "vc_op_valid seg (Op_Add bs) tgt \<longleftrightarrow> length bs < 2 ^ 63"
| "vc_op_valid seg (Op_Run n b) tgt \<longleftrightarrow> n < 2 ^ 63"
| "vc_op_valid seg (Op_Copy addr n) tgt \<longleftrightarrow>
     addr < length seg + length tgt \<and> addr < 2 ^ 32 \<and> n < 2 ^ 63"

fun vc_ops_valid :: "byte list \<Rightarrow> vc_op list \<Rightarrow> byte list \<Rightarrow> bool" where
  "vc_ops_valid seg [] tgt = True"
| "vc_ops_valid seg (p # ops) tgt \<longleftrightarrow>
     vc_op_valid seg p tgt \<and> vc_ops_valid seg ops (vc_op_target seg p tgt)"

definition vc_encode_window :: "byte list \<Rightarrow> vc_op list \<Rightarrow> byte list" where
  "vc_encode_window src ops =
     (let data = concat (map vc_op_data ops); insts = concat (map vc_op_inst ops);
          addrs = concat (map vc_op_addr ops)
      in vc_put (length (vc_target src ops [])) @ 0 # vc_put (length data) @ vc_put (length insts) @
         vc_put (length addrs) @ data @ insts @ addrs)"

definition vc_encode :: "byte list \<Rightarrow> vc_op list \<Rightarrow> byte list" where
  "vc_encode src ops =
     (let body = vc_encode_window src ops
      in VCDIFF_MAGIC @ 0 # 1 # vc_put (length src) @ vc_put 0 @ vc_put (length body) @ body)"

section \<open>Decoding what was encoded\<close>

lemma length_vc_copied [simp]: "length (vc_copied seg a n tgt) = length tgt + n"
  by (induction seg a n tgt rule: vc_copied.induct) auto

lemma vc_copied_numeral [simp]:
  "vc_copied seg addr (numeral k) tgt =
     vc_copied seg (addr + 1) (pred_numeral k) (tgt @ [(seg @ tgt) ! addr])"
  by (simp add: numeral_eq_Suc)

lemma take_vc_copied: "take (length tgt) (vc_copied seg a n tgt) = tgt"
proof (induction n arbitrary: a tgt)
  case (Suc n)
  let ?t = "tgt @ [(seg @ tgt) ! a]"
  have "take (length tgt) (vc_copied seg (a + 1) n ?t) =
      take (length tgt) (take (length ?t) (vc_copied seg (a + 1) n ?t))" by (simp add: min_def)
  also have "\<dots> = tgt" unfolding Suc.IH by simp
  finally show ?case by simp
qed simp

lemma length_vc_op_target: "length tgt \<le> length (vc_op_target seg p tgt)"
  by (cases p) auto

lemma length_vc_target: "length tgt \<le> length (vc_target seg ops tgt)"
proof (induction ops arbitrary: tgt)
  case (Cons p ops)
  show ?case
    using order.trans [OF length_vc_op_target [of tgt seg p] Cons.IH [of "vc_op_target seg p tgt"]]
    by simp
qed simp

lemma table_add: "build_code_table ! Suc 0 = code_entry INST_ADD 0 0 INST_NOOP 0 0"
  by (simp add: build_code_table_def nth_append)

lemma table_run: "build_code_table ! 18 = code_entry INST_RUN 0 0 INST_NOOP 0 0"
  by (simp add: build_code_table_def nth_append)

lemma table_copy: "build_code_table ! 19 = code_entry INST_COPY 0 0 INST_NOOP 0 0"
  by (simp add: build_code_table_def nth_append mode_defs upt_conv_Cons)

lemma table_entries:
  "vc_nth build_code_table (Suc 0) = VC_OK (code_entry INST_ADD 0 0 INST_NOOP 0 0)"
  "vc_nth build_code_table 18 = VC_OK (code_entry INST_RUN 0 0 INST_NOOP 0 0)"
  "vc_nth build_code_table 19 = VC_OK (code_entry INST_COPY 0 0 INST_NOOP 0 0)"
  by (simp_all add: vc_nth_def table_add table_run table_copy length_build_code_table)

lemma copy_loop_copied:
  "a < length seg + length tgt \<Longrightarrow> length pre + length tgt + n \<le> cap \<Longrightarrow>
   copy_loop seg cap (length pre) a n (pre @ tgt) (length tgt) =
     VC_OK (pre @ vc_copied seg a n tgt, length tgt + n)"
proof (induction n arbitrary: a tgt)
  case 0
  then show ?case by simp
next
  case (Suc n)
  have byte: "(if a < length seg then vc_nth seg a
     else let off = a - length seg in if length tgt \<le> off then VC_ERR VCDIFF_ERR_INVALID
          else vc_nth (pre @ tgt) (length pre + off)) = VC_OK ((seg @ tgt) ! a)"
    using Suc.prems(1) by (auto simp: vc_nth_def nth_append Let_def)
  have "copy_loop seg cap (length pre) (a + 1) n (pre @ tgt @ [(seg @ tgt) ! a]) (length tgt + 1) =
      VC_OK (pre @ vc_copied seg (a + 1) n (tgt @ [(seg @ tgt) ! a]), length tgt + 1 + n)"
    using Suc.IH [of "a + 1" "tgt @ [(seg @ tgt) ! a]"] Suc.prems by simp
  then show ?case using Suc.prems(2) unfolding copy_loop.simps byte by (simp add: vc_write_def)
qed

lemma unat_u64: "n < 2 ^ 63 \<Longrightarrow> unat (of_nat n :: u64) = n"
  by (simp add: unat_of_nat)

lemma unat_u32: "n < 2 ^ 32 \<Longrightarrow> unat (of_nat n :: u32) = n"
  by (simp add: unat_of_nat)

lemma ucast_of_nat_u32: "n < 2 ^ 32 \<Longrightarrow> ucast (of_nat n :: u64) = (of_nat n :: u32)"
  by (rule word_unat_eq_iff [THEN iffD2]) (simp add: unsigned_ucast_eq unat_of_nat take_bit_nat_eq_self)

text \<open>A window whose cursors stand before the encoding of one instruction.\<close>

definition at_ops :: "byte list \<Rightarrow> byte list \<Rightarrow> vc_op list \<Rightarrow> vc_window \<Rightarrow> bool" where
  "at_ops pre tgt ops st \<longleftrightarrow>
     inst_cur st = concat (map vc_op_inst ops) \<and> data_cur st = concat (map vc_op_data ops) \<and>
     addr_cur st = concat (map vc_op_addr ops) \<and> vc_output st = pre @ tgt \<and>
     tgt_written st = length tgt"

lemma exec_op:
  assumes ok: "vc_window_ok cap (length pre) st" and at: "at_ops pre tgt (p # ops) st"
    and valid: "vc_op_valid seg p tgt" and cap: "length pre + length (vc_op_target seg p tgt) \<le> cap"
  obtains opc rest st' where "inst_cur st = opc # rest"
    "exec_opcode seg cap (length pre) opc (st\<lparr>inst_cur := rest\<rparr>) = VC_OK st'"
    "at_ops pre (vc_op_target seg p tgt) ops st'"
  using that
proof (cases p)
  case (Op_Add bs)
  then show ?thesis using that at valid cap
    by (simp add: at_ops_def exec_opcode_def table_entries code_entry_def exec_inst_def inst_size_def unat_u64 vc_access_defs)
next
  case (Op_Run n b)
  then show ?thesis using that at valid cap
    by (simp add: at_ops_def exec_opcode_def table_entries code_entry_def exec_inst_def inst_size_def unat_u64 vc_access_defs)
next
  case (Op_Copy a n)
  then show ?thesis using that at valid cap ok
    by (simp add: at_ops_def exec_opcode_def table_entries code_entry_def exec_inst_def inst_size_def unat_u64
       execute_copy_def copy_address_def update_cache_OK [of cap "length pre"] vc_window_ok_addr_cur
       vc_window_ok_inst_cur ucast_of_nat_u32 unat_u32 copy_loop_copied mode_defs del: of_nat_mult)
qed

lemma exec_ops:
  "vc_window_ok cap (length pre) st \<Longrightarrow> at_ops pre tgt ops st \<Longrightarrow> vc_ops_valid seg ops tgt \<Longrightarrow>
   length pre + length (vc_target seg ops tgt) \<le> cap \<Longrightarrow>
     \<exists>st'. exec_window seg cap (length pre) st = VC_OK st' \<and>
           at_ops pre (vc_target seg ops tgt) [] st'"
proof (induction ops arbitrary: tgt st)
  case Nil
  then show ?case by (auto simp: exec_window_Nil at_ops_def)
next
  case (Cons p ops)
  have cap: "length pre + length (vc_op_target seg p tgt) \<le> cap"
    using Cons.prems(4) length_vc_target [of "vc_op_target seg p tgt" seg ops] by simp
  have v: "vc_op_valid seg p tgt" using Cons.prems(3) by simp
  obtain opc rest st' where s: "inst_cur st = opc # rest"
    and e: "exec_opcode seg cap (length pre) opc (st\<lparr>inst_cur := rest\<rparr>) = VC_OK st'"
    and a: "at_ops pre (vc_op_target seg p tgt) ops st'"
    by (rule exec_op [OF Cons.prems(1,2) v cap])
  have "vc_window_ok cap (length pre) st'"
    using exec_opcode_ok [OF e] Cons.prems(1) by (simp add: vc_window_ok_inst_cur)
  from Cons.IH [OF this a] Cons.prems(3,4) s e show ?case by (simp add: exec_window_Cons)
qed

definition vc_encodable :: "nat \<Rightarrow> byte list \<Rightarrow> vc_op list \<Rightarrow> bool" where
  "vc_encodable cap src ops \<longleftrightarrow>
     vc_ops_valid src ops [] \<and> length (vc_target src ops []) \<le> cap \<and> cap < 2 ^ 63 \<and>
     length src < 2 ^ 63 \<and> length (vc_encode_window src ops) < 2 ^ 63"

lemma window_sections_encode:
  assumes "vc_encodable cap src ops"
  shows "window_sections (vc_encode_window src ops) =
    VC_OK (of_nat (length (vc_target src ops [])), concat (map vc_op_data ops),
           concat (map vc_op_inst ops), concat (map vc_op_addr ops))"
proof -
  define d i a where dia: "d = concat (map vc_op_data ops)" "i = concat (map vc_op_inst ops)"
    "a = concat (map vc_op_addr ops)"
  have len: "length d + length i + length a < 2 ^ 63"
    using assms by (simp add: vc_encodable_def vc_encode_window_def Let_def dia)
  have sum: "unat (of_nat (length d) + of_nat (length i) + of_nat (length a) :: u64) =
      length d + length i + length a"
  proof -
    have "of_nat (length d) + of_nat (length i) + of_nat (length a) =
        (of_nat (length d + length i + length a) :: u64)" by simp
    then show ?thesis using len by (simp only: unat_of_nat) simp
  qed
  show ?thesis using assms len
    by (simp add: window_sections_def vc_encode_window_def Let_def vc_encodable_def sum unat_u64
        flip: dia)
qed

lemma decode_encode:
  assumes "vc_encodable cap src ops"
  shows "ably_vcdiff_decode (Some src) (Some (vc_encode src ops)) (Some cap) =
    VC_OK (vc_target src ops [])"
proof -
  let ?st = "init_window (concat (map vc_op_data ops)) (concat (map vc_op_inst ops))
      (concat (map vc_op_addr ops)) []"
  have "at_ops [] [] ops ?st" by (simp add: at_ops_def init_window_def)
  then obtain st' where e: "exec_window src cap 0 ?st = VC_OK st'"
    and a: "at_ops [] (vc_target src ops []) [] st'"
    using exec_ops [of cap "[]" ?st "[]" ops src] init_window_ok [of "[]" cap] assms
    by (auto simp: vc_encodable_def)
  show ?thesis using assms e a
    by (simp add: ably_vcdiff_decode_def vc_encode_def Let_def VCDIFF_MAGIC_def decode_windows_Cons
        decode_windows_Nil decode_window_def window_segment_def vc_slice_def
        window_sections_encode [OF assms] vc_encodable_def unat_u64 at_ops_def vc_read_def)
qed

lemma copied_nth:
  "j < n \<Longrightarrow> a < length seg + length tgt \<Longrightarrow>
     vc_copied seg a n tgt ! (length tgt + j) = (seg @ vc_copied seg a n tgt) ! (a + j)"
proof (induction n arbitrary: a tgt j)
  case 0
  then show ?case by simp
next
  case (Suc n)
  let ?t = "tgt @ [(seg @ tgt) ! a]"
  let ?r = "vc_copied seg (a + 1) n ?t"
  have pre: "take (length ?t) ?r = ?t" by (rule take_vc_copied)
  show ?case
  proof (cases j)
    case 0
    have low: "?r ! i = ?t ! i" if "i \<le> length tgt" for i
      using that pre nth_take [of i "length ?t" ?r] by simp
    have "(seg @ ?r) ! a = (seg @ tgt) ! a"
      using Suc.prems(2) low [of "a - length seg"] by (auto simp: nth_append)
    moreover have "?r ! length tgt = (seg @ tgt) ! a" using low [of "length tgt"] by simp
    ultimately show ?thesis using 0 by simp
  next
    case (Suc i)
    then show ?thesis using Suc.IH [of i "a + 1" ?t] Suc.prems by simp
  qed
qed

lemma wrap_delta:
  "window_sections [0, 0, 2, 0xFF, 0xFF, 0xFF, 0xFF, 0xFF, 0xFF, 0xFF, 0xFF, 0x7F,
     0xFF, 0xFF, 0xFF, 0xFF, 0xFF, 0xFF, 0xFF, 0xFF, 0x7F] =
   VC_FAULT (SectionsPastEnd 2 9223372036854775807 9223372036854775807)"
  by (simp add: window_sections_def vc_varint_def read_varint_def)

section \<open>Properties\<close>

text \<open>What a result may be: output within the capacity, an error code, or the one fault the code does
  not exclude.\<close>

fun vc_result_ok :: "nat \<Rightarrow> byte list vc_result \<Rightarrow> bool" where
  "vc_result_ok out_cap (VC_OK out) \<longleftrightarrow> length out \<le> out_cap"
| "vc_result_ok out_cap (VC_ERR e) \<longleftrightarrow> True"
| "vc_result_ok out_cap (VC_FAULT BadAccess) \<longleftrightarrow> False"
| "vc_result_ok out_cap (VC_FAULT (SectionsPastEnd d i a)) \<longleftrightarrow> 2 ^ 64 \<le> d + i + a"

lemma vcdiff_decode_length:
  "ably_vcdiff_decode source delta (Some out_cap) = VC_OK out \<Longrightarrow> length out \<le> out_cap"
  by (auto simp: ably_vcdiff_decode_def Let_def vc_bind_OK split: option.splits if_splits
      dest: decode_windows_safe(2))

text \<open>C3. Memory safety of the decoder on every input: no array of the decoder (source segment,
  output, caches, code table) is read or written out of bounds and the output never exceeds the
  caller's capacity. The only undefined behaviour left is a delta whose three section lengths add up
  to at least 2^64.\<close>

theorem vcdiff_decode_memory_safe:
  "vc_result_ok out_cap (ably_vcdiff_decode source delta (Some out_cap))"
proof (cases "ably_vcdiff_decode source delta (Some out_cap)")
  case (VC_OK out)
  then show ?thesis using vcdiff_decode_length by simp
next
  case (VC_FAULT u)
  then have "\<exists>d i a. u = SectionsPastEnd d i a \<and> 2 ^ 64 \<le> d + i + a"
    by (auto simp: ably_vcdiff_decode_def Let_def vc_bind_FAULT split: option.splits if_splits
        dest: decode_windows_safe(1))
  then show ?thesis by (auto simp: VC_FAULT)
qed simp

text \<open>The remaining fault is real: a 28-byte delta whose instruction and address sections claim
  2^63 - 1 bytes each and whose data section claims 2 passes the length test, because the sum wraps to
  0 in 64 bits, and the section pointers are formed far outside the delta.\<close>

theorem vcdiff_section_lengths_wrap:
  "ably_vcdiff_decode None (Some [0xD6, 0xC3, 0xC4, 0, 0, 0, 21,
      0, 0, 2, 0xFF, 0xFF, 0xFF, 0xFF, 0xFF, 0xFF, 0xFF, 0xFF, 0x7F,
      0xFF, 0xFF, 0xFF, 0xFF, 0xFF, 0xFF, 0xFF, 0xFF, 0x7F]) (Some out_cap) =
    VC_FAULT (SectionsPastEnd 2 (2 ^ 63 - 1) (2 ^ 63 - 1))"
  by (simp add: ably_vcdiff_decode_def VCDIFF_MAGIC_def decode_windows_Cons decode_window_def
     window_segment_def vc_varint_def [of "0x15 # _"] read_varint_def [of "0x15 # _"] wrap_delta vc_read_def)

text \<open>C27. Decoding is correct on encoded deltas: for every sequence of ADD, RUN and COPY instructions
  that is meaningful for the source (each COPY starts inside source plus target written so far), the
  decoder reproduces exactly the target the instructions describe.\<close>

theorem vcdiff_decode_encode:
  "vc_encodable out_cap src ops \<Longrightarrow>
     ably_vcdiff_decode (Some src) (Some (vc_encode src ops)) (Some out_cap) =
       VC_OK (vc_target src ops [])"
  by (rule decode_encode)

lemma vcdiff_decode_encode_witness:
  "ably_vcdiff_decode (Some [1, 2, 3])
     (Some (vc_encode [1, 2, 3] [Op_Copy 0 3, Op_Add [9], Op_Copy 2 4, Op_Run 2 5])) (Some 100) =
   VC_OK [1, 2, 3, 9, 3, 1, 2, 3, 5, 5]"
  using vcdiff_decode_encode [of 100 "[1, 2, 3]" "[Op_Copy 0 3, Op_Add [9], Op_Copy 2 4, Op_Run 2 5]"]
  by (simp add: vc_encodable_def vc_encode_window_def vc_put_def replicate_numeral)

text \<open>A COPY of any addressing mode, including one that overlaps its own output, produces bytes
  that equal those at the decoded address in the concatenation of the source segment and the target
  as it stands afterwards.\<close>

theorem vcdiff_copy_bytes:
  assumes ok: "vc_window_ok out_cap start st"
    and run: "execute_copy seg out_cap start mode sz st = VC_OK st'"
    and j: "j < sz"
  shows "\<exists>addr p. copy_address mode (length seg) st = VC_OK (addr, p) \<and>
    vc_output st' ! (length (vc_output st) + j) = (seg @ drop start (vc_output st')) ! (unat addr + j)"
proof -
  define pre tgt where d: "pre = take start (vc_output st)" "tgt = drop start (vc_output st)"
  have st: "vc_output st = pre @ tgt" "start = length pre" "tgt_written st = length tgt"
    using ok by (auto simp: d vc_window_ok_def)
  obtain addr p tw where a: "copy_address mode (length seg) st = VC_OK (addr, p)"
    and c: "copy_loop seg out_cap (length pre) (unat addr) sz (pre @ tgt) (length tgt) =
      VC_OK (vc_output st', tw)" and cap: "length pre + length tgt + sz \<le> out_cap"
    using run ok st
    by (auto simp: execute_copy_def vc_bind_OK update_cache_OK [of out_cap start]
        vc_window_ok_addr_cur split: if_splits)
  have addr: "unat addr < length seg + length tgt"
    using c j by (cases sz) (auto simp: vc_bind_OK Let_def split: if_splits)
  have "vc_output st' = pre @ vc_copied seg (unat addr) sz tgt"
    using copy_loop_copied [OF addr cap] c by simp
  then show ?thesis using a st copied_nth [OF j addr] by (auto simp: nth_append)
qed

lemma copy_run_example:
  "execute_copy [1, 2, 3] 10 0 0 (Suc (Suc 0)) (init_window [] [] [2] []) =
     VC_OK ((init_window [] [] [] [])\<lparr>near_cache := (replicate S_NEAR 0)[0 := 2], near_next := 1,
       same_cache := (replicate (S_SAME * 256) 0)[2 := 2], vc_output := [3, 3], tgt_written := 2\<rparr>)"
proof -
  have ok: "vc_window_ok 10 0 ((init_window [] [] [2] [])\<lparr>addr_cur := []\<rparr>)"
    by (simp add: vc_window_ok_def init_window_def mode_defs)
  have addr: "copy_address 0 (Suc (Suc (Suc 0))) (init_window [] [] [2] []) = VC_OK (2, [])"
    by (simp add: copy_address_def init_window_def vc_varint_def read_varint_def)
  have "unat ((2 :: u32) mod of_nat (S_SAME * 256)) = 2" by (simp add: mode_defs unat_mod)
  then show ?thesis
    using addr
    by (simp add: execute_copy_def update_cache_OK [OF ok] vc_nth_def vc_write_def Let_def)
       (simp add: init_window_def mode_defs)
qed

lemma vcdiff_copy_bytes_witness:
  "\<exists>addr p. copy_address 0 3 (init_window [] [] [2] []) = VC_OK (addr, p) \<and>
     ([3, 3] :: byte list) ! 1 = ([1, 2, 3] @ [3, 3]) ! (unat addr + 1)"
  using vcdiff_copy_bytes [OF _ copy_run_example, of 1]
  by (simp add: vc_window_ok_def init_window_def mode_defs numeral_3_eq_3)

section \<open>The code table against the standard\<close>

text \<open>The default code table of RFC 3284, section 5.6, which the header of the decoder cites.\<close>

definition rfc3284_code_table :: "code_entry list" where
  "rfc3284_code_table =
     [code_entry INST_RUN 0 0 INST_NOOP 0 0] @
     map (\<lambda>sz. code_entry INST_ADD sz 0 INST_NOOP 0 0) [0..<18] @
     concat (map (\<lambda>m. code_entry INST_COPY 0 m INST_NOOP 0 0 #
        map (\<lambda>sz. code_entry INST_COPY sz m INST_NOOP 0 0) [4..<19]) [0..<9]) @
     concat (map (\<lambda>m. concat (map (\<lambda>a.
        map (\<lambda>sz. code_entry INST_ADD a 0 INST_COPY sz m) [4..<7]) [1..<5])) [0..<6]) @
     concat (map (\<lambda>m. map (\<lambda>a. code_entry INST_ADD a 0 INST_COPY 4 m) [1..<5]) [6..<9]) @
     map (\<lambda>m. code_entry INST_COPY 4 m INST_ADD 1 0) [0..<9]"

lemma copy_block_length: "length (concat (map (\<lambda>m. code_entry INST_COPY 0 m INST_NOOP 0 0 #
        map (\<lambda>sz. code_entry INST_COPY sz m INST_NOOP 0 0) [4..<19]) [0..<9])) = 144"
  by (simp add: upt_rec)

lemma entries_add: "take 17 (drop 1 build_code_table) = take 17 (drop 1 rfc3284_code_table)"
  by (simp add: build_code_table_def rfc3284_code_table_def take_map)

lemma entries_copy: "take 144 (drop 19 build_code_table) = take 144 (drop 19 rfc3284_code_table)"
  unfolding build_code_table_def rfc3284_code_table_def mode_defs
  using copy_block_length by (simp add: append_assoc del: upt_rec_numeral)

lemma entries_other: "build_code_table ! 0 \<noteq> rfc3284_code_table ! 0" 
 "build_code_table ! 18 \<noteq> rfc3284_code_table ! 18"
 "build_code_table ! 166 \<noteq> rfc3284_code_table ! 166"
 "build_code_table ! 255 \<noteq> rfc3284_code_table ! 255"
  by (simp_all add: build_code_table_def rfc3284_code_table_def nth_append mode_defs upt_rec code_entry_def)
text \<open>The built-in code table agrees with the default table of RFC 3284 on the plain ADD entries
  1 to 17 and the plain COPY entries 19 to 162 only: entry 0 is a NOOP where the RFC has RUN, entry 18
  is RUN where the RFC has ADD 17, the ADD+COPY pairs are ordered by add size instead of by mode, and
  entry 255 is empty. A delta from a standard encoder that uses any of those opcodes is decoded wrong.\<close>

theorem vcdiff_code_table_not_standard:
  "take 17 (drop 1 build_code_table) = take 17 (drop 1 rfc3284_code_table) \<and>
   take 144 (drop 19 build_code_table) = take 144 (drop 19 rfc3284_code_table) \<and>
   build_code_table ! 0 \<noteq> rfc3284_code_table ! 0 \<and>
   build_code_table ! 18 \<noteq> rfc3284_code_table ! 18 \<and>
   build_code_table ! 166 \<noteq> rfc3284_code_table ! 166 \<and>
   build_code_table ! 255 \<noteq> rfc3284_code_table ! 255"
  using entries_add entries_copy entries_other by blast

end
