(* ===== verification/Ably_Hashmap.thy ===== *)
theory Ably_Hashmap
  imports Ably_Types
begin

text \<open>
  \<^verbatim>\<open>src/hashmap.c\<close>: the fixed-capacity open-addressing hash map (FNV-1a, linear probing,
  tombstones, 75% load cap) that indexes presence members by client id. The slot array is a list, a
  \<^verbatim>\<open>void *\<close> value an option; the loops over \<^verbatim>\<open>probe\<close> recurse on the number of probes left.

  The second half states the contract of a string map as a locale and interprets it on the model:
  under the probing invariant the operations are those of a finite partial function.
\<close>

section \<open>The structure\<close>

definition ABLY_HASHMAP_KEY_MAX :: nat where "ABLY_HASHMAP_KEY_MAX = 256"

datatype slot_state = SLOT_EMPTY | SLOT_OCCUPIED | SLOT_DELETED

record 'v hm_slot =
  slot_key :: string
  slot_value :: "'v option"
  slot_state :: slot_state

record 'v hashmap =
  hm_slots :: "'v hm_slot list"
  hm_capacity :: nat
  hm_count :: nat

definition empty_slot :: "'v hm_slot" where
  "empty_slot = \<lparr>slot_key = [], slot_value = None, slot_state = SLOT_EMPTY\<rparr>"

fun fnv1a_loop :: "u32 \<Rightarrow> string \<Rightarrow> u32" where
  "fnv1a_loop h [] = h"
| "fnv1a_loop h (c # s) = fnv1a_loop ((h XOR of_char c) * 16777619) s"

definition fnv1a :: "string \<Rightarrow> u32" where
  "fnv1a s = fnv1a_loop 2166136261 s"

text \<open>\<^verbatim>\<open>h & mask\<close> and \<^verbatim>\<open>(i + 1) & mask\<close>.\<close>

definition hm_start :: "nat \<Rightarrow> string \<Rightarrow> nat" where
  "hm_start capacity key = unat (fnv1a key) AND (capacity - 1)"

definition hm_next :: "nat \<Rightarrow> nat \<Rightarrow> nat" where
  "hm_next capacity i = (i + 1) AND (capacity - 1)"

text \<open>\<^verbatim>\<open>strncmp(slot->key, key, ABLY_HASHMAP_KEY_MAX - 1) == 0\<close>.\<close>

definition hm_key_eq :: "string \<Rightarrow> string \<Rightarrow> bool" where
  "hm_key_eq a b \<longleftrightarrow> take (ABLY_HASHMAP_KEY_MAX - 1) a = take (ABLY_HASHMAP_KEY_MAX - 1) b"

section \<open>Operations\<close>

definition hashmap_init :: "nat \<Rightarrow> 'v hashmap" where
  "hashmap_init capacity =
     \<lparr>hm_slots = replicate capacity empty_slot, hm_capacity = capacity, hm_count = 0\<rparr>"

text \<open>The search that \<^verbatim>\<open>get\<close> and \<^verbatim>\<open>remove\<close> share: the index of the occupied slot that holds the
  key; an EMPTY slot ends it, a tombstone does not. The last argument counts the probes left.\<close>

fun hm_find :: "'v hm_slot list \<Rightarrow> nat \<Rightarrow> string \<Rightarrow> nat \<Rightarrow> nat \<Rightarrow> nat option" where
  "hm_find slots capacity key i 0 = None"
| "hm_find slots capacity key i (Suc k) =
     (let slot = slots ! i
      in if slot_state slot = SLOT_OCCUPIED \<and> hm_key_eq (slot_key slot) key then Some i
         else if slot_state slot = SLOT_EMPTY then None
         else hm_find slots capacity key (hm_next capacity i) k)"

datatype put_at = PUT_UPDATE nat | PUT_INSERT nat | PUT_NOWHERE

text \<open>The loop of \<^verbatim>\<open>put\<close>, with the first tombstone seen.\<close>

fun hm_put_loop ::
  "'v hm_slot list \<Rightarrow> nat \<Rightarrow> string \<Rightarrow> nat \<Rightarrow> nat option \<Rightarrow> nat \<Rightarrow> put_at" where
  "hm_put_loop slots capacity key i tombstone 0 =
     (case tombstone of None \<Rightarrow> PUT_NOWHERE | Some t \<Rightarrow> PUT_INSERT t)"
| "hm_put_loop slots capacity key i tombstone (Suc k) =
     (let slot = slots ! i
      in case slot_state slot of
           SLOT_OCCUPIED \<Rightarrow>
             if hm_key_eq (slot_key slot) key then PUT_UPDATE i
             else hm_put_loop slots capacity key (hm_next capacity i) tombstone k
         | SLOT_DELETED \<Rightarrow>
             hm_put_loop slots capacity key (hm_next capacity i)
               (case tombstone of None \<Rightarrow> Some i | Some t \<Rightarrow> Some t) k
         | SLOT_EMPTY \<Rightarrow> PUT_INSERT (case tombstone of None \<Rightarrow> i | Some t \<Rightarrow> t))"

text \<open>\<open>None\<close> is the result \<open>-1\<close>.\<close>

definition hashmap_put :: "'v hashmap \<Rightarrow> string \<Rightarrow> 'v \<Rightarrow> 'v hashmap option" where
  "hashmap_put m key value =
     (if hm_count m * 4 \<ge> hm_capacity m * 3 then None
      else case hm_put_loop (hm_slots m) (hm_capacity m) key (hm_start (hm_capacity m) key) None
                  (hm_capacity m) of
        PUT_UPDATE i \<Rightarrow>
          Some (m\<lparr>hm_slots := (hm_slots m)[i := (hm_slots m ! i)\<lparr>slot_value := Some value\<rparr>]\<rparr>)
      | PUT_INSERT i \<Rightarrow>
          Some (m\<lparr>hm_slots := (hm_slots m)[i :=
                    \<lparr>slot_key = c_copy ABLY_HASHMAP_KEY_MAX key, slot_value = Some value,
                     slot_state = SLOT_OCCUPIED\<rparr>],
                 hm_count := hm_count m + 1\<rparr>)
      | PUT_NOWHERE \<Rightarrow> None)"

definition hashmap_get :: "'v hashmap \<Rightarrow> string \<Rightarrow> 'v option" where
  "hashmap_get m key =
     (case hm_find (hm_slots m) (hm_capacity m) key (hm_start (hm_capacity m) key) (hm_capacity m) of
        None \<Rightarrow> None | Some i \<Rightarrow> slot_value (hm_slots m ! i))"

text \<open>The new map, and whether the key was found.\<close>

definition hashmap_remove :: "'v hashmap \<Rightarrow> string \<Rightarrow> 'v hashmap \<times> bool" where
  "hashmap_remove m key =
     (case hm_find (hm_slots m) (hm_capacity m) key (hm_start (hm_capacity m) key) (hm_capacity m) of
        None \<Rightarrow> (m, False)
      | Some i \<Rightarrow>
          (m\<lparr>hm_slots := (hm_slots m)[i := (hm_slots m ! i)\<lparr>slot_state := SLOT_DELETED\<rparr>],
             hm_count := hm_count m - 1\<rparr>, True))"

definition hashmap_clear :: "'v hashmap \<Rightarrow> 'v hashmap" where
  "hashmap_clear m = m\<lparr>hm_slots := replicate (hm_capacity m) empty_slot, hm_count := 0\<rparr>"

text \<open>Iteration: from index \<open>i\<close>, the next occupied slot and the index after it.\<close>

function hashmap_iter_next :: "'v hashmap \<Rightarrow> nat \<Rightarrow> ((string \<times> 'v option) \<times> nat) option" where
  "hashmap_iter_next m i =
     (if i < hm_capacity m then
        let slot = hm_slots m ! i
        in if slot_state slot = SLOT_OCCUPIED then Some ((slot_key slot, slot_value slot), i + 1)
           else hashmap_iter_next m (i + 1)
      else None)"
  by pat_completeness auto
termination by (relation "measure (\<lambda>(m, i). hm_capacity m - i)") auto

declare hashmap_iter_next.simps [simp del]

section \<open>Probing\<close>

lemma nat_and_mask: "(a :: nat) AND (2 ^ n - 1) = a mod 2 ^ n"
  by (metis mask_eq_exp_minus_1 take_bit_eq_mask take_bit_eq_mod)

definition hm_probe :: "nat \<Rightarrow> nat \<Rightarrow> nat \<Rightarrow> nat" where
  "hm_probe capacity i j = (i + j) mod capacity"

lemma hm_next_probe: "capacity = 2 ^ n \<Longrightarrow> hm_next capacity i = hm_probe capacity i 1"
  by (simp add: hm_next_def hm_probe_def nat_and_mask del: One_nat_def)

lemma hm_start_less: "capacity = 2 ^ n \<Longrightarrow> hm_start capacity key < capacity"
  by (simp add: hm_start_def nat_and_mask del: One_nat_def)

lemma hm_probe_simps:
  "hm_probe c (hm_probe c i 1) j = hm_probe c i (Suc j)"
  "hm_probe c (hm_probe c i (Suc 0)) j = hm_probe c i (Suc j)"
  "i < c \<Longrightarrow> hm_probe c i 0 = i"
  "0 < c \<Longrightarrow> hm_probe c i j < c"
  by (simp_all add: hm_probe_def mod_add_left_eq)

lemma hm_probe_surj: "i < c \<Longrightarrow> r < c \<Longrightarrow> \<exists>d < c. hm_probe c i d = r"
proof -
  assume "i < c" "r < c"
  then have "hm_probe c i (if i \<le> r then r - i else c + r - i) = r"
    "(if i \<le> r then r - i else c + r - i) < c"
    by (auto simp: hm_probe_def)
  then show ?thesis by blast
qed

text \<open>The slot that a search stops at, and those it passes over.\<close>

definition hm_hit :: "'v hm_slot list \<Rightarrow> string \<Rightarrow> nat \<Rightarrow> bool" where
  "hm_hit slots key i \<longleftrightarrow>
     slot_state (slots ! i) = SLOT_OCCUPIED \<and> hm_key_eq (slot_key (slots ! i)) key"

definition hm_pass :: "'v hm_slot list \<Rightarrow> string \<Rightarrow> nat \<Rightarrow> bool" where
  "hm_pass slots key i \<longleftrightarrow> \<not> hm_hit slots key i \<and> slot_state (slots ! i) \<noteq> SLOT_EMPTY"

lemma all_less_Suc_shift: "(\<forall>j < Suc d. P j) \<longleftrightarrow> P 0 \<and> (\<forall>j < d. P (Suc j))"
  using less_Suc_eq_0_disj by auto

lemma hm_find_Some:
  "capacity = 2 ^ n \<Longrightarrow> i < capacity \<Longrightarrow> hm_find slots capacity key i k = Some r \<Longrightarrow>
     \<exists>d < k. r = hm_probe capacity i d \<and> hm_hit slots key r \<and>
       (\<forall>j < d. hm_pass slots key (hm_probe capacity i j))"
proof (induction k arbitrary: i)
  case 0
  then show ?case by simp
next
  case (Suc k)
  show ?case
  proof (cases "hm_hit slots key i")
    case True
    then show ?thesis using Suc.prems
      by (auto simp: hm_hit_def Let_def hm_probe_simps intro!: exI [of _ 0])
  next
    case False
    with Suc.prems have pass: "hm_pass slots key i"
      and rec: "hm_find slots capacity key (hm_probe capacity i 1) k = Some r"
      by (auto simp: hm_hit_def hm_pass_def Let_def hm_next_probe split: if_splits)
    obtain d where "d < k" "r = hm_probe capacity i (Suc d)" "hm_hit slots key r"
      "\<forall>j < d. hm_pass slots key (hm_probe capacity i (Suc j))"
      using Suc.IH [OF Suc.prems(1) _ rec] Suc.prems(2) by (auto simp: hm_probe_simps)
    then show ?thesis using pass Suc.prems(2)
      by (intro exI [of _ "Suc d"]) (auto simp: all_less_Suc_shift hm_probe_simps)
  qed
qed

lemma hm_find_complete:
  "capacity = 2 ^ n \<Longrightarrow> i < capacity \<Longrightarrow> d < k \<Longrightarrow> hm_hit slots key (hm_probe capacity i d) \<Longrightarrow>
   (\<forall>j < d. hm_pass slots key (hm_probe capacity i j)) \<Longrightarrow>
     hm_find slots capacity key i k = Some (hm_probe capacity i d)"
proof (induction k arbitrary: i d)
  case 0
  then show ?case by simp
next
  case (Suc k)
  show ?case
  proof (cases d)
    case 0
    then show ?thesis using Suc.prems by (simp add: Let_def hm_hit_def hm_probe_simps)
  next
    case (Suc e)
    with Suc.prems have "hm_pass slots key i" by (auto simp: all_less_Suc_shift hm_probe_simps)
    moreover have "hm_find slots capacity key (hm_probe capacity i 1) k =
        Some (hm_probe capacity (hm_probe capacity i 1) e)"
      using Suc Suc.prems by (intro Suc.IH) (auto simp: all_less_Suc_shift hm_probe_simps)
    ultimately show ?thesis using Suc Suc.prems(1)
      by (auto simp: hm_pass_def hm_hit_def Let_def hm_next_probe hm_probe_simps)
  qed
qed

text \<open>The insertion loop finds the key where the search does, and otherwise the first slot of the
  probe sequence that is not occupied.\<close>

lemma hm_put_update:
  "hm_find slots capacity key i k = Some r \<Longrightarrow> hm_put_loop slots capacity key i t k = PUT_UPDATE r"
  by (induction slots capacity key i k arbitrary: t rule: hm_find.induct)
     (auto simp: Let_def split: if_splits slot_state.splits)

lemma hm_put_tomb:
  "hm_find slots capacity key i k = None \<Longrightarrow> hm_put_loop slots capacity key i (Some t) k = PUT_INSERT t"
  by (induction slots capacity key i k rule: hm_find.induct)
     (auto simp: Let_def split: if_splits slot_state.splits)

lemma hm_put_insert:
  "capacity = 2 ^ n \<Longrightarrow> i < capacity \<Longrightarrow> hm_find slots capacity key i k = None \<Longrightarrow>
   d < k \<Longrightarrow> slot_state (slots ! hm_probe capacity i d) \<noteq> SLOT_OCCUPIED \<Longrightarrow>
     \<exists>e \<le> d. hm_put_loop slots capacity key i None k = PUT_INSERT (hm_probe capacity i e) \<and>
       slot_state (slots ! hm_probe capacity i e) \<noteq> SLOT_OCCUPIED \<and>
       (\<forall>j < e. slot_state (slots ! hm_probe capacity i j) = SLOT_OCCUPIED)"
proof (induction k arbitrary: i d)
  case 0
  then show ?case by simp
next
  case (Suc k)
  show ?case
  proof (cases "slot_state (slots ! i) = SLOT_OCCUPIED")
    case False
    have "hm_put_loop slots capacity key i None (Suc k) = PUT_INSERT i"
      using False Suc.prems(3) by (auto simp: Let_def hm_put_tomb split: slot_state.splits)
    then show ?thesis using False Suc.prems(2) by (intro exI [of _ 0]) (simp add: hm_probe_simps)
  next
    case True
    then obtain f where d: "d = Suc f" using Suc.prems(2,5) by (cases d) (auto simp: hm_probe_simps)
    have rec: "hm_find slots capacity key (hm_probe capacity i 1) k = None"
      and miss: "\<not> hm_key_eq (slot_key (slots ! i)) key"
      using Suc.prems(1,3) True by (auto simp: Let_def hm_next_probe split: if_splits)
    obtain e where "e \<le> f"
      "hm_put_loop slots capacity key (hm_probe capacity i 1) None k =
         PUT_INSERT (hm_probe capacity i (Suc e))"
      "slot_state (slots ! hm_probe capacity i (Suc e)) \<noteq> SLOT_OCCUPIED"
      "\<forall>j < e. slot_state (slots ! hm_probe capacity i (Suc j)) = SLOT_OCCUPIED"
      using Suc.IH [OF Suc.prems(1) _ rec, of f] Suc.prems d by (auto simp: hm_probe_simps)
    then show ?thesis using True miss d Suc.prems(1,2)
      by (intro exI [of _ "Suc e"]) (auto simp: Let_def hm_next_probe hm_probe_simps all_less_Suc_shift)
  qed
qed

section \<open>The invariant and the abstraction\<close>

definition hm_occupied :: "'v hashmap \<Rightarrow> nat \<Rightarrow> bool" where
  "hm_occupied m i \<longleftrightarrow> i < hm_capacity m \<and> slot_state (hm_slots m ! i) = SLOT_OCCUPIED"

text \<open>Every entry is reachable: no EMPTY slot between the start of its key's probe sequence and it.\<close>

definition hm_reach :: "'v hashmap \<Rightarrow> nat \<Rightarrow> bool" where
  "hm_reach m i \<longleftrightarrow>
     (\<exists>d < hm_capacity m.
        i = hm_probe (hm_capacity m) (hm_start (hm_capacity m) (slot_key (hm_slots m ! i))) d \<and>
        (\<forall>j < d. slot_state (hm_slots m ! hm_probe (hm_capacity m)
            (hm_start (hm_capacity m) (slot_key (hm_slots m ! i))) j) \<noteq> SLOT_EMPTY))"

definition hm_inv :: "'v hashmap \<Rightarrow> bool" where
  "hm_inv m \<longleftrightarrow>
     (\<exists>n \<ge> 2. hm_capacity m = 2 ^ n) \<and> length (hm_slots m) = hm_capacity m \<and>
     hm_count m = card {i. hm_occupied m i} \<and> hm_count m * 4 \<le> hm_capacity m * 3 \<and>
     (\<forall>i. hm_occupied m i \<longrightarrow> hm_reach m i \<and> slot_value (hm_slots m ! i) \<noteq> None \<and>
        length (slot_key (hm_slots m ! i)) < ABLY_HASHMAP_KEY_MAX) \<and>
     (\<forall>i j. hm_occupied m i \<longrightarrow> hm_occupied m j \<longrightarrow>
        slot_key (hm_slots m ! i) = slot_key (hm_slots m ! j) \<longrightarrow> i = j)"

definition hm_abs :: "'v hashmap \<Rightarrow> string \<rightharpoonup> 'v" where
  "hm_abs m key =
     (case first_index (\<lambda>s. slot_state s = SLOT_OCCUPIED \<and> slot_key s = key) (hm_slots m) of
        None \<Rightarrow> None | Some i \<Rightarrow> slot_value (hm_slots m ! i))"

definition hm_key_ok :: "string \<Rightarrow> bool" where
  "hm_key_ok key \<longleftrightarrow> length key < ABLY_HASHMAP_KEY_MAX"

lemma hm_key_eq_ok: "hm_key_ok a \<Longrightarrow> hm_key_ok b \<Longrightarrow> hm_key_eq a b \<longleftrightarrow> a = b"
  by (simp add: hm_key_ok_def hm_key_eq_def ABLY_HASHMAP_KEY_MAX_def)

lemma hm_inv_length: "hm_inv m \<Longrightarrow> length (hm_slots m) = hm_capacity m"
  by (simp add: hm_inv_def)

lemma hm_inv_entry:
  assumes "hm_inv m" "hm_occupied m i"
  shows "hm_reach m i" "slot_value (hm_slots m ! i) \<noteq> None" "hm_key_ok (slot_key (hm_slots m ! i))"
  using assms by (simp_all add: hm_inv_def hm_key_ok_def)

lemma hm_inv_unique:
  "hm_inv m \<Longrightarrow> hm_occupied m i \<Longrightarrow> hm_occupied m j \<Longrightarrow>
   slot_key (hm_slots m ! i) = slot_key (hm_slots m ! j) \<Longrightarrow> i = j"
  unfolding hm_inv_def by blast

lemma hm_abs_at:
  assumes "hm_inv m" "hm_occupied m i" "slot_key (hm_slots m ! i) = key"
  shows "hm_abs m key = slot_value (hm_slots m ! i)"
proof -
  let ?P = "\<lambda>s. slot_state s = SLOT_OCCUPIED \<and> slot_key s = key"
  have "hm_slots m ! i \<in> set (hm_slots m)" "?P (hm_slots m ! i)"
    using assms(2,3) hm_inv_length [OF assms(1)] by (simp_all add: hm_occupied_def)
  then obtain j where j: "first_index ?P (hm_slots m) = Some j"
    using first_index_exists [of "hm_slots m ! i" "hm_slots m" ?P] by blast
  then have "hm_occupied m j" "slot_key (hm_slots m ! j) = key"
    using first_index_Some [OF j] hm_inv_length [OF assms(1)] by (simp_all add: hm_occupied_def)
  then have "j = i" using hm_inv_unique [OF assms(1), of j i] assms(2,3) by simp
  with j show ?thesis by (simp add: hm_abs_def)
qed

lemma hm_abs_None:
  assumes "hm_inv m"
  shows "hm_abs m key = None \<longleftrightarrow> (\<forall>i. hm_occupied m i \<longrightarrow> slot_key (hm_slots m ! i) \<noteq> key)"
proof
  assume n: "hm_abs m key = None"
  show "\<forall>i. hm_occupied m i \<longrightarrow> slot_key (hm_slots m ! i) \<noteq> key"
  proof (intro allI impI notI)
    fix i assume "hm_occupied m i" "slot_key (hm_slots m ! i) = key"
    then show False using hm_abs_at [OF assms] n hm_inv_entry(2) [OF assms] by metis
  qed
next
  let ?P = "\<lambda>s. slot_state s = SLOT_OCCUPIED \<and> slot_key s = key"
  assume a: "\<forall>i. hm_occupied m i \<longrightarrow> slot_key (hm_slots m ! i) \<noteq> key"
  show "hm_abs m key = None"
  proof (cases "first_index ?P (hm_slots m)")
    case (Some i)
    from first_index_Some [OF this] hm_inv_length [OF assms]
    have "hm_occupied m i" "slot_key (hm_slots m ! i) = key"
      by (simp_all add: hm_occupied_def)
    with a show ?thesis by blast
  qed (simp add: hm_abs_def)
qed

lemma hm_abs_SomeD:
  assumes "hm_inv m" "hm_abs m key = Some v"
  obtains i where "hm_occupied m i" "slot_key (hm_slots m ! i) = key" "slot_value (hm_slots m ! i) = Some v"
  using assms hm_abs_None [OF assms(1)] hm_abs_at [OF assms(1)] by (metis option.distinct(1))

lemma hm_abs_eq_Some:
  assumes "hm_inv m"
  shows "hm_abs m key = Some v \<longleftrightarrow>
    (\<exists>i. hm_occupied m i \<and> slot_key (hm_slots m ! i) = key \<and> slot_value (hm_slots m ! i) = Some v)"
  using hm_abs_SomeD [OF assms] hm_abs_at [OF assms] by metis

text \<open>The search is exact.\<close>

definition hm_search :: "'v hashmap \<Rightarrow> string \<Rightarrow> nat option" where
  "hm_search m key =
     hm_find (hm_slots m) (hm_capacity m) key (hm_start (hm_capacity m) key) (hm_capacity m)"

lemma hm_search_iff:
  assumes inv: "hm_inv m" and ok: "hm_key_ok key"
  shows "hm_search m key = Some i \<longleftrightarrow> hm_occupied m i \<and> slot_key (hm_slots m ! i) = key"
proof -
  obtain n where n: "hm_capacity m = 2 ^ n" using inv by (auto simp: hm_inv_def)
  have start: "hm_start (hm_capacity m) key < hm_capacity m" by (rule hm_start_less [OF n])
  have hit: "hm_hit (hm_slots m) key j \<longleftrightarrow> hm_occupied m j \<and> slot_key (hm_slots m ! j) = key"
    if "j < hm_capacity m" for j
    using that inv ok by (auto simp: hm_hit_def hm_occupied_def hm_inv_def hm_key_ok_def
        hm_key_eq_ok [unfolded hm_key_ok_def])
  show ?thesis
  proof
    assume "hm_search m key = Some i"
    from hm_find_Some [OF n start this [unfolded hm_search_def]] hit
    show "hm_occupied m i \<and> slot_key (hm_slots m ! i) = key"
      using start by (auto simp: hm_probe_simps)
  next
    assume i: "hm_occupied m i \<and> slot_key (hm_slots m ! i) = key"
    then obtain d where d: "d < hm_capacity m"
      "i = hm_probe (hm_capacity m) (hm_start (hm_capacity m) key) d"
      "\<forall>j < d. slot_state (hm_slots m ! hm_probe (hm_capacity m) (hm_start (hm_capacity m) key) j) \<noteq> SLOT_EMPTY"
      using inv by (auto simp: hm_inv_def hm_reach_def)
    let ?hit = "\<lambda>j. hm_hit (hm_slots m) key (hm_probe (hm_capacity m) (hm_start (hm_capacity m) key) j)"
    define e where "e = (LEAST j. ?hit j)"
    have hd: "?hit d" using i d hit by (auto simp: hm_occupied_def)
    have e: "?hit e" "e \<le> d" "\<forall>j < e. \<not> ?hit j"
      unfolding e_def using hd by (auto intro: LeastI Least_le dest: not_less_Least)
    have "hm_search m key = Some (hm_probe (hm_capacity m) (hm_start (hm_capacity m) key) e)"
      unfolding hm_search_def using d e
      by (intro hm_find_complete [OF n start]) (auto simp: hm_pass_def)
    moreover have "hm_probe (hm_capacity m) (hm_start (hm_capacity m) key) e = i"
      using e(1) i hit [of "hm_probe (hm_capacity m) (hm_start (hm_capacity m) key) e"] start
        hm_inv_unique [OF inv, of "hm_probe (hm_capacity m) (hm_start (hm_capacity m) key) e" i]
      by (simp add: hm_probe_simps)
    ultimately show "hm_search m key = Some i" by simp
  qed
qed

lemma hashmap_get_abs: "hm_inv m \<Longrightarrow> hm_key_ok key \<Longrightarrow> hashmap_get m key = hm_abs m key"
proof -
  assume inv: "hm_inv m" and ok: "hm_key_ok key"
  show ?thesis
  proof (cases "hm_search m key")
    case None
    then have "hm_abs m key = None" using hm_search_iff [OF inv ok] by (simp add: hm_abs_None [OF inv])
    then show ?thesis using None by (simp add: hashmap_get_def hm_search_def)
  next
    case (Some i)
    then have "hm_abs m key = slot_value (hm_slots m ! i)"
      using hm_search_iff [OF inv ok] hm_abs_at [OF inv, of i key] by simp
    then show ?thesis using Some by (simp add: hashmap_get_def hm_search_def)
  qed
qed

text \<open>The abstraction at a key depends only on the entries with that key.\<close>

lemma hm_abs_agree:
  assumes inv: "hm_inv m" and inv': "hm_inv m'"
    and same: "\<And>j. hm_occupied m' j \<and> slot_key (hm_slots m' ! j) = q \<longleftrightarrow>
      hm_occupied m j \<and> slot_key (hm_slots m ! j) = q"
    and val: "\<And>j. hm_occupied m j \<Longrightarrow> slot_key (hm_slots m ! j) = q \<Longrightarrow>
      slot_value (hm_slots m' ! j) = slot_value (hm_slots m ! j)"
  shows "hm_abs m' q = hm_abs m q"
proof (cases "\<exists>j. hm_occupied m j \<and> slot_key (hm_slots m ! j) = q")
  case True
  then obtain j where j: "hm_occupied m j" "slot_key (hm_slots m ! j) = q" by blast
  with same have "hm_occupied m' j" "slot_key (hm_slots m' ! j) = q" by blast+
  then show ?thesis using hm_abs_at [OF inv' _ _] hm_abs_at [OF inv j] val [OF j] by metis
next
  case False
  then have "hm_abs m q = None" "hm_abs m' q = None"
    using same unfolding hm_abs_None [OF inv] hm_abs_None [OF inv'] by blast+
  then show ?thesis by simp
qed

lemma hm_occupied_upd:
  "hm_inv m \<Longrightarrow> i < hm_capacity m \<Longrightarrow>
     hm_occupied (m\<lparr>hm_slots := (hm_slots m)[i := s], hm_count := c\<rparr>) j \<longleftrightarrow>
       (if j = i then slot_state s = SLOT_OCCUPIED else hm_occupied m j)"
  by (auto simp: hm_occupied_def hm_inv_length)

lemma finite_hm_occupied: "finite {i. hm_occupied m i}"
  by (rule finite_subset [of _ "{..<hm_capacity m}"]) (auto simp: hm_occupied_def)

text \<open>A slot that never becomes EMPTY again keeps the others reachable.\<close>

lemma hm_reach_upd:
  assumes "hm_inv m" "hm_reach m j" "j \<noteq> i" "slot_state s \<noteq> SLOT_EMPTY"
  shows "hm_reach (m\<lparr>hm_slots := (hm_slots m)[i := s], hm_count := c\<rparr>) j"
proof -
  let ?c = "hm_capacity m" and ?st = "hm_start (hm_capacity m) (slot_key (hm_slots m ! j))"
  obtain d where d: "d < ?c" "j = hm_probe ?c ?st d"
    "\<forall>k < d. slot_state (hm_slots m ! hm_probe ?c ?st k) \<noteq> SLOT_EMPTY"
    using assms(2) by (auto simp: hm_reach_def)
  have "slot_state ((hm_slots m)[i := s] ! k) \<noteq> SLOT_EMPTY"
    if "slot_state (hm_slots m ! k) \<noteq> SLOT_EMPTY" for k
    using that assms(4) by (cases "k = i"; cases "i < length (hm_slots m)") (auto simp: list_update_beyond)
  then show ?thesis using d assms(3) unfolding hm_reach_def by (intro exI [of _ d]) simp
qed

lemma hm_remove_at:
  assumes inv: "hm_inv m" and i: "hm_occupied m i"
  defines "m' \<equiv> m\<lparr>hm_slots := (hm_slots m)[i := (hm_slots m ! i)\<lparr>slot_state := SLOT_DELETED\<rparr>],
                   hm_count := hm_count m - 1\<rparr>"
  shows "hm_inv m'" "hm_abs m' = (hm_abs m)(slot_key (hm_slots m ! i) := None)"
proof -
  have ic: "i < hm_capacity m" using i by (simp add: hm_occupied_def)
  have occ: "hm_occupied m' j \<longleftrightarrow> j \<noteq> i \<and> hm_occupied m j" for j
    unfolding m'_def hm_occupied_upd [OF inv ic] by simp
  have slot: "hm_slots m' ! j = hm_slots m ! j" if "j \<noteq> i" for j
    using that by (simp add: m'_def)
  have reach: "hm_reach m' j" if "hm_occupied m' j" for j
    unfolding m'_def using that occ hm_inv_entry(1) [OF inv] by (intro hm_reach_upd [OF inv]) auto
  have cap: "hm_capacity m' = hm_capacity m" by (simp add: m'_def)
  have "{j. hm_occupied m' j} = {j. hm_occupied m j} - {i}" using occ by auto
  then have card: "card {j. hm_occupied m' j} = card {j. hm_occupied m j} - 1"
    using i finite_hm_occupied [of m] by simp
  show inv': "hm_inv m'" unfolding hm_inv_def
  proof (intro conjI allI impI)
    show "\<exists>n \<ge> 2. hm_capacity m' = 2 ^ n" "hm_count m' * 4 \<le> hm_capacity m' * 3"
      "length (hm_slots m') = hm_capacity m'" "hm_count m' = card {j. hm_occupied m' j}"
      using inv card by (auto simp: hm_inv_def m'_def)
  next
    fix j assume j: "hm_occupied m' j"
    then have "j \<noteq> i" "hm_occupied m j" using occ by auto
    then show "hm_reach m' j" "slot_value (hm_slots m' ! j) \<noteq> None"
      "length (slot_key (hm_slots m' ! j)) < ABLY_HASHMAP_KEY_MAX"
      using reach [OF j] hm_inv_entry [OF inv, of j] by (simp_all add: slot hm_key_ok_def)
  next
    fix j k assume "hm_occupied m' j" "hm_occupied m' k"
      "slot_key (hm_slots m' ! j) = slot_key (hm_slots m' ! k)"
    then show "j = k" using occ slot hm_inv_unique [OF inv, of j k] by auto
  qed
  show "hm_abs m' = (hm_abs m)(slot_key (hm_slots m ! i) := None)"
  proof (rule ext)
    fix q
    show "hm_abs m' q = ((hm_abs m)(slot_key (hm_slots m ! i) := None)) q"
    proof (cases "q = slot_key (hm_slots m ! i)")
      case True
      have "hm_abs m' q = None"
        unfolding hm_abs_None [OF inv'] using occ slot hm_inv_unique [OF inv i] True by metis
      then show ?thesis using True by simp
    next
      case False
      then show ?thesis using hm_abs_agree [OF inv inv', of q] occ slot by (metis fun_upd_other)
    qed
  qed
qed

lemma hm_update_at:
  fixes m :: "'v hashmap" and v :: 'v
  assumes inv: "hm_inv m" and i: "hm_occupied m i"
  defines "m' \<equiv> m\<lparr>hm_slots := (hm_slots m)[i := (hm_slots m ! i)\<lparr>slot_value := Some v\<rparr>]\<rparr>"
  shows "hm_inv m'" "hm_abs m' = (hm_abs m)(slot_key (hm_slots m ! i) \<mapsto> v)"
proof -
  have ic: "i < hm_capacity m" and st: "slot_state (hm_slots m ! i) = SLOT_OCCUPIED"
    using i by (simp_all add: hm_occupied_def)
  have m': "m' = m\<lparr>hm_slots := (hm_slots m)[i := (hm_slots m ! i)\<lparr>slot_value := Some v\<rparr>],
      hm_count := hm_count m\<rparr>" by (simp add: m'_def)
  have occ: "hm_occupied m' j \<longleftrightarrow> hm_occupied m j" for j
    unfolding m' hm_occupied_upd [OF inv ic] using st i by auto
  have slot: "hm_slots m' ! j = (if j = i then (hm_slots m ! i)\<lparr>slot_value := Some v\<rparr> else hm_slots m ! j)" for j
    using ic hm_inv_length [OF inv] by (simp add: m'_def)
  have key: "slot_key (hm_slots m' ! j) = slot_key (hm_slots m ! j)"
    and state: "slot_state (hm_slots m' ! j) = slot_state (hm_slots m ! j)" for j
    by (simp_all add: slot)
  show inv': "hm_inv m'" unfolding hm_inv_def
  proof (intro conjI allI impI)
    show "\<exists>n \<ge> 2. hm_capacity m' = 2 ^ n" "hm_count m' * 4 \<le> hm_capacity m' * 3"
      "length (hm_slots m') = hm_capacity m'" "hm_count m' = card {j. hm_occupied m' j}"
      unfolding occ using inv by (simp_all add: hm_inv_def m'_def)
  next
    fix j assume "hm_occupied m' j"
    then have j: "hm_occupied m j" by (simp add: occ)
    show "hm_reach m' j" using hm_inv_entry(1) [OF inv j] unfolding hm_reach_def key state
      by (simp add: m'_def)
    show "slot_value (hm_slots m' ! j) \<noteq> None"
      using hm_inv_entry(2) [OF inv j] by (simp add: slot)
    show "length (slot_key (hm_slots m' ! j)) < ABLY_HASHMAP_KEY_MAX"
      using hm_inv_entry(3) [OF inv j] by (simp add: key hm_key_ok_def)
  next
    fix j k assume "hm_occupied m' j" "hm_occupied m' k"
      "slot_key (hm_slots m' ! j) = slot_key (hm_slots m' ! k)"
    then show "j = k" using hm_inv_unique [OF inv, of j k] by (simp add: occ key)
  qed
  show "hm_abs m' = (hm_abs m)(slot_key (hm_slots m ! i) \<mapsto> v)"
  proof (rule ext)
    fix q
    show "hm_abs m' q = ((hm_abs m)(slot_key (hm_slots m ! i) \<mapsto> v)) q"
    proof (cases "q = slot_key (hm_slots m ! i)")
      case True
      then show ?thesis using hm_abs_at [OF inv', of i q] i by (simp add: occ key slot)
    next
      case False
      have "hm_abs m' q = hm_abs m q"
        by (rule hm_abs_agree [OF inv inv'])
          (use False in \<open>auto simp: occ key slot split: if_splits\<close>)
      then show ?thesis using False by simp
    qed
  qed
qed

lemma hm_load_step: "c * 4 < 2 ^ n * 3 \<Longrightarrow> 2 \<le> n \<Longrightarrow> (c + 1) * 4 \<le> 2 ^ n * (3 :: nat)"
proof -
  assume "c * 4 < 2 ^ n * 3" "2 \<le> n"
  moreover then obtain k where "n = k + 2" by (metis le_iff_add add.commute)
  ultimately show ?thesis by (simp add: power_add)
qed

lemma hm_insert_at:
  fixes m :: "'v hashmap" and v :: 'v
  assumes inv: "hm_inv m" and ok: "hm_key_ok key" and load: "hm_count m * 4 < hm_capacity m * 3"
    and new: "\<And>j. hm_occupied m j \<Longrightarrow> slot_key (hm_slots m ! j) \<noteq> key"
    and i: "i = hm_probe (hm_capacity m) (hm_start (hm_capacity m) key) d" "d < hm_capacity m"
    and free: "slot_state (hm_slots m ! i) \<noteq> SLOT_OCCUPIED"
    and path: "\<forall>j < d. slot_state (hm_slots m !
        hm_probe (hm_capacity m) (hm_start (hm_capacity m) key) j) = SLOT_OCCUPIED"
  defines "s \<equiv> \<lparr>slot_key = key, slot_value = Some v, slot_state = SLOT_OCCUPIED\<rparr>"
  defines "m' \<equiv> m\<lparr>hm_slots := (hm_slots m)[i := s], hm_count := hm_count m + 1\<rparr>"
  shows "hm_inv m'" "hm_abs m' = (hm_abs m)(key \<mapsto> v)"
proof -
  obtain n where n: "2 \<le> n" "hm_capacity m = 2 ^ n" using inv by (auto simp: hm_inv_def)
  have ic: "i < hm_capacity m" using i n by (simp add: hm_probe_simps)
  have occ: "hm_occupied m' j \<longleftrightarrow> j = i \<or> hm_occupied m j" for j
    unfolding m'_def hm_occupied_upd [OF inv ic] by (simp add: s_def)
  have slot: "hm_slots m' ! j = (if j = i then s else hm_slots m ! j)" for j
    using ic hm_inv_length [OF inv] by (simp add: m'_def)
  have cap: "hm_capacity m' = hm_capacity m" by (simp add: m'_def)
  have ni: "\<not> hm_occupied m i" using free by (simp add: hm_occupied_def)
  have "{j. hm_occupied m' j} = insert i {j. hm_occupied m j}" using occ by auto
  then have card: "card {j. hm_occupied m' j} = card {j. hm_occupied m j} + 1"
    using ni finite_hm_occupied [of m] by simp
  have reach_i: "hm_reach m' i"
  proof -
    have "hm_probe (hm_capacity m) (hm_start (hm_capacity m) key) j \<noteq> i" if "j < d" for j
      using path free that by metis
    then show ?thesis unfolding hm_reach_def cap slot using i path
      by (intro exI [of _ d]) (simp add: s_def)
  qed
  have reach: "hm_reach m' j" if "hm_occupied m j" "j \<noteq> i" for j
    unfolding m'_def using that hm_inv_entry(1) [OF inv that(1)]
    by (intro hm_reach_upd [OF inv]) (simp_all add: s_def)
  show inv': "hm_inv m'" unfolding hm_inv_def
  proof (intro conjI allI impI)
    show "\<exists>n \<ge> 2. hm_capacity m' = 2 ^ n" using n cap by auto
    show "length (hm_slots m') = hm_capacity m'"
      using hm_inv_length [OF inv] by (simp add: m'_def)
    show "hm_count m' = card {j. hm_occupied m' j}" using inv card by (simp add: hm_inv_def m'_def)
    show "hm_count m' * 4 \<le> hm_capacity m' * 3"
      using hm_load_step [of "hm_count m" n] load n by (simp add: m'_def)
  next
    fix j assume j: "hm_occupied m' j"
    show "hm_reach m' j" using j occ reach_i reach by (cases "j = i") auto
    show "slot_value (hm_slots m' ! j) \<noteq> None"
      using j occ hm_inv_entry(2) [OF inv, of j] by (cases "j = i") (simp_all add: slot s_def)
    show "length (slot_key (hm_slots m' ! j)) < ABLY_HASHMAP_KEY_MAX"
      using j occ hm_inv_entry(3) [OF inv, of j] ok
      by (cases "j = i") (simp_all add: slot s_def hm_key_ok_def)
  next
    fix j k assume "hm_occupied m' j" "hm_occupied m' k"
      "slot_key (hm_slots m' ! j) = slot_key (hm_slots m' ! k)"
    then show "j = k" using occ new hm_inv_unique [OF inv, of j k]
      by (auto simp: slot s_def split: if_splits)
  qed
  show "hm_abs m' = (hm_abs m)(key \<mapsto> v)"
  proof (rule ext)
    fix q
    show "hm_abs m' q = ((hm_abs m)(key \<mapsto> v)) q"
    proof (cases "q = key")
      case True
      then show ?thesis using hm_abs_at [OF inv', of i q] by (simp add: occ slot s_def)
    next
      case False
      have "hm_abs m' q = hm_abs m q"
        by (rule hm_abs_agree [OF inv inv'])
          (use False ni in \<open>auto simp: occ slot s_def split: if_splits\<close>)
      then show ?thesis using False by simp
    qed
  qed
qed

section \<open>The operations\<close>

lemma hashmap_init_inv [inv_rules]: "2 \<le> n \<Longrightarrow> hm_inv (hashmap_init (2 ^ n))"
  by (auto simp: hm_inv_def hashmap_init_def hm_occupied_def empty_slot_def)

lemma hm_abs_empty: "hm_inv m \<Longrightarrow> \<forall>i. \<not> hm_occupied m i \<Longrightarrow> hm_abs m = Map.empty"
  by (rule ext) (simp add: hm_abs_None)

lemma hashmap_init_abs: "hm_abs (hashmap_init c) = Map.empty"
proof (rule ext)
  fix q
  have "first_index (\<lambda>s. slot_state s = SLOT_OCCUPIED \<and> slot_key s = q)
      (replicate c (empty_slot :: 'a hm_slot)) = None"
    by (auto simp: first_index_None empty_slot_def)
  then show "hm_abs (hashmap_init c :: 'a hashmap) q = None"
    by (simp add: hm_abs_def hashmap_init_def)
qed

lemma hashmap_remove_spec:
  assumes inv: "hm_inv m" and ok: "hm_key_ok key"
  shows "hm_inv (fst (hashmap_remove m key))"
    "hm_abs (fst (hashmap_remove m key)) = (hm_abs m)(key := None)"
    "snd (hashmap_remove m key) \<longleftrightarrow> hm_abs m key \<noteq> None"
proof (atomize (full), cases "hm_search m key")
  case None
  then have "hm_abs m key = None" using hm_search_iff [OF inv ok] by (simp add: hm_abs_None [OF inv])
  then show "hm_inv (fst (hashmap_remove m key)) \<and>
    hm_abs (fst (hashmap_remove m key)) = (hm_abs m)(key := None) \<and>
    snd (hashmap_remove m key) = (hm_abs m key \<noteq> None)"
    using None inv by (auto simp: hashmap_remove_def hm_search_def)
next
  case (Some i)
  then have i: "hm_occupied m i" "slot_key (hm_slots m ! i) = key"
    using hm_search_iff [OF inv ok] by auto
  then have "hm_abs m key \<noteq> None" by (auto simp: hm_abs_None [OF inv])
  then show "hm_inv (fst (hashmap_remove m key)) \<and>
    hm_abs (fst (hashmap_remove m key)) = (hm_abs m)(key := None) \<and>
    snd (hashmap_remove m key) = (hm_abs m key \<noteq> None)"
    using Some hm_remove_at [OF inv i(1)] i(2) by (simp add: hashmap_remove_def hm_search_def)
qed

lemma hashmap_put_full:
  "hm_capacity m * 3 \<le> hm_count m * 4 \<Longrightarrow> hashmap_put m key v = None"
  by (simp add: hashmap_put_def)

lemma hashmap_put_spec:
  assumes inv: "hm_inv m" and ok: "hm_key_ok key" and load: "hm_count m * 4 < hm_capacity m * 3"
  shows "\<exists>m'. hashmap_put m key v = Some m' \<and> hm_inv m' \<and> hm_abs m' = (hm_abs m)(key \<mapsto> v)"
proof (cases "hm_search m key")
  case (Some i)
  then have i: "hm_occupied m i" "slot_key (hm_slots m ! i) = key"
    using hm_search_iff [OF inv ok] by auto
  show ?thesis using load hm_update_at [OF inv i(1), of v] i(2)
    by (simp add: hashmap_put_def hm_put_update [OF Some [unfolded hm_search_def]])
next
  case None
  obtain n where n: "hm_capacity m = 2 ^ n" using inv by (auto simp: hm_inv_def)
  let ?c = "hm_capacity m" and ?s = "hm_start (hm_capacity m) key"
  have st: "?s < ?c" by (rule hm_start_less [OF n])
  have new: "slot_key (hm_slots m ! j) \<noteq> key" if "hm_occupied m j" for j
    using None that hm_search_iff [OF inv ok, of j] by auto
  have "\<exists>r < ?c. \<not> hm_occupied m r"
  proof (rule ccontr)
    assume "\<not> ?thesis"
    then have "{j. hm_occupied m j} = {..<?c}" by (auto simp: hm_occupied_def)
    then have "hm_count m = ?c" using inv by (simp add: hm_inv_def)
    then show False using load by simp
  qed
  then obtain r where "r < ?c" "\<not> hm_occupied m r" by blast
  then obtain d where "\<not> hm_occupied m r" "r < ?c" "d < ?c" "hm_probe ?c ?s d = r"
    using hm_probe_surj [OF st, of r] by blast
  then have "slot_state (hm_slots m ! hm_probe ?c ?s d) \<noteq> SLOT_OCCUPIED" "d < ?c"
    by (auto simp: hm_occupied_def)
  then obtain e where e: "e < ?c"
    "hm_put_loop (hm_slots m) ?c key ?s None ?c = PUT_INSERT (hm_probe ?c ?s e)"
    "slot_state (hm_slots m ! hm_probe ?c ?s e) \<noteq> SLOT_OCCUPIED"
    "\<forall>j < e. slot_state (hm_slots m ! hm_probe ?c ?s j) = SLOT_OCCUPIED"
    using hm_put_insert [OF n st None [unfolded hm_search_def], of d] by (auto intro: le_less_trans)
  have "c_copy ABLY_HASHMAP_KEY_MAX key = key"
    using ok by (simp add: hm_key_ok_def c_copy_id)
  with e(2) load have "hashmap_put m key v = Some (m\<lparr>hm_slots := (hm_slots m)[hm_probe ?c ?s e :=
      \<lparr>slot_key = key, slot_value = Some v, slot_state = SLOT_OCCUPIED\<rparr>], hm_count := hm_count m + 1\<rparr>)"
    by (simp add: hashmap_put_def)
  with hm_insert_at [OF inv ok load new refl e(1,3,4), of v] show ?thesis by blast
qed

lemma hashmap_clear_spec:
  assumes "hm_inv m"
  shows "hm_inv (hashmap_clear m)" "hm_abs (hashmap_clear m) = Map.empty"
proof -
  obtain n where n: "2 \<le> n" "hm_capacity m = 2 ^ n" using assms by (auto simp: hm_inv_def)
  have none: "\<not> hm_occupied (hashmap_clear m) i" for i
    by (auto simp: hm_occupied_def hashmap_clear_def empty_slot_def)
  have cap: "hm_capacity (hashmap_clear m) = hm_capacity m"
    "length (hm_slots (hashmap_clear m)) = hm_capacity m" "hm_count (hashmap_clear m) = 0"
    by (simp_all add: hashmap_clear_def)
  have e: "{i. hm_occupied (hashmap_clear m) i} = {}" using none by simp
  show "hm_inv (hashmap_clear m)" using n none unfolding hm_inv_def cap e by auto
  then show "hm_abs (hashmap_clear m) = Map.empty" using none by (intro hm_abs_empty) auto
qed

lemma finite_dom_hm_abs: "finite (dom (hm_abs m))"
proof (rule finite_subset)
  show "dom (hm_abs m) \<subseteq> slot_key ` set (hm_slots m)"
    by (force simp: hm_abs_def dest: first_index_Some split: option.splits)
qed simp

lemma card_dom_hm_abs:
  assumes inv: "hm_inv m"
  shows "card (dom (hm_abs m)) = hm_count m"
proof -
  have "dom (hm_abs m) = (\<lambda>i. slot_key (hm_slots m ! i)) ` {i. hm_occupied m i}"
  proof (intro set_eqI)
    fix q
    show "q \<in> dom (hm_abs m) \<longleftrightarrow> q \<in> (\<lambda>i. slot_key (hm_slots m ! i)) ` {i. hm_occupied m i}"
      using hm_abs_None [OF inv, of q] by (auto simp: dom_def)
  qed
  moreover have "inj_on (\<lambda>i. slot_key (hm_slots m ! i)) {i. hm_occupied m i}"
    using hm_inv_unique [OF inv] by (intro inj_onI) auto
  ultimately show ?thesis using inv by (simp add: card_image hm_inv_def)
qed

section \<open>The contract of a string map\<close>

text \<open>What a client of the map relies on. \<open>room\<close> tells when an insertion is accepted.\<close>

locale string_map =
  fixes get :: "'m \<Rightarrow> string \<Rightarrow> 'v option"
    and put :: "'m \<Rightarrow> string \<Rightarrow> 'v \<Rightarrow> 'm option"
    and remove :: "'m \<Rightarrow> string \<Rightarrow> 'm \<times> bool"
    and inv :: "'m \<Rightarrow> bool"
    and abs :: "'m \<Rightarrow> string \<rightharpoonup> 'v"
    and key_ok :: "string \<Rightarrow> bool"
    and room :: "'m \<Rightarrow> bool"
  assumes get_law: "inv m \<Longrightarrow> key_ok k \<Longrightarrow> get m k = abs m k"
    and put_law: "inv m \<Longrightarrow> key_ok k \<Longrightarrow> room m \<Longrightarrow>
      \<exists>m'. put m k v = Some m' \<and> inv m' \<and> abs m' = (abs m)(k \<mapsto> v)"
    and put_full: "\<not> room m \<Longrightarrow> put m k v = None"
    and remove_law: "inv m \<Longrightarrow> key_ok k \<Longrightarrow> remove m k = (m', found) \<Longrightarrow>
      inv m' \<and> abs m' = (abs m)(k := None) \<and> (found \<longleftrightarrow> abs m k \<noteq> None)"
begin

lemma put_Some:
  "inv m \<Longrightarrow> key_ok k \<Longrightarrow> put m k v = Some m' \<Longrightarrow> room m \<and> inv m' \<and> abs m' = (abs m)(k \<mapsto> v)"
  using put_law [of m k v] put_full [of m k v] by fastforce

lemma get_put_same: "inv m \<Longrightarrow> key_ok k \<Longrightarrow> put m k v = Some m' \<Longrightarrow> get m' k = Some v"
  using put_Some get_law by simp

lemma get_put_other:
  "inv m \<Longrightarrow> key_ok k \<Longrightarrow> key_ok j \<Longrightarrow> j \<noteq> k \<Longrightarrow> put m k v = Some m' \<Longrightarrow> get m' j = get m j"
  using put_Some get_law by simp

lemma get_remove:
  "inv m \<Longrightarrow> key_ok k \<Longrightarrow> key_ok j \<Longrightarrow> remove m k = (m', f) \<Longrightarrow>
     get m' j = (if j = k then None else get m j)"
  using remove_law [of m k m' f] get_law by simp

lemma remove_after_put:
  "inv m \<Longrightarrow> key_ok k \<Longrightarrow> get m k = None \<Longrightarrow> put m k v = Some m' \<Longrightarrow> remove m' k = (m'', f) \<Longrightarrow>
     f \<and> abs m'' = abs m"
  using put_Some [of m k v m'] remove_law [of m' k m'' f] get_law [of m k] by (auto simp: fun_eq_iff)

end

definition hm_room :: "'v hashmap \<Rightarrow> bool" where
  "hm_room m \<longleftrightarrow> hm_count m * 4 < hm_capacity m * 3"

interpretation hm: string_map hashmap_get hashmap_put hashmap_remove hm_inv hm_abs hm_key_ok hm_room
proof
  fix m :: "'a hashmap" and k v m' found
  show "hm_inv m \<Longrightarrow> hm_key_ok k \<Longrightarrow> hashmap_get m k = hm_abs m k" by (rule hashmap_get_abs)
  show "hm_inv m \<Longrightarrow> hm_key_ok k \<Longrightarrow> hm_room m \<Longrightarrow>
      \<exists>m'. hashmap_put m k v = Some m' \<and> hm_inv m' \<and> hm_abs m' = (hm_abs m)(k \<mapsto> v)"
    unfolding hm_room_def by (rule hashmap_put_spec)
  show "\<not> hm_room m \<Longrightarrow> hashmap_put m k v = None"
    by (simp add: hm_room_def hashmap_put_full)
  show "hm_inv m \<Longrightarrow> hm_key_ok k \<Longrightarrow> hashmap_remove m k = (m', found) \<Longrightarrow>
      hm_inv m' \<and> hm_abs m' = (hm_abs m)(k := None) \<and> (found \<longleftrightarrow> hm_abs m k \<noteq> None)"
    using hashmap_remove_spec [of m k] by auto
qed

section \<open>Sequences of operations against a partial function\<close>

datatype 'v map_op = Map_Put string 'v | Map_Remove string | Map_Clear

fun map_op_ok :: "'v map_op \<Rightarrow> bool" where
  "map_op_ok (Map_Put k v) = hm_key_ok k"
| "map_op_ok (Map_Remove k) = hm_key_ok k"
| "map_op_ok Map_Clear = True"

fun hm_step :: "'v map_op \<Rightarrow> 'v hashmap \<Rightarrow> 'v hashmap" where
  "hm_step (Map_Put k v) m = (case hashmap_put m k v of None \<Rightarrow> m | Some m' \<Rightarrow> m')"
| "hm_step (Map_Remove k) m = fst (hashmap_remove m k)"
| "hm_step Map_Clear m = hashmap_clear m"

text \<open>The specification: a partial function that refuses to grow past three quarters of the
  capacity (and then refuses updates, too).\<close>

fun spec_step :: "nat \<Rightarrow> 'v map_op \<Rightarrow> (string \<rightharpoonup> 'v) \<Rightarrow> (string \<rightharpoonup> 'v)" where
  "spec_step capacity (Map_Put k v) f =
     (if card (dom f) * 4 < capacity * 3 then f(k \<mapsto> v) else f)"
| "spec_step capacity (Map_Remove k) f = f(k := None)"
| "spec_step capacity Map_Clear f = Map.empty"

lemma hm_capacity_put: "hashmap_put m k v = Some m' \<Longrightarrow> hm_capacity m' = hm_capacity m"
  by (auto simp: hashmap_put_def split: if_splits put_at.splits)

lemma hm_capacity_step [simp]: "hm_capacity (hm_step p m) = hm_capacity m"
  by (cases p) (auto simp: hashmap_remove_def hashmap_clear_def hm_capacity_put split: option.splits)

lemma hm_step_refines:
  assumes inv: "hm_inv m" and ok: "map_op_ok p"
  shows "hm_inv (hm_step p m) \<and> hm_abs (hm_step p m) = spec_step (hm_capacity m) p (hm_abs m)"
proof (cases p)
  case (Map_Put k v)
  show ?thesis
  proof (cases "hm_room m")
    case True
    then show ?thesis using hm.put_law [OF inv _ True, of k v] ok Map_Put
      by (auto simp: hm_room_def card_dom_hm_abs [OF inv])
  next
    case False
    then show ?thesis using inv Map_Put
      by (simp add: hm.put_full [OF False]) (simp add: hm_room_def card_dom_hm_abs)
  qed
next
  case (Map_Remove k)
  then show ?thesis using hashmap_remove_spec [OF inv] ok by simp
next
  case Map_Clear
  then show ?thesis using hashmap_clear_spec [OF inv] by simp
qed

lemma hm_run_refines:
  "hm_inv m \<Longrightarrow> list_all map_op_ok ops \<Longrightarrow>
     hm_inv (fold hm_step ops m) \<and>
     hm_abs (fold hm_step ops m) = fold (spec_step (hm_capacity m)) ops (hm_abs m)"
proof (induction ops arbitrary: m)
  case (Cons p ops)
  then show ?case using hm_step_refines [of m p] Cons.IH [of "hm_step p m"] by simp
qed simp

text \<open>C8. The hash map implements a finite partial function: after any sequence of puts, removes and
  clears on a map initialised with a power-of-two capacity, a lookup returns exactly what the same
  sequence leaves in a partial function that rejects puts once 75% of the capacity is used. Tombstones,
  collisions and wrapped probe sequences are never visible.\<close>

theorem hashmap_refines_partial_map:
  assumes "2 \<le> n" "list_all map_op_ok ops" "hm_key_ok key"
  shows "hashmap_get (fold hm_step ops (hashmap_init (2 ^ n))) key =
    fold (spec_step (2 ^ n)) ops Map.empty key"
proof -
  have "hm_inv (fold hm_step ops (hashmap_init (2 ^ n)))"
    and "hm_abs (fold hm_step ops (hashmap_init (2 ^ n))) = fold (spec_step (2 ^ n)) ops Map.empty"
    using hm_run_refines [OF hashmap_init_inv [OF assms(1)] assms(2)]
    by (auto simp: hashmap_init_abs) (simp_all add: hashmap_init_def)
  then show ?thesis using hm.get_law assms(3) by metis
qed

lemma hashmap_refines_partial_map_witness:
  "hashmap_get (fold hm_step [Map_Put ''alice'' (1 :: nat), Map_Put ''bob'' 2, Map_Remove ''alice'',
     Map_Put ''carol'' 3] (hashmap_init (2 ^ 2))) ''bob'' = Some 2"
  using hashmap_refines_partial_map [of 2 "[Map_Put ''alice'' (1 :: nat), Map_Put ''bob'' 2,
    Map_Remove ''alice'', Map_Put ''carol'' 3]" "''bob''"]
  by (simp add: hm_key_ok_def ABLY_HASHMAP_KEY_MAX_def)

section \<open>Iteration\<close>

lemma iter_next_bounds:
  "hashmap_iter_next m i = Some (e, j) \<Longrightarrow> i < j \<and> j \<le> hm_capacity m"
proof (induction m i rule: hashmap_iter_next.induct)
  case (1 m i)
  then show ?case
    by (subst (asm) (2) hashmap_iter_next.simps) (fastforce simp: Let_def split: if_splits)
qed

text \<open>A client's loop \<^verbatim>\<open>while (ably_hashmap_iter_next(...))\<close>: all it visits.\<close>

function hashmap_iterate :: "'v hashmap \<Rightarrow> nat \<Rightarrow> (string \<times> 'v option) list" where
  "hashmap_iterate m i =
     (case hashmap_iter_next m i of None \<Rightarrow> [] | Some (e, j) \<Rightarrow> e # hashmap_iterate m j)"
  by pat_completeness auto
termination
  by (relation "measure (\<lambda>(m, i). hm_capacity m - i)") (auto dest: iter_next_bounds)

declare hashmap_iterate.simps [simp del]

definition hm_entry :: "'v hashmap \<Rightarrow> nat \<Rightarrow> string \<times> 'v option" where
  "hm_entry m i = (slot_key (hm_slots m ! i), slot_value (hm_slots m ! i))"

lemma iterate_upt:
  "hashmap_iterate m i = map (hm_entry m) (filter (hm_occupied m) [i..<hm_capacity m])"
proof (induction "hm_capacity m - i" arbitrary: i rule: less_induct)
  case less
  show ?case
  proof (cases "i < hm_capacity m")
    case False
    then show ?thesis
      by (subst hashmap_iterate.simps) (simp add: hashmap_iter_next.simps [of m i])
  next
    case True
    then have IH: "hashmap_iterate m (i + 1) =
        map (hm_entry m) (filter (hm_occupied m) [i + 1..<hm_capacity m])"
      by (intro less) auto
    show ?thesis
    proof (cases "slot_state (hm_slots m ! i) = SLOT_OCCUPIED")
      case occ: True
      then show ?thesis using IH True
        by (subst hashmap_iterate.simps)
           (simp add: hashmap_iter_next.simps [of m i] Let_def upt_conv_Cons hm_occupied_def hm_entry_def)
    next
      case free: False
      have "hashmap_iterate m i = hashmap_iterate m (i + 1)"
        using free True
        by (subst (1 2) hashmap_iterate.simps) (simp add: hashmap_iter_next.simps [of m i])
      then show ?thesis using IH True free by (simp add: upt_conv_Cons hm_occupied_def)
    qed
  qed
qed

text \<open>Iterating a map visits every entry of its abstraction exactly once: the keys visited are
  distinct and the pairs visited are the graph of the partial function.\<close>

theorem hashmap_iterate_complete:
  assumes inv: "hm_inv m"
  shows "distinct (map fst (hashmap_iterate m 0)) \<and>
    set (hashmap_iterate m 0) = {(k, Some v) | k v. hm_abs m k = Some v}"
proof
  have "inj_on (\<lambda>i. slot_key (hm_slots m ! i)) (set (filter (hm_occupied m) [0..<hm_capacity m]))"
    using hm_inv_unique [OF inv] by (intro inj_onI) auto
  then show "distinct (map fst (hashmap_iterate m 0))"
    by (simp add: iterate_upt distinct_map hm_entry_def o_def)
  have "set (hashmap_iterate m 0) = hm_entry m ` {i. hm_occupied m i}"
    by (auto simp: iterate_upt hm_occupied_def)
  also have "\<dots> = {(k, Some v) | k v. hm_abs m k = Some v}"
  proof (intro set_eqI iffI)
    fix e assume "e \<in> hm_entry m ` {i. hm_occupied m i}"
    then obtain i where i: "hm_occupied m i" "e = hm_entry m i" by blast
    with hm_inv_entry(2) [OF inv i(1)] hm_abs_at [OF inv i(1)]
    show "e \<in> {(k, Some v) | k v. hm_abs m k = Some v}" by (auto simp: hm_entry_def)
  next
    fix e :: "string \<times> 'a option" assume "e \<in> {(k, Some v) | k v. hm_abs m k = Some v}"
    then show "e \<in> hm_entry m ` {i. hm_occupied m i}"
      by (auto simp: hm_entry_def image_iff elim!: hm_abs_SomeD [OF inv])
  qed
  finally show "set (hashmap_iterate m 0) = {(k, Some v) | k v. hm_abs m k = Some v}" .
qed

lemma hashmap_iterate_complete_witness:
  "set (hashmap_iterate (hm_step (Map_Put ''alice'' (1 :: nat)) (hashmap_init 4)) 0) =
    {(''alice'', Some 1)}"
proof -
  let ?m = "hm_step (Map_Put ''alice'' (1 :: nat)) (hashmap_init 4)"
  have "hm_inv (hashmap_init 4 :: nat hashmap)" using hashmap_init_inv [of 2] by simp
  from hm_step_refines [OF this, of "Map_Put ''alice'' 1"]
  have inv: "hm_inv ?m" and abs: "hm_abs ?m = [''alice'' \<mapsto> 1]"
    by (simp_all add: hm_key_ok_def ABLY_HASHMAP_KEY_MAX_def hashmap_init_abs)
       (simp_all add: hashmap_init_def)
  have "set (hashmap_iterate ?m 0) = {(k, Some v) | k v. [''alice'' \<mapsto> 1] k = Some v}"
    using hashmap_iterate_complete [OF inv] unfolding abs by (rule conjunct2)
  also have "\<dots> = {(''alice'', Some 1)}" by (auto split: if_splits)
  finally show ?thesis .
qed

end
