(* ===== verification/Ably_Ring.thy ===== *)
theory Ably_Ring
  imports Ably_Types
begin

text \<open>
  The ring buffers of the realtime client: the outbound frame ring (\<^verbatim>\<open>send_ring\<close>,
  \<^verbatim>\<open>send_head\<close>, \<^verbatim>\<open>send_tail\<close> of \<^verbatim>\<open>realtime_client.c\<close>, 256 slots) and the channel's queue of
  messages published while ATTACHING (\<^verbatim>\<open>pending_queue\<close>, \<^verbatim>\<open>pending_head\<close>, \<^verbatim>\<open>pending_tail\<close> of
  \<^verbatim>\<open>channel.c\<close>, 32 slots). Both are arrays with a write and a read index that wrap modulo the
  capacity; one slot stays unused. The array and its two indices are one record here.

  The contract of a bounded FIFO queue is a locale, interpreted for both capacities.
\<close>

section \<open>Ring operations\<close>

record 'a ring =
  ring_slots :: "'a list"
  ring_head :: nat
  ring_tail :: nat

definition ring_enqueue :: "nat \<Rightarrow> 'a \<Rightarrow> 'a ring \<Rightarrow> 'a ring option" where
  "ring_enqueue cap x r =
     (let next_head = (ring_head r + 1) mod cap
      in if next_head = ring_tail r then None
         else Some (r\<lparr>ring_slots := (ring_slots r)[ring_head r := x], ring_head := next_head\<rparr>))"

definition ring_peek :: "'a ring \<Rightarrow> 'a option" where
  "ring_peek r = (if ring_head r = ring_tail r then None else Some (ring_slots r ! ring_tail r))"

definition ring_consume :: "nat \<Rightarrow> 'a ring \<Rightarrow> 'a ring" where
  "ring_consume cap r = r\<lparr>ring_tail := (ring_tail r + 1) mod cap\<rparr>"

definition empty_ring :: "nat \<Rightarrow> 'a \<Rightarrow> 'a ring" where
  "empty_ring cap x = \<lparr>ring_slots = replicate cap x, ring_head = 0, ring_tail = 0\<rparr>"

section \<open>The queue a ring holds\<close>

definition ring_inv :: "nat \<Rightarrow> 'a ring \<Rightarrow> bool" where
  "ring_inv cap r \<longleftrightarrow>
     length (ring_slots r) = cap \<and> ring_head r < cap \<and> ring_tail r < cap"

definition ring_count :: "nat \<Rightarrow> 'a ring \<Rightarrow> nat" where
  "ring_count cap r = (ring_head r + cap - ring_tail r) mod cap"

definition ring_list :: "nat \<Rightarrow> 'a ring \<Rightarrow> 'a list" where
  "ring_list cap r =
     map (\<lambda>k. ring_slots r ! ((ring_tail r + k) mod cap)) [0..<ring_count cap r]"

definition ring_distance :: "nat \<Rightarrow> nat \<Rightarrow> nat \<Rightarrow> nat" where
  "ring_distance cap h t = (if t \<le> h then h - t else h + cap - t)"

lemma ring_count_distance:
  assumes "ring_inv cap r"
  shows "ring_count cap r = ring_distance cap (ring_head r) (ring_tail r)"
proof (cases "ring_tail r \<le> ring_head r")
  case True
  then have "ring_head r + cap - ring_tail r = (ring_head r - ring_tail r) + cap" by simp
  then have "ring_count cap r = ((ring_head r - ring_tail r) + cap) mod cap"
    unfolding ring_count_def by (rule arg_cong)
  also have "\<dots> = ring_head r - ring_tail r"
    using assms by (simp add: ring_inv_def less_imp_diff_less)
  finally show ?thesis using True by (simp add: ring_distance_def)
next
  case False
  then have "ring_head r + cap - ring_tail r < cap"
    using assms unfolding ring_inv_def by linarith
  then show ?thesis using False by (simp add: ring_count_def ring_distance_def)
qed

lemma mod_Suc_cases: "h < cap \<Longrightarrow> Suc h mod cap = (if Suc h = cap then 0 else Suc h)"
  by simp

lemma ring_distance_simps:
  assumes "h < cap" "t < cap"
  shows "ring_distance cap h t = cap - 1 \<longleftrightarrow> Suc h mod cap = t"
    and "Suc h mod cap \<noteq> t \<Longrightarrow> ring_distance cap (Suc h mod cap) t = Suc (ring_distance cap h t)"
    and "h \<noteq> t \<Longrightarrow> Suc (ring_distance cap h (Suc t mod cap)) = ring_distance cap h t"
    and "(t + ring_distance cap h t) mod cap = h"
    and "ring_distance cap h t < cap"
  unfolding mod_Suc_cases [OF assms(1)] mod_Suc_cases [OF assms(2)] ring_distance_def
  using assms by auto

lemma ring_distance_inj:
  assumes "h < cap" "t < cap" "k < ring_distance cap h t"
  shows "(t + k) mod cap \<noteq> h"
proof (cases "t + k < cap")
  case True
  then show ?thesis using assms by (auto simp: ring_distance_def split: if_splits)
next
  case False
  moreover have "k < cap" using assms ring_distance_simps(5) order.strict_trans by blast
  ultimately have "(t + k) mod cap = t + k - cap" using assms by (simp add: mod_if)
  then show ?thesis using False assms by (simp add: ring_distance_def split: if_splits)
qed

lemma ring_count_zero: "ring_inv cap r \<Longrightarrow> ring_count cap r = 0 \<longleftrightarrow> ring_head r = ring_tail r"
  by (auto simp: ring_count_distance ring_distance_def ring_inv_def)

lemma length_ring_list [simp]: "length (ring_list cap r) = ring_count cap r"
  by (simp add: ring_list_def)

lemma ring_list_nth:
  "k < ring_count cap r \<Longrightarrow> ring_list cap r ! k = ring_slots r ! ((ring_tail r + k) mod cap)"
  by (simp add: ring_list_def)

lemma ring_slot_at_head:
  "ring_inv cap r \<Longrightarrow> k < ring_count cap r \<Longrightarrow> (ring_tail r + k) mod cap \<noteq> ring_head r"
  using ring_distance_inj [of "ring_head r" cap "ring_tail r" k]
  by (simp add: ring_count_distance ring_inv_def)

lemma ring_enqueue_None:
  "ring_inv cap r \<Longrightarrow> ring_enqueue cap x r = None \<longleftrightarrow> ring_count cap r = cap - 1"
  using ring_distance_simps(1) [of "ring_head r" cap "ring_tail r"]
  by (simp add: ring_enqueue_def Let_def ring_count_distance ring_inv_def)

lemma ring_enqueue_Some:
  assumes inv: "ring_inv cap r" and e: "ring_enqueue cap x r = Some r'"
  shows "ring_inv cap r'" "ring_list cap r' = ring_list cap r @ [x]"
proof -
  let ?h = "ring_head r" and ?t = "ring_tail r"
  have r': "r' = r\<lparr>ring_slots := (ring_slots r)[?h := x], ring_head := (?h + 1) mod cap\<rparr>"
    and ne: "(?h + 1) mod cap \<noteq> ?t"
    using e by (auto simp: ring_enqueue_def Let_def split: if_splits)
  show inv': "ring_inv cap r'" using inv by (auto simp: ring_inv_def r')
  have c: "ring_count cap r' = ring_count cap r + 1"
    unfolding ring_count_distance [OF inv] ring_count_distance [OF inv']
    using ring_distance_simps(2) [of ?h cap ?t] inv ne by (simp add: r' ring_inv_def)
  have last: "(?t + ring_count cap r) mod cap = ?h"
    using inv ring_distance_simps(4) [of ?h cap ?t]
    by (simp add: ring_count_distance ring_inv_def)
  show "ring_list cap r' = ring_list cap r @ [x]"
  proof (rule nth_equalityI)
    show "length (ring_list cap r') = length (ring_list cap r @ [x])" by (simp add: c)
  next
    fix k assume "k < length (ring_list cap r')"
    then have k: "k < ring_count cap r + 1" by (simp add: c)
    show "ring_list cap r' ! k = (ring_list cap r @ [x]) ! k"
    proof (cases "k < ring_count cap r")
      case True
      have "ring_list cap r' ! k = (ring_slots r)[?h := x] ! ((?t + k) mod cap)"
        using k c by (simp add: ring_list_nth) (simp add: r')
      also have "\<dots> = ring_slots r ! ((?t + k) mod cap)"
        using ring_slot_at_head [OF inv True] by simp
      finally show ?thesis using True by (simp add: nth_append ring_list_nth)
    next
      case False
      then have kc: "k = ring_count cap r" using k by simp
      have "ring_list cap r' ! k = (ring_slots r)[?h := x] ! ((?t + k) mod cap)"
        using k c by (simp add: ring_list_nth) (simp add: r')
      also have "\<dots> = x" using last inv by (simp add: kc ring_inv_def)
      finally show ?thesis by (simp add: nth_append kc)
    qed
  qed
qed

lemma ring_peek_list:
  assumes inv: "ring_inv cap r"
  shows "ring_peek r = (case ring_list cap r of [] \<Rightarrow> None | x # xs \<Rightarrow> Some x)"
proof (cases "ring_head r = ring_tail r")
  case True
  then show ?thesis using ring_count_zero [OF inv] by (simp add: ring_peek_def ring_list_def)
next
  case False
  then have "0 < ring_count cap r" using ring_count_zero [OF inv] by simp
  then show ?thesis using False inv
    by (simp add: ring_peek_def ring_list_def upt_conv_Cons ring_inv_def)
qed

lemma ring_consume_list:
  assumes inv: "ring_inv cap r" and ne: "ring_list cap r \<noteq> []"
  shows "ring_inv cap (ring_consume cap r)" "ring_list cap (ring_consume cap r) = tl (ring_list cap r)"
proof -
  let ?r = "ring_consume cap r"
  show inv': "ring_inv cap ?r" using inv by (auto simp: ring_inv_def ring_consume_def)
  have "ring_count cap r \<noteq> 0" using ne by (metis length_0_conv length_ring_list)
  then have "ring_head r \<noteq> ring_tail r" using ring_count_zero [OF inv] by simp
  then have c: "ring_count cap r = Suc (ring_count cap ?r)"
    unfolding ring_count_distance [OF inv] ring_count_distance [OF inv']
    using ring_distance_simps(3) [of "ring_head r" cap "ring_tail r"] inv
    by (simp add: ring_consume_def ring_inv_def)
  show "ring_list cap ?r = tl (ring_list cap r)"
  proof (rule nth_equalityI)
    show "length (ring_list cap ?r) = length (tl (ring_list cap r))" using c by simp
  next
    fix k assume "k < length (ring_list cap ?r)"
    then have k: "k < ring_count cap ?r" by simp
    have "((ring_tail r + 1) mod cap + k) mod cap = (ring_tail r + Suc k) mod cap"
      by (simp add: mod_add_left_eq)
    then show "ring_list cap ?r ! k = tl (ring_list cap r) ! k"
      using k c ring_list_nth [of k cap ?r] ring_list_nth [of "Suc k" cap r]
      by (simp add: nth_tl) (simp add: ring_consume_def)
  qed
qed

lemma empty_ring_inv [inv_rules]: "0 < cap \<Longrightarrow> ring_inv cap (empty_ring cap x)"
  by (simp add: ring_inv_def empty_ring_def)

lemma empty_ring_list: "ring_list cap (empty_ring cap x) = []"
  by (simp add: ring_list_def empty_ring_def ring_count_def)

section \<open>The contract of a bounded queue\<close>

text \<open>Take at most \<open>n\<close> elements out of a queue, oldest first.\<close>

fun queue_drain :: "('q \<Rightarrow> 'a option) \<Rightarrow> ('q \<Rightarrow> 'q) \<Rightarrow> nat \<Rightarrow> 'q \<Rightarrow> 'a list \<times> 'q" where
  "queue_drain peek consume 0 q = ([], q)"
| "queue_drain peek consume (Suc n) q =
     (case peek q of None \<Rightarrow> ([], q)
      | Some x \<Rightarrow> (let (xs, q') = queue_drain peek consume n (consume q) in (x # xs, q')))"

text \<open>Put a list of elements in, stopping at the first that is refused.\<close>

fun queue_fill :: "('a \<Rightarrow> 'q \<Rightarrow> 'q option) \<Rightarrow> 'a list \<Rightarrow> 'q \<Rightarrow> 'q option" where
  "queue_fill enq [] q = Some q"
| "queue_fill enq (x # xs) q = (case enq x q of None \<Rightarrow> None | Some q' \<Rightarrow> queue_fill enq xs q')"

locale bounded_queue =
  fixes enq :: "'a \<Rightarrow> 'q \<Rightarrow> 'q option"
    and peek :: "'q \<Rightarrow> 'a option"
    and consume :: "'q \<Rightarrow> 'q"
    and inv :: "'q \<Rightarrow> bool"
    and contents :: "'q \<Rightarrow> 'a list"
    and bound :: nat
  assumes contents_bound: "inv q \<Longrightarrow> length (contents q) \<le> bound"
    and enq_full: "inv q \<Longrightarrow> enq x q = None \<longleftrightarrow> length (contents q) = bound"
    and enq_inv: "inv q \<Longrightarrow> enq x q = Some q' \<Longrightarrow> inv q'"
    and enq_contents: "inv q \<Longrightarrow> enq x q = Some q' \<Longrightarrow> contents q' = contents q @ [x]"
    and peek_contents: "inv q \<Longrightarrow> peek q = (case contents q of [] \<Rightarrow> None | x # xs \<Rightarrow> Some x)"
    and consume_inv: "inv q \<Longrightarrow> contents q \<noteq> [] \<Longrightarrow> inv (consume q)"
    and consume_contents: "inv q \<Longrightarrow> contents q \<noteq> [] \<Longrightarrow> contents (consume q) = tl (contents q)"
begin

lemma enq_room: "inv q \<Longrightarrow> length (contents q) < bound \<Longrightarrow> \<exists>q'. enq x q = Some q'"
  using enq_full [of q x] by fastforce

lemma fill_spec:
  "inv q \<Longrightarrow> length (contents q) + length xs \<le> bound \<Longrightarrow>
     \<exists>q'. queue_fill enq xs q = Some q' \<and> inv q' \<and> contents q' = contents q @ xs"
proof (induction xs arbitrary: q)
  case (Cons x xs)
  then obtain q' where q': "enq x q = Some q'" using enq_room [of q x] by auto
  then show ?case
    using Cons.IH [of q'] Cons.prems enq_inv [OF Cons.prems(1) q'] enq_contents [OF Cons.prems(1) q']
    by auto
qed simp

lemma drain_spec:
  "inv q \<Longrightarrow> queue_drain peek consume n q = (xs, q') \<Longrightarrow>
     xs = take n (contents q) \<and> inv q' \<and> contents q' = drop n (contents q)"
proof (induction n arbitrary: q xs q')
  case (Suc n)
  show ?case
  proof (cases "contents q")
    case Nil
    then show ?thesis using Suc.prems peek_contents [OF Suc.prems(1)] by simp
  next
    case (Cons y ys)
    obtain zs q1 where d: "queue_drain peek consume n (consume q) = (zs, q1)" by fastforce
    have inv: "inv (consume q)" and con: "contents (consume q) = ys"
      using consume_inv [OF Suc.prems(1)] consume_contents [OF Suc.prems(1)] Cons by auto
    from Suc.prems d Cons peek_contents [OF Suc.prems(1)] have "xs = y # zs" "q' = q1" by auto
    then show ?thesis using Suc.IH [OF inv d] con Cons by simp
  qed
qed simp

lemma fifo:
  "inv q \<Longrightarrow> length (contents q) + length xs \<le> bound \<Longrightarrow>
     \<exists>q'. queue_fill enq xs q = Some q' \<and>
       fst (queue_drain peek consume (length (contents q) + length xs) q') = contents q @ xs"
proof -
  assume inv: "inv q" and room: "length (contents q) + length xs \<le> bound"
  obtain q' where q': "queue_fill enq xs q = Some q'" "inv q'" "contents q' = contents q @ xs"
    using fill_spec [OF inv room] by blast
  then show ?thesis
    using drain_spec [of q' "length (contents q) + length xs"]
    by (cases "queue_drain peek consume (length (contents q) + length xs) q'") auto
qed

end

definition ABLY_CHANNEL_PENDING_CAPACITY :: nat where "ABLY_CHANNEL_PENDING_CAPACITY = 32"

lemma bounded_queue_ring:
  "0 < cap \<Longrightarrow> bounded_queue (ring_enqueue cap) ring_peek (ring_consume cap) (ring_inv cap)
     (ring_list cap) (cap - 1)"
proof (unfold_locales, goal_cases)
  case (1 q)
  then show ?case using ring_distance_simps(5) [of "ring_head q" cap "ring_tail q"]
    by (simp add: ring_count_distance ring_inv_def)
next
  case (2 q x)
  then show ?case by (simp add: ring_enqueue_None)
qed (simp_all add: ring_enqueue_Some ring_peek_list ring_consume_list)

interpretation send_ring: bounded_queue "ring_enqueue ABLY_SEND_RING_CAPACITY" ring_peek
    "ring_consume ABLY_SEND_RING_CAPACITY" "ring_inv ABLY_SEND_RING_CAPACITY"
    "ring_list ABLY_SEND_RING_CAPACITY" "ABLY_SEND_RING_CAPACITY - 1"
  by (rule bounded_queue_ring) (simp add: ABLY_SEND_RING_CAPACITY_def)

interpretation pending: bounded_queue "ring_enqueue ABLY_CHANNEL_PENDING_CAPACITY" ring_peek
    "ring_consume ABLY_CHANNEL_PENDING_CAPACITY" "ring_inv ABLY_CHANNEL_PENDING_CAPACITY"
    "ring_list ABLY_CHANNEL_PENDING_CAPACITY" "ABLY_CHANNEL_PENDING_CAPACITY - 1"
  by (rule bounded_queue_ring) (simp add: ABLY_CHANNEL_PENDING_CAPACITY_def)

text \<open>C9. The outbound ring is a FIFO queue of at most 255 frames: frames that are accepted are sent
  in order, none lost, none twice, and a frame is refused exactly when 255 are waiting.\<close>

theorem send_ring_fifo:
  assumes "ring_inv ABLY_SEND_RING_CAPACITY r"
    and "length (ring_list ABLY_SEND_RING_CAPACITY r) + length xs \<le> 255"
  shows "(\<exists>r'. queue_fill (ring_enqueue ABLY_SEND_RING_CAPACITY) xs r = Some r' \<and>
      fst (queue_drain ring_peek (ring_consume ABLY_SEND_RING_CAPACITY)
        (length (ring_list ABLY_SEND_RING_CAPACITY r) + length xs) r') =
      ring_list ABLY_SEND_RING_CAPACITY r @ xs) \<and>
    (ring_enqueue ABLY_SEND_RING_CAPACITY x r = None \<longleftrightarrow>
      length (ring_list ABLY_SEND_RING_CAPACITY r) = 255)"
proof
  have b: "ABLY_SEND_RING_CAPACITY - 1 = 255" by (simp add: ABLY_SEND_RING_CAPACITY_def)
  show "\<exists>r'. queue_fill (ring_enqueue ABLY_SEND_RING_CAPACITY) xs r = Some r' \<and>
      fst (queue_drain ring_peek (ring_consume ABLY_SEND_RING_CAPACITY)
        (length (ring_list ABLY_SEND_RING_CAPACITY r) + length xs) r') =
      ring_list ABLY_SEND_RING_CAPACITY r @ xs"
    using send_ring.fifo [OF assms(1), of xs] assms(2) unfolding b by blast
  show "ring_enqueue ABLY_SEND_RING_CAPACITY x r = None \<longleftrightarrow>
      length (ring_list ABLY_SEND_RING_CAPACITY r) = 255"
    using send_ring.enq_full [OF assms(1), of x] unfolding b .
qed

lemma send_ring_fifo_witness:
  "\<exists>r'. queue_fill (ring_enqueue ABLY_SEND_RING_CAPACITY) [1, 2, 3 :: nat]
       (empty_ring ABLY_SEND_RING_CAPACITY 0) = Some r' \<and>
     fst (queue_drain ring_peek (ring_consume ABLY_SEND_RING_CAPACITY) (0 + length [1, 2, 3 :: nat]) r') =
       [] @ [1, 2, 3]"
proof -
  have "ring_inv ABLY_SEND_RING_CAPACITY (empty_ring ABLY_SEND_RING_CAPACITY (0 :: nat))"
    by (rule empty_ring_inv) (simp add: ABLY_SEND_RING_CAPACITY_def)
  from send_ring_fifo [OF this, of "[1, 2, 3]", THEN conjunct1]
  show ?thesis unfolding empty_ring_list by simp
qed

end
