(* ===== verification/Ably_Url.thy ===== *)
theory Ably_Url
  imports Ably_Types
begin

text \<open>
  URLs: the two percent-encoders (\<^verbatim>\<open>url_encode\<close> of \<^verbatim>\<open>realtime_client.c\<close> and
  \<^verbatim>\<open>url_encode_channel\<close> of \<^verbatim>\<open>rest_client.c\<close>), which differ in how close to the end of the
  destination they go, the appending of query parameters with \<^verbatim>\<open>snprintf(path + n, ...)\<close>, and the
  extraction of the next-page cursor from a \<^verbatim>\<open>Link\<close> header.
\<close>

section \<open>Percent encoding\<close>

definition url_hex :: string where "url_hex = ''0123456789ABCDEF''"

definition url_unreserved :: "char \<Rightarrow> bool" where
  "url_unreserved ch \<longleftrightarrow>
     (let c = (of_char ch :: nat)
      in (65 \<le> c \<and> c \<le> 90) \<or> (97 \<le> c \<and> c \<le> 122) \<or> (48 \<le> c \<and> c \<le> 57) \<or>
         ch = CHR ''-'' \<or> ch = CHR ''_'' \<or> ch = CHR ''.'' \<or> ch = CHR ''~'')"

definition url_escape :: "char \<Rightarrow> string" where
  "url_escape c =
     (if url_unreserved c then [c]
      else [CHR ''%'', url_hex ! (of_char c div 16), url_hex ! (of_char c mod 16)])"

text \<open>The loop of both encoders; it goes on while \<open>length out + guard < out_len\<close>.\<close>

fun url_encode_loop :: "nat \<Rightarrow> nat \<Rightarrow> string \<Rightarrow> string \<Rightarrow> string" where
  "url_encode_loop guard out_len out [] = out"
| "url_encode_loop guard out_len out (c # s) =
     (if length out + guard < out_len then url_encode_loop guard out_len (out @ url_escape c) s
      else out)"

definition url_encode :: "nat \<Rightarrow> string \<Rightarrow> string" where
  "url_encode out_len s = url_encode_loop 3 out_len [] s"

definition url_encode_channel :: "nat \<Rightarrow> string \<Rightarrow> string" where
  "url_encode_channel dst_len channel = url_encode_loop 4 dst_len [] channel"

section \<open>Appending to a path buffer\<close>

text \<open>\<^verbatim>\<open>n\<close> counts what would have been written so far, as \<^verbatim>\<open>n += r\<close> does with the result of
  \<^verbatim>\<open>snprintf\<close>; the buffer holds what fits. Once \<open>n\<close> exceeds the buffer, \<^verbatim>\<open>path + n\<close> points past its end
  and the size argument \<^verbatim>\<open>sizeof(path) - n\<close> wraps around: the next append writes out of bounds.\<close>

datatype path_buf = Path_Ok string nat | Path_Overflow

fun path_append :: "nat \<Rightarrow> string \<Rightarrow> path_buf \<Rightarrow> path_buf" where
  "path_append path_size s Path_Overflow = Path_Overflow"
| "path_append path_size s (Path_Ok buf n) =
     (if n \<le> path_size then Path_Ok (buf @ c_copy (path_size - n) s) (n + length s)
      else Path_Overflow)"

text \<open>The first \<^verbatim>\<open>snprintf(path, sizeof(path), ...)\<close>.\<close>

definition path_init :: "nat \<Rightarrow> string \<Rightarrow> path_buf" where
  "path_init path_size s = Path_Ok (c_copy path_size s) (length s)"

text \<open>A query parameter with its separator: \<^verbatim>\<open>?\<close> for the first, \<^verbatim>\<open>&\<close> afterwards.\<close>

fun path_params :: "nat \<Rightarrow> char \<Rightarrow> string list \<Rightarrow> path_buf \<Rightarrow> path_buf" where
  "path_params path_size sep [] p = p"
| "path_params path_size sep (s # ss) p =
     path_params path_size (CHR ''&'') ss (path_append path_size (sep # s) p)"

section \<open>The next page of a Link header\<close>

text \<open>Offsets replace the pointers into the header. The search for the path's slash is not bounded by
  the closing bracket; a slash behind it makes the length wrap around, so nothing is copied.\<close>

definition next_cursor :: "nat \<Rightarrow> string \<Rightarrow> string" where
  "next_cursor cursor_size link =
     (case (case find_sub ''rel=\"next\"'' link of
              None \<Rightarrow> find_sub ''rel=next'' link | Some i \<Rightarrow> Some i) of
        None \<Rightarrow> []
      | Some rel_next \<Rightarrow>
          (case find_char (CHR ''<'') link of
             None \<Rightarrow> []
           | Some l \<Rightarrow>
               (case find_char (CHR ''>'') (drop l link) of
                  None \<Rightarrow> []
                | Some k \<Rightarrow>
                    let gt = l + k; lt = l + 1
                    in if \<not> gt < rel_next then []
                    else let path_start =
                           (if gt - lt > 8 \<and> is_prefix ''https://'' (drop lt link)
                            then (case find_char (CHR ''/'') (drop (lt + 8) link) of
                                    None \<Rightarrow> lt | Some j \<Rightarrow> lt + 8 + j)
                            else lt)
                    in if path_start \<le> gt \<and> gt - path_start < cursor_size - 1
                       then take (gt - path_start) (drop path_start link) else [])))"

section \<open>Percent encoding: bounds and decoding\<close>

fun url_unhex :: "char \<Rightarrow> nat" where
  "url_unhex ch = (let c = of_char ch in if c < 58 then c - 48 else c - 55)"

fun url_decode :: "string \<Rightarrow> string" where
  "url_decode [] = []"
| "url_decode (c # s) =
     (if c = CHR ''%'' then
        (case s of a # b # r \<Rightarrow> char_of (16 * url_unhex a + url_unhex b) # url_decode r
         | _ \<Rightarrow> [])
      else c # url_decode s)"

lemma length_url_hex [simp]: "length url_hex = 16"
  by (simp add: url_hex_def)

lemma url_unhex_hex: "d < 16 \<Longrightarrow> url_unhex (url_hex ! d) = d"
proof -
  have "map url_unhex url_hex = [0..<16]" by (simp add: url_hex_def upt_rec)
  then have "map url_unhex url_hex ! d = [0..<16] ! d" by (rule arg_cong)
  then show "d < 16 \<Longrightarrow> ?thesis" by simp
qed

lemma length_url_escape: "0 < length (url_escape c) \<and> length (url_escape c) \<le> 3"
  by (simp add: url_escape_def)

lemma url_decode_escape: "url_decode (url_escape c @ s) = c # url_decode s"
proof -
  have "of_char c < (256 :: nat)" using of_char_mod_256 [where 'a = nat, of c] by linarith
  then have "of_char c div 16 < (16 :: nat)" by (simp add: div_less_iff_less_mult)
  then show ?thesis
    by (auto simp: url_escape_def url_unhex_hex url_unreserved_def Let_def simp del: url_unhex.simps)
qed

lemma url_decode_escapes: "url_decode (concat (map url_escape s)) = s"
  by (induction s) (simp_all add: url_decode_escape)

lemma url_encode_loop_prefix:
  "\<exists>k \<le> length s. url_encode_loop guard n out s = out @ concat (map url_escape (take k s)) \<and>
     (k < length s \<longrightarrow> n \<le> length (url_encode_loop guard n out s) + guard)"
proof (induction s arbitrary: out)
  case (Cons c s)
  show ?case
  proof (cases "length out + guard < n")
    case True
    obtain k where k: "k \<le> length s"
      "url_encode_loop guard n (out @ url_escape c) s =
         (out @ url_escape c) @ concat (map url_escape (take k s))"
      "k < length s \<longrightarrow> n \<le> length (url_encode_loop guard n (out @ url_escape c) s) + guard"
      using Cons.IH by blast
    then show ?thesis using True by (intro exI [of _ "Suc k"]) simp
  next
    case False
    then show ?thesis by (intro exI [of _ 0]) simp
  qed
qed simp

lemma url_encode_loop_all:
  "length out + 3 * length s + guard < n + 3 \<Longrightarrow>
     url_encode_loop guard n out s = out @ concat (map url_escape s)"
proof (induction s arbitrary: out)
  case (Cons c s)
  then show ?case using length_url_escape [of c] by simp
qed simp

lemma url_encode_loop_bound:
  "3 \<le> guard \<Longrightarrow> length out < n \<Longrightarrow> length (url_encode_loop guard n out s) < n"
proof (induction s arbitrary: out)
  case (Cons c s)
  then show ?case using length_url_escape [of c] by simp
qed simp

lemma find_sub_Some:
  "find_sub pat s = Some i \<Longrightarrow> is_prefix pat (drop i s) \<and> i \<le> length s"
proof (induction pat s arbitrary: i rule: find_sub.induct)
  case (1 pat)
  then show ?case by (auto split: if_splits)
next
  case (2 pat x xs)
  then show ?case by (auto split: if_splits)
qed

lemma is_prefix_nth: "is_prefix pat s \<Longrightarrow> k < length pat \<Longrightarrow> k < length s \<and> s ! k = pat ! k"
proof (induction pat s arbitrary: k rule: is_prefix.induct)
  case (3 x xs y ys)
  then show ?case by (cases k) auto
qed auto

lemma find_sub_append: "is_prefix pat ys \<Longrightarrow> \<exists>i \<le> length xs. find_sub pat (xs @ ys) = Some i"
proof (induction xs)
  case Nil
  then show ?case by (cases ys; cases pat) auto
qed auto

lemma find_char_append: "c \<notin> set xs \<Longrightarrow> find_char c (xs @ c # ys) = Some (length xs)"
  by (induction xs) auto

section \<open>Properties\<close>

text \<open>Both encoders stay inside their destination, NUL included, for every input, and with a
  destination of three times the limit (as the client id and most channel paths use) nothing is lost:
  decoding gives the string back.\<close>

theorem url_encode_roundtrip:
  assumes "length s < 256"
  shows "url_decode (url_encode (256 * 3) s) = s \<and> url_decode (url_encode_channel (256 * 3) s) = s \<and>
    length (url_encode (256 * 3) s) < 256 * 3 \<and> length (url_encode_channel (256 * 3) s) < 256 * 3"
proof -
  have "url_encode (256 * 3) s = concat (map url_escape s)"
    "url_encode_channel (256 * 3) s = concat (map url_escape s)"
    using assms by (simp_all add: url_encode_def url_encode_channel_def url_encode_loop_all)
  then show ?thesis
    using url_encode_loop_bound [of 3 "[]" "256 * 3" s] url_encode_loop_bound [of 4 "[]" "256 * 3" s]
    by (simp add: url_decode_escapes url_encode_def url_encode_channel_def)
qed

lemma url_encode_roundtrip_witness:
  "url_decode (url_encode (256 * 3) ''a b/c'') = ''a b/c''"
  using url_encode_roundtrip [of "''a b/c''"] by simp

text \<open>With a destination that is too small the encoder keeps a prefix of the name and never half an
  escape; so a name and its truncation are encoded alike. The publish calls use 256 bytes, which 253
  plain characters already exceed.\<close>

theorem url_encode_channel_truncates:
  "(\<exists>k \<le> length channel. url_encode_channel dst_len channel =
      concat (map url_escape (take k channel))) \<and>
   url_encode_channel 256 (replicate 253 (CHR ''a'')) = url_encode_channel 256 (replicate 252 (CHR ''a''))"
proof
  show "\<exists>k \<le> length channel. url_encode_channel dst_len channel =
      concat (map url_escape (take k channel))"
    using url_encode_loop_prefix [of channel 4 dst_len "[]"]
    by (auto simp: url_encode_channel_def)
  have step: "url_encode_loop 4 256 (replicate m (CHR ''a'')) (replicate j (CHR ''a'')) =
      replicate (if m < 252 then min (m + j) 252 else m) (CHR ''a'')" for m j
  proof (induction j arbitrary: m)
    case (Suc j)
    have "url_escape (CHR ''a'') = [CHR ''a'']" by (simp add: url_escape_def url_unreserved_def)
    moreover have "replicate m (CHR ''a'') @ [CHR ''a''] = replicate (Suc m) (CHR ''a'')"
      by (simp add: replicate_append_same)
    ultimately show ?case using Suc.IH [of "Suc m"] by auto
  qed simp
  show "url_encode_channel 256 (replicate 253 (CHR ''a'')) =
      url_encode_channel 256 (replicate 252 (CHR ''a''))"
    using step [of 0 253] step [of 0 252] by (simp add: url_encode_channel_def)
qed

text \<open>The cursor of a page is the path and query of a well-formed \<^verbatim>\<open>Link: <https://host/path>;
  rel="next"\<close> header.\<close>

theorem next_cursor_extracts_path:
  assumes host: "CHR ''/'' \<notin> set host" "CHR ''>'' \<notin> set host" "CHR 0x22 \<notin> set host"
    and path: "CHR ''>'' \<notin> set path" "CHR 0x22 \<notin> set path"
    and fits: "length path + 2 < cursor_size"
  shows "next_cursor cursor_size (''<https://'' @ host @ ''/'' @ path @ ''>; rel=\"next\"'') = ''/'' @ path"
proof -
  define scheme sfx where d: "scheme = ''<https://''" "sfx = ''>; rel=''"
  define link where l: "link = scheme @ host @ CHR ''/'' # path @ sfx @ CHR 0x22 # ''next'' @ [CHR 0x22]"
  define gt where g: "gt = 10 + length host + length path"
  have d_len: "length scheme = 9" "length sfx = 7" by (simp_all add: d)
  have d_set: "CHR ''>'' \<notin> set scheme" "CHR 0x22 \<notin> set scheme" "CHR 0x22 \<notin> set sfx" by (simp_all add: d)
  have l2: "link = (scheme @ host @ CHR ''/'' # path @ ''>; '') @ ''rel=\"next\"''"
    by (simp add: l d)
  obtain i where i: "find_sub ''rel=\"next\"'' link = Some i"
    using find_sub_append [of "''rel=\"next\"''" "''rel=\"next\"''"
        "scheme @ host @ CHR ''/'' # path @ ''>; ''"]
      is_prefix_append [of "''rel=\"next\"''" "[]"]
    unfolding l2 by auto
  have q: "link ! (i + 4) = CHR 0x22"
    using is_prefix_nth [OF conjunct1 [OF find_sub_Some [OF i]], of 4] find_sub_Some [OF i] by simp
  let ?pre = "scheme @ host @ CHR ''/'' # path @ sfx"
  have "\<not> i + 4 < length ?pre"
  proof
    assume "i + 4 < length ?pre"
    then have "link ! (i + 4) \<in> set ?pre"
      using nth_append [of ?pre "CHR 0x22 # ''next'' @ [CHR 0x22]" "i + 4"] nth_mem [of "i + 4" ?pre]
      by (simp add: l)
    then show False using q d_set host path by auto
  qed
  then have rel: "gt < i" by (simp add: g d_len)
  have lt: "find_char (CHR ''<'') link = Some 0" by (simp add: l d)
  have gt: "find_char (CHR ''>'') link = Some gt"
    using find_char_append [of "CHR ''>''" "scheme @ host @ CHR ''/'' # path" "tl sfx @ CHR 0x22 # ''next'' @ [CHR 0x22]"]
      host path d_set by (simp add: l g d)
  have sl: "find_char (CHR ''/'') (drop 9 link) = Some (length host)"
    using find_char_append [of "CHR ''/''" host] host by (simp add: l d_len)
  have pr: "is_prefix ''https://'' (drop 1 link)" by (simp add: l d)
  have cut: "take (gt - (9 + length host)) (drop (9 + length host) link) = CHR ''/'' # path"
    by (simp add: l d_len g)
  have "next_cursor cursor_size link = CHR ''/'' # path"
    unfolding next_cursor_def i lt option.case drop_0 gt Let_def
    using rel pr sl cut fits by (simp add: g)
  then show ?thesis by (simp add: l d)
qed

lemma next_cursor_extracts_path_witness:
  "next_cursor 256 ''<https://rest.ably.io/channels/foo/messages?limit=2>; rel=\"next\"'' =
    ''/channels/foo/messages?limit=2''"
  using next_cursor_extracts_path [of "''rest.ably.io''" "''channels/foo/messages?limit=2''" 256]
  by simp

text \<open>In a header that lists several links, as the service sends, the cursor is taken from the first
  one whatever its relation: a \<open>first\<close> link before the \<open>next\<close> link sends the client back to the
  first page.\<close>

theorem next_cursor_takes_first_link:
  "next_cursor 256 ''<https://rest.ably.io/p?first>; rel=\"first\", <https://rest.ably.io/p?next>; rel=\"next\"'' =
    ''/p?first''"
  by (simp add: next_cursor_def Let_def)

end
