(* ===== verification/Ably_Protocol.thy ===== *)
theory Ably_Protocol
  imports Ably_Types
begin

text \<open>
  \<^verbatim>\<open>src/realtime/protocol.h\<close>: the protocol's action codes and flags, the decoded frame and its
  messages, the parameters of an ATTACH frame, and the C integer conversions the decoders apply to
  what the peer sent. A pointer field that may be NULL is an option; a fixed array is a list of at
  most its capacity.
\<close>

section \<open>Actions and flags\<close>

datatype ably_action =
    ACTION_HEARTBEAT | ACTION_ACK | ACTION_NACK | ACTION_CONNECTED | ACTION_DISCONNECT
  | ACTION_DISCONNECTED | ACTION_CLOSE | ACTION_CLOSED | ACTION_ERROR | ACTION_ATTACH
  | ACTION_ATTACHED | ACTION_DETACH | ACTION_DETACHED | ACTION_PRESENCE | ACTION_MESSAGE
  | ACTION_SYNC | ACTION_AUTH
  | ACTION_OTHER int \<comment> \<open>an integer that is none of the enumerators\<close>

fun action_code :: "ably_action \<Rightarrow> int" where
  "action_code ACTION_HEARTBEAT = 0"
| "action_code ACTION_ACK = 1"
| "action_code ACTION_NACK = 2"
| "action_code ACTION_CONNECTED = 4"
| "action_code ACTION_DISCONNECT = 5"
| "action_code ACTION_DISCONNECTED = 6"
| "action_code ACTION_CLOSE = 7"
| "action_code ACTION_CLOSED = 8"
| "action_code ACTION_ERROR = 9"
| "action_code ACTION_ATTACH = 10"
| "action_code ACTION_ATTACHED = 11"
| "action_code ACTION_DETACH = 12"
| "action_code ACTION_DETACHED = 13"
| "action_code ACTION_PRESENCE = 14"
| "action_code ACTION_MESSAGE = 15"
| "action_code ACTION_SYNC = 16"
| "action_code ACTION_AUTH = 17"
| "action_code (ACTION_OTHER i) = i"

definition known_actions :: "ably_action list" where
  "known_actions =
     [ACTION_HEARTBEAT, ACTION_ACK, ACTION_NACK, ACTION_CONNECTED, ACTION_DISCONNECT,
      ACTION_DISCONNECTED, ACTION_CLOSE, ACTION_CLOSED, ACTION_ERROR, ACTION_ATTACH,
      ACTION_ATTACHED, ACTION_DETACH, ACTION_DETACHED, ACTION_PRESENCE, ACTION_MESSAGE,
      ACTION_SYNC, ACTION_AUTH]"

definition action_of_int :: "int \<Rightarrow> ably_action" where
  "action_of_int i =
     (case find (\<lambda>a. action_code a = i) known_actions of None \<Rightarrow> ACTION_OTHER i | Some a \<Rightarrow> a)"

lemma action_of_code: "a \<in> set known_actions \<Longrightarrow> action_of_int (action_code a) = a"
  by (auto simp: known_actions_def action_of_int_def)

lemma code_of_action: "action_code (action_of_int i) = i"
  by (auto simp: action_of_int_def known_actions_def)

text \<open>Frame flags are bits of a C \<^verbatim>\<open>int\<close>.\<close>

definition FLAG_HAS_PRESENCE :: int where "FLAG_HAS_PRESENCE = 1"
definition FLAG_HAS_BACKLOG :: int where "FLAG_HAS_BACKLOG = 2"
definition FLAG_RESUMED :: int where "FLAG_RESUMED = 4"

definition has_flag :: "int \<Rightarrow> int \<Rightarrow> bool" where
  "has_flag flags f \<longleftrightarrow> flags AND f \<noteq> 0"

lemmas flag_defs = FLAG_HAS_PRESENCE_def FLAG_HAS_BACKLOG_def FLAG_RESUMED_def has_flag_def

section \<open>Integer conversions\<close>

text \<open>\<^verbatim>\<open>(int)\<close> of an \<^verbatim>\<open>int64_t\<close> and \<^verbatim>\<open>(uint32_t)\<close> of an \<^verbatim>\<open>int64_t\<close> keep the low 32 bits.\<close>

definition c_int :: "int \<Rightarrow> int" where
  "c_int i = sint (word_of_int i :: u32)"

lemma c_int_id: "- (2 ^ 31) \<le> i \<Longrightarrow> i < 2 ^ 31 \<Longrightarrow> c_int i = i"
  by (simp add: c_int_def sint_sbintrunc' signed_take_bit_int_eq_self)

definition c_uint32 :: "int \<Rightarrow> u32" where
  "c_uint32 i = word_of_int i"

text \<open>\<^verbatim>\<open>(double)\<close> of an \<^verbatim>\<open>int64_t\<close> keeps the highest 53 bits, rounding the rest to the nearest, a half to the even
  neighbour: \<open>excess_bits\<close> counts the bits beyond 53.\<close>

fun excess_bits :: "nat \<Rightarrow> nat" where
  "excess_bits n = (if n < 2 ^ 53 then 0 else Suc (excess_bits (n div 2)))"

declare excess_bits.simps [simp del]

definition double_nat :: "nat \<Rightarrow> nat" where
  "double_nat n =
     (let p = 2 ^ excess_bits n; q = n div p; r = n mod p
      in (if p < 2 * r \<or> 2 * r = p \<and> odd q then q + 1 else q) * p)"

definition c_double :: "int \<Rightarrow> int" where
  "c_double i = (if i < 0 then - int (double_nat (nat (- i))) else int (double_nat (nat i)))"

lemma double_nat_exact: "n \<le> 2 ^ 53 \<Longrightarrow> double_nat n = n"
proof (cases "n < 2 ^ 53")
  case True
  then show ?thesis by (simp add: double_nat_def excess_bits.simps)
next
  case False
  moreover assume "n \<le> 2 ^ 53"
  ultimately have n: "n = 2 ^ 53" by simp
  show ?thesis unfolding n by (simp add: double_nat_def excess_bits.simps)
qed

lemma c_double_exact: "\<bar>i\<bar> \<le> 2 ^ 53 \<Longrightarrow> c_double i = i"
  using double_nat_exact [of "nat i"] double_nat_exact [of "nat (- i)"]
  by (simp add: c_double_def nat_le_iff)

lemma c_double_rounds: "c_double (2 ^ 53 + 1) = 2 ^ 53" "c_double (2 ^ 53 + 3) = 2 ^ 53 + 4"
  by (simp_all add: c_double_def double_nat_def excess_bits.simps)

section \<open>Frames\<close>

definition ABLY_MAX_PRESENCE_PER_FRAME :: nat where "ABLY_MAX_PRESENCE_PER_FRAME = 64"
definition DECODE_MSGS_CAP :: nat where "DECODE_MSGS_CAP = 32"
definition ABLY_PROTO_STRING_POOL_SIZE :: nat where "ABLY_PROTO_STRING_POOL_SIZE = 4096"

record ably_proto_message =
  prm_id :: "string option"
  prm_client_id :: "string option"
  prm_connection_id :: "string option"
  prm_name :: "string option"
  prm_data :: "string option"
  prm_encoding :: "string option"
  prm_timestamp :: int
  prm_delta_format :: "string option"
  prm_delta_from :: "string option"
  prm_has_occupancy :: bool
  prm_occupancy :: ably_occupancy

record conn_details =
  cd_client_id :: string
  cd_connection_state_ttl :: int
  cd_max_message_size :: int
  cd_max_idle_interval :: int
  cd_server_id :: string

definition no_conn_details :: conn_details where
  "no_conn_details = \<lparr>cd_client_id = [], cd_connection_state_ttl = 0, cd_max_message_size = 0,
     cd_max_idle_interval = 0, cd_server_id = []\<rparr>"

record ably_proto_frame =
  pf_action :: ably_action
  pf_channel :: "string option"
  pf_msg_serial :: int
  pf_count :: int
  pf_error_code :: int
  pf_error_message :: "string option"
  pf_flags :: int
  pf_connection_id :: "string option"
  pf_connection_key :: "string option"
  pf_messages :: "ably_proto_message list"
  pf_channel_serial :: string
  pf_sync_serial :: string
  pf_presence_msgs :: "ably_presence_message list"
  pf_conn_details :: conn_details
  pf_channel_modes :: u32

definition blank_frame :: "ably_action \<Rightarrow> ably_proto_frame" where
  "blank_frame a = \<lparr>pf_action = a, pf_channel = None, pf_msg_serial = 0, pf_count = 0,
     pf_error_code = 0, pf_error_message = None, pf_flags = 0, pf_connection_id = None,
     pf_connection_key = None, pf_messages = [], pf_channel_serial = [], pf_sync_serial = [],
     pf_presence_msgs = [], pf_conn_details = no_conn_details, pf_channel_modes = 0\<rparr>"

text \<open>\<^verbatim>\<open>ably_attach_params_t\<close>.\<close>

record attach_params =
  ap_delta :: bool
  ap_rewind :: int
  ap_occupancy :: bool
  ap_channel_modes :: u32
  ap_channel_serial :: "string option"

definition no_attach_params :: attach_params where
  "no_attach_params = \<lparr>ap_delta = False, ap_rewind = 0, ap_occupancy = False, ap_channel_modes = 0,
     ap_channel_serial = None\<rparr>"

text \<open>The test with which both encoders choose the short form.\<close>

definition ap_has_params :: "attach_params \<Rightarrow> bool" where
  "ap_has_params p \<longleftrightarrow> ap_delta p \<or> 0 < ap_rewind p \<or> ap_occupancy p \<or>
     ap_channel_serial p \<noteq> None \<or> ap_channel_modes p \<noteq> 0"

text \<open>The \<^verbatim>\<open>params\<close> map, with only the requested keys.\<close>

definition attach_param_list :: "attach_params \<Rightarrow> (string \<times> string) list" where
  "attach_param_list p =
     (if ap_delta p then [(''delta'', ''vcdiff'')] else []) @
     (if 0 < ap_rewind p then [(''rewind'', c_copy 32 (dec_of_int (ap_rewind p)))] else []) @
     (if ap_occupancy p then [(''occupancy'', ''metrics.all'')] else [])"

text \<open>The capacities every decoder respects: of the arrays of messages and of presence messages, and of every
  character array of the frame, with the NUL.\<close>

definition presence_bounded :: "ably_presence_message \<Rightarrow> bool" where
  "presence_bounded p \<longleftrightarrow> length (pm_client_id p) < ABLY_MAX_CLIENT_ID_LEN \<and>
     length (pm_connection_id p) < 64 \<and> length (pm_data p) < ABLY_MAX_MESSAGE_DATA_LEN"

definition details_bounded :: "conn_details \<Rightarrow> bool" where
  "details_bounded d \<longleftrightarrow> length (cd_client_id d) < ABLY_MAX_CLIENT_ID_LEN \<and> length (cd_server_id d) < 64"

lemma no_conn_details_bounded [simp]: "details_bounded no_conn_details"
  by (simp add: details_bounded_def no_conn_details_def capacity_defs)

definition frame_bounded :: "ably_proto_frame \<Rightarrow> bool" where
  "frame_bounded f \<longleftrightarrow>
     length (pf_messages f) \<le> DECODE_MSGS_CAP \<and>
     length (pf_presence_msgs f) \<le> ABLY_MAX_PRESENCE_PER_FRAME \<and>
     length (pf_channel_serial f) < 64 \<and> length (pf_sync_serial f) < 128 \<and>
     (\<forall>p \<in> set (pf_presence_msgs f). presence_bounded p) \<and>
     details_bounded (pf_conn_details f)"

end
