(* ===== verification/Ably_Json.thy ===== *)
theory Ably_Json
  imports Complex_Main Ably_Protocol
begin

text \<open>
  \<^verbatim>\<open>src/realtime/protocol_json.c\<close>: the JSON codec. The cJSON library is the parameters
  \<open>print\<close> (\<^verbatim>\<open>cJSON_PrintUnformatted\<close>, \<open>None\<close> when it cannot allocate) and \<open>parse\<close>
  (\<^verbatim>\<open>cJSON_Parse\<close>) between text and the value tree below, in which a number is the rational
  value of its double. The encoders without library help (\<^verbatim>\<open>encode_action_only\<close>,
  \<^verbatim>\<open>encode_action_channel\<close>) are modelled to the character. An encoder returns the text, the
  empty text standing for the result 0.
\<close>

datatype json =
    JNull | JBool bool | JNum rat | JStr string | JArr "json list" | JObj "(string \<times> json) list"

section \<open>Reading values\<close>

text \<open>\<^verbatim>\<open>cJSON_GetObjectItemCaseSensitive\<close>: the first member of that name; only objects have named
  members.\<close>

fun json_get :: "json \<Rightarrow> string \<Rightarrow> json option" where
  "json_get (JObj kvs) key = map_of kvs key"
| "json_get _ key = None"

fun json_items :: "json \<Rightarrow> json list" where
  "json_items (JArr xs) = xs"
| "json_items _ = []"

definition json_str :: "json \<Rightarrow> string \<Rightarrow> string option" where
  "json_str obj key = (case json_get obj key of Some (JStr s) \<Rightarrow> Some s | _ \<Rightarrow> None)"

text \<open>\<^verbatim>\<open>(int64_t)item->valuedouble\<close> truncates towards zero. C leaves it undefined outside the range of \<^verbatim>\<open>int64_t\<close>;
  there the value is that of the conversion instruction of x86-64.\<close>

definition trunc_rat :: "rat \<Rightarrow> int" where
  "trunc_rat r = (if 0 \<le> r then \<lfloor>r\<rfloor> else \<lceil>r\<rceil>)"

definition double_int64 :: "rat \<Rightarrow> int" where
  "double_int64 r = (let t = trunc_rat r in if - (2 ^ 63) \<le> t \<and> t < 2 ^ 63 then t else - (2 ^ 63))"

definition json_int64 :: "json \<Rightarrow> string \<Rightarrow> int \<Rightarrow> int" where
  "json_int64 obj key def = (case json_get obj key of Some (JNum r) \<Rightarrow> double_int64 r | _ \<Rightarrow> def)"

text \<open>\<^verbatim>\<open>item && cJSON_IsObject(item)\<close>, \<^verbatim>\<open>item && cJSON_IsArray(item)\<close>.\<close>

definition json_obj :: "json \<Rightarrow> string \<Rightarrow> json option" where
  "json_obj obj key = (case json_get obj key of Some (JObj kvs) \<Rightarrow> Some (JObj kvs) | _ \<Rightarrow> None)"

definition json_arr :: "json \<Rightarrow> string \<Rightarrow> json list option" where
  "json_arr obj key = (case json_get obj key of Some (JArr xs) \<Rightarrow> Some xs | _ \<Rightarrow> None)"

section \<open>Encoding without the library\<close>

text \<open>\<^verbatim>\<open>snprintf\<close> into \<open>buf[len]\<close>, refusing truncation.\<close>

definition fit_text :: "nat \<Rightarrow> string \<Rightarrow> string" where
  "fit_text len s = (if length s \<ge> len then [] else s)"

definition encode_action_only :: "nat \<Rightarrow> ably_action \<Rightarrow> string" where
  "encode_action_only len action = fit_text len (''{\"action\":'' @ dec_of_int (action_code action) @ ''}'')"

definition json_escaped :: "char \<Rightarrow> bool" where
  "json_escaped c \<longleftrightarrow> c = CHR 0x22 \<or> c = CHR 0x5C"

fun encode_channel_loop :: "nat \<Rightarrow> string \<Rightarrow> string \<Rightarrow> string" where
  "encode_channel_loop len buf [] =
     (if length buf + 2 \<ge> len then [] else buf @ [CHR 0x22, CHR ''}''])"
| "encode_channel_loop len buf (c # p) =
     (if json_escaped c \<and> length buf + 2 \<ge> len then []
      else let buf = (if json_escaped c then buf @ [CHR 0x5C] else buf)
      in if length buf + 1 \<ge> len then []
         else encode_channel_loop len (buf @ [c]) p)"

definition action_channel_head :: "ably_action \<Rightarrow> string" where
  "action_channel_head action =
     ''{\"action\":'' @ dec_of_int (action_code action) @ '',\"channel\":\"''"

definition encode_action_channel :: "nat \<Rightarrow> ably_action \<Rightarrow> string \<Rightarrow> string" where
  "encode_action_channel len action channel =
     (if length (action_channel_head action) \<ge> len then []
      else encode_channel_loop len (action_channel_head action) channel)"

section \<open>Encoding with the library\<close>

text \<open>Print a tree and copy it into \<open>buf[len]\<close>.\<close>

definition emit_json :: "(json \<Rightarrow> string option) \<Rightarrow> nat \<Rightarrow> json \<Rightarrow> string" where
  "emit_json print len j =
     (case print j of None \<Rightarrow> [] | Some s \<Rightarrow> if length s \<ge> len then [] else s)"

definition json_opt :: "string \<Rightarrow> string option \<Rightarrow> (string \<times> json) list" where
  "json_opt key v = (case v of None \<Rightarrow> [] | Some s \<Rightarrow> [(key, JStr s)])"

definition attach_json :: "string \<Rightarrow> attach_params \<Rightarrow> json" where
  "attach_json channel p = JObj (
     [(''action'', JNum (of_int (action_code ACTION_ATTACH))), (''channel'', JStr channel)] @
     (if c_nonempty (ap_channel_serial p)
      then json_opt ''channelSerial'' (ap_channel_serial p) else []) @
     (if ap_channel_modes p \<noteq> 0
      then [(''channelMode'', JNum (of_nat (unat (ap_channel_modes p))))] else []) @
     (if attach_param_list p = [] then []
      else [(''params'', JObj (map (\<lambda>(k, v). (k, JStr v)) (attach_param_list p)))]))"

definition proto_encode_heartbeat_json :: "nat \<Rightarrow> string" where
  "proto_encode_heartbeat_json len = encode_action_only len ACTION_HEARTBEAT"

definition proto_encode_attach_json ::
  "(json \<Rightarrow> string option) \<Rightarrow> nat \<Rightarrow> string \<Rightarrow> attach_params \<Rightarrow> string" where
  "proto_encode_attach_json print len channel p =
     (if \<not> ap_has_params p then encode_action_channel len ACTION_ATTACH channel
      else emit_json print len (attach_json channel p))"

definition proto_encode_detach_json :: "nat \<Rightarrow> string \<Rightarrow> string" where
  "proto_encode_detach_json len channel = encode_action_channel len ACTION_DETACH channel"

definition proto_encode_close_json :: "nat \<Rightarrow> string" where
  "proto_encode_close_json len = encode_action_only len ACTION_CLOSE"

definition message_json :: "string option \<Rightarrow> string option \<Rightarrow> string option \<Rightarrow> string option \<Rightarrow> json" where
  "message_json msg_id name data client_id = JObj (json_opt ''id'' msg_id @ json_opt ''name'' name @
     json_opt ''data'' data @ json_opt ''clientId'' client_id)"

definition publish_json ::
  "string \<Rightarrow> string option \<Rightarrow> string option \<Rightarrow> string option \<Rightarrow> string option \<Rightarrow> int \<Rightarrow> json" where
  "publish_json channel name data client_id msg_id msg_serial = JObj
     [(''action'', JNum (of_int (action_code ACTION_MESSAGE))),
      (''msgSerial'', JNum (of_int (c_double msg_serial))), (''channel'', JStr channel),
      (''messages'', JArr [message_json msg_id name data client_id])]"

definition proto_encode_publish_json ::
  "(json \<Rightarrow> string option) \<Rightarrow> nat \<Rightarrow> string \<Rightarrow> string option \<Rightarrow> string option \<Rightarrow> string option \<Rightarrow>
   string option \<Rightarrow> int \<Rightarrow> string" where
  "proto_encode_publish_json print len channel name data client_id msg_id msg_serial =
     emit_json print len (publish_json channel name data client_id msg_id msg_serial)"

text \<open>\<^verbatim>\<open>encode_presence_json\<close> of \<^verbatim>\<open>presence.c\<close>.\<close>

definition presence_json :: "string \<Rightarrow> ably_presence_action \<Rightarrow> string option \<Rightarrow> string option \<Rightarrow> json" where
  "presence_json channel action client_id data = JObj
     [(''action'', JNum (of_int (action_code ACTION_PRESENCE))), (''channel'', JStr channel),
      (''presence'', JArr [JObj ([(''action'', JNum (of_int (presence_action_code action)))] @
         json_opt ''clientId'' client_id @ json_opt ''data'' data)])]"

section \<open>Decoding\<close>

definition decode_occupancy_json :: "json \<Rightarrow> ably_occupancy" where
  "decode_occupancy_json met =
     \<lparr>occ_connections = c_int (json_int64 met ''connections'' 0),
      occ_publishers = c_int (json_int64 met ''publishers'' 0),
      occ_subscribers = c_int (json_int64 met ''subscribers'' 0),
      occ_presence_connections = c_int (json_int64 met ''presenceConnections'' 0),
      occ_presence_members = c_int (json_int64 met ''presenceMembers'' 0),
      occ_presence_subscribers = c_int (json_int64 met ''presenceSubscribers'' 0)\<rparr>"

definition decode_message_json :: "json \<Rightarrow> ably_proto_message" where
  "decode_message_json m =
     (let extras = json_obj m ''extras'';
          delta = Option.bind extras (\<lambda>e. json_obj e ''delta'');
          occ = Option.bind extras (\<lambda>e. json_obj e ''occupancy'');
          met = Option.bind occ (\<lambda>e. json_obj e ''metrics'')
      in \<lparr>prm_id = json_str m ''id'', prm_client_id = json_str m ''clientId'',
          prm_connection_id = json_str m ''connectionId'', prm_name = json_str m ''name'',
          prm_data = json_str m ''data'', prm_encoding = json_str m ''encoding'',
          prm_timestamp = json_int64 m ''timestamp'' 0,
          prm_delta_format = Option.bind delta (\<lambda>d. json_str d ''format''),
          prm_delta_from = Option.bind delta (\<lambda>d. json_str d ''from''),
          prm_has_occupancy = (met \<noteq> None),
          prm_occupancy = (case met of None \<Rightarrow> zero_occupancy | Some o' \<Rightarrow> decode_occupancy_json o')\<rparr>)"

definition decode_presence_json :: "json \<Rightarrow> ably_presence_message" where
  "decode_presence_json p =
     \<lparr>pm_action = presence_action_of_int (c_int (json_int64 p ''action'' 0)),
      pm_client_id = c_copy ABLY_MAX_CLIENT_ID_LEN (c_str (json_str p ''clientId'')),
      pm_connection_id = c_copy 64 (c_str (json_str p ''connectionId'')),
      pm_data = c_copy ABLY_MAX_MESSAGE_DATA_LEN (c_str (json_str p ''data'')),
      pm_timestamp = json_int64 p ''timestamp'' 0\<rparr>"

definition decode_conn_details_json :: "json \<Rightarrow> conn_details" where
  "decode_conn_details_json tree =
     (case json_obj tree ''connectionDetails'' of
        None \<Rightarrow> no_conn_details
      | Some cd \<Rightarrow>
          \<lparr>cd_client_id = c_copy ABLY_MAX_CLIENT_ID_LEN (c_str (json_str cd ''clientId'')),
           cd_connection_state_ttl = json_int64 cd ''connectionStateTtl'' 0,
           cd_max_message_size = json_int64 cd ''maxMessageSize'' 0,
           cd_max_idle_interval = json_int64 cd ''maxIdleInterval'' 0,
           cd_server_id = c_copy 64 (c_str (json_str cd ''serverId''))\<rparr>)"

definition decode_frame_json :: "rat \<Rightarrow> json \<Rightarrow> ably_proto_frame" where
  "decode_frame_json action tree =
     \<lparr>pf_action = action_of_int (c_int (trunc_rat action)),
      pf_channel = json_str tree ''channel'',
      pf_msg_serial = json_int64 tree ''msgSerial'' 0,
      pf_count = c_int (json_int64 tree ''count'' 0),
      pf_error_code = (case json_obj tree ''error'' of None \<Rightarrow> 0 | Some e \<Rightarrow> c_int (json_int64 e ''code'' 0)),
      pf_error_message = Option.bind (json_obj tree ''error'') (\<lambda>e. json_str e ''message''),
      pf_flags = c_int (json_int64 tree ''flags'' 0),
      pf_connection_id = json_str tree ''connectionId'',
      pf_connection_key = json_str tree ''connectionKey'',
      pf_messages = map decode_message_json
        (take DECODE_MSGS_CAP (case json_arr tree ''messages'' of None \<Rightarrow> [] | Some ms \<Rightarrow> ms)),
      pf_channel_serial = c_copy 64 (c_str (json_str tree ''channelSerial'')),
      pf_sync_serial = c_copy 128 (c_str (json_str tree ''syncSerial'')),
      pf_presence_msgs = map decode_presence_json
        (take ABLY_MAX_PRESENCE_PER_FRAME (case json_arr tree ''presence'' of None \<Rightarrow> [] | Some ps \<Rightarrow> ps)),
      pf_conn_details = decode_conn_details_json tree,
      pf_channel_modes = c_uint32 (json_int64 tree ''channelMode'' 0)\<rparr>"

text \<open>\<open>None\<close> is \<^verbatim>\<open>ABLY_ERR_PROTOCOL\<close>.\<close>

definition proto_decode_json :: "(string \<Rightarrow> json option) \<Rightarrow> string \<Rightarrow> ably_proto_frame option" where
  "proto_decode_json parse buf =
     (case parse buf of
        None \<Rightarrow> None
      | Some tree \<Rightarrow>
          (case json_get tree ''action'' of
             Some (JNum action) \<Rightarrow> Some (decode_frame_json action tree)
           | _ \<Rightarrow> None))"

section \<open>The hand-written encoder\<close>

definition json_escape :: "char \<Rightarrow> string" where
  "json_escape c = (if json_escaped c then [CHR 0x5C, c] else [c])"

lemma encode_channel_loop_exact:
  "encode_channel_loop len buf channel =
     fit_text len (buf @ concat (map json_escape channel) @ [CHR 0x22, CHR ''}''])"
proof (induction channel arbitrary: buf)
  case Nil
  then show ?case by (auto simp: fit_text_def)
next
  case (Cons c p)
  have "len \<le> length buf + 2 \<Longrightarrow> len \<le> length (buf @ concat (map json_escape (c # p)) @ [CHR 0x22, CHR ''}''])"
    by (simp add: json_escape_def)
  then show ?case by (auto simp: Cons.IH json_escape_def fit_text_def Let_def)
qed

text \<open>Reading the string back: a backslash escapes the next character, a quote ends it.\<close>

fun json_unescape :: "string \<Rightarrow> string" where
  "json_unescape [] = []"
| "json_unescape (c # s) =
     (if c = CHR 0x22 then []
      else if c = CHR 0x5C then (case s of [] \<Rightarrow> [] | d # r \<Rightarrow> d # json_unescape r)
      else c # json_unescape s)"

lemma json_unescape_escaped:
  "json_unescape (concat (map json_escape s) @ [CHR 0x22, CHR ''}'']) = s"
  by (induction s) (auto simp: json_escape_def json_escaped_def)

text \<open>The hand-written encoder of DETACH and plain ATTACH frames writes exactly the escaped channel
  name in its frame when text and NUL fit into the buffer and reports failure otherwise; a reader of
  the string gets the channel name back.\<close>

theorem encode_action_channel_exact:
  "encode_action_channel len action channel =
     fit_text len (action_channel_head action @ concat (map json_escape channel) @ [CHR 0x22, CHR ''}'']) \<and>
   json_unescape (concat (map json_escape channel) @ [CHR 0x22, CHR ''}'']) = channel"
  by (auto simp: encode_action_channel_def encode_channel_loop_exact json_unescape_escaped fit_text_def)

section \<open>Round trip and bounds\<close>

lemma trunc_rat_of_int [simp]: "trunc_rat (of_int i) = i"
  by (simp add: trunc_rat_def)

lemma trunc_rat_numeral [simp]: "trunc_rat (numeral n) = numeral n"
  using trunc_rat_of_int [of "numeral n"] by simp

lemma double_int64_of_int: "- (2 ^ 63) \<le> i \<Longrightarrow> i < 2 ^ 63 \<Longrightarrow> double_int64 (of_int i) = i"
  by (simp add: double_int64_def)

lemma double_int64_numeral [simp]:
  "double_int64 (numeral n) = (if numeral n < (2 ^ 63 :: int) then numeral n else - (2 ^ 63))"
  "double_int64 0 = 0" "double_int64 1 = 1"
  using trunc_rat_of_int [of 0] trunc_rat_of_int [of 1] by (simp_all add: double_int64_def)

lemma double_int64_serial: "\<bar>i\<bar> \<le> 2 ^ 53 \<Longrightarrow> double_int64 (of_int (c_double i)) = i"
  by (subst c_double_exact) (auto intro!: double_int64_of_int)

text \<open>C28. A published message survives the wire: decoding the JSON text of a PUBLISH frame gives the
  action, channel and message that were encoded, for every combination of absent and present
  fields, and the serial as a double holds it, which is the serial itself up to 2^53, provided the library
  parses back what it printed.\<close>

theorem publish_json_roundtrip:
  assumes "print (publish_json channel name data client_id msg_id serial) = Some s" "length s < len"
    and "parse s = Some (publish_json channel name data client_id msg_id serial)"
  shows "\<exists>f m. proto_decode_json parse
      (proto_encode_publish_json print len channel name data client_id msg_id serial) = Some f \<and>
    pf_action f = ACTION_MESSAGE \<and> pf_msg_serial f = double_int64 (of_int (c_double serial)) \<and>
    (\<bar>serial\<bar> \<le> 2 ^ 53 \<longrightarrow> pf_msg_serial f = serial) \<and> pf_channel f = Some channel \<and>
    pf_messages f = [m] \<and> prm_id m = msg_id \<and> prm_name m = name \<and> prm_data m = data \<and>
    prm_client_id m = client_id \<and> prm_delta_format m = None \<and> \<not> prm_has_occupancy m"
proof -
  have [simp]: "action_of_int (c_int 15) = ACTION_MESSAGE"
    by (simp add: c_int_def action_of_int_def known_actions_def)
  show ?thesis using assms
    by (auto simp: double_int64_serial proto_encode_publish_json_def emit_json_def proto_decode_json_def publish_json_def
        decode_frame_json_def json_str_def json_int64_def json_arr_def json_obj_def message_json_def
        decode_message_json_def json_opt_def DECODE_MSGS_CAP_def Let_def map_of_append
        split: option.splits)
qed

lemma decode_details_json_bounded: "details_bounded (decode_conn_details_json tree)"
  by (auto simp: decode_conn_details_json_def details_bounded_def no_conn_details_def c_copy_fits capacity_defs split: option.splits)

lemma decode_presence_json_bounded: "presence_bounded (decode_presence_json p)"
  by (simp add: decode_presence_json_def presence_bounded_def c_copy_fits capacity_defs)

lemma decode_frame_json_bounded: "frame_bounded (decode_frame_json action tree)"
  by (auto simp: frame_bounded_def decode_frame_json_def decode_presence_json_bounded decode_details_json_bounded
      c_copy_fits capacity_defs)

lemma proto_decode_json_bounded: "proto_decode_json parse buf = Some f \<Longrightarrow> frame_bounded f"
  by (auto simp: proto_decode_json_def decode_frame_json_bounded split: option.splits json.splits)

lemma publish_json_roundtrip_witness:
  "\<exists>f m. proto_decode_json (\<lambda>_. Some (publish_json ''room'' (Some ''greet'') (Some ''hi'') None None 7))
      (proto_encode_publish_json (\<lambda>_. Some ''text'') 64 ''room'' (Some ''greet'') (Some ''hi'') None None 7) =
      Some f \<and>
    pf_action f = ACTION_MESSAGE \<and> pf_msg_serial f = 7 \<and> pf_channel f = Some ''room'' \<and>
    pf_messages f = [m] \<and> prm_id m = None \<and> prm_name m = Some ''greet'' \<and> prm_data m = Some ''hi'' \<and>
    prm_client_id m = None \<and> prm_delta_format m = None \<and> \<not> prm_has_occupancy m"
  using publish_json_roundtrip [where s = "''text''" and len = 64 and print = "\<lambda>_. Some ''text''" and serial = 7
      and parse = "\<lambda>_. Some (publish_json ''room'' (Some ''greet'') (Some ''hi'') None None 7)"]
  by simp blast

end
