(* ===== verification/Ably_Msgpack.thy ===== *)
theory Ably_Msgpack
  imports Ably_Protocol "HOL-Library.State_Monad"
begin

text \<open>
  \<^verbatim>\<open>src/realtime/protocol_msgpack.c\<close>: the MessagePack codec. The mpack library is the parameters
  \<open>write\<close> (the writer: the bytes of a value in a buffer of the given size, empty when the writer
  reports an error) and \<open>parse\<close> (the tree parser); the behaviour of its node API that the decoder
  relies on is written out: an error flagged once makes every later access read as nil or zero.

  The decoder copies strings into a pool of 4096 bytes shared by the whole frame, so it threads a
  state: the bytes used and the tree's error flag. It is written in the state monad.
\<close>

datatype mp_node =
    MP_Nil | MP_Int int | MP_Str string | MP_Array "mp_node list" | MP_Map "(mp_node \<times> mp_node) list"
  | MP_Other \<comment> \<open>boolean, float, binary or extension\<close>

section \<open>Encoding\<close>

definition mp_field :: "string \<Rightarrow> mp_node \<Rightarrow> mp_node \<times> mp_node" where
  "mp_field key v = (MP_Str key, v)"

definition mp_opt :: "string \<Rightarrow> string option \<Rightarrow> (mp_node \<times> mp_node) list" where
  "mp_opt key v = (case v of None \<Rightarrow> [] | Some s \<Rightarrow> [mp_field key (MP_Str s)])"

definition encode_simple_mp :: "(nat \<Rightarrow> mp_node \<Rightarrow> string) \<Rightarrow> nat \<Rightarrow> ably_action \<Rightarrow> string" where
  "encode_simple_mp write len action = write len (MP_Map [mp_field ''action'' (MP_Int (action_code action))])"

definition encode_with_channel_mp ::
  "(nat \<Rightarrow> mp_node \<Rightarrow> string) \<Rightarrow> nat \<Rightarrow> ably_action \<Rightarrow> string \<Rightarrow> string" where
  "encode_with_channel_mp write len action channel =
     write len (MP_Map [mp_field ''action'' (MP_Int (action_code action)),
                        mp_field ''channel'' (MP_Str channel)])"

definition attach_mp :: "string \<Rightarrow> attach_params \<Rightarrow> mp_node" where
  "attach_mp channel p = MP_Map (
     [mp_field ''action'' (MP_Int (action_code ACTION_ATTACH)), mp_field ''channel'' (MP_Str channel)] @
     (if c_nonempty (ap_channel_serial p) then mp_opt ''channelSerial'' (ap_channel_serial p) else []) @
     (if ap_channel_modes p \<noteq> 0
      then [mp_field ''channelMode'' (MP_Int (int (unat (ap_channel_modes p))))] else []) @
     (if attach_param_list p = [] then []
      else [mp_field ''params'' (MP_Map (map (\<lambda>(k, v). mp_field k (MP_Str v)) (attach_param_list p)))]))"

definition proto_encode_attach_msgpack ::
  "(nat \<Rightarrow> mp_node \<Rightarrow> string) \<Rightarrow> nat \<Rightarrow> string \<Rightarrow> attach_params \<Rightarrow> string" where
  "proto_encode_attach_msgpack write len channel p =
     (if \<not> ap_has_params p then encode_with_channel_mp write len ACTION_ATTACH channel
      else write len (attach_mp channel p))"

definition message_mp :: "string option \<Rightarrow> string option \<Rightarrow> string option \<Rightarrow> string option \<Rightarrow> mp_node" where
  "message_mp msg_id name data client_id = MP_Map (mp_opt ''id'' msg_id @ mp_opt ''name'' name @
     mp_opt ''data'' data @ mp_opt ''clientId'' client_id)"

definition publish_mp ::
  "string \<Rightarrow> string option \<Rightarrow> string option \<Rightarrow> string option \<Rightarrow> string option \<Rightarrow> int \<Rightarrow> mp_node" where
  "publish_mp channel name data client_id msg_id msg_serial = MP_Map
     [mp_field ''action'' (MP_Int (action_code ACTION_MESSAGE)), mp_field ''msgSerial'' (MP_Int msg_serial),
      mp_field ''channel'' (MP_Str channel),
      mp_field ''messages'' (MP_Array [message_mp msg_id name data client_id])]"

definition proto_encode_publish_msgpack ::
  "(nat \<Rightarrow> mp_node \<Rightarrow> string) \<Rightarrow> nat \<Rightarrow> string \<Rightarrow> string option \<Rightarrow> string option \<Rightarrow> string option \<Rightarrow>
   string option \<Rightarrow> int \<Rightarrow> string" where
  "proto_encode_publish_msgpack write len channel name data client_id msg_id msg_serial =
     write len (publish_mp channel name data client_id msg_id msg_serial)"

text \<open>\<^verbatim>\<open>encode_presence_msgpack\<close> of \<^verbatim>\<open>presence.c\<close>.\<close>

definition presence_mp :: "string \<Rightarrow> ably_presence_action \<Rightarrow> string option \<Rightarrow> string option \<Rightarrow> mp_node" where
  "presence_mp channel action client_id data = MP_Map
     [mp_field ''action'' (MP_Int (action_code ACTION_PRESENCE)), mp_field ''channel'' (MP_Str channel),
      mp_field ''presence'' (MP_Array [MP_Map (
        [mp_field ''action'' (MP_Int (presence_action_code action))] @
        mp_opt ''clientId'' client_id @ mp_opt ''data'' data)])]"

section \<open>Reading nodes\<close>

record mp_state =
  pool_used :: nat
  tree_error :: bool

type_synonym 'a mp_dec = "(mp_state, 'a) state"

definition mp_flag_error :: "unit mp_dec" where
  "mp_flag_error = State_Monad.update (\<lambda>st. st\<lparr>tree_error := True\<rparr>)"

definition mp_failed :: "bool mp_dec" where
  "mp_failed = do { st \<leftarrow> State_Monad.get; State_Monad.return (tree_error st) }"

text \<open>\<^verbatim>\<open>mpack_node_map_cstr_optional\<close>: missing keys read as nil; a non-map and a duplicated key are
  errors.\<close>

definition mp_get :: "mp_node \<Rightarrow> string \<Rightarrow> mp_node mp_dec" where
  "mp_get node key = do {
     failed \<leftarrow> mp_failed;
     if failed then State_Monad.return MP_Nil
     else case node of
       MP_Map kvs \<Rightarrow>
         (case filter (\<lambda>(k, v). k = MP_Str key) kvs of
            [] \<Rightarrow> State_Monad.return MP_Nil
          | [(k, v)] \<Rightarrow> State_Monad.return v
          | _ \<Rightarrow> do { mp_flag_error; State_Monad.return MP_Nil })
     | _ \<Rightarrow> do { mp_flag_error; State_Monad.return MP_Nil } }"

text \<open>The node as \<^verbatim>\<open>mpack_node_type\<close> sees it: nil once the tree is in error.\<close>

definition mp_view :: "mp_node \<Rightarrow> mp_node mp_dec" where
  "mp_view node = do { failed \<leftarrow> mp_failed; State_Monad.return (if failed then MP_Nil else node) }"

definition node_int64 :: "mp_node \<Rightarrow> string \<Rightarrow> int \<Rightarrow> int mp_dec" where
  "node_int64 node key def = do {
     child \<leftarrow> mp_get node key;
     v \<leftarrow> mp_view child;
     case v of
       MP_Int i \<Rightarrow> if i < 2 ^ 63 then State_Monad.return i
                  else do { mp_flag_error; State_Monad.return 0 }
     | _ \<Rightarrow> State_Monad.return def }"

text \<open>\<^verbatim>\<open>mpack_node_int\<close> of an optional key: anything but a 32-bit integer is an error.\<close>

definition node_int :: "mp_node \<Rightarrow> string \<Rightarrow> int mp_dec" where
  "node_int node key = do {
     child \<leftarrow> mp_get node key;
     failed \<leftarrow> mp_failed;
     if failed then State_Monad.return 0
     else case child of
       MP_Int i \<Rightarrow> if - (2 ^ 31) \<le> i \<and> i < 2 ^ 31 then State_Monad.return i
                  else do { mp_flag_error; State_Monad.return 0 }
     | _ \<Rightarrow> do { mp_flag_error; State_Monad.return 0 } }"

definition pool_str :: "mp_node \<Rightarrow> string \<Rightarrow> string option mp_dec" where
  "pool_str node key = do {
     child \<leftarrow> mp_get node key;
     v \<leftarrow> mp_view child;
     case v of
       MP_Str s \<Rightarrow> do {
         st \<leftarrow> State_Monad.get;
         if length s + 1 > ABLY_PROTO_STRING_POOL_SIZE - pool_used st then State_Monad.return None
         else do {
           State_Monad.set (st\<lparr>pool_used := pool_used st + (length s + 1)\<rparr>);
           State_Monad.return (Some (c_string s)) } }
     | _ \<Rightarrow> State_Monad.return None }"

definition node_str_copy :: "mp_node \<Rightarrow> string \<Rightarrow> nat \<Rightarrow> string mp_dec" where
  "node_str_copy node key dest_len = do {
     child \<leftarrow> mp_get node key;
     v \<leftarrow> mp_view child;
     State_Monad.return (case v of MP_Str s \<Rightarrow> c_string (c_copy dest_len s) | _ \<Rightarrow> []) }"

text \<open>An optional sub-map: \<^verbatim>\<open>mpack_node_type(child) == mpack_type_map\<close>.\<close>

definition node_map :: "mp_node \<Rightarrow> string \<Rightarrow> mp_node option mp_dec" where
  "node_map node key = do {
     child \<leftarrow> mp_get node key;
     v \<leftarrow> mp_view child;
     State_Monad.return (case v of MP_Map kvs \<Rightarrow> Some (MP_Map kvs) | _ \<Rightarrow> None) }"

definition node_array :: "mp_node \<Rightarrow> string \<Rightarrow> mp_node list mp_dec" where
  "node_array node key = do {
     child \<leftarrow> mp_get node key;
     v \<leftarrow> mp_view child;
     State_Monad.return (case v of MP_Array xs \<Rightarrow> xs | _ \<Rightarrow> []) }"

text \<open>Apply a decoder to an optional node.\<close>

definition mp_when :: "mp_node option \<Rightarrow> 'a \<Rightarrow> (mp_node \<Rightarrow> 'a mp_dec) \<Rightarrow> 'a mp_dec" where
  "mp_when n d f = (case n of None \<Rightarrow> State_Monad.return d | Some x \<Rightarrow> f x)"

section \<open>Decoding a frame\<close>

definition decode_occupancy_mp :: "mp_node \<Rightarrow> ably_occupancy mp_dec" where
  "decode_occupancy_mp met = do {
     a \<leftarrow> node_int met ''connections''; b \<leftarrow> node_int met ''publishers'';
     c \<leftarrow> node_int met ''subscribers''; d \<leftarrow> node_int met ''presenceConnections'';
     e \<leftarrow> node_int met ''presenceMembers''; f \<leftarrow> node_int met ''presenceSubscribers'';
     State_Monad.return
       \<lparr>occ_connections = a, occ_publishers = b, occ_subscribers = c, occ_presence_connections = d,
        occ_presence_members = e, occ_presence_subscribers = f\<rparr> }"

definition decode_message_mp :: "mp_node \<Rightarrow> ably_proto_message mp_dec" where
  "decode_message_mp node = do {
     m \<leftarrow> mp_view node;
     mid \<leftarrow> pool_str m ''id'';
     cid \<leftarrow> pool_str m ''clientId'';
     conn \<leftarrow> pool_str m ''connectionId'';
     name \<leftarrow> pool_str m ''name'';
     data \<leftarrow> pool_str m ''data'';
     enc \<leftarrow> pool_str m ''encoding'';
     ts \<leftarrow> node_int64 m ''timestamp'' 0;
     extras \<leftarrow> node_map m ''extras'';
     delta \<leftarrow> mp_when extras None (\<lambda>e. node_map e ''delta'');
     fmt \<leftarrow> mp_when delta None (\<lambda>d. pool_str d ''format'');
     from \<leftarrow> mp_when delta None (\<lambda>d. pool_str d ''from'');
     occ \<leftarrow> mp_when extras None (\<lambda>e. node_map e ''occupancy'');
     met \<leftarrow> mp_when occ None (\<lambda>n. node_map n ''metrics'');
     metrics \<leftarrow> mp_when met zero_occupancy decode_occupancy_mp;
     State_Monad.return
       \<lparr>prm_id = mid, prm_client_id = cid, prm_connection_id = conn, prm_name = name,
        prm_data = data, prm_encoding = enc, prm_timestamp = ts, prm_delta_format = fmt,
        prm_delta_from = from, prm_has_occupancy = (met \<noteq> None), prm_occupancy = metrics\<rparr> }"

definition decode_presence_mp :: "mp_node \<Rightarrow> ably_presence_message mp_dec" where
  "decode_presence_mp node = do {
     p \<leftarrow> mp_view node;
     action \<leftarrow> node_int64 p ''action'' 0;
     ts \<leftarrow> node_int64 p ''timestamp'' 0;
     cid \<leftarrow> node_str_copy p ''clientId'' ABLY_MAX_CLIENT_ID_LEN;
     conn \<leftarrow> node_str_copy p ''connectionId'' 64;
     data \<leftarrow> node_str_copy p ''data'' ABLY_MAX_MESSAGE_DATA_LEN;
     State_Monad.return
       \<lparr>pm_action = presence_action_of_int (c_int action), pm_client_id = cid,
        pm_connection_id = conn, pm_data = data, pm_timestamp = ts\<rparr> }"

fun mp_map_list :: "('a \<Rightarrow> 'b mp_dec) \<Rightarrow> 'a list \<Rightarrow> 'b list mp_dec" where
  "mp_map_list f [] = State_Monad.return []"
| "mp_map_list f (x # xs) = do { y \<leftarrow> f x; ys \<leftarrow> mp_map_list f xs; State_Monad.return (y # ys) }"

definition decode_conn_details_mp :: "mp_node \<Rightarrow> conn_details mp_dec" where
  "decode_conn_details_mp cd = do {
     cid \<leftarrow> node_str_copy cd ''clientId'' ABLY_MAX_CLIENT_ID_LEN;
     sid \<leftarrow> node_str_copy cd ''serverId'' 64;
     ttl \<leftarrow> node_int64 cd ''connectionStateTtl'' 0;
     mms \<leftarrow> node_int64 cd ''maxMessageSize'' 0;
     mii \<leftarrow> node_int64 cd ''maxIdleInterval'' 0;
     State_Monad.return
       \<lparr>cd_client_id = cid, cd_connection_state_ttl = ttl, cd_max_message_size = mms,
        cd_max_idle_interval = mii, cd_server_id = sid\<rparr> }"

text \<open>\<open>None\<close> is \<^verbatim>\<open>ABLY_ERR_PROTOCOL\<close>; the test of the action comes after the connection details.\<close>

definition decode_frame_mp :: "mp_node \<Rightarrow> ably_proto_frame option mp_dec" where
  "decode_frame_mp root = do {
     action \<leftarrow> node_int64 root ''action'' (-1);
     channel \<leftarrow> pool_str root ''channel'';
     serial \<leftarrow> node_int64 root ''msgSerial'' 0;
     count \<leftarrow> node_int64 root ''count'' 0;
     flags \<leftarrow> node_int64 root ''flags'' 0;
     modes \<leftarrow> node_int64 root ''channelMode'' 0;
     conn_id \<leftarrow> pool_str root ''connectionId'';
     conn_key \<leftarrow> pool_str root ''connectionKey'';
     chan_serial \<leftarrow> node_str_copy root ''channelSerial'' 64;
     sync_serial \<leftarrow> node_str_copy root ''syncSerial'' 128;
     cd \<leftarrow> node_map root ''connectionDetails'';
     details \<leftarrow> mp_when cd no_conn_details decode_conn_details_mp;
     if c_int action < 0 then State_Monad.return None
     else do {
       err \<leftarrow> node_map root ''error'';
       code \<leftarrow> mp_when err 0 (\<lambda>e. node_int64 e ''code'' 0);
       msg \<leftarrow> mp_when err None (\<lambda>e. pool_str e ''message'');
       msgs \<leftarrow> node_array root ''messages'';
       messages \<leftarrow> mp_map_list decode_message_mp (take DECODE_MSGS_CAP msgs);
       pres \<leftarrow> node_array root ''presence'';
       presence \<leftarrow> mp_map_list decode_presence_mp (take ABLY_MAX_PRESENCE_PER_FRAME pres);
       State_Monad.return (Some
         \<lparr>pf_action = action_of_int (c_int action), pf_channel = channel, pf_msg_serial = serial,
          pf_count = c_int count, pf_error_code = c_int code, pf_error_message = msg,
          pf_flags = c_int flags, pf_connection_id = conn_id, pf_connection_key = conn_key,
          pf_messages = messages, pf_channel_serial = chan_serial, pf_sync_serial = sync_serial,
          pf_presence_msgs = presence, pf_conn_details = details,
          pf_channel_modes = c_uint32 modes\<rparr>) } }"

definition proto_decode_msgpack :: "(string \<Rightarrow> mp_node option) \<Rightarrow> string \<Rightarrow> ably_proto_frame option" where
  "proto_decode_msgpack parse buf =
     (case parse buf of
        Some (MP_Map kvs) \<Rightarrow>
          fst (run_state (decode_frame_mp (MP_Map kvs)) \<lparr>pool_used = 0, tree_error = False\<rparr>)
      | _ \<Rightarrow> None)"

section \<open>The string pool\<close>

text \<open>A decoder step keeps the pool within its 4096 bytes.\<close>

definition pool_safe :: "'a mp_dec \<Rightarrow> bool" where
  "pool_safe m \<longleftrightarrow>
     (\<forall>st. pool_used st \<le> ABLY_PROTO_STRING_POOL_SIZE \<longrightarrow>
        pool_used (snd (run_state m st)) \<le> ABLY_PROTO_STRING_POOL_SIZE)"

lemma run_bind:
  "run_state (State_Monad.bind m f) st = run_state (f (fst (run_state m st))) (snd (run_state m st))"
  by (simp add: State_Monad.bind_def split_beta)

lemmas mp_run = run_bind split_beta State_Monad.return_def State_Monad.get_def State_Monad.set_def
  State_Monad.update_def mp_flag_error_def mp_failed_def

lemma pool_safe_bind [inv_rules]:
  "pool_safe m \<Longrightarrow> (\<And>x. pool_safe (f x)) \<Longrightarrow> pool_safe (State_Monad.bind m f)"
  by (simp add: pool_safe_def run_bind split_beta)

lemma pool_safe_return [inv_rules]: "pool_safe (State_Monad.return x)"
  by (simp add: pool_safe_def State_Monad.return_def)

lemma pool_safe_if [inv_rules]:
  "pool_safe m \<Longrightarrow> pool_safe m' \<Longrightarrow> pool_safe (if b then m else m')"
  by simp

lemma pool_safe_flag [inv_rules]: "pool_safe mp_flag_error"
  by (simp add: pool_safe_def mp_run)

lemma pool_safe_failed [inv_rules]: "pool_safe mp_failed"
  by (simp add: pool_safe_def mp_run)

lemma pool_safe_get_node [inv_rules]: "pool_safe (mp_get node key)"
  by (auto simp: mp_get_def intro!: inv_rules split: mp_node.splits list.splits)

lemma pool_safe_view [inv_rules]: "pool_safe (mp_view node)"
  by (auto simp: mp_view_def intro!: inv_rules)

lemma pool_safe_int64 [inv_rules]: "pool_safe (node_int64 node key d)"
  by (auto simp: node_int64_def intro!: inv_rules split: mp_node.splits)

lemma pool_safe_int [inv_rules]: "pool_safe (node_int node key)"
  by (auto simp: node_int_def intro!: inv_rules split: mp_node.splits)

lemma pool_safe_claim:
  "pool_safe (do { st \<leftarrow> State_Monad.get;
     if length s + 1 > ABLY_PROTO_STRING_POOL_SIZE - pool_used st then State_Monad.return None
     else do {
       State_Monad.set (st\<lparr>pool_used := pool_used st + (length s + 1)\<rparr>);
       State_Monad.return (Some (c_string s)) } })"
  by (auto simp: pool_safe_def mp_run)

lemma pool_safe_str [inv_rules]: "pool_safe (pool_str node key)"
  unfolding pool_str_def
proof (rule pool_safe_bind [OF pool_safe_get_node], rule pool_safe_bind [OF pool_safe_view])
  fix v :: mp_node
  show "pool_safe (case v of MP_Str s \<Rightarrow> do { st \<leftarrow> State_Monad.get;
      if length s + 1 > ABLY_PROTO_STRING_POOL_SIZE - pool_used st then State_Monad.return None
      else do {
        State_Monad.set (st\<lparr>pool_used := pool_used st + (length s + 1)\<rparr>);
        State_Monad.return (Some (c_string s)) } } | _ \<Rightarrow> State_Monad.return None)"
    by (cases v) (simp_all only: mp_node.case pool_safe_claim pool_safe_return)
qed

lemma pool_safe_copy [inv_rules]: "pool_safe (node_str_copy node key n)"
  by (auto simp: node_str_copy_def intro!: inv_rules)

lemma pool_safe_map [inv_rules]: "pool_safe (node_map node key)"
  by (auto simp: node_map_def intro!: inv_rules)

lemma pool_safe_array [inv_rules]: "pool_safe (node_array node key)"
  by (auto simp: node_array_def intro!: inv_rules)

lemma pool_safe_when [inv_rules]: "(\<And>x. pool_safe (f x)) \<Longrightarrow> pool_safe (mp_when n d f)"
  by (auto simp: mp_when_def intro!: inv_rules split: option.splits)

lemma pool_safe_list [inv_rules]: "(\<And>x. pool_safe (f x)) \<Longrightarrow> pool_safe (mp_map_list f xs)"
  by (induction xs) (auto intro!: inv_rules)

lemma pool_safe_occupancy [inv_rules]: "pool_safe (decode_occupancy_mp met)"
  unfolding decode_occupancy_mp_def by (intro inv_rules)

lemma pool_safe_message [inv_rules]: "pool_safe (decode_message_mp m)"
  unfolding decode_message_mp_def by (intro inv_rules)

lemma pool_safe_presence [inv_rules]: "pool_safe (decode_presence_mp m)"
  unfolding decode_presence_mp_def by (intro inv_rules)

lemma pool_safe_details [inv_rules]: "pool_safe (decode_conn_details_mp m)"
  unfolding decode_conn_details_mp_def by (intro inv_rules)

lemma pool_safe_frame: "pool_safe (decode_frame_mp tree)"
  unfolding decode_frame_mp_def by (intro inv_rules)

section \<open>Evaluating the decoder\<close>

text \<open>Each accessor as a function of the state, so that a decoder can be run step by step.\<close>

lemma run_mp_get:
  "run_state (mp_get node key) st =
     (if tree_error st then (MP_Nil, st)
      else case node of
        MP_Map kvs \<Rightarrow>
          (case filter (\<lambda>(k, v). k = MP_Str key) kvs of
             [] \<Rightarrow> (MP_Nil, st) | [(k, v)] \<Rightarrow> (v, st) | _ \<Rightarrow> (MP_Nil, st\<lparr>tree_error := True\<rparr>))
      | _ \<Rightarrow> (MP_Nil, st\<lparr>tree_error := True\<rparr>))"
  by (auto simp: mp_get_def mp_run split: mp_node.splits list.splits)

lemma run_mp_view: "run_state (mp_view node) st = (if tree_error st then MP_Nil else node, st)"
  by (simp add: mp_view_def mp_run)

text \<open>The child as the accessors see it, and the state after the lookup.\<close>

definition mp_child :: "mp_node \<Rightarrow> string \<Rightarrow> mp_state \<Rightarrow> mp_node \<times> mp_state" where
  "mp_child node key st =
     (let (child, st') = run_state (mp_get node key) st
      in (if tree_error st' then MP_Nil else child, st'))"

lemma run_pool_str:
  "run_state (pool_str node key) st =
     (case mp_child node key st of
        (MP_Str s, st') \<Rightarrow>
          if ABLY_PROTO_STRING_POOL_SIZE - pool_used st' < length s + 1 then (None, st')
          else (Some (c_string s), st'\<lparr>pool_used := pool_used st' + (length s + 1)\<rparr>)
      | (_, st') \<Rightarrow> (None, st'))"
  by (simp add: pool_str_def mp_child_def mp_run run_mp_view Let_def split: mp_node.splits)

lemma run_node_int64:
  "run_state (node_int64 node key d) st =
     (case mp_child node key st of
        (MP_Int i, st') \<Rightarrow> if i < 2 ^ 63 then (i, st') else (0, st'\<lparr>tree_error := True\<rparr>)
      | (_, st') \<Rightarrow> (d, st'))"
  by (simp add: node_int64_def mp_child_def mp_run run_mp_view Let_def split: mp_node.splits)

lemma run_node_str_copy:
  "run_state (node_str_copy node key n) st =
     (case mp_child node key st of (MP_Str s, st') \<Rightarrow> (c_string (c_copy n s), st') | (_, st') \<Rightarrow> ([], st'))"
  by (simp add: node_str_copy_def mp_child_def mp_run run_mp_view Let_def split: mp_node.splits)

lemma run_node_map:
  "run_state (node_map node key) st =
     (case mp_child node key st of (MP_Map kvs, st') \<Rightarrow> (Some (MP_Map kvs), st') | (_, st') \<Rightarrow> (None, st'))"
  by (simp add: node_map_def mp_child_def mp_run run_mp_view Let_def split: mp_node.splits)

lemma run_node_array:
  "run_state (node_array node key) st =
     (case mp_child node key st of (MP_Array xs, st') \<Rightarrow> (xs, st') | (_, st') \<Rightarrow> ([], st'))"
  by (simp add: node_array_def mp_child_def mp_run run_mp_view Let_def split: mp_node.splits)

lemma run_mp_when:
  "run_state (mp_when n d f) st = (case n of None \<Rightarrow> (d, st) | Some x \<Rightarrow> run_state (f x) st)"
  by (simp add: mp_when_def State_Monad.return_def split: option.splits)

lemma run_return: "run_state (State_Monad.return x) st = (x, st)"
  by (simp add: State_Monad.return_def)

lemma run_mp_map_list:
  "run_state (mp_map_list f []) st = ([], st)"
  "run_state (mp_map_list f (x # xs)) st =
     (let (y, st') = run_state (f x) st; (ys, st'') = run_state (mp_map_list f xs) st' in (y # ys, st''))"
  by (simp_all add: mp_run Let_def)

lemmas mp_eval = run_bind run_return run_mp_view run_pool_str run_node_int64 run_node_str_copy
  run_node_map run_node_array run_mp_when run_mp_map_list

section \<open>Bounds of the decoded frame\<close>

text \<open>The values a decoder can yield, and reasoning about them through a sequence of steps.\<close>

definition mp_yields :: "'a mp_dec \<Rightarrow> 'a \<Rightarrow> bool" where
  "mp_yields m x \<longleftrightarrow> (\<exists>st. x = fst (run_state m st))"

definition mp_post :: "'a mp_dec \<Rightarrow> ('a \<Rightarrow> bool) \<Rightarrow> bool" where
  "mp_post m Q \<longleftrightarrow> (\<forall>st. Q (fst (run_state m st)))"

lemma mp_post_bind:
  "(\<And>x. mp_yields m x \<Longrightarrow> mp_post (f x) Q) \<Longrightarrow> mp_post (State_Monad.bind m f) Q"
  by (auto simp: mp_post_def mp_yields_def run_bind split_beta)

lemma mp_post_return: "Q x \<Longrightarrow> mp_post (State_Monad.return x) Q"
  by (simp add: mp_post_def State_Monad.return_def)

lemma mp_post_if: "(b \<Longrightarrow> mp_post m Q) \<Longrightarrow> (\<not> b \<Longrightarrow> mp_post m' Q) \<Longrightarrow> mp_post (if b then m else m') Q"
  by simp

lemmas mp_post_intros = mp_post_bind mp_post_return mp_post_if

lemma mp_yields_post: "mp_post m Q \<Longrightarrow> mp_yields m x \<Longrightarrow> Q x"
  by (auto simp: mp_post_def mp_yields_def)

lemma mp_yields_list:
  "mp_yields (mp_map_list f xs) ys \<Longrightarrow>
     length ys = length xs \<and> (\<forall>y \<in> set ys. \<exists>x. mp_yields (f x) y)"
proof (induction xs arbitrary: ys)
  case Nil
  then show ?case by (simp add: mp_yields_def State_Monad.return_def)
next
  case (Cons x xs)
  have "mp_post (mp_map_list f (x # xs))
      (\<lambda>zs. length zs = length (x # xs) \<and> (\<forall>y \<in> set zs. \<exists>x. mp_yields (f x) y))"
    unfolding mp_map_list.simps
    by (intro mp_post_intros) (use Cons.IH in auto)
  then show ?case using Cons.prems by (rule mp_yields_post)
qed

lemma mp_yields_copy:
  assumes "mp_yields (node_str_copy node key n) s" "0 < n"
  shows "length s < n"
proof -
  have "length (c_string (c_copy n t)) < n" for t
    using length_c_string [of "c_copy n t"] c_copy_fits [OF assms(2), of t] by simp
  then have "mp_post (node_str_copy node key n) (\<lambda>s. length s < n)"
    unfolding node_str_copy_def using assms(2)
    by (intro mp_post_intros) (auto split: mp_node.splits)
  then show ?thesis using assms(1) by (rule mp_yields_post)
qed

lemma decode_presence_mp_bounded: "mp_post (decode_presence_mp node) presence_bounded"
  unfolding decode_presence_mp_def
  by (intro mp_post_intros) (auto simp: presence_bounded_def capacity_defs dest: mp_yields_copy)

lemma decode_details_mp_bounded: "mp_post (decode_conn_details_mp node) details_bounded"
  unfolding decode_conn_details_mp_def
  by (intro mp_post_intros) (auto simp: details_bounded_def capacity_defs dest: mp_yields_copy)

lemma details_when_bounded: "mp_yields (mp_when n no_conn_details decode_conn_details_mp) d \<Longrightarrow> details_bounded d"
  using mp_yields_post [OF decode_details_mp_bounded]
  by (auto simp: mp_when_def mp_yields_def State_Monad.return_def split: option.splits)

lemma decode_frame_mp_post:
  "mp_post (decode_frame_mp tree) (\<lambda>r. \<forall>f. r = Some f \<longrightarrow> frame_bounded f)"
proof -
  have pres: "presence_bounded p"
    if "mp_yields (mp_map_list decode_presence_mp xs) ps" "p \<in> set ps" for xs ps p
    using mp_yields_list [OF that(1)] that(2) mp_yields_post [OF decode_presence_mp_bounded] by blast
  have len: "length ys \<le> n" if "mp_yields (mp_map_list g (take n xs)) ys"
    for g :: "mp_node \<Rightarrow> 'b mp_dec" and n xs ys
    using mp_yields_list [OF that] by simp
  show ?thesis
    unfolding decode_frame_mp_def
    by (intro mp_post_intros)
       (auto simp: frame_bounded_def intro: len pres details_when_bounded
          dest: mp_yields_copy)
qed

end
