(* ===== verification/Ably_Codec.thy ===== *)
theory Ably_Codec
  imports Ably_Json Ably_Msgpack
begin

text \<open>
  The encoding-aware helpers of \<^verbatim>\<open>src/realtime/protocol.h\<close> and the decoding step of
  \<^verbatim>\<open>on_ws_frame\<close>: they choose between the JSON and the MessagePack codec. The libraries behind
  the two codecs are one record of functions.
\<close>

record codec_lib =
  lib_json_print :: "json \<Rightarrow> string option"
  lib_json_parse :: "string \<Rightarrow> json option"
  lib_mp_write :: "nat \<Rightarrow> mp_node \<Rightarrow> string"
  lib_mp_parse :: "string \<Rightarrow> mp_node option"

definition proto_encode_heartbeat :: "codec_lib \<Rightarrow> nat \<Rightarrow> ably_encoding \<Rightarrow> string" where
  "proto_encode_heartbeat lib len enc =
     (case enc of ENCODING_MSGPACK \<Rightarrow> encode_simple_mp (lib_mp_write lib) len ACTION_HEARTBEAT
      | ENCODING_JSON \<Rightarrow> proto_encode_heartbeat_json len)"

definition proto_encode_attach :: "codec_lib \<Rightarrow> nat \<Rightarrow> string \<Rightarrow> attach_params \<Rightarrow> ably_encoding \<Rightarrow> string" where
  "proto_encode_attach lib len channel p enc =
     (case enc of ENCODING_MSGPACK \<Rightarrow> proto_encode_attach_msgpack (lib_mp_write lib) len channel p
      | ENCODING_JSON \<Rightarrow> proto_encode_attach_json (lib_json_print lib) len channel p)"

definition proto_encode_detach :: "codec_lib \<Rightarrow> nat \<Rightarrow> string \<Rightarrow> ably_encoding \<Rightarrow> string" where
  "proto_encode_detach lib len channel enc =
     (case enc of ENCODING_MSGPACK \<Rightarrow> encode_with_channel_mp (lib_mp_write lib) len ACTION_DETACH channel
      | ENCODING_JSON \<Rightarrow> proto_encode_detach_json len channel)"

definition proto_encode_close :: "codec_lib \<Rightarrow> nat \<Rightarrow> ably_encoding \<Rightarrow> string" where
  "proto_encode_close lib len enc =
     (case enc of ENCODING_MSGPACK \<Rightarrow> encode_simple_mp (lib_mp_write lib) len ACTION_CLOSE
      | ENCODING_JSON \<Rightarrow> proto_encode_close_json len)"

definition proto_encode_publish ::
  "codec_lib \<Rightarrow> nat \<Rightarrow> string \<Rightarrow> string option \<Rightarrow> string option \<Rightarrow> string option \<Rightarrow> string option \<Rightarrow>
   int \<Rightarrow> ably_encoding \<Rightarrow> string" where
  "proto_encode_publish lib len channel name data client_id msg_id msg_serial enc =
     (case enc of
        ENCODING_MSGPACK \<Rightarrow> proto_encode_publish_msgpack (lib_mp_write lib) len channel name data
          client_id msg_id msg_serial
      | ENCODING_JSON \<Rightarrow> proto_encode_publish_json (lib_json_print lib) len channel name data
          client_id msg_id msg_serial)"

text \<open>The outbound PRESENCE frame of \<^verbatim>\<open>send_presence\<close> and of the leave and update calls.\<close>

definition proto_encode_presence ::
  "codec_lib \<Rightarrow> nat \<Rightarrow> string \<Rightarrow> ably_presence_action \<Rightarrow> string option \<Rightarrow> string option \<Rightarrow>
   ably_encoding \<Rightarrow> string" where
  "proto_encode_presence lib len channel action client_id data enc =
     (case enc of
        ENCODING_MSGPACK \<Rightarrow> lib_mp_write lib len (presence_mp channel action client_id data)
      | ENCODING_JSON \<Rightarrow> emit_json (lib_json_print lib) len (presence_json channel action client_id data))"

definition proto_decode :: "codec_lib \<Rightarrow> ably_encoding \<Rightarrow> string \<Rightarrow> ably_proto_frame option" where
  "proto_decode lib enc buf =
     (case enc of ENCODING_MSGPACK \<Rightarrow> proto_decode_msgpack (lib_mp_parse lib) buf
      | ENCODING_JSON \<Rightarrow> proto_decode_json (lib_json_parse lib) buf)"

section \<open>Properties\<close>

lemma proto_decode_msgpack_bounded: "proto_decode_msgpack parse buf = Some f \<Longrightarrow> frame_bounded f"
  using decode_frame_mp_post
  by (auto simp: proto_decode_msgpack_def mp_post_def split: option.splits mp_node.splits)

lemma proto_decode_bounded: "proto_decode lib enc buf = Some f \<Longrightarrow> frame_bounded f"
  by (cases enc)
     (auto simp: proto_decode_def dest: proto_decode_json_bounded proto_decode_msgpack_bounded)

text \<open>C29. Whatever bytes arrive and whatever the parsers make of them, a decoded frame respects every
  fixed capacity of the frame struct: 32 messages, 64 presence messages, and serials, presence strings and the two
  strings of the connection details that fit their arrays with the NUL; and the MessagePack decoder never writes past its string pool.\<close>

theorem decoded_frames_bounded:
  "(case proto_decode lib enc buf of None \<Rightarrow> True | Some f \<Rightarrow> frame_bounded f) \<and>
   pool_used (snd (run_state (decode_frame_mp tree) \<lparr>pool_used = 0, tree_error = False\<rparr>)) \<le>
     ABLY_PROTO_STRING_POOL_SIZE"
  using proto_decode_bounded pool_safe_frame [of tree]
  by (auto simp: pool_safe_def split: option.splits)

text \<open>Over MessagePack a payload that does not fit the 4096-byte string pool is silently lost: the
  frame decodes without error and the message is delivered with no data, although payloads of up to
  32 KB are accepted when publishing and survive over JSON.\<close>

theorem msgpack_large_payload_lost:
  assumes "length channel < 256" "4096 \<le> length d"
    and "parse buf = Some (publish_mp channel None (Some d) None None 0)"
  shows "\<exists>f m. proto_decode_msgpack parse buf = Some f \<and> pf_action f = ACTION_MESSAGE \<and>
    pf_messages f = [m] \<and> prm_data m = None"
proof -
  let ?t = "publish_mp channel None (Some d) None None 0"
  let ?m = "message_mp None None (Some d) None"
  have act: "c_int 15 = 15" "action_of_int 15 = ACTION_MESSAGE"
    by (simp_all add: c_int_def action_of_int_def known_actions_def)
  have child: "mp_child ?t key st = (if key = ''action'' then MP_Int 15 else if key = ''msgSerial'' then MP_Int 0
      else if key = ''channel'' then MP_Str channel else if key = ''messages'' then MP_Array [?m] else MP_Nil, st)"
    if "\<not> tree_error st" for key st
    using that by (simp add: mp_child_def run_mp_get publish_mp_def mp_field_def)
  have field: "mp_child ?m key st = (if key = ''data'' then MP_Str d else MP_Nil, st)"
    if "\<not> tree_error st" for key st
    using that by (simp add: mp_child_def run_mp_get message_mp_def mp_opt_def mp_field_def)
  have "\<exists>m. run_state (decode_message_mp ?m) st = (m, st) \<and> prm_data m = None"
    if "\<not> tree_error st" for st
  proof -
    have "4096 - pool_used st < Suc (length d)" using assms(2) by simp
    then show ?thesis using that unfolding decode_message_mp_def
      by (simp add: mp_eval field ABLY_PROTO_STRING_POOL_SIZE_def)
  qed
  then obtain msg where msg: "\<And>st. \<not> tree_error st \<Longrightarrow>
      run_state (decode_message_mp ?m) st = (msg st, st) \<and> prm_data (msg st) = None"
    by metis
  obtain kvs where kvs: "?t = MP_Map kvs" by (simp add: publish_mp_def)
  show ?thesis
    unfolding proto_decode_msgpack_def assms(3) kvs option.case mp_node.case decode_frame_mp_def
    using assms(1) msg act
    by (simp add: mp_eval child [unfolded kvs] ABLY_PROTO_STRING_POOL_SIZE_def DECODE_MSGS_CAP_def)
qed

lemma msgpack_large_payload_lost_witness:
  "\<exists>f m. proto_decode_msgpack (\<lambda>_. Some (publish_mp ''room'' None (Some (replicate 5000 CHR ''x'')) None None 0))
      ''wire'' = Some f \<and> pf_action f = ACTION_MESSAGE \<and> pf_messages f = [m] \<and> prm_data m = None"
  by (rule msgpack_large_payload_lost [of "''room''" "replicate 5000 CHR ''x''"]) simp_all

end
