(* ===== verification/Ably_Core.thy ===== *)
theory Ably_Core
  imports Ably_Ring Ably_Codec
begin

text \<open>
  The part of \<^verbatim>\<open>struct ably_rt_client_s\<close> that channels and presence work on: connection state,
  outbound ring, message serial, encoding and identity, with \<^verbatim>\<open>rt_enqueue_frame\<close>,
  \<^verbatim>\<open>rt_claim_msg_serial\<close>, \<^verbatim>\<open>ring_peek\<close> and \<^verbatim>\<open>ring_consume\<close> of \<^verbatim>\<open>realtime_client.c\<close>. The whole client
  (theory \<open>Ably_Realtime\<close>) extends this record, so every operation here works on both.

  An operation is the effect it has between taking and releasing the mutexes; those are the subject of the
  theories \<open>Ably_Locks\<close> and \<open>Ably_Publish_Race\<close>.
\<close>

record rt_core =
  rc_state :: ably_connection_state
  rc_send_ring :: "string ring"
  rc_msg_serial :: int
  rc_encoding :: ably_encoding
  rc_client_id :: string
  rc_api_key :: string

definition ABLY_FRAME_PAYLOAD_MAX :: nat where "ABLY_FRAME_PAYLOAD_MAX = 64 * 1024"

text \<open>The wire frames waiting in the ring, oldest first. \<^verbatim>\<open>rt_enqueue_frame\<close> asserts that a frame is shorter than
  \<^verbatim>\<open>ABLY_FRAME_PAYLOAD_MAX\<close>; its callers pass what an encoder put into a buffer of at most \<^verbatim>\<open>PUBLISH_BUF\<close> + 128
  bytes, which is less (lemma \<open>Ably_Publish_Race.race_frame_fits\<close>), so the assertion is not modelled.\<close>

definition rc_pending_frames :: "'x rt_core_scheme \<Rightarrow> string list" where
  "rc_pending_frames c = ring_list ABLY_SEND_RING_CAPACITY (rc_send_ring c)"

definition rt_enqueue_frame :: "string \<Rightarrow> 'x rt_core_scheme \<Rightarrow> ably_error \<times> 'x rt_core_scheme" where
  "rt_enqueue_frame payload c =
     (case ring_enqueue ABLY_SEND_RING_CAPACITY payload (rc_send_ring c) of
        None \<Rightarrow> (ABLY_ERR_CAPACITY, c)
      | Some r \<Rightarrow> (ABLY_OK, c\<lparr>rc_send_ring := r\<rparr>))"

definition rt_claim_msg_serial :: "'x rt_core_scheme \<Rightarrow> int \<times> 'x rt_core_scheme" where
  "rt_claim_msg_serial c = (rc_msg_serial c, c\<lparr>rc_msg_serial := rc_msg_serial c + 1\<rparr>)"

text \<open>The drain step of the event loop: the frame taken off the ring, if any.\<close>

definition rt_drain_one :: "'x rt_core_scheme \<Rightarrow> string option \<times> 'x rt_core_scheme" where
  "rt_drain_one c =
     (case ring_peek (rc_send_ring c) of
        None \<Rightarrow> (None, c)
      | Some payload \<Rightarrow>
          (Some payload, c\<lparr>rc_send_ring := ring_consume ABLY_SEND_RING_CAPACITY (rc_send_ring c)\<rparr>))"

definition core_inv :: "'x rt_core_scheme \<Rightarrow> bool" where
  "core_inv c \<longleftrightarrow> ring_inv ABLY_SEND_RING_CAPACITY (rc_send_ring c)"

lemma rt_enqueue_frame_frame [frame_simps]:
  "rc_state (snd (rt_enqueue_frame p c)) = rc_state c"
  "rc_msg_serial (snd (rt_enqueue_frame p c)) = rc_msg_serial c"
  "rc_encoding (snd (rt_enqueue_frame p c)) = rc_encoding c"
  "rc_client_id (snd (rt_enqueue_frame p c)) = rc_client_id c"
  by (simp_all add: rt_enqueue_frame_def split: option.splits)

lemma rt_enqueue_frame_inv [inv_rules]: "core_inv c \<Longrightarrow> core_inv (snd (rt_enqueue_frame p c))"
  by (auto simp: rt_enqueue_frame_def core_inv_def dest: send_ring.enq_inv split: option.splits)

lemma rt_enqueue_frame_spec:
  assumes "core_inv c"
  shows "rt_enqueue_frame p c =
      (if length (rc_pending_frames c) = 255 then (ABLY_ERR_CAPACITY, c)
       else (ABLY_OK, snd (rt_enqueue_frame p c)))"
    and "rc_pending_frames (snd (rt_enqueue_frame p c)) =
      (if length (rc_pending_frames c) = 255 then rc_pending_frames c else rc_pending_frames c @ [p])"
  using send_ring.enq_full [of "rc_send_ring c" p] send_ring.enq_contents [of "rc_send_ring c" p] assms
  by (auto simp: core_inv_def rt_enqueue_frame_def rc_pending_frames_def ABLY_SEND_RING_CAPACITY_def
      split: option.splits)

lemma rt_drain_one_spec:
  assumes "core_inv c"
  shows "rt_drain_one c = (case rc_pending_frames c of [] \<Rightarrow> (None, c)
      | p # ps \<Rightarrow> (Some p, snd (rt_drain_one c)))"
    and "rc_pending_frames (snd (rt_drain_one c)) = tl (rc_pending_frames c)"
    and "core_inv (snd (rt_drain_one c))"
  using send_ring.peek_contents [of "rc_send_ring c"] send_ring.consume_contents [of "rc_send_ring c"]
    send_ring.consume_inv [of "rc_send_ring c"] assms
  by (auto simp: core_inv_def rt_drain_one_def rc_pending_frames_def split: option.splits list.splits)

end
