(* ===== verification/Ably_Presence.thy ===== *)
theory Ably_Presence
  imports Ably_Hashmap Ably_Core
begin

text \<open>
  \<^verbatim>\<open>src/realtime/presence.c\<close>: the member set of a channel, a pool of 128 entries indexed by the hash
  map of theory \<open>Ably_Hashmap\<close> (key the client id, value the pool index, for the pointer), the SYNC
  state machine, the presence subscribers and re-entry.

  Callbacks are named by numbers. A subscriber notification is an event \<open>(callback, message)\<close>; the
  handlers return the events in the order in which the callbacks are called. What a callback does in
  turn is not part of the step.
\<close>

section \<open>State\<close>

definition ABLY_MAX_PRESENCE_SUBSCRIBERS :: nat where "ABLY_MAX_PRESENCE_SUBSCRIBERS = 16"

record presence_member =
  mem_msg :: ably_presence_message
  mem_in_use :: bool
  mem_stale :: bool

record presence_sub =
  psub_cb :: "nat option"
  psub_token :: int

record presence_state =
  ps_pool :: "presence_member list"
  ps_map :: "nat hashmap"
  ps_syncing :: bool
  ps_own_client_id :: string
  ps_own_data :: string
  ps_own_entered :: bool
  ps_subs :: "presence_sub list"
  ps_sub_count :: int
  ps_next_token :: int

type_synonym presence_event = "nat \<times> ably_presence_message"

definition zero_presence_message :: ably_presence_message where
  "zero_presence_message = \<lparr>pm_action = PRESENCE_ABSENT, pm_client_id = [], pm_connection_id = [],
     pm_data = [], pm_timestamp = 0\<rparr>"

definition zero_member :: presence_member where
  "zero_member = \<lparr>mem_msg = zero_presence_message, mem_in_use = False, mem_stale = False\<rparr>"

definition no_sub :: presence_sub where
  "no_sub = \<lparr>psub_cb = None, psub_token = 0\<rparr>"

definition presence_init :: presence_state where
  "presence_init =
     \<lparr>ps_pool = replicate ABLY_MAX_PRESENCE_MEMBERS zero_member,
      ps_map = hashmap_init ABLY_MAX_PRESENCE_MEMBERS, ps_syncing = False, ps_own_client_id = [],
      ps_own_data = [], ps_own_entered = False,
      ps_subs = replicate ABLY_MAX_PRESENCE_SUBSCRIBERS no_sub, ps_sub_count = 0, ps_next_token = 1\<rparr>"

section \<open>Pool, members and subscribers\<close>

definition pool_alloc :: "presence_state \<Rightarrow> (nat \<times> presence_state) option" where
  "pool_alloc ps =
     (case first_index (\<lambda>m. \<not> mem_in_use m) (ps_pool ps) of
        None \<Rightarrow> None
      | Some i \<Rightarrow> Some (i, ps\<lparr>ps_pool := (ps_pool ps)[i := zero_member\<lparr>mem_in_use := True\<rparr>]\<rparr>))"

definition pool_free :: "nat \<Rightarrow> presence_state \<Rightarrow> presence_state" where
  "pool_free i ps = ps\<lparr>ps_pool := (ps_pool ps)[i := (ps_pool ps ! i)\<lparr>mem_in_use := False\<rparr>]\<rparr>"

definition notify_subscribers :: "presence_state \<Rightarrow> ably_presence_message \<Rightarrow> presence_event list" where
  "notify_subscribers ps msg =
     concat (map (\<lambda>s. case psub_cb s of None \<Rightarrow> []
        | Some cb \<Rightarrow> if 0 < psub_token s then [(cb, msg)] else []) (ps_subs ps))"

definition upsert_member :: "ably_presence_message \<Rightarrow> bool \<Rightarrow> presence_state \<Rightarrow> presence_state" where
  "upsert_member msg clear_stale ps =
     (case hashmap_get (ps_map ps) (pm_client_id msg) of
        Some i \<Rightarrow>
          let m = (ps_pool ps ! i)\<lparr>mem_msg := msg\<rparr>;
              m = (if clear_stale then m\<lparr>mem_stale := False\<rparr> else m)
          in ps\<lparr>ps_pool := (ps_pool ps)[i := m]\<rparr>
      | None \<Rightarrow>
          (case pool_alloc ps of
             None \<Rightarrow> ps
           | Some (i, ps1) \<Rightarrow>
               let ps2 = ps1\<lparr>ps_pool := (ps_pool ps1)[i :=
                     (ps_pool ps1 ! i)\<lparr>mem_msg := msg, mem_stale := False\<rparr>]\<rparr>
               in case hashmap_put (ps_map ps2) (pm_client_id msg) i of
                    None \<Rightarrow> pool_free i ps2
                  | Some map' \<Rightarrow> ps2\<lparr>ps_map := map'\<rparr>))"

definition remove_member :: "ably_presence_message \<Rightarrow> presence_state \<Rightarrow> presence_state" where
  "remove_member msg ps =
     (case hashmap_get (ps_map ps) (pm_client_id msg) of
        None \<Rightarrow> ps
      | Some i \<Rightarrow>
          (pool_free i ps)\<lparr>ps_map := fst (hashmap_remove (ps_map ps) (pm_client_id msg))\<rparr>)"

section \<open>SYNC\<close>

definition begin_sync :: "presence_state \<Rightarrow> presence_state" where
  "begin_sync ps = ps\<lparr>ps_pool := map (\<lambda>m. if mem_in_use m \<and> pm_action (mem_msg m) = PRESENCE_PRESENT
       then m\<lparr>mem_stale := True\<rparr> else m) (ps_pool ps), ps_syncing := True\<rparr>"

text \<open>One index of the loop of \<^verbatim>\<open>end_sync\<close>: a stale member leaves.\<close>

definition end_sync_at ::
  "nat \<Rightarrow> presence_state \<times> presence_event list \<Rightarrow> presence_state \<times> presence_event list" where
  "end_sync_at i = (\<lambda>(ps, ev).
     let m = ps_pool ps ! i
     in if mem_in_use m \<and> mem_stale m then
          let leave = (mem_msg m)\<lparr>pm_action := PRESENCE_LEAVE\<rparr>;
              ps1 = pool_free i ps;
              ps2 = ps1\<lparr>ps_map := fst (hashmap_remove (ps_map ps1) (pm_client_id leave))\<rparr>
          in (ps2, ev @ notify_subscribers ps2 leave)
        else (ps, ev))"

definition end_sync :: "presence_state \<Rightarrow> presence_state \<times> presence_event list" where
  "end_sync ps =
     (let (ps', ev) = fold end_sync_at [0..<ABLY_MAX_PRESENCE_MEMBERS] (ps, [])
      in (ps'\<lparr>ps_syncing := False\<rparr>, ev))"

section \<open>Frame handlers\<close>

definition handle_presence ::
  "ably_presence_message \<Rightarrow> presence_state \<times> presence_event list \<Rightarrow>
   presence_state \<times> presence_event list" where
  "handle_presence msg = (\<lambda>(ps, ev).
     if pm_action msg \<in> {PRESENCE_ENTER, PRESENCE_PRESENT, PRESENCE_UPDATE} then
       let ps' = upsert_member (msg\<lparr>pm_action := PRESENCE_PRESENT\<rparr>) True ps
       in (ps', ev @ notify_subscribers ps' msg)
     else if pm_action msg \<in> {PRESENCE_ABSENT, PRESENCE_LEAVE} then
       let ps' = remove_member msg ps in (ps', ev @ notify_subscribers ps' msg)
     else (ps, ev))"

definition presence_handle_message ::
  "ably_proto_frame \<Rightarrow> presence_state \<Rightarrow> presence_state \<times> presence_event list" where
  "presence_handle_message frame ps = fold handle_presence (pf_presence_msgs frame) (ps, [])"

definition sync_member ::
  "ably_presence_message \<Rightarrow> presence_state \<times> presence_event list \<Rightarrow>
   presence_state \<times> presence_event list" where
  "sync_member msg = (\<lambda>(ps, ev).
     let ps' = upsert_member (msg\<lparr>pm_action := PRESENCE_PRESENT\<rparr>) True ps
     in (ps', ev @ notify_subscribers ps' msg))"

text \<open>The cursor test: more pages follow when a non-empty cursor follows the first colon.\<close>

definition is_last_page :: "string \<Rightarrow> bool" where
  "is_last_page serial =
     (case find_char (CHR '':'') serial of None \<Rightarrow> True | Some i \<Rightarrow> drop (i + 1) serial = [])"

definition presence_handle_sync ::
  "ably_proto_frame \<Rightarrow> presence_state \<Rightarrow> presence_state \<times> presence_event list" where
  "presence_handle_sync frame ps =
     (let ps1 = (if ps_syncing ps then ps else begin_sync ps);
          (ps2, ev) = fold sync_member (pf_presence_msgs frame) (ps1, [])
      in if is_last_page (pf_sync_serial frame)
         then let (ps3, ev') = end_sync ps2 in (ps3, ev @ ev')
         else (ps2, ev))"

section \<open>Own presence and the public calls\<close>

definition PRESENCE_BUF :: nat where
  "PRESENCE_BUF = ABLY_MAX_CHANNEL_NAME_LEN + ABLY_MAX_CLIENT_ID_LEN + ABLY_MAX_MESSAGE_DATA_LEN + 128"

definition send_presence ::
  "codec_lib \<Rightarrow> string \<Rightarrow> ably_presence_action \<Rightarrow> string option \<Rightarrow> string option \<Rightarrow>
   'x rt_core_scheme \<Rightarrow> ably_error \<times> 'x rt_core_scheme" where
  "send_presence lib channel action client_id data c =
     (let buf = proto_encode_presence lib PRESENCE_BUF channel action client_id data (rc_encoding c)
      in if buf = [] then (ABLY_ERR_INTERNAL, c) else rt_enqueue_frame buf c)"

definition presence_reenter_own ::
  "codec_lib \<Rightarrow> string \<Rightarrow> presence_state \<Rightarrow> 'x rt_core_scheme \<Rightarrow> 'x rt_core_scheme" where
  "presence_reenter_own lib channel ps c =
     (if \<not> ps_own_entered ps \<or> ps_own_client_id ps = [] then c
      else snd (send_presence lib channel PRESENCE_ENTER (Some (ps_own_client_id ps))
             (Some (ps_own_data ps)) c))"

text \<open>Tokens are C \<^verbatim>\<open>int\<close>s; the counter is reset to 1 when the increment is not positive. The increment
  of the largest \<^verbatim>\<open>int\<close> wraps, as compilers do for the test that follows it.\<close>

definition next_token :: "int \<Rightarrow> int" where
  "next_token t = (let n = c_int (t + 1) in if n \<le> 0 then 1 else n)"

definition presence_subscribe :: "nat \<Rightarrow> presence_state \<Rightarrow> int \<times> presence_state" where
  "presence_subscribe cb ps =
     (case first_index (\<lambda>s. psub_token s = 0) (ps_subs ps) of
        None \<Rightarrow> (0, ps)
      | Some i \<Rightarrow>
          (ps_next_token ps,
           ps\<lparr>ps_next_token := next_token (ps_next_token ps),
              ps_subs := (ps_subs ps)[i := \<lparr>psub_cb = Some cb, psub_token = ps_next_token ps\<rparr>],
              ps_sub_count := ps_sub_count ps + 1\<rparr>))"

definition presence_unsubscribe :: "int \<Rightarrow> presence_state \<Rightarrow> presence_state" where
  "presence_unsubscribe token ps =
     (if token \<le> 0 then ps
      else case first_index (\<lambda>s. psub_token s = token) (ps_subs ps) of
        None \<Rightarrow> ps
      | Some i \<Rightarrow> ps\<lparr>ps_subs := (ps_subs ps)[i := no_sub], ps_sub_count := ps_sub_count ps - 1\<rparr>)"

text \<open>The members written to the caller's array of the given size, and the total.\<close>

definition present_members :: "presence_state \<Rightarrow> ably_presence_message list" where
  "present_members ps = map mem_msg (filter (\<lambda>m. mem_in_use m \<and> pm_action (mem_msg m) = PRESENCE_PRESENT)
     (take ABLY_MAX_PRESENCE_MEMBERS (ps_pool ps)))"

definition presence_get_members :: "nat option \<Rightarrow> presence_state \<Rightarrow> ably_presence_message list \<times> nat" where
  "presence_get_members out_max ps =
     (case out_max of None \<Rightarrow> [] | Some n \<Rightarrow> take n (present_members ps), length (present_members ps))"

section \<open>The invariant and the abstract member set\<close>

text \<open>Pool and map agree: the map sends a client id to the pool entry in use for it, and every entry in
  use is in the map, is PRESENT and carries a client id that fits its buffer.\<close>

definition pres_inv :: "presence_state \<Rightarrow> bool" where
  "pres_inv ps \<longleftrightarrow>
     length (ps_pool ps) = ABLY_MAX_PRESENCE_MEMBERS \<and> hm_inv (ps_map ps) \<and>
     hm_capacity (ps_map ps) = ABLY_MAX_PRESENCE_MEMBERS \<and>
     (\<forall>k i. hm_abs (ps_map ps) k = Some i \<longrightarrow> i < ABLY_MAX_PRESENCE_MEMBERS \<and>
        mem_in_use (ps_pool ps ! i) \<and> pm_client_id (mem_msg (ps_pool ps ! i)) = k) \<and>
     (\<forall>i < ABLY_MAX_PRESENCE_MEMBERS. mem_in_use (ps_pool ps ! i) \<longrightarrow>
        hm_abs (ps_map ps) (pm_client_id (mem_msg (ps_pool ps ! i))) = Some i \<and>
        hm_key_ok (pm_client_id (mem_msg (ps_pool ps ! i))) \<and>
        pm_action (mem_msg (ps_pool ps ! i)) = PRESENCE_PRESENT)"

text \<open>The abstract state: client id to member and whether it is stale.\<close>

type_synonym member_map = "string \<rightharpoonup> ably_presence_message \<times> bool"

definition pres_members :: "presence_state \<Rightarrow> member_map" where
  "pres_members ps k = map_option (\<lambda>i. (mem_msg (ps_pool ps ! i), mem_stale (ps_pool ps ! i)))
     (hm_abs (ps_map ps) k)"

text \<open>The abstract operations: the member set of a channel has no limit. What the code does is \<open>limited_handle\<close>,
  which refuses a new member once 96 are known, because the hash map takes three quarters of 128 keys.\<close>

definition spec_handle :: "ably_presence_message \<Rightarrow> member_map \<Rightarrow> member_map" where
  "spec_handle msg M =
     (if pm_action msg \<in> {PRESENCE_ENTER, PRESENCE_PRESENT, PRESENCE_UPDATE}
      then M(pm_client_id msg \<mapsto> (msg\<lparr>pm_action := PRESENCE_PRESENT\<rparr>, False))
      else if pm_action msg \<in> {PRESENCE_ABSENT, PRESENCE_LEAVE} then M(pm_client_id msg := None) else M)"

definition limited_upsert :: "ably_presence_message \<Rightarrow> member_map \<Rightarrow> member_map" where
  "limited_upsert msg M =
     (if pm_client_id msg \<in> dom M \<or> card (dom M) < 96 then M(pm_client_id msg \<mapsto> (msg, False)) else M)"

definition spec_begin :: "member_map \<Rightarrow> member_map" where
  "spec_begin M k = map_option (\<lambda>(m, _). (m, True)) (M k)"

definition spec_end :: "member_map \<Rightarrow> member_map" where
  "spec_end M k = (case M k of Some (m, False) \<Rightarrow> Some (m, False) | _ \<Rightarrow> None)"

definition limited_handle :: "ably_presence_message \<Rightarrow> member_map \<Rightarrow> member_map" where
  "limited_handle msg M =
     (if pm_action msg \<in> {PRESENCE_ENTER, PRESENCE_PRESENT, PRESENCE_UPDATE}
      then limited_upsert (msg\<lparr>pm_action := PRESENCE_PRESENT\<rparr>) M
      else if pm_action msg \<in> {PRESENCE_ABSENT, PRESENCE_LEAVE} then M(pm_client_id msg := None) else M)"

lemma pres_invI:
  assumes "length (ps_pool ps) = ABLY_MAX_PRESENCE_MEMBERS" "hm_inv (ps_map ps)"
    "hm_capacity (ps_map ps) = ABLY_MAX_PRESENCE_MEMBERS"
    "\<And>k i. hm_abs (ps_map ps) k = Some i \<Longrightarrow> i < ABLY_MAX_PRESENCE_MEMBERS \<and>
       mem_in_use (ps_pool ps ! i) \<and> pm_client_id (mem_msg (ps_pool ps ! i)) = k"
    "\<And>i. i < ABLY_MAX_PRESENCE_MEMBERS \<Longrightarrow> mem_in_use (ps_pool ps ! i) \<Longrightarrow>
       hm_abs (ps_map ps) (pm_client_id (mem_msg (ps_pool ps ! i))) = Some i \<and>
       hm_key_ok (pm_client_id (mem_msg (ps_pool ps ! i))) \<and>
       pm_action (mem_msg (ps_pool ps ! i)) = PRESENCE_PRESENT"
  shows "pres_inv ps"
  unfolding pres_inv_def using assms by blast

lemma pres_inv_map:
  assumes "pres_inv ps" "hm_abs (ps_map ps) k = Some i"
  shows "i < ABLY_MAX_PRESENCE_MEMBERS" "mem_in_use (ps_pool ps ! i)"
    "pm_client_id (mem_msg (ps_pool ps ! i)) = k" "hm_key_ok k"
proof -
  show 1: "i < ABLY_MAX_PRESENCE_MEMBERS" "mem_in_use (ps_pool ps ! i)"
    "pm_client_id (mem_msg (ps_pool ps ! i)) = k"
    using assms by (simp_all add: pres_inv_def)
  then show "hm_key_ok k" using assms(1) unfolding pres_inv_def by blast
qed

lemma pres_inv_pool:
  assumes "pres_inv ps" "i < ABLY_MAX_PRESENCE_MEMBERS" "mem_in_use (ps_pool ps ! i)"
  shows "hm_abs (ps_map ps) (pm_client_id (mem_msg (ps_pool ps ! i))) = Some i"
    "hm_key_ok (pm_client_id (mem_msg (ps_pool ps ! i)))"
    "pm_action (mem_msg (ps_pool ps ! i)) = PRESENCE_PRESENT"
  using assms by (simp_all add: pres_inv_def)

lemma pres_inv_sizes:
  assumes "pres_inv ps"
  shows "length (ps_pool ps) = ABLY_MAX_PRESENCE_MEMBERS" "hm_inv (ps_map ps)"
    "hm_capacity (ps_map ps) = ABLY_MAX_PRESENCE_MEMBERS"
  using assms by (simp_all add: pres_inv_def)

lemma dom_pres_members: "dom (pres_members ps) = dom (hm_abs (ps_map ps))"
  by (auto simp: pres_members_def dom_def)

lemma card_pres_members: "pres_inv ps \<Longrightarrow> card (dom (pres_members ps)) = hm_count (ps_map ps)"
  by (simp add: dom_pres_members card_dom_hm_abs pres_inv_sizes)

lemma pres_room: "pres_inv ps \<Longrightarrow> hm_room (ps_map ps) \<longleftrightarrow> card (dom (pres_members ps)) < 96"
  by (simp add: hm_room_def card_pres_members pres_inv_sizes ABLY_MAX_PRESENCE_MEMBERS_def)

lemma pres_init_inv [inv_rules]: "pres_inv presence_init"
proof -
  have "hm_inv (hashmap_init 128 :: nat hashmap)" using hashmap_init_inv [of 7] by simp
  moreover have "hm_capacity (hashmap_init 128 :: nat hashmap) = 128" by (simp add: hashmap_init_def)
  ultimately show ?thesis
    by (simp add: pres_inv_def presence_init_def hashmap_init_abs zero_member_def
        ABLY_MAX_PRESENCE_MEMBERS_def)
qed

lemma pres_members_init: "pres_members presence_init = Map.empty"
  by (rule ext) (simp add: pres_members_def presence_init_def hashmap_init_abs)

text \<open>The pool is never full while the map has room: every entry in use has its own key.\<close>

lemma pool_has_free:
  assumes inv: "pres_inv ps" and room: "hm_room (ps_map ps)"
  shows "\<exists>i. first_index (\<lambda>m. \<not> mem_in_use m) (ps_pool ps) = Some i"
proof (rule ccontr)
  assume "\<not> ?thesis"
  then have "first_index (\<lambda>m. \<not> mem_in_use m) (ps_pool ps) = None" by simp
  then have all: "mem_in_use (ps_pool ps ! i)" if "i < 128" for i
    using that pres_inv_sizes(1) [OF inv] by (auto simp: first_index_None ABLY_MAX_PRESENCE_MEMBERS_def)
  define key where "key i = pm_client_id (mem_msg (ps_pool ps ! i))" for i
  have k: "hm_abs (ps_map ps) (key i) = Some i" if "i < 128" for i
    using pres_inv_pool(1) [OF inv _ all] that by (simp add: key_def ABLY_MAX_PRESENCE_MEMBERS_def)
  have "inj_on key {..<128}"
    by (rule inj_onI) (metis k lessThan_iff option.inject)
  then have "card (key ` {..<128}) = 128" by (simp add: card_image)
  moreover have "key ` {..<128} \<subseteq> dom (hm_abs (ps_map ps))" using k by auto
  moreover have "finite (dom (hm_abs (ps_map ps)))" by (rule finite_dom_hm_abs)
  ultimately have "128 \<le> card (dom (hm_abs (ps_map ps)))" by (metis card_mono)
  then show False using pres_room [OF inv] room by (simp add: dom_pres_members)
qed

section \<open>Members against the abstract set\<close>

text \<open>The parts of the state that member operations leave alone.\<close>

definition same_rest :: "presence_state \<Rightarrow> presence_state \<Rightarrow> bool" where
  "same_rest ps ps' \<longleftrightarrow> ps_subs ps' = ps_subs ps \<and> ps_own_entered ps' = ps_own_entered ps \<and>
     ps_own_client_id ps' = ps_own_client_id ps \<and> ps_own_data ps' = ps_own_data ps \<and>
     ps_next_token ps' = ps_next_token ps \<and> ps_sub_count ps' = ps_sub_count ps"

lemma same_rest_trans: "same_rest a b \<Longrightarrow> same_rest b c \<Longrightarrow> same_rest a c"
  by (simp add: same_rest_def)

lemma notify_same_rest: "same_rest ps ps' \<Longrightarrow> notify_subscribers ps' = notify_subscribers ps"
  by (rule ext) (simp add: same_rest_def notify_subscribers_def)

text \<open>A pool and a map that agree, whatever the rest of the state.\<close>

lemma pool_update_refines:
  assumes inv: "pres_inv ps" and at: "hm_abs (ps_map ps) (pm_client_id msg) = Some i"
    and act: "pm_action msg = PRESENCE_PRESENT"
    and m: "mem_in_use m" "mem_msg m = msg" "\<not> mem_stale m"
  shows "pres_inv (ps\<lparr>ps_pool := (ps_pool ps)[i := m]\<rparr>)"
    "pres_members (ps\<lparr>ps_pool := (ps_pool ps)[i := m]\<rparr>) =
      (pres_members ps)(pm_client_id msg \<mapsto> (msg, False))"
proof -
  note i = pres_inv_map [OF inv at]
  have nth: "(ps_pool ps)[i := m] ! j = (if j = i then m else ps_pool ps ! j)" for j
    using i(1) pres_inv_sizes(1) [OF inv] by (simp add: nth_list_update)
  have key: "pm_client_id msg = k" if "hm_abs (ps_map ps) k = Some i" for k
    using pres_inv_map(3) [OF inv that] i(3) by simp
  show "pres_inv (ps\<lparr>ps_pool := (ps_pool ps)[i := m]\<rparr>)"
  proof (rule pres_invI)
    fix k j
    assume "hm_abs (ps_map (ps\<lparr>ps_pool := (ps_pool ps)[i := m]\<rparr>)) k = Some j"
    then have j: "hm_abs (ps_map ps) k = Some j" by simp
    show "j < ABLY_MAX_PRESENCE_MEMBERS \<and>
      mem_in_use (ps_pool (ps\<lparr>ps_pool := (ps_pool ps)[i := m]\<rparr>) ! j) \<and>
      pm_client_id (mem_msg (ps_pool (ps\<lparr>ps_pool := (ps_pool ps)[i := m]\<rparr>) ! j)) = k"
      using pres_inv_map [OF inv j] key [of k] j m by (simp add: nth)
  next
    fix j
    assume "j < ABLY_MAX_PRESENCE_MEMBERS"
      "mem_in_use (ps_pool (ps\<lparr>ps_pool := (ps_pool ps)[i := m]\<rparr>) ! j)"
    then show "hm_abs (ps_map (ps\<lparr>ps_pool := (ps_pool ps)[i := m]\<rparr>))
        (pm_client_id (mem_msg (ps_pool (ps\<lparr>ps_pool := (ps_pool ps)[i := m]\<rparr>) ! j))) = Some j \<and>
      hm_key_ok (pm_client_id (mem_msg (ps_pool (ps\<lparr>ps_pool := (ps_pool ps)[i := m]\<rparr>) ! j))) \<and>
      pm_action (mem_msg (ps_pool (ps\<lparr>ps_pool := (ps_pool ps)[i := m]\<rparr>) ! j)) = PRESENCE_PRESENT"
      using pres_inv_pool [OF inv, of j] at act i(4) m by (simp add: nth split: if_splits)
  qed (use pres_inv_sizes [OF inv] in simp_all)
  show "pres_members (ps\<lparr>ps_pool := (ps_pool ps)[i := m]\<rparr>) =
      (pres_members ps)(pm_client_id msg \<mapsto> (msg, False))"
  proof (rule ext)
    fix k
    show "pres_members (ps\<lparr>ps_pool := (ps_pool ps)[i := m]\<rparr>) k =
        ((pres_members ps)(pm_client_id msg \<mapsto> (msg, False))) k"
      using at pres_inv_map(3) [OF inv, of k] i(3)
      by (cases "hm_abs (ps_map ps) k") (auto simp: pres_members_def nth m)
  qed
qed

lemma pool_insert_refines:
  assumes inv: "pres_inv ps" and new: "hm_abs (ps_map ps) (pm_client_id msg) = None"
    and act: "pm_action msg = PRESENCE_PRESENT" and ok: "hm_key_ok (pm_client_id msg)"
    and i: "i < ABLY_MAX_PRESENCE_MEMBERS" "\<not> mem_in_use (ps_pool ps ! i)"
    and m: "mem_in_use m" "mem_msg m = msg" "\<not> mem_stale m"
    and put: "hashmap_put (ps_map ps) (pm_client_id msg) i = Some mp"
  shows "pres_inv (ps\<lparr>ps_pool := (ps_pool ps)[i := m], ps_map := mp\<rparr>)"
    "pres_members (ps\<lparr>ps_pool := (ps_pool ps)[i := m], ps_map := mp\<rparr>) =
      (pres_members ps)(pm_client_id msg \<mapsto> (msg, False))"
proof -
  have mp: "hm_inv mp" "hm_abs mp = (hm_abs (ps_map ps))(pm_client_id msg \<mapsto> i)"
    "hm_capacity mp = ABLY_MAX_PRESENCE_MEMBERS"
    using hm.put_Some [OF pres_inv_sizes(2) [OF inv] ok put] hm_capacity_put [OF put]
      pres_inv_sizes(3) [OF inv] by auto
  have other: "j \<noteq> i" if "hm_abs (ps_map ps) k = Some j" for j k
    using pres_inv_map(2) [OF inv that] i(2) by blast
  have nth: "(ps_pool ps)[i := m] ! j = (if j = i then m else ps_pool ps ! j)" for j
    using i(1) pres_inv_sizes(1) [OF inv] by (simp add: nth_list_update)
  have c: "pm_client_id (mem_msg (ps_pool ps ! j)) \<noteq> pm_client_id msg"
    if "j < ABLY_MAX_PRESENCE_MEMBERS" "mem_in_use (ps_pool ps ! j)" for j
    using pres_inv_pool(1) [OF inv that] new by auto
  show "pres_inv (ps\<lparr>ps_pool := (ps_pool ps)[i := m], ps_map := mp\<rparr>)"
    unfolding pres_inv_def
    using pres_inv_sizes(1) [OF inv] mp ok act i(1) m other c
      pres_inv_map [OF inv] pres_inv_pool [OF inv]
    by (auto simp: nth)
  show "pres_members (ps\<lparr>ps_pool := (ps_pool ps)[i := m], ps_map := mp\<rparr>) =
      (pres_members ps)(pm_client_id msg \<mapsto> (msg, False))"
  proof (rule ext)
    fix k
    show "pres_members (ps\<lparr>ps_pool := (ps_pool ps)[i := m], ps_map := mp\<rparr>) k =
        ((pres_members ps)(pm_client_id msg \<mapsto> (msg, False))) k"
      using other [of k] m by (cases "hm_abs (ps_map ps) k") (auto simp: pres_members_def nth mp(2))
  qed
qed

text \<open>Changing an entry that is not in use is invisible.\<close>

lemma pool_unused_refines:
  assumes inv: "pres_inv ps" and i: "\<not> mem_in_use (ps_pool ps ! i)" "\<not> mem_in_use m"
    "i < ABLY_MAX_PRESENCE_MEMBERS"
  shows "pres_inv (ps\<lparr>ps_pool := (ps_pool ps)[i := m]\<rparr>)"
    "pres_members (ps\<lparr>ps_pool := (ps_pool ps)[i := m]\<rparr>) = pres_members ps"
proof -
  have other: "j \<noteq> i" if "hm_abs (ps_map ps) k = Some j" for j k
    using pres_inv_map(2) [OF inv that] i(1) by blast
  have nth: "(ps_pool ps)[i := m] ! j = (if j = i then m else ps_pool ps ! j)" for j
    using i(3) pres_inv_sizes(1) [OF inv] by (simp add: nth_list_update)
  show "pres_inv (ps\<lparr>ps_pool := (ps_pool ps)[i := m]\<rparr>)"
    unfolding pres_inv_def
    using pres_inv_sizes [OF inv] i other pres_inv_map [OF inv] pres_inv_pool [OF inv]
    by (auto simp: nth)
  show "pres_members (ps\<lparr>ps_pool := (ps_pool ps)[i := m]\<rparr>) = pres_members ps"
  proof (rule ext)
    fix k
    show "pres_members (ps\<lparr>ps_pool := (ps_pool ps)[i := m]\<rparr>) k = pres_members ps k"
      using other [of k] by (cases "hm_abs (ps_map ps) k") (auto simp: pres_members_def nth)
  qed
qed

lemma pool_remove_refines:
  assumes inv: "pres_inv ps" and at: "hm_abs (ps_map ps) k = Some i"
  shows "pres_inv ((pool_free i ps)\<lparr>ps_map := fst (hashmap_remove (ps_map ps) k)\<rparr>)"
    "pres_members ((pool_free i ps)\<lparr>ps_map := fst (hashmap_remove (ps_map ps) k)\<rparr>) =
      (pres_members ps)(k := None)"
proof -
  note i = pres_inv_map [OF inv at]
  obtain mp where mp: "fst (hashmap_remove (ps_map ps) k) = mp" "hm_inv mp"
    "hm_abs mp = (hm_abs (ps_map ps))(k := None)" "hm_capacity mp = ABLY_MAX_PRESENCE_MEMBERS"
    using hashmap_remove_spec [OF pres_inv_sizes(2) [OF inv] i(4)] pres_inv_sizes(3) [OF inv]
    by (auto simp: hashmap_remove_def split: option.splits)
  have other: "j \<noteq> i" if "hm_abs (ps_map ps) q = Some j" "q \<noteq> k" for j q
    using pres_inv_map(3) [OF inv that(1)] i(3) that(2) by blast
  have c: "pm_client_id (mem_msg (ps_pool ps ! j)) \<noteq> k"
    if "j < ABLY_MAX_PRESENCE_MEMBERS" "mem_in_use (ps_pool ps ! j)" "j \<noteq> i" for j
    using pres_inv_pool(1) [OF inv that(1,2)] at that(3) by auto
  have nth: "(ps_pool ps)[i := m] ! j = (if j = i then m else ps_pool ps ! j)" for j m
    using i(1) pres_inv_sizes(1) [OF inv] by (simp add: nth_list_update)
  show "pres_inv ((pool_free i ps)\<lparr>ps_map := fst (hashmap_remove (ps_map ps) k)\<rparr>)"
    unfolding pres_inv_def mp(1)
    using pres_inv_sizes(1) [OF inv] mp(2-) other c pres_inv_map [OF inv] pres_inv_pool [OF inv]
    by (auto simp: nth pool_free_def split: if_splits)
  show "pres_members ((pool_free i ps)\<lparr>ps_map := fst (hashmap_remove (ps_map ps) k)\<rparr>) =
      (pres_members ps)(k := None)"
  proof (rule ext)
    fix q
    show "pres_members ((pool_free i ps)\<lparr>ps_map := fst (hashmap_remove (ps_map ps) k)\<rparr>) q =
        ((pres_members ps)(k := None)) q"
      using other [of q]
      by (cases "hm_abs (ps_map ps) q") (auto simp: pres_members_def nth mp pool_free_def)
  qed
qed

definition presence_ok :: "ably_presence_message \<Rightarrow> bool" where
  "presence_ok msg \<longleftrightarrow> hm_key_ok (pm_client_id msg)"

text \<open>The actions that the switch of \<^verbatim>\<open>handle_message\<close> has a case for.\<close>

definition pres_known :: "ably_presence_message \<Rightarrow> bool" where
  "pres_known msg \<longleftrightarrow> pm_action msg \<in>
     {PRESENCE_ABSENT, PRESENCE_PRESENT, PRESENCE_ENTER, PRESENCE_LEAVE, PRESENCE_UPDATE}"

lemma upsert_member_refines:
  assumes inv: "pres_inv ps" and ok: "presence_ok msg" and act: "pm_action msg = PRESENCE_PRESENT"
  shows "pres_inv (upsert_member msg True ps) \<and>
    pres_members (upsert_member msg True ps) = limited_upsert msg (pres_members ps) \<and>
    same_rest ps (upsert_member msg True ps) \<and> ps_syncing (upsert_member msg True ps) = ps_syncing ps"
proof (cases "hm_abs (ps_map ps) (pm_client_id msg)")
  case (Some i)
  let ?m = "(ps_pool ps ! i)\<lparr>mem_msg := msg, mem_stale := False\<rparr>"
  have "upsert_member msg True ps = ps\<lparr>ps_pool := (ps_pool ps)[i := ?m]\<rparr>"
    using Some hm.get_law [OF pres_inv_sizes(2) [OF inv]] ok
    by (simp add: upsert_member_def presence_ok_def Let_def)
  moreover have "pm_client_id msg \<in> dom (pres_members ps)" using Some by (simp add: dom_pres_members domI)
  ultimately show ?thesis
    using pool_update_refines [OF inv Some act, of ?m] pres_inv_map(2) [OF inv Some]
    by (simp add: limited_upsert_def same_rest_def)
next
  case None
  then have get: "hashmap_get (ps_map ps) (pm_client_id msg) = None"
    and new: "pm_client_id msg \<notin> dom (pres_members ps)"
    using hm.get_law [OF pres_inv_sizes(2) [OF inv]] ok
    by (simp_all add: presence_ok_def dom_pres_members domIff)
  show ?thesis
  proof (cases "first_index (\<lambda>m. \<not> mem_in_use m) (ps_pool ps)")
    case None
    then have "upsert_member msg True ps = ps" using get by (simp add: upsert_member_def pool_alloc_def)
    then show ?thesis using pool_has_free [OF inv] None new pres_room [OF inv] inv
      by (auto simp: limited_upsert_def same_rest_def)
  next
    case (Some i)
    let ?m = "zero_member\<lparr>mem_in_use := True, mem_msg := msg, mem_stale := False\<rparr>"
    have i: "i < ABLY_MAX_PRESENCE_MEMBERS" "\<not> mem_in_use (ps_pool ps ! i)"
      using first_index_Some [OF Some] pres_inv_sizes(1) [OF inv] by auto
    have len: "i < length (ps_pool ps)" using i(1) pres_inv_sizes(1) [OF inv] by simp
    show ?thesis
    proof (cases "hashmap_put (ps_map ps) (pm_client_id msg) i")
      case None
      then have "\<not> hm_room (ps_map ps)"
        using hm.put_law [OF pres_inv_sizes(2) [OF inv], of "pm_client_id msg" i] ok
        by (auto simp: presence_ok_def)
      moreover have "upsert_member msg True ps =
          ps\<lparr>ps_pool := (ps_pool ps)[i := ?m\<lparr>mem_in_use := False\<rparr>]\<rparr>"
        using get Some None len
        by (simp add: upsert_member_def pool_alloc_def pool_free_def Let_def zero_member_def)
      ultimately show ?thesis
        using pool_unused_refines [OF inv i(2) _ i(1), of "?m\<lparr>mem_in_use := False\<rparr>"] new
          pres_room [OF inv]
        by (simp add: limited_upsert_def same_rest_def)
    next
      case put: (Some mp)
      then have "hm_room (ps_map ps)"
        using hm.put_Some [OF pres_inv_sizes(2) [OF inv] _ put] ok by (simp add: presence_ok_def)
      moreover have "upsert_member msg True ps =
          ps\<lparr>ps_pool := (ps_pool ps)[i := ?m], ps_map := mp\<rparr>"
        using get Some put len
        by (simp add: upsert_member_def pool_alloc_def Let_def zero_member_def)
      ultimately show ?thesis
        using pool_insert_refines [OF inv \<open>hm_abs (ps_map ps) (pm_client_id msg) = None\<close> act _ i _ _ _ put, of ?m]
          pres_room [OF inv] ok
        by (simp add: limited_upsert_def same_rest_def presence_ok_def)
    qed
  qed
qed

lemma remove_member_refines:
  assumes inv: "pres_inv ps" and ok: "presence_ok msg"
  shows "pres_inv (remove_member msg ps) \<and>
    pres_members (remove_member msg ps) = (pres_members ps)(pm_client_id msg := None) \<and>
    same_rest ps (remove_member msg ps) \<and> ps_syncing (remove_member msg ps) = ps_syncing ps"
proof (cases "hm_abs (ps_map ps) (pm_client_id msg)")
  case None
  then have "remove_member msg ps = ps" "pres_members ps (pm_client_id msg) = None"
    using hm.get_law [OF pres_inv_sizes(2) [OF inv]] ok
    by (simp_all add: remove_member_def presence_ok_def pres_members_def)
  then show ?thesis using inv by (auto simp: same_rest_def)
next
  case (Some i)
  then have "remove_member msg ps =
      (pool_free i ps)\<lparr>ps_map := fst (hashmap_remove (ps_map ps) (pm_client_id msg))\<rparr>"
    using hm.get_law [OF pres_inv_sizes(2) [OF inv]] ok
    by (simp add: remove_member_def presence_ok_def)
  then show ?thesis using pool_remove_refines [OF inv Some]
    by (simp add: same_rest_def pool_free_def)
qed

lemma handle_presence_refines:
  assumes inv: "pres_inv ps" and ok: "presence_ok msg"
  shows "pres_inv (fst (handle_presence msg (ps, ev))) \<and>
    pres_members (fst (handle_presence msg (ps, ev))) = limited_handle msg (pres_members ps) \<and>
    same_rest ps (fst (handle_presence msg (ps, ev))) \<and>
    ps_syncing (fst (handle_presence msg (ps, ev))) = ps_syncing ps \<and>
    snd (handle_presence msg (ps, ev)) =
      ev @ (if pres_known msg then notify_subscribers ps msg else [])"
  using upsert_member_refines [OF inv, of "msg\<lparr>pm_action := PRESENCE_PRESENT\<rparr>"]
    remove_member_refines [OF inv ok] ok inv
  by (cases "pm_action msg")
     (auto simp: pres_known_def handle_presence_def limited_handle_def Let_def presence_ok_def same_rest_def notify_subscribers_def)

lemma handle_message_fold:
  "pres_inv ps \<Longrightarrow> list_all presence_ok msgs \<Longrightarrow>
    pres_inv (fst (fold handle_presence msgs (ps, ev))) \<and>
    pres_members (fst (fold handle_presence msgs (ps, ev))) = fold limited_handle msgs (pres_members ps) \<and>
    same_rest ps (fst (fold handle_presence msgs (ps, ev))) \<and>
    snd (fold handle_presence msgs (ps, ev)) = ev @ concat (map (notify_subscribers ps)
      (filter pres_known msgs))"
proof (induction msgs arbitrary: ps ev)
  case Nil
  then show ?case by (simp add: same_rest_def)
next
  case (Cons m msgs)
  obtain ps1 ev1 where h: "handle_presence m (ps, ev) = (ps1, ev1)" by fastforce
  have 1: "pres_inv ps1" "pres_members ps1 = limited_handle m (pres_members ps)" "same_rest ps ps1"
    "ev1 = ev @ (if pres_known m then notify_subscribers ps m else [])"
    using handle_presence_refines [of ps m ev] Cons.prems h by simp_all
  show ?case
    using Cons.IH [OF 1(1), of ev1] Cons.prems(2) 1 same_rest_trans [OF 1(3)] notify_same_rest [OF 1(3)]
    by (simp add: h)
qed

section \<open>SYNC against the abstract set\<close>

lemma begin_sync_refines:
  assumes inv: "pres_inv ps"
  shows "pres_inv (begin_sync ps) \<and> pres_members (begin_sync ps) = spec_begin (pres_members ps) \<and>
    same_rest ps (begin_sync ps) \<and> ps_syncing (begin_sync ps)"
proof -
  let ?f = "\<lambda>m. if mem_in_use m \<and> pm_action (mem_msg m) = PRESENCE_PRESENT then m\<lparr>mem_stale := True\<rparr> else m"
  have f: "mem_in_use (?f m) = mem_in_use m" "mem_msg (?f m) = mem_msg m" for m by simp_all
  have nth: "map ?f (ps_pool ps) ! i = ?f (ps_pool ps ! i)" if "i < ABLY_MAX_PRESENCE_MEMBERS" for i
    using that pres_inv_sizes(1) [OF inv] by simp
  have "pres_inv (begin_sync ps)"
  proof (rule pres_invI)
    fix k i
    assume "hm_abs (ps_map (begin_sync ps)) k = Some i"
    then have "hm_abs (ps_map ps) k = Some i" by (simp add: begin_sync_def)
    from pres_inv_map [OF inv this] nth [of i]
    show "i < ABLY_MAX_PRESENCE_MEMBERS \<and> mem_in_use (ps_pool (begin_sync ps) ! i) \<and>
        pm_client_id (mem_msg (ps_pool (begin_sync ps) ! i)) = k"
      by (simp add: begin_sync_def)
  next
    fix i
    assume "i < ABLY_MAX_PRESENCE_MEMBERS" "mem_in_use (ps_pool (begin_sync ps) ! i)"
    then show "hm_abs (ps_map (begin_sync ps)) (pm_client_id (mem_msg (ps_pool (begin_sync ps) ! i))) = Some i \<and>
        hm_key_ok (pm_client_id (mem_msg (ps_pool (begin_sync ps) ! i))) \<and>
        pm_action (mem_msg (ps_pool (begin_sync ps) ! i)) = PRESENCE_PRESENT"
      using pres_inv_pool [OF inv, of i] nth [of i] by (simp add: begin_sync_def split: if_splits)
  qed (use pres_inv_sizes [OF inv] in \<open>simp_all add: begin_sync_def\<close>)
  moreover have "pres_members (begin_sync ps) = spec_begin (pres_members ps)"
  proof (rule ext)
    fix k
    show "pres_members (begin_sync ps) k = spec_begin (pres_members ps) k"
    proof (cases "hm_abs (ps_map ps) k")
      case (Some i)
      then show ?thesis
        using pres_inv_map [OF inv Some] pres_inv_pool(3) [OF inv, of i] nth [of i]
        by (simp add: pres_members_def spec_begin_def begin_sync_def)
    qed (simp add: pres_members_def spec_begin_def begin_sync_def)
  qed
  ultimately show ?thesis by (simp add: same_rest_def begin_sync_def)
qed

text \<open>The event a pool entry gives rise to at the end of a SYNC.\<close>

definition leave_events :: "presence_state \<Rightarrow> presence_member \<Rightarrow> presence_event list" where
  "leave_events ps m =
     (if mem_in_use m \<and> mem_stale m
      then notify_subscribers ps ((mem_msg m)\<lparr>pm_action := PRESENCE_LEAVE\<rparr>) else [])"

lemma end_sync_prefix:
  assumes inv: "pres_inv ps" and n: "n \<le> ABLY_MAX_PRESENCE_MEMBERS"
  defines "r \<equiv> fold end_sync_at [0..<n] (ps, [])"
  shows "pres_inv (fst r) \<and> same_rest ps (fst r) \<and>
    (\<forall>j. n \<le> j \<longrightarrow> ps_pool (fst r) ! j = ps_pool ps ! j) \<and>
    (\<forall>k. pres_members (fst r) k = (case hm_abs (ps_map ps) k of None \<Rightarrow> None
       | Some i \<Rightarrow> if i < n \<and> mem_stale (ps_pool ps ! i) then None else pres_members ps k)) \<and>
    snd r = concat (map (\<lambda>i. leave_events ps (ps_pool ps ! i)) [0..<n])"
  unfolding r_def using n
proof (induction n)
  case 0
  have "pres_members ps k = None" if "hm_abs (ps_map ps) k = None" for k
    using that by (simp add: pres_members_def)
  then show ?case using inv by (auto simp: same_rest_def split: option.splits)
next
  case (Suc n)
  obtain ps1 ev1 where r: "fold end_sync_at [0..<n] (ps, []) = (ps1, ev1)" by fastforce
  have n: "n < ABLY_MAX_PRESENCE_MEMBERS" using Suc.prems by simp
  have ih: "pres_inv ps1" "same_rest ps ps1" "\<And>j. n \<le> j \<Longrightarrow> ps_pool ps1 ! j = ps_pool ps ! j"
    "\<And>k. pres_members ps1 k = (case hm_abs (ps_map ps) k of None \<Rightarrow> None
       | Some i \<Rightarrow> if i < n \<and> mem_stale (ps_pool ps ! i) then None else pres_members ps k)"
    "ev1 = concat (map (\<lambda>i. leave_events ps (ps_pool ps ! i)) [0..<n])"
    using Suc.IH r n by auto
  have step: "fold end_sync_at [0..<Suc n] (ps, []) = end_sync_at n (ps1, ev1)" by (simp add: r)
  have p: "ps_pool ps1 ! n = ps_pool ps ! n" by (simp add: ih(3))
  show ?case
  proof (cases "mem_in_use (ps_pool ps ! n) \<and> mem_stale (ps_pool ps ! n)")
    case False
    then have e: "end_sync_at n (ps1, ev1) = (ps1, ev1)" by (auto simp: end_sync_at_def p Let_def)
    have "\<not> mem_stale (ps_pool ps ! n)" if "hm_abs (ps_map ps) k = Some n" for k
      using pres_inv_map(2) [OF inv that] False by blast
    then show ?thesis unfolding step e using ih False
      by (auto simp: leave_events_def less_Suc_eq split: option.splits)
  next
    case True
    let ?k = "pm_client_id (mem_msg (ps_pool ps ! n))"
    let ?ps2 = "(pool_free n ps1)\<lparr>ps_map := fst (hashmap_remove (ps_map ps1) ?k)\<rparr>"
    have at: "hm_abs (ps_map ps1) ?k = Some n" using pres_inv_pool(1) [OF ih(1) n] True p by simp
    have at0: "hm_abs (ps_map ps) ?k = Some n" using pres_inv_pool(1) [OF inv n] True by simp
    have rest: "same_rest ps ?ps2" using ih(2) by (simp add: same_rest_def pool_free_def)
    have e: "end_sync_at n (ps1, ev1) = (?ps2, ev1 @ leave_events ps (ps_pool ps ! n))"
      using True p notify_same_rest [OF rest]
      by (simp add: end_sync_at_def Let_def leave_events_def pool_free_def)
    note rm = pool_remove_refines [OF ih(1) at]
    have pool: "ps_pool ?ps2 ! j = ps_pool ps ! j" if "Suc n \<le> j" for j
      using ih(3) [of j] that by (simp add: pool_free_def)
    have mem: "pres_members ?ps2 k = (case hm_abs (ps_map ps) k of None \<Rightarrow> None
       | Some i \<Rightarrow> if i < Suc n \<and> mem_stale (ps_pool ps ! i) then None else pres_members ps k)" for k
    proof (cases "k = ?k")
      case True
      then show ?thesis using at0 \<open>mem_in_use _ \<and> mem_stale _\<close> by (simp add: rm(2))
    next
      case False
      then have "i \<noteq> n" if "hm_abs (ps_map ps) k = Some i" for i
        using pres_inv_map(3) [OF inv that] by blast
      then show ?thesis using False ih(4) [of k]
        by (auto simp: rm(2) less_Suc_eq split: option.splits)
    qed
    show ?thesis unfolding step e using rm(1) rest pool mem ih(5) by simp
  qed
qed

lemma end_sync_refines:
  assumes inv: "pres_inv ps"
  shows "pres_inv (fst (end_sync ps))" "pres_members (fst (end_sync ps)) = spec_end (pres_members ps)"
    "same_rest ps (fst (end_sync ps))" "\<not> ps_syncing (fst (end_sync ps))"
    "snd (end_sync ps) = concat (map (leave_events ps) (ps_pool ps))"
proof -
  obtain ps1 ev where r: "fold end_sync_at [0..<ABLY_MAX_PRESENCE_MEMBERS] (ps, []) = (ps1, ev)" by fastforce
  have p: "pres_inv ps1" "same_rest ps ps1"
    "\<And>k. pres_members ps1 k = (case hm_abs (ps_map ps) k of None \<Rightarrow> None
       | Some i \<Rightarrow> if i < ABLY_MAX_PRESENCE_MEMBERS \<and> mem_stale (ps_pool ps ! i) then None else pres_members ps k)"
    "ev = concat (map (\<lambda>i. leave_events ps (ps_pool ps ! i)) [0..<ABLY_MAX_PRESENCE_MEMBERS])"
    using end_sync_prefix [OF inv order_refl] r by simp_all
  have e: "end_sync ps = (ps1\<lparr>ps_syncing := False\<rparr>, ev)" by (simp add: end_sync_def r)
  show "pres_inv (fst (end_sync ps))" using p(1) unfolding e pres_inv_def by simp
  show "pres_members (fst (end_sync ps)) = spec_end (pres_members ps)"
  proof (rule ext)
    fix k
    have "pres_members (ps1\<lparr>ps_syncing := False\<rparr>) k = pres_members ps1 k" by (simp add: pres_members_def)
    also have "\<dots> = spec_end (pres_members ps) k"
    proof (cases "hm_abs (ps_map ps) k")
      case (Some i)
      then show ?thesis using pres_inv_map(1) [OF inv Some]
        by (simp add: p(3) spec_end_def) (auto simp: pres_members_def split: bool.splits)
    next
      case None
      then have "pres_members ps k = None" by (simp add: pres_members_def)
      then show ?thesis by (simp add: None p(3) spec_end_def)
    qed
    finally show "pres_members (fst (end_sync ps)) k = spec_end (pres_members ps) k" by (simp add: e)
  qed
  show "same_rest ps (fst (end_sync ps))" using p(2) by (simp add: e same_rest_def)
  show "\<not> ps_syncing (fst (end_sync ps))" by (simp add: e)
  have "map (\<lambda>i. leave_events ps (ps_pool ps ! i)) [0..<ABLY_MAX_PRESENCE_MEMBERS] =
      map (leave_events ps) (ps_pool ps)"
    using pres_inv_sizes(1) [OF inv] by (intro nth_equalityI) auto
  then show "snd (end_sync ps) = concat (map (leave_events ps) (ps_pool ps))" by (simp add: e p(4))
qed

text \<open>A SYNC page on the abstract state: the members and whether a SYNC is in progress.\<close>

definition spec_page :: "ably_proto_frame \<Rightarrow> member_map \<times> bool \<Rightarrow> member_map \<times> bool" where
  "spec_page frame = (\<lambda>(M, syncing).
     let M1 = fold (\<lambda>m. limited_upsert (m\<lparr>pm_action := PRESENCE_PRESENT\<rparr>)) (pf_presence_msgs frame)
                (if syncing then M else spec_begin M)
     in if is_last_page (pf_sync_serial frame) then (spec_end M1, False) else (M1, True))"

definition frame_presence_ok :: "ably_proto_frame \<Rightarrow> bool" where
  "frame_presence_ok frame \<longleftrightarrow> list_all presence_ok (pf_presence_msgs frame)"

text \<open>Decoded frames satisfy it: client ids are cut to the 255 characters of their buffer.\<close>

lemma frame_bounded_presence_ok: "frame_bounded frame \<Longrightarrow> frame_presence_ok frame"
  by (auto simp: frame_presence_ok_def frame_bounded_def presence_bounded_def presence_ok_def
      hm_key_ok_def capacity_defs ABLY_HASHMAP_KEY_MAX_def list_all_iff)

lemma sync_fold_refines:
  "pres_inv ps \<Longrightarrow> list_all presence_ok msgs \<Longrightarrow>
    pres_inv (fst (fold sync_member msgs (ps, ev))) \<and>
    pres_members (fst (fold sync_member msgs (ps, ev))) =
      fold (\<lambda>m. limited_upsert (m\<lparr>pm_action := PRESENCE_PRESENT\<rparr>)) msgs (pres_members ps) \<and>
    same_rest ps (fst (fold sync_member msgs (ps, ev))) \<and>
    ps_syncing (fst (fold sync_member msgs (ps, ev))) = ps_syncing ps \<and>
    snd (fold sync_member msgs (ps, ev)) = ev @ concat (map (notify_subscribers ps) msgs)"
proof (induction msgs arbitrary: ps ev)
  case Nil
  then show ?case by (simp add: same_rest_def)
next
  case (Cons m msgs)
  let ?m = "m\<lparr>pm_action := PRESENCE_PRESENT\<rparr>"
  let ?ps1 = "upsert_member ?m True ps"
  have 1: "pres_inv ?ps1" "pres_members ?ps1 = limited_upsert ?m (pres_members ps)" "same_rest ps ?ps1"
    "ps_syncing ?ps1 = ps_syncing ps"
    using upsert_member_refines [of ps ?m] Cons.prems by (simp_all add: presence_ok_def)
  have "sync_member m (ps, ev) = (?ps1, ev @ notify_subscribers ps m)"
    by (simp add: sync_member_def Let_def notify_same_rest [OF 1(3)])
  then show ?case
    using Cons.IH [OF 1(1), of "ev @ notify_subscribers ps m"] Cons.prems(2) 1
      same_rest_trans [OF 1(3)] notify_same_rest [OF 1(3)]
    by simp
qed

lemma handle_sync_refines:
  assumes inv: "pres_inv ps" and ok: "frame_presence_ok frame"
  shows "pres_inv (fst (presence_handle_sync frame ps))"
    "(pres_members (fst (presence_handle_sync frame ps)), ps_syncing (fst (presence_handle_sync frame ps))) =
       spec_page frame (pres_members ps, ps_syncing ps)"
    "same_rest ps (fst (presence_handle_sync frame ps))"
proof -
  let ?ps1 = "if ps_syncing ps then ps else begin_sync ps"
  obtain ps2 ev where f: "fold sync_member (pf_presence_msgs frame) (?ps1, []) = (ps2, ev)" by fastforce
  have 1: "pres_inv ?ps1" "pres_members ?ps1 = (if ps_syncing ps then pres_members ps else spec_begin (pres_members ps))"
    "same_rest ps ?ps1" "ps_syncing ?ps1"
    using begin_sync_refines [OF inv] inv by (auto simp: same_rest_def)
  have 2: "pres_inv ps2" "pres_members ps2 = fold (\<lambda>m. limited_upsert (m\<lparr>pm_action := PRESENCE_PRESENT\<rparr>))
      (pf_presence_msgs frame) (pres_members ?ps1)" "same_rest ps ps2" "ps_syncing ps2"
    using sync_fold_refines [OF 1(1), of "pf_presence_msgs frame" "[]"] ok f 1(4) same_rest_trans [OF 1(3)]
    by (simp_all add: frame_presence_ok_def)
  have e: "fst (presence_handle_sync frame ps) =
      (if is_last_page (pf_sync_serial frame) then fst (end_sync ps2) else ps2)"
    by (simp add: presence_handle_sync_def Let_def f split: prod.splits)
  note 3 = end_sync_refines [OF 2(1)]
  show "pres_inv (fst (presence_handle_sync frame ps))" using 2(1) 3(1) by (simp add: e)
  show "(pres_members (fst (presence_handle_sync frame ps)), ps_syncing (fst (presence_handle_sync frame ps))) =
       spec_page frame (pres_members ps, ps_syncing ps)"
    using 2 3 1(2) by (simp add: e spec_page_def Let_def)
  show "same_rest ps (fst (presence_handle_sync frame ps))"
    using same_rest_trans [OF 2(3) 3(3)] 2(3) by (simp add: e)
qed

section \<open>What a full SYNC leaves\<close>

definition page_entries :: "ably_presence_message list \<Rightarrow> member_map" where
  "page_entries msgs k = map_option (\<lambda>m. (m\<lparr>pm_action := PRESENCE_PRESENT\<rparr>, False))
     (map_of (rev (map (\<lambda>m. (pm_client_id m, m)) msgs)) k)"

lemma page_entries_Cons:
  "page_entries (m # msgs) = [pm_client_id m \<mapsto> (m\<lparr>pm_action := PRESENCE_PRESENT\<rparr>, False)] ++ page_entries msgs"
  by (rule ext) (simp add: page_entries_def map_add_def split: option.splits)

lemma dom_page_entries: "dom (page_entries msgs) = pm_client_id ` set msgs"
  by (induction msgs) (auto simp: page_entries_Cons page_entries_def dom_def)

lemma fold_upsert_all:
  "finite (dom M) \<Longrightarrow> card (dom M \<union> pm_client_id ` set msgs) \<le> 96 \<Longrightarrow>
    fold (\<lambda>m. limited_upsert (m\<lparr>pm_action := PRESENCE_PRESENT\<rparr>)) msgs M = M ++ page_entries msgs"
proof (induction msgs arbitrary: M)
  case Nil
  then show ?case by (simp add: page_entries_def map_add_def)
next
  case (Cons m msgs)
  let ?m = "m\<lparr>pm_action := PRESENCE_PRESENT\<rparr>"
  have up: "limited_upsert ?m M = M(pm_client_id m \<mapsto> (?m, False))"
  proof (cases "pm_client_id m \<in> dom M")
    case False
    then have "card (dom M) < card (dom M \<union> pm_client_id ` set (m # msgs))"
      using Cons.prems(1) by (intro psubset_card_mono) auto
    then show ?thesis using Cons.prems(2) by (simp add: limited_upsert_def)
  qed (simp add: limited_upsert_def)
  define M' where M': "M' = M(pm_client_id m \<mapsto> (?m, False))"
  have d: "dom M' \<union> pm_client_id ` set msgs = dom M \<union> pm_client_id ` set (m # msgs)"
    by (auto simp: M')
  have fin: "finite (dom M')" using Cons.prems(1) by (simp add: M')
  have "fold (\<lambda>m. limited_upsert (m\<lparr>pm_action := PRESENCE_PRESENT\<rparr>)) (m # msgs) M =
      fold (\<lambda>m. limited_upsert (m\<lparr>pm_action := PRESENCE_PRESENT\<rparr>)) msgs M'"
    by (simp add: up M' [symmetric])
  also have "\<dots> = M' ++ page_entries msgs"
    by (rule Cons.IH [OF fin, unfolded d, OF Cons.prems(2)])
  also have "\<dots> = M ++ page_entries (m # msgs)" by (simp add: M' page_entries_Cons)
  finally show ?case .
qed

lemma page_entries_append: "page_entries (a @ b) = page_entries a ++ page_entries b"
  by (rule ext) (simp add: page_entries_def map_add_def split: option.splits)

definition sync_pages :: "ably_proto_frame list \<Rightarrow> presence_state \<Rightarrow> presence_state" where
  "sync_pages frames ps = fold (\<lambda>f ps. fst (presence_handle_sync f ps)) frames ps"

lemma sync_pages_refines:
  "pres_inv ps \<Longrightarrow> list_all frame_presence_ok frames \<Longrightarrow>
    pres_inv (sync_pages frames ps) \<and> same_rest ps (sync_pages frames ps) \<and>
    (pres_members (sync_pages frames ps), ps_syncing (sync_pages frames ps)) =
      fold spec_page frames (pres_members ps, ps_syncing ps)"
proof (induction frames arbitrary: ps)
  case Nil
  then show ?case by (simp add: sync_pages_def same_rest_def)
next
  case (Cons f frames)
  have f: "frame_presence_ok f" using Cons.prems(2) by simp
  show ?case
    using Cons.IH [OF handle_sync_refines(1) [OF Cons.prems(1) f]] Cons.prems(2)
      handle_sync_refines(2,3) [OF Cons.prems(1) f] same_rest_trans
    by (auto simp: sync_pages_def)
qed

lemma spec_pages_open:
  "\<not> is_last_page (pf_sync_serial f) \<Longrightarrow> \<forall>g \<in> set fs. \<not> is_last_page (pf_sync_serial g) \<Longrightarrow>
    fold spec_page (f # fs) (M, False) =
      (fold (\<lambda>m. limited_upsert (m\<lparr>pm_action := PRESENCE_PRESENT\<rparr>)) (concat (map pf_presence_msgs (f # fs)))
         (spec_begin M), True)"
proof (induction fs rule: rev_induct)
  case Nil
  then show ?case by (simp add: spec_page_def)
next
  case (snoc g gs)
  then show ?case by (simp add: spec_page_def Let_def)
qed

lemma spec_pages_all:
  assumes "\<forall>g \<in> set fs. \<not> is_last_page (pf_sync_serial g)" "is_last_page (pf_sync_serial f)"
  shows "fold spec_page (fs @ [f]) (M, False) =
      (spec_end (fold (\<lambda>m. limited_upsert (m\<lparr>pm_action := PRESENCE_PRESENT\<rparr>))
         (concat (map pf_presence_msgs (fs @ [f]))) (spec_begin M)), False)"
proof (cases fs)
  case Nil
  then show ?thesis using assms by (simp add: spec_page_def)
next
  case (Cons g gs)
  then have "fold spec_page (fs @ [f]) (M, False) = spec_page f (fold spec_page (g # gs) (M, False))" by simp
  also have "\<dots> = (spec_end (fold (\<lambda>m. limited_upsert (m\<lparr>pm_action := PRESENCE_PRESENT\<rparr>))
         (concat (map pf_presence_msgs (fs @ [f]))) (spec_begin M)), False)"
    using spec_pages_open [of g gs M] assms Cons by (simp del: fold.simps add: spec_page_def Let_def)
  finally show ?thesis .
qed

lemma spec_end_begin: "spec_end (spec_begin M ++ page_entries msgs) = page_entries msgs"
  by (rule ext) (auto simp: spec_end_def spec_begin_def map_add_def page_entries_def split: option.splits)

lemma dom_spec_begin: "dom (spec_begin M) = dom M"
  by (auto simp: spec_begin_def dom_def)

lemma fold_upsert_stale:
  "fold (\<lambda>m. limited_upsert (m\<lparr>pm_action := PRESENCE_PRESENT\<rparr>)) msgs M k = Some (q, True) \<longleftrightarrow>
     M k = Some (q, True) \<and> k \<notin> pm_client_id ` set msgs"
proof (induction msgs arbitrary: M)
  case (Cons m msgs)
  have "limited_upsert (m\<lparr>pm_action := PRESENCE_PRESENT\<rparr>) M k = Some (q, True) \<longleftrightarrow>
      M k = Some (q, True) \<and> k \<noteq> pm_client_id m"
    by (auto simp: limited_upsert_def)
  then show ?case by (auto simp: Cons.IH)
qed simp

text \<open>The members that leave at the end of a SYNC, in pool order.\<close>

definition stale_leaves :: "presence_state \<Rightarrow> ably_presence_message list" where
  "stale_leaves ps = map (\<lambda>m. (mem_msg m)\<lparr>pm_action := PRESENCE_LEAVE\<rparr>)
     (filter (\<lambda>m. mem_in_use m \<and> mem_stale m) (ps_pool ps))"

lemma leave_events_leaves:
  "concat (map (leave_events ps) xs) = concat (map (notify_subscribers ps)
     (map (\<lambda>m. (mem_msg m)\<lparr>pm_action := PRESENCE_LEAVE\<rparr>) (filter (\<lambda>m. mem_in_use m \<and> mem_stale m) xs)))"
  by (induction xs) (auto simp: leave_events_def)

lemma set_stale_leaves:
  assumes inv: "pres_inv ps"
  shows "set (stale_leaves ps) = {m\<lparr>pm_action := PRESENCE_LEAVE\<rparr> | m k. pres_members ps k = Some (m, True)}"
proof (intro set_eqI iffI)
  fix x
  assume "x \<in> set (stale_leaves ps)"
  then obtain i where i: "i < ABLY_MAX_PRESENCE_MEMBERS" "mem_in_use (ps_pool ps ! i)" "mem_stale (ps_pool ps ! i)"
    "x = (mem_msg (ps_pool ps ! i))\<lparr>pm_action := PRESENCE_LEAVE\<rparr>"
    using pres_inv_sizes(1) [OF inv] by (auto simp: stale_leaves_def in_set_conv_nth)
  then have "pres_members ps (pm_client_id (mem_msg (ps_pool ps ! i))) = Some (mem_msg (ps_pool ps ! i), True)"
    using pres_inv_pool(1) [OF inv i(1,2)] by (simp add: pres_members_def)
  then show "x \<in> {m\<lparr>pm_action := PRESENCE_LEAVE\<rparr> | m k. pres_members ps k = Some (m, True)}"
    using i(4) by blast
next
  fix x
  assume "x \<in> {m\<lparr>pm_action := PRESENCE_LEAVE\<rparr> | m k. pres_members ps k = Some (m, True)}"
  then obtain m k where mk: "x = m\<lparr>pm_action := PRESENCE_LEAVE\<rparr>" "pres_members ps k = Some (m, True)" by blast
  then obtain i where i: "hm_abs (ps_map ps) k = Some i" "mem_msg (ps_pool ps ! i) = m" "mem_stale (ps_pool ps ! i)"
    by (auto simp: pres_members_def)
  note pres_inv_map [OF inv i(1)]
  then show "x \<in> set (stale_leaves ps)"
    using i pres_inv_sizes(1) [OF inv] mk(1) by (force simp: stale_leaves_def)
qed

lemma handle_sync_events:
  assumes inv: "pres_inv ps" and ok: "frame_presence_ok frame" and idle: "\<not> ps_syncing ps"
    and last: "is_last_page (pf_sync_serial frame)"
  shows "\<exists>leaves. snd (presence_handle_sync frame ps) =
       concat (map (notify_subscribers ps) (pf_presence_msgs frame)) @
       concat (map (notify_subscribers ps) leaves) \<and>
     set leaves = {m\<lparr>pm_action := PRESENCE_LEAVE\<rparr> | m k s. pres_members ps k = Some (m, s) \<and>
       k \<notin> pm_client_id ` set (pf_presence_msgs frame)}"
proof -
  obtain ps2 ev where f: "fold sync_member (pf_presence_msgs frame) (begin_sync ps, []) = (ps2, ev)" by fastforce
  note b = begin_sync_refines [OF inv]
  have 2: "pres_inv ps2" "pres_members ps2 = fold (\<lambda>m. limited_upsert (m\<lparr>pm_action := PRESENCE_PRESENT\<rparr>))
      (pf_presence_msgs frame) (spec_begin (pres_members ps))" "same_rest ps ps2"
    "ev = concat (map (notify_subscribers ps) (pf_presence_msgs frame))"
    using sync_fold_refines [of "begin_sync ps" "pf_presence_msgs frame" "[]"] b ok f same_rest_trans
      notify_same_rest [of ps "begin_sync ps"]
    by (auto simp: frame_presence_ok_def)
  have "snd (presence_handle_sync frame ps) = ev @ snd (end_sync ps2)"
    by (simp add: presence_handle_sync_def Let_def f idle last split: prod.splits)
  moreover have "snd (end_sync ps2) = concat (map (notify_subscribers ps) (stale_leaves ps2))"
    by (simp add: end_sync_refines(5) [OF 2(1)] leave_events_leaves stale_leaves_def notify_same_rest [OF 2(3)])
  moreover have "spec_begin M k = Some (m, True) \<longleftrightarrow> (\<exists>s. M k = Some (m, s))" for M k m
    by (auto simp: spec_begin_def)
  ultimately show ?thesis
    using 2(4) set_stale_leaves [OF 2(1)] by (auto simp: 2(2) fold_upsert_stale intro!: exI [of _ "stale_leaves ps2"])
qed

section \<open>Reading the members\<close>

lemma present_members_pool:
  assumes "pres_inv ps"
  shows "present_members ps = map mem_msg (filter mem_in_use (ps_pool ps))"
proof -
  have "mem_in_use m \<Longrightarrow> pm_action (mem_msg m) = PRESENCE_PRESENT" if "m \<in> set (ps_pool ps)" for m
    using that pres_inv_pool(3) [OF assms] pres_inv_sizes(1) [OF assms] by (auto simp: in_set_conv_nth)
  then show ?thesis using pres_inv_sizes(1) [OF assms]
    by (auto simp: present_members_def intro!: arg_cong [where f = "map mem_msg"] filter_cong)
qed

lemma distinct_present_members:
  assumes inv: "pres_inv ps"
  shows "distinct (map pm_client_id (present_members ps))"
proof -
  have "distinct (map (\<lambda>m. pm_client_id (mem_msg m)) (filter mem_in_use (ps_pool ps)))"
  proof (rule distinct_map_filter_nth)
    fix i j
    assume ij: "i < length (ps_pool ps)" "j < length (ps_pool ps)" "mem_in_use (ps_pool ps ! i)"
      "mem_in_use (ps_pool ps ! j)"
      "pm_client_id (mem_msg (ps_pool ps ! i)) = pm_client_id (mem_msg (ps_pool ps ! j))"
    have "Some i = hm_abs (ps_map ps) (pm_client_id (mem_msg (ps_pool ps ! i)))"
      by (rule pres_inv_pool(1) [OF inv _ ij(3), symmetric]) (use ij(1) pres_inv_sizes(1) [OF inv] in simp)
    also have "\<dots> = hm_abs (ps_map ps) (pm_client_id (mem_msg (ps_pool ps ! j)))"
      by (rule arg_cong [OF ij(5)])
    also have "\<dots> = Some j"
      by (rule pres_inv_pool(1) [OF inv _ ij(4)]) (use ij(2) pres_inv_sizes(1) [OF inv] in simp)
    finally show "i = j" by simp
  qed
  then show ?thesis unfolding present_members_pool [OF inv] map_map comp_def .
qed

lemma set_present_members:
  assumes inv: "pres_inv ps"
  shows "m \<in> set (present_members ps) \<longleftrightarrow> (\<exists>s. pres_members ps (pm_client_id m) = Some (m, s))"
proof
  assume "m \<in> set (present_members ps)"
  then obtain i where "i < ABLY_MAX_PRESENCE_MEMBERS" "mem_in_use (ps_pool ps ! i)" "mem_msg (ps_pool ps ! i) = m"
    using pres_inv_sizes(1) [OF inv] by (auto simp: present_members_pool [OF inv] in_set_conv_nth)
  then show "\<exists>s. pres_members ps (pm_client_id m) = Some (m, s)"
    using pres_inv_pool(1) [OF inv] by (auto simp: pres_members_def)
next
  assume "\<exists>s. pres_members ps (pm_client_id m) = Some (m, s)"
  then obtain i where i: "hm_abs (ps_map ps) (pm_client_id m) = Some i" "mem_msg (ps_pool ps ! i) = m"
    by (auto simp: pres_members_def)
  then have "ps_pool ps ! i \<in> set (filter mem_in_use (ps_pool ps))"
    using pres_inv_map(1,2) [OF inv i(1)] pres_inv_sizes(1) [OF inv] by simp
  then show "m \<in> set (present_members ps)"
    using i(2) by (auto simp: present_members_pool [OF inv])
qed

lemma length_present_members:
  assumes inv: "pres_inv ps"
  shows "length (present_members ps) = card (dom (pres_members ps))"
proof -
  have "pm_client_id ` set (present_members ps) = dom (pres_members ps)"
  proof (intro set_eqI iffI)
    fix k
    assume "k \<in> dom (pres_members ps)"
    then obtain m s where m: "pres_members ps k = Some (m, s)" by auto
    then have "pm_client_id m = k" using pres_inv_map(3) [OF inv] by (auto simp: pres_members_def)
    then show "k \<in> pm_client_id ` set (present_members ps)" using m set_present_members [OF inv, of m] by auto
  qed (auto simp: set_present_members [OF inv])
  then show ?thesis using distinct_card [OF distinct_present_members [OF inv]] by simp
qed

section \<open>Properties\<close>

text \<open>As long as the set stays within the limit, the limit is not felt.\<close>

definition within_limit :: "ably_presence_message list \<Rightarrow> member_map \<Rightarrow> bool" where
  "within_limit msgs M \<longleftrightarrow> (\<forall>n \<le> length msgs. card (dom (fold spec_handle (take n msgs) M)) \<le> 96)"

lemma within_limit_Cons: "within_limit (m # msgs) M \<longleftrightarrow> card (dom M) \<le> 96 \<and> within_limit msgs (spec_handle m M)"
proof -
  have "(\<forall>n \<le> Suc k. P n) \<longleftrightarrow> P 0 \<and> (\<forall>n \<le> k. P (Suc n))" for P :: "nat \<Rightarrow> bool" and k
    by (metis Suc_le_mono le0 not0_implies_Suc)
  from this [of "length msgs" "\<lambda>n. card (dom (fold spec_handle (take n (m # msgs)) M)) \<le> 96"]
  show ?thesis by (simp add: within_limit_def)
qed

lemma within_limit_Nil: "within_limit [] M \<longleftrightarrow> card (dom M) \<le> 96"
  by (simp add: within_limit_def)

lemma finite_spec_handle: "finite (dom M) \<Longrightarrow> finite (dom (spec_handle m M))"
  by (simp add: spec_handle_def)

lemma limited_handle_eq:
  assumes "finite (dom M)" "card (dom (spec_handle m M)) \<le> 96"
  shows "limited_handle m M = spec_handle m M"
  using assms by (auto simp: limited_handle_def spec_handle_def limited_upsert_def card_insert_if split: if_splits)

lemma limited_handle_fold:
  "finite (dom M) \<Longrightarrow> within_limit msgs M \<Longrightarrow> fold limited_handle msgs M = fold spec_handle msgs M"
proof (induction msgs arbitrary: M)
  case (Cons m msgs)
  then have "within_limit msgs (spec_handle m M)" "finite (dom (spec_handle m M))"
    by (simp_all add: within_limit_Cons finite_spec_handle)
  moreover from this(1) have "card (dom (spec_handle m M)) \<le> 96" by (auto simp: within_limit_def)
  ultimately show ?case using Cons.IH limited_handle_eq [OF Cons.prems(1)] by simp
qed simp

lemma limited_enter_refused:
  "card (dom M) = 96 \<and> M (pm_client_id m) = None \<and> pm_action m = PRESENCE_ENTER \<longrightarrow> limited_handle m M = M"
  by (auto simp: limited_handle_def limited_upsert_def)

text \<open>C25. As long as no more than 96 members are present, a PRESENCE frame has exactly the effect of its messages
  on the set of members, in order: ENTER, PRESENT and UPDATE add or replace the member of that client id, LEAVE
  and ABSENT remove it, other actions do nothing. A 97th member is refused (the documentation says 129th): its
  ENTER leaves the set as it is. Pool and index stay consistent, and the subscribers see every message with a
  known action once, unchanged and in order, that of a refused member included.\<close>

theorem presence_message_refines:
  assumes "pres_inv ps" and "frame_presence_ok frame"
  shows "pres_inv (fst (presence_handle_message frame ps)) \<and>
    (within_limit (pf_presence_msgs frame) (pres_members ps) \<longrightarrow>
       pres_members (fst (presence_handle_message frame ps)) =
         fold spec_handle (pf_presence_msgs frame) (pres_members ps)) \<and>
    (card (dom (pres_members ps)) = 96 \<and> pf_presence_msgs frame = [m] \<and> pm_action m = PRESENCE_ENTER \<and>
       pres_members ps (pm_client_id m) = None \<longrightarrow>
       pres_members (fst (presence_handle_message frame ps)) = pres_members ps) \<and>
    snd (presence_handle_message frame ps) =
      concat (map (notify_subscribers ps) (filter pres_known (pf_presence_msgs frame)))"
  using handle_message_fold [OF assms(1), of "pf_presence_msgs frame" "[]"] assms(2)
    limited_handle_fold [of "pres_members ps" "pf_presence_msgs frame"] limited_enter_refused [of "pres_members ps" m]
    finite_dom_hm_abs [of "ps_map ps"] dom_pres_members [of ps]
  by (auto simp: presence_handle_message_def frame_presence_ok_def)

definition demo_member :: "ably_presence_action \<Rightarrow> string \<Rightarrow> ably_presence_message" where
  "demo_member action client_id = zero_presence_message\<lparr>pm_action := action, pm_client_id := client_id\<rparr>"

definition demo_frame :: "ably_presence_message list \<Rightarrow> string \<Rightarrow> ably_proto_frame" where
  "demo_frame msgs serial =
     (blank_frame ACTION_PRESENCE)\<lparr>pf_presence_msgs := msgs, pf_sync_serial := serial\<rparr>"

lemma demo_frame_ok [simp]:
  "frame_presence_ok (demo_frame msgs serial) \<longleftrightarrow> list_all presence_ok msgs"
  "pf_presence_msgs (demo_frame msgs serial) = msgs" "pf_sync_serial (demo_frame msgs serial) = serial"
  by (simp_all add: demo_frame_def frame_presence_ok_def)

lemma demo_member_simps [simp]:
  "pm_client_id (demo_member a c) = c" "pm_action (demo_member a c) = a"
  "(demo_member a c)\<lparr>pm_action := b\<rparr> = demo_member b c"
  "presence_ok (demo_member a c) \<longleftrightarrow> length c < 256"
  by (simp_all add: demo_member_def presence_ok_def hm_key_ok_def ABLY_HASHMAP_KEY_MAX_def)

lemma presence_init_idle: "\<not> ps_syncing presence_init"
  by (simp add: presence_init_def)

lemma presence_message_refines_witness:
  "pres_members (fst (presence_handle_message (demo_frame [demo_member PRESENCE_ENTER ''ann'',
      demo_member PRESENCE_ENTER ''bob'', demo_member PRESENCE_LEAVE ''ann''] []) presence_init)) =
    [''bob'' \<mapsto> (demo_member PRESENCE_PRESENT ''bob'', False)]"
  using presence_message_refines [of presence_init "demo_frame [demo_member PRESENCE_ENTER ''ann'',
      demo_member PRESENCE_ENTER ''bob'', demo_member PRESENCE_LEAVE ''ann''] []"]
  by (simp add: pres_init_inv pres_members_init within_limit_Cons within_limit_Nil spec_handle_def)

text \<open>C26. A SYNC that begins while none is in progress converges: after pages that carry a cursor and a last page
  without one, exactly the members listed in the pages are present, with the data of their last mention, none is
  stale and the SYNC is over; provided that the members from before and those listed, together, are at most 96,
  three quarters of the documented 128.\<close>

theorem presence_sync_converges:
  assumes inv: "pres_inv ps" and idle: "\<not> ps_syncing ps"
    and ok: "list_all frame_presence_ok (fs @ [f])"
    and pages: "\<forall>g \<in> set fs. \<not> is_last_page (pf_sync_serial g)" "is_last_page (pf_sync_serial f)"
    and fits: "card (dom (pres_members ps) \<union> pm_client_id ` set (concat (map pf_presence_msgs (fs @ [f])))) \<le> 96"
  shows "pres_members (sync_pages (fs @ [f]) ps) = page_entries (concat (map pf_presence_msgs (fs @ [f]))) \<and>
    \<not> ps_syncing (sync_pages (fs @ [f]) ps) \<and> pres_inv (sync_pages (fs @ [f]) ps)"
proof -
  let ?msgs = "concat (map pf_presence_msgs (fs @ [f]))"
  have "fold (\<lambda>m. limited_upsert (m\<lparr>pm_action := PRESENCE_PRESENT\<rparr>)) ?msgs (spec_begin (pres_members ps)) =
      spec_begin (pres_members ps) ++ page_entries ?msgs"
    using fits by (intro fold_upsert_all) (simp_all add: dom_spec_begin dom_pres_members finite_dom_hm_abs)
  then show ?thesis
    using sync_pages_refines [OF inv ok] spec_pages_all [OF pages] idle by (simp add: spec_end_begin)
qed

lemma presence_sync_converges_witness:
  "pres_members (sync_pages ([demo_frame [demo_member PRESENCE_PRESENT ''ann''] ''s:1''] @
      [demo_frame [demo_member PRESENCE_PRESENT ''bob''] ''s:'']) presence_init) =
    page_entries [demo_member PRESENCE_PRESENT ''ann'', demo_member PRESENCE_PRESENT ''bob'']"
  using presence_sync_converges [of presence_init "[demo_frame [demo_member PRESENCE_PRESENT ''ann''] ''s:1'']"
      "demo_frame [demo_member PRESENCE_PRESENT ''bob''] ''s:''"]
  by (simp add: pres_init_inv pres_members_init is_last_page_def presence_init_idle)

text \<open>What subscribers see of a one-page SYNC: its messages in order, then one LEAVE for each member
  known before that the page does not list.\<close>

theorem presence_sync_leaves:
  assumes "pres_inv ps" "frame_presence_ok frame" "\<not> ps_syncing ps" "is_last_page (pf_sync_serial frame)"
  shows "\<exists>leaves. snd (presence_handle_sync frame ps) =
       concat (map (notify_subscribers ps) (pf_presence_msgs frame)) @
       concat (map (notify_subscribers ps) leaves) \<and>
     set leaves = {m\<lparr>pm_action := PRESENCE_LEAVE\<rparr> | m k s. pres_members ps k = Some (m, s) \<and>
       k \<notin> pm_client_id ` set (pf_presence_msgs frame)}"
  by (rule handle_sync_events [OF assms])

lemma demo_ann: "pres_inv (fst (presence_handle_message (demo_frame [demo_member PRESENCE_ENTER ''ann''] [])
    presence_init))" (is "pres_inv ?ps")
  "pres_members (fst (presence_handle_message (demo_frame [demo_member PRESENCE_ENTER ''ann''] []) presence_init)) =
    [''ann'' \<mapsto> (demo_member PRESENCE_PRESENT ''ann'', False)]"
  "\<not> ps_syncing (fst (presence_handle_message (demo_frame [demo_member PRESENCE_ENTER ''ann''] []) presence_init))"
  using handle_message_fold [OF pres_init_inv, of "[demo_member PRESENCE_ENTER ''ann'']" "[]"]
    handle_presence_refines [OF pres_init_inv, of "demo_member PRESENCE_ENTER ''ann''" "[]"]
  by (simp_all add: presence_handle_message_def pres_members_init limited_handle_def limited_upsert_def presence_init_idle)

lemma presence_sync_leaves_witness:
  "\<exists>ps leaves. pres_members ps = [''ann'' \<mapsto> (demo_member PRESENCE_PRESENT ''ann'', False)] \<and>
     snd (presence_handle_sync (demo_frame [] []) ps) = concat (map (notify_subscribers ps) leaves) \<and>
     set leaves = {demo_member PRESENCE_LEAVE ''ann''}"
  using presence_sync_leaves [OF demo_ann(1), of "demo_frame [] []"] demo_ann(2,3)
  by (fastforce simp: is_last_page_def split: if_splits)

text \<open>The 97th member is lost: \<^verbatim>\<open>ABLY_MAX_PRESENCE_MEMBERS\<close> is 128, but the index of 128 slots refuses
  insertions from 96 entries on. The ENTER of a new client then leaves the member set as it is, while the
  subscribers are told that the client entered.\<close>

theorem presence_limit_is_96:
  assumes inv: "pres_inv ps" and full: "card (dom (pres_members ps)) = 96"
    and new: "pm_client_id m \<notin> dom (pres_members ps)" and enter: "pm_action m = PRESENCE_ENTER"
    and ok: "presence_ok m" and frame: "pf_presence_msgs frame = [m]"
  shows "pres_members (fst (presence_handle_message frame ps)) = pres_members ps \<and>
    snd (presence_handle_message frame ps) = notify_subscribers ps m"
  using handle_message_fold [OF inv, of "[m]" "[]"] full new enter ok
  by (simp add: presence_handle_message_def frame limited_handle_def limited_upsert_def pres_known_def)

definition demo_crowd :: "ably_presence_message list" where
  "demo_crowd = map (\<lambda>n. demo_member PRESENCE_PRESENT (replicate n (CHR ''a''))) [0..<96]"

lemma demo_crowd_members:
  defines "ps \<equiv> sync_pages ([] @ [demo_frame demo_crowd []]) presence_init"
  shows "pres_inv ps" "card (dom (pres_members ps)) = 96" "''b'' \<notin> dom (pres_members ps)"
proof -
  have c: "pm_client_id ` set demo_crowd = (\<lambda>n. replicate n (CHR ''a'')) ` {0..<96}"
    by (auto simp: demo_crowd_def image_image)
  have "inj_on (\<lambda>n. replicate n (CHR ''a'')) {0..<96}"
    by (rule inj_onI) (metis length_replicate)
  then have card: "card (pm_client_id ` set demo_crowd) = 96" by (simp add: c card_image)
  have ok: "list_all presence_ok demo_crowd" by (auto simp: demo_crowd_def list_all_iff)
  have r: "pres_inv ps \<and> (pres_members ps, ps_syncing ps) =
      (spec_end (spec_begin Map.empty ++ page_entries demo_crowd), False)"
    using sync_pages_refines [OF pres_init_inv, of "[] @ [demo_frame demo_crowd []]"] ok
      spec_pages_all [of "[]" "demo_frame demo_crowd []" Map.empty]
      fold_upsert_all [of "spec_begin Map.empty" demo_crowd] card
    by (simp add: ps_def pres_members_init is_last_page_def presence_init_idle dom_spec_begin)
  show "pres_inv ps" using r by simp
  have m: "pres_members ps = page_entries demo_crowd" using r by (simp add: spec_end_begin)
  show "card (dom (pres_members ps)) = 96" by (simp add: m dom_page_entries card)
  have "replicate n (CHR ''a'') \<noteq> ''b''" for n :: nat by (cases n) auto
  then show "''b'' \<notin> dom (pres_members ps)" unfolding m dom_page_entries c by (metis imageE)
qed

lemma presence_limit_is_96_witness:
  "\<exists>ps. card (dom (pres_members ps)) = 96 \<and>
     pres_members (fst (presence_handle_message (demo_frame [demo_member PRESENCE_ENTER ''b''] []) ps)) =
       pres_members ps"
  using presence_limit_is_96 [OF demo_crowd_members(1,2), of "demo_member PRESENCE_ENTER ''b''"
      "demo_frame [demo_member PRESENCE_ENTER ''b''] []"] demo_crowd_members
  by auto

text \<open>\<^verbatim>\<open>get_members\<close> reports the size of the abstract member set and writes, without repetition, as
  many of the current members as fit the caller's array.\<close>

theorem presence_get_members_correct:
  assumes "pres_inv ps"
  shows "snd (presence_get_members (Some n) ps) = card (dom (pres_members ps)) \<and>
    length (fst (presence_get_members (Some n) ps)) = min n (card (dom (pres_members ps))) \<and>
    distinct (map pm_client_id (fst (presence_get_members (Some n) ps))) \<and>
    (\<forall>m. m \<in> set (fst (presence_get_members (Some n) ps)) \<longrightarrow>
       (\<exists>s. pres_members ps (pm_client_id m) = Some (m, s)))"
  using length_present_members [OF assms] distinct_present_members [OF assms] set_present_members [OF assms]
  by (auto simp: presence_get_members_def distinct_take take_map [symmetric] dest: in_set_takeD)

lemma presence_get_members_correct_witness:
  "snd (presence_get_members (Some 2) (fst (presence_handle_message
     (demo_frame [demo_member PRESENCE_ENTER ''ann''] []) presence_init))) = 1"
  using presence_get_members_correct [OF demo_ann(1), of 2] demo_ann(2) by simp

end
