(* ===== verification/Ably_Channel.thy ===== *)
theory Ably_Channel
  imports Ably_Presence Ably_Base64 Ably_Vcdiff
begin

text \<open>
  \<^verbatim>\<open>src/realtime/channel.c\<close>: the channel state machine, the message subscribers, the queue of
  messages published while ATTACHING, delta decoding, and the channel side of presence; and
  \<^verbatim>\<open>rt_recover_gap\<close> of \<^verbatim>\<open>realtime_client.c\<close>, which the ATTACHED handler calls.

  An operation works on a world: the channel, the client core it points to, and the callbacks made so
  far. Callbacks are named by positive numbers, 0 is the null pointer. A message callback may call
  back into the channel: what callback \<open>cb\<close> does with a message is the argument \<open>env cb msg\<close>, a
  function on worlds. State, occupancy and presence callbacks are events only. \<^verbatim>\<open>ably_mem_malloc\<close>
  succeeds or fails by an argument.
\<close>

section \<open>State\<close>

record subscriber =
  sub_token :: int
  sub_cb :: nat
  sub_name_filter :: string

text \<open>\<open>ch_delta_bufs\<close> holds, for each of the two buffers, the first \<^verbatim>\<open>delta_buf_len\<close> bytes. The
  inactive buffer is scratch space that is never read before it is overwritten; the model does not
  track what it holds in between.\<close>

record channel =
  ch_name :: string
  ch_state :: ably_channel_state
  ch_subscribers :: "subscriber list"
  ch_next_token :: int
  ch_state_cb :: nat
  ch_reattach_pending :: bool
  ch_rewind :: int
  ch_channel_serial :: string
  ch_occupancy_listener :: nat
  ch_channel_modes :: u32
  ch_granted_modes :: u32
  ch_last_error :: ably_error_info
  ch_delta_enabled :: bool
  ch_delta_bufs :: "byte list list"
  ch_delta_buf_idx :: nat
  ch_delta_last_id :: string
  ch_pres :: "presence_state option"
  ch_pending :: "(string \<times> string) ring"

datatype chan_event =
    Ev_State nat ably_channel_state ably_channel_state ably_error
  | Ev_Message nat ably_message
  | Ev_Occupancy nat ably_occupancy
  | Ev_Presence nat ably_presence_message
  | Ev_Undefined vc_fault \<comment> \<open>undefined behaviour of the C code; nothing after it is meaningful\<close>

record 'c chan_world =
  cw_ch :: channel
  cw_core :: 'c
  cw_events :: "chan_event list"

type_synonym 'c cb_env = "nat \<Rightarrow> ably_message \<Rightarrow> 'c chan_world \<Rightarrow> 'c chan_world"

text \<open>The history call of the REST client that gap recovery creates: channel, limit, direction and
  cursor to a page. The client may fail to be created.\<close>

type_synonym history_fn = "string \<Rightarrow> int \<Rightarrow> string \<Rightarrow> string \<Rightarrow> ably_history_page option"

definition emit :: "chan_event list \<Rightarrow> 'c chan_world \<Rightarrow> 'c chan_world" where
  "emit ev w = w\<lparr>cw_events := cw_events w @ ev\<rparr>"

definition set_ch :: "(channel \<Rightarrow> channel) \<Rightarrow> 'c chan_world \<Rightarrow> 'c chan_world" where
  "set_ch f w = w\<lparr>cw_ch := f (cw_ch w)\<rparr>"

definition chan_enqueue :: "string \<Rightarrow> 'x rt_core_scheme chan_world \<Rightarrow> ably_error \<times> 'x rt_core_scheme chan_world" where
  "chan_enqueue payload w =
     (let (e, c) = rt_enqueue_frame payload (cw_core w) in (e, w\<lparr>cw_core := c\<rparr>))"

definition free_subscriber :: subscriber where
  "free_subscriber = \<lparr>sub_token = 0, sub_cb = 0, sub_name_filter = []\<rparr>"

definition channel_create :: "string \<Rightarrow> channel" where
  "channel_create name =
     \<lparr>ch_name = c_copy ABLY_MAX_CHANNEL_NAME_LEN name, ch_state = CHAN_INITIALIZED,
      ch_subscribers = replicate ABLY_MAX_SUBSCRIBERS_PER_CHANNEL free_subscriber, ch_next_token = 1,
      ch_state_cb = 0, ch_reattach_pending = False, ch_rewind = 0, ch_channel_serial = [],
      ch_occupancy_listener = 0, ch_channel_modes = 0, ch_granted_modes = 0,
      ch_last_error = no_error_info, ch_delta_enabled = False, ch_delta_bufs = [[], []],
      ch_delta_buf_idx = 0, ch_delta_last_id = [], ch_pres = None,
      ch_pending = empty_ring ABLY_CHANNEL_PENDING_CAPACITY ([], [])\<rparr>"

definition set_state_locked ::
  "ably_channel_state \<Rightarrow> ably_error \<Rightarrow> 'c chan_world \<Rightarrow> 'c chan_world" where
  "set_state_locked new_state reason w =
     (let ch = cw_ch w; old = ch_state ch
      in if old = new_state then w
         else emit (if ch_state_cb ch = 0 then [] else [Ev_State (ch_state_cb ch) new_state old reason])
                (w\<lparr>cw_ch := ch\<lparr>ch_state := new_state\<rparr>\<rparr>))"

section \<open>Delivery to subscribers\<close>

definition sub_matches :: "subscriber \<Rightarrow> string option \<Rightarrow> bool" where
  "sub_matches sub name \<longleftrightarrow> sub_name_filter sub = [] \<or> name = Some (sub_name_filter sub)"

text \<open>The loop over the slots, here the indices still to visit. After the callback the token of the
  slot is compared with the one before.\<close>

fun deliver_loop :: "'c cb_env \<Rightarrow> ably_message \<Rightarrow> nat list \<Rightarrow> 'c chan_world \<Rightarrow> 'c chan_world" where
  "deliver_loop env msg [] w = w"
| "deliver_loop env msg (i # slots) w =
     (let sub = ch_subscribers (cw_ch w) ! i
      in if sub_token sub = 0 \<or> \<not> sub_matches sub (am_name msg) then deliver_loop env msg slots w
         else let w' = env (sub_cb sub) msg (emit [Ev_Message (sub_cb sub) msg] w)
              in if sub_token (ch_subscribers (cw_ch w') ! i) \<noteq> sub_token sub then w'
                 else deliver_loop env msg slots w')"

definition deliver_message :: "'c cb_env \<Rightarrow> ably_message \<Rightarrow> 'c chan_world \<Rightarrow> 'c chan_world" where
  "deliver_message env msg w = deliver_loop env msg [0..<ABLY_MAX_SUBSCRIBERS_PER_CHANNEL] w"

definition channel_deliver_history :: "'c cb_env \<Rightarrow> ably_message \<Rightarrow> 'c chan_world \<Rightarrow> 'c chan_world" where
  "channel_deliver_history env msg w = deliver_message env msg w"

section \<open>Resolving the payload\<close>

text \<open>Characters of a C string as bytes, and a NUL-terminated buffer as a C string.\<close>

definition bytes_of :: "string \<Rightarrow> byte list" where
  "bytes_of s = map of_char s"

definition text_of :: "byte list \<Rightarrow> string" where
  "text_of bs = c_string (map (\<lambda>b. char_of (unat b)) bs)"

datatype resolved = Res_Data "string option" | Res_Drop | Res_Undefined vc_fault

text \<open>The first stage: a base64 payload that is not a delta.\<close>

definition resolve_base64 :: "ably_proto_message \<Rightarrow> string option" where
  "resolve_base64 pm =
     (case (prm_data pm, prm_encoding pm, prm_delta_format pm) of
        (Some data, Some enc, None) \<Rightarrow>
          if find_sub ''base64'' enc \<noteq> None then
            (case ably_base64_decode (ABLY_MAX_MESSAGE_DATA_LEN - 1) data of
               None \<Rightarrow> Some data | Some bs \<Rightarrow> Some (text_of bs))
          else Some data
      | (data, _, _) \<Rightarrow> data)"

text \<open>A delta message: decode into the buffer that is not the base. \<open>continue\<close> is \<open>Res_Drop\<close>.\<close>

definition resolve_delta :: "ably_proto_message \<Rightarrow> channel \<Rightarrow> resolved \<times> channel" where
  "resolve_delta pm ch =
     (let b64 = c_str (prm_data pm); src_idx = ch_delta_buf_idx ch; dst_idx = 1 - src_idx
      in if ably_base64_decode_max_len (length b64) > ABLY_MAX_MESSAGE_DATA_LEN then (Res_Drop, ch)
         else case ably_base64_decode ABLY_MAX_MESSAGE_DATA_LEN b64 of
           None \<Rightarrow> (Res_Drop, ch)
         | Some raw \<Rightarrow>
             if length raw > ABLY_MAX_MESSAGE_DATA_LEN then (Res_Drop, ch)
             else case ably_vcdiff_decode (Some (ch_delta_bufs ch ! src_idx)) (Some raw)
                         (Some (ABLY_MAX_MESSAGE_DATA_LEN - 1)) of
               VC_OK out \<Rightarrow> (Res_Data (Some (text_of out)),
                  ch\<lparr>ch_delta_bufs := (ch_delta_bufs ch)[dst_idx := out], ch_delta_buf_idx := dst_idx\<rparr>)
             | VC_ERR e \<Rightarrow> (Res_Drop, ch)
             | VC_FAULT u \<Rightarrow> (Res_Undefined u, ch))"

text \<open>A full message on a delta channel becomes the new base.\<close>

definition store_base :: "ably_proto_message \<Rightarrow> string \<Rightarrow> channel \<Rightarrow> channel" where
  "store_base pm data ch =
     (let dst_idx = 1 - ch_delta_buf_idx ch;
          ch = (if length data < ABLY_MAX_MESSAGE_DATA_LEN
                then ch\<lparr>ch_delta_bufs := (ch_delta_bufs ch)[dst_idx := bytes_of data],
                        ch_delta_buf_idx := dst_idx\<rparr>
                else ch)
      in case prm_id pm of None \<Rightarrow> ch | Some i \<Rightarrow> ch\<lparr>ch_delta_last_id := c_copy 128 i\<rparr>)"

definition resolve_data :: "ably_proto_message \<Rightarrow> channel \<Rightarrow> resolved \<times> channel" where
  "resolve_data pm ch =
     (if ch_delta_enabled ch \<and> prm_delta_format pm = Some ''vcdiff'' then resolve_delta pm ch
      else case (ch_delta_enabled ch, prm_data pm) of
        (True, Some data) \<Rightarrow> (Res_Data (Some data), store_base pm data ch)
      | _ \<Rightarrow> (Res_Data (resolve_base64 pm), ch))"

definition message_of :: "ably_proto_message \<Rightarrow> string option \<Rightarrow> ably_message" where
  "message_of pm data = \<lparr>am_id = prm_id pm, am_name = prm_name pm, am_data = data,
     am_client_id = prm_client_id pm, am_timestamp = prm_timestamp pm\<rparr>"

fun handle_messages :: "'c cb_env \<Rightarrow> ably_proto_message list \<Rightarrow> 'c chan_world \<Rightarrow> 'c chan_world" where
  "handle_messages env [] w = w"
| "handle_messages env (pm # pms) w =
     (case resolve_data pm (cw_ch w) of
        (Res_Drop, ch) \<Rightarrow> handle_messages env pms (w\<lparr>cw_ch := ch\<rparr>)
      | (Res_Undefined u, ch) \<Rightarrow> emit [Ev_Undefined u] (w\<lparr>cw_ch := ch\<rparr>)
      | (Res_Data data, ch) \<Rightarrow>
          let w1 = w\<lparr>cw_ch := ch\<rparr>;
              w2 = (if prm_has_occupancy pm \<and> ch_occupancy_listener ch \<noteq> 0
                    then emit [Ev_Occupancy (ch_occupancy_listener ch) (prm_occupancy pm)] w1 else w1)
          in handle_messages env pms (deliver_message env (message_of pm data) w2))"

section \<open>The queue of messages published while ATTACHING\<close>

definition PUBLISH_BUF :: nat where
  "PUBLISH_BUF = ABLY_MAX_CHANNEL_NAME_LEN + ABLY_MAX_MESSAGE_NAME_LEN + ABLY_MAX_MESSAGE_DATA_LEN + 128"

text \<open>Claim a serial, encode, and enqueue; the encoded frame may not fit its buffer (the empty
  string), the ring may be full.\<close>

definition publish_frame ::
  "codec_lib \<Rightarrow> nat \<Rightarrow> string option \<Rightarrow> string option \<Rightarrow> string option \<Rightarrow>
   'x rt_core_scheme chan_world \<Rightarrow> ably_error \<times> 'x rt_core_scheme chan_world" where
  "publish_frame lib buf_size name data msg_id w =
     (let (serial, c) = rt_claim_msg_serial (cw_core w);
          buf = proto_encode_publish lib buf_size (ch_name (cw_ch w)) name data
                  (c_opt (rc_client_id c)) msg_id serial (rc_encoding c);
          w1 = w\<lparr>cw_core := c\<rparr>
      in if buf = [] then (ABLY_ERR_INTERNAL, w1) else chan_enqueue buf w1)"

text \<open>The loop of \<^verbatim>\<open>flush_pending_queue\<close>, for at most \<open>n\<close> messages; the results of the encoder and of
  the ring are not looked at.\<close>

fun flush_loop :: "codec_lib \<Rightarrow> nat \<Rightarrow> 'x rt_core_scheme chan_world \<Rightarrow> 'x rt_core_scheme chan_world" where
  "flush_loop lib 0 w = w"
| "flush_loop lib (Suc n) w =
     (case ring_peek (ch_pending (cw_ch w)) of
        None \<Rightarrow> w
      | Some (name, data) \<Rightarrow>
          let (e, w1) = publish_frame lib PUBLISH_BUF (c_opt name) (c_opt data) None w
          in flush_loop lib n
               (set_ch (\<lambda>ch. ch\<lparr>ch_pending := ring_consume ABLY_CHANNEL_PENDING_CAPACITY (ch_pending ch)\<rparr>) w1))"

definition flush_pending_queue ::
  "codec_lib \<Rightarrow> 'x rt_core_scheme chan_world \<Rightarrow> 'x rt_core_scheme chan_world" where
  "flush_pending_queue lib w = flush_loop lib ABLY_CHANNEL_PENDING_CAPACITY w"

section \<open>Gap recovery\<close>

text \<open>At most 50 pages of 100 messages; \<open>n\<close> counts the pages left.\<close>

fun gap_pages :: "'c cb_env \<Rightarrow> history_fn \<Rightarrow> nat \<Rightarrow> string \<Rightarrow> 'c chan_world \<Rightarrow> 'c chan_world" where
  "gap_pages env history 0 cursor w = w"
| "gap_pages env history (Suc n) cursor w =
     (if cursor = [] then w
      else case history (ch_name (cw_ch w)) 100 ''forwards'' cursor of
        None \<Rightarrow> w
      | Some page \<Rightarrow>
          gap_pages env history n
            (if hp_next_cursor page = [] then [] else c_copy 256 (hp_next_cursor page))
            (fold (channel_deliver_history env) (hp_items page) w))"

definition rt_recover_gap :: "'c cb_env \<Rightarrow> history_fn option \<Rightarrow> 'c chan_world \<Rightarrow> 'c chan_world" where
  "rt_recover_gap env rest w =
     (case rest of None \<Rightarrow> w
      | Some history \<Rightarrow> gap_pages env history 50 (c_copy 256 (ch_channel_serial (cw_ch w))) w)"

section \<open>Inbound frames\<close>

definition presence_events :: "presence_event list \<Rightarrow> chan_event list" where
  "presence_events ev = map (\<lambda>(cb, m). Ev_Presence cb m) ev"

text \<open>Run a presence handler on the channel's presence state, if it has one.\<close>

definition with_pres ::
  "(presence_state \<Rightarrow> presence_state \<times> presence_event list) \<Rightarrow> 'c chan_world \<Rightarrow> 'c chan_world" where
  "with_pres f w =
     (case ch_pres (cw_ch w) of
        None \<Rightarrow> w
      | Some ps \<Rightarrow>
          let (ps', ev) = f ps in emit (presence_events ev) (set_ch (\<lambda>ch. ch\<lparr>ch_pres := Some ps'\<rparr>) w))"

text \<open>\<^verbatim>\<open>if (frame->channel_serial[0]) memcpy(...)\<close>.\<close>

definition track_serial :: "ably_proto_frame \<Rightarrow> channel \<Rightarrow> channel" where
  "track_serial frame ch =
     (if pf_channel_serial frame = [] then ch else ch\<lparr>ch_channel_serial := pf_channel_serial frame\<rparr>)"

definition on_attached ::
  "codec_lib \<Rightarrow> ('x rt_core_scheme) cb_env \<Rightarrow> history_fn option \<Rightarrow> ably_proto_frame \<Rightarrow>
   'x rt_core_scheme chan_world \<Rightarrow> 'x rt_core_scheme chan_world" where
  "on_attached lib env rest frame w =
     (let resumed = has_flag (pf_flags frame) FLAG_RESUMED;
          w1 = set_state_locked CHAN_ATTACHED ABLY_OK (set_ch (\<lambda>ch. (track_serial frame
                 (ch\<lparr>ch_reattach_pending := False, ch_granted_modes := pf_channel_modes frame\<rparr>))
                 \<lparr>ch_last_error := no_error_info\<rparr>) w);
          w2 = flush_pending_queue lib w1;
          w3 = (if has_flag (pf_flags frame) FLAG_HAS_PRESENCE
                then with_pres (presence_handle_sync frame) w2 else w2);
          w4 = (if (\<not> resumed \<or> has_flag (pf_flags frame) FLAG_HAS_BACKLOG) \<and>
                   ch_channel_serial (cw_ch w3) \<noteq> []
                then rt_recover_gap env rest w3 else w3)
      in if resumed then w4
         else case ch_pres (cw_ch w4) of
           None \<Rightarrow> w4
         | Some ps \<Rightarrow> w4\<lparr>cw_core := presence_reenter_own lib (ch_name (cw_ch w4)) ps (cw_core w4)\<rparr>)"

definition channel_fail :: "ably_proto_frame \<Rightarrow> 'c chan_world \<Rightarrow> 'c chan_world" where
  "channel_fail frame w =
     set_state_locked CHAN_FAILED ABLY_ERR_PROTOCOL
       (set_ch (\<lambda>ch. ch\<lparr>ch_last_error := error_info (pf_error_code frame) (pf_error_message frame)\<rparr>) w)"

definition channel_on_frame ::
  "codec_lib \<Rightarrow> ('x rt_core_scheme) cb_env \<Rightarrow> history_fn option \<Rightarrow> ably_proto_frame \<Rightarrow>
   'x rt_core_scheme chan_world \<Rightarrow> 'x rt_core_scheme chan_world" where
  "channel_on_frame lib env rest frame w =
     (case pf_action frame of
        ACTION_ATTACHED \<Rightarrow> on_attached lib env rest frame w
      | ACTION_DETACHED \<Rightarrow>
          if pf_error_code frame \<noteq> 0 then channel_fail frame w
          else set_state_locked CHAN_DETACHED ABLY_OK (set_ch (\<lambda>ch. ch\<lparr>ch_last_error := no_error_info\<rparr>) w)
      | ACTION_MESSAGE \<Rightarrow> handle_messages env (pf_messages frame) (set_ch (track_serial frame) w)
      | ACTION_PRESENCE \<Rightarrow> with_pres (presence_handle_message frame) (set_ch (track_serial frame) w)
      | ACTION_SYNC \<Rightarrow> with_pres (presence_handle_sync frame) w
      | ACTION_ERROR \<Rightarrow> channel_fail frame w
      | _ \<Rightarrow> w)"

definition channel_on_disconnect :: "'c chan_world \<Rightarrow> 'c chan_world" where
  "channel_on_disconnect w =
     set_ch (\<lambda>ch. ch\<lparr>ch_delta_bufs := [[], []], ch_delta_buf_idx := 0, ch_delta_last_id := []\<rparr>)
       (set_state_locked CHAN_DETACHED ABLY_ERR_NETWORK
         (set_ch (\<lambda>ch. if ch_state ch = CHAN_ATTACHED \<or> ch_state ch = CHAN_ATTACHING
                       then ch\<lparr>ch_reattach_pending := True\<rparr> else ch) w))"

definition channel_set_attaching :: "'c chan_world \<Rightarrow> 'c chan_world" where
  "channel_set_attaching w =
     set_state_locked CHAN_ATTACHING ABLY_OK (set_ch (\<lambda>ch. ch\<lparr>ch_reattach_pending := False\<rparr>) w)"

definition channel_needs_reattach :: "channel \<Rightarrow> bool" where
  "channel_needs_reattach ch = ch_reattach_pending ch"

section \<open>Attaching, detaching and subscribing\<close>

definition channel_enable_delta :: "bool \<Rightarrow> channel \<Rightarrow> ably_error \<times> channel" where
  "channel_enable_delta mem_ok ch =
     (if ch_state ch = CHAN_ATTACHED \<or> ch_state ch = CHAN_ATTACHING then (ABLY_ERR_STATE, ch)
      else if ch_delta_enabled ch then (ABLY_OK, ch)
      else if \<not> mem_ok then (ABLY_ERR_NOMEM, ch)
      else (ABLY_OK, ch\<lparr>ch_delta_bufs := [[], []], ch_delta_buf_idx := 0, ch_delta_last_id := [],
             ch_delta_enabled := True\<rparr>))"

definition channel_set_state_cb :: "nat \<Rightarrow> channel \<Rightarrow> channel" where
  "channel_set_state_cb cb ch = ch\<lparr>ch_state_cb := cb\<rparr>"

text \<open>The parameters of both ATTACH encoders calls; \<^verbatim>\<open>channel_modes\<close> stays zero.\<close>

definition channel_attach_params :: "channel \<Rightarrow> attach_params" where
  "channel_attach_params ch =
     no_attach_params\<lparr>ap_delta := ch_delta_enabled ch, ap_rewind := ch_rewind ch,
       ap_occupancy := ch_occupancy_listener ch \<noteq> 0, ap_channel_serial := c_opt (ch_channel_serial ch)\<rparr>"

definition channel_attach ::
  "codec_lib \<Rightarrow> 'x rt_core_scheme chan_world \<Rightarrow> ably_error \<times> 'x rt_core_scheme chan_world" where
  "channel_attach lib w =
     (let ch = cw_ch w
      in if ch_state ch = CHAN_ATTACHED \<or> ch_state ch = CHAN_ATTACHING then (ABLY_OK, w)
         else if rc_state (cw_core w) \<noteq> CONN_CONNECTED then (ABLY_ERR_STATE, w)
         else let buf = proto_encode_attach lib (ABLY_MAX_CHANNEL_NAME_LEN + 256) (ch_name ch)
                          (channel_attach_params ch) (rc_encoding (cw_core w))
              in if buf = [] then (ABLY_ERR_INTERNAL, w)
                 else case chan_enqueue buf w of (err, w1) \<Rightarrow>
                   if err \<noteq> ABLY_OK then (err, w1)
                   else (ABLY_OK, set_state_locked CHAN_ATTACHING ABLY_OK w1))"

definition channel_detach ::
  "codec_lib \<Rightarrow> 'x rt_core_scheme chan_world \<Rightarrow> ably_error \<times> 'x rt_core_scheme chan_world" where
  "channel_detach lib w =
     (let ch = cw_ch w
      in if ch_state ch \<noteq> CHAN_ATTACHED \<and> ch_state ch \<noteq> CHAN_ATTACHING then (ABLY_ERR_STATE, w)
         else let buf = proto_encode_detach lib (ABLY_MAX_CHANNEL_NAME_LEN + 32) (ch_name ch)
                          (rc_encoding (cw_core w))
              in if buf = [] then (ABLY_ERR_INTERNAL, w)
                 else case chan_enqueue buf w of (err, w1) \<Rightarrow>
                   if err \<noteq> ABLY_OK then (err, w1)
                   else (ABLY_OK, set_state_locked CHAN_DETACHING ABLY_OK w1))"

text \<open>A positive token, or the code of \<^verbatim>\<open>ABLY_ERR_CAPACITY\<close>.\<close>

definition channel_subscribe :: "string option \<Rightarrow> nat \<Rightarrow> channel \<Rightarrow> int \<times> channel" where
  "channel_subscribe name_filter cb ch =
     (case first_index (\<lambda>s. sub_token s = 0) (ch_subscribers ch) of
        None \<Rightarrow> (ably_error_code ABLY_ERR_CAPACITY, ch)
      | Some slot \<Rightarrow>
          let token = ch_next_token ch
          in (token, ch\<lparr>ch_next_token := next_token token,
                ch_subscribers := (ch_subscribers ch)[slot := \<lparr>sub_token = token, sub_cb = cb,
                  sub_name_filter = (if c_nonempty name_filter
                    then c_copy ABLY_MAX_MESSAGE_NAME_LEN (c_str name_filter) else [])\<rparr>]\<rparr>))"

definition channel_unsubscribe :: "int \<Rightarrow> channel \<Rightarrow> ably_error \<times> channel" where
  "channel_unsubscribe token ch =
     (if token \<le> 0 then (ABLY_ERR_INVALID_ARG, ch)
      else case first_index (\<lambda>s. sub_token s = token) (ch_subscribers ch) of
        None \<Rightarrow> (ABLY_ERR_INVALID_ARG, ch)
      | Some i \<Rightarrow> (ABLY_OK, ch\<lparr>ch_subscribers := (ch_subscribers ch)[i := free_subscriber]\<rparr>))"

section \<open>Publishing\<close>

definition channel_publish ::
  "codec_lib \<Rightarrow> string option \<Rightarrow> string option \<Rightarrow> 'x rt_core_scheme chan_world \<Rightarrow>
   ably_error \<times> 'x rt_core_scheme chan_world" where
  "channel_publish lib name data w =
     (let ch = cw_ch w
      in if ch_state ch = CHAN_ATTACHING then
           (case ring_enqueue ABLY_CHANNEL_PENDING_CAPACITY
                   (c_copy ABLY_MAX_MESSAGE_NAME_LEN (c_str name),
                    c_copy ABLY_MAX_MESSAGE_DATA_LEN (c_str data)) (ch_pending ch) of
              None \<Rightarrow> (ABLY_ERR_CAPACITY, w)
            | Some r \<Rightarrow> (ABLY_OK, w\<lparr>cw_ch := ch\<lparr>ch_pending := r\<rparr>\<rparr>))
         else if ch_state ch \<noteq> CHAN_ATTACHED then (ABLY_ERR_STATE, w)
         else publish_frame lib PUBLISH_BUF name data None w)"

definition channel_publish_with_id ::
  "codec_lib \<Rightarrow> string option \<Rightarrow> string option \<Rightarrow> string option \<Rightarrow> 'x rt_core_scheme chan_world \<Rightarrow>
   ably_error \<times> 'x rt_core_scheme chan_world" where
  "channel_publish_with_id lib name data msg_id w =
     (if ch_state (cw_ch w) = CHAN_ATTACHING then channel_publish lib name data w
      else if ch_state (cw_ch w) \<noteq> CHAN_ATTACHED then (ABLY_ERR_STATE, w)
      else publish_frame lib (PUBLISH_BUF + 128) name data msg_id w)"

definition channel_set_rewind :: "int \<Rightarrow> channel \<Rightarrow> channel" where
  "channel_set_rewind count ch = ch\<lparr>ch_rewind := (if 0 < count then count else 0)\<rparr>"

definition channel_set_occupancy_listener :: "nat \<Rightarrow> channel \<Rightarrow> channel" where
  "channel_set_occupancy_listener cb ch = ch\<lparr>ch_occupancy_listener := cb\<rparr>"

definition channel_set_modes :: "u32 \<Rightarrow> channel \<Rightarrow> channel" where
  "channel_set_modes modes ch = ch\<lparr>ch_channel_modes := modes\<rparr>"

definition channel_set_options ::
  "codec_lib \<Rightarrow> int \<Rightarrow> u32 \<Rightarrow> 'x rt_core_scheme chan_world \<Rightarrow> ably_error \<times> 'x rt_core_scheme chan_world" where
  "channel_set_options lib rewind modes w =
     (let w1 = set_ch (\<lambda>ch. channel_set_modes modes (channel_set_rewind rewind ch)) w;
          st = ch_state (cw_ch w1)
      in if st = CHAN_ATTACHED \<or> st = CHAN_ATTACHING then
           (case channel_detach lib w1 of (err, w2) \<Rightarrow>
              if err \<noteq> ABLY_OK then (err, w2) else channel_attach lib w2)
         else (ABLY_OK, w1))"

section \<open>Presence of the channel\<close>

definition ensure_pres :: "bool \<Rightarrow> channel \<Rightarrow> presence_state option \<times> channel" where
  "ensure_pres mem_ok ch =
     (case ch_pres ch of
        Some ps \<Rightarrow> (Some ps, ch)
      | None \<Rightarrow> if mem_ok then (Some presence_init, ch\<lparr>ch_pres := Some presence_init\<rparr>) else (None, ch))"

text \<open>The result of sending the ENTER is not looked at: \<^verbatim>\<open>return reenter_own(...), ABLY_OK\<close>.\<close>

definition channel_presence_enter ::
  "codec_lib \<Rightarrow> bool \<Rightarrow> string option \<Rightarrow> string option \<Rightarrow> 'x rt_core_scheme chan_world \<Rightarrow>
   ably_error \<times> 'x rt_core_scheme chan_world" where
  "channel_presence_enter lib mem_ok client_id data w =
     (let cid = (if c_nonempty client_id then c_str client_id else rc_client_id (cw_core w))
      in if cid = [] then (ABLY_ERR_INVALID_ARG, w)
         else if ch_state (cw_ch w) \<noteq> CHAN_ATTACHED then (ABLY_ERR_STATE, w)
         else case ensure_pres mem_ok (cw_ch w) of
           (None, ch) \<Rightarrow> (ABLY_ERR_NOMEM, w\<lparr>cw_ch := ch\<rparr>)
         | (Some ps, ch) \<Rightarrow>
             let ps1 = ps\<lparr>ps_own_client_id := c_copy ABLY_MAX_CLIENT_ID_LEN cid,
                          ps_own_data := c_copy ABLY_MAX_MESSAGE_DATA_LEN (c_str data),
                          ps_own_entered := True\<rparr>
             in (ABLY_OK, w\<lparr>cw_ch := ch\<lparr>ch_pres := Some ps1\<rparr>,
                   cw_core := presence_reenter_own lib (ch_name ch) ps1 (cw_core w)\<rparr>))"

text \<open>The frames of leave and update carry the data only when it is not empty.\<close>

definition send_own_presence ::
  "codec_lib \<Rightarrow> ably_presence_action \<Rightarrow> string option \<Rightarrow> presence_state \<Rightarrow> 'x rt_core_scheme chan_world \<Rightarrow>
   ably_error \<times> 'x rt_core_scheme chan_world" where
  "send_own_presence lib action data ps w =
     (let buf = proto_encode_presence lib PRESENCE_BUF (ch_name (cw_ch w)) action
                  (Some (ps_own_client_id ps)) (c_opt (c_str data)) (rc_encoding (cw_core w));
          w1 = w\<lparr>cw_ch := (cw_ch w)\<lparr>ch_pres := Some ps\<rparr>\<rparr>
      in if buf = [] then (ABLY_ERR_INTERNAL, w1) else chan_enqueue buf w1)"

definition channel_presence_leave ::
  "codec_lib \<Rightarrow> string option \<Rightarrow> 'x rt_core_scheme chan_world \<Rightarrow> ably_error \<times> 'x rt_core_scheme chan_world" where
  "channel_presence_leave lib data w =
     (if ch_state (cw_ch w) \<noteq> CHAN_ATTACHED then (ABLY_ERR_STATE, w)
      else case ch_pres (cw_ch w) of
        None \<Rightarrow> (ABLY_ERR_STATE, w)
      | Some ps \<Rightarrow>
          if \<not> ps_own_entered ps then (ABLY_ERR_STATE, w)
          else send_own_presence lib PRESENCE_LEAVE data (ps\<lparr>ps_own_entered := False\<rparr>) w)"

definition channel_presence_update ::
  "codec_lib \<Rightarrow> string option \<Rightarrow> 'x rt_core_scheme chan_world \<Rightarrow> ably_error \<times> 'x rt_core_scheme chan_world" where
  "channel_presence_update lib data w =
     (if ch_state (cw_ch w) \<noteq> CHAN_ATTACHED then (ABLY_ERR_STATE, w)
      else case ch_pres (cw_ch w) of
        None \<Rightarrow> (ABLY_ERR_STATE, w)
      | Some ps \<Rightarrow>
          if \<not> ps_own_entered ps then (ABLY_ERR_STATE, w)
          else send_own_presence lib PRESENCE_UPDATE data
                 (ps\<lparr>ps_own_data := c_copy ABLY_MAX_MESSAGE_DATA_LEN (c_str data)\<rparr>) w)"

definition channel_presence_subscribe :: "bool \<Rightarrow> nat \<Rightarrow> channel \<Rightarrow> int \<times> channel" where
  "channel_presence_subscribe mem_ok cb ch =
     (case ensure_pres mem_ok ch of
        (None, ch1) \<Rightarrow> (0, ch1)
      | (Some ps, ch1) \<Rightarrow>
          let (token, ps') = presence_subscribe cb ps in (token, ch1\<lparr>ch_pres := Some ps'\<rparr>))"

definition channel_presence_unsubscribe :: "int \<Rightarrow> channel \<Rightarrow> channel" where
  "channel_presence_unsubscribe token ch =
     ch\<lparr>ch_pres := map_option (presence_unsubscribe token) (ch_pres ch)\<rparr>"

definition channel_presence_get_members ::
  "nat option \<Rightarrow> channel \<Rightarrow> ably_presence_message list \<times> nat" where
  "channel_presence_get_members out_max ch =
     (case ch_pres ch of None \<Rightarrow> ([], 0) | Some ps \<Rightarrow> presence_get_members out_max ps)"

section \<open>Accessors\<close>

definition channel_get_state :: "channel \<Rightarrow> ably_channel_state" where
  "channel_get_state ch = ch_state ch"

definition channel_get_name :: "channel \<Rightarrow> string" where
  "channel_get_name ch = ch_name ch"

definition channel_get_last_error :: "channel \<Rightarrow> ably_error_info" where
  "channel_get_last_error ch = ch_last_error ch"

definition channel_get_granted_modes :: "channel \<Rightarrow> u32" where
  "channel_get_granted_modes ch = ch_granted_modes ch"

end
