(* ===== verification/Ably_Channel_Steps.thy ===== *)
theory Ably_Channel_Steps
  imports Ably_Channel
begin

text \<open>
  The life of a channel as a step relation: API calls of the application, inbound frames with
  callbacks that call back into the API, loss of the connection and re-attaching. The locale
  \<open>chan_invariant\<close> reduces the preservation of a property of worlds by all of these to the few
  primitive changes they are made of; it is interpreted for the well-formedness of the channel and for
  the account that the state callbacks give of the channel's state.
\<close>

section \<open>Calls and callbacks\<close>

datatype chan_op =
    Op_Attach | Op_Detach
  | Op_Subscribe "string option" nat | Op_Unsubscribe int
  | Op_Publish "string option" "string option"
  | Op_Publish_Id "string option" "string option" "string option"
  | Op_Set_Options int u32 | Op_Set_Modes u32 | Op_Set_Rewind int | Op_Set_Occupancy nat
  | Op_Set_State_Cb nat | Op_Enable_Delta bool
  | Op_Enter bool "string option" "string option" | Op_Leave "string option" | Op_Update "string option"
  | Op_Pres_Subscribe bool nat | Op_Pres_Unsubscribe int

fun chan_api :: "codec_lib \<Rightarrow> chan_op \<Rightarrow> 'x rt_core_scheme chan_world \<Rightarrow> 'x rt_core_scheme chan_world" where
  "chan_api lib Op_Attach w = snd (channel_attach lib w)"
| "chan_api lib Op_Detach w = snd (channel_detach lib w)"
| "chan_api lib (Op_Subscribe f cb) w = set_ch (\<lambda>ch. snd (channel_subscribe f cb ch)) w"
| "chan_api lib (Op_Unsubscribe t) w = set_ch (\<lambda>ch. snd (channel_unsubscribe t ch)) w"
| "chan_api lib (Op_Publish n d) w = snd (channel_publish lib n d w)"
| "chan_api lib (Op_Publish_Id n d i) w = snd (channel_publish_with_id lib n d i w)"
| "chan_api lib (Op_Set_Options r m) w = snd (channel_set_options lib r m w)"
| "chan_api lib (Op_Set_Modes m) w = set_ch (channel_set_modes m) w"
| "chan_api lib (Op_Set_Rewind r) w = set_ch (channel_set_rewind r) w"
| "chan_api lib (Op_Set_Occupancy cb) w = set_ch (channel_set_occupancy_listener cb) w"
| "chan_api lib (Op_Set_State_Cb cb) w = set_ch (channel_set_state_cb cb) w"
| "chan_api lib (Op_Enable_Delta ok) w = set_ch (\<lambda>ch. snd (channel_enable_delta ok ch)) w"
| "chan_api lib (Op_Enter ok c d) w = snd (channel_presence_enter lib ok c d w)"
| "chan_api lib (Op_Leave d) w = snd (channel_presence_leave lib d w)"
| "chan_api lib (Op_Update d) w = snd (channel_presence_update lib d w)"
| "chan_api lib (Op_Pres_Subscribe ok cb) w = set_ch (\<lambda>ch. snd (channel_presence_subscribe ok cb ch)) w"
| "chan_api lib (Op_Pres_Unsubscribe t) w = set_ch (channel_presence_unsubscribe t) w"

text \<open>A message callback makes the API calls that its script gives for the message.\<close>

type_synonym cb_script = "nat \<Rightarrow> ably_message \<Rightarrow> chan_op list"

definition script_env :: "codec_lib \<Rightarrow> cb_script \<Rightarrow> ('x rt_core_scheme) cb_env" where
  "script_env lib script cb msg w = fold (chan_api lib) (script cb msg) w"

text \<open>Steps; \<open>op_ok\<close> restricts the calls that the application and its callbacks make. The core may change
  on its own, as frames of other channels are queued and sent.\<close>

inductive chan_step ::
  "codec_lib \<Rightarrow> cb_script \<Rightarrow> (chan_op \<Rightarrow> bool) \<Rightarrow> 'x rt_core_scheme chan_world \<Rightarrow>
   'x rt_core_scheme chan_world \<Rightarrow> bool"
  for lib script op_ok
where
  step_api: "op_ok op \<Longrightarrow> chan_step lib script op_ok w (chan_api lib op w)"
| step_frame: "frame_bounded f \<Longrightarrow>
    chan_step lib script op_ok w (channel_on_frame lib (script_env lib script) rest f w)"
| step_disconnect: "chan_step lib script op_ok w (channel_on_disconnect w)"
| step_reattach: "chan_step lib script op_ok w (channel_set_attaching w)"
| step_core: "core_inv c \<Longrightarrow> chan_step lib script op_ok w (w\<lparr>cw_core := c\<rparr>)"

inductive chan_reach ::
  "codec_lib \<Rightarrow> cb_script \<Rightarrow> (chan_op \<Rightarrow> bool) \<Rightarrow> 'x rt_core_scheme chan_world \<Rightarrow>
   'x rt_core_scheme chan_world \<Rightarrow> bool"
  for lib script op_ok w0
where
  reach_start: "chan_reach lib script op_ok w0 w0"
| reach_step: "chan_reach lib script op_ok w0 w \<Longrightarrow> chan_step lib script op_ok w w' \<Longrightarrow>
    chan_reach lib script op_ok w0 w'"

inductive_cases chan_stepE [elim]: "chan_step lib script op_ok w w'"

section \<open>Well-formed channels\<close>

definition pres_state_ok :: "presence_state \<Rightarrow> bool" where
  "pres_state_ok ps \<longleftrightarrow> pres_inv ps \<and> length (ps_subs ps) = ABLY_MAX_PRESENCE_SUBSCRIBERS \<and>
     (\<forall>s \<in> set (ps_subs ps). 0 \<le> psub_token s) \<and> 0 < ps_next_token ps \<and>
     length (ps_own_client_id ps) < ABLY_MAX_CLIENT_ID_LEN \<and>
     length (ps_own_data ps) < ABLY_MAX_MESSAGE_DATA_LEN"

definition sub_ok :: "subscriber \<Rightarrow> bool" where
  "sub_ok s \<longleftrightarrow> 0 \<le> sub_token s \<and> length (sub_name_filter s) < ABLY_MAX_MESSAGE_NAME_LEN"

definition chan_inv :: "channel \<Rightarrow> bool" where
  "chan_inv ch \<longleftrightarrow>
     length (ch_name ch) < ABLY_MAX_CHANNEL_NAME_LEN \<and>
     length (ch_subscribers ch) = ABLY_MAX_SUBSCRIBERS_PER_CHANNEL \<and>
     (\<forall>s \<in> set (ch_subscribers ch). sub_ok s) \<and>
     0 < ch_next_token ch \<and> 0 \<le> ch_rewind ch \<and> length (ch_channel_serial ch) < 64 \<and>
     length (ch_delta_bufs ch) = 2 \<and> ch_delta_buf_idx ch < 2 \<and>
     (\<forall>b \<in> set (ch_delta_bufs ch). length b < ABLY_MAX_MESSAGE_DATA_LEN) \<and>
     length (ch_delta_last_id ch) < 128 \<and>
     ring_inv ABLY_CHANNEL_PENDING_CAPACITY (ch_pending ch) \<and>
     (case ch_pres ch of None \<Rightarrow> True | Some ps \<Rightarrow> pres_state_ok ps)"

text \<open>A change that leaves the name, the state and its callback alone and keeps a channel well-formed;
  and one that does not touch the subscriptions either.\<close>

definition resub :: "channel \<Rightarrow> channel \<Rightarrow> bool" where
  "resub ch ch' \<longleftrightarrow> ch_name ch' = ch_name ch \<and> ch_state ch' = ch_state ch \<and> ch_state_cb ch' = ch_state_cb ch \<and>
     (chan_inv ch \<longrightarrow> chan_inv ch')"

definition pres_tables :: "presence_state option \<Rightarrow> presence_sub list \<times> int" where
  "pres_tables p = (let ps = case p of None \<Rightarrow> presence_init | Some ps \<Rightarrow> ps in (ps_subs ps, ps_next_token ps))"

definition tables :: "channel \<Rightarrow> (subscriber list \<times> int) \<times> presence_sub list \<times> int" where
  "tables ch = ((ch_subscribers ch, ch_next_token ch), pres_tables (ch_pres ch))"

definition quiet :: "channel \<Rightarrow> channel \<Rightarrow> bool" where
  "quiet ch ch' \<longleftrightarrow> resub ch ch' \<and> (chan_inv ch \<longrightarrow> tables ch' = tables ch)"

named_theorems quiet_rules \<open>quiet changes of a channel\<close>

lemma next_token_pos: "0 < next_token t"
  by (simp add: next_token_def Let_def)

lemma resub_refl: "resub ch ch"
  by (simp add: resub_def)

lemma resub_trans: "resub a b \<Longrightarrow> resub b c \<Longrightarrow> resub a c"
  by (simp add: resub_def)

lemma quiet_refl [quiet_rules]: "quiet ch ch"
  by (simp add: quiet_def resub_def)

lemma quiet_trans: "quiet a b \<Longrightarrow> quiet b c \<Longrightarrow> quiet a c"
  by (simp add: quiet_def resub_def)

lemma quiet_resub: "quiet a b \<Longrightarrow> resub a b"
  by (simp add: quiet_def)

lemma chan_create_inv: "chan_inv (channel_create name)"
  by (auto simp: chan_inv_def channel_create_def sub_ok_def free_subscriber_def capacity_defs c_copy_fits
      ring_inv_def empty_ring_def ABLY_CHANNEL_PENDING_CAPACITY_def)

lemma list_update_all: "\<forall>x \<in> set xs. P x \<Longrightarrow> P y \<Longrightarrow> \<forall>x \<in> set (xs[i := y]). P x"
  using set_update_subset_insert [of xs i y] by blast

lemma quiet_fields [quiet_rules]:
  "quiet ch (channel_set_modes m ch)"
  "quiet ch (channel_set_rewind r ch)"
  "quiet ch (channel_set_occupancy_listener cb ch)"
  "quiet ch (ch\<lparr>ch_last_error := e\<rparr>)"
  "quiet ch (ch\<lparr>ch_reattach_pending := b\<rparr>)"
  "quiet ch (ch\<lparr>ch_reattach_pending := b, ch_granted_modes := g\<rparr>)"
  by (auto simp: quiet_def resub_def tables_def chan_inv_def channel_set_modes_def channel_set_rewind_def
      channel_set_occupancy_listener_def)

lemma free_sub_ok: "sub_ok free_subscriber"
  by (simp add: sub_ok_def free_subscriber_def capacity_defs)

lemma resub_subscribers:
  assumes "sub_ok s" "0 < t"
  shows "resub ch (ch\<lparr>ch_next_token := t, ch_subscribers := (ch_subscribers ch)[i := s]\<rparr>)"
    and "resub ch (ch\<lparr>ch_subscribers := (ch_subscribers ch)[i := s]\<rparr>)"
proof -
  have "\<forall>x \<in> set ((ch_subscribers ch)[i := s]). sub_ok x" if "chan_inv ch"
  proof (rule list_update_all)
    show "\<forall>x \<in> set (ch_subscribers ch). sub_ok x" using that unfolding chan_inv_def by blast
  qed (rule assms(1))
  then show "resub ch (ch\<lparr>ch_next_token := t, ch_subscribers := (ch_subscribers ch)[i := s]\<rparr>)"
    "resub ch (ch\<lparr>ch_subscribers := (ch_subscribers ch)[i := s]\<rparr>)"
    using assms(2) unfolding resub_def chan_inv_def by simp_all
qed

lemma resub_subscribe: "resub ch (snd (channel_subscribe f cb ch))"
proof (cases "chan_inv ch")
  case True
  then have "0 < ch_next_token ch" unfolding chan_inv_def by blast
  then have "sub_ok \<lparr>sub_token = ch_next_token ch, sub_cb = cb, sub_name_filter = (if c_nonempty f
      then c_copy ABLY_MAX_MESSAGE_NAME_LEN (c_str f) else [])\<rparr>"
    by (simp add: sub_ok_def c_copy_fits capacity_defs)
  then show ?thesis using resub_subscribers(1) [OF _ next_token_pos]
    by (auto simp: channel_subscribe_def Let_def resub_refl split: option.splits)
next
  case False
  then show ?thesis by (simp add: resub_def channel_subscribe_def Let_def split: option.splits)
qed

lemma resub_unsubscribe: "resub ch (snd (channel_unsubscribe t ch))"
  using resub_subscribers(2) [OF free_sub_ok zero_less_one]
  by (simp add: channel_unsubscribe_def resub_refl split: option.splits)

lemma quiet_delta [quiet_rules]: "quiet ch (snd (channel_enable_delta ok ch))"
  by (auto simp: quiet_def resub_def tables_def channel_enable_delta_def chan_inv_def capacity_defs)

lemma quiet_reset_delta [quiet_rules]:
  "quiet ch (ch\<lparr>ch_delta_bufs := [[], []], ch_delta_buf_idx := 0, ch_delta_last_id := []\<rparr>)"
  by (auto simp: quiet_def resub_def tables_def chan_inv_def capacity_defs)

lemma quiet_serial [quiet_rules]: "frame_bounded f \<Longrightarrow> quiet ch (track_serial f ch)"
  by (auto simp: quiet_def resub_def tables_def track_serial_def chan_inv_def frame_bounded_def)

lemma quiet_pending [quiet_rules]:
  "ring_enqueue ABLY_CHANNEL_PENDING_CAPACITY x (ch_pending ch) = Some r \<Longrightarrow> quiet ch (ch\<lparr>ch_pending := r\<rparr>)"
  by (auto simp: quiet_def resub_def tables_def chan_inv_def dest: pending.enq_inv)

lemma quiet_consume [quiet_rules]:
  "quiet ch (ch\<lparr>ch_pending := ring_consume ABLY_CHANNEL_PENDING_CAPACITY (ch_pending ch)\<rparr>)"
  by (auto simp: quiet_def resub_def tables_def chan_inv_def ring_inv_def ring_consume_def ABLY_CHANNEL_PENDING_CAPACITY_def)

lemma resub_pres:
  "(\<And>ps. ch_pres ch = Some ps \<Longrightarrow> pres_state_ok ps \<Longrightarrow> pres_state_ok ps') \<Longrightarrow> ch_pres ch \<noteq> None \<Longrightarrow>
   resub ch (ch\<lparr>ch_pres := Some ps'\<rparr>)"
  by (auto simp: resub_def chan_inv_def)

definition same_subs :: "presence_state \<Rightarrow> presence_state \<Rightarrow> bool" where
  "same_subs ps ps' \<longleftrightarrow> ps_subs ps' = ps_subs ps \<and> ps_next_token ps' = ps_next_token ps"

lemma quiet_pres [quiet_rules]:
  "(\<And>ps. ch_pres ch = Some ps \<Longrightarrow> pres_state_ok ps \<Longrightarrow> pres_state_ok ps' \<and> same_subs ps ps') \<Longrightarrow>
   ch_pres ch \<noteq> None \<Longrightarrow> quiet ch (ch\<lparr>ch_pres := Some ps'\<rparr>)"
  by (auto simp: quiet_def resub_def chan_inv_def tables_def pres_tables_def same_subs_def Let_def)

lemma pres_init_ok: "pres_state_ok presence_init"
  by (auto simp: pres_state_ok_def pres_init_inv)
     (auto simp: presence_init_def no_sub_def capacity_defs)

lemma quiet_ensure [quiet_rules]: "quiet ch (snd (ensure_pres ok ch))"
  by (auto simp: quiet_def resub_def tables_def pres_tables_def chan_inv_def ensure_pres_def pres_init_ok
      split: option.splits)

lemma ensure_pres_ok:
  "ensure_pres ok ch = (Some ps, ch') \<Longrightarrow> ch_pres ch' = Some ps"
  by (auto simp: ensure_pres_def split: option.splits if_splits)

lemma same_rest_ok: "same_rest ps ps' \<Longrightarrow> pres_inv ps' \<Longrightarrow> pres_state_ok ps \<Longrightarrow> pres_state_ok ps'"
  by (simp add: same_rest_def pres_state_ok_def)

lemma pres_subscribe_ok: "pres_state_ok ps \<Longrightarrow> pres_state_ok (snd (presence_subscribe cb ps))"
  by (auto simp: pres_state_ok_def presence_subscribe_def next_token_pos pres_inv_def Let_def
      split: option.splits dest: set_update_subset_insert [THEN subsetD])

lemma pres_unsubscribe_ok: "pres_state_ok ps \<Longrightarrow> pres_state_ok (presence_unsubscribe t ps)"
  by (auto simp: pres_state_ok_def presence_unsubscribe_def pres_inv_def no_sub_def
      split: option.splits dest: set_update_subset_insert [THEN subsetD])

lemma pres_own_ok:
  "pres_state_ok ps \<Longrightarrow> pres_state_ok (ps\<lparr>ps_own_client_id := c_copy ABLY_MAX_CLIENT_ID_LEN a,
     ps_own_data := c_copy ABLY_MAX_MESSAGE_DATA_LEN b, ps_own_entered := e\<rparr>)"
  "pres_state_ok ps \<Longrightarrow> pres_state_ok (ps\<lparr>ps_own_entered := e\<rparr>)"
  "pres_state_ok ps \<Longrightarrow> pres_state_ok (ps\<lparr>ps_own_data := c_copy ABLY_MAX_MESSAGE_DATA_LEN b\<rparr>)"
  by (auto simp: pres_state_ok_def pres_inv_def c_copy_fits capacity_defs)

lemma same_subs_own [simp]:
  "same_subs ps (ps\<lparr>ps_own_client_id := a, ps_own_data := b, ps_own_entered := e\<rparr>)"
  "same_subs ps (ps\<lparr>ps_own_entered := e\<rparr>)"
  "same_subs ps (ps\<lparr>ps_own_data := b\<rparr>)"
  by (simp_all add: same_subs_def)

lemma resub_pres_subscribe: "resub ch (snd (channel_presence_subscribe ok cb ch))"
proof (cases "ensure_pres ok ch")
  case (Pair r ch1)
  have q: "resub ch ch1" using quiet_ensure [of ch ok] Pair by (simp add: quiet_def)
  show ?thesis
  proof (cases r)
    case None
    then show ?thesis using q Pair by (simp add: channel_presence_subscribe_def)
  next
    case (Some ps)
    have "resub ch1 (ch1\<lparr>ch_pres := Some (snd (presence_subscribe cb ps))\<rparr>)"
      using ensure_pres_ok [of ok ch ps ch1] Pair Some
      by (intro resub_pres) (auto intro: pres_subscribe_ok)
    then show ?thesis using resub_trans [OF q] Pair Some
      by (simp add: channel_presence_subscribe_def case_prod_beta)
  qed
qed

lemma resub_pres_unsubscribe: "resub ch (channel_presence_unsubscribe t ch)"
  by (auto simp: resub_def chan_inv_def channel_presence_unsubscribe_def pres_unsubscribe_ok
      split: option.splits)

lemma quiet_resolve [quiet_rules]: "quiet ch (snd (resolve_data pm ch))"
proof -
  have buf: "quiet ch (ch\<lparr>ch_delta_bufs := (ch_delta_bufs ch)[1 - ch_delta_buf_idx ch := b],
      ch_delta_buf_idx := 1 - ch_delta_buf_idx ch\<rparr>)" if "length b < ABLY_MAX_MESSAGE_DATA_LEN" for b
  proof (cases "chan_inv ch")
    case True
    have "\<forall>x \<in> set ((ch_delta_bufs ch)[1 - ch_delta_buf_idx ch := b]). length x < ABLY_MAX_MESSAGE_DATA_LEN"
    proof (rule list_update_all)
      show "\<forall>x \<in> set (ch_delta_bufs ch). length x < ABLY_MAX_MESSAGE_DATA_LEN"
        using True unfolding chan_inv_def by blast
    qed fact
    then show ?thesis using True unfolding quiet_def resub_def tables_def chan_inv_def by simp
  qed (simp add: quiet_def resub_def)
  have delta: "quiet ch (snd (resolve_delta pm ch))"
    using buf vcdiff_decode_length [of _ _ "ABLY_MAX_MESSAGE_DATA_LEN - 1"]
    by (auto simp: resolve_delta_def Let_def quiet_refl capacity_defs split: option.splits vc_result.splits
        intro!: buf [unfolded capacity_defs] dest!: vcdiff_decode_length)
  have "quiet ch (ch\<lparr>ch_delta_last_id := c_copy 128 i\<rparr>)" for ch :: channel and i
    by (simp add: quiet_def resub_def tables_def chan_inv_def c_copy_fits)
  then have "quiet ch (store_base pm data ch)" for data
    using buf [of "bytes_of data"] quiet_trans
    by (auto simp: store_base_def Let_def quiet_refl bytes_of_def split: option.splits)
  then show ?thesis using delta by (auto simp: resolve_data_def quiet_refl split: bool.splits option.splits)
qed

lemma quiet_with_pres:
  assumes "ch_pres ch = Some ps" and "\<And>ps. pres_state_ok ps \<Longrightarrow> pres_state_ok (fst (f ps)) \<and> same_subs ps (fst (f ps))"
  shows "quiet ch (ch\<lparr>ch_pres := Some (fst (f ps))\<rparr>)"
  using assms by (intro quiet_pres) auto

lemma pres_handlers_ok:
  assumes "frame_bounded frame" "pres_state_ok ps"
  shows "pres_state_ok (fst (presence_handle_sync frame ps)) \<and> same_subs ps (fst (presence_handle_sync frame ps))"
    and "pres_state_ok (fst (presence_handle_message frame ps)) \<and> same_subs ps (fst (presence_handle_message frame ps))"
proof -
  have inv: "pres_inv ps" using assms(2) by (simp add: pres_state_ok_def)
  have ok: "frame_presence_ok frame" by (rule frame_bounded_presence_ok [OF assms(1)])
  show "pres_state_ok (fst (presence_handle_sync frame ps)) \<and> same_subs ps (fst (presence_handle_sync frame ps))"
    using same_rest_ok [OF handle_sync_refines(3,1) [OF inv ok] assms(2)] handle_sync_refines(3) [OF inv ok]
    by (simp add: same_subs_def same_rest_def)
  have "same_rest ps (fst (presence_handle_message frame ps))" "pres_inv (fst (presence_handle_message frame ps))"
    using handle_message_fold [OF inv, of "pf_presence_msgs frame" "[]"] ok
    by (simp_all add: presence_handle_message_def frame_presence_ok_def)
  with same_rest_ok [OF this assms(2)]
  show "pres_state_ok (fst (presence_handle_message frame ps)) \<and> same_subs ps (fst (presence_handle_message frame ps))"
    by (simp add: same_subs_def same_rest_def)
qed

section \<open>From primitive changes to whole steps\<close>

text \<open>The calls that change the subscription tables.\<close>

fun subscribes :: "chan_op \<Rightarrow> bool" where
  "subscribes (Op_Subscribe f cb) = True"
| "subscribes (Op_Unsubscribe t) = True"
| "subscribes (Op_Pres_Subscribe ok cb) = True"
| "subscribes (Op_Pres_Unsubscribe t) = True"
| "subscribes _ = False"

lemma subscribes_resub:
  assumes "subscribes op"
  obtains ch where "chan_api lib op w = w\<lparr>cw_ch := ch\<rparr>" "resub (cw_ch w) ch"
  using assms resub_subscribe resub_unsubscribe resub_pres_subscribe resub_pres_unsubscribe
  by (cases op) (simp_all add: set_ch_def)

fun is_state_event :: "chan_event \<Rightarrow> bool" where
  "is_state_event (Ev_State cb new old reason) = True"
| "is_state_event _ = False"

lemma emit_Nil [simp]: "emit [] w = w"
  by (simp add: emit_def)

lemma emit_Cons: "emit (e # es) w = emit es (emit [e] w)"
  by (simp add: emit_def)

lemma set_ch_alt: "set_ch f w = w\<lparr>cw_ch := f (cw_ch w)\<rparr>"
  by (simp add: set_ch_def)

lemma set_state_locked_core [simp]: "cw_core (set_state_locked s r w) = cw_core w"
  by (simp add: set_state_locked_def Let_def emit_def)

text \<open>A change of the core that only touches the serial and adds frames to the outbound ring.\<close>

definition core_quiet :: "'x rt_core_scheme \<Rightarrow> 'x rt_core_scheme \<Rightarrow> bool" where
  "core_quiet c c' \<longleftrightarrow> (core_inv c \<longrightarrow> core_inv c') \<and>
     (core_inv c \<longrightarrow> (\<exists>ps. rc_pending_frames c' = rc_pending_frames c @ ps)) \<and>
     c' = c\<lparr>rc_send_ring := rc_send_ring c', rc_msg_serial := rc_msg_serial c'\<rparr>"

lemma core_quiet_refl: "core_quiet c c"
  by (simp add: core_quiet_def)

lemma core_quiet_enqueue: "core_quiet c (snd (rt_enqueue_frame p c))"
  using rt_enqueue_frame_inv [of c p] rt_enqueue_frame_spec(2) [of c p]
  by (auto simp: core_quiet_def) (auto simp: rt_enqueue_frame_def split: option.split)

lemma core_quiet_claim: "core_quiet c (snd (rt_claim_msg_serial c))"
  by (simp add: core_quiet_def rt_claim_msg_serial_def core_inv_def rc_pending_frames_def)

lemma core_quiet_reenter: "core_quiet c (presence_reenter_own lib name ps c)"
  by (auto simp: presence_reenter_own_def send_presence_def Let_def core_quiet_refl intro: core_quiet_enqueue)

text \<open>A callback of an occupied slot; these are the ones that delivery calls.\<close>

definition active :: "nat \<Rightarrow> 'c chan_world \<Rightarrow> bool" where
  "active cb w \<longleftrightarrow> (\<exists>i < ABLY_MAX_SUBSCRIBERS_PER_CHANNEL.
     sub_token (ch_subscribers (cw_ch w) ! i) \<noteq> 0 \<and> sub_cb (ch_subscribers (cw_ch w) ! i) = cb)"

text \<open>The channel when the handler of ATTACHED has flushed its queue.\<close>

definition attached_flushed :: "codec_lib \<Rightarrow> ably_proto_frame \<Rightarrow> 'x rt_core_scheme chan_world \<Rightarrow> 'x rt_core_scheme chan_world" where
  "attached_flushed lib frame w =
     flush_pending_queue lib (set_state_locked CHAN_ATTACHED ABLY_OK (set_ch (\<lambda>ch. (track_serial frame
       (ch\<lparr>ch_reattach_pending := False, ch_granted_modes := pf_channel_modes frame\<rparr>))
       \<lparr>ch_last_error := no_error_info\<rparr>) w))"

locale chan_preserved =
  fixes I :: "'x rt_core_scheme chan_world \<Rightarrow> bool" and op_ok :: "chan_op \<Rightarrow> bool"
  assumes state_law: "I w \<Longrightarrow> I (set_state_locked s r w)"
    and quiet_law: "I w \<Longrightarrow> quiet (cw_ch w) ch \<Longrightarrow> I (w\<lparr>cw_ch := ch\<rparr>)"
    and core_law: "I w \<Longrightarrow> core_quiet (cw_core w) c \<Longrightarrow> I (w\<lparr>cw_core := c\<rparr>)"
    and event_law: "I w \<Longrightarrow> \<not> is_state_event e \<Longrightarrow> I (emit [e] w)"
    and resub_law: "op_ok op \<Longrightarrow> subscribes op \<Longrightarrow> I w \<Longrightarrow> chan_api lib op w = w\<lparr>cw_ch := ch\<rparr> \<Longrightarrow>
      resub (cw_ch w) ch \<Longrightarrow> I (w\<lparr>cw_ch := ch\<rparr>)"
    and set_cb_law: "op_ok (Op_Set_State_Cb cb) \<Longrightarrow> I w \<Longrightarrow> I (set_ch (channel_set_state_cb cb) w)"
begin

lemma set_ch_law: "I w \<Longrightarrow> quiet (cw_ch w) (f (cw_ch w)) \<Longrightarrow> I (set_ch f w)"
  unfolding set_ch_alt by (rule quiet_law)

lemma events_law: "I w \<Longrightarrow> \<forall>e \<in> set es. \<not> is_state_event e \<Longrightarrow> I (emit es w)"
proof (induction es arbitrary: w)
  case (Cons e es)
  then show ?case using emit_Cons [of e es w] event_law [of w e] by simp
qed simp

lemma enqueue_law: "I w \<Longrightarrow> I (snd (chan_enqueue p w))"
  using core_law [OF _ core_quiet_enqueue]
  by (simp add: chan_enqueue_def case_prod_beta)

lemma claim_law: "I w \<Longrightarrow> I (w\<lparr>cw_core := snd (rt_claim_msg_serial (cw_core w))\<rparr>)"
  by (rule core_law [OF _ core_quiet_claim])

lemma publish_frame_law: "I w \<Longrightarrow> I (snd (publish_frame lib n name data i w))"
  using enqueue_law [OF claim_law] claim_law
  by (simp add: publish_frame_def case_prod_beta Let_def)

lemma flush_law: "I w \<Longrightarrow> I (flush_loop lib n w)"
proof (induction n arbitrary: w)
  case (Suc n)
  then show ?case
    using publish_frame_law [OF Suc.prems, of lib PUBLISH_BUF]
    by (auto simp: case_prod_beta split: option.splits intro!: Suc.IH set_ch_law quiet_consume)
qed simp

lemma reenter_law: "I w \<Longrightarrow> I (w\<lparr>cw_core := presence_reenter_own lib name ps (cw_core w)\<rparr>)"
  by (rule core_law [OF _ core_quiet_reenter])

lemma attach_law: "I w \<Longrightarrow> I (snd (channel_attach lib w))"
  using enqueue_law [of w] state_law by (auto simp: channel_attach_def Let_def case_prod_beta)

lemma detach_law: "I w \<Longrightarrow> I (snd (channel_detach lib w))"
  using enqueue_law [of w] state_law by (auto simp: channel_detach_def Let_def case_prod_beta)

lemma publish_law: "I w \<Longrightarrow> I (snd (channel_publish lib n d w))"
  using publish_frame_law
  by (auto simp: channel_publish_def Let_def split: option.splits intro!: quiet_law quiet_pending)

lemma publish_id_law: "I w \<Longrightarrow> I (snd (channel_publish_with_id lib n d i w))"
  using publish_law publish_frame_law by (simp add: channel_publish_with_id_def)

lemma set_options_law: "I w \<Longrightarrow> I (snd (channel_set_options lib r m w))"
proof -
  assume I: "I w"
  let ?w1 = "set_ch (\<lambda>ch. channel_set_modes m (channel_set_rewind r ch)) w"
  have "I ?w1" using I quiet_fields(1,2) quiet_trans by (intro set_ch_law) blast+
  then show ?thesis using detach_law [of ?w1] attach_law
    by (auto simp: channel_set_options_def Let_def case_prod_beta)
qed

lemma enter_law: "I w \<Longrightarrow> I (snd (channel_presence_enter lib ok c d w))"
proof -
  assume I: "I w"
  obtain r ch where e: "ensure_pres ok (cw_ch w) = (r, ch)" by fastforce
  have q: "quiet (cw_ch w) ch" using quiet_ensure [of "cw_ch w" ok] e by simp
  show ?thesis
  proof (cases r)
    case None
    then show ?thesis using I quiet_law [OF I q] by (simp add: channel_presence_enter_def Let_def e)
  next
    case (Some ps)
    let ?cid = "if c_nonempty c then c_str c else rc_client_id (cw_core w)"
    let ?ps = "ps\<lparr>ps_own_client_id := c_copy ABLY_MAX_CLIENT_ID_LEN ?cid,
      ps_own_data := c_copy ABLY_MAX_MESSAGE_DATA_LEN (c_str d), ps_own_entered := True\<rparr>"
    have "quiet ch (ch\<lparr>ch_pres := Some ?ps\<rparr>)"
      using ensure_pres_ok [of ok "cw_ch w" ps ch] e Some by (intro quiet_pres) (auto intro: pres_own_ok(1))
    from reenter_law [OF quiet_law [OF I quiet_trans [OF q this]]] show ?thesis
      using I Some by (simp add: channel_presence_enter_def Let_def e)
  qed
qed

lemma send_own_law:
  "I w \<Longrightarrow> ch_pres (cw_ch w) = Some ps \<Longrightarrow> (pres_state_ok ps \<Longrightarrow> pres_state_ok ps' \<and> same_subs ps ps') \<Longrightarrow>
     I (snd (send_own_presence lib a d ps' w))"
proof -
  assume I: "I w" and ps: "ch_pres (cw_ch w) = Some ps" "pres_state_ok ps \<Longrightarrow> pres_state_ok ps' \<and> same_subs ps ps'"
  have "quiet (cw_ch w) ((cw_ch w)\<lparr>ch_pres := Some ps'\<rparr>)" using ps by (intro quiet_pres) auto
  from quiet_law [OF I this] show ?thesis using enqueue_law by (simp add: send_own_presence_def Let_def)
qed

lemma leave_law: "I w \<Longrightarrow> I (snd (channel_presence_leave lib d w))"
  by (auto simp: channel_presence_leave_def split: option.splits intro!: send_own_law pres_own_ok)

lemma update_law: "I w \<Longrightarrow> I (snd (channel_presence_update lib d w))"
  by (auto simp: channel_presence_update_def split: option.splits intro!: send_own_law pres_own_ok)

lemmas call_laws = attach_law detach_law publish_law publish_id_law set_options_law enter_law leave_law
  update_law

lemma api_law: "op_ok op \<Longrightarrow> I w \<Longrightarrow> I (chan_api lib op w)"
proof (cases "subscribes op")
  case True
  assume "op_ok op" "I w"
  then show ?thesis using subscribes_resub [OF True, of lib w] resub_law [OF _ True] by metis
next
  case False
  assume "op_ok op" "I w"
  then show ?thesis using False by (cases op) (auto intro: call_laws set_ch_law quiet_rules set_cb_law)
qed

lemma script_law: "\<forall>cb m. list_all op_ok (script cb m) \<Longrightarrow> I w \<Longrightarrow> active cb w \<Longrightarrow> I (script_env lib script cb msg w)"
proof -
  assume ok: "\<forall>cb m. list_all op_ok (script cb m)" and I: "I w"
  have "list_all op_ok ops \<Longrightarrow> I w \<Longrightarrow> I (fold (chan_api lib) ops w)" for ops w
    by (induction ops arbitrary: w) (auto intro: api_law)
  then show ?thesis using ok I by (simp add: script_env_def)
qed

lemma deliver_law:
  "(\<And>cb m w. I w \<Longrightarrow> active cb w \<Longrightarrow> I (env cb m w)) \<Longrightarrow> I w \<Longrightarrow>
     set slots \<subseteq> {..<ABLY_MAX_SUBSCRIBERS_PER_CHANNEL} \<Longrightarrow> I (deliver_loop env msg slots w)"
proof (induction slots arbitrary: w)
  case (Cons i slots)
  let ?s = "ch_subscribers (cw_ch w) ! i"
  have "I (env (sub_cb ?s) msg (emit [Ev_Message (sub_cb ?s) msg] w))" if "sub_token ?s \<noteq> 0"
  proof (rule Cons.prems(1))
    show "active (sub_cb ?s) (emit [Ev_Message (sub_cb ?s) msg] w)"
      using that Cons.prems(3) by (auto simp: active_def emit_def)
  qed (use Cons.prems(2) event_law in simp)
  then show ?case using Cons by (simp add: Let_def)
qed simp

lemma deliver_message_law:
  "(\<And>cb m w. I w \<Longrightarrow> active cb w \<Longrightarrow> I (env cb m w)) \<Longrightarrow> I w \<Longrightarrow> I (deliver_message env msg w)"
  unfolding deliver_message_def by (rule deliver_law) auto

lemma messages_law:
  "(\<And>cb m w. I w \<Longrightarrow> active cb w \<Longrightarrow> I (env cb m w)) \<Longrightarrow> I w \<Longrightarrow> I (handle_messages env pms w)"
proof (induction pms arbitrary: w)
  case (Cons pm pms)
  obtain r ch where r: "resolve_data pm (cw_ch w) = (r, ch)" by fastforce
  have I1: "I (w\<lparr>cw_ch := ch\<rparr>)"
    using quiet_law [OF Cons.prems(2)] quiet_resolve [of "cw_ch w" pm] r by simp
  then have "I (if b then emit [Ev_Occupancy l o'] (w\<lparr>cw_ch := ch\<rparr>) else w\<lparr>cw_ch := ch\<rparr>)" for b l o'
    using event_law by simp
  then show ?case using I1 Cons.IH [OF Cons.prems(1)] event_law
      deliver_message_law [of env, OF Cons.prems(1)]
    by (simp add: r Let_def split: resolved.splits)
qed simp

lemma gap_law:
  "(\<And>cb m w. I w \<Longrightarrow> active cb w \<Longrightarrow> I (env cb m w)) \<Longrightarrow> I w \<Longrightarrow> I (gap_pages env history n cursor w)"
proof (induction n arbitrary: w cursor)
  case (Suc n)
  have "I (fold (channel_deliver_history env) items w)" if "I w" for items w
    using that by (induction items arbitrary: w)
      (auto simp: channel_deliver_history_def intro: deliver_message_law Suc.prems(1))
  then show ?case using Suc by (auto split: option.splits)
qed simp

lemma recover_law:
  "(\<And>cb m w. I w \<Longrightarrow> active cb w \<Longrightarrow> I (env cb m w)) \<Longrightarrow> I w \<Longrightarrow> I (rt_recover_gap env rest w)"
  using gap_law [of env w] by (simp add: rt_recover_gap_def split: option.splits)

lemma with_pres_law:
  "I w \<Longrightarrow> (\<And>ps. pres_state_ok ps \<Longrightarrow> pres_state_ok (fst (f ps)) \<and> same_subs ps (fst (f ps))) \<Longrightarrow> I (with_pres f w)"
  by (auto simp: with_pres_def case_prod_beta presence_events_def split: option.splits
      intro!: events_law set_ch_law quiet_with_pres)

lemma fail_law: "I w \<Longrightarrow> I (channel_fail frame w)"
  unfolding channel_fail_def by (intro state_law set_ch_law quiet_rules)

text \<open>The handler of ATTACHED, first up to the flush of the queue, then what follows it.\<close>

lemma flushed_law:
  assumes I: "I w" and f: "frame_bounded frame"
  shows "I (attached_flushed lib frame w)"
proof -
  let ?f = "\<lambda>ch. (track_serial frame (ch\<lparr>ch_reattach_pending := False,
    ch_granted_modes := pf_channel_modes frame\<rparr>))\<lparr>ch_last_error := no_error_info\<rparr>"
  have "quiet ch (?f ch)" for ch
    by (rule quiet_trans [OF quiet_trans]) (rule quiet_fields(6) quiet_serial [OF f] quiet_fields(4))+
  then show ?thesis
    unfolding attached_flushed_def flush_pending_queue_def by (intro flush_law state_law set_ch_law I)
qed

lemma after_flush_law:
  assumes env: "\<And>cb m w. I w \<Longrightarrow> active cb w \<Longrightarrow> I (env cb m w)" and 1: "I (attached_flushed lib frame w)"
    and f: "frame_bounded frame"
  shows "I (on_attached lib env rest frame w)"
proof -
  let ?w2 = "attached_flushed lib frame w"
  define w3 where "w3 = (if has_flag (pf_flags frame) FLAG_HAS_PRESENCE
    then with_pres (presence_handle_sync frame) ?w2 else ?w2)"
  have 3: "I w3" using 1 pres_handlers_ok(1) [OF f] by (simp add: w3_def with_pres_law)
  define w4 where "w4 = (if (\<not> has_flag (pf_flags frame) FLAG_RESUMED \<or>
      has_flag (pf_flags frame) FLAG_HAS_BACKLOG) \<and> ch_channel_serial (cw_ch w3) \<noteq> []
    then rt_recover_gap env rest w3 else w3)"
  have 4: "I w4" using 3 recover_law [of env, OF env 3] by (simp add: w4_def)
  have "on_attached lib env rest frame w = (if has_flag (pf_flags frame) FLAG_RESUMED then w4
      else case ch_pres (cw_ch w4) of None \<Rightarrow> w4
        | Some ps \<Rightarrow> w4\<lparr>cw_core := presence_reenter_own lib (ch_name (cw_ch w4)) ps (cw_core w4)\<rparr>)"
    unfolding on_attached_def Let_def w4_def w3_def attached_flushed_def by (rule refl)
  then show ?thesis using 4 reenter_law by (simp split: option.split)
qed

lemma attached_law:
  assumes "\<And>cb m w. I w \<Longrightarrow> active cb w \<Longrightarrow> I (env cb m w)" "I w" "frame_bounded frame"
  shows "I (on_attached lib env rest frame w)"
  by (rule after_flush_law [OF assms(1) flushed_law [OF assms(2,3)] assms(3)])

lemma frame_law:
  assumes env: "\<And>cb m w. I w \<Longrightarrow> active cb w \<Longrightarrow> I (env cb m w)" and I: "I w" and f: "frame_bounded frame"
  shows "I (channel_on_frame lib env rest frame w)"
  unfolding channel_on_frame_def
  using I attached_law [OF env I f] fail_law [OF I] messages_law [of env, OF env]
  by (auto split: ably_action.splits intro!: state_law set_ch_law quiet_rules with_pres_law messages_law
      pres_handlers_ok f env)

lemma disconnect_law: "I w \<Longrightarrow> I (channel_on_disconnect w)"
  unfolding channel_on_disconnect_def
  by (intro set_ch_law state_law) (auto intro: quiet_rules)

lemma attaching_law: "I w \<Longrightarrow> I (channel_set_attaching w)"
  unfolding channel_set_attaching_def by (intro state_law set_ch_law quiet_rules)

end

text \<open>What also survives arbitrary changes of the core holds in every reachable world.\<close>

locale chan_invariant = chan_preserved I op_ok
  for I :: "'x rt_core_scheme chan_world \<Rightarrow> bool" and op_ok :: "chan_op \<Rightarrow> bool" +
  assumes any_core_law: "I w \<Longrightarrow> core_inv c \<Longrightarrow> I (w\<lparr>cw_core := c\<rparr>)"
begin

lemma step_law:
  assumes ok: "\<forall>cb m. list_all op_ok (script cb m)" and step: "chan_step lib script op_ok w w'" and I: "I w"
  shows "I w'"
  using step
proof cases
  case (step_api op)
  then show ?thesis using api_law I by simp
next
  case (step_frame f rest)
  then show ?thesis using frame_law [OF script_law [OF ok] I] by simp
next
  case step_disconnect
  then show ?thesis using disconnect_law I by simp
next
  case step_reattach
  then show ?thesis using attaching_law I by simp
next
  case (step_core c)
  then show ?thesis using any_core_law [OF I, of c] by simp
qed

lemma reach_law:
  "chan_reach lib script op_ok w0 w \<Longrightarrow> \<forall>cb m. list_all op_ok (script cb m) \<Longrightarrow> I w0 \<Longrightarrow> I w"
  by (induction rule: chan_reach.induct) (auto intro: step_law)

end

end
