(* ===== verification/Ably_Channel_Props.thy ===== *)
theory Ably_Channel_Props
  imports "HOL-Library.Multiset" Ably_Channel_Steps
begin

text \<open>
  What the channel guarantees: the interpretations of \<open>chan_invariant\<close>, the order in which queued
  messages are sent, delivery to subscribers, delta decoding, and the deviations from the documented
  behaviour that the model shows.
\<close>

section \<open>Interpretations of the step invariant\<close>

definition world_ok :: "'x rt_core_scheme chan_world \<Rightarrow> bool" where
  "world_ok w \<longleftrightarrow> chan_inv (cw_ch w) \<and> core_inv (cw_core w)"

definition any_op :: "chan_op \<Rightarrow> bool" where
  "any_op op \<longleftrightarrow> True"

lemma chan_inv_state: "chan_inv (ch\<lparr>ch_state := s\<rparr>) = chan_inv ch" "chan_inv (ch\<lparr>ch_state_cb := cb\<rparr>) = chan_inv ch"
  by (simp_all add: chan_inv_def)

lemma set_state_locked_ch: "cw_ch (set_state_locked s r w) = (cw_ch w)\<lparr>ch_state := s\<rparr>"
  by (simp add: set_state_locked_def Let_def emit_def)

interpretation wf: chan_invariant world_ok any_op
proof
  fix w :: "'a rt_core_scheme chan_world"
  show "world_ok w \<Longrightarrow> world_ok (set_state_locked s r w)" for s r
    by (simp add: world_ok_def set_state_locked_ch chan_inv_state)
  show "world_ok w \<Longrightarrow> quiet (cw_ch w) ch \<Longrightarrow> world_ok (w\<lparr>cw_ch := ch\<rparr>)" for ch
    by (simp add: world_ok_def quiet_def resub_def)
  show "resub (cw_ch w) ch \<Longrightarrow> world_ok w \<Longrightarrow> world_ok (w\<lparr>cw_ch := ch\<rparr>)" for ch
    by (simp add: world_ok_def resub_def)
  show "world_ok w \<Longrightarrow> core_quiet (cw_core w) c \<Longrightarrow> world_ok (w\<lparr>cw_core := c\<rparr>)" for c
    by (simp add: world_ok_def core_quiet_def)
  show "world_ok w \<Longrightarrow> core_inv c \<Longrightarrow> world_ok (w\<lparr>cw_core := c\<rparr>)" for c
    by (simp add: world_ok_def)
  show "world_ok w \<Longrightarrow> \<not> is_state_event e \<Longrightarrow> world_ok (emit [e] w)" for e
    by (simp add: world_ok_def emit_def)
  show "any_op (Op_Set_State_Cb cb) \<Longrightarrow> world_ok w \<Longrightarrow> world_ok (set_ch (channel_set_state_cb cb) w)" for cb
    by (simp add: world_ok_def set_ch_def channel_set_state_cb_def chan_inv_state)
qed

text \<open>Replaying the state callbacks: each must report the state of the one before as the old state, and
  a different new state.\<close>

fun replay :: "ably_channel_state \<Rightarrow> chan_event list \<Rightarrow> ably_channel_state option" where
  "replay s [] = Some s"
| "replay s (Ev_State cb new old reason # es) = (if old = s \<and> new \<noteq> old then replay new es else None)"
| "replay s (e # es) = replay s es"

lemma replay_append:
  "replay s (xs @ ys) = (case replay s xs of None \<Rightarrow> None | Some t \<Rightarrow> replay t ys)"
  by (induction s xs rule: replay.induct) auto

lemma replay_quiet: "\<not> is_state_event e \<Longrightarrow> replay s [e] = Some s"
  by (cases e) auto

definition told :: "nat \<Rightarrow> ably_channel_state \<Rightarrow> 'c chan_world \<Rightarrow> bool" where
  "told cb s0 w \<longleftrightarrow> cb \<noteq> 0 \<and> ch_state_cb (cw_ch w) = cb \<and> replay s0 (cw_events w) = Some (ch_state (cw_ch w))"

fun keeps_cb :: "chan_op \<Rightarrow> bool" where
  "keeps_cb (Op_Set_State_Cb cb) = False"
| "keeps_cb _ = True"

interpretation told: chan_invariant "told cb s0" keeps_cb
proof
  fix w :: "'a rt_core_scheme chan_world"
  show "told cb s0 w \<Longrightarrow> told cb s0 (set_state_locked s r w)" for s r
    by (auto simp: told_def set_state_locked_def Let_def emit_def replay_append)
  show "told cb s0 w \<Longrightarrow> quiet (cw_ch w) ch \<Longrightarrow> told cb s0 (w\<lparr>cw_ch := ch\<rparr>)" for ch
    by (simp add: told_def quiet_def resub_def)
  show "resub (cw_ch w) ch \<Longrightarrow> told cb s0 w \<Longrightarrow> told cb s0 (w\<lparr>cw_ch := ch\<rparr>)" for ch
    by (simp add: told_def resub_def)
  show "told cb s0 w \<Longrightarrow> core_quiet (cw_core w) c \<Longrightarrow> told cb s0 (w\<lparr>cw_core := c\<rparr>)" for c
    by (simp add: told_def)
  show "told cb s0 w \<Longrightarrow> core_inv c \<Longrightarrow> told cb s0 (w\<lparr>cw_core := c\<rparr>)" for c
    by (simp add: told_def)
  show "told cb s0 w \<Longrightarrow> \<not> is_state_event e \<Longrightarrow> told cb s0 (emit [e] w)" for e
    by (simp add: told_def emit_def replay_append replay_quiet)
  show "keeps_cb (Op_Set_State_Cb n) \<Longrightarrow> told cb s0 w \<Longrightarrow> told cb s0 (set_ch (channel_set_state_cb n) w)" for n
    by simp
qed

definition fresh_world :: "string \<Rightarrow> nat \<Rightarrow> 'c \<Rightarrow> 'c chan_world" where
  "fresh_world name cb c =
     \<lparr>cw_ch = channel_set_state_cb cb (channel_create name), cw_core = c, cw_events = []\<rparr>"

lemma fresh_world_ok: "core_inv c \<Longrightarrow> world_ok (fresh_world name cb c)"
  by (simp add: world_ok_def fresh_world_def channel_set_state_cb_def chan_inv_state chan_create_inv)

lemma fresh_world_told: "cb \<noteq> 0 \<Longrightarrow> told cb CHAN_INITIALIZED (fresh_world name cb c)"
  by (simp add: told_def fresh_world_def channel_set_state_cb_def channel_create_def)

definition demo_core :: rt_core where
  "demo_core = \<lparr>rc_state = CONN_CONNECTED, rc_send_ring = empty_ring ABLY_SEND_RING_CAPACITY [],
     rc_msg_serial = 0, rc_encoding = ENCODING_JSON, rc_client_id = [], rc_api_key = []\<rparr>"

lemma demo_core_inv: "core_inv demo_core"
  by (simp add: core_inv_def demo_core_def ring_inv_def empty_ring_def ABLY_SEND_RING_CAPACITY_def)

definition no_lib :: codec_lib where
  "no_lib = \<lparr>lib_json_print = (\<lambda>j. Some ''{}''), lib_json_parse = (\<lambda>s. None),
     lib_mp_write = (\<lambda>n m. []), lib_mp_parse = (\<lambda>s. None)\<rparr>"

section \<open>Invariants\<close>

text \<open>C2. A channel stays well-formed whatever the application, its callbacks, the server and the
  network do: 32 subscriber slots with tokens that are not negative and filters that fit, a serial of
  less than 64 characters, two delta buffers within the message limit, a pending queue with indices in
  range, and a presence state whose pool and index agree.\<close>

theorem channel_wellformed:
  assumes "chan_reach lib script any_op (fresh_world name cb c) w" and "core_inv c"
  shows "chan_inv (cw_ch w) \<and> core_inv (cw_core w)"
  using wf.reach_law [OF assms(1)] fresh_world_ok [OF assms(2)] by (simp add: any_op_def list_all_iff world_ok_def)

lemma channel_wellformed_witness:
  "chan_inv (snd (channel_subscribe None 7 (cw_ch (fresh_world ''chat'' 0 demo_core))))"
proof -
  have "chan_reach no_lib (\<lambda>cb m. []) any_op (fresh_world ''chat'' 0 demo_core)
      (chan_api no_lib (Op_Subscribe None 7) (fresh_world ''chat'' 0 demo_core))"
    by (rule reach_step [OF reach_start step_api]) (simp add: any_op_def)
  from channel_wellformed [OF this demo_core_inv] show ?thesis by (simp add: set_ch_def)
qed

text \<open>C11. The state callback tells the whole story: from creation on, every callback reports the
  previous state as the old one and a new one that differs, and the last one reported is the state the
  channel is in. No transition is silent or reported twice.\<close>

theorem channel_state_callbacks_complete:
  assumes "chan_reach lib script keeps_cb (fresh_world name cb c) w" and "cb \<noteq> 0"
    and "\<forall>cb m. list_all keeps_cb (script cb m)"
  shows "replay CHAN_INITIALIZED (cw_events w) = Some (ch_state (cw_ch w))"
  using told.reach_law [OF assms(1,3) fresh_world_told [OF assms(2)]] by (simp add: told_def)

lemma channel_state_callbacks_complete_witness:
  "replay CHAN_INITIALIZED (cw_events (snd (channel_attach no_lib (fresh_world ''chat'' 1 demo_core)))) =
     Some (ch_state (cw_ch (snd (channel_attach no_lib (fresh_world ''chat'' 1 demo_core)))))"
proof -
  have "chan_reach no_lib (\<lambda>cb m. []) keeps_cb (fresh_world ''chat'' 1 demo_core)
      (chan_api no_lib Op_Attach (fresh_world ''chat'' 1 demo_core))"
    by (rule reach_step [OF reach_start step_api]) simp
  from channel_state_callbacks_complete [OF this] show ?thesis by simp
qed

section \<open>Queued messages\<close>

text \<open>The frames that a list of queued messages turns into, from a given serial on.\<close>

fun queued_frames ::
  "codec_lib \<Rightarrow> string \<Rightarrow> string option \<Rightarrow> ably_encoding \<Rightarrow> int \<Rightarrow> (string \<times> string) list \<Rightarrow> string list" where
  "queued_frames lib chan client_id enc serial [] = []"
| "queued_frames lib chan client_id enc serial ((name, data) # ms) =
     proto_encode_publish lib PUBLISH_BUF chan (c_opt name) (c_opt data) client_id None serial enc #
     queued_frames lib chan client_id enc (serial + 1) ms"

definition pending_list :: "channel \<Rightarrow> (string \<times> string) list" where
  "pending_list ch = ring_list ABLY_CHANNEL_PENDING_CAPACITY (ch_pending ch)"

lemma pending_bound: "ring_inv ABLY_CHANNEL_PENDING_CAPACITY (ch_pending ch) \<Longrightarrow> length (pending_list ch) \<le> 31"
  using pending.contents_bound [of "ch_pending ch"]
  by (simp add: pending_list_def ABLY_CHANNEL_PENDING_CAPACITY_def)

lemma chan_enqueue_spec:
  assumes "core_inv (cw_core w)"
  shows "cw_ch (snd (chan_enqueue p w)) = cw_ch w" "core_inv (cw_core (snd (chan_enqueue p w)))"
    "rc_pending_frames (cw_core (snd (chan_enqueue p w))) =
       (if length (rc_pending_frames (cw_core w)) = 255 then rc_pending_frames (cw_core w)
        else rc_pending_frames (cw_core w) @ [p])"
    "rc_msg_serial (cw_core (snd (chan_enqueue p w))) = rc_msg_serial (cw_core w)"
    "rc_encoding (cw_core (snd (chan_enqueue p w))) = rc_encoding (cw_core w)"
    "rc_client_id (cw_core (snd (chan_enqueue p w))) = rc_client_id (cw_core w)"
    "cw_events (snd (chan_enqueue p w)) = cw_events w"
  using rt_enqueue_frame_spec(2) [OF assms, of p] rt_enqueue_frame_inv [OF assms, of p]
    rt_enqueue_frame_frame [of p "cw_core w"]
  by (simp_all add: chan_enqueue_def case_prod_beta)

lemma publish_frame_spec:
  fixes w :: "'x rt_core_scheme chan_world"
    and lib :: codec_lib and n :: nat and name data i :: "string option"
  assumes inv: "core_inv (cw_core w)"
  defines "buf \<equiv> proto_encode_publish lib n (ch_name (cw_ch w)) name data
    (c_opt (rc_client_id (cw_core w))) i (rc_msg_serial (cw_core w)) (rc_encoding (cw_core w))"
  defines "w' \<equiv> snd (publish_frame lib n name data i w)"
  shows "cw_ch w' = cw_ch w" "core_inv (cw_core w')" "cw_events w' = cw_events w"
    "rc_msg_serial (cw_core w') = rc_msg_serial (cw_core w) + 1"
    "rc_encoding (cw_core w') = rc_encoding (cw_core w)"
    "rc_client_id (cw_core w') = rc_client_id (cw_core w)"
    "rc_pending_frames (cw_core w') =
       (if buf = [] \<or> length (rc_pending_frames (cw_core w)) = 255 then rc_pending_frames (cw_core w)
        else rc_pending_frames (cw_core w) @ [buf])"
proof -
  let ?c = "(cw_core w)\<lparr>rc_msg_serial := rc_msg_serial (cw_core w) + 1\<rparr>"
  have c: "core_inv ?c" "rc_pending_frames ?c = rc_pending_frames (cw_core w)"
    using inv by (simp_all add: core_inv_def rc_pending_frames_def)
  have w': "w' = (if buf = [] then w\<lparr>cw_core := ?c\<rparr> else snd (chan_enqueue buf (w\<lparr>cw_core := ?c\<rparr>)))"
    by (simp add: w'_def buf_def publish_frame_def rt_claim_msg_serial_def Let_def)
  note e = chan_enqueue_spec [of "w\<lparr>cw_core := ?c\<rparr>" buf]
  show "cw_ch w' = cw_ch w" "core_inv (cw_core w')" "cw_events w' = cw_events w"
    "rc_msg_serial (cw_core w') = rc_msg_serial (cw_core w) + 1"
    "rc_encoding (cw_core w') = rc_encoding (cw_core w)"
    "rc_client_id (cw_core w') = rc_client_id (cw_core w)"
    "rc_pending_frames (cw_core w') =
       (if buf = [] \<or> length (rc_pending_frames (cw_core w)) = 255 then rc_pending_frames (cw_core w)
        else rc_pending_frames (cw_core w) @ [buf])"
    using e c unfolding w' by simp_all
qed

lemma flush_step:
  fixes w :: "'x rt_core_scheme chan_world" and lib :: codec_lib and n :: nat
  assumes ring: "ring_inv ABLY_CHANNEL_PENDING_CAPACITY (ch_pending (cw_ch w))"
    and p: "pending_list (cw_ch w) = (name, data) # ms" and core: "core_inv (cw_core w)"
  defines "w1 \<equiv> set_ch (\<lambda>ch. ch\<lparr>ch_pending := ring_consume ABLY_CHANNEL_PENDING_CAPACITY (ch_pending ch)\<rparr>)
    (snd (publish_frame lib PUBLISH_BUF (c_opt name) (c_opt data) None w))"
  shows "flush_loop lib (Suc n) w = flush_loop lib n w1"
    "ring_inv ABLY_CHANNEL_PENDING_CAPACITY (ch_pending (cw_ch w1))" "pending_list (cw_ch w1) = ms"
    "ch_name (cw_ch w1) = ch_name (cw_ch w)" "cw_core w1 = cw_core (snd (publish_frame lib PUBLISH_BUF (c_opt name) (c_opt data) None w))"
proof -
  note q = publish_frame_spec(1) [OF core, of lib PUBLISH_BUF "c_opt name" "c_opt data" None]
  have "ring_peek (ch_pending (cw_ch w)) = Some (name, data)"
    using pending.peek_contents [OF ring] p by (simp add: pending_list_def)
  then show "flush_loop lib (Suc n) w = flush_loop lib n w1" by (simp add: w1_def case_prod_beta)
  show "ring_inv ABLY_CHANNEL_PENDING_CAPACITY (ch_pending (cw_ch w1))" "pending_list (cw_ch w1) = ms"
    using pending.consume_inv [OF ring] pending.consume_contents [OF ring] p
    by (simp_all add: w1_def set_ch_def q pending_list_def)
  show "ch_name (cw_ch w1) = ch_name (cw_ch w)"
    "cw_core w1 = cw_core (snd (publish_frame lib PUBLISH_BUF (c_opt name) (c_opt data) None w))"
    by (simp_all add: w1_def set_ch_def q)
qed

lemma flush_loop_Nil:
  "ring_inv ABLY_CHANNEL_PENDING_CAPACITY (ch_pending (cw_ch w)) \<Longrightarrow> pending_list (cw_ch w) = [] \<Longrightarrow>
   flush_loop lib n w = w"
  using pending.peek_contents [of "ch_pending (cw_ch w)"]
  by (cases n) (simp_all add: pending_list_def)

lemma flush_loop_sends:
  "ring_inv ABLY_CHANNEL_PENDING_CAPACITY (ch_pending (cw_ch w)) \<Longrightarrow> core_inv (cw_core w) \<Longrightarrow>
   length (pending_list (cw_ch w)) \<le> n \<Longrightarrow>
   length (rc_pending_frames (cw_core w)) + length (pending_list (cw_ch w)) \<le> 255 \<Longrightarrow>
   [] \<notin> set (queued_frames lib (ch_name (cw_ch w)) (c_opt (rc_client_id (cw_core w)))
        (rc_encoding (cw_core w)) (rc_msg_serial (cw_core w)) (pending_list (cw_ch w))) \<Longrightarrow>
   pending_list (cw_ch (flush_loop lib n w)) = [] \<and>
   rc_msg_serial (cw_core (flush_loop lib n w)) =
     rc_msg_serial (cw_core w) + int (length (pending_list (cw_ch w))) \<and>
   rc_pending_frames (cw_core (flush_loop lib n w)) = rc_pending_frames (cw_core w) @
     queued_frames lib (ch_name (cw_ch w)) (c_opt (rc_client_id (cw_core w)))
        (rc_encoding (cw_core w)) (rc_msg_serial (cw_core w)) (pending_list (cw_ch w))"
proof (induction n arbitrary: w)
  case 0
  then show ?case by simp
next
  case (Suc n)
  show ?case
  proof (cases "pending_list (cw_ch w)")
    case Nil
    then show ?thesis using flush_loop_Nil [OF Suc.prems(1)] by simp
  next
    case (Cons m ms)
    obtain name data where m: "m = (name, data)" by fastforce
    note st = flush_step [OF Suc.prems(1) Cons [unfolded m] Suc.prems(2), of lib]
    note pf = publish_frame_spec [OF Suc.prems(2), of lib PUBLISH_BUF "c_opt name" "c_opt data" None]
    have prem: "length (rc_pending_frames (cw_core w)) \<noteq> 255" "length ms \<le> n"
      "proto_encode_publish lib PUBLISH_BUF (ch_name (cw_ch w)) (c_opt name) (c_opt data)
         (c_opt (rc_client_id (cw_core w))) None (rc_msg_serial (cw_core w)) (rc_encoding (cw_core w)) \<noteq> []"
      using Suc.prems(3,4,5) Cons m by auto
    show ?thesis
      unfolding st(1)
      using Suc.IH [OF st(2)] Suc.prems(3,4,5) Cons m prem
      by (simp add: st pf)
  qed
qed

lemma flush_loop_full:
  "ring_inv ABLY_CHANNEL_PENDING_CAPACITY (ch_pending (cw_ch w)) \<Longrightarrow> core_inv (cw_core w) \<Longrightarrow>
   length (pending_list (cw_ch w)) \<le> n \<Longrightarrow> length (rc_pending_frames (cw_core w)) = 255 \<Longrightarrow>
   pending_list (cw_ch (flush_loop lib n w)) = [] \<and>
   rc_pending_frames (cw_core (flush_loop lib n w)) = rc_pending_frames (cw_core w)"
proof (induction n arbitrary: w)
  case (Suc n)
  show ?case
  proof (cases "pending_list (cw_ch w)")
    case Nil
    then show ?thesis using flush_loop_Nil [OF Suc.prems(1)] by simp
  next
    case (Cons m ms)
    obtain name data where m: "m = (name, data)" by fastforce
    note st = flush_step [OF Suc.prems(1) Cons [unfolded m] Suc.prems(2), of lib]
    note pf = publish_frame_spec [OF Suc.prems(2), of lib PUBLISH_BUF "c_opt name" "c_opt data" None]
    show ?thesis unfolding st(1) using Suc.IH [OF st(2)] Suc.prems(3,4) Cons by (simp add: st pf)
  qed
qed simp

lemma publish_queues:
  fixes w :: "'x rt_core_scheme chan_world" and lib :: codec_lib and name data :: string
  assumes "ch_state (cw_ch w) = CHAN_ATTACHING" "world_ok w" "length (pending_list (cw_ch w)) < 31"
    and "length name < ABLY_MAX_MESSAGE_NAME_LEN" "length data < ABLY_MAX_MESSAGE_DATA_LEN"
  defines "w' \<equiv> snd (channel_publish lib (Some name) (Some data) w)"
  shows "fst (channel_publish lib (Some name) (Some data) w) = ABLY_OK"
    "pending_list (cw_ch w') = pending_list (cw_ch w) @ [(name, data)]"
    "ch_state (cw_ch w') = CHAN_ATTACHING" "world_ok w'" "cw_core w' = cw_core w"
    "ch_name (cw_ch w') = ch_name (cw_ch w)"
proof -
  have ring: "ring_inv ABLY_CHANNEL_PENDING_CAPACITY (ch_pending (cw_ch w))"
    using assms(2) by (simp add: world_ok_def chan_inv_def)
  obtain r where r: "ring_enqueue ABLY_CHANNEL_PENDING_CAPACITY (name, data) (ch_pending (cw_ch w)) = Some r"
    using pending.enq_room [OF ring] assms(3) by (auto simp: pending_list_def ABLY_CHANNEL_PENDING_CAPACITY_def)
  have p: "channel_publish lib (Some name) (Some data) w = (ABLY_OK, w\<lparr>cw_ch := (cw_ch w)\<lparr>ch_pending := r\<rparr>\<rparr>)"
    using assms(1,4,5) r by (simp add: channel_publish_def Let_def c_copy_id)
  show "fst (channel_publish lib (Some name) (Some data) w) = ABLY_OK" by (simp add: p)
  show "pending_list (cw_ch w') = pending_list (cw_ch w) @ [(name, data)]"
    using pending.enq_contents [OF ring r] by (simp add: w'_def p pending_list_def)
  show "world_ok w'" unfolding w'_def by (rule wf.publish_law [OF assms(2)])
  show "ch_state (cw_ch w') = CHAN_ATTACHING" "cw_core w' = cw_core w" "ch_name (cw_ch w') = ch_name (cw_ch w)"
    using assms(1) by (simp_all add: w'_def p)
qed

definition publish_all :: "codec_lib \<Rightarrow> (string \<times> string) list \<Rightarrow> 'x rt_core_scheme chan_world \<Rightarrow> 'x rt_core_scheme chan_world" where
  "publish_all lib ms w = fold (\<lambda>(n, d) w. snd (channel_publish lib (Some n) (Some d) w)) ms w"

definition message_fits :: "string \<times> string \<Rightarrow> bool" where
  "message_fits m \<longleftrightarrow> length (fst m) < ABLY_MAX_MESSAGE_NAME_LEN \<and> length (snd m) < ABLY_MAX_MESSAGE_DATA_LEN"

lemma publish_all_queues:
  "ch_state (cw_ch w) = CHAN_ATTACHING \<Longrightarrow> world_ok w \<Longrightarrow> length (pending_list (cw_ch w)) + length ms \<le> 31 \<Longrightarrow>
   list_all message_fits ms \<Longrightarrow>
     pending_list (cw_ch (publish_all lib ms w)) = pending_list (cw_ch w) @ ms \<and>
     world_ok (publish_all lib ms w) \<and> cw_core (publish_all lib ms w) = cw_core w \<and>
     ch_name (cw_ch (publish_all lib ms w)) = ch_name (cw_ch w)"
proof (induction ms arbitrary: w)
  case Nil
  then show ?case by (simp add: publish_all_def)
next
  case (Cons m ms)
  obtain n d where m: "m = (n, d)" by fastforce
  have q: "length (pending_list (cw_ch w)) < 31" "length n < ABLY_MAX_MESSAGE_NAME_LEN"
    "length d < ABLY_MAX_MESSAGE_DATA_LEN"
    using Cons.prems m by (simp_all add: message_fits_def)
  note pq = publish_queues [OF Cons.prems(1,2) q, of lib]
  have "publish_all lib (m # ms) w = publish_all lib ms (snd (channel_publish lib (Some n) (Some d) w))"
    by (simp add: publish_all_def m)
  then show ?case using Cons.IH [OF pq(3,4)] Cons.prems(3,4) by (simp add: pq m)
qed

lemma on_attached_resumed:
  assumes "pf_action frame = ACTION_ATTACHED" "has_flag (pf_flags frame) FLAG_RESUMED"
    "\<not> has_flag (pf_flags frame) FLAG_HAS_PRESENCE" "\<not> has_flag (pf_flags frame) FLAG_HAS_BACKLOG"
  shows "channel_on_frame lib env rest frame w = flush_pending_queue lib
    (set_state_locked CHAN_ATTACHED ABLY_OK (set_ch (\<lambda>ch. (track_serial frame (ch\<lparr>ch_reattach_pending := False,
       ch_granted_modes := pf_channel_modes frame\<rparr>))\<lparr>ch_last_error := no_error_info\<rparr>) w))"
  using assms by (simp add: channel_on_frame_def on_attached_def Let_def)

lemma attached_world:
  fixes w :: "'x rt_core_scheme chan_world" and frame :: ably_proto_frame
  defines "w1 \<equiv> set_state_locked CHAN_ATTACHED ABLY_OK (set_ch (\<lambda>ch. (track_serial frame
     (ch\<lparr>ch_reattach_pending := False, ch_granted_modes := pf_channel_modes frame\<rparr>))
     \<lparr>ch_last_error := no_error_info\<rparr>) w)"
  shows "pending_list (cw_ch w1) = pending_list (cw_ch w)" "cw_core w1 = cw_core w"
    "ch_name (cw_ch w1) = ch_name (cw_ch w)" "ch_pending (cw_ch w1) = ch_pending (cw_ch w)"
  by (simp_all add: w1_def set_state_locked_ch set_ch_def track_serial_def pending_list_def)

text \<open>What waits in the outbound ring stays in front.\<close>

definition grown :: "string list \<Rightarrow> 'x rt_core_scheme chan_world \<Rightarrow> bool" where
  "grown base w \<longleftrightarrow> world_ok w \<and> (\<exists>ps. rc_pending_frames (cw_core w) = base @ ps)"

interpretation grown: chan_preserved "grown base" any_op
proof
  fix w :: "'a rt_core_scheme chan_world"
  show "grown base w \<Longrightarrow> grown base (set_state_locked s r w)" for s r
    using wf.state_law [of w s r] by (simp add: grown_def set_state_locked_def Let_def emit_def)
  show "grown base w \<Longrightarrow> quiet (cw_ch w) ch \<Longrightarrow> grown base (w\<lparr>cw_ch := ch\<rparr>)" for ch
    using wf.quiet_law [of w ch] by (simp add: grown_def)
  show "grown base w \<Longrightarrow> core_quiet (cw_core w) c \<Longrightarrow> grown base (w\<lparr>cw_core := c\<rparr>)" for c
    using wf.core_law [of w c] by (auto simp: grown_def world_ok_def core_quiet_def)
  show "grown base w \<Longrightarrow> \<not> is_state_event e \<Longrightarrow> grown base (emit [e] w)" for e
    using wf.event_law [of w e] by (simp add: grown_def emit_def)
  show "grown base w \<Longrightarrow> resub (cw_ch w) ch \<Longrightarrow> grown base (w\<lparr>cw_ch := ch\<rparr>)" for ch
    by (simp add: grown_def world_ok_def resub_def)
  show "grown base w \<Longrightarrow> grown base (set_ch (channel_set_state_cb cb) w)" for cb
    using wf.set_cb_law [of cb w] by (simp add: grown_def set_ch_def any_op_def)
qed

lemma published_flushed:
  assumes w: "world_ok w" "ch_state (cw_ch w) = CHAN_ATTACHING"
    and ms: "length (pending_list (cw_ch w)) + length ms \<le> 31" "list_all message_fits ms"
    and room: "length (rc_pending_frames (cw_core w)) + length (pending_list (cw_ch w)) + length ms \<le> 255"
    and enc: "[] \<notin> set (queued_frames lib (ch_name (cw_ch w)) (c_opt (rc_client_id (cw_core w)))
        (rc_encoding (cw_core w)) (rc_msg_serial (cw_core w)) (pending_list (cw_ch w) @ ms))"
  shows "rc_pending_frames (cw_core (attached_flushed lib frame (publish_all lib ms w))) =
      rc_pending_frames (cw_core w) @ queued_frames lib (ch_name (cw_ch w)) (c_opt (rc_client_id (cw_core w)))
        (rc_encoding (cw_core w)) (rc_msg_serial (cw_core w)) (pending_list (cw_ch w) @ ms)"
proof -
  have q: "pending_list (cw_ch (publish_all lib ms w)) = pending_list (cw_ch w) @ ms" "world_ok (publish_all lib ms w)"
    "cw_core (publish_all lib ms w) = cw_core w" "ch_name (cw_ch (publish_all lib ms w)) = ch_name (cw_ch w)"
    using publish_all_queues [OF w(2,1) ms, of lib] by simp_all
  have inv: "ring_inv ABLY_CHANNEL_PENDING_CAPACITY (ch_pending (cw_ch (publish_all lib ms w)))" "core_inv (cw_core w)"
    using q(2,3) by (simp_all add: world_ok_def chan_inv_def)
  show ?thesis
    unfolding attached_flushed_def flush_pending_queue_def
    using flush_loop_sends [of "set_state_locked CHAN_ATTACHED ABLY_OK (set_ch (\<lambda>ch. (track_serial frame
       (ch\<lparr>ch_reattach_pending := False, ch_granted_modes := pf_channel_modes frame\<rparr>))
       \<lparr>ch_last_error := no_error_info\<rparr>) (publish_all lib ms w))" ABLY_CHANNEL_PENDING_CAPACITY lib]
      inv ms(1) room enc
    by (simp only: attached_world q) (simp add: ABLY_CHANNEL_PENDING_CAPACITY_def)
qed

text \<open>C12. Messages published while the channel is ATTACHING are sent on ATTACHED, all of them, in the order of the calls
  and with consecutive serials, behind what was queued on the channel before and the frames already in the outbound
  ring: whatever the flags of the ATTACHED frame, and whatever the callbacks do that gap recovery calls. What follows
  in the ring then comes from gap recovery and re-entered presence, and is nothing if the channel was resumed without
  backlog and presence. It is assumed that queue (31 messages) and ring (255 frames) have room, that name and data fit
  their arrays, and that the encoder writes every message; a full ring loses them (\<open>queued_publishes_lost_when_full\<close>).\<close>

theorem queued_publishes_sent_in_order:
  assumes w: "world_ok w" "ch_state (cw_ch w) = CHAN_ATTACHING"
    and ms: "length (pending_list (cw_ch w)) + length ms \<le> 31" "list_all message_fits ms"
    and frame: "pf_action frame = ACTION_ATTACHED"
    and room: "length (rc_pending_frames (cw_core w)) + length (pending_list (cw_ch w)) + length ms \<le> 255"
    and enc: "[] \<notin> set (queued_frames lib (ch_name (cw_ch w)) (c_opt (rc_client_id (cw_core w)))
        (rc_encoding (cw_core w)) (rc_msg_serial (cw_core w)) (pending_list (cw_ch w) @ ms))"
  shows "let sent = rc_pending_frames (cw_core w) @ queued_frames lib (ch_name (cw_ch w)) (c_opt (rc_client_id (cw_core w)))
        (rc_encoding (cw_core w)) (rc_msg_serial (cw_core w)) (pending_list (cw_ch w) @ ms) in
    (frame_bounded frame \<longrightarrow> (\<exists>more. rc_pending_frames (cw_core
       (channel_on_frame lib (script_env lib script) rest frame (publish_all lib ms w))) = sent @ more)) \<and>
    (has_flag (pf_flags frame) FLAG_RESUMED \<and> \<not> has_flag (pf_flags frame) FLAG_HAS_PRESENCE \<and>
       \<not> has_flag (pf_flags frame) FLAG_HAS_BACKLOG \<longrightarrow>
       rc_pending_frames (cw_core (channel_on_frame lib env rest frame (publish_all lib ms w))) = sent)"
proof -
  let ?w = "publish_all lib ms w"
  note sent = published_flushed [OF w ms room enc, of frame]
  have on: "channel_on_frame lib e rest frame ?w = on_attached lib e rest frame ?w" for e
    using frame by (simp add: channel_on_frame_def)
  have "world_ok ?w" using publish_all_queues [OF w(2,1) ms, of lib] by simp
  then have "world_ok (attached_flushed lib frame ?w)" if "frame_bounded frame" by (rule wf.flushed_law [OF _ that])
  then have "grown (rc_pending_frames (cw_core (attached_flushed lib frame ?w)))
      (on_attached lib (script_env lib script) rest frame ?w)" if "frame_bounded frame"
    using that by (intro grown.after_flush_law grown.script_law) (auto simp: grown_def any_op_def list_all_iff)
  moreover have "on_attached lib env rest frame ?w = attached_flushed lib frame ?w"
    if "has_flag (pf_flags frame) FLAG_RESUMED" "\<not> has_flag (pf_flags frame) FLAG_HAS_PRESENCE"
      "\<not> has_flag (pf_flags frame) FLAG_HAS_BACKLOG"
    using that by (simp add: on_attached_def attached_flushed_def Let_def)
  ultimately show ?thesis by (auto simp: Let_def grown_def on sent)
qed

definition attaching_world :: "rt_core chan_world" where
  "attaching_world = \<lparr>cw_ch = (channel_create ''chat'')\<lparr>ch_state := CHAN_ATTACHING\<rparr>, cw_core = demo_core,
     cw_events = []\<rparr>"

lemma attaching_world_simps:
  "world_ok attaching_world" "ch_state (cw_ch attaching_world) = CHAN_ATTACHING"
  "pending_list (cw_ch attaching_world) = []" "rc_pending_frames (cw_core attaching_world) = []"
  "ch_name (cw_ch attaching_world) = ''chat''" "cw_core attaching_world = demo_core"
proof -
  show "world_ok attaching_world"
    using chan_create_inv [of "''chat''"] demo_core_inv
    by (simp add: world_ok_def attaching_world_def chan_inv_state)
qed (simp_all add: attaching_world_def channel_create_def pending_list_def rc_pending_frames_def demo_core_def
      empty_ring_list c_copy_def capacity_defs)

definition resumed_frame :: ably_proto_frame where
  "resumed_frame = (blank_frame ACTION_ATTACHED)\<lparr>pf_flags := 4\<rparr>"

lemma resumed_frame_simps:
  "pf_action resumed_frame = ACTION_ATTACHED" "has_flag (pf_flags resumed_frame) FLAG_RESUMED"
  "\<not> has_flag (pf_flags resumed_frame) FLAG_HAS_PRESENCE" "\<not> has_flag (pf_flags resumed_frame) FLAG_HAS_BACKLOG"
  by (simp_all add: resumed_frame_def blank_frame_def has_flag_def flag_defs)

lemma demo_queued: "queued_frames no_lib chan None ENCODING_JSON n [(''a'', ''1''), (''b'', ''2'')] = [''{}'', ''{}'']"
  by (simp add: proto_encode_publish_def proto_encode_publish_json_def emit_json_def no_lib_def PUBLISH_BUF_def
      capacity_defs)

lemma demo_core_simps: "rc_client_id demo_core = []" "rc_encoding demo_core = ENCODING_JSON"
  "rc_pending_frames demo_core = []"
  using attaching_world_simps(4,6) by (simp_all add: demo_core_def)

lemma queued_publishes_sent_in_order_witness:
  "rc_pending_frames (cw_core (channel_on_frame no_lib (\<lambda>cb m w. w) None resumed_frame
     (publish_all no_lib [(''a'', ''1''), (''b'', ''2'')] attaching_world))) = [''{}'', ''{}'']"
  using queued_publishes_sent_in_order [of attaching_world "[(''a'', ''1''), (''b'', ''2'')]" resumed_frame
      no_lib "\<lambda>cb m. []" None "\<lambda>cb m w. w"]
  by (simp add: Let_def attaching_world_simps resumed_frame_simps message_fits_def capacity_defs demo_core_simps
      demo_queued del: queued_frames.simps)

text \<open>When the outbound ring is full, ATTACHED throws the queued messages away: the queue is empty
  afterwards and nothing was added to the ring, although every publish call had returned OK.\<close>

theorem queued_publishes_lost_when_full:
  assumes w: "world_ok w" and full: "length (rc_pending_frames (cw_core w)) = 255"
    and frame: "pf_action frame = ACTION_ATTACHED" "has_flag (pf_flags frame) FLAG_RESUMED"
      "\<not> has_flag (pf_flags frame) FLAG_HAS_PRESENCE" "\<not> has_flag (pf_flags frame) FLAG_HAS_BACKLOG"
  shows "pending_list (cw_ch (channel_on_frame lib env rest frame w)) = [] \<and>
    rc_pending_frames (cw_core (channel_on_frame lib env rest frame w)) = rc_pending_frames (cw_core w)"
proof -
  have inv: "ring_inv ABLY_CHANNEL_PENDING_CAPACITY (ch_pending (cw_ch w))" "core_inv (cw_core w)"
    using w by (simp_all add: world_ok_def chan_inv_def)
  have len: "length (pending_list (cw_ch w)) \<le> ABLY_CHANNEL_PENDING_CAPACITY"
    using pending_bound [OF inv(1)] by (simp add: ABLY_CHANNEL_PENDING_CAPACITY_def)
  show ?thesis
    unfolding on_attached_resumed [OF frame] flush_pending_queue_def
    using flush_loop_full [of "set_state_locked CHAN_ATTACHED ABLY_OK (set_ch (\<lambda>ch. (track_serial frame
       (ch\<lparr>ch_reattach_pending := False, ch_granted_modes := pf_channel_modes frame\<rparr>))
       \<lparr>ch_last_error := no_error_info\<rparr>) w)" ABLY_CHANNEL_PENDING_CAPACITY lib] inv len full
    by (simp only: attached_world)
qed

lemma full_ring_example:
  "\<exists>c :: rt_core. core_inv c \<and> length (rc_pending_frames c) = 255"
proof -
  have "ring_inv ABLY_SEND_RING_CAPACITY (empty_ring ABLY_SEND_RING_CAPACITY ''x'')"
    by (simp add: ring_inv_def empty_ring_def ABLY_SEND_RING_CAPACITY_def)
  moreover have "length (ring_list ABLY_SEND_RING_CAPACITY (empty_ring ABLY_SEND_RING_CAPACITY ''x'')) +
      length (replicate 255 ''x'') \<le> ABLY_SEND_RING_CAPACITY - 1"
    by (simp only: empty_ring_list) (simp add: ABLY_SEND_RING_CAPACITY_def)
  ultimately obtain r where r: "ring_inv ABLY_SEND_RING_CAPACITY r"
    "ring_list ABLY_SEND_RING_CAPACITY r = replicate 255 ''x''"
    using send_ring.fill_spec [of "empty_ring ABLY_SEND_RING_CAPACITY ''x''" "replicate 255 ''x''"]
    unfolding empty_ring_list append_Nil by blast
  then have "core_inv (demo_core\<lparr>rc_send_ring := r\<rparr>) \<and>
      length (rc_pending_frames (demo_core\<lparr>rc_send_ring := r\<rparr>)) = 255"
    unfolding core_inv_def rc_pending_frames_def by simp
  then show ?thesis by blast
qed

lemma queued_publishes_lost_when_full_witness:
  "\<exists>c :: rt_core. length (rc_pending_frames c) = 255 \<and>
     (let w = publish_all no_lib [(''a'', ''1'')] (attaching_world\<lparr>cw_core := c\<rparr>)
      in pending_list (cw_ch w) = [(''a'', ''1'')] \<and>
         pending_list (cw_ch (channel_on_frame no_lib (\<lambda>cb m w. w) None resumed_frame w)) = [] \<and>
         rc_pending_frames (cw_core (channel_on_frame no_lib (\<lambda>cb m w. w) None resumed_frame w)) = rc_pending_frames c)"
proof -
  obtain c :: rt_core where c: "core_inv c" "length (rc_pending_frames c) = 255" using full_ring_example by blast
  let ?w = "attaching_world\<lparr>cw_core := c\<rparr>"
  have "world_ok ?w" using attaching_world_simps(1) c(1) by (simp add: world_ok_def)
  then have q: "pending_list (cw_ch (publish_all no_lib [(''a'', ''1'')] ?w)) = [(''a'', ''1'')]"
    "world_ok (publish_all no_lib [(''a'', ''1'')] ?w)" "cw_core (publish_all no_lib [(''a'', ''1'')] ?w) = c"
    using publish_all_queues [of ?w "[(''a'', ''1'')]" no_lib]
    by (simp_all add: attaching_world_simps message_fits_def capacity_defs)
  have "length (rc_pending_frames (cw_core (publish_all no_lib [(''a'', ''1'')] ?w))) = 255" by (simp add: q c)
  from queued_publishes_lost_when_full [OF q(2) this resumed_frame_simps, of no_lib "\<lambda>cb m w. w" None]
  show ?thesis using c(2) q by (auto simp: Let_def)
qed

section \<open>Delivery\<close>

text \<open>Whether a subscription made with a filter hears a message of a name: without a filter, or with an empty one,
  every message.\<close>

fun hears :: "string option \<Rightarrow> string option \<Rightarrow> bool" where
  "hears None name \<longleftrightarrow> True"
| "hears (Some f) name \<longleftrightarrow> f = [] \<or> name = Some f"

definition wants :: "ably_message \<Rightarrow> subscriber \<Rightarrow> bool" where
  "wants msg s \<longleftrightarrow> sub_token s \<noteq> 0 \<and> hears (Some (sub_name_filter s)) (am_name msg)"

lemma deliver_loop_passive:
  assumes "\<And>cb w. cw_ch (env cb msg w) = cw_ch w" "\<And>cb w. cw_events (env cb msg w) = cw_events w"
  shows "cw_ch (deliver_loop env msg slots w) = cw_ch w \<and>
    cw_events (deliver_loop env msg slots w) = cw_events w @
      map (\<lambda>s. Ev_Message (sub_cb s) msg) (filter (wants msg) (map ((!) (ch_subscribers (cw_ch w))) slots))"
proof (induction slots arbitrary: w)
  case (Cons i slots)
  have "cw_ch (env cb msg (emit ev w)) = cw_ch w" "cw_events (env cb msg (emit ev w)) = cw_events w @ ev" for cb ev
    using assms by (simp_all add: emit_def)
  then show ?case using Cons.IH by (auto simp: Let_def wants_def sub_matches_def)
qed simp

lemma deliver_message_passive:
  assumes "chan_inv (cw_ch w)" "\<And>cb w. cw_ch (env cb msg w) = cw_ch w" "\<And>cb w. cw_events (env cb msg w) = cw_events w"
  shows "cw_events (deliver_message env msg w) =
    cw_events w @ map (\<lambda>s. Ev_Message (sub_cb s) msg) (filter (wants msg) (ch_subscribers (cw_ch w)))"
  using deliver_loop_passive [where env = env and msg = msg and w = w
      and slots = "[0..<ABLY_MAX_SUBSCRIBERS_PER_CHANNEL]", OF assms(2,3)] assms(1)
    map_nth [of "ch_subscribers (cw_ch w)"]
  by (simp add: deliver_message_def chan_inv_def)

text \<open>A new subscription takes a free slot and changes no other.\<close>

lemma subscribe_slot:
  assumes "channel_subscribe f cb ch = (t, ch')" "0 < t" "length (c_str f) < ABLY_MAX_MESSAGE_NAME_LEN"
  shows "\<exists>i s. i < length (ch_subscribers ch) \<and> sub_token (ch_subscribers ch ! i) = 0 \<and>
    ch_subscribers ch' = (ch_subscribers ch)[i := s] \<and> sub_token s = t \<and> sub_cb s = cb \<and> sub_name_filter s = c_str f"
proof (cases "first_index (\<lambda>s. sub_token s = 0) (ch_subscribers ch)")
  case None
  then show ?thesis using assms(1,2) by (simp add: channel_subscribe_def)
next
  case (Some i)
  have "(if c_nonempty f then c_copy ABLY_MAX_MESSAGE_NAME_LEN (c_str f) else []) = c_str f"
    using assms(3) by (cases f) (simp_all add: c_copy_id)
  with Some assms(1) have "ch_subscribers ch' = (ch_subscribers ch)[i := \<lparr>sub_token = t, sub_cb = cb, sub_name_filter = c_str f\<rparr>]"
    by (auto simp: channel_subscribe_def Let_def)
  with first_index_Some [OF Some] show ?thesis
    by (intro exI [of _ i] exI [of _ "\<lparr>sub_token = t, sub_cb = cb, sub_name_filter = c_str f\<rparr>"]) simp
qed

lemma filter_update_new:
  assumes "i < length xs" "\<not> P (xs ! i)"
  shows "mset (map g (filter P (xs[i := x]))) = mset (map g (filter P xs)) + (if P x then {#g x#} else {#})"
proof -
  have "filter P xs = filter P (take i xs) @ filter P (drop (Suc i) xs)"
    by (subst id_take_nth_drop [OF assms(1)]) (simp add: assms(2))
  then show ?thesis by (simp add: upd_conv_take_nth_drop [OF assms(1)])
qed

text \<open>C30. With callbacks that leave the channel and the events alone, a message is delivered once to every subscription
  that has no filter or whose filter is the name of the message, in the order of the slots, and to nobody else. A
  new subscription hears the message exactly if it was made without a filter, with an empty one, or with one that is
  the name of the message (a filter of 256 characters or more is cut).\<close>

theorem deliver_exactly_once:
  assumes "chan_inv (cw_ch w)"
    and "\<And>cb w. cw_ch (env cb msg w) = cw_ch w" "\<And>cb w. cw_events (env cb msg w) = cw_events w"
  shows "cw_events (deliver_message env msg w) = cw_events w @ map (\<lambda>s. Ev_Message (sub_cb s) msg)
      (filter (\<lambda>s. sub_token s \<noteq> 0 \<and> (sub_name_filter s = [] \<or> am_name msg = Some (sub_name_filter s)))
        (ch_subscribers (cw_ch w))) \<and>
    (\<forall>f cb t ch. channel_subscribe f cb (cw_ch w) = (t, ch) \<and> 0 < t \<and> length (c_str f) < ABLY_MAX_MESSAGE_NAME_LEN \<longrightarrow>
       mset (cw_events (deliver_message env msg (w\<lparr>cw_ch := ch\<rparr>))) =
         mset (cw_events (deliver_message env msg w)) + (if hears f (am_name msg) then {#Ev_Message cb msg#} else {#}))"
proof (intro conjI allI impI)
  fix f cb t ch
  assume s: "channel_subscribe f cb (cw_ch w) = (t, ch) \<and> 0 < t \<and> length (c_str f) < ABLY_MAX_MESSAGE_NAME_LEN"
  obtain i s where i: "i < length (ch_subscribers (cw_ch w))" "sub_token (ch_subscribers (cw_ch w) ! i) = 0"
    "ch_subscribers ch = (ch_subscribers (cw_ch w))[i := s]" "sub_token s = t" "sub_cb s = cb" "sub_name_filter s = c_str f"
    using subscribe_slot [of f cb "cw_ch w" t ch] s by blast
  have "chan_inv ch" using resub_subscribe [of "cw_ch w" f cb] s assms(1) by (simp add: resub_def)
  moreover have "wants msg s \<longleftrightarrow> hears f (am_name msg)" using i s by (cases f) (auto simp: wants_def)
  moreover have "\<not> wants msg (ch_subscribers (cw_ch w) ! i)" using i by (simp add: wants_def)
  ultimately show "mset (cw_events (deliver_message env msg (w\<lparr>cw_ch := ch\<rparr>))) =
      mset (cw_events (deliver_message env msg w)) + (if hears f (am_name msg) then {#Ev_Message cb msg#} else {#})"
    using i deliver_message_passive [where env = env and msg = msg and w = w, OF assms] deliver_message_passive [where env = env and msg = msg and w = "w\<lparr>cw_ch := ch\<rparr>", OF _ assms(2,3)]
      filter_update_new [of i "ch_subscribers (cw_ch w)" "wants msg" "\<lambda>s. Ev_Message (sub_cb s) msg" s]
    by simp
qed (use deliver_message_passive [where env = env and msg = msg and w = w, OF assms] in \<open>simp add: wants_def [abs_def]\<close>)

definition two_subscribers :: "rt_core chan_world" where
  "two_subscribers = \<lparr>cw_ch = snd (channel_subscribe None 12 (snd (channel_subscribe None 11 (channel_create ''chat'')))),
     cw_core = demo_core, cw_events = []\<rparr>"

definition demo_message :: ably_message where
  "demo_message = \<lparr>am_id = None, am_name = Some ''n'', am_data = Some ''d'', am_client_id = None, am_timestamp = 0\<rparr>"

lemma first_free: "first_index (\<lambda>s. sub_token s = 0) (ss @ free_subscriber # rest) = Some (length ss)"
  if "\<forall>s \<in> set ss. sub_token s \<noteq> 0"
  using that by (induction ss) (auto simp: free_subscriber_def)

lemma two_subscribers_subs:
  "ch_subscribers (cw_ch two_subscribers) = \<lparr>sub_token = 1, sub_cb = 11, sub_name_filter = []\<rparr> #
     \<lparr>sub_token = 2, sub_cb = 12, sub_name_filter = []\<rparr> # replicate 30 free_subscriber"
proof -
  have r: "replicate ABLY_MAX_SUBSCRIBERS_PER_CHANNEL free_subscriber =
      free_subscriber # free_subscriber # replicate 30 free_subscriber"
    by (simp add: ABLY_MAX_SUBSCRIBERS_PER_CHANNEL_def replicate_numeral)
  show ?thesis
    using first_free [of "[]" "free_subscriber # replicate 30 free_subscriber"]
      first_free [of "[\<lparr>sub_token = 1, sub_cb = 11, sub_name_filter = []\<rparr>]" "replicate 30 free_subscriber"]
    by (simp add: two_subscribers_def channel_create_def channel_subscribe_def r next_token_def c_int_def)
qed

lemma two_subscribers_ok: "chan_inv (cw_ch two_subscribers)"
  using resub_subscribe chan_create_inv by (simp add: two_subscribers_def resub_def)

lemma deliver_exactly_once_witness:
  "cw_events (deliver_message (\<lambda>cb m w. w) demo_message two_subscribers) =
     [Ev_Message 11 demo_message, Ev_Message 12 demo_message]"
  using deliver_exactly_once [OF two_subscribers_ok, of "\<lambda>cb m w. w" demo_message]
  by (simp add: two_subscribers_subs free_subscriber_def) (simp add: two_subscribers_def)

text \<open>A subscriber that unsubscribes itself in its callback ends the delivery of that message: the loop
  stops at the slot instead of going on with the next one, so the subscribers behind it never see the
  message.\<close>

theorem self_unsubscribe_cuts_delivery:
  "cw_events (deliver_message (script_env no_lib (\<lambda>cb m. if cb = 11 then [Op_Unsubscribe 1] else []))
     demo_message two_subscribers) = [Ev_Message 11 demo_message]"
proof -
  have u: "[0..<ABLY_MAX_SUBSCRIBERS_PER_CHANNEL] = 0 # [1..<32]"
    by (simp add: ABLY_MAX_SUBSCRIBERS_PER_CHANNEL_def upt_rec)
  have e: "cw_events two_subscribers = []" by (simp add: two_subscribers_def)
  show ?thesis
    by (simp add: deliver_message_def u two_subscribers_subs sub_matches_def script_env_def set_ch_def emit_def
        channel_unsubscribe_def free_subscriber_def e del: upt_rec_numeral upt_Suc)
qed

section \<open>Delta decoding\<close>

definition delta_base :: "channel \<Rightarrow> byte list" where
  "delta_base ch = ch_delta_bufs ch ! ch_delta_buf_idx ch"

lemma delta_base_set:
  assumes "chan_inv ch"
  shows "delta_base (ch\<lparr>ch_delta_bufs := (ch_delta_bufs ch)[1 - ch_delta_buf_idx ch := b],
    ch_delta_buf_idx := 1 - ch_delta_buf_idx ch\<rparr>) = b"
  using assms by (simp add: delta_base_def chan_inv_def)

text \<open>A delta channel reconstructs payloads: a full message becomes the base, and a delta, base64 text
  of an encoded instruction sequence, resolves to the target it describes on the current base and makes
  that the new base. Nothing compares \<open>delta.from\<close> with the id of the base: a delta whose base message
  was missed is applied to whatever the base is.\<close>

theorem delta_messages_resolve:
  assumes inv: "chan_inv ch" and on: "ch_delta_enabled ch"
    and full: "prm_data pm = Some data" "prm_delta_format pm = None" "length data < ABLY_MAX_MESSAGE_DATA_LEN"
    and delta: "prm_delta_format dm = Some ''vcdiff''"
      "prm_data dm = Some (ably_base64_encode (vc_encode src ops))"
    and enc: "vc_encodable (ABLY_MAX_MESSAGE_DATA_LEN - 1) src ops"
      "length (vc_encode src ops) + 6 \<le> ABLY_MAX_MESSAGE_DATA_LEN" and base: "delta_base ch = src"
  shows "fst (resolve_data pm ch) = Res_Data (Some data) \<and> delta_base (snd (resolve_data pm ch)) = bytes_of data \<and>
    fst (resolve_data dm ch) = Res_Data (Some (text_of (vc_target src ops []))) \<and>
    delta_base (snd (resolve_data dm ch)) = vc_target src ops []"
proof -
  have same: "delta_base (c\<lparr>ch_delta_last_id := i\<rparr>) = delta_base c" for c :: channel and i
    by (simp add: delta_base_def)
  have 1: "fst (resolve_data pm ch) = Res_Data (Some data)" "delta_base (snd (resolve_data pm ch)) = bytes_of data"
    using on full delta_base_set [OF inv, of "bytes_of data"]
    by (simp_all add: resolve_data_def store_base_def Let_def same split: option.split)
  let ?d = "vc_encode src ops"
  have "ably_base64_decode_max_len (length (ably_base64_encode ?d)) = (length ?d + 2) div 3 * 3 + 3"
    by (simp add: length_base64_encode ably_base64_decode_max_len_def)
  also have "\<dots> \<le> length ?d + 6" by linarith
  finally have m: "ably_base64_decode_max_len (length (ably_base64_encode ?d)) \<le> ABLY_MAX_MESSAGE_DATA_LEN"
    using enc(2) by simp
  have dec: "ably_base64_decode ABLY_MAX_MESSAGE_DATA_LEN (ably_base64_encode ?d) = Some ?d"
    using enc(2) by (intro base64_decode_encode) simp
  have v: "ably_vcdiff_decode (Some src) (Some ?d) (Some (ABLY_MAX_MESSAGE_DATA_LEN - 1)) =
      VC_OK (vc_target src ops [])"
    by (rule decode_encode [OF enc(1)])
  have "resolve_data dm ch = (Res_Data (Some (text_of (vc_target src ops []))),
      ch\<lparr>ch_delta_bufs := (ch_delta_bufs ch)[1 - ch_delta_buf_idx ch := vc_target src ops []],
         ch_delta_buf_idx := 1 - ch_delta_buf_idx ch\<rparr>)"
    using m enc(2) dec v base on delta by (simp add: resolve_data_def resolve_delta_def delta_base_def Let_def)
  then show ?thesis using 1 delta_base_set [OF inv] by simp
qed

definition plain_message :: "string option \<Rightarrow> string option \<Rightarrow> ably_proto_message" where
  "plain_message data delta = \<lparr>prm_id = None, prm_client_id = None, prm_connection_id = None, prm_name = None,
     prm_data = data, prm_encoding = None, prm_timestamp = 0, prm_delta_format = delta,
     prm_delta_from = None, prm_has_occupancy = False, prm_occupancy = zero_occupancy\<rparr>"

definition delta_channel :: channel where
  "delta_channel = (channel_create ''chat'')\<lparr>ch_delta_enabled := True, ch_delta_bufs := [[1, 2, 3], []]\<rparr>"

lemma delta_messages_resolve_witness:
  "fst (resolve_data (plain_message (Some (ably_base64_encode (vc_encode [1, 2, 3] [Op_Copy 0 3, Op_Add [9]])))
     (Some ''vcdiff'')) delta_channel) = Res_Data (Some (text_of [1, 2, 3, 9]))"
proof -
  have inv: "chan_inv delta_channel"
    using chan_create_inv [of "''chat''"] by (simp add: delta_channel_def chan_inv_def capacity_defs)
  show ?thesis
    using delta_messages_resolve [OF inv, of "plain_message (Some ''x'') None" "''x''"
        "plain_message (Some (ably_base64_encode (vc_encode [1, 2, 3] [Op_Copy 0 3, Op_Add [9]]))) (Some ''vcdiff'')"
        "[1, 2, 3]" "[Op_Copy 0 3, Op_Add [9]]"]
    by (simp add: plain_message_def delta_channel_def delta_base_def channel_create_def capacity_defs
        vc_encodable_def vc_encode_def vc_encode_window_def vc_put_def VCDIFF_MAGIC_def)
qed

section \<open>ATTACHED\<close>

text \<open>Gap recovery starts at the wrong place: the handler stores the serial of the ATTACHED frame
  before it fetches history from "the last known serial", so what the channel knew before the connection
  was lost has no influence on what is recovered.\<close>

theorem gap_recovery_ignores_known_serial:
  assumes "pf_action frame = ACTION_ATTACHED" "pf_channel_serial frame \<noteq> []"
  shows "channel_on_frame lib env rest frame (set_ch (\<lambda>ch. ch\<lparr>ch_channel_serial := known\<rparr>) w) =
    channel_on_frame lib env rest frame w"
  using assms by (simp add: channel_on_frame_def on_attached_def set_ch_def track_serial_def)

lemma gap_recovery_ignores_known_serial_witness:
  "channel_on_frame no_lib (\<lambda>cb m w. w) None (resumed_frame\<lparr>pf_channel_serial := ''s2''\<rparr>)
      (set_ch (\<lambda>ch. ch\<lparr>ch_channel_serial := ''s1''\<rparr>) attaching_world) =
    channel_on_frame no_lib (\<lambda>cb m w. w) None (resumed_frame\<lparr>pf_channel_serial := ''s2''\<rparr>) attaching_world"
  by (rule gap_recovery_ignores_known_serial) (simp_all add: resumed_frame_simps(1) resumed_frame_def blank_frame_def)

text \<open>An ATTACHED frame that announces presence members empties the member set: it is handled as a
  complete SYNC without members, so everybody known leaves until the real SYNC arrives.\<close>

theorem attached_clears_presence:
  assumes inv: "chan_inv (cw_ch w)" and ps: "ch_pres (cw_ch w) = Some ps" "\<not> ps_syncing ps"
    and frame: "pf_action frame = ACTION_ATTACHED" "has_flag (pf_flags frame) FLAG_RESUMED"
      "has_flag (pf_flags frame) FLAG_HAS_PRESENCE" "\<not> has_flag (pf_flags frame) FLAG_HAS_BACKLOG"
      "pf_presence_msgs frame = []" "pf_sync_serial frame = []"
    and core: "core_inv (cw_core w)"
  shows "\<exists>ps'. ch_pres (cw_ch (channel_on_frame lib env rest frame w)) = Some ps' \<and> pres_members ps' = Map.empty"
proof -
  have pinv: "pres_inv ps" using inv ps by (simp add: chan_inv_def pres_state_ok_def)
  let ?w1 = "set_state_locked CHAN_ATTACHED ABLY_OK (set_ch (\<lambda>ch. (track_serial frame
       (ch\<lparr>ch_reattach_pending := False, ch_granted_modes := pf_channel_modes frame\<rparr>))
       \<lparr>ch_last_error := no_error_info\<rparr>) w)"
  have keep: "ch_pres (cw_ch (flush_loop lib n v)) = ch_pres (cw_ch v)" if "core_inv (cw_core v)" for n and v :: "'a rt_core_scheme chan_world"
    using that
  proof (induction n arbitrary: v)
    case (Suc n)
    note pf = publish_frame_spec [OF Suc.prems, of lib PUBLISH_BUF]
    show ?case using Suc.IH pf(1,2) by (auto simp: case_prod_beta set_ch_def split: option.splits)
  qed simp
  have p: "ch_pres (cw_ch (flush_pending_queue lib ?w1)) = Some ps"
    using keep [of ?w1 ABLY_CHANNEL_PENDING_CAPACITY] core ps(1)
    by (simp add: flush_pending_queue_def attached_world set_state_locked_ch) (simp add: set_ch_def track_serial_def)
  have "presence_handle_sync frame ps = end_sync (begin_sync ps)"
    using ps(2) frame(5,6)
    by (simp add: presence_handle_sync_def is_last_page_def Let_def case_prod_beta)
  then have "pres_members (fst (presence_handle_sync frame ps)) = spec_end (spec_begin (pres_members ps))"
    using begin_sync_refines [OF pinv] end_sync_refines(2) [of "begin_sync ps"] by simp
  moreover have "spec_end (spec_begin M) = Map.empty" for M
    by (rule ext) (auto simp: spec_end_def spec_begin_def split: option.splits)
  moreover have "channel_on_frame lib env rest frame w = with_pres (presence_handle_sync frame) (flush_pending_queue lib ?w1)"
    using frame by (simp add: channel_on_frame_def on_attached_def Let_def)
  moreover have "ch_pres (cw_ch (with_pres h v)) = Some (fst (h ps))" if "ch_pres (cw_ch v) = Some ps"
    for h and v :: "'a rt_core_scheme chan_world"
    using that by (simp add: with_pres_def case_prod_beta emit_def set_ch_def)
  ultimately show ?thesis using p by simp
qed

definition present_world :: "rt_core chan_world" where
  "present_world = attaching_world\<lparr>cw_ch := (channel_create ''chat'')\<lparr>ch_pres := Some (fst (presence_handle_message
     (demo_frame [demo_member PRESENCE_ENTER ''ann''] []) presence_init))\<rparr>\<rparr>"

lemma attached_clears_presence_witness:
  "\<exists>ps ps'. ch_pres (cw_ch present_world) = Some ps \<and> pres_members ps ''ann'' \<noteq> None \<and>
     ch_pres (cw_ch (channel_on_frame no_lib (\<lambda>cb m w. w) None (resumed_frame\<lparr>pf_flags := 5\<rparr>) present_world)) = Some ps' \<and>
     pres_members ps' = Map.empty"
proof -
  let ?ps = "fst (presence_handle_message (demo_frame [demo_member PRESENCE_ENTER ''ann''] []) presence_init)"
  have ps: "ch_pres (cw_ch present_world) = Some ?ps" by (simp add: present_world_def)
  have "frame_bounded (demo_frame [demo_member PRESENCE_ENTER ''ann''] [])"
    by (simp add: frame_bounded_def demo_frame_def blank_frame_def demo_member_def zero_presence_message_def
        presence_bounded_def capacity_defs ABLY_MAX_PRESENCE_PER_FRAME_def)
  then have "pres_state_ok ?ps" using pres_handlers_ok(2) [OF _ pres_init_ok] by blast
  then have inv: "chan_inv (cw_ch present_world)"
    using chan_create_inv [of "''chat''"] by (simp add: present_world_def chan_inv_def)
  have f: "pf_action (resumed_frame\<lparr>pf_flags := 5\<rparr>) = ACTION_ATTACHED"
    "has_flag (pf_flags (resumed_frame\<lparr>pf_flags := 5\<rparr>)) FLAG_RESUMED"
    "has_flag (pf_flags (resumed_frame\<lparr>pf_flags := 5\<rparr>)) FLAG_HAS_PRESENCE"
    "\<not> has_flag (pf_flags (resumed_frame\<lparr>pf_flags := 5\<rparr>)) FLAG_HAS_BACKLOG"
    "pf_presence_msgs (resumed_frame\<lparr>pf_flags := 5\<rparr>) = []" "pf_sync_serial (resumed_frame\<lparr>pf_flags := 5\<rparr>) = []"
    by (simp_all add: resumed_frame_def blank_frame_def flag_defs)
  have core: "core_inv (cw_core present_world)"
    by (simp add: present_world_def attaching_world_simps demo_core_inv)
  from attached_clears_presence [OF inv ps demo_ann(3) f core, of no_lib "\<lambda>cb m w. w" None] ps
  show ?thesis using demo_ann(2) by auto
qed

section \<open>Channel modes\<close>

text \<open>Channel modes are never requested: the frame that \<^verbatim>\<open>attach\<close> queues does not depend on what
  \<^verbatim>\<open>set_modes\<close> or \<^verbatim>\<open>set_options\<close> stored, although both encoders can send them.\<close>

theorem channel_modes_never_sent:
  "rc_pending_frames (cw_core (snd (channel_attach lib (set_ch (channel_set_modes modes) w)))) =
     rc_pending_frames (cw_core (snd (channel_attach lib w))) \<and>
   ap_channel_modes (channel_attach_params ch) = 0"
  by (simp add: channel_attach_def set_ch_def channel_set_modes_def channel_attach_params_def no_attach_params_def
      Let_def chan_enqueue_def case_prod_beta set_state_locked_core)

end
