(* ===== verification/Ably_Ws.thy ===== *)
theory Ably_Ws
  imports Ably_Base64 Ably_Url
begin

text \<open>
  \<^verbatim>\<open>src/ws/ws_client.c\<close>: the WebSocket client. mbedTLS, the sockets and wslay are third-party code:
  what their calls return is an argument. A call that a loop repeats is a list of results, consumed in
  order; a loop that has used up its list is still waiting, which is the result \<open>None\<close>. The model keeps
  account of two documented obligations towards mbedTLS: a socket that is overwritten while it is open
  is lost (\<open>ww_lost\<close>), and \<^verbatim>\<open>mbedtls_ssl_setup\<close> ``must be called exactly once per context''
  (\<open>ww_misused\<close> counts the calls on a context that was set up and not freed since).

  The world record is extended by the client that owns the connection; the frame callback is a function
  on that whole world.
\<close>

section \<open>State\<close>

definition ABLY_WS_RECV_BUF_SIZE :: nat where "ABLY_WS_RECV_BUF_SIZE = 128 * 1024"
definition ABLY_WS_HOST_MAX :: nat where "ABLY_WS_HOST_MAX = 256"
definition ABLY_WS_PATH_MAX :: nat where "ABLY_WS_PATH_MAX = 1024"
definition ABLY_WS_HANDSHAKE_BUF :: nat where "ABLY_WS_HANDSHAKE_BUF = 8 * 1024"

record ws_client =
  ws_net_open :: bool \<comment> \<open>\<^verbatim>\<open>net.fd\<close> is an open socket\<close>
  ws_ssl_setup :: bool \<comment> \<open>\<^verbatim>\<open>ssl\<close> has been set up since it was last initialised\<close>
  ws_connected :: bool
  ws_close_sent :: bool
  ws_close_received :: bool
  ws_host :: string
  ws_path :: string
  ws_port_str :: string
  ws_timeout_ms :: int

datatype send_ret = Send_Ok | Send_Queue_Fail | Send_Fail

text \<open>\<open>ww_sent\<close> is the text handed to wslay and sent, \<open>ww_sends\<close> the results of the sends to come; when
  there are none left a send succeeds.\<close>

record ws_world =
  ww_ws :: ws_client
  ww_sent :: "string list"
  ww_sends :: "send_ret list"
  ww_lost :: nat
  ww_misused :: nat

definition set_ws :: "(ws_client \<Rightarrow> ws_client) \<Rightarrow> 'x ws_world_scheme \<Rightarrow> 'x ws_world_scheme" where
  "set_ws f w = w\<lparr>ww_ws := f (ww_ws w)\<rparr>"

record ws_options =
  wo_host :: "string option"
  wo_port :: nat
  wo_path :: "string option"
  wo_timeout_ms :: int

definition ws_client_create :: "ws_options \<Rightarrow> ws_client" where
  "ws_client_create opts =
     \<lparr>ws_net_open = False, ws_ssl_setup = False, ws_connected = False, ws_close_sent = False,
      ws_close_received = False,
      ws_host = c_copy ABLY_WS_HOST_MAX (case wo_host opts of None \<Rightarrow> ''realtime.ably.io'' | Some h \<Rightarrow> h),
      ws_path = c_copy ABLY_WS_PATH_MAX (case wo_path opts of None \<Rightarrow> ''/'' | Some p \<Rightarrow> p),
      ws_port_str = c_copy 8 (dec_of_nat (if wo_port opts = 0 then 443 else wo_port opts)),
      ws_timeout_ms = (if wo_timeout_ms opts > 0 then wo_timeout_ms opts else 10000)\<rparr>"

definition ws_is_connected :: "ws_client \<Rightarrow> bool" where
  "ws_is_connected ws \<longleftrightarrow> ws_connected ws \<and> \<not> ws_close_received ws"

text \<open>The file descriptor to wait on; \<open>fd\<close> is that of the open socket.\<close>

definition ws_client_fd :: "int \<Rightarrow> ws_client \<Rightarrow> int" where
  "ws_client_fd fd ws = (if ws_connected ws then fd else -1)"

definition ws_client_set_path :: "string \<Rightarrow> ws_client \<Rightarrow> ws_client" where
  "ws_client_set_path path ws = ws\<lparr>ws_path := c_copy ABLY_WS_PATH_MAX path\<rparr>"

definition ws_client_set_host :: "string \<Rightarrow> ws_client \<Rightarrow> ws_client" where
  "ws_client_set_host host ws = ws\<lparr>ws_host := c_copy ABLY_WS_HOST_MAX host\<rparr>"

section \<open>The TLS and HTTP handshakes\<close>

datatype poll_ret = Poll_Ready | Poll_Timeout | Poll_Error

datatype hs_ret = Hs_Done | Hs_Want_Read poll_ret | Hs_Want_Write poll_ret | Hs_Ticket | Hs_Fail
datatype write_ret = Wr_Wrote nat | Wr_Want_Write poll_ret | Wr_Ticket | Wr_Fail
datatype read_ret = Rd_Bytes string | Rd_Want_Read poll_ret | Rd_Ticket | Rd_Fail

text \<open>\<^verbatim>\<open>poll_result <= 0\<close> ends the TLS handshake.\<close>

fun tls_handshake :: "hs_ret list \<Rightarrow> bool option" where
  "tls_handshake [] = None"
| "tls_handshake (Hs_Done # rs) = Some True"
| "tls_handshake (Hs_Want_Read p # rs) = (if p = Poll_Ready then tls_handshake rs else Some False)"
| "tls_handshake (Hs_Want_Write p # rs) = (if p = Poll_Ready then tls_handshake rs else Some False)"
| "tls_handshake (Hs_Ticket # rs) = tls_handshake rs"
| "tls_handshake (Hs_Fail # rs) = Some False"

definition poll_error :: "poll_ret \<Rightarrow> ably_error" where
  "poll_error p = (if p = Poll_Timeout then ABLY_ERR_TIMEOUT else ABLY_ERR_NETWORK)"

definition generate_websocket_key :: "byte list \<Rightarrow> string" where
  "generate_websocket_key raw = ably_base64_encode raw"

definition crlf :: string where "crlf = [CHR 0x0D, CHR 0x0A]"

definition upgrade_request :: "string \<Rightarrow> string \<Rightarrow> string \<Rightarrow> string" where
  "upgrade_request path host key =
     ''GET '' @ path @ '' HTTP/1.1'' @ crlf @ ''Host: '' @ host @ crlf @
     ''Upgrade: websocket'' @ crlf @ ''Connection: Upgrade'' @ crlf @
     ''Sec-WebSocket-Key: '' @ key @ crlf @ ''Sec-WebSocket-Version: 13'' @ crlf @ crlf"

text \<open>Writing the request; \<open>left\<close> bytes are not written yet.\<close>

fun upgrade_send :: "write_ret list \<Rightarrow> nat \<Rightarrow> ably_error option" where
  "upgrade_send rs 0 = Some ABLY_OK"
| "upgrade_send [] (Suc left) = None"
| "upgrade_send (Wr_Wrote n # rs) (Suc left) =
     (if n = 0 then Some ABLY_ERR_NETWORK else upgrade_send rs (Suc left - n))"
| "upgrade_send (Wr_Want_Write p # rs) (Suc left) =
     (if p = Poll_Ready then upgrade_send rs (Suc left) else Some (poll_error p))"
| "upgrade_send (Wr_Ticket # rs) (Suc left) = upgrade_send rs (Suc left)"
| "upgrade_send (Wr_Fail # rs) (Suc left) = Some ABLY_ERR_NETWORK"

text \<open>Reading the response into \<open>buf\<close> until it holds an empty line or is full. A read returns at most
  as many bytes as it is asked for; bytes behind the empty line stay in the buffer, where nothing looks
  at them.\<close>

fun upgrade_recv :: "read_ret list \<Rightarrow> string \<Rightarrow> (ably_error \<times> string) option" where
  "upgrade_recv [] buf = (if length buf < ABLY_WS_HANDSHAKE_BUF - 1 then None else Some (ABLY_OK, buf))"
| "upgrade_recv (r # rs) buf =
     (if \<not> length buf < ABLY_WS_HANDSHAKE_BUF - 1 then Some (ABLY_OK, buf)
      else case r of
        Rd_Bytes s \<Rightarrow>
          let got = take (ABLY_WS_HANDSHAKE_BUF - 1 - length buf) s
          in if got = [] then Some (ABLY_ERR_NETWORK, buf)
             else if find_sub (crlf @ crlf) (c_string (buf @ got)) \<noteq> None then Some (ABLY_OK, buf @ got)
             else upgrade_recv rs (buf @ got)
      | Rd_Want_Read p \<Rightarrow> if p = Poll_Ready then upgrade_recv rs buf else Some (poll_error p, buf)
      | Rd_Ticket \<Rightarrow> upgrade_recv rs buf
      | Rd_Fail \<Rightarrow> Some (ABLY_ERR_NETWORK, buf))"

text \<open>What a connection attempt gets from outside.\<close>

datatype tcp_ret = Tcp_Ok | Tcp_No_Host | Tcp_Refused

record conn_env =
  ce_tcp :: tcp_ret
  ce_setup :: bool
  ce_handshake :: "hs_ret list"
  ce_random :: "byte list" \<comment> \<open>the 16 bytes of the key\<close>
  ce_write :: "write_ret list"
  ce_read :: "read_ret list"
  ce_wslay :: bool

definition ws_upgrade_handshake :: "conn_env \<Rightarrow> ws_client \<Rightarrow> ably_error option" where
  "ws_upgrade_handshake env ws =
     (let req = upgrade_request (ws_path ws) (ws_host ws) (generate_websocket_key (ce_random env))
      in if length req \<ge> ABLY_WS_HANDSHAKE_BUF then Some ABLY_ERR_NETWORK
         else case upgrade_send (ce_write env) (length req) of
           None \<Rightarrow> None
         | Some err \<Rightarrow>
             if err \<noteq> ABLY_OK then Some err
             else case upgrade_recv (ce_read env) [] of
               None \<Rightarrow> None
             | Some (err, buf) \<Rightarrow>
                 if err \<noteq> ABLY_OK then Some err
                 else if is_prefix ''HTTP/1.1 101'' buf then Some ABLY_OK else Some ABLY_ERR_NETWORK)"

section \<open>Connecting\<close>

text \<open>\<^verbatim>\<open>fail_ssl\<close> and \<^verbatim>\<open>fail_net\<close>.\<close>

definition fail_net :: "'x ws_world_scheme \<Rightarrow> 'x ws_world_scheme" where
  "fail_net w = set_ws (\<lambda>ws. ws\<lparr>ws_net_open := False\<rparr>) w"

definition fail_ssl :: "'x ws_world_scheme \<Rightarrow> 'x ws_world_scheme" where
  "fail_ssl w = fail_net (set_ws (\<lambda>ws. ws\<lparr>ws_ssl_setup := False\<rparr>) w)"

definition lose_socket :: "'x ws_world_scheme \<Rightarrow> 'x ws_world_scheme" where
  "lose_socket w = w\<lparr>ww_lost := ww_lost w + (if ws_net_open (ww_ws w) then 1 else 0)\<rparr>"

text \<open>\<^verbatim>\<open>mbedtls_net_connect\<close> stores the new socket over the old one; when the name is not found there is
  no new socket, when no address accepts it is closed again.\<close>

definition tcp_connect :: "tcp_ret \<Rightarrow> 'x ws_world_scheme \<Rightarrow> 'x ws_world_scheme" where
  "tcp_connect r w =
     (case r of
        Tcp_Ok \<Rightarrow> set_ws (\<lambda>ws. ws\<lparr>ws_net_open := True\<rparr>) (lose_socket w)
      | Tcp_No_Host \<Rightarrow> w
      | Tcp_Refused \<Rightarrow> set_ws (\<lambda>ws. ws\<lparr>ws_net_open := False\<rparr>) (lose_socket w))"

definition ssl_setup :: "'x ws_world_scheme \<Rightarrow> 'x ws_world_scheme" where
  "ssl_setup w = set_ws (\<lambda>ws. ws\<lparr>ws_ssl_setup := True\<rparr>)
     (w\<lparr>ww_misused := ww_misused w + (if ws_ssl_setup (ww_ws w) then 1 else 0)\<rparr>)"

definition ws_connect :: "conn_env \<Rightarrow> 'x ws_world_scheme \<Rightarrow> ably_error option \<times> 'x ws_world_scheme" where
  "ws_connect env w0 =
     (let w1 = set_ws (\<lambda>ws. ws\<lparr>ws_connected := False, ws_close_sent := False, ws_close_received := False\<rparr>) w0;
          w2 = tcp_connect (ce_tcp env) w1
      in if ce_tcp env \<noteq> Tcp_Ok then (Some ABLY_ERR_NETWORK, w2)
         else let w3 = ssl_setup w2
         in if \<not> ce_setup env then (Some ABLY_ERR_NETWORK, fail_net w3)
         else case tls_handshake (ce_handshake env) of
           None \<Rightarrow> (None, w3)
         | Some False \<Rightarrow> (Some ABLY_ERR_NETWORK, fail_ssl w3)
         | Some True \<Rightarrow>
             (case ws_upgrade_handshake env (ww_ws w3) of
                None \<Rightarrow> (None, w3)
              | Some err \<Rightarrow>
                  if err \<noteq> ABLY_OK then (Some err, fail_ssl w3)
                  else if \<not> ce_wslay env then (Some ABLY_ERR_NETWORK, fail_ssl w3)
                  else (Some ABLY_OK, set_ws (\<lambda>ws. ws\<lparr>ws_connected := True\<rparr>) w3)))"

section \<open>Sending and receiving\<close>

definition ws_send_text :: "string \<Rightarrow> 'x ws_world_scheme \<Rightarrow> ably_error \<times> 'x ws_world_scheme" where
  "ws_send_text payload w =
     (if \<not> ws_connected (ww_ws w) \<or> ws_close_sent (ww_ws w) then (ABLY_ERR_STATE, w)
      else let (r, rs) = (case ww_sends w of [] \<Rightarrow> (Send_Ok, []) | r # rs \<Rightarrow> (r, rs)); w1 = w\<lparr>ww_sends := rs\<rparr>
      in case r of
        Send_Ok \<Rightarrow> (ABLY_OK, w1\<lparr>ww_sent := ww_sent w1 @ [payload]\<rparr>)
      | Send_Queue_Fail \<Rightarrow> (ABLY_ERR_NETWORK, w1)
      | Send_Fail \<Rightarrow> (ABLY_ERR_NETWORK, set_ws (\<lambda>ws. ws\<lparr>ws_connected := False\<rparr>) w1))"

text \<open>What wslay passes to \<^verbatim>\<open>wslay_on_message_received\<close>.\<close>

datatype ws_msg = Ws_Text string | Ws_Binary string | Ws_Close_Frame | Ws_Other

type_synonym 'x frame_cb = "string \<Rightarrow> 'x ws_world_scheme \<Rightarrow> 'x ws_world_scheme"

definition ws_deliver :: "'x frame_cb \<Rightarrow> string \<Rightarrow> 'x ws_world_scheme \<Rightarrow> 'x ws_world_scheme" where
  "ws_deliver on_frame msg w = (if msg = [] then w else on_frame (c_copy ABLY_WS_RECV_BUF_SIZE msg) w)"

fun ws_on_message :: "'x frame_cb \<Rightarrow> ws_msg \<Rightarrow> 'x ws_world_scheme \<Rightarrow> 'x ws_world_scheme" where
  "ws_on_message on_frame Ws_Close_Frame w = set_ws (\<lambda>ws. ws\<lparr>ws_close_received := True\<rparr>) w"
| "ws_on_message on_frame (Ws_Text msg) w = ws_deliver on_frame msg w"
| "ws_on_message on_frame (Ws_Binary msg) w = ws_deliver on_frame msg w"
| "ws_on_message on_frame Ws_Other w = w"

text \<open>One receive: nothing arrives in time, the poll fails, or \<^verbatim>\<open>wslay_event_recv\<close> passes on messages
  and returns zero or \<^verbatim>\<open>WSLAY_ERR_WOULDBLOCK\<close> (\<open>True\<close>) or another error.\<close>

datatype recv_ret = Recv_Nothing | Recv_Poll_Error | Recv_Messages "ws_msg list" bool

definition ws_recv_once :: "'x frame_cb \<Rightarrow> recv_ret \<Rightarrow> 'x ws_world_scheme \<Rightarrow> ably_error \<times> 'x ws_world_scheme" where
  "ws_recv_once on_frame r w =
     (if \<not> ws_connected (ww_ws w) then (ABLY_ERR_NETWORK, w)
      else if ws_close_received (ww_ws w) then (ABLY_ERR_NETWORK, w)
      else case r of
        Recv_Nothing \<Rightarrow> (ABLY_OK, w)
      | Recv_Poll_Error \<Rightarrow> (ABLY_ERR_NETWORK, set_ws (\<lambda>ws. ws\<lparr>ws_connected := False\<rparr>) w)
      | Recv_Messages msgs ok \<Rightarrow>
          let w1 = fold (ws_on_message on_frame) msgs w
          in if ok then (ABLY_OK, w1)
             else (ABLY_ERR_NETWORK, set_ws (\<lambda>ws. ws\<lparr>ws_connected := False\<rparr>) w1))"

section \<open>Closing\<close>

text \<open>The wait for the peer's close frame, 200 ms at a time; \<open>n\<close> rounds are left.\<close>

fun ws_close_wait :: "'x frame_cb \<Rightarrow> nat \<Rightarrow> recv_ret list \<Rightarrow> 'x ws_world_scheme \<Rightarrow> 'x ws_world_scheme" where
  "ws_close_wait on_frame 0 rs w = w"
| "ws_close_wait on_frame (Suc n) rs w =
     (if ws_close_received (ww_ws w) then w
      else ws_close_wait on_frame n (tl rs)
             (snd (ws_recv_once on_frame (case rs of [] \<Rightarrow> Recv_Nothing | r # _ \<Rightarrow> r) w)))"

definition ws_close ::
  "'x frame_cb \<Rightarrow> recv_ret list \<Rightarrow> int \<Rightarrow> 'x ws_world_scheme \<Rightarrow> ably_error \<times> 'x ws_world_scheme" where
  "ws_close on_frame rs timeout_ms w =
     (if \<not> ws_connected (ww_ws w) then (ABLY_OK, w)
      else let deadline = (if timeout_ms > 0 then timeout_ms else 5000);
               w1 = set_ws (\<lambda>ws. ws\<lparr>ws_close_sent := True\<rparr>) w;
               w2 = ws_close_wait on_frame (nat ((deadline + 199) div 200)) rs w1;
               w3 = set_ws (\<lambda>ws. ws\<lparr>ws_ssl_setup := False, ws_net_open := False, ws_connected := False\<rparr>) w2
           in (if ws_close_received (ww_ws w3) then ABLY_OK else ABLY_ERR_TIMEOUT, w3))"

section \<open>What the operations leave alone\<close>

text \<open>The address of the peer changes only through \<^verbatim>\<open>set_host\<close> and \<^verbatim>\<open>set_path\<close>, and only
  \<^verbatim>\<open>ably_ws_close\<close> starts the closing handshake.\<close>

definition ws_quiet :: "ws_client \<Rightarrow> ws_client \<Rightarrow> bool" where
  "ws_quiet ws ws' \<longleftrightarrow> ws_host ws' = ws_host ws \<and> ws_path ws' = ws_path ws \<and>
     ws_port_str ws' = ws_port_str ws \<and> ws_timeout_ms ws' = ws_timeout_ms ws \<and>
     (ws_close_sent ws' \<longrightarrow> ws_close_sent ws)"

text \<open>A property of the owner's world that survives a change of the WebSocket client.\<close>

locale ws_still =
  fixes I :: "'x ws_world_scheme \<Rightarrow> bool"
  assumes still_law: "I w \<Longrightarrow> ws_quiet (ww_ws w) ws \<Longrightarrow> I (w\<lparr>ww_ws := ws\<rparr>)"
begin

lemma set_ws_law: "I w \<Longrightarrow> ws_quiet (ww_ws w) (f (ww_ws w)) \<Longrightarrow> I (set_ws f w)"
  using still_law by (simp add: set_ws_def)

lemma fail_law: "I w \<Longrightarrow> I (fail_net w)" "I w \<Longrightarrow> I (fail_ssl w)"
  by (auto simp: fail_net_def fail_ssl_def ws_quiet_def intro!: set_ws_law)

end

text \<open>What also survives the frame callback survives receiving.\<close>

locale ws_receives = ws_still I for I :: "'x ws_world_scheme \<Rightarrow> bool" +
  fixes on_frame :: "'x frame_cb"
  assumes on_frame_law: "I w \<Longrightarrow> I (on_frame msg w)"
begin

lemma on_message_law: "I w \<Longrightarrow> I (ws_on_message on_frame m w)"
  by (cases m) (auto simp: ws_deliver_def ws_quiet_def intro: on_frame_law intro!: set_ws_law)

lemma messages_law: "I w \<Longrightarrow> I (fold (ws_on_message on_frame) ms w)"
  by (induction ms arbitrary: w) (auto intro: on_message_law)

lemma recv_law: "I w \<Longrightarrow> I (snd (ws_recv_once on_frame r w))"
  by (auto simp: ws_recv_once_def Let_def ws_quiet_def split: recv_ret.split intro!: set_ws_law messages_law)

lemma close_wait_law: "I w \<Longrightarrow> I (ws_close_wait on_frame n rs w)"
  by (induction n arbitrary: rs w) (auto intro: recv_law)

end

text \<open>A property that also survives a change of what is known about the client survives connecting and sending.\<close>

locale ws_local =
  fixes I :: "'x ws_world_scheme \<Rightarrow> bool"
  assumes ws_law: "I w \<Longrightarrow> ws_quiet (ww_ws w) ws \<Longrightarrow>
      I (w\<lparr>ww_ws := ws, ww_sent := ww_sent w @ sent, ww_sends := drop k (ww_sends w), ww_lost := l,
           ww_misused := m\<rparr>)"

sublocale ws_local \<subseteq> ws_still I
proof
  show "I w \<Longrightarrow> ws_quiet (ww_ws w) ws \<Longrightarrow> I (w\<lparr>ww_ws := ws\<rparr>)" for w ws
    using ws_law [where w = w and ws = ws and sent = "[]" and k = 0 and l = "ww_lost w" and m = "ww_misused w"] by simp
qed

context ws_local begin

lemma count_law:
  assumes I: "I w"
  shows "I (w\<lparr>ww_lost := l\<rparr>)" "I (w\<lparr>ww_misused := m\<rparr>)" "I (w\<lparr>ww_sends := drop k (ww_sends w)\<rparr>)"
    "I (w\<lparr>ww_sent := ww_sent w @ ps, ww_sends := drop k (ww_sends w)\<rparr>)"
proof -
  have q: "ws_quiet (ww_ws w) (ww_ws w)" by (simp add: ws_quiet_def)
  show "I (w\<lparr>ww_lost := l\<rparr>)"
    using ws_law [OF I q, where sent = "[]" and k = 0 and l = l and m = "ww_misused w"] by simp
  show "I (w\<lparr>ww_misused := m\<rparr>)"
    using ws_law [OF I q, where sent = "[]" and k = 0 and l = "ww_lost w" and m = m] by simp
  show "I (w\<lparr>ww_sends := drop k (ww_sends w)\<rparr>)"
    using ws_law [OF I q, where sent = "[]" and k = k and l = "ww_lost w" and m = "ww_misused w"] by simp
  show "I (w\<lparr>ww_sent := ww_sent w @ ps, ww_sends := drop k (ww_sends w)\<rparr>)"
    using ws_law [OF I q, where sent = ps and k = k and l = "ww_lost w" and m = "ww_misused w"] by simp
qed

lemma tcp_law: "I w \<Longrightarrow> I (tcp_connect r w)"
  by (auto simp: tcp_connect_def lose_socket_def ws_quiet_def intro!: set_ws_law count_law split: tcp_ret.split)

lemma setup_law: "I w \<Longrightarrow> I (ssl_setup w)"
  unfolding ssl_setup_def by (intro set_ws_law count_law) (simp_all add: ws_quiet_def)

lemma connect_law: "I w \<Longrightarrow> I (snd (ws_connect env w))"
proof -
  assume I: "I w"
  let ?w1 = "set_ws (\<lambda>ws. ws\<lparr>ws_connected := False, ws_close_sent := False, ws_close_received := False\<rparr>) w"
  have 1: "I ?w1" using I by (rule set_ws_law) (simp add: ws_quiet_def)
  have 2: "I (tcp_connect (ce_tcp env) ?w1)" by (rule tcp_law [OF 1])
  have 3: "I (ssl_setup (tcp_connect (ce_tcp env) ?w1))" (is "I ?w3") by (rule setup_law [OF 2])
  have 4: "I (set_ws (\<lambda>ws. ws\<lparr>ws_connected := True\<rparr>) ?w3)" using 3 by (rule set_ws_law) (simp add: ws_quiet_def)
  show ?thesis
    using 2 3 4 fail_law [OF 3] by (auto simp: ws_connect_def Let_def split: option.split bool.split)
qed

lemma send_law: "I w \<Longrightarrow> I (snd (ws_send_text payload w))"
proof -
  assume I: "I w"
  have 1: "I (w\<lparr>ww_sends := tl (ww_sends w)\<rparr>)" using count_law(3) [OF I, of 1] by (simp add: drop_Suc)
  have 2: "I (w\<lparr>ww_sent := ww_sent w @ [payload], ww_sends := tl (ww_sends w)\<rparr>)"
    using count_law(4) [OF I, where k = 1 and ps = "[payload]"] by (simp add: drop_Suc)
  have 3: "I (set_ws (\<lambda>ws. ws\<lparr>ws_connected := False\<rparr>) (w\<lparr>ww_sends := tl (ww_sends w)\<rparr>))"
    using 1 by (rule set_ws_law) (simp add: ws_quiet_def)
  have comm: "w\<lparr>ww_sends := a, ww_sent := b\<rparr> = w\<lparr>ww_sent := b, ww_sends := a\<rparr>" for a b by simp
  have "I (w\<lparr>ww_sends := tl (ww_sends w), ww_sent := ww_sent w @ [payload]\<rparr>)" by (subst comm) (rule 2)
  then show ?thesis using I 1 3 by (auto simp: ws_send_text_def Let_def split: list.split send_ret.split)
qed

end

text \<open>Both together survive closing.\<close>

locale ws_preserved = ws_local I + ws_receives I on_frame
  for I :: "'x ws_world_scheme \<Rightarrow> bool" and on_frame :: "'x frame_cb"

locale ws_closing = ws_preserved I on_frame
  for I :: "'x ws_world_scheme \<Rightarrow> bool" and on_frame :: "'x frame_cb" +
  assumes close_sent_law: "I w \<Longrightarrow> I (set_ws (\<lambda>ws. ws\<lparr>ws_close_sent := True\<rparr>) w)"
begin

lemma close_law: "I w \<Longrightarrow> I (snd (ws_close on_frame rs t w))"
  by (auto simp: ws_close_def Let_def ws_quiet_def intro!: close_sent_law set_ws_law close_wait_law)

end

section \<open>The connection\<close>

lemma ws_connect_ok:
  "ws_connect env w = (Some ABLY_OK, w') \<Longrightarrow>
     ws_is_connected (ww_ws w') \<and> \<not> ws_close_sent (ww_ws w') \<and> ws_net_open (ww_ws w') \<and> ws_ssl_setup (ww_ws w')"
  by (auto simp: ws_connect_def Let_def set_ws_def ssl_setup_def tcp_connect_def lose_socket_def fail_ssl_def
      fail_net_def ws_is_connected_def split: option.splits bool.splits if_splits tcp_ret.splits)

lemma ws_connect_account:
  assumes "ce_tcp env = Tcp_Ok"
  shows "ww_lost (snd (ws_connect env w)) = ww_lost w + (if ws_net_open (ww_ws w) then 1 else 0)"
    and "ww_misused (snd (ws_connect env w)) = ww_misused w + (if ws_ssl_setup (ww_ws w) then 1 else 0)"
  using assms
  by (simp_all add: ws_connect_def Let_def set_ws_def ssl_setup_def tcp_connect_def lose_socket_def fail_ssl_def
      fail_net_def split: option.split bool.split)

lemma ws_connect_fail:
  "ws_connect env w = (Some err, w') \<Longrightarrow> err \<noteq> ABLY_OK \<Longrightarrow> \<not> ws_connected (ww_ws w')"
  by (auto simp: ws_connect_def Let_def set_ws_def ssl_setup_def tcp_connect_def lose_socket_def fail_ssl_def
      fail_net_def split: option.splits bool.splits if_splits tcp_ret.splits)

text \<open>Every connection that is lost rather than closed costs a socket and breaks the contract of
  mbedTLS: after a receive error (or a send error, or the heartbeat timeout of the realtime client, which
  change even less) neither the socket nor the TLS context is freed, so the next connection attempt
  that reaches the server overwrites the open socket and sets up a context that is in use. After
  \<^verbatim>\<open>ably_ws_close\<close> both are clean.\<close>

theorem ws_reconnect_account:
  assumes conn: "ws_connect env w = (Some ABLY_OK, w1)" and tcp: "ce_tcp env2 = Tcp_Ok"
  shows "ww_lost (snd (ws_connect env2 (snd (ws_recv_once on_frame Recv_Poll_Error w1)))) = ww_lost w1 + 1 \<and>
    ww_misused (snd (ws_connect env2 (snd (ws_recv_once on_frame Recv_Poll_Error w1)))) = ww_misused w1 + 1 \<and>
    ww_lost (snd (ws_connect env2 (snd (ws_close on_frame [] timeout_ms w1)))) = ww_lost w1 \<and>
    ww_misused (snd (ws_connect env2 (snd (ws_close on_frame [] timeout_ms w1)))) = ww_misused w1"
proof -
  have c: "ws_connected (ww_ws w1)" "\<not> ws_close_received (ww_ws w1)" "ws_net_open (ww_ws w1)" "ws_ssl_setup (ww_ws w1)"
    using ws_connect_ok [OF conn] by (simp_all add: ws_is_connected_def)
  have quiet: "ww_lost (ws_close_wait on_frame n [] v) = ww_lost v \<and>
      ww_misused (ws_close_wait on_frame n [] v) = ww_misused v" for n and v :: "'a ws_world_scheme"
    by (induction n arbitrary: v) (simp_all add: ws_recv_once_def)
  show ?thesis
    using c quiet by (simp add: ws_connect_account [OF tcp] ws_recv_once_def ws_close_def Let_def set_ws_def)
qed

definition demo_response :: string where
  "demo_response = ''HTTP/1.1 101 Switching Protocols'' @ crlf @ crlf"

definition demo_conn :: conn_env where
  "demo_conn = \<lparr>ce_tcp = Tcp_Ok, ce_setup = True, ce_handshake = [Hs_Want_Read Poll_Ready, Hs_Done],
     ce_random = replicate 16 0, ce_write = [Wr_Wrote 1000], ce_read = [Rd_Bytes demo_response], ce_wslay = True\<rparr>"

definition demo_ws_world :: ws_world where
  "demo_ws_world = \<lparr>ww_ws = ws_client_create \<lparr>wo_host = None, wo_port = 0, wo_path = None, wo_timeout_ms = 0\<rparr>,
     ww_sent = [], ww_sends = [], ww_lost = 0, ww_misused = 0\<rparr>"

lemma demo_upgrade_recv: "upgrade_recv [Rd_Bytes demo_response] [] = Some (ABLY_OK, demo_response)"
  by code_simp

lemma is_prefix_demo_response: "is_prefix ''HTTP/1.1 101'' demo_response"
  by (simp add: demo_response_def)

lemma demo_connect: "fst (ws_connect demo_conn demo_ws_world) = Some ABLY_OK"
proof -
  have "length (upgrade_request p h k) = 114 + length p + length h + length k" for p h k
    by (simp add: upgrade_request_def crlf_def)
  moreover have "upgrade_send [Wr_Wrote 1000] n = Some ABLY_OK" if "n \<le> 1000" for n
    using that by (cases n) auto
  ultimately show ?thesis
    by (simp add: ws_connect_def Let_def demo_conn_def demo_ws_world_def ws_upgrade_handshake_def demo_upgrade_recv
        ABLY_WS_HANDSHAKE_BUF_def set_ws_def ssl_setup_def tcp_connect_def lose_socket_def ws_client_create_def
        capacity_defs ABLY_WS_PATH_MAX_def ABLY_WS_HOST_MAX_def c_copy_def generate_websocket_key_def
        length_base64_encode is_prefix_demo_response del: upgrade_recv.simps)
qed

lemma ws_reconnect_account_witness:
  "ww_lost (snd (ws_connect demo_conn (snd (ws_recv_once (\<lambda>m w. w) Recv_Poll_Error
     (snd (ws_connect demo_conn demo_ws_world)))))) = 1"
proof -
  have conn: "ws_connect demo_conn demo_ws_world = (Some ABLY_OK, snd (ws_connect demo_conn demo_ws_world))"
    using demo_connect by (metis prod.collapse)
  have tcp: "ce_tcp demo_conn = Tcp_Ok" by (simp add: demo_conn_def)
  have "ww_lost (snd (ws_connect demo_conn demo_ws_world)) = 0"
    by (simp add: ws_connect_account [OF tcp]) (simp add: demo_ws_world_def ws_client_create_def)
  with ws_reconnect_account [OF conn tcp] show ?thesis by simp
qed

lemma is_prefix_mono: "is_prefix p zs \<Longrightarrow> is_prefix p (zs @ ys)"
  by (induction p zs rule: is_prefix.induct) auto

lemma find_sub_extend: "find_sub pat xs \<noteq> None \<Longrightarrow> find_sub pat (xs @ ys) \<noteq> None"
proof (induction pat xs rule: find_sub.induct)
  case (1 pat)
  then show ?case by (cases ys) (auto split: if_splits)
next
  case (2 pat x xs)
  then show ?case using is_prefix_mono [of pat "x # xs" ys] by (auto split: if_splits)
qed

lemma is_prefix_extend: "is_prefix pat (xs @ ys) \<Longrightarrow> length pat \<le> length xs \<Longrightarrow> is_prefix pat xs"
proof (induction pat xs rule: is_prefix.induct)
  case (3 x xs y ys)
  then show ?case by auto
qed auto

text \<open>What the server sends right behind its handshake response is lost: when a read that completes
  the response returns more bytes, the start of the first WebSocket frames, the connection attempt ends
  exactly as without them, and nothing passes them on to wslay.\<close>

theorem ws_early_frames_dropped:
  assumes "find_sub (crlf @ crlf) response \<noteq> None" "CHR 0x00 \<notin> set response" "12 \<le> length response"
    and "length (response @ frames) < ABLY_WS_HANDSHAKE_BUF"
  shows "ws_connect (env\<lparr>ce_read := [Rd_Bytes (response @ frames)]\<rparr>) w =
    ws_connect (env\<lparr>ce_read := [Rd_Bytes response]\<rparr>) w"
proof -
  have cs: "c_string (response @ xs) = response @ c_string xs" for xs
    using assms(2) unfolding c_string_def by (intro takeWhile_append2) auto
  have "find_sub (crlf @ crlf) (c_string (response @ xs)) \<noteq> None" for xs
    unfolding cs by (rule find_sub_extend [OF assms(1)])
  then have found: "\<exists>i. find_sub (crlf @ crlf) (c_string (response @ xs)) = Some i" for xs
    by blast
  have 1: "upgrade_recv [Rd_Bytes (response @ xs)] [] = Some (ABLY_OK, response @ xs)"
    if len: "length (response @ xs) < ABLY_WS_HANDSHAKE_BUF" for xs
  proof -
    obtain k where "find_sub (crlf @ crlf) (c_string (response @ xs)) = Some k" using found by blast
    moreover have "take (ABLY_WS_HANDSHAKE_BUF - 1 - length []) (response @ xs) = response @ xs"
      by (rule take_all) (use len in simp)
    moreover have "response @ xs \<noteq> []" "length ([] :: string) < ABLY_WS_HANDSHAKE_BUF - 1"
      using assms(3) by (auto simp: ABLY_WS_HANDSHAKE_BUF_def)
    ultimately show ?thesis unfolding upgrade_recv.simps Let_def by (simp only: append_Nil) simp
  qed
  note recv = 1 [OF assms(4)] 1 [of "[]", unfolded append_Nil2]
  have 2: "is_prefix ''HTTP/1.1 101'' (response @ frames) = is_prefix ''HTTP/1.1 101'' response"
  proof
    assume "is_prefix ''HTTP/1.1 101'' (response @ frames)"
    then show "is_prefix ''HTTP/1.1 101'' response" 
      by (rule is_prefix_extend) (use assms(3) in simp)
  next
    show "is_prefix ''HTTP/1.1 101'' response \<Longrightarrow> is_prefix ''HTTP/1.1 101'' (response @ frames)"
      by (rule is_prefix_mono)
  qed
  have "ws_upgrade_handshake (env\<lparr>ce_read := [Rd_Bytes (response @ frames)]\<rparr>) ws =
      ws_upgrade_handshake (env\<lparr>ce_read := [Rd_Bytes response]\<rparr>) ws" for ws
    using recv 2 assms(4)
    by (simp add: ws_upgrade_handshake_def Let_def split: option.split del: upgrade_recv.simps is_prefix.simps)
  then show ?thesis by (simp add: ws_connect_def Let_def split: option.split bool.split)
qed

lemma ws_early_frames_dropped_witness:
  "ws_connect (demo_conn\<lparr>ce_read := [Rd_Bytes (demo_response @ ''frame'')]\<rparr>) demo_ws_world =
    ws_connect (demo_conn\<lparr>ce_read := [Rd_Bytes demo_response]\<rparr>) demo_ws_world"
proof (rule ws_early_frames_dropped)
  show "find_sub (crlf @ crlf) demo_response \<noteq> None" by code_simp
  show "CHR 0x00 \<notin> set demo_response" by code_simp
qed (simp_all add: demo_response_def ABLY_WS_HANDSHAKE_BUF_def crlf_def)

end
