(* ===== verification/Ably_Realtime.thy ===== *)
theory Ably_Realtime
  imports Ably_Channel_Props Ably_Url Ably_Ws
begin

text \<open>
  \<^verbatim>\<open>src/realtime/realtime_client.c\<close>: the connection. The client record extends the core that channels
  work on, the world extends that of the WebSocket client by the client, its channels and the callbacks
  made. The service thread is cut where it takes a lock or waits: \<open>svc_next\<close> performs the piece of
  \<^verbatim>\<open>service_thread_fn\<close> at a program counter. What comes from outside during a piece (results of the
  network, the clock, the authentication callback, the random number) is its input. The calls of the
  application interleave with the pieces.
\<close>

section \<open>State\<close>

record rt_options =
  ro_realtime_host :: string
  ro_port :: nat
  ro_encoding :: ably_encoding
  ro_initial_delay_ms :: int
  ro_max_delay_ms :: int
  ro_max_attempts :: int
  ro_heartbeat_timeout_ms :: int
  ro_tls_verify_peer :: bool
  ro_auth_cb :: bool \<comment> \<open>an authentication callback is set\<close>
  ro_client_id :: "string option"
  ro_token :: "string option"
  ro_ca_cert_pem_path :: "string option"

definition rt_options_init :: rt_options where
  "rt_options_init =
     \<lparr>ro_realtime_host = ''realtime.ably.io'', ro_port = 443, ro_encoding = ENCODING_JSON,
      ro_initial_delay_ms = 500, ro_max_delay_ms = 60000, ro_max_attempts = -1,
      ro_heartbeat_timeout_ms = 35000, ro_tls_verify_peer = True, ro_auth_cb = False,
      ro_client_id = None, ro_token = None, ro_ca_cert_pem_path = None\<rparr>"

record rt_client = rt_core +
  rt_opts :: rt_options
  rt_close_requested :: bool
  rt_thread_running :: bool
  rt_attempt :: int
  rt_host_idx :: nat
  rt_skip_backoff :: bool
  rt_connection_id :: string
  rt_connection_key :: string
  rt_state_ttl :: int
  rt_last_error :: ably_error_info
  rt_need_refresh :: bool
  rt_last_activity :: int
  rt_token :: string
  rt_ws_path :: string
  rt_conn_cb :: nat

datatype rt_event =
    Ev_Conn nat ably_connection_state ably_connection_state ably_error
  | Ev_Channel string chan_event
  | Ev_Backoff int

record rt_world = ws_world +
  rw_client :: rt_client
  rw_channels :: "channel list"
  rw_events :: "rt_event list"

definition set_client :: "(rt_client \<Rightarrow> rt_client) \<Rightarrow> rt_world \<Rightarrow> rt_world" where
  "set_client f w = w\<lparr>rw_client := f (rw_client w)\<rparr>"

definition rt_set_state_locked :: "ably_connection_state \<Rightarrow> ably_error \<Rightarrow> rt_world \<Rightarrow> rt_world" where
  "rt_set_state_locked new_state reason w =
     (let c = rw_client w; old_state = rc_state c
      in if old_state = new_state then w
         else w\<lparr>rw_client := c\<lparr>rc_state := new_state\<rparr>,
                rw_events := rw_events w @ (if rt_conn_cb c = 0 then []
                  else [Ev_Conn (rt_conn_cb c) new_state old_state reason])\<rparr>)"

text \<open>Run an operation of channel \<open>i\<close> in the client's world.\<close>

definition on_channel :: "nat \<Rightarrow> (rt_client chan_world \<Rightarrow> rt_client chan_world) \<Rightarrow> rt_world \<Rightarrow> rt_world" where
  "on_channel i f w =
     (let cw = f \<lparr>cw_ch = rw_channels w ! i, cw_core = rw_client w, cw_events = []\<rparr>
      in w\<lparr>rw_client := cw_core cw, rw_channels := (rw_channels w)[i := cw_ch cw],
           rw_events := rw_events w @ map (Ev_Channel (ch_name (rw_channels w ! i))) (cw_events cw)\<rparr>)"

definition on_channels :: "(rt_client chan_world \<Rightarrow> rt_client chan_world) \<Rightarrow> rt_world \<Rightarrow> rt_world" where
  "on_channels f w = fold (\<lambda>i. on_channel i f) [0..<length (rw_channels w)] w"

section \<open>Creation\<close>

definition format_name :: "ably_encoding \<Rightarrow> string" where
  "format_name enc = (case enc of ENCODING_MSGPACK \<Rightarrow> ''msgpack'' | ENCODING_JSON \<Rightarrow> ''json'')"

definition token_path :: "string \<Rightarrow> ably_encoding \<Rightarrow> string" where
  "token_path token enc =
     c_copy ABLY_WS_PATH_MAX (''/?v=3&access_token='' @ token @ ''&format='' @ format_name enc)"

definition base_ws_path :: "string \<Rightarrow> string \<Rightarrow> string \<Rightarrow> ably_encoding \<Rightarrow> string" where
  "base_ws_path api_key client_id token enc =
     (if token \<noteq> [] then token_path token enc
      else if client_id \<noteq> [] then
        c_copy ABLY_WS_PATH_MAX (''/?v=3&key='' @ api_key @ ''&clientId='' @
          url_encode (ABLY_MAX_CLIENT_ID_LEN * 3) client_id @ ''&format='' @ format_name enc)
      else c_copy ABLY_WS_PATH_MAX (''/?v=3&key='' @ api_key @ ''&format='' @ format_name enc))"

definition rt_client_create :: "string option \<Rightarrow> rt_options option \<Rightarrow> rt_world option" where
  "rt_client_create api_key opts =
     (if \<not> c_nonempty api_key then None
      else let key = c_str api_key;
               o' = (case opts of None \<Rightarrow> rt_options_init | Some o' \<Rightarrow> o');
               client_id = c_copy ABLY_MAX_CLIENT_ID_LEN (c_str (ro_client_id o'));
               token = c_copy 512 (c_str (ro_token o'));
               ws_path = base_ws_path key client_id token (ro_encoding o')
           in Some
             \<lparr>ww_ws = ws_client_create \<lparr>wo_host = Some (ro_realtime_host o'), wo_port = ro_port o',
                 wo_path = Some ws_path, wo_timeout_ms = 10000\<rparr>,
              ww_sent = [], ww_sends = [], ww_lost = 0, ww_misused = 0,
              rw_client =
                \<lparr>rc_state = CONN_INITIALIZED, rc_send_ring = empty_ring ABLY_SEND_RING_CAPACITY [],
                 rc_msg_serial = 0, rc_encoding = ro_encoding o', rc_client_id = client_id,
                 rc_api_key = c_copy ABLY_MAX_KEY_LEN key,
                 rt_opts = o', rt_close_requested = False, rt_thread_running = False, rt_attempt = 0,
                 rt_host_idx = 0, rt_skip_backoff = False, rt_connection_id = [], rt_connection_key = [],
                 rt_state_ttl = 120000, rt_last_error = no_error_info, rt_need_refresh = False,
                 rt_last_activity = 0, rt_token = token, rt_ws_path = ws_path, rt_conn_cb = 0\<rparr>,
              rw_channels = [], rw_events = []\<rparr>)"

definition rt_client_set_conn_state_cb :: "nat \<Rightarrow> rt_world \<Rightarrow> rt_world" where
  "rt_client_set_conn_state_cb cb w = set_client (\<lambda>c. c\<lparr>rt_conn_cb := cb\<rparr>) w"

text \<open>\<^verbatim>\<open>ably_rt_channel_get\<close>: the index of the channel in the array instead of the pointer.\<close>

definition find_channel :: "string \<Rightarrow> rt_world \<Rightarrow> nat option" where
  "find_channel name w = first_index (\<lambda>ch. ch_name ch = name) (rw_channels w)"

definition rt_channel_get :: "string \<Rightarrow> rt_world \<Rightarrow> nat option \<times> rt_world" where
  "rt_channel_get name w =
     (if length name \<ge> ABLY_MAX_CHANNEL_NAME_LEN then (None, w)
      else case find_channel name w of
        Some i \<Rightarrow> (Some i, w)
      | None \<Rightarrow>
          if length (rw_channels w) \<ge> ABLY_MAX_CHANNELS then (None, w)
          else (Some (length (rw_channels w)), w\<lparr>rw_channels := rw_channels w @ [channel_create name]\<rparr>))"

text \<open>Accessors. The handle of a client that is not connected is all ones.\<close>

definition rt_client_get_state :: "rt_world \<Rightarrow> ably_connection_state" where
  "rt_client_get_state w = rc_state (rw_client w)"

definition rt_client_get_connection_id :: "rt_world \<Rightarrow> string" where
  "rt_client_get_connection_id w = rt_connection_id (rw_client w)"

definition rt_client_get_client_id :: "rt_world \<Rightarrow> string" where
  "rt_client_get_client_id w = rc_client_id (rw_client w)"

definition rt_client_get_last_error :: "rt_world \<Rightarrow> ably_error_info" where
  "rt_client_get_last_error w = rt_last_error (rw_client w)"

definition rt_client_fd :: "int \<Rightarrow> rt_world \<Rightarrow> int" where
  "rt_client_fd fd w = ws_client_fd fd (ww_ws w)"

definition rt_client_socket_handle :: "int \<Rightarrow> rt_world \<Rightarrow> u64" where
  "rt_client_socket_handle fd w =
     (let s = ws_client_fd fd (ww_ws w) in if s < 0 then word_of_int (-1) else word_of_int s)"

section \<open>Reconnection delay\<close>

text \<open>The doubles of \<^verbatim>\<open>backoff_delay_ms\<close> are rationals here; \<open>random\<close> is \<^verbatim>\<open>rand() / RAND_MAX\<close>. The cast to
  \<^verbatim>\<open>int\<close> truncates; the product is positive, so truncation is \<open>floor\<close>.\<close>

definition backoff_delay_ms :: "rt_options \<Rightarrow> int \<Rightarrow> rat \<Rightarrow> int" where
  "backoff_delay_ms opts attempt random =
     (let base = of_int (ro_initial_delay_ms opts);
          ramp_factor = min (of_int (attempt + 2) / 3) 2;
          jitter = 1 - random / 5;
          delay = trunc_rat (base * ramp_factor * jitter);
          delay = (if delay < 1 then 1 else delay)
      in if delay > ro_max_delay_ms opts then ro_max_delay_ms opts else delay)"

section \<open>Inbound frames\<close>

text \<open>What the dispatcher uses from outside: the codecs' libraries, the message callbacks, the history
  call of gap recovery and the clock.\<close>

record rt_env =
  re_lib :: codec_lib
  re_cb :: "rt_client cb_env"
  re_rest :: "history_fn option"
  re_now :: int

text \<open>A channel that was attached or attaching when the connection was lost.\<close>

definition rt_reattach_channel :: "codec_lib \<Rightarrow> rt_client chan_world \<Rightarrow> rt_client chan_world" where
  "rt_reattach_channel lib cw =
     (if channel_needs_reattach (cw_ch cw) then
        let buf = proto_encode_attach lib (ABLY_MAX_CHANNEL_NAME_LEN + 256) (ch_name (cw_ch cw))
                    (channel_attach_params (cw_ch cw)) (rc_encoding (cw_core cw))
        in if buf = [] then cw else channel_set_attaching (snd (chan_enqueue buf cw))
      else cw)"

definition rt_reattach_pending_channels :: "codec_lib \<Rightarrow> rt_world \<Rightarrow> rt_world" where
  "rt_reattach_pending_channels lib w = on_channels (rt_reattach_channel lib) w"

definition rt_on_heartbeat :: "rt_env \<Rightarrow> rt_world \<Rightarrow> rt_world" where
  "rt_on_heartbeat env w =
     (let w1 = set_client (\<lambda>c. c\<lparr>rt_last_activity := re_now env\<rparr>) w;
          hb = proto_encode_heartbeat (re_lib env) 32 (rc_encoding (rw_client w))
      in if hb = [] then w1 else snd (ws_send_text hb w1))"

definition connected_client :: "rt_env \<Rightarrow> ably_proto_frame \<Rightarrow> rt_client \<Rightarrow> rt_client" where
  "connected_client env frame c =
     (let cd = pf_conn_details frame
      in c\<lparr>rt_connection_id :=
             (case pf_connection_id frame of None \<Rightarrow> rt_connection_id c | Some s \<Rightarrow> c_copy 64 s),
           rt_connection_key :=
             (case pf_connection_key frame of None \<Rightarrow> rt_connection_key c | Some s \<Rightarrow> c_copy 256 s),
           rt_state_ttl := (if cd_connection_state_ttl cd > 0 then cd_connection_state_ttl cd else rt_state_ttl c),
           rc_client_id := (if cd_client_id cd \<noteq> [] \<and> rc_client_id c = []
             then c_copy ABLY_MAX_CLIENT_ID_LEN (cd_client_id cd) else rc_client_id c),
           rt_last_activity := re_now env, rt_host_idx := 0, rt_need_refresh := False,
           rt_last_error := no_error_info\<rparr>)"

definition rt_on_connected :: "rt_env \<Rightarrow> ably_proto_frame \<Rightarrow> rt_world \<Rightarrow> rt_world" where
  "rt_on_connected env frame w =
     rt_reattach_pending_channels (re_lib env)
       (set_client (\<lambda>c. c\<lparr>rt_attempt := 0\<rparr>)
         (rt_set_state_locked CONN_CONNECTED ABLY_OK (set_client (connected_client env frame) w)))"

definition token_error :: "ably_proto_frame \<Rightarrow> rt_client \<Rightarrow> bool" where
  "token_error frame c \<longleftrightarrow> 40100 \<le> pf_error_code frame \<and> pf_error_code frame < 40200 \<and> ro_auth_cb (rt_opts c)"

definition rt_on_disconnected :: "ably_proto_frame \<Rightarrow> rt_world \<Rightarrow> rt_world" where
  "rt_on_disconnected frame w =
     set_client (\<lambda>c. c\<lparr>rt_last_error := (if pf_error_code frame \<noteq> 0
           then error_info (pf_error_code frame) (pf_error_message frame) else rt_last_error c),
         rt_need_refresh := (token_error frame c \<or> rt_need_refresh c)\<rparr>) w"

definition rt_on_error :: "ably_proto_frame \<Rightarrow> rt_world \<Rightarrow> rt_world" where
  "rt_on_error frame w =
     (let w1 = set_client (\<lambda>c. c\<lparr>rt_last_error := error_info (pf_error_code frame) (pf_error_message frame)\<rparr>) w
      in if 40000 \<le> pf_error_code frame \<and> pf_error_code frame < 50000 then
           if \<not> token_error frame (rw_client w) then
             set_client (\<lambda>c. c\<lparr>rt_close_requested := True\<rparr>) (rt_set_state_locked CONN_FAILED ABLY_ERR_AUTH w1)
           else set_client (\<lambda>c. c\<lparr>rt_need_refresh := True\<rparr>) w1
         else w1)"

definition rt_on_channel_frame :: "rt_env \<Rightarrow> ably_proto_frame \<Rightarrow> rt_world \<Rightarrow> rt_world" where
  "rt_on_channel_frame env frame w =
     (case pf_channel frame of
        None \<Rightarrow> w
      | Some name \<Rightarrow>
          (case find_channel name w of
             None \<Rightarrow> w
           | Some i \<Rightarrow> on_channel i (channel_on_frame (re_lib env) (re_cb env) (re_rest env) frame) w))"

definition rt_dispatch_frame :: "rt_env \<Rightarrow> ably_proto_frame \<Rightarrow> rt_world \<Rightarrow> rt_world" where
  "rt_dispatch_frame env frame w =
     (case pf_action frame of
        ACTION_HEARTBEAT \<Rightarrow> rt_on_heartbeat env w
      | ACTION_CONNECTED \<Rightarrow> rt_on_connected env frame w
      | ACTION_DISCONNECTED \<Rightarrow> rt_on_disconnected frame w
      | ACTION_ERROR \<Rightarrow> rt_on_error frame w
      | ACTION_CLOSED \<Rightarrow> rt_set_state_locked CONN_CLOSED ABLY_OK w
      | ACTION_ATTACHED \<Rightarrow> rt_on_channel_frame env frame w
      | ACTION_DETACHED \<Rightarrow> rt_on_channel_frame env frame w
      | ACTION_MESSAGE \<Rightarrow> rt_on_channel_frame env frame w
      | ACTION_PRESENCE \<Rightarrow> rt_on_channel_frame env frame w
      | ACTION_SYNC \<Rightarrow> rt_on_channel_frame env frame w
      | _ \<Rightarrow> w)"

definition on_ws_frame :: "rt_env \<Rightarrow> string \<Rightarrow> rt_world \<Rightarrow> rt_world" where
  "on_ws_frame env buf w =
     (case proto_decode (re_lib env) (rc_encoding (rw_client w)) buf of
        None \<Rightarrow> w
      | Some frame \<Rightarrow> rt_dispatch_frame env frame w)"

section \<open>The service thread\<close>

definition s_fallback_hosts :: "string list" where
  "s_fallback_hosts = [''a.ably-realtime.com'', ''b.ably-realtime.com'', ''c.ably-realtime.com'',
     ''d.ably-realtime.com'', ''e.ably-realtime.com'']"

definition s_fallback_count :: nat where "s_fallback_count = length s_fallback_hosts"

datatype svc_pc =
    Svc_Idle \<comment> \<open>no thread\<close>
  | Svc_Top | Svc_Connect | Svc_Loop | Svc_Check | Svc_Down | Svc_Suspended | Svc_Retry | Svc_Sleep
  | Svc_Exit

record svc_input =
  si_env :: rt_env
  si_conn :: conn_env
  si_recv :: recv_ret
  si_close :: "recv_ret list"
  si_auth :: "ably_error \<times> string"
  si_random :: rat

definition host_to_use :: "rt_client \<Rightarrow> string" where
  "host_to_use c =
     (if 0 < rt_host_idx c \<and> rt_host_idx c \<le> s_fallback_count then s_fallback_hosts ! (rt_host_idx c - 1)
      else ro_realtime_host (rt_opts c))"

definition resume_url :: "rt_client \<Rightarrow> string" where
  "resume_url c =
     c_copy ABLY_WS_PATH_MAX
       (if rt_connection_key c = [] then rt_ws_path c else rt_ws_path c @ ''&resume='' @ rt_connection_key c)"

text \<open>Lines 390 to 431: select the host, reset what belongs to the old connection, set the path.\<close>

definition prepare_connect :: "rt_world \<Rightarrow> rt_world" where
  "prepare_connect w =
     (let c = rw_client w
      in set_ws (ws_client_set_path (resume_url c))
           (set_client (\<lambda>c. c\<lparr>rt_last_activity := 0, rt_connection_id := [], rc_msg_serial := 0\<rparr>)
             (set_ws (ws_client_set_host (host_to_use c)) w)))"

definition svc_top :: "rt_world \<Rightarrow> svc_pc \<times> rt_world" where
  "svc_top w =
     (if rt_close_requested (rw_client w) then (Svc_Exit, rt_set_state_locked CONN_CLOSED ABLY_OK w)
      else (Svc_Connect, prepare_connect (rt_set_state_locked CONN_CONNECTING ABLY_OK w)))"

definition svc_connect :: "conn_env \<Rightarrow> rt_world \<Rightarrow> (svc_pc \<times> rt_world) option" where
  "svc_connect ce w =
     (case ws_connect ce w of
        (None, _) \<Rightarrow> None
      | (Some err, w') \<Rightarrow> Some (if err = ABLY_OK then Svc_Loop else Svc_Down, w'))"

definition rt_drain_ring :: "rt_world \<Rightarrow> bool \<times> rt_world" where
  "rt_drain_ring w =
     (case rt_drain_one (rw_client w) of
        (None, c) \<Rightarrow> (False, w)
      | (Some payload, c) \<Rightarrow> (True, snd (ws_send_text payload (w\<lparr>rw_client := c\<rparr>))))"

definition heartbeat_lost :: "int \<Rightarrow> rt_client \<Rightarrow> bool" where
  "heartbeat_lost now c \<longleftrightarrow> rt_last_activity c \<noteq> 0 \<and> ro_heartbeat_timeout_ms (rt_opts c) > 0 \<and>
     now - rt_last_activity c > ro_heartbeat_timeout_ms (rt_opts c)"

definition svc_close :: "rt_env \<Rightarrow> recv_ret list \<Rightarrow> rt_world \<Rightarrow> rt_world" where
  "svc_close env rs w =
     (let buf = proto_encode_close (re_lib env) 32 (rc_encoding (rw_client w));
          w1 = (if buf = [] then w else snd (ws_send_text buf w));
          w2 = snd (ws_close (on_ws_frame env) rs 5000 w1)
      in rt_set_state_locked CONN_CLOSED ABLY_OK w2)"

text \<open>The test of the event loop and one round of its body.\<close>

definition svc_loop :: "rt_env \<Rightarrow> recv_ret \<Rightarrow> recv_ret list \<Rightarrow> rt_world \<Rightarrow> svc_pc \<times> rt_world" where
  "svc_loop env r rs w =
     (if \<not> ws_is_connected (ww_ws w) then (Svc_Check, w)
      else if rt_close_requested (rw_client w) then (Svc_Check, svc_close env rs w)
      else let w1 = snd (rt_drain_ring w);
               w2 = snd (ws_recv_once (on_ws_frame env) r w1)
      in (if heartbeat_lost (re_now env) (rw_client w2) then Svc_Check else Svc_Loop, w2))"

definition svc_check :: "rt_world \<Rightarrow> svc_pc" where
  "svc_check w =
     (let c = rw_client w
      in if rt_close_requested c \<or> rc_state c = CONN_FAILED \<or> rc_state c = CONN_CLOSED then Svc_Exit
         else Svc_Down)"

definition refresh_token :: "ably_error \<times> string \<Rightarrow> rt_client \<Rightarrow> rt_client" where
  "refresh_token auth c =
     (if rt_need_refresh c \<and> ro_auth_cb (rt_opts c) then
        let c1 = c\<lparr>rt_need_refresh := False\<rparr>; new_token = c_copy 512 (snd auth)
        in if fst auth = ABLY_OK \<and> new_token \<noteq> []
           then c1\<lparr>rt_token := new_token, rt_ws_path := token_path new_token (rc_encoding c),
                   rt_skip_backoff := True\<rparr>
           else c1
      else c)"

text \<open>The label \<^verbatim>\<open>disconnected\<close>, up to the waits.\<close>

definition svc_down :: "ably_error \<times> string \<Rightarrow> rt_world \<Rightarrow> svc_pc \<times> rt_world" where
  "svc_down auth w =
     (let w1 = rt_set_state_locked CONN_DISCONNECTED ABLY_ERR_NETWORK w;
          w2 = on_channels channel_on_disconnect w1;
          w3 = set_client (refresh_token auth) w2;
          idx = rt_host_idx (rw_client w3) + 1;
          c3 = rw_client w3
      in if rt_host_idx c3 \<le> s_fallback_count \<and> idx \<le> s_fallback_count
         then (Svc_Top, set_client (\<lambda>c. c\<lparr>rt_host_idx := idx\<rparr>) w3)
         else let w4 = (if rt_host_idx c3 \<le> s_fallback_count then set_client (\<lambda>c. c\<lparr>rt_host_idx := 0\<rparr>) w3 else w3);
                  max = ro_max_attempts (rt_opts c3)
         in if max > 0 \<and> rt_attempt c3 \<ge> max
            then (Svc_Suspended, rt_set_state_locked CONN_SUSPENDED ABLY_ERR_NETWORK w4)
            else (Svc_Retry, w4))"

definition svc_suspended :: "rt_world \<Rightarrow> svc_pc \<times> rt_world" where
  "svc_suspended w = (Svc_Retry, set_client (\<lambda>c. c\<lparr>rt_attempt := 0\<rparr>) w)"

definition svc_retry :: "rat \<Rightarrow> rt_world \<Rightarrow> svc_pc \<times> rt_world" where
  "svc_retry random w =
     (let c = rw_client w
      in if rt_skip_backoff c then
           (if rt_close_requested c then Svc_Exit else Svc_Top,
            set_client (\<lambda>c. c\<lparr>rt_skip_backoff := False\<rparr>) w)
         else let delay = backoff_delay_ms (rt_opts c) (rt_attempt c) random;
                  w1 = set_client (\<lambda>c. c\<lparr>rt_attempt := rt_attempt c + 1\<rparr>) w
         in if rt_close_requested c then (Svc_Top, w1)
            else (Svc_Sleep, w1\<lparr>rw_events := rw_events w1 @ [Ev_Backoff delay]\<rparr>))"

fun svc_next :: "svc_input \<Rightarrow> svc_pc \<times> rt_world \<Rightarrow> (svc_pc \<times> rt_world) option" where
  "svc_next inp (Svc_Idle, w) = None"
| "svc_next inp (Svc_Top, w) = Some (svc_top w)"
| "svc_next inp (Svc_Connect, w) = svc_connect (si_conn inp) w"
| "svc_next inp (Svc_Loop, w) = Some (svc_loop (si_env inp) (si_recv inp) (si_close inp) w)"
| "svc_next inp (Svc_Check, w) = Some (svc_check w, w)"
| "svc_next inp (Svc_Down, w) = Some (svc_down (si_auth inp) w)"
| "svc_next inp (Svc_Suspended, w) = Some (svc_suspended w)"
| "svc_next inp (Svc_Retry, w) = Some (svc_retry (si_random inp) w)"
| "svc_next inp (Svc_Sleep, w) = Some (Svc_Top, w)"
| "svc_next inp (Svc_Exit, w) = None"

section \<open>Calls of the application\<close>

text \<open>\<^verbatim>\<open>ably_rt_client_connect\<close>; \<open>thread_ok\<close> is the result of \<^verbatim>\<open>ably_thread_create\<close>.\<close>

definition rt_client_connect :: "bool \<Rightarrow> rt_world \<Rightarrow> ably_error \<times> svc_pc \<times> rt_world" where
  "rt_client_connect thread_ok w =
     (let w1 = set_client (\<lambda>c. c\<lparr>rt_close_requested := False\<rparr>) w
      in if thread_ok then (ABLY_OK, Svc_Top, set_client (\<lambda>c. c\<lparr>rt_thread_running := True\<rparr>) w1)
         else (ABLY_ERR_THREAD, Svc_Idle, w1))"

text \<open>\<^verbatim>\<open>ably_rt_client_close\<close>: the request, the wait (for each wake-up whether it is a timeout, and the
  state then), and the end after the join. A list that is used up is a wait that goes on.\<close>

definition rt_close_request :: "rt_world \<Rightarrow> rt_world" where
  "rt_close_request w = set_client (\<lambda>c. c\<lparr>rt_close_requested := True\<rparr>) w"

fun rt_close_wait :: "ably_connection_state \<Rightarrow> (bool \<times> ably_connection_state) list \<Rightarrow> ably_error option" where
  "rt_close_wait s [] = (if s = CONN_CLOSED \<or> s = CONN_FAILED then Some ABLY_OK else None)"
| "rt_close_wait s ((timed_out, s') # wakes) =
     (if s = CONN_CLOSED \<or> s = CONN_FAILED then Some ABLY_OK
      else if timed_out then Some ABLY_ERR_TIMEOUT else rt_close_wait s' wakes)"

definition rt_close_join :: "rt_world \<Rightarrow> rt_world" where
  "rt_close_join w = set_client (\<lambda>c. c\<lparr>rt_thread_running := False\<rparr>) w"

text \<open>The calls for an event loop of the application's own.\<close>

definition rt_client_connect_async :: "conn_env \<Rightarrow> rt_world \<Rightarrow> (ably_error \<times> rt_world) option" where
  "rt_client_connect_async ce w =
     (let w1 = set_client (\<lambda>c. c\<lparr>rt_last_activity := 0, rt_connection_id := [], rc_msg_serial := 0\<rparr>)
                 (rt_set_state_locked CONN_CONNECTING ABLY_OK
                   (set_ws (ws_client_set_path (resume_url (rw_client w))) w))
      in case ws_connect ce w1 of
           (None, _) \<Rightarrow> None
         | (Some err, w2) \<Rightarrow>
             if err \<noteq> ABLY_OK then Some (err, rt_set_state_locked CONN_DISCONNECTED ABLY_ERR_NETWORK w2)
             else Some (ABLY_OK, w2))"

definition rt_step :: "rt_env \<Rightarrow> recv_ret \<Rightarrow> rt_world \<Rightarrow> int \<times> rt_world" where
  "rt_step env r w =
     (if \<not> ws_is_connected (ww_ws w) then (-1, w)
      else let (did_work, w1) = rt_drain_ring w;
               (err, w2) = ws_recv_once (on_ws_frame env) r w1;
               did_work = (did_work \<or> err = ABLY_OK)
      in if err = ABLY_ERR_NETWORK then (-1, w2)
         else if heartbeat_lost (re_now env) (rw_client w2) then (-1, w2)
         else (if did_work then 1 else 0, w2))"

end
