(* ===== verification/Ably_Realtime_Steps.thy ===== *)
theory Ably_Realtime_Steps
  imports Ably_Realtime
begin

text \<open>
  The client's life as a step relation (pieces of the service thread, calls of the application), its
  invariant, and the interpretations of the channel's and the WebSocket client's preservation locales
  that carry it through callbacks and inbound frames.
\<close>

section \<open>Steps\<close>

definition scripted :: "codec_lib \<Rightarrow> cb_script \<Rightarrow> history_fn option \<Rightarrow> int \<Rightarrow> rt_env" where
  "scripted lib script rest now =
     \<lparr>re_lib = lib, re_cb = script_env lib script, re_rest = rest, re_now = now\<rparr>"

text \<open>A piece of the service thread; message callbacks run scripts of channel calls.\<close>

inductive svc_step :: "codec_lib \<Rightarrow> cb_script \<Rightarrow> svc_pc \<times> rt_world \<Rightarrow> svc_pc \<times> rt_world \<Rightarrow> bool"
  for lib script
where
  svc_piece: "si_env inp = scripted lib script rest now \<Longrightarrow> svc_next inp s = Some s' \<Longrightarrow>
    svc_step lib script s s'"

text \<open>Calls of the application that can happen at any time.\<close>

inductive app_call :: "codec_lib \<Rightarrow> rt_world \<Rightarrow> rt_world \<Rightarrow> bool" for lib where
  call_close: "app_call lib w (rt_close_request w)"
| call_channel: "i < length (rw_channels w) \<Longrightarrow> app_call lib w (on_channel i (chan_api lib op) w)"
| call_get: "app_call lib w (snd (rt_channel_get name w))"
| call_conn_cb: "app_call lib w (rt_client_set_conn_state_cb cb w)"

inductive rt_trans :: "codec_lib \<Rightarrow> cb_script \<Rightarrow> svc_pc \<times> rt_world \<Rightarrow> svc_pc \<times> rt_world \<Rightarrow> bool"
  for lib script
where
  trans_service: "svc_step lib script s s' \<Longrightarrow> rt_trans lib script s s'"
| trans_connect: "pc = Svc_Idle \<or> pc = Svc_Exit \<Longrightarrow>
    rt_trans lib script (pc, w) (snd (rt_client_connect ok w))"
| trans_call: "app_call lib w w' \<Longrightarrow> rt_trans lib script (pc, w) (pc, w')"
| trans_join: "rt_trans lib script (Svc_Exit, w) (Svc_Idle, rt_close_join w)"
| trans_async: "rt_client_connect_async ce w = Some (err, w') \<Longrightarrow>
    rt_trans lib script (Svc_Idle, w) (Svc_Idle, w')"
| trans_event_loop: "rt_trans lib script (Svc_Idle, w) (Svc_Idle, snd (rt_step (scripted lib script rest now) r w))"

inductive rt_reach :: "codec_lib \<Rightarrow> cb_script \<Rightarrow> svc_pc \<times> rt_world \<Rightarrow> svc_pc \<times> rt_world \<Rightarrow> bool"
  for lib script s0
where
  rt_start: "rt_reach lib script s0 s0"
| rt_more: "rt_reach lib script s0 s \<Longrightarrow> rt_trans lib script s s' \<Longrightarrow> rt_reach lib script s0 s'"

inductive_cases svc_stepE: "svc_step lib script s s'"
inductive_cases app_callE: "app_call lib w w'"
inductive_cases rt_transE: "rt_trans lib script s s'"

section \<open>The invariant\<close>

definition client_ok :: "rt_client \<Rightarrow> bool" where
  "client_ok c \<longleftrightarrow> rt_host_idx c \<le> s_fallback_count \<and> 0 \<le> rt_attempt c \<and>
     length (rt_connection_id c) < 64 \<and> length (rt_connection_key c) < 256 \<and> length (rt_token c) < 512 \<and>
     length (rt_ws_path c) < ABLY_WS_PATH_MAX \<and> length (rc_client_id c) < ABLY_MAX_CLIENT_ID_LEN"

definition rt_inv :: "rt_world \<Rightarrow> bool" where
  "rt_inv w \<longleftrightarrow> client_ok (rw_client w) \<and> core_inv (rw_client w) \<and>
     length (rw_channels w) \<le> ABLY_MAX_CHANNELS \<and> distinct (map ch_name (rw_channels w)) \<and>
     (\<forall>ch \<in> set (rw_channels w). chan_inv ch) \<and>
     length (ws_host (ww_ws w)) < ABLY_WS_HOST_MAX \<and> length (ws_path (ww_ws w)) < ABLY_WS_PATH_MAX"

section \<open>Channel operations in the client's world\<close>

text \<open>What an operation of a channel leaves of the client: all but the ring and the serial.\<close>

definition core_kept :: "'x rt_core_scheme \<Rightarrow> 'x rt_core_scheme \<Rightarrow> bool" where
  "core_kept c0 c \<longleftrightarrow> (\<exists>r s. c = c0\<lparr>rc_send_ring := r, rc_msg_serial := s\<rparr>)"

definition kept :: "'x rt_core_scheme \<Rightarrow> string \<Rightarrow> 'x rt_core_scheme chan_world \<Rightarrow> bool" where
  "kept c0 name w \<longleftrightarrow> core_kept c0 (cw_core w) \<and> ch_name (cw_ch w) = name"

lemma core_kept_refl: "core_kept c c"
  unfolding core_kept_def by (rule exI [of _ "rc_send_ring c"], rule exI [of _ "rc_msg_serial c"]) simp

lemma core_kept_quiet: "core_kept c0 c \<Longrightarrow> core_quiet c c' \<Longrightarrow> core_kept c0 c'"
  unfolding core_kept_def core_quiet_def
  by (elim exE conjE) (rule exI [of _ "rc_send_ring c'"], rule exI [of _ "rc_msg_serial c'"], simp)

lemma core_kept_trans: "core_kept a b \<Longrightarrow> core_kept b c \<Longrightarrow> core_kept a c"
  unfolding core_kept_def by (elim exE) (intro exI, simp)

interpretation kept: chan_preserved "kept c0 name" any_op
proof
  fix w :: "'a rt_core_scheme chan_world"
  show "kept c0 name w \<Longrightarrow> kept c0 name (set_state_locked s r w)" for s r
    by (simp add: kept_def set_state_locked_ch)
  show "kept c0 name w \<Longrightarrow> quiet (cw_ch w) ch \<Longrightarrow> kept c0 name (w\<lparr>cw_ch := ch\<rparr>)" for ch
    by (simp add: kept_def quiet_def resub_def)
  show "resub (cw_ch w) ch \<Longrightarrow> kept c0 name w \<Longrightarrow> kept c0 name (w\<lparr>cw_ch := ch\<rparr>)" for ch
    by (simp add: kept_def resub_def)
  show "kept c0 name w \<Longrightarrow> core_quiet (cw_core w) c \<Longrightarrow> kept c0 name (w\<lparr>cw_core := c\<rparr>)" for c
    using core_kept_quiet by (auto simp: kept_def)
  show "kept c0 name w \<Longrightarrow> \<not> is_state_event e \<Longrightarrow> kept c0 name (emit [e] w)" for e
    by (simp add: kept_def emit_def)
  show "any_op (Op_Set_State_Cb cb) \<Longrightarrow> kept c0 name w \<Longrightarrow> kept c0 name (set_ch (channel_set_state_cb cb) w)" for cb
    by (simp add: kept_def set_ch_def channel_set_state_cb_def)
qed

definition chan_safe :: "('x rt_core_scheme chan_world \<Rightarrow> 'x rt_core_scheme chan_world) \<Rightarrow> bool" where
  "chan_safe f \<longleftrightarrow> (\<forall>w. world_ok w \<longrightarrow> world_ok (f w)) \<and>
     (\<forall>c0 name w. kept c0 name w \<longrightarrow> kept c0 name (f w)) \<and>
     (\<forall>base w. grown base w \<longrightarrow> grown base (f w))"

lemma any_script: "\<forall>cb m. list_all any_op (script cb m)"
  by (simp add: any_op_def list_all_iff)

lemma chan_safe_api: "chan_safe (chan_api lib op)"
  unfolding chan_safe_def using wf.api_law kept.api_law grown.api_law by (blast intro: any_op_def [THEN iffD2])

lemma chan_safe_frame:
  assumes f: "frame_bounded f"
  shows "chan_safe (channel_on_frame lib (script_env lib script) rest f)"
  unfolding chan_safe_def
proof (intro conjI allI impI)
  fix w :: "'a rt_core_scheme chan_world" and c0 name
  show "world_ok w \<Longrightarrow> world_ok (channel_on_frame lib (script_env lib script) rest f w)"
    by (rule wf.frame_law [where env = "script_env lib script", OF wf.script_law [OF any_script] _ f])
  show "kept c0 name w \<Longrightarrow> kept c0 name (channel_on_frame lib (script_env lib script) rest f w)"
    by (rule kept.frame_law [where env = "script_env lib script", OF kept.script_law [OF any_script] _ f])
  show "grown base w \<Longrightarrow> grown base (channel_on_frame lib (script_env lib script) rest f w)" for base
    by (rule grown.frame_law [where env = "script_env lib script", OF grown.script_law [OF any_script] _ f])
qed

lemma chan_safe_disconnect: "chan_safe channel_on_disconnect"
  unfolding chan_safe_def using wf.disconnect_law kept.disconnect_law grown.disconnect_law by blast

lemma chan_safe_reattach: "chan_safe (rt_reattach_channel lib)"
  unfolding chan_safe_def rt_reattach_channel_def Let_def
  by (auto intro: wf.attaching_law [OF wf.enqueue_law] kept.attaching_law [OF kept.enqueue_law]
      grown.attaching_law [OF grown.enqueue_law])

lemmas chan_safe_rules = chan_safe_api chan_safe_frame chan_safe_disconnect chan_safe_reattach

lemma core_kept_client:
  assumes "core_kept c0 (c :: rt_client)"
  shows "rt_close_requested c = rt_close_requested c0" "client_ok c = client_ok c0" "rt_opts c = rt_opts c0"
    "rc_state c = rc_state c0" "rt_conn_cb c = rt_conn_cb c0" "rc_encoding c = rc_encoding c0"
    "rt_host_idx c = rt_host_idx c0" "rt_attempt c = rt_attempt c0" "rt_skip_backoff c = rt_skip_backoff c0"
    "rt_need_refresh c = rt_need_refresh c0" "rt_last_activity c = rt_last_activity c0"
  using assms by (auto simp: core_kept_def client_ok_def)

lemma on_channel_kept:
  assumes f: "chan_safe f"
  shows "core_kept (rw_client w) (rw_client (on_channel i f w))"
    and "map ch_name (rw_channels (on_channel i f w)) = map ch_name (rw_channels w)"
proof -
  let ?cw = "\<lparr>cw_ch = rw_channels w ! i, cw_core = rw_client w, cw_events = []\<rparr>"
  have "kept (rw_client w) (ch_name (rw_channels w ! i)) ?cw" by (simp add: kept_def core_kept_refl)
  then have "kept (rw_client w) (ch_name (rw_channels w ! i)) (f ?cw)" using f by (simp add: chan_safe_def)
  then have k: "core_kept (rw_client w) (cw_core (f ?cw))" "ch_name (cw_ch (f ?cw)) = ch_name (rw_channels w ! i)"
    by (simp_all add: kept_def)
  show "core_kept (rw_client w) (rw_client (on_channel i f w))" using k by (simp add: on_channel_def Let_def)
  show "map ch_name (rw_channels (on_channel i f w)) = map ch_name (rw_channels w)"
    using k(2) list_update_id [of "map ch_name (rw_channels w)" i]
    by (cases "i < length (rw_channels w)") (simp_all add: on_channel_def Let_def map_update list_update_beyond)
qed

lemma on_channel_safe:
  assumes f: "chan_safe f" and w: "rt_inv w" "i < length (rw_channels w)"
  shows "rt_inv (on_channel i f w)"
proof -
  let ?cw = "\<lparr>cw_ch = rw_channels w ! i, cw_core = rw_client w, cw_events = []\<rparr>"
  have "world_ok ?cw" using w by (simp add: world_ok_def rt_inv_def)
  then have ok: "world_ok (f ?cw)" using f by (simp add: chan_safe_def)
  have "\<forall>ch \<in> set ((rw_channels w)[i := cw_ch (f ?cw)]). chan_inv ch"
    by (rule list_update_all) (use w ok in \<open>simp_all add: rt_inv_def world_ok_def\<close>)
  then show "rt_inv (on_channel i f w)"
    using w ok on_channel_kept [OF f, where w = w and i = i] core_kept_client(2) [OF on_channel_kept(1) [OF f, where w = w and i = i]]
    by (simp add: rt_inv_def on_channel_def Let_def world_ok_def)
qed

lemma on_channel_grown:
  assumes f: "chan_safe f" and w: "rt_inv w" "i < length (rw_channels w)"
  shows "\<exists>ps. rc_pending_frames (rw_client (on_channel i f w)) = rc_pending_frames (rw_client w) @ ps"
proof -
  let ?cw = "\<lparr>cw_ch = rw_channels w ! i, cw_core = rw_client w, cw_events = []\<rparr>"
  have "grown (rc_pending_frames (rw_client w)) ?cw" using w by (simp add: grown_def world_ok_def rt_inv_def)
  then have "grown (rc_pending_frames (rw_client w)) (f ?cw)" using f by (simp add: chan_safe_def)
  then show ?thesis by (auto simp: grown_def on_channel_def Let_def)
qed

lemma on_channel_ws [simp]:
  "ww_ws (on_channel i f w) = ww_ws w" "ww_sent (on_channel i f w) = ww_sent w"
  "ww_sends (on_channel i f w) = ww_sends w"
  by (simp_all add: on_channel_def Let_def)

lemma on_channels_kept:
  assumes f: "chan_safe f"
  shows "core_kept (rw_client w) (rw_client (on_channels f w))"
proof -
  have "core_kept (rw_client v) (rw_client (fold (\<lambda>i. on_channel i f) is v))" for "is" v
    by (induction "is" arbitrary: v)
      (auto intro: core_kept_refl core_kept_trans [OF on_channel_kept(1) [OF f]])
  then show ?thesis by (simp add: on_channels_def)
qed

lemma fold_on_channel_ws [simp]:
  "ww_ws (fold (\<lambda>i. on_channel i f) is w) = ww_ws w" "ww_sent (fold (\<lambda>i. on_channel i f) is w) = ww_sent w"
  "ww_sends (fold (\<lambda>i. on_channel i f) is w) = ww_sends w"
  by (induction "is" arbitrary: w) simp_all

lemma on_channels_ws [simp]:
  "ww_ws (on_channels f w) = ww_ws w" "ww_sent (on_channels f w) = ww_sent w" "ww_sends (on_channels f w) = ww_sends w"
  by (simp_all add: on_channels_def)

section \<open>Preservation by the dispatcher\<close>

lemma rt_inv_set_client:
  "rt_inv w \<Longrightarrow> client_ok (f (rw_client w)) \<Longrightarrow> rc_send_ring (f (rw_client w)) = rc_send_ring (rw_client w) \<Longrightarrow>
     rt_inv (set_client f w)"
  by (simp add: rt_inv_def set_client_def core_inv_def)

lemma rt_inv_state: "rt_inv w \<Longrightarrow> rt_inv (rt_set_state_locked s r w)"
  by (simp add: rt_inv_def rt_set_state_locked_def Let_def client_ok_def core_inv_def)

lemma client_ok_connected:
  "client_ok c \<Longrightarrow> client_ok (connected_client env frame c)"
  by (auto simp: client_ok_def connected_client_def Let_def c_copy_fits ABLY_MAX_CLIENT_ID_LEN_def split: option.split)

text \<open>What the handlers do to the client record itself: buffers stay within bounds, the ring, the state and
  the connection callback and the encoding are left alone, a request to close is not withdrawn.\<close>

definition client_step :: "rt_client \<Rightarrow> rt_client \<Rightarrow> bool" where
  "client_step c c' \<longleftrightarrow> (client_ok c \<longrightarrow> client_ok c') \<and> rc_send_ring c' = rc_send_ring c \<and>
     rc_state c' = rc_state c \<and> rt_conn_cb c' = rt_conn_cb c \<and> rc_encoding c' = rc_encoding c \<and>
     (rt_close_requested c \<longrightarrow> rt_close_requested c')"

text \<open>The states that an inbound frame can lead to, with the reason reported.\<close>

definition frame_state :: "ably_connection_state \<Rightarrow> ably_error \<Rightarrow> bool" where
  "frame_state s r \<longleftrightarrow> s = CONN_CONNECTED \<and> r = ABLY_OK \<or> s = CONN_CLOSED \<and> r = ABLY_OK \<or>
     s = CONN_FAILED \<and> r = ABLY_ERR_AUTH"

text \<open>A property that survives the primitive changes survives every inbound frame, if it survives the reply to a
  heartbeat.\<close>

locale rt_local =
  fixes I :: "rt_world \<Rightarrow> bool"
  assumes state_law: "frame_state s r \<Longrightarrow> I w \<Longrightarrow> I (rt_set_state_locked s r w)"
    and channel_law: "chan_safe f \<Longrightarrow> I w \<Longrightarrow> i < length (rw_channels w) \<Longrightarrow> I (on_channel i f w)"
    and client_law: "I w \<Longrightarrow> client_step (rw_client w) (g (rw_client w)) \<Longrightarrow> I (set_client g w)"
begin

lemma channels_law:
  assumes f: "chan_safe f" and w: "I w"
  shows "I (on_channels f w)"
proof -
  have "I (fold (\<lambda>i. on_channel i f) is v)" if "I v" "\<forall>i \<in> set is. i < length (rw_channels v)" for "is" v
    using that
  proof (induction "is" arbitrary: v)
    case (Cons i "is")
    have "length (rw_channels (on_channel i f v)) = length (rw_channels v)"
      using arg_cong [OF on_channel_kept(2) [OF f, where w = v and i = i], of length] by simp
    then show ?case using Cons channel_law [OF f Cons.prems(1), of i] by auto
  qed simp
  from this [OF w, of "[0..<length (rw_channels w)]"] show ?thesis by (simp add: on_channels_def)
qed

lemma connected_law: "I w \<Longrightarrow> I (rt_on_connected env frame w)"
  unfolding rt_on_connected_def rt_reattach_pending_channels_def
  using client_ok_connected
  by (intro channels_law [OF chan_safe_reattach] client_law state_law)
    (auto simp: client_step_def frame_state_def, auto simp: client_ok_def connected_client_def Let_def)

lemma error_law: "I w \<Longrightarrow> I (rt_on_error frame w)"
  by (auto simp: rt_on_error_def Let_def client_step_def client_ok_def frame_state_def
      intro!: client_law state_law)

lemma dispatch_beat_law:
  assumes w: "I w" and f: "frame_bounded frame" and beat: "I (rt_on_heartbeat (scripted lib script rest now) w)"
  shows "I (rt_dispatch_frame (scripted lib script rest now) frame w)"
proof -
  have "I (rt_on_channel_frame (scripted lib script rest now) frame w)"
    using w channel_law [OF chan_safe_frame [OF f] w]
    by (auto simp: rt_on_channel_frame_def scripted_def find_channel_def split: option.split dest: first_index_Some)
  moreover have "I (rt_on_disconnected frame w)"
    unfolding rt_on_disconnected_def using w
    by (rule client_law) (auto simp: client_step_def client_ok_def)
  ultimately show ?thesis
    using w beat connected_law error_law state_law
    by (simp add: rt_dispatch_frame_def frame_state_def split: ably_action.split)
qed

end

locale rt_preserved = ws_local I + rt_local I for I :: "rt_world \<Rightarrow> bool"
begin

lemma heartbeat_law: "I w \<Longrightarrow> I (rt_on_heartbeat env w)"
  by (auto simp: rt_on_heartbeat_def Let_def client_step_def client_ok_def intro!: send_law client_law)

lemma dispatch_law: "I w \<Longrightarrow> frame_bounded frame \<Longrightarrow> I (rt_dispatch_frame (scripted lib script rest now) frame w)"
  by (rule dispatch_beat_law) (auto intro: heartbeat_law)

lemma on_ws_frame_law: "I w \<Longrightarrow> I (on_ws_frame (scripted lib script rest now) buf w)"
  using dispatch_law proto_decode_bounded by (auto simp: on_ws_frame_def split: option.split)

end

interpretation inv: rt_preserved rt_inv
proof
  show "rt_inv w \<Longrightarrow> ws_quiet (ww_ws w) ws \<Longrightarrow> rt_inv (w\<lparr>ww_ws := ws, ww_sent := ww_sent w @ sent,
      ww_sends := drop k (ww_sends w), ww_lost := l, ww_misused := m\<rparr>)" for w ws sent k l m
    by (simp add: rt_inv_def ws_quiet_def)
  show "rt_inv w \<Longrightarrow> client_step (rw_client w) (f (rw_client w)) \<Longrightarrow> rt_inv (set_client f w)" for w f
    by (rule rt_inv_set_client) (auto simp: client_step_def rt_inv_def)
qed (auto intro: rt_inv_state on_channel_safe)

interpretation inv: ws_closing rt_inv "on_ws_frame (scripted lib script rest now)"
proof
  show "rt_inv w \<Longrightarrow> rt_inv (on_ws_frame (scripted lib script rest now) msg w)" for w msg
    by (rule inv.on_ws_frame_law)
  show "rt_inv w \<Longrightarrow> rt_inv (set_ws (\<lambda>ws. ws\<lparr>ws_close_sent := True\<rparr>) w)" for w
    by (simp add: rt_inv_def set_ws_def)
qed

section \<open>Preservation by the service thread and the calls\<close>

lemma length_resume_url: "length (resume_url c) < ABLY_WS_PATH_MAX"
  unfolding resume_url_def by (rule c_copy_fits) (simp add: ABLY_WS_PATH_MAX_def)

lemma length_token_path: "length (token_path t enc) < ABLY_WS_PATH_MAX"
  unfolding token_path_def by (rule c_copy_fits) (simp add: ABLY_WS_PATH_MAX_def)

lemma rt_inv_path: "rt_inv w \<Longrightarrow> rt_inv (set_ws (ws_client_set_path p) w)"
  by (simp add: rt_inv_def set_ws_def ws_client_set_path_def c_copy_fits ABLY_WS_PATH_MAX_def)

lemma rt_inv_host: "rt_inv w \<Longrightarrow> rt_inv (set_ws (ws_client_set_host h) w)"
  by (simp add: rt_inv_def set_ws_def ws_client_set_host_def c_copy_fits ABLY_WS_HOST_MAX_def)

lemma rt_inv_client_ok: "rt_inv w \<Longrightarrow> client_ok (rw_client w)"
  by (simp add: rt_inv_def)

text \<open>Changes of single fields of the client.\<close>

lemma rt_inv_fields:
  assumes "rt_inv w"
  shows "rt_inv (set_client (\<lambda>c. c\<lparr>rt_close_requested := b\<rparr>) w)"
    and "rt_inv (set_client (\<lambda>c. c\<lparr>rt_thread_running := b\<rparr>) w)"
    and "rt_inv (set_client (\<lambda>c. c\<lparr>rt_conn_cb := n\<rparr>) w)"
    and "rt_inv (set_client (\<lambda>c. c\<lparr>rt_skip_backoff := b\<rparr>) w)"
    and "rt_inv (set_client (\<lambda>c. c\<lparr>rt_last_activity := 0, rt_connection_id := [], rc_msg_serial := 0\<rparr>) w)"
    and "0 \<le> a \<Longrightarrow> rt_inv (set_client (\<lambda>c. c\<lparr>rt_attempt := a\<rparr>) w)"
    and "k \<le> s_fallback_count \<Longrightarrow> rt_inv (set_client (\<lambda>c. c\<lparr>rt_host_idx := k\<rparr>) w)"
    and "rt_inv (set_client (refresh_token auth) w)"
proof -
  have ok: "client_ok (rw_client w)" by (rule rt_inv_client_ok [OF assms])
  then have "client_ok (refresh_token auth (rw_client w))"
    using length_token_path by (auto simp: refresh_token_def client_ok_def Let_def c_copy_fits)
  moreover have "rc_send_ring (refresh_token auth (rw_client w)) = rc_send_ring (rw_client w)"
    by (simp add: refresh_token_def Let_def)
  ultimately show "rt_inv (set_client (refresh_token auth) w)" by (rule rt_inv_set_client [OF assms])
qed (use assms rt_inv_client_ok [OF assms] in \<open>auto simp: client_ok_def intro: rt_inv_set_client\<close>)

lemma core_inv_drain: "core_inv c \<Longrightarrow> core_inv (snd (rt_drain_one c))"
  using rt_drain_one_spec(3) by blast

lemma rt_drain_inv: "rt_inv w \<Longrightarrow> rt_inv (snd (rt_drain_ring w))"
proof -
  assume w: "rt_inv w"
  obtain p c where d: "rt_drain_one (rw_client w) = (p, c)" by fastforce
  have "core_inv c" using core_inv_drain [of "rw_client w"] w d by (simp add: rt_inv_def)
  moreover have "client_ok c"
    using d rt_inv_client_ok [OF w] by (auto simp: rt_drain_one_def client_ok_def split: option.splits)
  ultimately have "rt_inv (w\<lparr>rw_client := c\<rparr>)" using w by (simp add: rt_inv_def)
  then show ?thesis using w inv.send_law by (simp add: rt_drain_ring_def d split: option.split)
qed

lemma rt_inv_events: "rt_inv w \<Longrightarrow> rt_inv (w\<lparr>rw_events := es\<rparr>)"
  by (simp add: rt_inv_def)

lemma svc_close_inv: "rt_inv w \<Longrightarrow> rt_inv (svc_close (scripted lib script rest now) rs w)"
  by (auto simp: svc_close_def Let_def intro!: rt_inv_state inv.close_law inv.send_law)

lemma svc_down_inv:
  assumes w: "rt_inv w"
  shows "rt_inv (snd (svc_down auth w))"
proof -
  define w3 where "w3 = set_client (refresh_token auth)
    (on_channels channel_on_disconnect (rt_set_state_locked CONN_DISCONNECTED ABLY_ERR_NETWORK w))"
  have 3: "rt_inv w3"
    unfolding w3_def by (intro rt_inv_fields(8) inv.channels_law [OF chan_safe_disconnect] rt_inv_state w)
  show ?thesis
    unfolding svc_down_def Let_def w3_def [symmetric]
    using 3 rt_inv_fields(7) [OF 3] by (auto intro: rt_inv_state)
qed

lemma svc_next_inv:
  assumes "svc_next inp (pc, w) = Some (pc', w')" "si_env inp = scripted lib script rest now" "rt_inv w"
  shows "rt_inv w'"
proof -
  have top: "rt_inv (snd (svc_top w))"
    using assms(3) unfolding svc_top_def prepare_connect_def Let_def
    by (auto intro!: rt_inv_state rt_inv_path rt_inv_fields(5) rt_inv_host)
  have loop: "rt_inv (snd (svc_loop (scripted lib script rest now) r rs w))" for r rs
    using assms(3) svc_close_inv inv.recv_law [OF rt_drain_inv]
    by (simp add: svc_loop_def Let_def)
  have attempt: "0 \<le> rt_attempt (rw_client w)" using rt_inv_client_ok [OF assms(3)] by (simp add: client_ok_def)
  then have "rt_inv (set_client (\<lambda>c. c\<lparr>rt_attempt := rt_attempt c + 1\<rparr>) w)"
    using rt_inv_fields(6) [OF assms(3), of "rt_attempt (rw_client w) + 1"] by (simp add: set_client_def)
  then have retry: "rt_inv (snd (svc_retry rand w))" for rand
    using assms(3) by (auto simp: svc_retry_def Let_def intro: rt_inv_fields(4) rt_inv_events)
  have conn: "svc_connect ce w = Some (pc', w') \<Longrightarrow> rt_inv w'" for ce
    using inv.connect_law [OF assms(3), of ce]
    by (auto simp: svc_connect_def split: prod.splits option.splits)
  show ?thesis
    using assms top loop [of "si_recv inp" "si_close inp"] retry [of "si_random inp"] conn
      svc_down_inv [OF assms(3), of "si_auth inp"] rt_inv_fields(6) [OF assms(3), of 0]
    by (cases pc) (auto simp: svc_suspended_def)
qed

lemma rt_channel_get_inv: "rt_inv w \<Longrightarrow> rt_inv (snd (rt_channel_get name w))"
  using chan_create_inv [of name]
  by (auto simp: rt_inv_def rt_channel_get_def find_channel_def first_index_None channel_create_def c_copy_id
      split: option.split)

lemma app_call_inv: "app_call lib w w' \<Longrightarrow> rt_inv w \<Longrightarrow> rt_inv w'"
  by (erule app_callE)
    (auto simp: rt_close_request_def rt_client_set_conn_state_cb_def
      intro: rt_inv_fields on_channel_safe [OF chan_safe_api] rt_channel_get_inv)

lemma connect_async_inv:
  "rt_client_connect_async ce w = Some (err, w') \<Longrightarrow> rt_inv w \<Longrightarrow> rt_inv w'"
proof -
  assume r: "rt_client_connect_async ce w = Some (err, w')" and w: "rt_inv w"
  let ?w1 = "set_client (\<lambda>c. c\<lparr>rt_last_activity := 0, rt_connection_id := [], rc_msg_serial := 0\<rparr>)
    (rt_set_state_locked CONN_CONNECTING ABLY_OK (set_ws (ws_client_set_path (resume_url (rw_client w))) w))"
  have "rt_inv ?w1" using w by (intro rt_inv_fields(5) rt_inv_state rt_inv_path)
  from inv.connect_law [OF this, of ce] show ?thesis
    using r by (auto simp: rt_client_connect_async_def Let_def intro: rt_inv_state split: prod.splits option.splits if_splits)
qed

lemma rt_step_inv: "rt_inv w \<Longrightarrow> rt_inv (snd (rt_step (scripted lib script rest now) r w))"
  using inv.recv_law [OF rt_drain_inv] by (simp add: rt_step_def Let_def case_prod_beta)

lemma rt_trans_inv:
  assumes "rt_trans lib script s s'" "rt_inv (snd s)"
  shows "rt_inv (snd s')"
  using assms
proof (cases rule: rt_trans.cases)
  case trans_service
  then show ?thesis using svc_next_inv assms(2) by (cases s; cases s') (auto elim!: svc_stepE)
next
  case (trans_connect pc w ok)
  then show ?thesis using assms(2) by (auto simp: rt_client_connect_def Let_def intro: rt_inv_fields)
qed (auto simp: rt_close_join_def intro: app_call_inv rt_inv_fields connect_async_inv rt_step_inv)

lemma rt_reach_inv: "rt_reach lib script s0 s \<Longrightarrow> rt_inv (snd s0) \<Longrightarrow> rt_inv (snd s)"
  by (induction rule: rt_reach.induct) (auto intro: rt_trans_inv)

lemma rt_create_inv: "rt_client_create key opts = Some w \<Longrightarrow> rt_inv w"
  by (auto simp: rt_client_create_def Let_def rt_inv_def client_ok_def core_inv_def ws_client_create_def
      base_ws_path_def token_path_def s_fallback_count_def s_fallback_hosts_def ABLY_WS_PATH_MAX_def
      ABLY_WS_HOST_MAX_def ABLY_MAX_CLIENT_ID_LEN_def ABLY_SEND_RING_CAPACITY_def c_copy_fits
      intro!: empty_ring_inv split: if_splits)

end
