(* ===== verification/Ably_Realtime_Props.thy ===== *)
theory Ably_Realtime_Props
  imports Ably_Realtime_Steps "HOL-Library.Sublist"
begin

text \<open>
  What the connection guarantees: well-formed clients, the end of the service thread after a close
  request, the sending of queued frames, re-attaching after a reconnect, the order of fallback hosts
  and the bounds of the reconnection delay; and the ways in which closing goes wrong.
\<close>

section \<open>Well-formed clients\<close>

text \<open>C1. Whatever the network, the server, the application and its callbacks do: a client created by
  \<^verbatim>\<open>ably_rt_client_create\<close> keeps at most 64 channels with different names, each well-formed, a ring with
  its indices in range, a host index within the fallback list, and every string within its buffer.\<close>

theorem rt_wellformed:
  assumes "rt_client_create key opts = Some w0" and "rt_reach lib script (Svc_Idle, w0) (pc, w)"
  shows "length (rw_channels w) \<le> 64 \<and> distinct (map ch_name (rw_channels w)) \<and>
    list_all chan_inv (rw_channels w) \<and> core_inv (rw_client w) \<and> rt_host_idx (rw_client w) \<le> 5 \<and>
    length (rt_connection_id (rw_client w)) < 64 \<and> length (rt_connection_key (rw_client w)) < 256 \<and>
    length (rt_token (rw_client w)) < 512 \<and> length (rt_ws_path (rw_client w)) < 1024 \<and>
    length (ws_path (ww_ws w)) < 1024 \<and> length (ws_host (ww_ws w)) < 256"
  using rt_reach_inv [OF assms(2)] rt_create_inv [OF assms(1)]
  by (simp add: rt_inv_def client_ok_def list_all_iff ABLY_MAX_CHANNELS_def s_fallback_count_def s_fallback_hosts_def
      ABLY_WS_PATH_MAX_def ABLY_WS_HOST_MAX_def)

definition demo_world :: rt_world where
  "demo_world = the (rt_client_create (Some ''key.id:secret'') None)"

lemma demo_world_create: "rt_client_create (Some ''key.id:secret'') None = Some demo_world"
  by (simp add: demo_world_def rt_client_create_def Let_def)

lemma demo_world_inv: "rt_inv demo_world"
  by (rule rt_create_inv [OF demo_world_create])

lemma rt_wellformed_witness: "length (rw_channels (snd (rt_channel_get ''chat'' demo_world))) \<le> 64"
proof -
  have "rt_reach no_lib (\<lambda>cb m. []) (Svc_Idle, demo_world) (Svc_Idle, snd (rt_channel_get ''chat'' demo_world))"
    by (rule rt_more [OF rt_start trans_call [OF call_get]])
  from rt_wellformed [OF demo_world_create this] show ?thesis by simp
qed

section \<open>Closing\<close>

text \<open>A request to close is not taken back by anything but \<^verbatim>\<open>ably_rt_client_connect\<close>.\<close>

definition closing :: "rt_world \<Rightarrow> bool" where
  "closing w \<longleftrightarrow> rt_close_requested (rw_client w)"

lemma closing_set_client [simp]:
  "(\<And>c. rt_close_requested (f c) = rt_close_requested c) \<Longrightarrow> closing (set_client f w) = closing w"
  by (simp add: closing_def set_client_def)

lemma closing_state [simp]: "closing (rt_set_state_locked s r w) = closing w"
  by (simp add: closing_def rt_set_state_locked_def Let_def)

lemma closing_on_channel [simp]: "chan_safe f \<Longrightarrow> closing (on_channel i f w) = closing w"
  using core_kept_client(1) [OF on_channel_kept(1)] by (simp add: closing_def)

lemma closing_on_channels [simp]: "chan_safe f \<Longrightarrow> closing (on_channels f w) = closing w"
  using core_kept_client(1) [OF on_channels_kept] by (simp add: closing_def)

lemma closing_set_ws [simp]: "closing (set_ws f w) = closing w"
  by (simp add: closing_def set_ws_def)

interpretation closing: rt_preserved closing
  by unfold_locales (simp_all add: closing_def set_client_def client_step_def
    closing_on_channel [unfolded closing_def] closing_state [unfolded closing_def])

interpretation closing: ws_closing closing "on_ws_frame (scripted lib script rest now)"
  by unfold_locales (auto intro: closing.on_ws_frame_law)

text \<open>How many pieces the service thread has left at most.\<close>

fun svc_rank :: "svc_pc \<Rightarrow> nat" where
  "svc_rank Svc_Idle = 0"
| "svc_rank Svc_Exit = 0"
| "svc_rank Svc_Top = 1"
| "svc_rank Svc_Check = 1"
| "svc_rank Svc_Sleep = 2"
| "svc_rank Svc_Loop = 2"
| "svc_rank Svc_Retry = 3"
| "svc_rank Svc_Suspended = 4"
| "svc_rank Svc_Down = 5"
| "svc_rank Svc_Connect = 6"

lemma svc_step_closing:
  assumes "svc_step lib script (pc, w) (pc', w')" "closing w"
  shows "closing w' \<and> svc_rank pc' < svc_rank pc"
proof -
  obtain inp rest now where env: "si_env inp = scripted lib script rest now"
    and nxt: "svc_next inp (pc, w) = Some (pc', w')"
    using assms(1) by (auto elim: svc_stepE)
  have req: "rt_close_requested (rw_client w)" using assms(2) by (simp add: closing_def)
  have close: "closing (svc_close (scripted lib script rest now) rs w)" for rs
    using assms(2) by (auto simp: svc_close_def Let_def intro!: closing.close_law closing.send_law)
  have conn: "closing (snd (ws_connect ce w))" for ce by (rule closing.connect_law [OF assms(2)])
  have down: "closing (snd (svc_down auth w)) \<and> svc_rank (fst (svc_down auth w)) < 5" for auth
    using assms(2) by (auto simp: svc_down_def Let_def chan_safe_disconnect refresh_token_def)
  show ?thesis
  proof (cases pc)
    case Svc_Connect
    then show ?thesis using nxt conn [of "si_conn inp"]
      by (auto simp: svc_connect_def split: prod.splits option.splits if_splits)
  next
    case Svc_Loop
    then show ?thesis using nxt req close env assms(2) by (auto simp: svc_loop_def split: if_splits)
  next
    case Svc_Down
    then show ?thesis using nxt down [of "si_auth inp"] by auto
  next
    case Svc_Retry
    then show ?thesis using nxt req assms(2) by (auto simp: svc_retry_def Let_def split: if_splits)
  qed (use nxt req assms(2) in \<open>auto simp: svc_top_def svc_check_def svc_suspended_def Let_def\<close>)
qed

lemma app_call_closing: "app_call lib w w' \<Longrightarrow> closing w \<Longrightarrow> closing w'"
proof (erule app_callE)
  show "closing w \<Longrightarrow> w' = snd (rt_channel_get name w) \<Longrightarrow> closing w'" for name
    by (simp add: rt_channel_get_def closing_def split: option.split)
  show "w' = rt_close_request w \<Longrightarrow> closing w'"
    by (simp add: rt_close_request_def closing_def set_client_def)
qed (auto simp: rt_client_set_conn_state_cb_def chan_safe_api)

text \<open>A run of the service thread interleaved with calls; the number counts the pieces of the thread.\<close>

inductive closing_run :: "codec_lib \<Rightarrow> cb_script \<Rightarrow> nat \<Rightarrow> svc_pc \<times> rt_world \<Rightarrow> svc_pc \<times> rt_world \<Rightarrow> bool"
  for lib script
where
  run_nil: "closing_run lib script 0 s s"
| run_svc: "closing_run lib script n s s1 \<Longrightarrow> svc_step lib script s1 s2 \<Longrightarrow> closing_run lib script (Suc n) s s2"
| run_call: "closing_run lib script n s (pc, w) \<Longrightarrow> app_call lib w w' \<Longrightarrow> closing_run lib script n s (pc, w')"

lemma closing_run_rank:
  "closing_run lib script n s s' \<Longrightarrow> closing (snd s) \<Longrightarrow> closing (snd s') \<and> n + svc_rank (fst s') \<le> svc_rank (fst s)"
proof (induction rule: closing_run.induct)
  case (run_svc n s s1 s2)
  then show ?case using svc_step_closing [of lib script "fst s1" "snd s1" "fst s2" "snd s2"] by simp
next
  case (run_call n s pc w w')
  then show ?case using app_call_closing by simp
qed simp

lemma svc_progress: "pc \<noteq> Svc_Idle \<Longrightarrow> pc \<noteq> Svc_Exit \<Longrightarrow> \<exists>s'. svc_step lib script (pc, w) s'"
proof -
  assume pc: "pc \<noteq> Svc_Idle" "pc \<noteq> Svc_Exit"
  let ?inp = "\<lparr>si_env = scripted lib script None 0,
    si_conn = \<lparr>ce_tcp = Tcp_No_Host, ce_setup = True, ce_handshake = [], ce_random = [], ce_write = [], ce_read = [],
      ce_wslay = True\<rparr>, si_recv = Recv_Nothing, si_close = [], si_auth = (ABLY_OK, []), si_random = 0\<rparr>"
  obtain s' where "svc_next ?inp (pc, w) = Some s'"
    using pc by (cases pc) (simp_all add: svc_connect_def ws_connect_def Let_def)
  then have "svc_step lib script (pc, w) s'" by (intro svc_piece [of ?inp lib script None 0]) simp_all
  then show ?thesis ..
qed

text \<open>C7. After a request to close, the service thread ends: whatever the network answers and however
  calls of the application interleave, it performs at most six more pieces, it is never stuck before its
  end, and no call except a new \<^verbatim>\<open>connect\<close> can take the request back.\<close>

theorem close_request_ends_thread:
  assumes "closing_run lib script n (pc, rt_close_request w) (pc', w')"
  shows "n \<le> 6 \<and> rt_close_requested (rw_client w') \<and>
    (pc' = Svc_Idle \<or> pc' = Svc_Exit \<or> (\<exists>s. svc_step lib script (pc', w') s))"
proof -
  have "closing (rt_close_request w)" by (simp add: rt_close_request_def closing_def set_client_def)
  with closing_run_rank [OF assms] have "closing w'" "n \<le> svc_rank pc" by simp_all
  moreover have "svc_rank pc \<le> 6" by (cases pc) simp_all
  ultimately show ?thesis using svc_progress [of pc'] by (auto simp: closing_def)
qed

lemma close_request_ends_thread_witness:
  "\<exists>w'. closing_run no_lib (\<lambda>cb m. []) 1 (Svc_Top, rt_close_request demo_world) (Svc_Exit, w') \<and>
     rt_close_requested (rw_client w') \<and> rc_state (rw_client w') = CONN_CLOSED"
proof -
  let ?w = "rt_close_request demo_world"
  let ?inp = "\<lparr>si_env = scripted no_lib (\<lambda>cb m. []) None 0,
    si_conn = \<lparr>ce_tcp = Tcp_No_Host, ce_setup = True, ce_handshake = [], ce_random = [], ce_write = [], ce_read = [],
      ce_wslay = True\<rparr>, si_recv = Recv_Nothing, si_close = [], si_auth = (ABLY_OK, []), si_random = 0\<rparr>"
  have req: "rt_close_requested (rw_client ?w)" by (simp add: rt_close_request_def set_client_def)
  then have "svc_step no_lib (\<lambda>cb m. []) (Svc_Top, ?w) (Svc_Exit, rt_set_state_locked CONN_CLOSED ABLY_OK ?w)"
    by (intro svc_piece [of ?inp _ _ None 0]) (simp_all add: svc_top_def)
  from run_svc [OF run_nil this]
  have run: "closing_run no_lib (\<lambda>cb m. []) 1 (Svc_Top, ?w) (Svc_Exit, rt_set_state_locked CONN_CLOSED ABLY_OK ?w)"
    by simp
  from close_request_ends_thread [OF this] run show ?thesis
    by (intro exI [of _ "rt_set_state_locked CONN_CLOSED ABLY_OK ?w"]) (simp add: rt_set_state_locked_def Let_def)
qed

text \<open>A thread can end without the state CLOSED: when the connection is lost and the close request
  arrives before the event loop looks again, the thread leaves with the state it had (CONNECTED, say).
  Nobody changes the state afterwards, so \<^verbatim>\<open>ably_rt_client_close\<close> waits until its timeout and reports
  \<^verbatim>\<open>ABLY_ERR_TIMEOUT\<close>, however often it is woken before.\<close>

theorem close_while_disconnected_times_out:
  assumes "\<not> ws_is_connected (ww_ws w)" "rt_close_requested (rw_client w)"
    and "rc_state (rw_client w) = s" "s \<noteq> CONN_CLOSED" "s \<noteq> CONN_FAILED"
  shows "svc_next inp (Svc_Loop, w) = Some (Svc_Check, w) \<and> svc_next inp (Svc_Check, w) = Some (Svc_Exit, w) \<and>
    rt_close_wait s (replicate n (False, s) @ [(True, s)]) = Some ABLY_ERR_TIMEOUT"
proof -
  have "rt_close_wait s (replicate n (False, s) @ [(True, s)]) = Some ABLY_ERR_TIMEOUT"
    using assms(4,5) by (induction n) simp_all
  then show ?thesis using assms by (simp add: svc_loop_def svc_check_def)
qed

lemma close_while_disconnected_times_out_witness:
  "rt_close_wait CONN_CONNECTED [(False, CONN_CONNECTED), (True, CONN_CONNECTED)] = Some ABLY_ERR_TIMEOUT"
proof -
  define w where "w = rt_close_request (rt_set_state_locked CONN_CONNECTED ABLY_OK demo_world)"
  have "\<not> ws_is_connected (ww_ws w)"
    by (simp add: w_def rt_close_request_def set_client_def rt_set_state_locked_def Let_def demo_world_def
        rt_client_create_def ws_client_create_def ws_is_connected_def)
  moreover have "rt_close_requested (rw_client w)" "rc_state (rw_client w) = CONN_CONNECTED"
    by (simp_all add: w_def rt_close_request_def set_client_def rt_set_state_locked_def Let_def)
  ultimately show ?thesis
    using close_while_disconnected_times_out [of w CONN_CONNECTED "undefined" 1] by simp
qed

text \<open>A fatal error does not last: the handler sets FAILED and requests a close; the next round of
  the event loop performs that close and overwrites FAILED with CLOSED, whatever the peer answers.\<close>

theorem fatal_error_ends_closed:
  assumes "pf_action frame = ACTION_ERROR" "40000 \<le> pf_error_code frame" "pf_error_code frame < 50000"
    and "\<not> token_error frame (rw_client w)" "ws_is_connected (ww_ws w)"
  shows "rc_state (rw_client (rt_dispatch_frame env frame w)) = CONN_FAILED \<and>
    (\<exists>w'. svc_loop env r rs (rt_dispatch_frame env frame w) = (Svc_Check, w') \<and>
       rc_state (rw_client w') = CONN_CLOSED)"
proof -
  let ?w1 = "rt_dispatch_frame env frame w"
  have 1: "rc_state (rw_client ?w1) = CONN_FAILED" "rt_close_requested (rw_client ?w1)" "ww_ws ?w1 = ww_ws w"
    using assms(1-4) by (simp_all add: rt_dispatch_frame_def rt_on_error_def Let_def set_client_def rt_set_state_locked_def)
  have "rc_state (rw_client (svc_close env rs v)) = CONN_CLOSED" for v
    by (simp add: svc_close_def Let_def rt_set_state_locked_def)
  then show ?thesis using 1 assms(5) by (simp add: svc_loop_def)
qed

definition demo_connected :: rt_world where
  "demo_connected = set_ws (\<lambda>ws. ws\<lparr>ws_connected := True\<rparr>)
     (rt_set_state_locked CONN_CONNECTED ABLY_OK demo_world)"

lemma demo_connected_simps:
  "ws_is_connected (ww_ws demo_connected)" "rc_state (rw_client demo_connected) = CONN_CONNECTED"
  "\<not> ro_auth_cb (rt_opts (rw_client demo_connected))" "\<not> rt_close_requested (rw_client demo_connected)"
  "\<not> ws_close_sent (ww_ws demo_connected)" "ww_sends demo_connected = []" "ww_sent demo_connected = []"
  by (simp_all add: demo_connected_def set_ws_def rt_set_state_locked_def Let_def demo_world_def
      rt_client_create_def ws_client_create_def ws_is_connected_def rt_options_init_def)

lemma fatal_error_ends_closed_witness:
  "\<exists>w'. svc_loop (scripted no_lib (\<lambda>cb m. []) None 0) Recv_Nothing []
       (rt_dispatch_frame (scripted no_lib (\<lambda>cb m. []) None 0)
         ((blank_frame ACTION_ERROR)\<lparr>pf_error_code := 40005\<rparr>) demo_connected) = (Svc_Check, w') \<and>
     rc_state (rw_client w') = CONN_CLOSED"
  using fatal_error_ends_closed [of "(blank_frame ACTION_ERROR)\<lparr>pf_error_code := 40005\<rparr>" demo_connected
      "scripted no_lib (\<lambda>cb m. []) None 0" Recv_Nothing "[]"] demo_connected_simps
  by (simp add: blank_frame_def token_error_def)

section \<open>Sending\<close>

text \<open>What the frames of one round may do to the traffic: frames are added behind those that wait, and replies to
  heartbeats, all equal to \<open>beat\<close>, to what was sent; no closing handshake starts.\<close>

definition beat :: "codec_lib \<Rightarrow> ably_encoding \<Rightarrow> string" where
  "beat lib enc = proto_encode_heartbeat lib 32 enc"

definition sending :: "codec_lib \<Rightarrow> ably_encoding \<Rightarrow> string list \<Rightarrow> string list \<Rightarrow> rt_world \<Rightarrow> bool" where
  "sending lib enc base sent w \<longleftrightarrow> rt_inv w \<and> rc_encoding (rw_client w) = enc \<and>
     (\<exists>ps. rc_pending_frames (rw_client w) = base @ ps) \<and>
     (\<exists>k. ww_sent w = sent @ replicate k (beat lib enc)) \<and> ww_sends w = [] \<and> \<not> ws_close_sent (ww_ws w)"

interpretation sending: ws_still "sending lib enc base sent"
proof
  show "sending lib enc base sent w \<Longrightarrow> ws_quiet (ww_ws w) ws \<Longrightarrow> sending lib enc base sent (w\<lparr>ww_ws := ws\<rparr>)" for w ws
    using inv.still_law [of w ws] by (auto simp: sending_def ws_quiet_def)
qed

interpretation sending: rt_local "sending lib enc base sent"
proof
  show "sending lib enc base sent w \<Longrightarrow> sending lib enc base sent (rt_set_state_locked s r w)" for w s r
    using rt_inv_state [of w s r] by (simp add: sending_def rt_set_state_locked_def Let_def rc_pending_frames_def)
  show "sending lib enc base sent (on_channel i f w)"
    if "chan_safe f" "sending lib enc base sent w" "i < length (rw_channels w)" for f w i
    using that on_channel_safe [of f w i] on_channel_grown [of f w i]
      core_kept_client(6) [OF on_channel_kept(1) [OF that(1), where w = w and i = i]] by (auto simp: sending_def)
  show "sending lib enc base sent w \<Longrightarrow> client_step (rw_client w) (f (rw_client w)) \<Longrightarrow> sending lib enc base sent (set_client f w)"
    for w f
    using inv.client_law [of w f]
    by (simp add: sending_def) (simp add: set_client_def client_step_def rc_pending_frames_def)
qed

lemma sending_beat:
  assumes "sending lib enc base sent w"
  shows "sending lib enc base sent (rt_on_heartbeat (scripted lib script rest now) w)"
proof -
  let ?w1 = "set_client (\<lambda>c. c\<lparr>rt_last_activity := now\<rparr>) w"
  have 1: "sending lib enc base sent ?w1" using assms
    by (rule sending.client_law) (simp add: client_step_def client_ok_def)
  then obtain k where k: "ww_sent ?w1 = sent @ replicate k (beat lib enc)" by (auto simp: sending_def)
  have "sending lib enc base sent (snd (ws_send_text (beat lib enc) ?w1))"
    using 1 k inv.send_law [of ?w1 "beat lib enc"]
    by (auto simp: sending_def ws_send_text_def replicate_append_same simp flip: replicate_Suc
        intro: exI [of _ "Suc k"])
  with 1 assms show ?thesis
    by (simp add: rt_on_heartbeat_def scripted_def beat_def Let_def sending_def [of lib enc base sent w])
qed

interpretation sending: ws_receives "sending lib enc base sent" "on_ws_frame (scripted lib script rest now)"
proof
  show "sending lib enc base sent w \<Longrightarrow> sending lib enc base sent (on_ws_frame (scripted lib script rest now) msg w)" for w msg
    using proto_decode_bounded sending_beat
    by (auto simp: on_ws_frame_def split: option.split intro: sending.dispatch_beat_law)
qed

lemma drain_sends:
  assumes w: "rt_inv w" "ws_is_connected (ww_ws w)" "ww_sends w = []" "\<not> ws_close_sent (ww_ws w)"
  shows "sending lib (rc_encoding (rw_client w)) (tl (rc_pending_frames (rw_client w)))
    (ww_sent w @ take 1 (rc_pending_frames (rw_client w))) (snd (rt_drain_ring w))"
proof -
  have inv: "core_inv (rw_client w)" using w(1) by (simp add: rt_inv_def)
  note d = rt_drain_one_spec [OF inv]
  have 1: "rt_inv (snd (rt_drain_ring w))" by (rule rt_drain_inv [OF w(1)])
  show ?thesis
  proof (cases "rc_pending_frames (rw_client w)")
    case Nil
    then have "snd (rt_drain_ring w) = w" using d(1) by (simp add: rt_drain_ring_def split: prod.splits)
    then show ?thesis using w Nil by (simp add: sending_def)
  next
    case (Cons p ps)
    obtain c where c: "rt_drain_one (rw_client w) = (Some p, c)" "rc_pending_frames c = ps"
      using d(1,2) Cons by (cases "rt_drain_one (rw_client w)") simp
    moreover from c(1) have "rc_encoding c = rc_encoding (rw_client w)" by (auto simp: rt_drain_one_def split: option.splits)
    ultimately show ?thesis
      using 1 w(2-4) Cons by (simp add: sending_def rt_drain_ring_def ws_send_text_def ws_is_connected_def)
  qed
qed

text \<open>Rounds of the event loop while the connection holds and nobody closes it, with calls of the
  application in between; the number counts the rounds.\<close>

inductive loop_run :: "codec_lib \<Rightarrow> cb_script \<Rightarrow> nat \<Rightarrow> svc_pc \<times> rt_world \<Rightarrow> svc_pc \<times> rt_world \<Rightarrow> bool"
  for lib script
where
  loop_nil: "loop_run lib script 0 s s"
| loop_round: "loop_run lib script n s (Svc_Loop, w) \<Longrightarrow> ws_is_connected (ww_ws w) \<Longrightarrow>
    \<not> rt_close_requested (rw_client w) \<Longrightarrow> svc_step lib script (Svc_Loop, w) s2 \<Longrightarrow>
    loop_run lib script (Suc n) s s2"
| loop_call: "loop_run lib script n s (pc, w) \<Longrightarrow> app_call lib w w' \<Longrightarrow> loop_run lib script n s (pc, w')"

lemma round_sends:
  assumes step: "svc_step lib script (Svc_Loop, w) (pc, w')" and op: "ws_is_connected (ww_ws w)"
    "\<not> rt_close_requested (rw_client w)" and w: "rt_inv w" "ww_sends w = []" "\<not> ws_close_sent (ww_ws w)"
  shows "sending lib (rc_encoding (rw_client w)) (tl (rc_pending_frames (rw_client w)))
    (ww_sent w @ take 1 (rc_pending_frames (rw_client w))) w'"
proof -
  obtain inp rest now where "si_env inp = scripted lib script rest now"
    and "svc_next inp (Svc_Loop, w) = Some (pc, w')"
    using step by (auto elim: svc_stepE)
  then have "w' = snd (ws_recv_once (on_ws_frame (scripted lib script rest now)) (si_recv inp) (snd (rt_drain_ring w)))"
    using op by (simp add: svc_loop_def Let_def split: if_splits)
  then show ?thesis using sending.recv_law [OF drain_sends [OF w(1) op(1) w(2,3)]] by simp
qed

text \<open>A call sends nothing itself.\<close>

lemma call_sends:
  assumes call: "app_call lib w w'" and w: "rt_inv w"
  shows "ww_sent w' = ww_sent w \<and> ww_sends w' = ww_sends w \<and> ww_ws w' = ww_ws w \<and>
    rc_encoding (rw_client w') = rc_encoding (rw_client w) \<and>
    (\<exists>ps. rc_pending_frames (rw_client w') = rc_pending_frames (rw_client w) @ ps)"
  using call
proof (cases rule: app_call.cases)
  case call_close
  then show ?thesis by (simp add: rt_close_request_def set_client_def rc_pending_frames_def)
next
  case (call_channel i op)
  then show ?thesis using on_channel_grown [OF chan_safe_api w, of i lib op]
      core_kept_client(6) [OF on_channel_kept(1) [OF chan_safe_api, where w = w and i = i]] by auto
next
  case (call_get name)
  then show ?thesis by (auto simp: rt_channel_get_def split: option.splits if_splits)
next
  case (call_conn_cb cb)
  then show ?thesis by (simp add: rt_client_set_conn_state_cb_def set_client_def rc_pending_frames_def)
qed

text \<open>An account of \<open>n\<close> rounds from a world \<open>w0\<close>: each round sends a list of at most one frame, taken from the ring,
  and then a number of replies to heartbeats. Round \<open>i\<close> sends the frame at place \<open>i\<close> of those that waited at first;
  what was taken and what waits in the end are what waited at first and what was put behind it.\<close>

definition rounds_account :: "codec_lib \<Rightarrow> nat \<Rightarrow> rt_world \<Rightarrow> rt_world \<Rightarrow> bool" where
  "rounds_account lib n w0 w \<longleftrightarrow>
     (\<exists>rounds more. length rounds = n \<and>
        ww_sent w = ww_sent w0 @
          concat (map (\<lambda>(fs, k). fs @ replicate k (beat lib (rc_encoding (rw_client w0)))) rounds) \<and>
        concat (map fst rounds) @ rc_pending_frames (rw_client w) = rc_pending_frames (rw_client w0) @ more \<and>
        (\<forall>(fs, k) \<in> set rounds. length fs \<le> 1) \<and>
        (\<forall>i < n. i < length (rc_pending_frames (rw_client w0)) \<longrightarrow>
           fst (rounds ! i) = [rc_pending_frames (rw_client w0) ! i]))"

lemma firsts_taken:
  assumes "length rounds = n" "\<forall>i < n. i < length P \<longrightarrow> fst (rounds ! i) = [P ! i]" "n \<le> length P"
  shows "concat (map fst rounds) = take n P"
proof -
  have "map fst rounds = map (\<lambda>p. [p]) (take n P)" by (rule nth_equalityI) (use assms in auto)
  then show ?thesis by (simp add: concat_map_singleton)
qed

lemma rounds_step:
  assumes acc: "rounds_account lib n w0 w"
    and sent: "ww_sent w' = ww_sent w @ take 1 (rc_pending_frames (rw_client w)) @ replicate k (beat lib (rc_encoding (rw_client w0)))"
    and ring: "rc_pending_frames (rw_client w') = tl (rc_pending_frames (rw_client w)) @ ps"
  shows "rounds_account lib (Suc n) w0 w'"
proof -
  let ?P = "rc_pending_frames (rw_client w0)" and ?R = "rc_pending_frames (rw_client w)"
    and ?b = "beat lib (rc_encoding (rw_client w0))"
  obtain rounds more where r: "length rounds = n"
    "ww_sent w = ww_sent w0 @ concat (map (\<lambda>(fs, k). fs @ replicate k ?b) rounds)"
    "concat (map fst rounds) @ ?R = ?P @ more" "\<forall>(fs, k) \<in> set rounds. length fs \<le> 1"
    "\<forall>i < n. i < length ?P \<longrightarrow> fst (rounds ! i) = [?P ! i]"
    using acc by (auto simp: rounds_account_def)
  let ?rounds = "rounds @ [(take 1 ?R, k)]"
  have split: "take 1 ?R @ tl ?R = ?R" by (cases ?R) simp_all
  have "concat (map fst ?rounds) @ rc_pending_frames (rw_client w') = ?P @ more @ ps"
    using r(3) split ring by (metis append.assoc append_Nil2 concat.simps concat_append list.simps(8,9) map_append fst_conv)
  moreover have "fst (?rounds ! n) = [?P ! n]" if "n < length ?P"
  proof -
    have "take n ?P @ ?R = ?P @ more" using r(3) firsts_taken [OF r(1,5)] that by simp
    then have "?R = drop n ?P @ more" by (metis append.assoc append_take_drop_id same_append_eq)
    then show ?thesis using that r(1) by (simp add: nth_append flip: Cons_nth_drop_Suc)
  qed
  then have "\<forall>i < Suc n. i < length ?P \<longrightarrow> fst (?rounds ! i) = [?P ! i]"
    using r(1,5) by (auto simp: nth_append less_Suc_eq)
  moreover have "ww_sent w' = ww_sent w0 @ concat (map (\<lambda>(fs, k). fs @ replicate k ?b) ?rounds)"
    using sent r(2) by simp
  ultimately show ?thesis
    unfolding rounds_account_def using r(1,4) by (intro exI [of _ ?rounds] exI [of _ "more @ ps"]) auto
qed

lemma loop_run_rounds:
  assumes "loop_run lib script n s s'" "rt_inv (snd s)" "ww_sends (snd s) = []" "\<not> ws_close_sent (ww_ws (snd s))"
  shows "rounds_account lib n (snd s) (snd s') \<and> rt_inv (snd s') \<and> ww_sends (snd s') = [] \<and> \<not> ws_close_sent (ww_ws (snd s')) \<and>
    rc_encoding (rw_client (snd s')) = rc_encoding (rw_client (snd s))"
  using assms
proof (induction rule: loop_run.induct)
  case (loop_nil s)
  then show ?case by (simp add: rounds_account_def)
next
  case (loop_round n s w s2)
  then have w: "rounds_account lib n (snd s) w" "rt_inv w" "ww_sends w = []" "\<not> ws_close_sent (ww_ws w)"
    "rc_encoding (rw_client w) = rc_encoding (rw_client (snd s))" by auto
  have "sending lib (rc_encoding (rw_client w)) (tl (rc_pending_frames (rw_client w)))
      (ww_sent w @ take 1 (rc_pending_frames (rw_client w))) (snd s2)"
    using round_sends [of lib script w "fst s2" "snd s2"] loop_round w by simp
  then show ?case using rounds_step [OF w(1), of "snd s2"] w(5) by (auto simp: sending_def)
next
  case (loop_call n s pc w w')
  then have w: "rounds_account lib n (snd s) w" "rt_inv w" by auto
  obtain ps where c: "ww_sent w' = ww_sent w" "rc_pending_frames (rw_client w') = rc_pending_frames (rw_client w) @ ps"
    using call_sends [OF loop_call.hyps(2) w(2)] by blast
  obtain rounds more where r: "length rounds = n"
    "ww_sent w = ww_sent (snd s) @ concat (map (\<lambda>(fs, k). fs @ replicate k (beat lib (rc_encoding (rw_client (snd s))))) rounds)"
    "concat (map fst rounds) @ rc_pending_frames (rw_client w) = rc_pending_frames (rw_client (snd s)) @ more"
    "\<forall>(fs, k) \<in> set rounds. length fs \<le> 1"
    "\<forall>i < n. i < length (rc_pending_frames (rw_client (snd s))) \<longrightarrow> fst (rounds ! i) = [rc_pending_frames (rw_client (snd s)) ! i]"
    using w(1) by (auto simp: rounds_account_def)
  have "concat (map fst rounds) @ rc_pending_frames (rw_client w') = rc_pending_frames (rw_client (snd s)) @ more @ ps"
    using r(3) c(2) by (metis append.assoc)
  then have "rounds_account lib n (snd s) w'"
    unfolding rounds_account_def c(1) using r(1,2,4,5) by blast
  then show ?case using call_sends [OF loop_call.hyps(2) w(2)] app_call_inv [OF loop_call.hyps(2) w(2)] loop_call by auto
qed

text \<open>Read off the account: the frame at place \<open>i\<close> is among those sent, if there were more than \<open>i\<close> rounds.\<close>

lemma rounds_sent:
  assumes "rounds_account lib n w0 w" "i < n" "i < length (rc_pending_frames (rw_client w0))"
  shows "\<exists>ss. ww_sent w = ww_sent w0 @ ss \<and> rc_pending_frames (rw_client w0) ! i \<in> set ss"
proof -
  obtain rounds where r: "length rounds = n" "fst (rounds ! i) = [rc_pending_frames (rw_client w0) ! i]"
    "ww_sent w = ww_sent w0 @ concat (map (\<lambda>(fs, k). fs @ replicate k (beat lib (rc_encoding (rw_client w0)))) rounds)"
    using assms by (auto simp: rounds_account_def)
  have "rounds ! i \<in> set rounds" using r(1) assms(2) by simp
  then have "rc_pending_frames (rw_client w0) ! i \<in>
      set (concat (map (\<lambda>(fs, k). fs @ replicate k (beat lib (rc_encoding (rw_client w0)))) rounds))"
    using r(2) by (simp add: case_prod_beta) (rule bexI [of _ "rounds ! i"], simp_all)
  with r(3) show ?thesis by blast
qed

text \<open>C13. Whatever waits in the outbound ring is sent, once and in order: as long as the connection holds, its sends
  succeed and nobody closes it, \<open>n\<close> rounds of the event loop send, round by round, at most one frame each, which
  they take from the ring, and replies to heartbeats, and nothing else; round \<open>i\<close> sends the frame that waited at
  place \<open>i\<close>; and what was taken and what waits afterwards are exactly the frames that waited at first and the ones
  put behind them, by received messages and calls of the application, in this order.\<close>

theorem queued_frames_are_sent:
  assumes "rt_inv w" "ww_sends w = []" "\<not> ws_close_sent (ww_ws w)"
    and "loop_run lib script n (Svc_Loop, w) (pc, w')"
  shows "\<exists>rounds more. length rounds = n \<and>
    ww_sent w' = ww_sent w @ concat (map (\<lambda>(fs, k).
      fs @ replicate k (proto_encode_heartbeat lib 32 (rc_encoding (rw_client w)))) rounds) \<and>
    concat (map fst rounds) @ rc_pending_frames (rw_client w') = rc_pending_frames (rw_client w) @ more \<and>
    (\<forall>r \<in> set rounds. length (fst r) \<le> 1) \<and>
    (\<forall>i < n. i < length (rc_pending_frames (rw_client w)) \<longrightarrow> fst (rounds ! i) = [rc_pending_frames (rw_client w) ! i])"
proof -
  have "rounds_account lib n w w'" using loop_run_rounds [OF assms(4)] assms(1-3) by simp
  then obtain rounds more where "length rounds = n"
    "ww_sent w' = ww_sent w @ concat (map (\<lambda>(fs, k). fs @ replicate k (beat lib (rc_encoding (rw_client w)))) rounds)"
    "concat (map fst rounds) @ rc_pending_frames (rw_client w') = rc_pending_frames (rw_client w) @ more"
    "\<forall>(fs, k) \<in> set rounds. length fs \<le> 1"
    "\<forall>i < n. i < length (rc_pending_frames (rw_client w)) \<longrightarrow> fst (rounds ! i) = [rc_pending_frames (rw_client w) ! i]"
    by (auto simp: rounds_account_def)
  then show ?thesis unfolding beat_def by (intro exI [of _ rounds] exI [of _ more]) auto
qed

definition demo_queued :: rt_world where
  "demo_queued = demo_connected\<lparr>rw_client := snd (rt_enqueue_frame ''frame'' (rw_client demo_connected))\<rparr>"

lemma demo_connected_inv: "rt_inv demo_connected"
proof -
  have "rt_inv (rt_set_state_locked CONN_CONNECTED ABLY_OK demo_world)" by (rule rt_inv_state [OF demo_world_inv])
  then show ?thesis unfolding demo_connected_def by (rule inv.set_ws_law) (simp add: ws_quiet_def)
qed

lemma demo_queued_pending: "rc_pending_frames (rw_client demo_queued) = [''frame'']"
proof -
  have inv: "core_inv (rw_client demo_connected)" using demo_connected_inv by (simp add: rt_inv_def)
  have "rc_pending_frames (rw_client demo_connected) = []"
    by (simp add: demo_connected_def set_ws_def rt_set_state_locked_def Let_def demo_world_def rt_client_create_def
        rc_pending_frames_def empty_ring_list)
  then show ?thesis using rt_enqueue_frame_spec(2) [OF inv, of "''frame''"] by (simp add: demo_queued_def)
qed

lemma demo_queued_inv: "rt_inv demo_queued"
proof -
  have "core_inv (snd (rt_enqueue_frame ''frame'' (rw_client demo_connected)))"
    using demo_connected_inv by (intro rt_enqueue_frame_inv) (simp add: rt_inv_def)
  moreover have "client_ok (snd (rt_enqueue_frame ''frame'' (rw_client demo_connected)))"
    using rt_inv_client_ok [OF demo_connected_inv] by (simp add: rt_enqueue_frame_def client_ok_def split: option.split)
  ultimately show ?thesis using demo_connected_inv by (simp add: demo_queued_def rt_inv_def)
qed

definition quiet_input :: svc_input where
  "quiet_input = \<lparr>si_env = scripted no_lib (\<lambda>cb m. []) None 0,
    si_conn = \<lparr>ce_tcp = Tcp_No_Host, ce_setup = True, ce_handshake = [], ce_random = [], ce_write = [], ce_read = [],
      ce_wslay = True\<rparr>, si_recv = Recv_Nothing, si_close = [], si_auth = (ABLY_OK, []), si_random = 0\<rparr>"

lemma queued_frames_are_sent_witness:
  "\<exists>pc w' k. loop_run no_lib (\<lambda>cb m. []) 1 (Svc_Loop, demo_queued) (pc, w') \<and>
     ww_sent w' = ww_sent demo_queued @ [''frame''] @
       replicate k (proto_encode_heartbeat no_lib 32 (rc_encoding (rw_client demo_queued)))"
proof -
  have s: "ws_is_connected (ww_ws demo_queued)" "\<not> rt_close_requested (rw_client demo_queued)"
    "ww_sends demo_queued = []" "\<not> ws_close_sent (ww_ws demo_queued)"
    using demo_connected_simps by (simp_all add: demo_queued_def rt_enqueue_frame_def split: option.split)
  obtain pc w' where n: "svc_next quiet_input (Svc_Loop, demo_queued) = Some (pc, w')"
    by (cases "svc_loop (si_env quiet_input) (si_recv quiet_input) (si_close quiet_input) demo_queued") simp
  have "svc_step no_lib (\<lambda>cb m. []) (Svc_Loop, demo_queued) (pc, w')"
    using n by (intro svc_piece [of quiet_input _ _ None 0]) (simp_all add: quiet_input_def)
  from loop_round [OF loop_nil s(1,2) this]
  have run: "loop_run no_lib (\<lambda>cb m. []) 1 (Svc_Loop, demo_queued) (pc, w')" by simp
  from queued_frames_are_sent [OF demo_queued_inv s(3,4) run]
  obtain rounds where r: "length rounds = 1" "fst (rounds ! 0) = [''frame'']"
    "ww_sent w' = ww_sent demo_queued @ concat (map (\<lambda>(fs, k).
      fs @ replicate k (proto_encode_heartbeat no_lib 32 (rc_encoding (rw_client demo_queued)))) rounds)"
    by (auto simp: demo_queued_pending)
  from r(1) obtain f k where "rounds = [(f, k)]" by (cases rounds) auto
  with r run show ?thesis by auto
qed

section \<open>Reconnecting\<close>

definition attach_frame :: "codec_lib \<Rightarrow> ably_encoding \<Rightarrow> channel \<Rightarrow> string" where
  "attach_frame lib enc ch =
     proto_encode_attach lib (ABLY_MAX_CHANNEL_NAME_LEN + 256) (ch_name ch) (channel_attach_params ch) enc"

definition reattaches :: "codec_lib \<Rightarrow> ably_encoding \<Rightarrow> channel \<Rightarrow> bool" where
  "reattaches lib enc ch \<longleftrightarrow> channel_needs_reattach ch \<and> attach_frame lib enc ch \<noteq> []"

definition reattached :: "codec_lib \<Rightarrow> ably_encoding \<Rightarrow> channel \<Rightarrow> channel" where
  "reattached lib enc ch =
     (if reattaches lib enc ch then ch\<lparr>ch_reattach_pending := False, ch_state := CHAN_ATTACHING\<rparr> else ch)"

lemma reattach_channel_spec:
  assumes "core_inv (cw_core cw)" "rc_encoding (cw_core cw) = enc"
  shows "cw_ch (rt_reattach_channel lib cw) = reattached lib enc (cw_ch cw)"
    and "rc_pending_frames (cw_core (rt_reattach_channel lib cw)) = (let P = rc_pending_frames (cw_core cw) in
      if reattaches lib enc (cw_ch cw) \<and> length P \<noteq> 255 then P @ [attach_frame lib enc (cw_ch cw)] else P)"
    and "core_inv (cw_core (rt_reattach_channel lib cw))" "rc_encoding (cw_core (rt_reattach_channel lib cw)) = enc"
  using assms rt_enqueue_frame_spec(2) [OF assms(1), of "attach_frame lib enc (cw_ch cw)"]
    rt_enqueue_frame_inv [OF assms(1), of "attach_frame lib enc (cw_ch cw)"]
    rt_enqueue_frame_frame(3) [of "attach_frame lib enc (cw_ch cw)" "cw_core cw"]
  by (auto simp: rt_reattach_channel_def reattached_def reattaches_def attach_frame_def Let_def
      channel_set_attaching_def set_state_locked_ch chan_enqueue_def case_prod_beta set_ch_def)

lemma pending_frames_bound: "core_inv c \<Longrightarrow> length (rc_pending_frames c) \<le> 255"
  using send_ring.contents_bound [of "rc_send_ring c"]
  by (simp add: core_inv_def rc_pending_frames_def ABLY_SEND_RING_CAPACITY_def)

lemma take_snoc_full:
  "length P \<le> m \<Longrightarrow> (let Q = P @ take (m - length P) xs in if length Q \<noteq> m then Q @ [x] else Q) =
     P @ take (m - length P) (xs @ [x])"
  by (cases "length xs < m - length P") (auto simp: Let_def)

lemma reattach_pending_spec:
  assumes inv: "core_inv (rw_client w)"
  defines "enc \<equiv> rc_encoding (rw_client w)" and "P \<equiv> rc_pending_frames (rw_client w)"
  shows "rw_channels (rt_reattach_pending_channels lib w) = map (reattached lib enc) (rw_channels w) \<and>
    rc_pending_frames (rw_client (rt_reattach_pending_channels lib w)) =
      P @ take (255 - length P) (map (attach_frame lib enc) (filter (reattaches lib enc) (rw_channels w)))"
proof -
  define cs where "cs = rw_channels w"
  define f where "f = rt_reattach_channel lib"
  have P: "length P \<le> 255" unfolding P_def by (rule pending_frames_bound [OF inv])
  have "k \<le> length cs \<Longrightarrow>
      (let v = fold (\<lambda>i. on_channel i f) [0..<k] w in
        rw_channels v = map (reattached lib enc) (take k cs) @ drop k cs \<and>
        rc_pending_frames (rw_client v) =
          P @ take (255 - length P) (map (attach_frame lib enc) (filter (reattaches lib enc) (take k cs))) \<and>
        core_inv (rw_client v) \<and> rc_encoding (rw_client v) = enc)" for k
  proof (induction k)
    case 0
    then show ?case by (simp add: cs_def P_def enc_def inv)
  next
    case (Suc k)
    define v where "v = fold (\<lambda>i. on_channel i f) [0..<k] w"
    let ?xs = "map (attach_frame lib enc) (filter (reattaches lib enc) (take k cs))"
    have v: "rw_channels v = map (reattached lib enc) (take k cs) @ drop k cs"
      "rc_pending_frames (rw_client v) = P @ take (255 - length P) ?xs" "core_inv (rw_client v)"
      "rc_encoding (rw_client v) = enc"
      using Suc by (simp_all add: v_def Let_def)
    have k: "k < length cs" "rw_channels v ! k = cs ! k"
      using Suc.prems v(1) by (simp_all add: nth_append)
    let ?cw = "\<lparr>cw_ch = cs ! k, cw_core = rw_client v, cw_events = []\<rparr>"
    note s = reattach_channel_spec [where cw = ?cw and enc = enc and lib = lib, simplified, OF v(3,4)]
    have d: "drop k cs = cs ! k # drop (Suc k) cs" using k(1) by (simp add: Cons_nth_drop_Suc)
    have t: "take (Suc k) cs = take k cs @ [cs ! k]" by (rule take_Suc_conv_app_nth [OF k(1)])
    have upd: "(map g (take k cs) @ cs ! k # ys)[k := z] = map g (take k cs) @ z # ys" for g :: "channel \<Rightarrow> channel" and ys z
      using k(1) by (simp add: list_update_append)
    have run: "rw_channels (on_channel k f v) = (rw_channels v)[k := cw_ch (rt_reattach_channel lib ?cw)]"
      "rw_client (on_channel k f v) = cw_core (rt_reattach_channel lib ?cw)"
      by (simp_all add: on_channel_def Let_def f_def k(2))
    have "fold (\<lambda>i. on_channel i f) [0..<Suc k] w = on_channel k f v" by (simp add: v_def)
    moreover have "rw_channels (on_channel k f v) = map (reattached lib enc) (take (Suc k) cs) @ drop (Suc k) cs"
      unfolding run(1) v(1) s(1) t d upd by simp
    moreover have "rc_pending_frames (rw_client (on_channel k f v)) =
        P @ take (255 - length P) (map (attach_frame lib enc) (filter (reattaches lib enc) (take (Suc k) cs)))"
      using take_snoc_full [OF P, of ?xs "attach_frame lib enc (cs ! k)"]
      unfolding run(2) s(2) v(2) t by (cases "reattaches lib enc (cs ! k)") (auto simp: Let_def split: if_splits)
    moreover have "core_inv (rw_client (on_channel k f v))" "rc_encoding (rw_client (on_channel k f v)) = enc"
      unfolding run(2) using s(3,4) by simp_all
    ultimately show ?case by (simp only: Let_def)
  qed
  from this [of "length cs"] show ?thesis
    by (simp add: rt_reattach_pending_channels_def on_channels_def cs_def f_def Let_def)
qed

text \<open>On CONNECTED, every channel that was attached or attaching when the connection was lost (and
  whose ATTACH frame can be encoded) is ATTACHING again, and the other channels are untouched; their
  ATTACH frames, with serial, rewind, delta and occupancy parameters, are queued in the order of the
  channels behind what waits, but only as many as the ring has room for: the result of the enqueue is
  ignored, so the remaining channels wait as ATTACHING for an answer to a frame that was never sent.\<close>

theorem reconnect_reattaches:
  assumes "rt_inv w"
  defines "enc \<equiv> rc_encoding (rw_client w)" and "P \<equiv> rc_pending_frames (rw_client w)"
  shows "rw_channels (rt_reattach_pending_channels lib w) = map (reattached lib enc) (rw_channels w) \<and>
    rc_pending_frames (rw_client (rt_reattach_pending_channels lib w)) =
      P @ take (255 - length P) (map (attach_frame lib enc) (filter (reattaches lib enc) (rw_channels w)))"
  using reattach_pending_spec [of w lib] assms by (simp add: rt_inv_def)

definition demo_lost :: rt_world where
  "demo_lost = demo_connected\<lparr>rw_channels := [(channel_create ''chat'')\<lparr>ch_reattach_pending := True\<rparr>]\<rparr>"

lemma reconnect_reattaches_witness:
  "rw_channels (rt_reattach_pending_channels no_lib demo_lost) =
     [(channel_create ''chat'')\<lparr>ch_reattach_pending := False, ch_state := CHAN_ATTACHING\<rparr>]"
proof -
  have "chan_inv ((channel_create ''chat'')\<lparr>ch_reattach_pending := True\<rparr>)"
    using chan_create_inv [of "''chat''"] by (simp add: chan_inv_def)
  then have inv: "rt_inv demo_lost" using demo_connected_inv by (simp add: rt_inv_def demo_lost_def ABLY_MAX_CHANNELS_def)
  have "rc_encoding (rw_client demo_lost) = ENCODING_JSON"
    by (simp add: demo_lost_def demo_connected_def set_ws_def rt_set_state_locked_def Let_def demo_world_def
        rt_client_create_def rt_options_init_def)
  moreover have "attach_frame no_lib ENCODING_JSON ((channel_create ''chat'')\<lparr>ch_reattach_pending := True\<rparr>) \<noteq> []"
    by code_simp
  ultimately show ?thesis
    using reconnect_reattaches [OF inv, of no_lib]
    by (simp add: demo_lost_def reattached_def reattaches_def channel_needs_reattach_def)
qed

text \<open>A connection attempt that fails, and the hosts it goes to.\<close>

definition attempt_fails :: "svc_input \<Rightarrow> bool" where
  "attempt_fails inp \<longleftrightarrow> (\<forall>w :: rt_world. \<exists>err. fst (ws_connect (si_conn inp) w) = Some err \<and> err \<noteq> ABLY_OK)"

fun svc_run :: "svc_input list \<Rightarrow> svc_pc \<times> rt_world \<Rightarrow> (svc_pc \<times> rt_world) option" where
  "svc_run [] s = Some s"
| "svc_run (inp # inps) s = (case svc_next inp s of None \<Rightarrow> None | Some s' \<Rightarrow> svc_run inps s')"

definition host_cycle :: "rt_client \<Rightarrow> string list" where
  "host_cycle c = ro_realtime_host (rt_opts c) # s_fallback_hosts"

text \<open>What stays during failing attempts.\<close>

definition hopeful :: "rt_client \<Rightarrow> nat \<Rightarrow> rt_world \<Rightarrow> bool" where
  "hopeful c0 k w \<longleftrightarrow> rt_opts (rw_client w) = rt_opts c0 \<and> rt_attempt (rw_client w) = rt_attempt c0 \<and>
     \<not> rt_close_requested (rw_client w) \<and> rt_host_idx (rw_client w) = k"

lemma hopeful_fields [simp]:
  "hopeful c0 k (rt_set_state_locked s r w) = hopeful c0 k w"
  "hopeful c0 k (set_ws g w) = hopeful c0 k w"
  "hopeful c0 k (set_client (\<lambda>c. c\<lparr>rt_last_activity := 0, rt_connection_id := [], rc_msg_serial := 0\<rparr>) w) = hopeful c0 k w"
  "hopeful c0 k (set_client (refresh_token auth) w) = hopeful c0 k w"
  "chan_safe f \<Longrightarrow> hopeful c0 k (on_channels f w) = hopeful c0 k w"
  using core_kept_client [OF on_channels_kept [of f w]]
  by (simp_all add: hopeful_def rt_set_state_locked_def set_ws_def set_client_def refresh_token_def Let_def)

interpretation hopeful: ws_local "hopeful c0 k"
  by unfold_locales (simp add: hopeful_def)

lemma failing_round:
  assumes w: "hopeful c0 k w" "k \<le> 5" and fails: "attempt_fails inp"
    and quick: "ro_max_attempts (rt_opts c0) \<le> 0 \<or> rt_attempt c0 < ro_max_attempts (rt_opts c0)"
  shows "\<exists>w1 w'. svc_next inp (Svc_Top, w) = Some (Svc_Connect, w1) \<and>
      ws_host (ww_ws w1) = c_copy ABLY_WS_HOST_MAX (host_cycle c0 ! k) \<and>
      svc_run [inp, inp, inp] (Svc_Top, w) = Some (if k < 5 then Svc_Top else Svc_Retry, w') \<and>
      hopeful c0 (if k < 5 then Suc k else 0) w'"
proof -
  let ?w1 = "prepare_connect (rt_set_state_locked CONN_CONNECTING ABLY_OK w)"
  have top: "svc_next inp (Svc_Top, w) = Some (Svc_Connect, ?w1)"
    using w(1) by (simp add: svc_top_def hopeful_def)
  have h1: "hopeful c0 k ?w1" using w(1) by (simp add: prepare_connect_def Let_def)
  have idx: "rt_host_idx (rw_client (rt_set_state_locked CONN_CONNECTING ABLY_OK w)) = k"
    "rt_opts (rw_client (rt_set_state_locked CONN_CONNECTING ABLY_OK w)) = rt_opts c0"
    using w(1) hopeful_fields(1) [of c0 k CONN_CONNECTING ABLY_OK w] unfolding hopeful_def by blast+
  have "host_to_use (rw_client (rt_set_state_locked CONN_CONNECTING ABLY_OK w)) = host_cycle c0 ! k"
    using idx w(2) by (cases k) (simp_all add: host_to_use_def host_cycle_def s_fallback_count_def s_fallback_hosts_def)
  then have host: "ws_host (ww_ws ?w1) = c_copy ABLY_WS_HOST_MAX (host_cycle c0 ! k)"
    by (simp add: prepare_connect_def Let_def set_ws_def set_client_def ws_client_set_host_def ws_client_set_path_def)
  obtain err w2 where c: "ws_connect (si_conn inp) ?w1 = (Some err, w2)" "err \<noteq> ABLY_OK"
    using fails unfolding attempt_fails_def by (metis prod.collapse)
  have h2: "hopeful c0 k w2" using hopeful.connect_law [OF h1, of "si_conn inp"] c(1) by simp
  define w3 where "w3 = set_client (refresh_token (si_auth inp))
    (on_channels channel_on_disconnect (rt_set_state_locked CONN_DISCONNECTED ABLY_ERR_NETWORK w2))"
  have h3: "hopeful c0 k w3" using h2 by (simp add: w3_def chan_safe_disconnect)
  then have down: "svc_down (si_auth inp) w2 = (if k < 5 then Svc_Top else Svc_Retry,
      set_client (\<lambda>c. c\<lparr>rt_host_idx := (if k < 5 then Suc k else 0)\<rparr>) w3)"
    using w(2) quick unfolding svc_down_def Let_def w3_def [symmetric]
    by (auto simp: hopeful_def s_fallback_count_def s_fallback_hosts_def)
  have "hopeful c0 j (set_client (\<lambda>c. c\<lparr>rt_host_idx := j\<rparr>) w3)" for j
    using h3 by (simp add: hopeful_def set_client_def)
  then show ?thesis using top host down c by (simp add: svc_connect_def)
qed

text \<open>C34. Failing connection attempts go round the hosts: starting from the primary host, the first
  failure leads straight to fallback a, then b, c, d and e, with no delay between them; the sixth failure
  leads back to the primary host and to the backoff.\<close>

theorem failing_attempts_visit_fallbacks:
  assumes "attempt_fails inp" "k \<le> 5" "rt_host_idx (rw_client w) = 0" "\<not> rt_close_requested (rw_client w)"
    and "ro_max_attempts (rt_opts (rw_client w)) \<le> 0 \<or>
      rt_attempt (rw_client w) < ro_max_attempts (rt_opts (rw_client w))"
  shows "\<exists>wk w1 w'. svc_run (replicate (3 * k) inp) (Svc_Top, w) = Some (Svc_Top, wk) \<and>
    svc_next inp (Svc_Top, wk) = Some (Svc_Connect, w1) \<and>
    ws_host (ww_ws w1) = c_copy ABLY_WS_HOST_MAX (host_cycle (rw_client w) ! k) \<and>
    svc_run (replicate 18 inp) (Svc_Top, w) = Some (Svc_Retry, w') \<and> rt_host_idx (rw_client w') = 0"
proof -
  let ?c = "rw_client w"
  have app: "svc_run (xs @ ys) s = (case svc_run xs s of None \<Rightarrow> None | Some s' \<Rightarrow> svc_run ys s')" for xs ys s
    by (induction xs arbitrary: s) (simp_all split: option.split)
  have three: "replicate (3 * Suc j) inp = replicate (3 * j) inp @ [inp, inp, inp]" for j
    by (simp only: mult_Suc_right add.commute [of 3] replicate_add) (simp add: numeral_3_eq_3)
  have run: "j \<le> 5 \<Longrightarrow> \<exists>v. svc_run (replicate (3 * j) inp) (Svc_Top, w) = Some (Svc_Top, v) \<and> hopeful ?c j v" for j
  proof (induction j)
    case 0
    then show ?case using assms(3,4) by (simp add: hopeful_def)
  next
    case (Suc j)
    then obtain v where v: "svc_run (replicate (3 * j) inp) (Svc_Top, w) = Some (Svc_Top, v)" "hopeful ?c j v" by auto
    then show ?case
      using failing_round [OF v(2) _ assms(1,5)] Suc.prems unfolding three app by auto
  qed
  obtain v5 where v5: "svc_run (replicate (3 * 5) inp) (Svc_Top, w) = Some (Svc_Top, v5)" "hopeful ?c 5 v5"
    using run [of 5] by auto
  have "replicate 18 inp = replicate (3 * 5) inp @ [inp, inp, inp]" using three [of 5] by simp
  then have last: "\<exists>w'. svc_run (replicate 18 inp) (Svc_Top, w) = Some (Svc_Retry, w') \<and> rt_host_idx (rw_client w') = 0"
    using failing_round [OF v5(2) _ assms(1,5)] v5(1) by (auto simp: app hopeful_def)
  obtain v where "svc_run (replicate (3 * k) inp) (Svc_Top, w) = Some (Svc_Top, v)" "hopeful ?c k v"
    using run [OF assms(2)] by blast
  with failing_round [OF this(2) assms(2,1,5)] last show ?thesis by blast
qed

lemma failing_attempts_visit_fallbacks_witness:
  "\<exists>wk w1. svc_run (replicate (3 * 2) quiet_input) (Svc_Top, demo_world) = Some (Svc_Top, wk) \<and>
     svc_next quiet_input (Svc_Top, wk) = Some (Svc_Connect, w1) \<and> ws_host (ww_ws w1) = ''b.ably-realtime.com''"
proof -
  have 1: "attempt_fails quiet_input" by (simp add: attempt_fails_def quiet_input_def ws_connect_def Let_def)
  have 2: "rt_host_idx (rw_client demo_world) = 0" "\<not> rt_close_requested (rw_client demo_world)"
    "ro_max_attempts (rt_opts (rw_client demo_world)) \<le> 0 \<or>
      rt_attempt (rw_client demo_world) < ro_max_attempts (rt_opts (rw_client demo_world))"
    by (simp_all add: demo_world_def rt_client_create_def Let_def rt_options_init_def)
  have "c_copy ABLY_WS_HOST_MAX (host_cycle (rw_client demo_world) ! 2) = ''b.ably-realtime.com''"
    by (simp add: host_cycle_def s_fallback_hosts_def ABLY_WS_HOST_MAX_def c_copy_id)
  then show ?thesis
    using failing_attempts_visit_fallbacks [OF 1 _ 2, of 2] by auto
qed

text \<open>The reconnection delay lies between 1 ms and the configured maximum, never decreases from one
  attempt to the next under equal jitter, and stops growing after attempt 4 (the comment in the source says
  3: there the delay is still five thirds of the initial one).\<close>

theorem backoff_delay_bounds:
  assumes "0 \<le> random" "random \<le> 1" "1 \<le> ro_initial_delay_ms opts" "1 \<le> ro_max_delay_ms opts"
    and "0 \<le> attempt" "attempt \<le> attempt2"
  shows "1 \<le> backoff_delay_ms opts attempt random \<and>
    backoff_delay_ms opts attempt random \<le> ro_max_delay_ms opts \<and>
    backoff_delay_ms opts attempt random \<le> max 1 (2 * ro_initial_delay_ms opts) \<and>
    backoff_delay_ms opts attempt random \<le> backoff_delay_ms opts attempt2 random \<and>
    (4 \<le> attempt \<longrightarrow> backoff_delay_ms opts attempt random = backoff_delay_ms opts 4 random) \<and>
    backoff_delay_ms rt_options_init 3 0 = 833"
proof -
  let ?b = "of_int (ro_initial_delay_ms opts) :: rat"
  define ramp where "ramp a = min (of_int (a + 2) / 3) (2 :: rat)" for a
  define raw where "raw a = trunc_rat (?b * ramp a * (1 - random / 5))" for a
  have d: "backoff_delay_ms opts a random = min (max 1 (raw a)) (ro_max_delay_ms opts)" for a
    by (simp add: backoff_delay_ms_def ramp_def raw_def Let_def)
  have j: "0 \<le> 1 - random / 5" "1 - random / 5 \<le> 1" using assms(1,2) by simp_all
  have b: "0 \<le> ?b" using assms(3) by simp
  have ramp: "0 \<le> a \<Longrightarrow> 0 \<le> ramp a" "ramp a \<le> 2" "a \<le> c \<Longrightarrow> ramp a \<le> ramp c" "4 \<le> a \<Longrightarrow> ramp a = 2" for a c
    by (auto simp: ramp_def min_def divide_right_mono)
  have pos: "0 \<le> a \<Longrightarrow> 0 \<le> ?b * ramp a * (1 - random / 5)" for a using ramp(1) b j by simp
  have raw_floor: "0 \<le> a \<Longrightarrow> raw a = \<lfloor>?b * ramp a * (1 - random / 5)\<rfloor>" for a
    using pos by (simp add: raw_def trunc_rat_def)
  have "?b * ramp attempt * (1 - random / 5) \<le> ?b * 2 * 1"
    using b j ramp(1) [OF assms(5)] ramp(2) by (intro mult_mono) auto
  then have "raw attempt \<le> 2 * ro_initial_delay_ms opts"
    unfolding raw_floor [OF assms(5)] by (simp add: floor_le_iff)
  moreover have "raw attempt \<le> raw attempt2"
  proof -
    have "?b * ramp attempt * (1 - random / 5) \<le> ?b * ramp attempt2 * (1 - random / 5)"
      using b j ramp(3) [OF assms(6)] by (intro mult_right_mono mult_left_mono) auto
    then show ?thesis using assms(5,6) by (simp add: raw_floor floor_mono)
  qed
  moreover have "4 \<le> attempt \<Longrightarrow> raw attempt = raw 4" using ramp(4) by (simp add: raw_def)
  moreover have "\<lfloor>2500 / 3 :: rat\<rfloor> = 833" by (rule floor_unique) simp_all
  then have "backoff_delay_ms rt_options_init 3 0 = 833"
    by (simp add: backoff_delay_ms_def rt_options_init_def trunc_rat_def Let_def)
  ultimately show ?thesis using assms(4) by (auto simp: d min_def max_def)
qed

lemma backoff_delay_bounds_witness: "backoff_delay_ms rt_options_init 2 (1 / 2) \<le> backoff_delay_ms rt_options_init 3 (1 / 2)"
  using backoff_delay_bounds [of "1 / 2" rt_options_init 2 3] by (simp add: rt_options_init_def)

end
