(* ===== verification/Ably_Http.thy ===== *)
theory Ably_Http
  imports Ably_Ws
begin

text \<open>
  \<^verbatim>\<open>src/http/http_client.c\<close>: one HTTP exchange per connection. mbedTLS is third-party: the results of
  its calls are lists consumed by the loops that repeat them; a loop whose list is used up is still
  waiting, which is the result \<open>None\<close>. The parser of response headers works on the received bytes.
\<close>

section \<open>Requests\<close>

definition ABLY_HTTP_REQUEST_BUF_SIZE :: nat where "ABLY_HTTP_REQUEST_BUF_SIZE = 64 * 1024"
definition ABLY_HTTP_RESPONSE_BUF_SIZE :: nat where "ABLY_HTTP_RESPONSE_BUF_SIZE = 64 * 1024"
definition ABLY_HTTP_HOST_MAX :: nat where "ABLY_HTTP_HOST_MAX = 256"
definition ABLY_HTTP_AUTH_HEADER_MAX :: nat where "ABLY_HTTP_AUTH_HEADER_MAX = 512"

record http_options =
  ho_host :: "string option"
  ho_port :: nat
  ho_timeout_ms :: int
  ho_tls_verify_peer :: bool
  ho_ca_cert_pem_path :: "string option"

record http_client =
  hc_host :: string
  hc_port_str :: string
  hc_timeout_ms :: int
  hc_tls_verify_peer :: bool
  hc_auth_header :: string
  hc_link_header :: string

definition http_last_link_header :: "http_client \<Rightarrow> string" where
  "http_last_link_header c = c_string (hc_link_header c)"

definition http_client_create :: "http_options \<Rightarrow> string \<Rightarrow> http_client" where
  "http_client_create opts auth_header =
     \<lparr>hc_host = c_copy ABLY_HTTP_HOST_MAX (case ho_host opts of None \<Rightarrow> ''rest.ably.io'' | Some h \<Rightarrow> h),
      hc_port_str = c_copy 8 (dec_of_nat (if ho_port opts = 0 then 443 else ho_port opts)),
      hc_timeout_ms = (if ho_timeout_ms opts > 0 then ho_timeout_ms opts else 10000),
      hc_tls_verify_peer = ho_tls_verify_peer opts,
      hc_auth_header = c_copy ABLY_HTTP_AUTH_HEADER_MAX auth_header, hc_link_header = []\<rparr>"

definition post_header :: "string \<Rightarrow> http_client \<Rightarrow> string \<Rightarrow> string option \<Rightarrow> nat \<Rightarrow> string" where
  "post_header request_method c path content_type body_len =
     request_method @ '' '' @ path @ '' HTTP/1.1'' @ crlf @ ''Host: '' @ hc_host c @ crlf @
     hc_auth_header c @ crlf @
     ''Content-Type: '' @ (case content_type of None \<Rightarrow> ''application/json'' | Some t \<Rightarrow> t) @ crlf @
     ''Content-Length: '' @ dec_of_nat body_len @ crlf @ ''Connection: close'' @ crlf @ crlf"

definition get_header :: "string \<Rightarrow> http_client \<Rightarrow> string \<Rightarrow> string" where
  "get_header request_method c path =
     request_method @ '' '' @ path @ '' HTTP/1.1'' @ crlf @ ''Host: '' @ hc_host c @ crlf @
     hc_auth_header c @ crlf @ ''Accept: application/json'' @ crlf @ ''Connection: close'' @ crlf @ crlf"

section \<open>The exchange\<close>

datatype http_hs = Hh_Done | Hh_Want | Hh_Fail
datatype http_write = Hw_Wrote nat | Hw_Want | Hw_Fail

text \<open>\<open>Hr_Fail\<close> is every other negative result, a TLS 1.3 session ticket among them.\<close>

datatype http_read = Hr_Bytes string | Hr_Want | Hr_Close | Hr_Fail

record http_env =
  he_tcp :: bool
  he_setup :: bool
  he_handshake :: "http_hs list"
  he_write :: "http_write list"
  he_read :: "http_read list"

fun http_handshake :: "http_hs list \<Rightarrow> bool option" where
  "http_handshake [] = None"
| "http_handshake (Hh_Done # rs) = Some True"
| "http_handshake (Hh_Want # rs) = http_handshake rs"
| "http_handshake (Hh_Fail # rs) = Some False"

text \<open>\<^verbatim>\<open>send_all\<close> with \<open>left\<close> bytes to go.\<close>

fun send_all :: "http_write list \<Rightarrow> nat \<Rightarrow> ably_error option" where
  "send_all rs 0 = Some ABLY_OK"
| "send_all [] (Suc left) = None"
| "send_all (Hw_Wrote n # rs) (Suc left) =
     (if n = 0 then Some ABLY_ERR_NETWORK else send_all rs (Suc left - n))"
| "send_all (Hw_Want # rs) (Suc left) = send_all rs (Suc left)"
| "send_all (Hw_Fail # rs) (Suc left) = Some ABLY_ERR_NETWORK"

text \<open>The read loop: until the peer closes, an error, or the buffer is full.\<close>

fun recv_all :: "http_read list \<Rightarrow> string \<Rightarrow> (ably_error \<times> string) option" where
  "recv_all [] buf = (if length buf < ABLY_HTTP_RESPONSE_BUF_SIZE - 1 then None else Some (ABLY_OK, buf))"
| "recv_all (r # rs) buf =
     (if \<not> length buf < ABLY_HTTP_RESPONSE_BUF_SIZE - 1 then Some (ABLY_OK, buf)
      else case r of
        Hr_Bytes s \<Rightarrow>
          let got = take (ABLY_HTTP_RESPONSE_BUF_SIZE - 1 - length buf) s
          in if got = [] then Some (ABLY_OK, buf) else recv_all rs (buf @ got)
      | Hr_Want \<Rightarrow> recv_all rs buf
      | Hr_Close \<Rightarrow> Some (ABLY_OK, buf)
      | Hr_Fail \<Rightarrow> Some (ABLY_ERR_NETWORK, buf))"

text \<open>From the connection to the received bytes.\<close>

definition http_exchange :: "http_env \<Rightarrow> string \<Rightarrow> (ably_error \<times> string) option" where
  "http_exchange env request =
     (if \<not> he_tcp env \<or> \<not> he_setup env then Some (ABLY_ERR_NETWORK, [])
      else case http_handshake (he_handshake env) of
        None \<Rightarrow> None
      | Some False \<Rightarrow> Some (ABLY_ERR_NETWORK, [])
      | Some True \<Rightarrow>
          (case send_all (he_write env) (length request) of
             None \<Rightarrow> None
           | Some err \<Rightarrow> if err \<noteq> ABLY_OK then Some (err, []) else recv_all (he_read env) []))"

section \<open>Response headers\<close>

text \<open>\<^verbatim>\<open>strtol\<close> and \<^verbatim>\<open>strtoul\<close> in base 10 on 64-bit integers.\<close>

definition c_digits :: "string \<Rightarrow> nat" where
  "c_digits s = foldl (\<lambda>n c. 10 * n + (of_char c - 48)) 0 (takeWhile (\<lambda>c. 48 \<le> (of_char c :: nat) \<and> of_char c \<le> (57 :: nat)) s)"

definition c_space :: "char \<Rightarrow> bool" where
  "c_space ch \<longleftrightarrow> (let c = of_char ch :: nat in c = 32 \<or> 9 \<le> c \<and> c \<le> 13)"

definition c_number :: "string \<Rightarrow> bool \<times> nat" where
  "c_number s =
     (case dropWhile c_space s of
        [] \<Rightarrow> (False, 0)
      | c # t \<Rightarrow> if c = CHR ''-'' then (True, c_digits t)
                 else if c = CHR ''+'' then (False, c_digits t) else (False, c_digits (c # t)))"

definition c_strtol :: "string \<Rightarrow> int" where
  "c_strtol s =
     (let (neg, n) = c_number s
      in if neg then max (- int n) (- (2 ^ 63)) else min (int n) (2 ^ 63 - 1))"

definition c_strtoul :: "string \<Rightarrow> nat" where
  "c_strtoul s =
     (let (neg, n) = c_number s
      in if n \<ge> 2 ^ 64 then 2 ^ 64 - 1 else if neg \<and> n \<noteq> 0 then 2 ^ 64 - n else n)"

definition c_lower :: "char \<Rightarrow> char" where
  "c_lower ch = (let c = of_char ch :: nat in if 65 \<le> c \<and> c \<le> 90 then char_of (c + 32) else ch)"

text \<open>The name is compared up to the length of the reference: a longer name with that prefix matches.\<close>

definition hdr_name_matches :: "string \<Rightarrow> string \<Rightarrow> bool" where
  "hdr_name_matches name ref \<longleftrightarrow> length ref \<le> length name \<and> map c_lower (take (length ref) name) = ref"

text \<open>One line: \<open>line\<close> without its CR, \<open>s\<close> the buffer from the start of the line on (the number of a
  Content-Length is read from there, not from the line).\<close>

definition header_line :: "string \<Rightarrow> string \<Rightarrow> nat \<Rightarrow> nat \<times> string \<Rightarrow> nat \<times> string" where
  "header_line line s link_out_len acc =
     (case find_char (CHR '':'') line of
        None \<Rightarrow> acc
      | Some k \<Rightarrow>
          let name = take k line;
              val = dropWhile (\<lambda>c. c = CHR '' '' \<or> c = CHR 0x09) (drop (k + 1) line)
          in if hdr_name_matches name ''content-length'' then (c_strtoul (c_string (drop (length line - length val) s)), snd acc)
             else if 0 < link_out_len \<and> hdr_name_matches name ''link'' then (fst acc, take (link_out_len - 1) val)
             else acc)"

text \<open>The walk over the header lines; \<open>left\<close> bytes of \<open>s\<close> belong to the headers.\<close>

function header_lines :: "nat \<Rightarrow> string \<Rightarrow> nat \<Rightarrow> nat \<times> string \<Rightarrow> nat \<times> string" where
  "header_lines left s link_out_len acc =
     (case find_char (CHR 0x0D) (take left s) of
        None \<Rightarrow> acc
      | Some k \<Rightarrow> header_lines (left - (k + 2)) (drop (k + 2) s) link_out_len
                    (header_line (take k s) s link_out_len acc))"
  by auto
termination
  by (relation "measure fst") (auto dest: find_char_Some)

text \<open>Offset of the body (\<open>None\<close> for -1), status, content length and link header.\<close>

record response_head =
  rh_body_offset :: "nat option"
  rh_status :: int
  rh_content_length :: nat
  rh_link :: string

definition parse_response_headers :: "string \<Rightarrow> nat \<Rightarrow> response_head" where
  "parse_response_headers buf link_out_len =
     (let none = \<lparr>rh_body_offset = None, rh_status = 0, rh_content_length = 0, rh_link = []\<rparr>
      in if length buf < 12 \<or> \<not> is_prefix ''HTTP/'' buf then none
         else case find_char (CHR '' '') (take 20 buf) of
           None \<Rightarrow> none
         | Some sp \<Rightarrow>
             let status = c_strtol (c_string (drop (sp + 1) buf))
             in case find_sub (crlf @ crlf) buf of
                  None \<Rightarrow> none\<lparr>rh_status := status\<rparr>
                | Some i \<Rightarrow>
                    let (content_length, link) = header_lines (i + 4) buf link_out_len (0, [])
                    in \<lparr>rh_body_offset = Some (i + 4), rh_status = status, rh_content_length = content_length,
                        rh_link = link\<rparr>)"

section \<open>The three calls\<close>

record http_reply =
  rp_error :: ably_error
  rp_status :: int
  rp_body :: "string option"

definition failed_reply :: "ably_error \<Rightarrow> http_reply" where
  "failed_reply err = \<lparr>rp_error = err, rp_status = 0, rp_body = None\<rparr>"

definition reply_body :: "string \<Rightarrow> nat \<Rightarrow> nat \<Rightarrow> string" where
  "reply_body response body_offset content_length =
     (let body = drop body_offset response
      in if 0 < content_length \<and> content_length < length body then take content_length body else body)"

text \<open>What GET and the generic call do with the received bytes; the link header is stored in the client.\<close>

definition http_finish :: "ably_error \<times> string \<Rightarrow> http_client \<Rightarrow> http_reply \<times> http_client" where
  "http_finish received c =
     (if fst received \<noteq> ABLY_OK then (failed_reply (fst received), c)
      else let h = parse_response_headers (snd received) 512; c1 = c\<lparr>hc_link_header := rh_link h\<rparr>
      in case rh_body_offset h of
           None \<Rightarrow> (\<lparr>rp_error = ABLY_ERR_PROTOCOL, rp_status = rh_status h, rp_body = None\<rparr>, c1)
         | Some off \<Rightarrow>
             (\<lparr>rp_error = ABLY_OK, rp_status = rh_status h,
               rp_body = Some (reply_body (snd received) off (rh_content_length h))\<rparr>, c1))"

definition http_post :: "http_env \<Rightarrow> string \<Rightarrow> string option \<Rightarrow> string \<Rightarrow> http_client \<Rightarrow> http_reply option" where
  "http_post env path content_type body c =
     (let hdr = post_header ''POST'' c path content_type (length body)
      in if length hdr \<ge> ABLY_HTTP_REQUEST_BUF_SIZE - length body then Some (failed_reply ABLY_ERR_NETWORK)
         else case http_exchange env (hdr @ body) of
           None \<Rightarrow> None
         | Some (err, response) \<Rightarrow>
             if err \<noteq> ABLY_OK then Some (failed_reply err)
             else let h = parse_response_headers response 0
                  in Some \<lparr>rp_error = (if rh_body_offset h = None then ABLY_ERR_PROTOCOL else ABLY_OK),
                       rp_status = rh_status h, rp_body = None\<rparr>)"

definition http_get :: "http_env \<Rightarrow> string \<Rightarrow> http_client \<Rightarrow> (http_reply \<times> http_client) option" where
  "http_get env path c =
     (let hdr = get_header ''GET'' c path
      in if length hdr \<ge> ABLY_HTTP_REQUEST_BUF_SIZE then Some (failed_reply ABLY_ERR_NETWORK, c)
         else case http_exchange env hdr of
           None \<Rightarrow> None
         | Some received \<Rightarrow> Some (http_finish received c))"

definition is_post :: "string \<Rightarrow> bool" where
  "is_post request_method \<longleftrightarrow> request_method \<noteq> [] \<and> (hd request_method = CHR ''P'' \<or> hd request_method = CHR ''p'')"

definition http_do ::
  "http_env \<Rightarrow> string \<Rightarrow> string \<Rightarrow> string option \<Rightarrow> string \<Rightarrow> http_client \<Rightarrow> (http_reply \<times> http_client) option" where
  "http_do env request_method path content_type body c =
     (let hdr = (if is_post request_method then post_header request_method c path content_type (length body)
                 else get_header request_method c path);
          sent = (if is_post request_method then hdr @ body else hdr)
      in if length hdr \<ge> ABLY_HTTP_REQUEST_BUF_SIZE \<or> length sent \<ge> ABLY_HTTP_REQUEST_BUF_SIZE
         then Some (failed_reply ABLY_ERR_NETWORK, c)
         else case http_exchange env sent of
           None \<Rightarrow> None
         | Some received \<Rightarrow> Some (http_finish received c))"

section \<open>Numbers and header lines\<close>

lemma digit_char_code: "d < 10 \<Longrightarrow> of_char (digit_char d) = 48 + d"
  by (simp add: digit_char_def of_char_of)

definition c_digit :: "char \<Rightarrow> bool" where
  "c_digit c \<longleftrightarrow> 48 \<le> (of_char c :: nat) \<and> of_char c \<le> (57 :: nat)"

lemma dec_of_nat_digits: "\<forall>c \<in> set (dec_of_nat n). c_digit c"
proof (induction n rule: dec_of_nat.induct)
  case (1 n)
  show ?case
  proof (cases "n < 10")
    case True
    then show ?thesis by (subst dec_of_nat.simps) (simp add: c_digit_def digit_char_code)
  next
    case False
    then show ?thesis using 1 by (subst dec_of_nat.simps) (auto simp: c_digit_def digit_char_code)
  qed
qed

lemma foldl_dec_of_nat: "foldl (\<lambda>n c. 10 * n + (of_char c - 48)) (0 :: nat) (dec_of_nat n) = n"
proof (induction n rule: dec_of_nat.induct)
  case (1 n)
  show ?case
  proof (cases "n < 10")
    case True
    then show ?thesis by (subst dec_of_nat.simps) (simp add: digit_char_code)
  next
    case False
    then show ?thesis using 1 by (subst dec_of_nat.simps) (simp add: digit_char_code)
  qed
qed

lemma takeWhile_stop: "(\<forall>x \<in> set xs. P x) \<Longrightarrow> ys = [] \<or> \<not> P (hd ys) \<Longrightarrow> takeWhile P (xs @ ys) = xs"
  by (cases ys) (auto simp: takeWhile_append)

lemma c_digits_dec: "t = [] \<or> \<not> c_digit (hd t) \<Longrightarrow> c_digits (dec_of_nat n @ t) = n"
  using takeWhile_stop [of "dec_of_nat n" c_digit t] dec_of_nat_digits [of n] foldl_dec_of_nat [of n]
  by (simp add: c_digits_def c_digit_def [abs_def])

lemma c_number_dec: "t = [] \<or> \<not> c_digit (hd t) \<Longrightarrow> c_number (dec_of_nat n @ t) = (False, n)"
proof -
  assume t: "t = [] \<or> \<not> c_digit (hd t)"
  obtain c d where d: "dec_of_nat n = c # d" by (cases "dec_of_nat n") auto
  then have c: "c_digit c" using dec_of_nat_digits [of n] by auto
  then have "\<not> c_space c" "c \<noteq> CHR ''-''" "c \<noteq> CHR ''+''" by (auto simp: c_digit_def c_space_def)
  then show ?thesis using c_digits_dec [OF t, of n] by (simp add: c_number_def d)
qed

lemma c_string_dec: "x \<noteq> CHR 0x00 \<Longrightarrow> c_string (dec_of_nat n @ x # t) = dec_of_nat n @ x # c_string t"
proof -
  have "\<forall>c \<in> set (dec_of_nat n). c \<noteq> CHR 0x00"
    using dec_of_nat_digits [of n] by (auto simp: c_digit_def)
  then show "x \<noteq> CHR 0x00 \<Longrightarrow> ?thesis" by (simp add: c_string_def takeWhile_append)
qed

lemma c_strtoul_dec:
  "n < 2 ^ 64 \<Longrightarrow> \<not> c_digit x \<Longrightarrow> x \<noteq> CHR 0x00 \<Longrightarrow> c_strtoul (c_string (dec_of_nat n @ x # t)) = n"
  by (simp add: c_strtoul_def c_string_dec c_number_dec)

lemma c_strtol_dec:
  "n < 2 ^ 63 \<Longrightarrow> \<not> c_digit x \<Longrightarrow> x \<noteq> CHR 0x00 \<Longrightarrow> c_strtol (c_string (dec_of_nat n @ x # t)) = int n"
proof -
  assume n: "n < 2 ^ 63" and x: "\<not> c_digit x" "x \<noteq> CHR 0x00"
  have "int n \<le> 2 ^ 63 - 1" using n by simp
  then show ?thesis using x by (simp add: c_strtol_def c_string_dec c_number_dec)
qed

lemma find_char_take: "k < n \<Longrightarrow> find_char c s = Some k \<Longrightarrow> find_char c (take n s) = Some k"
proof (induction s arbitrary: k n)
  case (Cons a s)
  then show ?case by (cases n) (auto split: if_splits)
qed simp

lemma find_char_first: "c \<notin> set a \<Longrightarrow> find_char c (a @ c # s) = Some (length a)"
  by (induction a) auto

text \<open>The text of a list of header lines, without the empty line that ends them.\<close>

definition lines_text :: "string list \<Rightarrow> string" where
  "lines_text ls = concat (map (\<lambda>l. l @ crlf) ls)"

lemma lines_text_simps [simp]: "lines_text [] = []" "lines_text (l # ls) = l @ crlf @ lines_text ls"
  by (simp_all add: lines_text_def)

declare header_lines.simps [simp del]

lemma header_lines_step:
  assumes "CHR 0x0D \<notin> set l" "length l < left"
  shows "header_lines left (l @ crlf @ s) n acc =
    header_lines (left - (length l + 2)) s n (header_line l (l @ crlf @ s) n acc)"
proof -
  have "find_char (CHR 0x0D) (take left (l @ crlf @ s)) = Some (length l)"
    using assms find_char_take [OF assms(2), of "CHR 0x0D" "l @ crlf @ s"]
      find_char_first [OF assms(1), of "CHR 0x0A # s"]
    by (simp add: crlf_def)
  then show ?thesis by (subst header_lines.simps) (simp add: crlf_def)
qed

lemma header_line_no_colon: "CHR '':'' \<notin> set l \<Longrightarrow> header_line l s n acc = acc"
  using find_char_None [of "CHR '':''" l] by (simp add: header_line_def)

lemma header_lines_end: "header_lines 2 (crlf @ s) n acc = acc"
proof -
  have "header_lines 2 ([] @ crlf @ s) n acc = header_lines 0 s n acc"
    by (subst header_lines_step) (simp_all add: header_line_no_colon)
  then show ?thesis by (simp add: header_lines.simps)
qed

text \<open>A line whose name is not Content-Length leaves the length alone.\<close>

definition other_line :: "string \<Rightarrow> bool" where
  "other_line l \<longleftrightarrow> CHR 0x0D \<notin> set l \<and> l \<noteq> [] \<and>
     (\<forall>k. find_char (CHR '':'') l = Some k \<longrightarrow> \<not> hdr_name_matches (take k l) ''content-length'')"

lemma other_line_keeps: "other_line l \<Longrightarrow> fst (header_line l s n acc) = fst acc"
  by (simp add: header_line_def other_line_def Let_def split: option.split)

lemma header_lines_others:
  "\<forall>l \<in> set ls. other_line l \<Longrightarrow>
   \<exists>lk. header_lines (length (lines_text ls) + m) (lines_text ls @ s) n acc = header_lines m s n (fst acc, lk)"
proof (induction ls arbitrary: acc)
  case Nil
  show ?case by (rule exI [of _ "snd acc"]) simp
next
  case (Cons l ls)
  have l: "other_line l" using Cons.prems by simp
  have "header_lines (length (lines_text (l # ls)) + m) (lines_text (l # ls) @ s) n acc =
      header_lines (length (lines_text ls) + m) (lines_text ls @ s) n (header_line l (l @ crlf @ lines_text ls @ s) n acc)"
    using l by (simp add: header_lines_step other_line_def crlf_def [THEN arg_cong [where f = length]])
  then show ?case
    using Cons.IH [of "header_line l (l @ crlf @ lines_text ls @ s) n acc"] Cons.prems other_line_keeps [OF l] by simp
qed

definition length_line :: "nat \<Rightarrow> string" where
  "length_line k = ''Content-Length: '' @ dec_of_nat k"

definition status_line :: "nat \<Rightarrow> string \<Rightarrow> string" where
  "status_line code reason = ''HTTP/1.1 '' @ dec_of_nat code @ '' '' @ reason"

lemma length_name: "hdr_name_matches ''Content-Length'' ''content-length''"
  by code_simp

lemma c_lower_H: "c_lower (CHR ''H'') = CHR ''h''"
  by code_simp

lemma length_crlf [simp]: "length crlf = 2"
  by (simp add: crlf_def)

lemma header_line_content_length:
  "k < 2 ^ 64 \<Longrightarrow> header_line (length_line k) (length_line k @ crlf @ s) n acc = (k, snd acc)"
proof -
  assume k: "k < 2 ^ 64"
  obtain c d where d: "dec_of_nat k = c # d" by (cases "dec_of_nat k") auto
  then have "c_digit c" using dec_of_nat_digits [of k] by auto
  then have c: "c \<noteq> CHR '' ''" "c \<noteq> CHR 0x09" by (auto simp: c_digit_def)
  have "c_strtoul (c_string (dec_of_nat k @ crlf @ s)) = k"
    using c_strtoul_dec [OF k, of "CHR 0x0D" "CHR 0x0A # s"] by (simp add: crlf_def c_digit_def)
  moreover have "find_char (CHR '':'') (length_line k) = Some 14" "take 14 (length_line k) = ''Content-Length''"
    "dropWhile (\<lambda>c. c = CHR '' '' \<or> c = CHR 0x09) (drop 15 (length_line k)) = dec_of_nat k"
    "length (length_line k) = 16 + length (dec_of_nat k)"
    "drop 16 (length_line k @ crlf @ s) = dec_of_nat k @ crlf @ s"
    using c by (simp_all add: length_line_def d)
  ultimately show ?thesis using length_name by (simp add: header_line_def del: drop_append)
qed

lemma is_prefix_cons_neq: "x \<noteq> y \<Longrightarrow> \<not> is_prefix (x # xs) (y # ys)"
  by simp

lemma find_sub_blank_line:
  "CHR 0x0D \<notin> set l \<Longrightarrow> find_sub (crlf @ crlf) (l @ crlf @ crlf @ s) = Some (length l)"
proof (induction l)
  case (Cons c l)
  then show ?case by (auto simp: crlf_def)
qed (simp add: crlf_def)

lemma find_sub_next_line:
  "CHR 0x0D \<notin> set l \<Longrightarrow> c \<noteq> CHR 0x0D \<Longrightarrow>
   find_sub (crlf @ crlf) (l @ crlf @ c # s) = map_option (\<lambda>i. i + (length l + 2)) (find_sub (crlf @ crlf) (c # s))"
proof (induction l)
  case Nil
  then show ?case
    by (cases "find_sub (crlf @ crlf) (c # s)") (simp_all add: crlf_def del: find_sub.simps(2), simp_all add: crlf_def)
next
  case (Cons a l)
  then show ?case by (auto simp: crlf_def option.map_comp comp_def)
qed

lemma find_sub_head:
  "ls \<noteq> [] \<Longrightarrow> \<forall>l \<in> set ls. CHR 0x0D \<notin> set l \<and> l \<noteq> [] \<Longrightarrow>
   find_sub (crlf @ crlf) (lines_text ls @ crlf @ s) = Some (length (lines_text ls) - 2)"
proof (induction ls)
  case (Cons l ls)
  show ?case
  proof (cases ls)
    case Nil
    then show ?thesis using Cons.prems find_sub_blank_line [of l s] by (simp add: crlf_def)
  next
    case (Cons l2 ls2)
    then obtain c d where c: "l2 = c # d" "c \<noteq> CHR 0x0D" using Cons.prems by (cases l2) auto
    have "lines_text ls @ crlf @ s = c # (d @ crlf @ lines_text ls2 @ crlf @ s)"
      using Cons c by simp
    then have "find_sub (crlf @ crlf) (lines_text (l # ls) @ crlf @ s) =
        map_option (\<lambda>i. i + (length l + 2)) (find_sub (crlf @ crlf) (lines_text ls @ crlf @ s))"
      using find_sub_next_line [of l c] c Cons.prems by simp
    then show ?thesis using Cons.IH Cons.prems Cons by (simp add: crlf_def)
  qed
qed simp

text \<open>A response with a status line, headers, among them the Content-Length, and what follows them.\<close>

definition response_lines :: "nat \<Rightarrow> string \<Rightarrow> string list \<Rightarrow> nat \<Rightarrow> string list \<Rightarrow> string list" where
  "response_lines code reason pre len post =
     status_line code reason # pre @ length_line len # post"

lemma no_cr_status: "CHR 0x0D \<notin> set reason \<Longrightarrow> CHR 0x0D \<notin> set (status_line code reason)"
  using dec_of_nat_digits [of code] by (auto simp: c_digit_def status_line_def)

lemma other_status_line: "CHR 0x0D \<notin> set reason \<Longrightarrow> other_line (status_line code reason)"
proof -
  have "\<not> hdr_name_matches (take k (CHR ''H'' # x)) ''content-length''" for k x
    by (cases k) (simp_all add: hdr_name_matches_def c_lower_H)
  moreover obtain x where "status_line code reason = CHR ''H'' # x" by (simp add: status_line_def)
  ultimately show "CHR 0x0D \<notin> set reason \<Longrightarrow> ?thesis"
    unfolding other_line_def by (metis list.distinct(1) no_cr_status)
qed

lemma parse_response:
  assumes code: "code < 2 ^ 63" and reason: "CHR 0x0D \<notin> set reason"
    and others: "\<forall>l \<in> set pre \<union> set post. other_line l" and len: "len < 2 ^ 64"
  defines "head \<equiv> lines_text (response_lines code reason pre len post)"
  shows "\<exists>lk. parse_response_headers (head @ crlf @ s) n =
    \<lparr>rh_body_offset = Some (length head + 2), rh_status = int code, rh_content_length = len, rh_link = lk\<rparr>"
proof -
  let ?st = "status_line code reason"
  let ?cl = "length_line len"
  have cl: "CHR 0x0D \<notin> set ?cl" using dec_of_nat_digits [of len] by (auto simp: c_digit_def length_line_def)
  have ls: "\<forall>l \<in> set (response_lines code reason pre len post). CHR 0x0D \<notin> set l \<and> l \<noteq> []"
    using others other_status_line [OF reason] cl
    unfolding response_lines_def other_line_def by (auto simp: length_line_def)
  have end': "find_sub (crlf @ crlf) (head @ crlf @ s) = Some (length head - 2)"
    unfolding head_def using ls by (intro find_sub_head) (simp_all add: response_lines_def)
  have h2: "2 \<le> length head" by (simp add: head_def response_lines_def crlf_def)
  let ?m = "length ?cl + 2 + (length (lines_text post) + 2)"
  let ?r = "?cl @ crlf @ lines_text post @ crlf @ s"
  have split: "head = lines_text (?st # pre) @ ?cl @ crlf @ lines_text post"
    by (simp add: head_def response_lines_def lines_text_def)
  have sizes: "length head + 2 = length (lines_text (?st # pre)) + ?m"
    "head @ crlf @ s = lines_text (?st # pre) @ ?r"
    by (simp_all add: split)
  have "\<forall>l \<in> set (?st # pre). other_line l" using others other_status_line [OF reason] by simp
  then obtain l1 where "header_lines (length head + 2) (head @ crlf @ s) n (0, []) = header_lines ?m ?r n (fst (0 :: nat, [] :: string), l1)"
    unfolding sizes using header_lines_others by blast
  then have "header_lines (length head + 2) (head @ crlf @ s) n (0, []) = header_lines ?m ?r n (0, l1)" by simp
  also have "\<dots> = header_lines (length (lines_text post) + 2) (lines_text post @ crlf @ s) n (len, l1)"
    using header_lines_step [OF cl, of "length ?cl + 2 + (length (lines_text post) + 2)"]
      header_line_content_length [OF len, of "lines_text post @ crlf @ s" n "(0, l1)"]
    by simp
  also obtain l2 where "\<dots> = header_lines 2 (crlf @ s) n (len, l2)"
    using header_lines_others [of post 2 "crlf @ s" n "(len, l1)"] others by auto
  finally have walk: "header_lines (length head + 2) (head @ crlf @ s) n (0, []) = (len, l2)"
    by (simp add: header_lines_end)
  obtain t where t: "head @ crlf @ s = ''HTTP/1.1 '' @ dec_of_nat code @ CHR '' '' # t"
    by (simp add: head_def response_lines_def status_line_def)
  have long: "12 \<le> length (head @ crlf @ s)"
    by (simp add: head_def response_lines_def length_line_def status_line_def)
  have sp: "find_char (CHR '' '') (take 20 (head @ crlf @ s)) = Some 8" by (simp add: t)
  have st: "c_strtol (c_string (drop 9 (head @ crlf @ s))) = int code"
    using c_strtol_dec [OF code, of "CHR '' ''" t] by (simp add: t c_digit_def)
  have pr: "is_prefix ''HTTP/'' (head @ crlf @ s)" by (simp add: t)
  show ?thesis
    using long sp st pr end' walk h2 unfolding parse_response_headers_def Let_def by simp
qed

section \<open>Receiving\<close>

fun read_bytes :: "http_read \<Rightarrow> string" where
  "read_bytes (Hr_Bytes s) = s"
| "read_bytes _ = []"

definition progress :: "http_read \<Rightarrow> bool" where
  "progress r \<longleftrightarrow> (case r of Hr_Bytes s \<Rightarrow> s \<noteq> [] | Hr_Want \<Rightarrow> True | _ \<Rightarrow> False)"

lemma recv_all_pieces:
  "\<forall>r \<in> set rs. progress r \<Longrightarrow> length (buf @ concat (map read_bytes rs)) < ABLY_HTTP_RESPONSE_BUF_SIZE - 1 \<Longrightarrow>
   recv_all (rs @ [Hr_Close]) buf = Some (ABLY_OK, buf @ concat (map read_bytes rs))"
proof (induction rs arbitrary: buf)
  case (Cons r rs)
  then show ?case by (cases r) (simp_all add: progress_def)
qed simp

lemma send_all_pieces:
  "sum_list ns = left \<Longrightarrow> \<forall>n \<in> set ns. 0 < n \<Longrightarrow> send_all (map Hw_Wrote ns) left = Some ABLY_OK"
proof (induction ns arbitrary: left)
  case (Cons n ns)
  then obtain m where "left = Suc m" by (cases left) auto
  moreover from this have "Suc m - n = sum_list ns" using Cons.prems by auto
  ultimately show ?case using Cons by simp
qed simp

section \<open>Properties\<close>

text \<open>A header whose name only starts like Content-Length is taken for it.\<close>

lemma longer_name_is_content_length: "hdr_name_matches ''Content-Length-Hint'' ''content-length''"
  by code_simp

text \<open>C31. A well-formed response that fits into the receive buffer, that is, head, body and whatever follows together
  are less than 64 KiB minus one, is delivered to the caller whatever pieces TLS hands it over in, and whatever
  partial writes the request took: the status, and as body the Content-Length bytes after the blank line, bytes that
  follow them ignored. The request fits into its buffer and the handshake succeeds. Other headers may stand on both
  sides of the length, if their lines hold no carriage return and do not begin with the name of the length header.\<close>

theorem http_get_any_chunking:
  assumes net: "he_tcp env" "he_setup env" "http_handshake (he_handshake env) = Some True"
    and fits: "length (get_header ''GET'' c path) < ABLY_HTTP_REQUEST_BUF_SIZE"
    and sent: "he_write env = map Hw_Wrote ns" "\<forall>n \<in> set ns. 0 < n" "sum_list ns = length (get_header ''GET'' c path)"
    and recv: "he_read env = rs @ [Hr_Close]" "\<forall>r \<in> set rs. progress r"
    and bytes: "concat (map read_bytes rs) =
      lines_text (response_lines code reason pre (length body) post) @ crlf @ body @ extra"
    and head: "code < 2 ^ 63" "CHR 0x0D \<notin> set reason" "\<forall>l \<in> set pre \<union> set post. other_line l"
    and size: "length (concat (map read_bytes rs)) < ABLY_HTTP_RESPONSE_BUF_SIZE - 1"
    and rest: "body \<noteq> [] \<or> extra = []"
  shows "\<exists>lk. http_get env path c =
    Some (\<lparr>rp_error = ABLY_OK, rp_status = int code, rp_body = Some body\<rparr>, c\<lparr>hc_link_header := lk\<rparr>)"
proof -
  let ?buf = "concat (map read_bytes rs)"
  have ex: "http_exchange env (get_header ''GET'' c path) = Some (ABLY_OK, ?buf)"
    using net sent send_all_pieces [OF sent(3,2)] recv recv_all_pieces [of rs "[]"] size
    by (simp add: http_exchange_def)
  have "length body < 2 ^ 64" using size bytes by (simp add: ABLY_HTTP_RESPONSE_BUF_SIZE_def)
  then obtain lk where h: "parse_response_headers ?buf 512 =
      \<lparr>rh_body_offset = Some (length (lines_text (response_lines code reason pre (length body) post)) + 2),
       rh_status = int code, rh_content_length = length body, rh_link = lk\<rparr>"
    using parse_response [OF head, of "length body" "body @ extra" 512] unfolding bytes by blast
  have "reply_body ?buf (length (lines_text (response_lines code reason pre (length body) post)) + 2) (length body) = body"
    using rest by (auto simp: reply_body_def bytes Let_def)
  then show ?thesis
    using ex h fits by (intro exI [of _ lk]) (simp add: http_get_def http_finish_def)
qed

definition demo_http :: http_client where
  "demo_http = http_client_create \<lparr>ho_host = Some ''h'', ho_port = 443, ho_timeout_ms = 0, ho_tls_verify_peer = True,
     ho_ca_cert_pem_path = None\<rparr> ''Authorization: Bearer t''"

definition demo_pieces :: "http_read list" where
  "demo_pieces = [Hr_Bytes (''HTTP/1.1 200 OK'' @ crlf @ ''Conn''), Hr_Want,
     Hr_Bytes (''ection: close'' @ crlf @ ''Content-Length: 4'' @ crlf), Hr_Bytes (crlf @ ''[7]x'' @ ''tail'')]"

lemma http_get_any_chunking_witness:
  "\<exists>lk. http_get \<lparr>he_tcp = True, he_setup = True, he_handshake = [Hh_Want, Hh_Done],
      he_write = map Hw_Wrote [1, length (get_header ''GET'' demo_http ''/time'') - 1], he_read = demo_pieces @ [Hr_Close]\<rparr>
      ''/time'' demo_http =
    Some (\<lparr>rp_error = ABLY_OK, rp_status = int 200, rp_body = Some ''[7]x''\<rparr>, demo_http\<lparr>hc_link_header := lk\<rparr>)"
proof (rule http_get_any_chunking [where ns = "[1, length (get_header ''GET'' demo_http ''/time'') - 1]" and rs = demo_pieces
      and reason = "''OK''" and pre = "[''Connection: close'']" and post = "[]" and extra = "''tail''"])
  have g: "length (get_header ''GET'' demo_http ''/time'') = 101" by code_simp
  then show "length (get_header ''GET'' demo_http ''/time'') < ABLY_HTTP_REQUEST_BUF_SIZE"
    by (simp add: ABLY_HTTP_REQUEST_BUF_SIZE_def)
  show "\<forall>n \<in> set [1, length (get_header ''GET'' demo_http ''/time'') - 1]. 0 < n"
    "sum_list [1, length (get_header ''GET'' demo_http ''/time'') - 1] = length (get_header ''GET'' demo_http ''/time'')"
    using g by simp_all
  have n: "dec_of_nat 200 = ''200''" "dec_of_nat (length ''[7]x'') = ''4''" by code_simp+
  show "concat (map read_bytes demo_pieces) =
      lines_text (response_lines 200 ''OK'' [''Connection: close''] (length ''[7]x'') []) @ crlf @ ''[7]x'' @ ''tail''"
    unfolding response_lines_def status_line_def length_line_def n by (simp add: demo_pieces_def)
  have "\<not> hdr_name_matches ''Connection'' ''content-length''" by code_simp
  then show "\<forall>l \<in> set [''Connection: close''] \<union> set []. other_line l" by (simp add: other_line_def)
qed (simp_all add: demo_pieces_def progress_def crlf_def ABLY_HTTP_RESPONSE_BUF_SIZE_def)

end
