(* ===== verification/Ably_Rest.thy ===== *)
theory Ably_Rest
  imports Ably_Http Ably_Channel
begin

text \<open>
  \<^verbatim>\<open>src/rest/rest_client.c\<close>: publishing, time, history, stats, channel status and list, presence, the
  generic request, batch publishing and token requests; and \<^verbatim>\<open>ably_channel_history\<close> of
  \<^verbatim>\<open>channel.c\<close>, which wraps the REST history call. cJSON and the HMAC of mbedTLS are parameters;
  allocation succeeds or fails by an argument. The contents of a page are values; the string pools that
  hold them in C are not modelled.

  A call is done, still waiting for the network, or has written out of bounds while it built its path.
\<close>

datatype 'a rest_run = Rest_Done 'a | Rest_Waiting | Rest_Out_Of_Bounds

section \<open>The client\<close>

record rest_options =
  so_rest_host :: "string option"
  so_port :: nat
  so_timeout_ms :: int
  so_tls_verify_peer :: bool
  so_encoding :: ably_encoding
  so_ca_cert_pem_path :: "string option"
  so_token :: "string option"

definition rest_options_init :: rest_options where
  "rest_options_init =
     \<lparr>so_rest_host = Some ''rest.ably.io'', so_port = 443, so_timeout_ms = 10000, so_tls_verify_peer = True,
      so_encoding = ENCODING_JSON, so_ca_cert_pem_path = None, so_token = None\<rparr>"

record rest_client =
  rs_http :: http_client
  rs_encoding :: ably_encoding
  rs_api_key :: string
  rs_last_status :: int

definition rest_auth_header :: "string \<Rightarrow> string option \<Rightarrow> string" where
  "rest_auth_header api_key token =
     (if c_nonempty token then ''Authorization: Bearer '' @ c_str token
      else ''Authorization: Basic '' @ ably_base64_encode (bytes_of api_key))"

definition rest_client_create :: "string option \<Rightarrow> rest_options option \<Rightarrow> rest_client option" where
  "rest_client_create api_key opts =
     (if \<not> c_nonempty api_key then None
      else let key = c_str api_key;
               o' = (case opts of None \<Rightarrow> rest_options_init | Some o' \<Rightarrow> o');
               auth_header = rest_auth_header key (so_token o')
           in if length auth_header \<ge> ABLY_HTTP_AUTH_HEADER_MAX then None
              else Some \<lparr>rs_http = http_client_create
                     \<lparr>ho_host = so_rest_host o', ho_port = so_port o', ho_timeout_ms = so_timeout_ms o',
                      ho_tls_verify_peer = so_tls_verify_peer o', ho_ca_cert_pem_path = so_ca_cert_pem_path o'\<rparr>
                     auth_header,
                   rs_encoding = so_encoding o', rs_api_key = c_copy ABLY_MAX_KEY_LEN key, rs_last_status = 0\<rparr>)"

definition rest_last_http_status :: "rest_client \<Rightarrow> int" where
  "rest_last_http_status c = rs_last_status c"

definition http_success :: "int \<Rightarrow> bool" where
  "http_success status \<longleftrightarrow> \<not> (status < 200 \<or> status \<ge> 300)"

text \<open>The three kinds of request, with the client updated. A path that overflowed its buffer has
  already done its damage.\<close>

definition rest_get :: "http_env \<Rightarrow> path_buf \<Rightarrow> rest_client \<Rightarrow> (http_reply \<times> rest_client) rest_run" where
  "rest_get env path c =
     (case path of
        Path_Overflow \<Rightarrow> Rest_Out_Of_Bounds
      | Path_Ok p n \<Rightarrow>
          (case http_get env p (rs_http c) of
             None \<Rightarrow> Rest_Waiting
           | Some (r, h) \<Rightarrow> Rest_Done (r, c\<lparr>rs_http := h, rs_last_status := rp_status r\<rparr>)))"

definition rest_post :: "http_env \<Rightarrow> string \<Rightarrow> string \<Rightarrow> rest_client \<Rightarrow> (http_reply \<times> rest_client) rest_run" where
  "rest_post env path body c =
     (case http_post env path (Some ''application/json'') body (rs_http c) of
        None \<Rightarrow> Rest_Waiting
      | Some r \<Rightarrow> Rest_Done (r, c\<lparr>rs_last_status := rp_status r\<rparr>))"

definition rest_do :: "http_env \<Rightarrow> string \<Rightarrow> string \<Rightarrow> string \<Rightarrow> rest_client \<Rightarrow> (http_reply \<times> rest_client) rest_run" where
  "rest_do env request_method path body c =
     (case http_do env request_method path (Some ''application/json'') body (rs_http c) of
        None \<Rightarrow> Rest_Waiting
      | Some (r, h) \<Rightarrow> Rest_Done (r, c\<lparr>rs_http := h, rs_last_status := rp_status r\<rparr>))"

fun rest_map :: "('a \<Rightarrow> 'b) \<Rightarrow> 'a rest_run \<Rightarrow> 'b rest_run" where
  "rest_map f (Rest_Done x) = Rest_Done (f x)"
| "rest_map f Rest_Waiting = Rest_Waiting"
| "rest_map f Rest_Out_Of_Bounds = Rest_Out_Of_Bounds"

text \<open>The test that follows every request: transport error, then status.\<close>

definition reply_error :: "http_reply \<Rightarrow> ably_error" where
  "reply_error r =
     (if rp_error r \<noteq> ABLY_OK then rp_error r
      else if http_success (rp_status r) then ABLY_OK else ABLY_ERR_HTTP)"

definition parse_body :: "codec_lib \<Rightarrow> http_reply \<Rightarrow> json option" where
  "parse_body lib r = (case rp_body r of None \<Rightarrow> None | Some body \<Rightarrow> lib_json_parse lib body)"

text \<open>The cursor of the last response, into a buffer of 256.\<close>

definition last_cursor :: "rest_client \<Rightarrow> string" where
  "last_cursor c = (let link = http_last_link_header (rs_http c) in if link = [] then [] else next_cursor 256 link)"

section \<open>Publishing\<close>

record rest_message =
  rm_name :: "string option"
  rm_data :: "string option"
  rm_id :: "string option"

definition rest_message_json :: "rest_message \<Rightarrow> json" where
  "rest_message_json m = JObj (json_opt ''id'' (rm_id m) @ json_opt ''name'' (rm_name m) @ json_opt ''data'' (rm_data m))"

definition build_single_json_body :: "codec_lib \<Rightarrow> rest_message \<Rightarrow> string" where
  "build_single_json_body lib m = emit_json (lib_json_print lib) ABLY_HTTP_REQUEST_BUF_SIZE (rest_message_json m)"

definition build_batch_json_body :: "codec_lib \<Rightarrow> rest_message list \<Rightarrow> string" where
  "build_batch_json_body lib ms =
     emit_json (lib_json_print lib) ABLY_HTTP_REQUEST_BUF_SIZE (JArr (map rest_message_json ms))"

definition messages_path :: "string \<Rightarrow> string" where
  "messages_path channel = c_copy 512 (''/channels/'' @ url_encode_channel 256 channel @ ''/messages'')"

definition rest_post_messages :: "http_env \<Rightarrow> string \<Rightarrow> string \<Rightarrow> rest_client \<Rightarrow> (ably_error \<times> rest_client) rest_run" where
  "rest_post_messages env channel body c =
     (if body = [] then Rest_Done (ABLY_ERR_INTERNAL, c)
      else rest_map (\<lambda>(r, c'). (reply_error r, c')) (rest_post env (messages_path channel) body c))"

definition rest_publish ::
  "codec_lib \<Rightarrow> http_env \<Rightarrow> string \<Rightarrow> string option \<Rightarrow> string option \<Rightarrow> rest_client \<Rightarrow> (ably_error \<times> rest_client) rest_run" where
  "rest_publish lib env channel name data c =
     rest_post_messages env channel (build_single_json_body lib \<lparr>rm_name = name, rm_data = data, rm_id = None\<rparr>) c"

definition rest_publish_with_id ::
  "codec_lib \<Rightarrow> http_env \<Rightarrow> string \<Rightarrow> string option \<Rightarrow> string option \<Rightarrow> string option \<Rightarrow> rest_client \<Rightarrow>
   (ably_error \<times> rest_client) rest_run" where
  "rest_publish_with_id lib env channel name data msg_id c =
     rest_post_messages env channel (build_single_json_body lib \<lparr>rm_name = name, rm_data = data, rm_id = msg_id\<rparr>) c"

definition rest_publish_batch ::
  "codec_lib \<Rightarrow> http_env \<Rightarrow> string \<Rightarrow> rest_message list \<Rightarrow> rest_client \<Rightarrow> (ably_error \<times> rest_client) rest_run" where
  "rest_publish_batch lib env channel messages c =
     rest_post_messages env channel (build_batch_json_body lib messages) c"

section \<open>Server time\<close>

definition rest_time :: "codec_lib \<Rightarrow> http_env \<Rightarrow> rest_client \<Rightarrow> (ably_error \<times> int \<times> rest_client) rest_run" where
  "rest_time lib env c =
     rest_map (\<lambda>(r, c').
       if reply_error r \<noteq> ABLY_OK then (reply_error r, 0, c')
       else case parse_body lib r of
         None \<Rightarrow> (ABLY_ERR_PROTOCOL, 0, c')
       | Some root' \<Rightarrow>
           let t = (case root' of JArr (JNum ts # _) \<Rightarrow> trunc_rat ts | _ \<Rightarrow> 0)
           in (if t \<noteq> 0 then ABLY_OK else ABLY_ERR_PROTOCOL, t, c'))
     (rest_get env (path_init 512 ''/time'') c)"

section \<open>History\<close>

definition query_param :: "string \<Rightarrow> string option \<Rightarrow> string list" where
  "query_param key value = (if c_nonempty value then [key @ ''='' @ c_str value] else [])"

definition limit_param :: "int \<Rightarrow> string list" where
  "limit_param limit = (if limit > 0 then [''limit='' @ dec_of_int limit] else [])"

definition history_path :: "string \<Rightarrow> int \<Rightarrow> string option \<Rightarrow> string option \<Rightarrow> path_buf" where
  "history_path channel limit direction from_serial =
     (if c_nonempty from_serial \<and> hd (c_str from_serial) = CHR ''/'' then path_init 1024 (c_str from_serial)
      else path_params 1024 (CHR ''?'')
             (limit_param limit @ query_param ''direction'' direction @ query_param ''fromSerial'' from_serial)
             (path_init 1024 (''/channels/'' @ url_encode_channel (ABLY_MAX_CHANNEL_NAME_LEN * 3) channel @ ''/messages'')))"

definition history_item :: "json \<Rightarrow> ably_message" where
  "history_item item =
     \<lparr>am_id = json_str item ''id'', am_name = json_str item ''name'', am_data = json_str item ''data'',
      am_client_id = json_str item ''clientId'', am_timestamp = json_int64 item ''timestamp'' 0\<rparr>"

definition rest_channel_history ::
  "codec_lib \<Rightarrow> http_env \<Rightarrow> bool \<Rightarrow> string \<Rightarrow> int \<Rightarrow> string option \<Rightarrow> string option \<Rightarrow> rest_client \<Rightarrow>
   (ably_error \<times> ably_history_page option \<times> rest_client) rest_run" where
  "rest_channel_history lib env mem_ok channel limit direction from_serial c =
     rest_map (\<lambda>(r, c').
       if reply_error r \<noteq> ABLY_OK then (reply_error r, None, c')
       else case parse_body lib r of
         Some (JArr items) \<Rightarrow>
           if \<not> mem_ok then (ABLY_ERR_NOMEM, None, c')
           else (ABLY_OK, Some \<lparr>hp_items = map history_item items, hp_next_cursor = last_cursor c'\<rparr>, c')
       | _ \<Rightarrow> (ABLY_ERR_PROTOCOL, None, c'))
     (rest_get env (history_path channel limit direction from_serial) c)"

text \<open>\<^verbatim>\<open>ably_channel_history\<close>: a client of its own for the call, with default options.\<close>

definition channel_history ::
  "codec_lib \<Rightarrow> http_env \<Rightarrow> bool \<Rightarrow> int \<Rightarrow> string option \<Rightarrow> string option \<Rightarrow> 'x rt_core_scheme chan_world \<Rightarrow>
   (ably_error \<times> ably_history_page option) rest_run" where
  "channel_history lib env mem_ok limit direction from_serial w =
     (case rest_client_create (Some (rc_api_key (cw_core w))) (Some (rest_options_init\<lparr>so_timeout_ms := 10000\<rparr>)) of
        None \<Rightarrow> Rest_Done (ABLY_ERR_NOMEM, None)
      | Some c \<Rightarrow>
          rest_map (\<lambda>(err, page, c'). (err, page))
            (rest_channel_history lib env mem_ok (ch_name (cw_ch w)) limit direction from_serial c))"

end
