(* ===== verification/Ably_Rest_Query.thy ===== *)
theory Ably_Rest_Query
  imports Ably_Rest
begin

text \<open>
  The rest of \<^verbatim>\<open>src/rest/rest_client.c\<close>: statistics, channel status and list, presence members, the
  generic request, batch publishing to several channels, and signed token requests.
\<close>

section \<open>Statistics\<close>

record stats_count =
  st_count :: rat
  st_data :: rat

record stats_message_types =
  smt_all :: stats_count
  smt_messages :: stats_count
  smt_presence :: stats_count

record stats_message_traffic =
  tr_all :: stats_message_types
  tr_realtime :: stats_message_types
  tr_rest :: stats_message_types
  tr_webhook :: stats_message_types
  tr_push :: stats_message_types
  tr_http_event :: stats_message_types
  tr_shared_queue :: stats_message_types

record stats_resource =
  sr_peak :: rat
  sr_min :: rat
  sr_opened :: rat
  sr_refused :: rat
  sr_closed :: rat

record stats_requests =
  sq_succeeded :: rat
  sq_failed :: rat
  sq_refused :: rat

record ably_stats =
  st_interval_id :: string
  st_unit :: string
  st_inbound :: stats_message_traffic
  st_outbound :: stats_message_traffic
  st_persisted :: stats_message_types
  st_connections :: stats_resource
  st_channels :: stats_resource
  st_api_requests :: stats_requests
  st_token_requests :: stats_requests

text \<open>\<^verbatim>\<open>json_num\<close>: also of a missing object.\<close>

definition json_num :: "json option \<Rightarrow> string \<Rightarrow> rat" where
  "json_num obj key =
     (case obj of None \<Rightarrow> 0
      | Some j \<Rightarrow> (case json_get j key of Some (JNum r) \<Rightarrow> r | _ \<Rightarrow> 0))"

definition parse_stats_count :: "json option \<Rightarrow> stats_count" where
  "parse_stats_count obj = \<lparr>st_count = json_num obj ''count'', st_data = json_num obj ''data''\<rparr>"

definition opt_get :: "json option \<Rightarrow> string \<Rightarrow> json option" where
  "opt_get obj key = Option.bind obj (\<lambda>j. json_get j key)"

definition parse_stats_message_types :: "json option \<Rightarrow> stats_message_types" where
  "parse_stats_message_types obj =
     \<lparr>smt_all = parse_stats_count (opt_get obj ''all''), smt_messages = parse_stats_count (opt_get obj ''messages''),
      smt_presence = parse_stats_count (opt_get obj ''presence'')\<rparr>"

definition parse_stats_message_traffic :: "json option \<Rightarrow> stats_message_traffic" where
  "parse_stats_message_traffic obj =
     \<lparr>tr_all = parse_stats_message_types (opt_get obj ''all''),
      tr_realtime = parse_stats_message_types (opt_get obj ''realtime''),
      tr_rest = parse_stats_message_types (opt_get obj ''rest''),
      tr_webhook = parse_stats_message_types (opt_get obj ''webhook''),
      tr_push = parse_stats_message_types (opt_get obj ''push''),
      tr_http_event = parse_stats_message_types (opt_get obj ''httpEvent''),
      tr_shared_queue = parse_stats_message_types (opt_get obj ''sharedQueue'')\<rparr>"

definition parse_stats_resource :: "json option \<Rightarrow> stats_resource" where
  "parse_stats_resource obj =
     \<lparr>sr_peak = json_num obj ''peak'', sr_min = json_num obj ''min'', sr_opened = json_num obj ''opened'',
      sr_refused = json_num obj ''refused'', sr_closed = json_num obj ''closed''\<rparr>"

definition parse_stats_requests :: "json option \<Rightarrow> stats_requests" where
  "parse_stats_requests obj =
     \<lparr>sq_succeeded = json_num obj ''succeeded'', sq_failed = json_num obj ''failed'',
      sq_refused = json_num obj ''refused''\<rparr>"

definition parse_stats_item :: "json \<Rightarrow> ably_stats" where
  "parse_stats_item obj =
     \<lparr>st_interval_id = c_copy 32 (c_str (json_str obj ''intervalId'')), st_unit = c_copy 16 (c_str (json_str obj ''unit'')),
      st_inbound = parse_stats_message_traffic (json_get obj ''inbound''),
      st_outbound = parse_stats_message_traffic (json_get obj ''outbound''),
      st_persisted = parse_stats_message_types (json_get obj ''persisted''),
      st_connections = parse_stats_resource (json_get obj ''connections''),
      st_channels = parse_stats_resource (json_get obj ''channels''),
      st_api_requests = parse_stats_requests (json_get obj ''apiRequests''),
      st_token_requests = parse_stats_requests (json_get obj ''tokenRequests'')\<rparr>"

definition time_param :: "string \<Rightarrow> int \<Rightarrow> string list" where
  "time_param key t = (if t > 0 then [key @ ''='' @ dec_of_int t] else [])"

definition stats_path :: "string option \<Rightarrow> int \<Rightarrow> int \<Rightarrow> string option \<Rightarrow> int \<Rightarrow> path_buf" where
  "stats_path stat_unit start_ms end_ms direction limit =
     path_params 512 (CHR ''?'')
       (query_param ''unit'' stat_unit @ time_param ''start'' start_ms @ time_param ''end'' end_ms @
        query_param ''direction'' direction @ limit_param limit)
       (path_init 512 ''/stats'')"

text \<open>A page of a query: its items and the cursor of the next page.\<close>

record 'a rest_page =
  pg_items :: "'a list"
  pg_next_cursor :: string

text \<open>What every query does with the reply: errors, the array that \<open>select\<close> finds in the body, the
  allocation of the page, its items.\<close>

definition page_of_reply ::
  "codec_lib \<Rightarrow> bool \<Rightarrow> (json \<Rightarrow> json list option) \<Rightarrow> (json \<Rightarrow> 'a) \<Rightarrow> http_reply \<times> rest_client \<Rightarrow>
   ably_error \<times> 'a rest_page option \<times> rest_client" where
  "page_of_reply lib mem_ok select item rc =
     (let (r, c) = rc
      in if reply_error r \<noteq> ABLY_OK then (reply_error r, None, c)
         else case Option.bind (parse_body lib r) select of
           None \<Rightarrow> (ABLY_ERR_PROTOCOL, None, c)
         | Some items \<Rightarrow>
             if \<not> mem_ok then (ABLY_ERR_NOMEM, None, c)
             else (ABLY_OK, Some \<lparr>pg_items = map item items, pg_next_cursor = last_cursor c\<rparr>, c))"

definition array_root :: "json \<Rightarrow> json list option" where
  "array_root j = (case j of JArr xs \<Rightarrow> Some xs | _ \<Rightarrow> None)"

definition rest_stats ::
  "codec_lib \<Rightarrow> http_env \<Rightarrow> bool \<Rightarrow> string option \<Rightarrow> int \<Rightarrow> int \<Rightarrow> string option \<Rightarrow> int \<Rightarrow> rest_client \<Rightarrow>
   (ably_error \<times> ably_stats rest_page option \<times> rest_client) rest_run" where
  "rest_stats lib env mem_ok stat_unit start_ms end_ms direction limit c =
     rest_map (page_of_reply lib mem_ok array_root parse_stats_item)
       (rest_get env (stats_path stat_unit start_ms end_ms direction limit) c)"

section \<open>Channel status and list\<close>

record channel_status =
  cs_name :: string
  cs_is_active :: bool
  cs_occupancy :: ably_occupancy

definition parse_channel_status :: "json \<Rightarrow> channel_status" where
  "parse_channel_status item =
     (let status = json_obj item ''status'';
          metrics = Option.bind (Option.bind status (\<lambda>s. json_obj s ''occupancy'')) (\<lambda>o'. json_obj o' ''metrics'')
      in \<lparr>cs_name = c_copy ABLY_MAX_CHANNEL_NAME_LEN (c_str (json_str item ''id'')),
          cs_is_active = (opt_get status ''isActive'' = Some (JBool True)),
          cs_occupancy = (case metrics of None \<Rightarrow> zero_occupancy | Some m \<Rightarrow> decode_occupancy_json m)\<rparr>)"

definition zero_channel_status :: channel_status where
  "zero_channel_status = \<lparr>cs_name = [], cs_is_active = False, cs_occupancy = zero_occupancy\<rparr>"

definition status_path :: "string \<Rightarrow> string" where
  "status_path channel =
     c_copy 512 (''/channels/'' @ url_encode_channel (ABLY_MAX_CHANNEL_NAME_LEN * 3) channel)"

definition rest_channel_status ::
  "codec_lib \<Rightarrow> http_env \<Rightarrow> string \<Rightarrow> rest_client \<Rightarrow> (ably_error \<times> channel_status \<times> rest_client) rest_run" where
  "rest_channel_status lib env channel c =
     rest_map (\<lambda>(r, c').
       if reply_error r \<noteq> ABLY_OK then (reply_error r, zero_channel_status, c')
       else case parse_body lib r of
         None \<Rightarrow> (ABLY_ERR_PROTOCOL, zero_channel_status, c')
       | Some root' \<Rightarrow> (ABLY_OK, parse_channel_status root', c'))
     (rest_get env (Path_Ok (status_path channel) (length (status_path channel))) c)"

definition channel_list_path :: "string option \<Rightarrow> int \<Rightarrow> path_buf" where
  "channel_list_path name_prefix limit =
     path_params 512 (CHR ''?'')
       ((if c_nonempty name_prefix then [''prefix='' @ url_encode_channel 512 (c_str name_prefix)] else []) @
        limit_param limit)
       (path_init 512 ''/channels'')"

text \<open>A bare array, or the array \<^verbatim>\<open>items\<close> of an object.\<close>

definition list_root :: "json \<Rightarrow> json list option" where
  "list_root j = (case j of JArr xs \<Rightarrow> Some xs | JObj kvs \<Rightarrow> json_arr j ''items'' | _ \<Rightarrow> None)"

definition rest_channel_list ::
  "codec_lib \<Rightarrow> http_env \<Rightarrow> bool \<Rightarrow> string option \<Rightarrow> int \<Rightarrow> rest_client \<Rightarrow>
   (ably_error \<times> channel_status rest_page option \<times> rest_client) rest_run" where
  "rest_channel_list lib env mem_ok name_prefix limit c =
     rest_map (page_of_reply lib mem_ok list_root parse_channel_status)
       (rest_get env (channel_list_path name_prefix limit) c)"

section \<open>Presence members\<close>

definition presence_path :: "string \<Rightarrow> int \<Rightarrow> string option \<Rightarrow> path_buf" where
  "presence_path channel limit client_id =
     path_params 1024 (CHR ''?'')
       (limit_param limit @
        (if c_nonempty client_id then [''clientId='' @ url_encode_channel 512 (c_str client_id)] else []))
       (path_init 1024 (''/channels/'' @ url_encode_channel (ABLY_MAX_CHANNEL_NAME_LEN * 3) channel @ ''/presence''))"

definition presence_item :: "json \<Rightarrow> ably_presence_message" where
  "presence_item item =
     \<lparr>pm_action = presence_action_of_int (c_int (json_int64 item ''action'' (presence_action_code PRESENCE_PRESENT))),
      pm_client_id = c_copy ABLY_MAX_CLIENT_ID_LEN (c_str (json_str item ''clientId'')),
      pm_connection_id = c_copy 64 (c_str (json_str item ''connectionId'')),
      pm_data = c_copy ABLY_MAX_MESSAGE_DATA_LEN (c_str (json_str item ''data'')),
      pm_timestamp = json_int64 item ''timestamp'' 0\<rparr>"

definition rest_presence_get ::
  "codec_lib \<Rightarrow> http_env \<Rightarrow> bool \<Rightarrow> string \<Rightarrow> int \<Rightarrow> string option \<Rightarrow> rest_client \<Rightarrow>
   (ably_error \<times> ably_presence_message rest_page option \<times> rest_client) rest_run" where
  "rest_presence_get lib env mem_ok channel limit client_id c =
     rest_map (page_of_reply lib mem_ok array_root presence_item)
       (rest_get env (presence_path channel limit client_id) c)"

section \<open>The generic request\<close>

record rest_response =
  rr_http_status :: int
  rr_body :: "string option"
  rr_next_cursor :: string

text \<open>The status of the client is only set when the transport succeeded.\<close>

definition rest_request ::
  "http_env \<Rightarrow> string \<Rightarrow> string \<Rightarrow> string \<Rightarrow> rest_client \<Rightarrow> (ably_error \<times> rest_response \<times> rest_client) rest_run" where
  "rest_request env request_method path body c =
     rest_map (\<lambda>(r, c').
       if rp_error r \<noteq> ABLY_OK
       then (rp_error r, \<lparr>rr_http_status = rp_status r, rr_body = None, rr_next_cursor = []\<rparr>,
             c'\<lparr>rs_last_status := rs_last_status c\<rparr>)
       else (ABLY_OK, \<lparr>rr_http_status = rp_status r, rr_body = rp_body r, rr_next_cursor = last_cursor c'\<rparr>, c'))
     (rest_do env request_method path body c)"

section \<open>Batch publishing\<close>

record batch_spec =
  bs_channel :: string
  bs_messages :: "rest_message list"

record batch_result =
  br_channel :: string
  br_http_status :: int
  br_error_code :: int
  br_error_message :: string

definition batch_spec_json :: "batch_spec \<Rightarrow> json" where
  "batch_spec_json s = JObj [(''channel'', JStr (bs_channel s)), (''messages'', JArr (map rest_message_json (bs_messages s)))]"

text \<open>\<^verbatim>\<open>cJSON_ArrayForEach\<close> visits the children of arrays and of objects.\<close>

fun json_children :: "json \<Rightarrow> json list" where
  "json_children (JArr xs) = xs"
| "json_children (JObj kvs) = map snd kvs"
| "json_children _ = []"

definition batch_result_of :: "json \<Rightarrow> batch_result" where
  "batch_result_of item =
     (let err = json_obj item ''error''
      in \<lparr>br_channel = c_copy ABLY_MAX_CHANNEL_NAME_LEN (c_str (json_str item ''channel'')),
          br_http_status = json_int64 item ''statusCode'' 201,
          br_error_code = (case err of None \<Rightarrow> 0 | Some e \<Rightarrow> c_int (json_int64 e ''code'' 0)),
          br_error_message = (case err of None \<Rightarrow> [] | Some e \<Rightarrow> c_copy 256 (c_str (json_str e ''message'')))\<rparr>)"

definition rest_batch_publish ::
  "codec_lib \<Rightarrow> http_env \<Rightarrow> batch_spec list \<Rightarrow> nat \<Rightarrow> rest_client \<Rightarrow> (ably_error \<times> batch_result list \<times> rest_client) rest_run" where
  "rest_batch_publish lib env specs results_max c =
     (case lib_json_print lib (JArr (map batch_spec_json specs)) of
        None \<Rightarrow> Rest_Done (ABLY_ERR_NOMEM, [], c)
      | Some body \<Rightarrow>
          if length body \<ge> ABLY_HTTP_REQUEST_BUF_SIZE then Rest_Done (ABLY_ERR_CAPACITY, [], c)
          else rest_map (\<lambda>(r, c').
                 if reply_error r \<noteq> ABLY_OK then (reply_error r, [], c')
                 else if rp_body r = None \<or> rp_body r = Some [] then (ABLY_OK, [], c')
                 else case parse_body lib r of
                   None \<Rightarrow> (ABLY_OK, [], c')
                 | Some root' \<Rightarrow> (ABLY_OK, map batch_result_of (take results_max (json_children root')), c'))
               (rest_do env ''POST'' ''/messages'' body c))"

section \<open>Token requests\<close>

record token_params =
  tp_capability :: "string option"
  tp_client_id :: "string option"
  tp_ttl_ms :: int

record token_details =
  td_token :: string
  td_key_name :: string
  td_issued :: int
  td_expires :: int
  td_capability :: string
  td_client_id :: string

definition zero_token_details :: token_details where
  "zero_token_details = \<lparr>td_token = [], td_key_name = [], td_issued = 0, td_expires = 0, td_capability = [],
     td_client_id = []\<rparr>"

definition lcg :: "u32 \<Rightarrow> u32" where
  "lcg seed = seed * 1664525 + 1013904223"

definition hex_digit :: "nat \<Rightarrow> char" where
  "hex_digit d = ''0123456789abcdef'' ! d"

definition hex_byte :: "u32 \<Rightarrow> string" where
  "hex_byte b = (let n = unat b in [hex_digit (n div 16), hex_digit (n mod 16)])"

fun nonce_loop :: "nat \<Rightarrow> u32 \<Rightarrow> string" where
  "nonce_loop 0 seed = []"
| "nonce_loop (Suc n) seed = (let s = lcg seed in hex_byte (drop_bit 24 s) @ nonce_loop n s)"

definition token_nonce :: "int \<Rightarrow> string" where
  "token_nonce timestamp_ms =
     nonce_loop 16 (word_of_int timestamp_ms XOR word_of_int (timestamp_ms div 2 ^ 32))"

text \<open>\<^verbatim>\<open>mbedtls_md_hmac\<close> with SHA-256 is a parameter: key and message to digest, or failure.\<close>

type_synonym hmac_fn = "string \<Rightarrow> string \<Rightarrow> byte list option"

definition hmac_sha256_b64 :: "hmac_fn \<Rightarrow> string \<Rightarrow> string \<Rightarrow> nat \<Rightarrow> string option" where
  "hmac_sha256_b64 hmac key msg out_b64_len =
     (case hmac key msg of
        None \<Rightarrow> None
      | Some digest \<Rightarrow>
          if out_b64_len < ably_base64_encode_len 32 + 1 then None else Some (ably_base64_encode digest))"

definition token_canonical :: "string \<Rightarrow> int \<Rightarrow> string \<Rightarrow> string \<Rightarrow> int \<Rightarrow> string \<Rightarrow> string" where
  "token_canonical key_name ttl_ms capability client_id timestamp_ms nonce =
     (let nl = [CHR 0x0A]
      in key_name @ nl @ dec_of_int ttl_ms @ nl @ capability @ nl @ client_id @ nl @ dec_of_int timestamp_ms @ nl @
         nonce @ nl)"

text \<open>The two numbers of the body are cast to \<^verbatim>\<open>double\<close>; the signed text has all their digits.\<close>

definition token_request_json :: "string \<Rightarrow> int \<Rightarrow> string \<Rightarrow> string \<Rightarrow> int \<Rightarrow> string \<Rightarrow> string \<Rightarrow> json" where
  "token_request_json key_name ttl_ms capability client_id timestamp_ms nonce mac =
     JObj ([(''keyName'', JStr key_name), (''ttl'', JNum (of_int (c_double ttl_ms))), (''capability'', JStr capability)] @
       (if client_id \<noteq> [] then [(''clientId'', JStr client_id)] else []) @
       [(''timestamp'', JNum (of_int (c_double timestamp_ms))), (''nonce'', JStr nonce), (''mac'', JStr mac)])"

definition token_details_of :: "json \<Rightarrow> token_details" where
  "token_details_of j =
     \<lparr>td_token = c_copy 512 (c_str (json_str j ''token'')), td_key_name = c_copy 256 (c_str (json_str j ''keyName'')),
      td_issued = json_int64 j ''issued'' 0, td_expires = json_int64 j ''expires'' 0,
      td_capability = c_copy 1024 (c_str (json_str j ''capability'')),
      td_client_id = c_copy ABLY_MAX_CLIENT_ID_LEN (c_str (json_str j ''clientId''))\<rparr>"

text \<open>The signed request that \<^verbatim>\<open>ably_rest_request_token\<close> sends: path and body, or the error that ends it.
  \<open>now\<close> is \<^verbatim>\<open>time(NULL)\<close>.\<close>

definition token_request ::
  "codec_lib \<Rightarrow> hmac_fn \<Rightarrow> int \<Rightarrow> token_params option \<Rightarrow> string \<Rightarrow> ably_error + (string \<times> string)" where
  "token_request lib hmac now params api_key =
     (case find_char (CHR '':'') api_key of
        None \<Rightarrow> Inl ABLY_ERR_INVALID_ARG
      | Some k \<Rightarrow>
          if k = 0 \<or> drop (k + 1) api_key = [] then Inl ABLY_ERR_INVALID_ARG
          else if k \<ge> 256 then Inl ABLY_ERR_INVALID_ARG
          else let key_name = take k api_key; key_secret = drop (k + 1) api_key;
                   timestamp_ms = now * 1000;
                   ttl_ms = (case params of None \<Rightarrow> 0 | Some p \<Rightarrow> if tp_ttl_ms p > 0 then tp_ttl_ms p else 0);
                   capability = (case Option.bind params tp_capability of None \<Rightarrow> ''{\"*\":[\"*\"]}'' | Some s \<Rightarrow> s);
                   client_id = c_str (Option.bind params tp_client_id);
                   nonce = token_nonce timestamp_ms;
                   canonical = token_canonical key_name ttl_ms capability client_id timestamp_ms nonce
          in if length canonical \<ge> 2048 then Inl ABLY_ERR_INTERNAL
             else case hmac_sha256_b64 hmac key_secret canonical 64 of
               None \<Rightarrow> Inl ABLY_ERR_INTERNAL
             | Some mac \<Rightarrow>
                 (case lib_json_print lib (token_request_json key_name ttl_ms capability client_id timestamp_ms nonce mac) of
                    None \<Rightarrow> Inl ABLY_ERR_NOMEM
                  | Some body \<Rightarrow>
                      if length body \<ge> ABLY_HTTP_REQUEST_BUF_SIZE then Inl ABLY_ERR_CAPACITY
                      else Inr (c_copy 512 (''/keys/'' @ key_name @ ''/requestToken''), body)))"

definition rest_request_token ::
  "codec_lib \<Rightarrow> hmac_fn \<Rightarrow> http_env \<Rightarrow> int \<Rightarrow> token_params option \<Rightarrow> rest_client \<Rightarrow>
   (ably_error \<times> token_details \<times> rest_client) rest_run" where
  "rest_request_token lib hmac env now params c =
     (case token_request lib hmac now params (rs_api_key c) of
        Inl err \<Rightarrow> Rest_Done (err, zero_token_details, c)
      | Inr (path, body) \<Rightarrow>
          rest_map (\<lambda>(r, c').
            if reply_error r \<noteq> ABLY_OK then (reply_error r, zero_token_details, c')
            else case parse_body lib r of
              None \<Rightarrow> (ABLY_ERR_PROTOCOL, zero_token_details, c')
            | Some j \<Rightarrow> (ABLY_OK, token_details_of j, c'))
          (rest_do env ''POST'' path body c))"

end
