(* ===== verification/Ably_Rest_Props.thy ===== *)
theory Ably_Rest_Props
  imports Ably_Rest_Query
begin

text \<open>
  Properties of the REST client (\<^verbatim>\<open>src/rest/rest_client.c\<close>): the paths its queries build with
  \<^verbatim>\<open>snprintf(path + n, ...)\<close>, exactly when that leaves the buffer, and the text a token request signs.
\<close>

section \<open>Query paths\<close>

text \<open>What the appends are meant to build.\<close>

fun params_text :: "char \<Rightarrow> string list \<Rightarrow> string" where
  "params_text sep [] = []"
| "params_text sep (s # ss) = sep # s @ params_text (CHR ''&'') ss"

lemma c_copy_append_fits: "length t \<le> n \<Longrightarrow> c_copy n t @ c_copy (n - length t) s = c_copy n (t @ s)"
  by (cases "length t = n") (simp_all add: c_copy_def diff_diff_eq add.commute)

lemma path_params_Overflow [simp]: "path_params n sep ss Path_Overflow = Path_Overflow"
  by (induction ss arbitrary: sep) simp_all

lemma path_params_closed:
  "path_params n sep ss (path_init n t) =
     (if ss = [] \<or> length (t @ params_text sep (butlast ss)) \<le> n
      then Path_Ok (c_copy n (t @ params_text sep ss)) (length (t @ params_text sep ss)) else Path_Overflow)"
proof (induction ss arbitrary: sep t)
  case (Cons s ss)
  show ?case
  proof (cases "length t \<le> n")
    case True
    then have "path_append n (sep # s) (path_init n t) = path_init n (t @ sep # s)"
      by (simp add: path_init_def c_copy_append_fits)
    then have "path_params n sep (s # ss) (path_init n t) = path_params n (CHR ''&'') ss (path_init n (t @ sep # s))"
      by (simp only: path_params.simps)
    then show ?thesis using True by (simp add: Cons.IH)
  next
    case False
    then show ?thesis by (simp add: path_init_def)
  qed
qed (simp add: path_init_def)

lemma length_dec_of_nat: "n < 10 ^ k \<Longrightarrow> 0 < k \<Longrightarrow> length (dec_of_nat n) \<le> k"
proof (induction n arbitrary: k rule: dec_of_nat.induct)
  case (1 n)
  show ?case
  proof (cases "n < 10")
    case True
    then show ?thesis using 1 by (subst dec_of_nat.simps) simp
  next
    case False
    then obtain m where m: "k = Suc m" "0 < m"
      using 1 by (cases k; cases "k - 1") auto
    then have "n div 10 < 10 ^ m" using 1 by (simp add: div_less_iff_less_mult mult.commute)
    then show ?thesis using 1 False m by (subst dec_of_nat.simps) simp
  qed
qed

lemma length_limit_param: "limit < 2 ^ 31 \<Longrightarrow> length (params_text sep (limit_param limit)) \<le> 17"
  using length_dec_of_nat [of "nat limit" 10] by (simp add: limit_param_def dec_of_int_def)

lemma length_url_encode_channel: "0 < n \<Longrightarrow> length (url_encode_channel n s) < n"
  using url_encode_loop_bound [of 4 "[]" n s] by (simp add: url_encode_channel_def)

lemma rest_get_in_bounds: "rest_map f (rest_get env p c) = Rest_Out_Of_Bounds \<longleftrightarrow> p = Path_Overflow"
  by (cases "rest_get env p c"; simp add: rest_get_def split: path_buf.splits option.splits prod.splits)

lemma is_prefix_c_copy: "length t < n \<Longrightarrow> is_prefix t (c_copy n (t @ s))"
  by (simp add: c_copy_def)

text \<open>A name of unreserved characters is encoded as itself, up to the last four bytes.\<close>

lemma url_encode_loop_plain:
  "\<forall>c \<in> set s. url_unreserved c \<Longrightarrow> url_encode_loop guard n out s = out @ take (n - guard - length out) s"
proof (induction s arbitrary: out)
  case (Cons c s)
  then show ?case
    by (auto simp: url_escape_def take_Cons')
qed simp

section \<open>Properties\<close>


text \<open>The presence query stays inside its path buffer for every channel, limit and client id, and
  sends the text it means to build, cut at 1023 characters; the cut can only fall into the client id.\<close>

theorem presence_query_in_bounds:
  assumes "limit < 2 ^ 31"
  shows "\<exists>whole. presence_path channel limit client_id = Path_Ok (c_copy 1024 whole) (length whole) \<and>
    is_prefix (''/channels/'' @ url_encode_channel (ABLY_MAX_CHANNEL_NAME_LEN * 3) channel @ ''/presence'')
      (c_copy 1024 whole) \<and>
    rest_presence_get lib env mem_ok channel limit client_id c \<noteq> Rest_Out_Of_Bounds"
proof -
  let ?head = "''/channels/'' @ url_encode_channel (ABLY_MAX_CHANNEL_NAME_LEN * 3) channel @ ''/presence''"
  let ?ps = "limit_param limit @
    (if c_nonempty client_id then [''clientId='' @ url_encode_channel 512 (c_str client_id)] else [])"
  have head: "length ?head < 787"
    using length_url_encode_channel [of "ABLY_MAX_CHANNEL_NAME_LEN * 3" channel]
    by (simp add: ABLY_MAX_CHANNEL_NAME_LEN_def)
  have lim: "length (params_text (CHR ''?'') (limit_param limit)) \<le> 17"
    by (rule length_limit_param [OF assms])
  have "length (params_text (CHR ''?'') (butlast ?ps)) \<le> 17"
    using lim by (auto simp: limit_param_def)
  then have fits: "length (?head @ params_text (CHR ''?'') (butlast ?ps)) \<le> 1024" using head by simp
  have path: "presence_path channel limit client_id =
      Path_Ok (c_copy 1024 (?head @ params_text (CHR ''?'') ?ps)) (length (?head @ params_text (CHR ''?'') ?ps))"
    unfolding presence_path_def path_params_closed using fits by auto
  have "is_prefix ?head (c_copy 1024 (?head @ params_text (CHR ''?'') ?ps))"
    using head by (intro is_prefix_c_copy) linarith
  then show ?thesis using path by (auto simp: rest_presence_get_def rest_get_in_bounds simp del: append_assoc)
qed

lemma presence_query_in_bounds_witness:
  "\<forall>lib env mem_ok c.
     rest_presence_get lib env mem_ok (replicate 900 (CHR ''/'')) 100 (Some (replicate 900 (CHR '' ''))) c \<noteq> Rest_Out_Of_Bounds"
  using presence_query_in_bounds [of 100 "replicate 900 (CHR ''/'')" "Some (replicate 900 (CHR '' ''))"]
  by auto

text \<open>C40. The channel list writes its limit behind the path buffer when the prefix is long: exactly from
  496 plain characters on. The statistics query does so from 501 characters of unit on.\<close>

theorem channel_list_out_of_bounds:
  assumes "\<forall>ch \<in> set name_prefix. url_unreserved ch" "name_prefix \<noteq> []" "limit > 0"
  shows "(rest_channel_list lib env mem_ok (Some name_prefix) limit c = Rest_Out_Of_Bounds \<longleftrightarrow> 496 \<le> length name_prefix) \<and>
    (rest_stats lib env mem_ok (Some name_prefix) 0 0 None limit c = Rest_Out_Of_Bounds \<longleftrightarrow> 501 \<le> length name_prefix)"
proof -
  have enc: "url_encode_channel 512 name_prefix = take 508 name_prefix"
    using assms(1) by (simp add: url_encode_channel_def url_encode_loop_plain)
  show ?thesis
    using assms
    by (auto simp: rest_channel_list_def rest_stats_def rest_get_in_bounds channel_list_path_def stats_path_def
        path_params_closed limit_param_def query_param_def time_param_def enc)
qed

lemma channel_list_out_of_bounds_witness:
  "\<forall>lib env mem_ok c. rest_channel_list lib env mem_ok (Some (replicate 496 (CHR ''a''))) 1 c = Rest_Out_Of_Bounds"
  using channel_list_out_of_bounds [of "replicate 496 (CHR ''a'')" 1]
  by (simp add: url_unreserved_def)

section \<open>Token requests\<close>

lemma dec_of_nat_inj: "dec_of_nat m = dec_of_nat n \<Longrightarrow> m = n"
  using c_digits_dec [of "[]" m] c_digits_dec [of "[]" n] by simp

lemma dec_of_int_inj: "dec_of_int i = dec_of_int j \<Longrightarrow> i = j"
proof -
  assume e: "dec_of_int i = dec_of_int j"
  have h: "hd (dec_of_nat n) \<noteq> CHR ''-''" for n
    using dec_of_nat_digits [of n] by (cases "dec_of_nat n") (auto simp: c_digit_def)
  show "i = j"
    using e h [of "nat i"] h [of "nat j"] dec_of_nat_inj [of "nat i" "nat j"] dec_of_nat_inj [of "nat (- i)" "nat (- j)"]
    by (auto simp: dec_of_int_def split: if_splits dest: arg_cong [where f = hd])
qed

lemma no_lf_dec_of_int: "CHR 0x0A \<notin> set (dec_of_int i)"
  using dec_of_nat_digits [of "nat i"] dec_of_nat_digits [of "nat (- i)"] by (auto simp: dec_of_int_def c_digit_def)

lemma append_sep_inj: "x \<notin> set a \<Longrightarrow> x \<notin> set b \<Longrightarrow> a @ x # s = b @ x # t \<longleftrightarrow> a = b \<and> s = t"
proof (induction a arbitrary: b)
  case Nil
  then show ?case by (cases b) auto
next
  case (Cons y a)
  then show ?case by (cases b) auto
qed

text \<open>What a token request signs.\<close>

record token_fields =
  tf_key_name :: string
  tf_ttl :: int
  tf_capability :: string
  tf_client_id :: string
  tf_timestamp :: int
  tf_nonce :: string

definition signed_text :: "token_fields \<Rightarrow> string" where
  "signed_text f = token_canonical (tf_key_name f) (tf_ttl f) (tf_capability f) (tf_client_id f) (tf_timestamp f) (tf_nonce f)"

definition one_line :: "string \<Rightarrow> bool" where
  "one_line s \<longleftrightarrow> CHR 0x0A \<notin> set s"

lemma one_line_nonce_loop: "one_line (nonce_loop n seed)"
proof (induction n seed rule: nonce_loop.induct)
  case (2 n seed)
  have h: "hex_digit d \<noteq> CHR 0x0A" if "d < 16" for d
  proof -
    have "\<forall>c \<in> set ''0123456789abcdef''. c \<noteq> CHR 0x0A" by simp
    then show ?thesis using that nth_mem [of d "''0123456789abcdef''"] unfolding hex_digit_def by fastforce
  qed
  have b: "unat (drop_bit 24 (lcg seed)) < 256"
    using unsigned_less [where 'a = nat, of "lcg seed"]
    unfolding unat_drop_bit_eq by (simp add: drop_bit_eq_div div_less_iff_less_mult)
  show ?case
    using 2 h [of "unat (drop_bit 24 (lcg seed)) div 16"] h [of "unat (drop_bit 24 (lcg seed)) mod 16"] b
    by (simp add: one_line_def Let_def hex_byte_def div_less_iff_less_mult)
qed (simp add: one_line_def)

lemma length_nonce_loop: "length (nonce_loop n seed) = 2 * n"
  by (induction n seed rule: nonce_loop.induct) (simp_all add: hex_byte_def Let_def)

text \<open>The text binds its fields while none of them contains a line feed.\<close>

lemma signed_text_inj:
  assumes "one_line (tf_key_name f)" "one_line (tf_capability f)" "one_line (tf_client_id f)" "one_line (tf_nonce f)"
    and "one_line (tf_key_name g)" "one_line (tf_capability g)" "one_line (tf_client_id g)" "one_line (tf_nonce g)"
    and "signed_text f = signed_text g"
  shows "f = (g :: token_fields)"
  using assms no_lf_dec_of_int
  by (cases f; cases g)
    (auto simp: signed_text_def token_canonical_def one_line_def Let_def append_sep_inj dest: dec_of_int_inj)

definition fields_json :: "token_fields \<Rightarrow> string \<Rightarrow> json" where
  "fields_json f mac = token_request_json (tf_key_name f) (tf_ttl f) (tf_capability f) (tf_client_id f)
     (tf_timestamp f) (tf_nonce f) mac"

text \<open>The body with exactly the signed numbers: this is what is sent while they are at most 2^53.\<close>

definition exact_body :: "token_fields \<Rightarrow> string \<Rightarrow> json" where
  "exact_body f mac =
     JObj ([(''keyName'', JStr (tf_key_name f)), (''ttl'', JNum (of_int (tf_ttl f))), (''capability'', JStr (tf_capability f))] @
       (if tf_client_id f = [] then [] else [(''clientId'', JStr (tf_client_id f))]) @
       [(''timestamp'', JNum (of_int (tf_timestamp f))), (''nonce'', JStr (tf_nonce f)), (''mac'', JStr mac)])"

lemma fields_json_exact:
  "\<bar>tf_ttl f\<bar> \<le> 2 ^ 53 \<Longrightarrow> \<bar>tf_timestamp f\<bar> \<le> 2 ^ 53 \<Longrightarrow> fields_json f mac = exact_body f mac"
  by (simp add: fields_json_def exact_body_def token_request_json_def c_double_exact)

text \<open>Above that the body can name another lifetime than the one that is signed.\<close>

lemma large_ttl_not_signed:
  "json_get (token_request_json name (2 ^ 53 + 1) capability client_id timestamp nonce mac) ''ttl'' = Some (JNum (2 ^ 53))"
  by (simp add: token_request_json_def c_double_rounds(1) del: power_numeral)

definition plain_fields :: "token_fields \<Rightarrow> bool" where
  "plain_fields f \<longleftrightarrow>
     one_line (tf_key_name f) \<and> one_line (tf_capability f) \<and> one_line (tf_client_id f) \<and> one_line (tf_nonce f)"

text \<open>The fields of a request for a key name.\<close>

definition request_fields :: "int \<Rightarrow> token_params option \<Rightarrow> string \<Rightarrow> token_fields" where
  "request_fields now params name =
     \<lparr>tf_key_name = name,
      tf_ttl = (case params of None \<Rightarrow> 0 | Some p \<Rightarrow> if tp_ttl_ms p > 0 then tp_ttl_ms p else 0),
      tf_capability = (case Option.bind params tp_capability of None \<Rightarrow> ''{\"*\":[\"*\"]}'' | Some s \<Rightarrow> s),
      tf_client_id = c_str (Option.bind params tp_client_id), tf_timestamp = now * 1000,
      tf_nonce = token_nonce (now * 1000)\<rparr>"

lemma token_request_closed:
  assumes "CHR '':'' \<notin> set name"
  shows "token_request lib hmac now params (name @ CHR '':'' # secret) =
    (let f = request_fields now params name
     in if name = [] \<or> secret = [] \<or> 256 \<le> length name then Inl ABLY_ERR_INVALID_ARG
        else if 2048 \<le> length (signed_text f) then Inl ABLY_ERR_INTERNAL
        else case hmac secret (signed_text f) of
          None \<Rightarrow> Inl ABLY_ERR_INTERNAL
        | Some digest \<Rightarrow>
            (case lib_json_print lib (fields_json f (ably_base64_encode digest)) of
               None \<Rightarrow> Inl ABLY_ERR_NOMEM
             | Some body \<Rightarrow>
                 if ABLY_HTTP_REQUEST_BUF_SIZE \<le> length body then Inl ABLY_ERR_CAPACITY
                 else Inr (c_copy 512 (''/keys/'' @ name @ ''/requestToken''), body)))"
proof -
  have k: "find_char (CHR '':'') (name @ CHR '':'' # secret) = Some (length name)"
    by (rule find_char_append [OF assms])
  have l: "\<not> 64 < ably_base64_encode_len 32 + 1" by (simp add: ably_base64_encode_len_def)
  have d: "drop (length name + 1) (name @ CHR '':'' # secret) = secret" "take (length name) (name @ CHR '':'' # secret) = name"
    by simp_all
  show ?thesis
    unfolding token_request_def k option.case d Let_def hmac_sha256_b64_def
    using l by (cases "hmac secret (signed_text (request_fields now params name))")
      (simp_all add: signed_text_def fields_json_def request_fields_def)
qed

text \<open>C32. A token request that is sent carries the MAC, under the secret of the key, of exactly the fields
  in its body, addressed to the key it names, when lifetime and time, in milliseconds, are at most 2^53 (beyond, the
  body has them rounded to a double); and while no field contains a line feed, the signed text
  belongs to no other fields. The nonce is 32 hexadecimal digits that depend on the second of the
  request only.\<close>

theorem token_request_signs_its_fields:
  assumes key: "CHR '':'' \<notin> set name"
    and sent: "token_request lib hmac now params (name @ CHR '':'' # secret) = Inr (path, body)"
    and exact: "\<And>p. params = Some p \<Longrightarrow> tp_ttl_ms p \<le> 2 ^ 53" "\<bar>now * 1000\<bar> \<le> 2 ^ 53"
  shows "\<exists>f digest. hmac secret (signed_text f) = Some digest \<and>
    lib_json_print lib (exact_body f (ably_base64_encode digest)) = Some body \<and>
    path = ''/keys/'' @ name @ ''/requestToken'' \<and>
    tf_key_name f = name \<and> tf_timestamp f = now * 1000 \<and> tf_ttl f \<ge> 0 \<and>
    tf_client_id f = c_str (Option.bind params tp_client_id) \<and>
    tf_nonce f = token_nonce (now * 1000) \<and> length (tf_nonce f) = 32 \<and>
    (\<forall>g. plain_fields f \<and> plain_fields g \<and> signed_text g = signed_text f \<longrightarrow> g = f)"
proof -
  define f where "f = request_fields now params name"
  have short: "length name < 256" and
    path: "path = c_copy 512 (''/keys/'' @ name @ ''/requestToken'')" and
    sig: "\<exists>digest. hmac secret (signed_text f) = Some digest \<and>
      lib_json_print lib (fields_json f (ably_base64_encode digest)) = Some body"
    using sent unfolding token_request_closed [OF key] f_def [symmetric] Let_def
    by (auto split: if_splits option.splits)
  have "\<bar>tf_ttl f\<bar> \<le> 2 ^ 53" "\<bar>tf_timestamp f\<bar> \<le> 2 ^ 53"
    using exact by (auto simp: f_def request_fields_def split: option.split)
  note sig = sig [unfolded fields_json_exact [OF this]]
  have p: "path = ''/keys/'' @ name @ ''/requestToken''" using path short by (simp add: c_copy_id)
  have fields: "tf_key_name f = name \<and> tf_timestamp f = now * 1000 \<and> tf_ttl f \<ge> 0 \<and>
      tf_client_id f = c_str (Option.bind params tp_client_id) \<and> tf_nonce f = token_nonce (now * 1000) \<and>
      length (tf_nonce f) = 32"
    by (simp add: f_def request_fields_def token_nonce_def length_nonce_loop split: option.split)
  have "\<forall>g. plain_fields f \<and> plain_fields g \<and> signed_text g = signed_text f \<longrightarrow> g = f"
    using signed_text_inj unfolding plain_fields_def by metis
  then show ?thesis using sig p fields by blast
qed

definition demo_lib :: codec_lib where
  "demo_lib = \<lparr>lib_json_print = (\<lambda>j. Some ''{}''), lib_json_parse = (\<lambda>s. None), lib_mp_write = (\<lambda>n m. []),
     lib_mp_parse = (\<lambda>s. None)\<rparr>"

definition demo_hmac :: hmac_fn where
  "demo_hmac key msg = (if key = ''s'' then Some (replicate 32 (of_nat (length msg))) else None)"

lemma token_request_signs_its_fields_witness:
  "\<exists>f digest. demo_hmac ''s'' (signed_text f) = Some digest \<and> tf_key_name f = ''app.k'' \<and>
    tf_timestamp f = 1700000000 * 1000 \<and> length (tf_nonce f) = 32"
proof -
  have d: "length (dec_of_int (1700000000 * 1000)) \<le> 13" "length (dec_of_int 0) \<le> 1"
    using length_dec_of_nat [of "1700000000 * 1000" 13] length_dec_of_nat [of 0 1] by (simp_all add: dec_of_int_def)
  let ?f = "request_fields 1700000000 None ''app.k''"
  have "length (signed_text ?f) < 2048"
    using d unfolding signed_text_def token_canonical_def request_fields_def token_nonce_def Let_def
    by (simp add: length_nonce_loop)
  moreover have "CHR '':'' \<notin> set ''app.k''" by simp
  moreover have "\<not> ABLY_HTTP_REQUEST_BUF_SIZE \<le> length ''{}''" by (simp add: ABLY_HTTP_REQUEST_BUF_SIZE_def)
  ultimately have sent: "token_request demo_lib demo_hmac 1700000000 None (''app.k'' @ CHR '':'' # ''s'') =
      Inr (c_copy 512 (''/keys/'' @ ''app.k'' @ ''/requestToken''), ''{}'')"
    unfolding token_request_closed [OF \<open>CHR '':'' \<notin> set ''app.k''\<close>] Let_def
    by (simp add: demo_lib_def demo_hmac_def del: append_Cons)
  show ?thesis
    using token_request_signs_its_fields [OF \<open>CHR '':'' \<notin> set ''app.k''\<close> sent] by simp blast
qed

end
