(* ===== verification/Ably_Conn_Machine.thy ===== *)
theory Ably_Conn_Machine
  imports Ably_Realtime_Props
begin

text \<open>
  The connection states as a state machine. The application sees a connection through its state
  callback; the machine \<open>conn_next\<close> says which changes it can see. A client driven by the service thread
  refines it: the callbacks made replay as a run of the machine from INITIALIZED to the state the client is
  in, and each program counter of the thread allows few states.
\<close>

section \<open>The machine\<close>

fun conn_next :: "ably_connection_state \<Rightarrow> ably_connection_state list" where
  "conn_next CONN_INITIALIZED = [CONN_CONNECTING, CONN_CLOSED]"
| "conn_next CONN_CONNECTING = [CONN_CONNECTED, CONN_DISCONNECTED, CONN_FAILED, CONN_CLOSED]"
| "conn_next CONN_CONNECTED = [CONN_DISCONNECTED, CONN_FAILED, CONN_CLOSED, CONN_CONNECTING]"
| "conn_next CONN_DISCONNECTED = [CONN_CONNECTING, CONN_SUSPENDED, CONN_CLOSED]"
| "conn_next CONN_SUSPENDED = [CONN_CONNECTING, CONN_CLOSED]"
| "conn_next CONN_CLOSING = []"
| "conn_next CONN_CLOSED = [CONN_CONNECTING, CONN_CONNECTED, CONN_FAILED]"
| "conn_next CONN_FAILED = [CONN_CLOSED, CONN_CONNECTED, CONN_CONNECTING]"

text \<open>The reason that comes with a state.\<close>

fun conn_reason :: "ably_connection_state \<Rightarrow> ably_error" where
  "conn_reason CONN_DISCONNECTED = ABLY_ERR_NETWORK"
| "conn_reason CONN_SUSPENDED = ABLY_ERR_NETWORK"
| "conn_reason CONN_FAILED = ABLY_ERR_AUTH"
| "conn_reason _ = ABLY_OK"

fun conn_replay :: "ably_connection_state \<Rightarrow> rt_event list \<Rightarrow> ably_connection_state option" where
  "conn_replay s [] = Some s"
| "conn_replay s (Ev_Conn cb new old reason # es) =
     (if old = s \<and> new \<in> set (conn_next old) \<and> reason = conn_reason new then conn_replay new es else None)"
| "conn_replay s (e # es) = conn_replay s es"

fun pc_states :: "svc_pc \<Rightarrow> ably_connection_state set" where
  "pc_states Svc_Connect = {CONN_CONNECTING}"
| "pc_states Svc_Loop = {CONN_CONNECTING, CONN_CONNECTED, CONN_CLOSED, CONN_FAILED}"
| "pc_states Svc_Check = {CONN_CONNECTING, CONN_CONNECTED, CONN_CLOSED, CONN_FAILED}"
| "pc_states Svc_Down = {CONN_CONNECTING, CONN_CONNECTED}"
| "pc_states Svc_Suspended = {CONN_SUSPENDED}"
| "pc_states Svc_Retry = {CONN_DISCONNECTED, CONN_SUSPENDED}"
| "pc_states Svc_Sleep = {CONN_DISCONNECTED, CONN_SUSPENDED}"
| "pc_states _ = - {CONN_CLOSING}"

lemma conn_replay_append:
  "conn_replay s (xs @ ys) = (case conn_replay s xs of None \<Rightarrow> None | Some t \<Rightarrow> conn_replay t ys)"
  by (induction s xs rule: conn_replay.induct) auto

lemma conn_replay_channel: "conn_replay s (map (Ev_Channel name) es) = Some s"
  by (induction es) simp_all

section \<open>The simulation\<close>

definition conn_told :: "nat \<Rightarrow> ably_connection_state set \<Rightarrow> rt_world \<Rightarrow> bool" where
  "conn_told cb S w \<longleftrightarrow> cb \<noteq> 0 \<and> rt_conn_cb (rw_client w) = cb \<and>
     conn_replay CONN_INITIALIZED (rw_events w) = Some (rc_state (rw_client w)) \<and> rc_state (rw_client w) \<in> S"

lemma conn_told_mono: "conn_told cb S w \<Longrightarrow> S \<subseteq> T \<Longrightarrow> conn_told cb T w"
  by (auto simp: conn_told_def)

lemma conn_told_state:
  assumes "conn_told cb S w" "r = conn_reason s" "\<And>t. t \<in> S \<Longrightarrow> t = s \<or> s \<in> set (conn_next t)"
  shows "conn_told cb {s} (rt_set_state_locked s r w)"
  using assms by (auto simp: conn_told_def rt_set_state_locked_def Let_def conn_replay_append)

lemma conn_told_client:
  "conn_told cb S w \<Longrightarrow> (\<And>c. rc_state (f c) = rc_state c \<and> rt_conn_cb (f c) = rt_conn_cb c) \<Longrightarrow>
     conn_told cb S (set_client f w)"
  by (simp add: conn_told_def set_client_def)

lemma conn_told_ws: "conn_told cb S (set_ws f w) = conn_told cb S w"
  by (simp add: conn_told_def set_ws_def)

lemma conn_told_channel: "chan_safe f \<Longrightarrow> conn_told cb S w \<Longrightarrow> conn_told cb S (on_channel i f w)"
  using core_kept_client(4,5) [OF on_channel_kept(1) [of f w i]]
  by (simp add: conn_told_def) (simp add: on_channel_def Let_def conn_replay_append conn_replay_channel)

lemma frame_state_reason: "frame_state s r \<Longrightarrow> r = conn_reason s"
  by (auto simp: frame_state_def)

text \<open>While the event loop runs, frames of the server move the client within four states.\<close>

definition in_loop :: "nat \<Rightarrow> rt_world \<Rightarrow> bool" where
  "in_loop cb w \<longleftrightarrow> conn_told cb (pc_states Svc_Loop) w"

lemma in_loop_state: "frame_state s r \<Longrightarrow> in_loop cb w \<Longrightarrow> in_loop cb (rt_set_state_locked s r w)"
  unfolding in_loop_def
  by (rule conn_told_mono, rule conn_told_state) (auto simp: frame_state_def)

interpretation conn: rt_preserved "in_loop cb"
proof
  show "in_loop cb w \<Longrightarrow> client_step (rw_client w) (f (rw_client w)) \<Longrightarrow> in_loop cb (set_client f w)" for f w
    by (simp add: in_loop_def conn_told_def set_client_def client_step_def)
  show "chan_safe f \<Longrightarrow> in_loop cb w \<Longrightarrow> in_loop cb (on_channel i f w)" for f w i
    unfolding in_loop_def by (rule conn_told_channel)
  show "in_loop cb w \<Longrightarrow> in_loop cb (w\<lparr>ww_ws := ws, ww_sent := ww_sent w @ sent,
      ww_sends := drop k (ww_sends w), ww_lost := l, ww_misused := m\<rparr>)" for w ws sent k l m
    by (simp add: in_loop_def conn_told_def)
qed (rule in_loop_state)

interpretation conn: ws_closing "in_loop cb" "on_ws_frame (scripted lib script rest now)"
proof
  show "in_loop cb w \<Longrightarrow> in_loop cb (on_ws_frame (scripted lib script rest now) msg w)" for w msg
    by (rule conn.on_ws_frame_law)
  show "in_loop cb w \<Longrightarrow> in_loop cb (set_ws (\<lambda>ws. ws\<lparr>ws_close_sent := True\<rparr>) w)" for w
    by (simp add: in_loop_def conn_told_ws)
qed

interpretation conn_any: ws_local "conn_told cb S"
  by unfold_locales (simp add: conn_told_def)

lemma conn_told_channels:
  assumes f: "chan_safe f" and w: "conn_told cb S w"
  shows "conn_told cb S (on_channels f w)"
proof -
  have "conn_told cb S (fold (\<lambda>i. on_channel i f) is v)" if "conn_told cb S v" for "is" v
    using that by (induction "is" arbitrary: v) (auto intro: conn_told_channel [OF f])
  then show ?thesis using w by (simp add: on_channels_def)
qed

lemma conn_told_top: "conn_told cb (- {CONN_CLOSING}) w \<Longrightarrow>
  conn_told cb (pc_states (fst (svc_top w))) (snd (svc_top w))"
proof (cases "rt_close_requested (rw_client w)")
  assume w: "conn_told cb (- {CONN_CLOSING}) w" and "rt_close_requested (rw_client w)"
  have "t = CONN_CLOSED \<or> CONN_CLOSED \<in> set (conn_next t)" if "t \<in> - {CONN_CLOSING}" for t
    using that by (cases t) auto
  with conn_told_state [OF w, of ABLY_OK CONN_CLOSED]
  have "conn_told cb {CONN_CLOSED} (rt_set_state_locked CONN_CLOSED ABLY_OK w)" by simp
  then have "conn_told cb (- {CONN_CLOSING}) (rt_set_state_locked CONN_CLOSED ABLY_OK w)"
    by (rule conn_told_mono) simp
  then show ?thesis using \<open>rt_close_requested (rw_client w)\<close> by (simp add: svc_top_def)
next
  assume w: "conn_told cb (- {CONN_CLOSING}) w" and "\<not> rt_close_requested (rw_client w)"
  have "t = CONN_CONNECTING \<or> CONN_CONNECTING \<in> set (conn_next t)" if "t \<in> - {CONN_CLOSING}" for t
    using that by (cases t) auto
  with conn_told_state [OF w, of ABLY_OK CONN_CONNECTING]
  have "conn_told cb {CONN_CONNECTING} (prepare_connect (rt_set_state_locked CONN_CONNECTING ABLY_OK w))"
    by (simp add: prepare_connect_def Let_def conn_told_ws conn_told_client)
  then show ?thesis using \<open>\<not> rt_close_requested (rw_client w)\<close> by (simp add: svc_top_def)
qed

lemma conn_told_down:
  assumes w: "conn_told cb (pc_states Svc_Down) w"
  shows "conn_told cb (pc_states (fst (svc_down auth w))) (snd (svc_down auth w))"
proof -
  define w3 where "w3 = set_client (refresh_token auth)
    (on_channels channel_on_disconnect (rt_set_state_locked CONN_DISCONNECTED ABLY_ERR_NETWORK w))"
  have "conn_told cb {CONN_DISCONNECTED} (rt_set_state_locked CONN_DISCONNECTED ABLY_ERR_NETWORK w)"
    using w by (rule conn_told_state) auto
  then have 3: "conn_told cb {CONN_DISCONNECTED} w3"
    unfolding w3_def by (intro conn_told_client conn_told_channels chan_safe_disconnect)
      (simp_all add: refresh_token_def Let_def)
  then have 4: "conn_told cb {CONN_DISCONNECTED} (set_client (\<lambda>c. c\<lparr>rt_host_idx := k\<rparr>) w3)" for k
    by (rule conn_told_client) simp
  have sus: "conn_told cb {CONN_SUSPENDED} (rt_set_state_locked CONN_SUSPENDED ABLY_ERR_NETWORK v)"
    if "conn_told cb {CONN_DISCONNECTED} v" for v using that by (rule conn_told_state) auto
  have any: "conn_told cb (- {CONN_CLOSING}) v" if "conn_told cb {CONN_DISCONNECTED} v" for v
    using that by (rule conn_told_mono) simp
  have both: "conn_told cb {CONN_DISCONNECTED, CONN_SUSPENDED} v" if "conn_told cb {CONN_DISCONNECTED} v" for v
    using that by (rule conn_told_mono) simp
  show ?thesis
    unfolding svc_down_def Let_def w3_def [symmetric]
    using 3 any [OF 4] both [OF 3] both [OF 4] sus [OF 3] sus [OF 4] by simp
qed

lemma in_loop_close: "in_loop cb w \<Longrightarrow> in_loop cb (svc_close (scripted lib script rest now) rs w)"
  unfolding svc_close_def
  by (auto simp: Let_def frame_state_def intro!: in_loop_state conn.close_law conn.send_law)

lemma in_loop_round:
  assumes w: "in_loop cb w"
  shows "in_loop cb (snd (svc_loop (scripted lib script rest now) r rs w))"
proof -
  have "in_loop cb (w\<lparr>rw_client := c\<rparr>)" if "rt_drain_one (rw_client w) = (p, c)" for p c
    using w that by (auto simp: in_loop_def conn_told_def rt_drain_one_def split: option.splits)
  then have "in_loop cb (snd (rt_drain_ring w))"
    using w conn.send_law by (auto simp: rt_drain_ring_def split: prod.split option.split)
  then show ?thesis using w in_loop_close conn.recv_law by (simp add: svc_loop_def Let_def)
qed

lemma svc_loop_pc: "fst (svc_loop env r rs w) \<in> {Svc_Check, Svc_Loop}"
  by (simp add: svc_loop_def Let_def)

lemma conn_told_retry:
  assumes "conn_told cb (pc_states Svc_Retry) w"
  shows "conn_told cb (pc_states (fst (svc_retry random w))) (snd (svc_retry random w))"
proof -
  have "conn_told cb (- {CONN_CLOSING}) w" using assms by (rule conn_told_mono) simp
  then show ?thesis using assms
    by (auto simp: svc_retry_def Let_def conn_told_def set_client_def conn_replay_append)
qed

lemma svc_next_told:
  assumes nxt: "svc_next inp (pc, w) = Some (pc', w')" and env: "si_env inp = scripted lib script rest now"
    and w: "conn_told cb (pc_states pc) w"
  shows "conn_told cb (pc_states pc') w'"
proof (cases pc)
  case Svc_Top
  then show ?thesis using nxt conn_told_top [of cb w] w by auto
next
  case Svc_Connect
  have "conn_told cb {CONN_CONNECTING} (snd (ws_connect (si_conn inp) w))"
    using w Svc_Connect by (intro conn_any.connect_law) simp
  then have "conn_told cb (pc_states Svc_Loop) (snd (ws_connect (si_conn inp) w))"
    "conn_told cb (pc_states Svc_Down) (snd (ws_connect (si_conn inp) w))"
    by (auto elim: conn_told_mono)
  then show ?thesis using nxt Svc_Connect
    by (auto simp: svc_connect_def split: prod.splits option.splits if_splits)
next
  case Svc_Loop
  then show ?thesis
    using nxt env in_loop_round [of cb w lib script rest now "si_recv inp" "si_close inp"] w
      in_loop_def [of cb] svc_loop_pc [of "si_env inp" "si_recv inp" "si_close inp" w] by auto
next
  case Svc_Check
  then have "pc' = svc_check w" "w' = w" using nxt by auto
  then show ?thesis using w Svc_Check by (auto simp: svc_check_def Let_def conn_told_def)
next
  case Svc_Down
  then show ?thesis using nxt w conn_told_down [of cb w "si_auth inp"] by simp
next
  case Svc_Suspended
  then show ?thesis using nxt w
    by (auto simp: svc_suspended_def intro!: conn_told_client elim: conn_told_mono)
next
  case Svc_Retry
  then show ?thesis using nxt w conn_told_retry [of cb w "si_random inp"] by simp
next
  case Svc_Sleep
  then show ?thesis using nxt w by (auto elim: conn_told_mono)
qed (use nxt in simp_all)

text \<open>The runs of a client that leaves its connection to the service thread and keeps its callback.\<close>

inductive thread_reach :: "codec_lib \<Rightarrow> cb_script \<Rightarrow> svc_pc \<times> rt_world \<Rightarrow> svc_pc \<times> rt_world \<Rightarrow> bool"
  for lib script s0
where
  thread_start: "thread_reach lib script s0 s0"
| thread_piece: "thread_reach lib script s0 s \<Longrightarrow> svc_step lib script s s' \<Longrightarrow> thread_reach lib script s0 s'"
| thread_connect: "thread_reach lib script s0 (pc, w) \<Longrightarrow> pc = Svc_Idle \<or> pc = Svc_Exit \<Longrightarrow>
    thread_reach lib script s0 (snd (rt_client_connect ok w))"
| thread_call: "thread_reach lib script s0 (pc, w) \<Longrightarrow> app_call lib w w' \<Longrightarrow>
    rt_conn_cb (rw_client w') = rt_conn_cb (rw_client w) \<Longrightarrow> thread_reach lib script s0 (pc, w')"
| thread_join: "thread_reach lib script s0 (Svc_Exit, w) \<Longrightarrow>
    thread_reach lib script s0 (Svc_Idle, rt_close_join w)"

lemma app_call_told:
  assumes "app_call lib w w'" "rt_conn_cb (rw_client w') = rt_conn_cb (rw_client w)" "conn_told cb S w"
  shows "conn_told cb S w'"
  using assms(1)
proof (cases rule: app_call.cases)
  case (call_channel i op)
  then show ?thesis using conn_told_channel [OF chan_safe_api assms(3)] by simp
next
  case (call_get name)
  then show ?thesis using assms(3) by (simp add: conn_told_def rt_channel_get_def split: option.split)
next
  case (call_conn_cb n)
  then show ?thesis using assms(2,3)
    by (simp add: conn_told_def rt_client_set_conn_state_cb_def set_client_def)
qed (use assms(3) in \<open>simp add: conn_told_def rt_close_request_def set_client_def\<close>)

lemma thread_reach_told:
  "thread_reach lib script s0 s \<Longrightarrow> conn_told cb (pc_states (fst s0)) (snd s0) \<Longrightarrow>
     conn_told cb (pc_states (fst s)) (snd s)"
proof (induction rule: thread_reach.induct)
  case (thread_piece s s')
  then show ?case using svc_next_told by (cases s; cases s') (fastforce elim!: svc_stepE)
next
  case (thread_connect pc w ok)
  then show ?case
    by (auto simp: rt_client_connect_def Let_def intro!: conn_told_client)
next
  case (thread_call pc w w')
  then show ?case using app_call_told by auto
next
  case (thread_join w)
  then show ?case by (auto simp: rt_close_join_def intro!: conn_told_client)
qed

text \<open>C4. The connection refines its state machine. Whatever the network, the server and the application
  do, the connection callbacks of a client with a service thread replay as a run of the machine from
  INITIALIZED to the state the client is in: each reports the state before it as the old one, a change the
  machine has, and the reason that belongs to the new state. So SUSPENDED follows DISCONNECTED only,
  DISCONNECTED follows CONNECTING or CONNECTED only, INITIALIZED never comes back and CLOSING, which the
  header declares, is never entered. The thread tries to connect in CONNECTING and waits for its next
  attempt in DISCONNECTED or SUSPENDED.\<close>

theorem connection_refines_machine:
  assumes "rt_client_create key opts = Some w0" and "cb \<noteq> 0"
    and "thread_reach lib script (Svc_Idle, rt_client_set_conn_state_cb cb w0) (pc, w)"
  shows "conn_replay CONN_INITIALIZED (rw_events w) = Some (rc_state (rw_client w)) \<and>
    rc_state (rw_client w) \<in> pc_states pc \<and> rc_state (rw_client w) \<noteq> CONN_CLOSING"
proof -
  have "conn_told cb (- {CONN_CLOSING}) (rt_client_set_conn_state_cb cb w0)"
    using assms(1,2) by (auto simp: conn_told_def rt_client_set_conn_state_cb_def set_client_def rt_client_create_def
        Let_def split: if_splits)
  with thread_reach_told [OF assms(3), of cb] have "conn_told cb (pc_states pc) w" by simp
  moreover have "CONN_CLOSING \<notin> pc_states pc" by (cases pc) simp_all
  ultimately show ?thesis by (auto simp: conn_told_def)
qed

lemma connection_refines_machine_witness:
  "\<exists>w1 w2. svc_next quiet_input (Svc_Top, w1) = Some (Svc_Connect, w2) \<and> w1 = snd (snd (rt_client_connect True
      (rt_client_set_conn_state_cb 7 demo_world))) \<and>
    conn_replay CONN_INITIALIZED (rw_events w2) = Some CONN_CONNECTING \<and>
    rw_events w2 = [Ev_Conn 7 CONN_CONNECTING CONN_INITIALIZED ABLY_OK]"
proof -
  let ?w0 = "rt_client_set_conn_state_cb 7 demo_world"
  let ?w1 = "snd (snd (rt_client_connect True ?w0))"
  have s1: "snd (rt_client_connect True ?w0) = (Svc_Top, ?w1)" by (simp add: rt_client_connect_def Let_def)
  have c: "\<not> rt_close_requested (rw_client ?w1)"
    by (simp add: rt_client_connect_def Let_def set_client_def)
  define w2 where "w2 = prepare_connect (rt_set_state_locked CONN_CONNECTING ABLY_OK ?w1)"
  have n: "svc_next quiet_input (Svc_Top, ?w1) = Some (Svc_Connect, w2)" using c by (simp add: svc_top_def w2_def)
  have "thread_reach no_lib (\<lambda>cb m. []) (Svc_Idle, ?w0) (Svc_Top, ?w1)"
    unfolding s1 [symmetric] by (rule thread_connect [OF thread_start]) simp
  moreover have "svc_step no_lib (\<lambda>cb m. []) (Svc_Top, ?w1) (Svc_Connect, w2)"
    using n by (intro svc_piece [of quiet_input _ _ None 0]) (simp_all add: quiet_input_def)
  ultimately have "thread_reach no_lib (\<lambda>cb m. []) (Svc_Idle, ?w0) (Svc_Connect, w2)" by (rule thread_piece)
  from connection_refines_machine [OF demo_world_create _ this]
  have "conn_replay CONN_INITIALIZED (rw_events w2) = Some CONN_CONNECTING" by simp
  moreover have "rw_events w2 = [Ev_Conn 7 CONN_CONNECTING CONN_INITIALIZED ABLY_OK]"
    by (simp add: w2_def prepare_connect_def Let_def set_ws_def set_client_def rt_set_state_locked_def
        rt_client_connect_def rt_client_set_conn_state_cb_def demo_world_def rt_client_create_def)
  ultimately show ?thesis using n by blast
qed

end
