(* ===== verification/Ably_Channel_Delta.thy ===== *)
theory Ably_Channel_Delta
  imports Ably_Channel_Props
begin

text \<open>
  Delta compression over a stream of messages. The callbacks of a delta channel see what they would see
  if the server had sent every payload in full, whatever calls they make on the channel in turn.
\<close>

section \<open>The delta buffers are private\<close>

text \<open>\<open>rebase\<close> replaces what the channel keeps for decoding. No call of the application reads or writes
  it on a channel that has deltas enabled.\<close>

definition rebase :: "byte list list \<Rightarrow> nat \<Rightarrow> string \<Rightarrow> 'c chan_world \<Rightarrow> 'c chan_world" where
  "rebase b i l = set_ch (\<lambda>ch. ch\<lparr>ch_delta_enabled := True, ch_delta_bufs := b, ch_delta_buf_idx := i,
     ch_delta_last_id := l\<rparr>)"

named_theorems rebase_simps \<open>operations that do not look at the delta buffers\<close>

lemma rebase_fields [simp]:
  "ch_name (cw_ch (rebase b i l w)) = ch_name (cw_ch w)"
  "ch_state (cw_ch (rebase b i l w)) = ch_state (cw_ch w)"
  "ch_subscribers (cw_ch (rebase b i l w)) = ch_subscribers (cw_ch w)"
  "ch_next_token (cw_ch (rebase b i l w)) = ch_next_token (cw_ch w)"
  "ch_state_cb (cw_ch (rebase b i l w)) = ch_state_cb (cw_ch w)"
  "ch_reattach_pending (cw_ch (rebase b i l w)) = ch_reattach_pending (cw_ch w)"
  "ch_rewind (cw_ch (rebase b i l w)) = ch_rewind (cw_ch w)"
  "ch_channel_serial (cw_ch (rebase b i l w)) = ch_channel_serial (cw_ch w)"
  "ch_occupancy_listener (cw_ch (rebase b i l w)) = ch_occupancy_listener (cw_ch w)"
  "ch_pres (cw_ch (rebase b i l w)) = ch_pres (cw_ch w)"
  "ch_pending (cw_ch (rebase b i l w)) = ch_pending (cw_ch w)"
  "ch_delta_enabled (cw_ch (rebase b i l w))"
  "ch_delta_bufs (cw_ch (rebase b i l w)) = b"
  "ch_delta_buf_idx (cw_ch (rebase b i l w)) = i"
  "cw_core (rebase b i l w) = cw_core w" "cw_events (rebase b i l w) = cw_events w"
  "rebase b i l (rebase b' i' l' w) = rebase b i l w"
  by (simp_all add: rebase_def set_ch_def)

lemma rebase_set_ch:
  assumes "\<And>ch. f (ch\<lparr>ch_delta_enabled := True, ch_delta_bufs := b, ch_delta_buf_idx := i, ch_delta_last_id := l\<rparr>) =
    (f ch)\<lparr>ch_delta_enabled := True, ch_delta_bufs := b, ch_delta_buf_idx := i, ch_delta_last_id := l\<rparr>"
  shows "set_ch f (rebase b i l w) = rebase b i l (set_ch f w)"
  using assms by (simp add: rebase_def set_ch_def)

lemma rebase_updates [rebase_simps]:
  "emit ev (rebase b i l w) = rebase b i l (emit ev w)"
  "(rebase b i l w)\<lparr>cw_core := c\<rparr> = rebase b i l (w\<lparr>cw_core := c\<rparr>)"
  "set_state_locked s r (rebase b i l w) = rebase b i l (set_state_locked s r w)"
  by (simp_all add: rebase_def set_ch_def emit_def set_state_locked_def Let_def)

lemma rebase_enqueue [rebase_simps]:
  "chan_enqueue p (rebase b i l w) = (fst (chan_enqueue p w), rebase b i l (snd (chan_enqueue p w)))"
  by (simp add: chan_enqueue_def Let_def case_prod_beta rebase_simps)

lemma rebase_attach_params:
  "channel_attach_params (cw_ch (rebase b i l w)) = channel_attach_params (cw_ch (rebase b' i' l' w))"
  by (simp add: channel_attach_params_def)

lemma rebase_attach:
  "channel_attach lib (rebase b i l w) =
     (fst (channel_attach lib (rebase [] 0 [] w)), rebase b i l (snd (channel_attach lib (rebase [] 0 [] w))))"
  by (simp add: channel_attach_def Let_def case_prod_beta rebase_simps
      rebase_attach_params [of b i l w "[]" 0 "[]"])

lemma rebase_detach [rebase_simps]:
  "channel_detach lib (rebase b i l w) = (fst (channel_detach lib w), rebase b i l (snd (channel_detach lib w)))"
  by (simp add: channel_detach_def Let_def case_prod_beta rebase_simps)

lemma rebase_publish_frame [rebase_simps]:
  "publish_frame lib n a d m (rebase b i l w) =
     (fst (publish_frame lib n a d m w), rebase b i l (snd (publish_frame lib n a d m w)))"
  by (simp add: publish_frame_def Let_def case_prod_beta rebase_simps)

lemma rebase_publish [rebase_simps]:
  "channel_publish lib a d (rebase b i l w) = (fst (channel_publish lib a d w), rebase b i l (snd (channel_publish lib a d w)))"
  by (simp add: channel_publish_def Let_def case_prod_beta rebase_simps split: option.split)
    (simp add: rebase_def set_ch_def)

lemma rebase_publish_id [rebase_simps]:
  "channel_publish_with_id lib a d m (rebase b i l w) =
     (fst (channel_publish_with_id lib a d m w), rebase b i l (snd (channel_publish_with_id lib a d m w)))"
  by (simp add: channel_publish_with_id_def rebase_simps)

lemma rebase_set_options:
  "channel_set_options lib r m (rebase b i l w) =
     (fst (channel_set_options lib r m (rebase [] 0 [] w)),
      rebase b i l (snd (channel_set_options lib r m (rebase [] 0 [] w))))"
proof -
  let ?f = "\<lambda>ch. channel_set_modes m (channel_set_rewind r ch)"
  have 1: "set_ch ?f (rebase b i l w) = rebase b i l (set_ch ?f w)" for b i l
    by (rule rebase_set_ch) (simp add: channel_set_modes_def channel_set_rewind_def)
  show ?thesis
    by (simp add: channel_set_options_def Let_def case_prod_beta 1 rebase_detach
        rebase_attach [of lib b i l "snd (channel_detach lib (set_ch ?f w))"])
qed

lemma rebase_pres [rebase_simps]:
  "(rebase b i l w)\<lparr>cw_ch := (cw_ch (rebase b i l w))\<lparr>ch_pres := p\<rparr>\<rparr> = rebase b i l (w\<lparr>cw_ch := (cw_ch w)\<lparr>ch_pres := p\<rparr>\<rparr>)"
  "(rebase b i l w)\<lparr>cw_ch := cw_ch (rebase b i l w)\<rparr> = rebase b i l w"
proof -
  have "set_ch (\<lambda>ch. ch\<lparr>ch_pres := p\<rparr>) (rebase b i l w) = rebase b i l (set_ch (\<lambda>ch. ch\<lparr>ch_pres := p\<rparr>) w)"
    by (rule rebase_set_ch) simp
  then show "(rebase b i l w)\<lparr>cw_ch := (cw_ch (rebase b i l w))\<lparr>ch_pres := p\<rparr>\<rparr> =
      rebase b i l (w\<lparr>cw_ch := (cw_ch w)\<lparr>ch_pres := p\<rparr>\<rparr>)"
    unfolding set_ch_def .
qed simp

lemma rebase_send_own [rebase_simps]:
  "send_own_presence lib act d ps (rebase b i l w) =
     (fst (send_own_presence lib act d ps w), rebase b i l (snd (send_own_presence lib act d ps w)))"
  by (simp add: send_own_presence_def Let_def rebase_simps)

lemma rebase_leave [rebase_simps]:
  "channel_presence_leave lib d (rebase b i l w) =
     (fst (channel_presence_leave lib d w), rebase b i l (snd (channel_presence_leave lib d w)))"
  by (simp add: channel_presence_leave_def rebase_simps split: option.split)

lemma rebase_presence_update [rebase_simps]:
  "channel_presence_update lib d (rebase b i l w) =
     (fst (channel_presence_update lib d w), rebase b i l (snd (channel_presence_update lib d w)))"
  by (simp add: channel_presence_update_def rebase_simps split: option.split)

lemma rebase_enter [rebase_simps]:
  "channel_presence_enter lib ok c d (rebase b i l w) =
     (fst (channel_presence_enter lib ok c d w), rebase b i l (snd (channel_presence_enter lib ok c d w)))"
proof (cases "ch_pres (cw_ch w)")
  case None
  have "(rebase b i l w)\<lparr>cw_ch := (cw_ch (rebase b i l w))\<lparr>ch_pres := p\<rparr>, cw_core := c\<rparr> =
      rebase b i l (w\<lparr>cw_ch := (cw_ch w)\<lparr>ch_pres := p\<rparr>, cw_core := c\<rparr>)" for p c
    by (simp add: rebase_simps)
  then show ?thesis using None
    by (simp add: channel_presence_enter_def ensure_pres_def Let_def rebase_simps)
next
  case (Some ps)
  have "(rebase b i l w)\<lparr>cw_ch := (cw_ch (rebase b i l w))\<lparr>ch_pres := p\<rparr>, cw_core := c\<rparr> =
      rebase b i l (w\<lparr>cw_ch := (cw_ch w)\<lparr>ch_pres := p\<rparr>, cw_core := c\<rparr>)" for p c
    by (simp add: rebase_simps)
  then show ?thesis using Some
    by (simp add: channel_presence_enter_def ensure_pres_def Let_def rebase_simps)
qed

lemma rebase_fields_calls [rebase_simps]:
  "set_ch (\<lambda>ch. snd (channel_subscribe f cb ch)) (rebase b i l w) =
     rebase b i l (set_ch (\<lambda>ch. snd (channel_subscribe f cb ch)) w)"
  "set_ch (\<lambda>ch. snd (channel_unsubscribe t ch)) (rebase b i l w) =
     rebase b i l (set_ch (\<lambda>ch. snd (channel_unsubscribe t ch)) w)"
  "set_ch (channel_set_modes m) (rebase b i l w) = rebase b i l (set_ch (channel_set_modes m) w)"
  "set_ch (channel_set_rewind r) (rebase b i l w) = rebase b i l (set_ch (channel_set_rewind r) w)"
  "set_ch (channel_set_occupancy_listener cb) (rebase b i l w) =
     rebase b i l (set_ch (channel_set_occupancy_listener cb) w)"
  "set_ch (channel_set_state_cb cb) (rebase b i l w) = rebase b i l (set_ch (channel_set_state_cb cb) w)"
  by (rule rebase_set_ch, simp add: channel_subscribe_def channel_unsubscribe_def channel_set_modes_def
      channel_set_rewind_def channel_set_occupancy_listener_def channel_set_state_cb_def Let_def split: option.split)+

lemma rebase_pres_calls [rebase_simps]:
  "set_ch (\<lambda>ch. snd (channel_presence_subscribe ok cb ch)) (rebase b i l w) =
     rebase b i l (set_ch (\<lambda>ch. snd (channel_presence_subscribe ok cb ch)) w)"
  "set_ch (channel_presence_unsubscribe t) (rebase b i l w) =
     rebase b i l (set_ch (channel_presence_unsubscribe t) w)"
  by (rule rebase_set_ch, simp add: channel_presence_subscribe_def channel_presence_unsubscribe_def
      ensure_pres_def case_prod_beta split: option.split)+

lemma rebase_enable_delta:
  "set_ch (\<lambda>ch. snd (channel_enable_delta ok ch)) (rebase b i l w) = rebase b i l w"
proof -
  have "snd (channel_enable_delta ok ch) = ch" if "ch_delta_enabled ch" for ch
    using that by (simp add: channel_enable_delta_def)
  then have "snd (channel_enable_delta ok (cw_ch (rebase b i l w))) = cw_ch (rebase b i l w)" by simp
  then show ?thesis by (simp add: set_ch_def)
qed

text \<open>Whatever the buffers hold, a call does the same and leaves them alone.\<close>

lemma rebase_api:
  "chan_api lib op (rebase b i l w) = rebase b i l (chan_api lib op (rebase [] 0 [] w))"
  by (cases op)
    (simp_all add: rebase_simps rebase_enable_delta rebase_attach [of lib b i l w] rebase_set_options [of lib _ _ b i l w])

lemma rebase_script: "script_env lib script cb m (rebase b i l w) =
  rebase b i l (script_env lib script cb m (rebase [] 0 [] w))"
proof -
  have "fold (chan_api lib) ops (rebase b i l w) = rebase b i l (fold (chan_api lib) ops (rebase [] 0 [] w))"
    for ops b i l w
  proof (induction ops arbitrary: b i l w)
    case (Cons op ops)
    show ?case
      using Cons.IH [of b i l "chan_api lib op (rebase [] 0 [] w)"]
        Cons.IH [of "[]" 0 "[]" "chan_api lib op (rebase [] 0 [] w)"]
      by (simp add: rebase_api [of lib op b i l w]) (metis rebase_api rebase_fields(17))
  qed simp
  then show ?thesis by (simp add: script_env_def)
qed

section \<open>Streams\<close>

text \<open>A stream item is a full payload or a delta, a sequence of instructions on the payload before it.
  \<open>carries base item pm\<close>: the message \<open>pm\<close> carries the item when \<open>base\<close> is the payload before it.\<close>

datatype delta_item = Full string | Delta "vc_op list"

fun item_target :: "byte list \<Rightarrow> delta_item \<Rightarrow> byte list" where
  "item_target base (Full d) = bytes_of d"
| "item_target base (Delta ops) = vc_target base ops []"

fun item_payload :: "byte list \<Rightarrow> delta_item \<Rightarrow> string" where
  "item_payload base (Full d) = d"
| "item_payload base (Delta ops) = text_of (vc_target base ops [])"

fun carries :: "byte list \<Rightarrow> delta_item \<Rightarrow> ably_proto_message \<Rightarrow> bool" where
  "carries base (Full d) pm \<longleftrightarrow> prm_data pm = Some d \<and> prm_delta_format pm = None \<and>
     length d < ABLY_MAX_MESSAGE_DATA_LEN"
| "carries base (Delta ops) pm \<longleftrightarrow> prm_delta_format pm = Some ''vcdiff'' \<and>
     prm_data pm = Some (ably_base64_encode (vc_encode base ops)) \<and>
     vc_encodable (ABLY_MAX_MESSAGE_DATA_LEN - 1) base ops \<and>
     length (vc_encode base ops) + 6 \<le> ABLY_MAX_MESSAGE_DATA_LEN"

fun delta_stream :: "byte list \<Rightarrow> (delta_item \<times> ably_proto_message) list \<Rightarrow> bool" where
  "delta_stream base [] = True"
| "delta_stream base ((it, pm) # xs) \<longleftrightarrow> carries base it pm \<and> delta_stream (item_target base it) xs"

fun stream_end :: "byte list \<Rightarrow> (delta_item \<times> ably_proto_message) list \<Rightarrow> byte list" where
  "stream_end base [] = base"
| "stream_end base ((it, pm) # xs) = stream_end (item_target base it) xs"

text \<open>The same messages with every payload in full.\<close>

fun in_full :: "byte list \<Rightarrow> (delta_item \<times> ably_proto_message) list \<Rightarrow> ably_proto_message list" where
  "in_full base [] = []"
| "in_full base ((it, pm) # xs) =
     pm\<lparr>prm_data := Some (item_payload base it), prm_delta_format := None\<rparr> # in_full (item_target base it) xs"

text \<open>A channel ready to decode on a base.\<close>

definition decodes_on :: "byte list \<Rightarrow> channel \<Rightarrow> bool" where
  "decodes_on base ch \<longleftrightarrow> ch_delta_enabled ch \<and> length (ch_delta_bufs ch) = 2 \<and> ch_delta_buf_idx ch < 2 \<and>
     delta_base ch = base"

lemma rebase_own:
  "ch_delta_enabled (cw_ch w) \<Longrightarrow>
     rebase (ch_delta_bufs (cw_ch w)) (ch_delta_buf_idx (cw_ch w)) (ch_delta_last_id (cw_ch w)) w = w"
  by (simp add: rebase_def set_ch_def)

lemma resolve_full:
  assumes on: "ch_delta_enabled (cw_ch w)" and pm: "prm_data pm = Some d" "prm_delta_format pm = None"
  shows "\<exists>b i l. resolve_data pm (cw_ch w) = (Res_Data (Some d), cw_ch (rebase b i l w)) \<and>
    w\<lparr>cw_ch := cw_ch (rebase b i l w)\<rparr> = rebase b i l w \<and>
    (length (ch_delta_bufs (cw_ch w)) = 2 \<longrightarrow> ch_delta_buf_idx (cw_ch w) < 2 \<longrightarrow>
     length d < ABLY_MAX_MESSAGE_DATA_LEN \<longrightarrow> length b = 2 \<and> i < 2 \<and> b ! i = bytes_of d)"
proof -
  let ?ch = "cw_ch w" and ?i = "1 - ch_delta_buf_idx (cw_ch w)"
  let ?fits = "length d < ABLY_MAX_MESSAGE_DATA_LEN"
  let ?b = "if ?fits then (ch_delta_bufs ?ch)[?i := bytes_of d] else ch_delta_bufs ?ch"
  let ?j = "if ?fits then ?i else ch_delta_buf_idx ?ch"
  let ?l = "case prm_id pm of None \<Rightarrow> ch_delta_last_id ?ch | Some i \<Rightarrow> c_copy 128 i"
  have "resolve_data pm ?ch = (Res_Data (Some d), cw_ch (rebase ?b ?j ?l w))"
    using on pm
    by (simp add: resolve_data_def store_base_def Let_def rebase_def set_ch_def split: option.split)
  moreover have "w\<lparr>cw_ch := cw_ch (rebase ?b ?j ?l w)\<rparr> = rebase ?b ?j ?l w" by (simp add: rebase_def set_ch_def)
  ultimately show ?thesis by (intro exI conjI) auto
qed

lemma resolve_delta_item:
  assumes on: "decodes_on base (cw_ch w)" and pm: "carries base (Delta ops) pm"
  shows "\<exists>b i l. resolve_data pm (cw_ch w) = (Res_Data (Some (text_of (vc_target base ops []))), cw_ch (rebase b i l w)) \<and>
    w\<lparr>cw_ch := cw_ch (rebase b i l w)\<rparr> = rebase b i l w \<and> length b = 2 \<and> i < 2 \<and> b ! i = vc_target base ops []"
proof -
  let ?ch = "cw_ch w" and ?i = "1 - ch_delta_buf_idx (cw_ch w)" and ?d = "vc_encode base ops"
  let ?b = "(ch_delta_bufs ?ch)[?i := vc_target base ops []]"
  have "ably_base64_decode_max_len (length (ably_base64_encode ?d)) = (length ?d + 2) div 3 * 3 + 3"
    by (simp add: length_base64_encode ably_base64_decode_max_len_def)
  also have "\<dots> \<le> length ?d + 6" by linarith
  finally have m: "ably_base64_decode_max_len (length (ably_base64_encode ?d)) \<le> ABLY_MAX_MESSAGE_DATA_LEN"
    using pm by simp
  have dec: "ably_base64_decode ABLY_MAX_MESSAGE_DATA_LEN (ably_base64_encode ?d) = Some ?d"
    using pm by (intro base64_decode_encode) simp
  have v: "ably_vcdiff_decode (Some base) (Some ?d) (Some (ABLY_MAX_MESSAGE_DATA_LEN - 1)) = VC_OK (vc_target base ops [])"
    by (rule decode_encode) (use pm in simp)
  have "resolve_data pm ?ch = (Res_Data (Some (text_of (vc_target base ops []))), cw_ch (rebase ?b ?i (ch_delta_last_id ?ch) w))"
    using m dec v on pm
    by (simp add: resolve_data_def resolve_delta_def decodes_on_def delta_base_def Let_def rebase_def set_ch_def)
  moreover have "w\<lparr>cw_ch := cw_ch (rebase ?b ?i (ch_delta_last_id ?ch) w)\<rparr> = rebase ?b ?i (ch_delta_last_id ?ch) w"
    by (simp add: rebase_def set_ch_def)
  ultimately show ?thesis using on by (intro exI conjI) (auto simp: decodes_on_def)
qed

lemma resolve_item:
  assumes on: "decodes_on base (cw_ch w)" and pm: "carries base it pm"
  shows "\<exists>b i l. resolve_data pm (cw_ch w) = (Res_Data (Some (item_payload base it)), cw_ch (rebase b i l w)) \<and>
    w\<lparr>cw_ch := cw_ch (rebase b i l w)\<rparr> = rebase b i l w \<and> length b = 2 \<and> i < 2 \<and> b ! i = item_target base it"
proof (cases it)
  case (Full d)
  then show ?thesis using resolve_full [of w pm d] on pm by (auto simp: decodes_on_def)
next
  case (Delta ops)
  then show ?thesis using resolve_delta_item [OF on] pm by simp
qed

lemma rebase_deliver:
  "deliver_loop (script_env lib script) msg slots (rebase b i l w) =
     rebase b i l (deliver_loop (script_env lib script) msg slots (rebase [] 0 [] w))"
proof (induction slots arbitrary: b i l w)
  case (Cons k slots)
  let ?env = "script_env lib script" and ?s = "ch_subscribers (cw_ch w) ! k"
  let ?w = "rebase [] 0 [] (emit [Ev_Message (sub_cb ?s) msg] w)"
  have e: "?env (sub_cb ?s) msg (rebase b i l (emit [Ev_Message (sub_cb ?s) msg] w)) =
      rebase b i l (?env (sub_cb ?s) msg ?w)" for b i l
    by (rule rebase_script)
  have own: "rebase [] 0 [] (?env (sub_cb ?s) msg ?w) = ?env (sub_cb ?s) msg ?w" using e [of "[]" 0 "[]"] by simp
  show ?case
    using Cons.IH [of b i l w] Cons.IH [of b i l "?env (sub_cb ?s) msg ?w"]
    by (simp add: Let_def rebase_updates(1) e [of b i l] own)
qed simp

text \<open>Two channels that differ only in what they keep for decoding.\<close>

definition alike :: "'c chan_world \<Rightarrow> 'c chan_world \<Rightarrow> bool" where
  "alike w w' \<longleftrightarrow> rebase [] 0 [] w = rebase [] 0 [] w'"

lemma alike_rebase: "alike w w' \<Longrightarrow> rebase b i l w = rebase b i l w'"
  unfolding alike_def by (metis rebase_fields(17))

lemma alike_seen:
  "alike w w' \<Longrightarrow> cw_events w = cw_events w' \<and> cw_core w = cw_core w' \<and>
     ch_subscribers (cw_ch w) = ch_subscribers (cw_ch w') \<and> ch_state (cw_ch w) = ch_state (cw_ch w') \<and>
     ch_occupancy_listener (cw_ch w) = ch_occupancy_listener (cw_ch w')"
  unfolding alike_def by (metis rebase_fields)

text \<open>One message: its callbacks, on alike worlds that decoded the same payload.\<close>

definition deliver_resolved ::
  "'c cb_env \<Rightarrow> ably_proto_message \<Rightarrow> string option \<Rightarrow> 'c chan_world \<Rightarrow> 'c chan_world" where
  "deliver_resolved env pm data w =
     deliver_message env (message_of pm data)
       (if prm_has_occupancy pm \<and> ch_occupancy_listener (cw_ch w) \<noteq> 0
        then emit [Ev_Occupancy (ch_occupancy_listener (cw_ch w)) (prm_occupancy pm)] w else w)"

lemma rebase_deliver_resolved:
  fixes w :: "'x rt_core_scheme chan_world"
  shows
  "deliver_resolved (script_env lib script) pm d (rebase b i l w) =
     rebase b i l (deliver_resolved (script_env lib script) pm d (rebase [] 0 [] w))"
proof -
  have "deliver_message (script_env lib script) m (rebase b i l v) =
      rebase b i l (deliver_message (script_env lib script) m (rebase [] 0 [] v))"
    for m and v :: "'x rt_core_scheme chan_world"
    unfolding deliver_message_def by (rule rebase_deliver)
  then show ?thesis
    by (cases "prm_has_occupancy pm"; cases "ch_occupancy_listener (cw_ch w) = 0")
      (simp_all add: deliver_resolved_def rebase_updates(1))
qed

lemma handle_messages_resolved:
  assumes "resolve_data pm (cw_ch w) = (Res_Data data, cw_ch (rebase b i l w))"
    and "w\<lparr>cw_ch := cw_ch (rebase b i l w)\<rparr> = rebase b i l w"
  shows "handle_messages env (pm # pms) w = handle_messages env pms (deliver_resolved env pm data (rebase b i l w))"
  unfolding handle_messages.simps assms(1) prod.case resolved.case Let_def assms(2) deliver_resolved_def
  by (rule refl)

lemma stream_transparent:
  fixes w w' :: "'x rt_core_scheme chan_world"
  assumes "delta_stream base xs" "decodes_on base (cw_ch w)" "alike w w'" "ch_delta_enabled (cw_ch w')"
  shows "alike (handle_messages (script_env lib script) (map snd xs) w)
      (handle_messages (script_env lib script) (in_full base xs) w') \<and>
    decodes_on (stream_end base xs) (cw_ch (handle_messages (script_env lib script) (map snd xs) w))"
  using assms
proof (induction xs arbitrary: base w w')
  case (Cons x xs)
  obtain it pm where x: "x = (it, pm)" by fastforce
  let ?env = "script_env lib script" and ?p = "item_payload base it"
  let ?pm = "pm\<lparr>prm_data := Some ?p, prm_delta_format := None\<rparr>"
  obtain b i l where r: "resolve_data pm (cw_ch w) = (Res_Data (Some ?p), cw_ch (rebase b i l w))"
    "w\<lparr>cw_ch := cw_ch (rebase b i l w)\<rparr> = rebase b i l w" "length b = 2" "i < 2" "b ! i = item_target base it"
    using resolve_item [OF Cons.prems(2), of it pm] Cons.prems(1) x by auto
  obtain b' i' l' where r': "resolve_data ?pm (cw_ch w') = (Res_Data (Some ?p), cw_ch (rebase b' i' l' w'))"
    "w'\<lparr>cw_ch := cw_ch (rebase b' i' l' w')\<rparr> = rebase b' i' l' w'"
    using resolve_full [OF Cons.prems(4), of ?pm ?p] by auto
  let ?v = "deliver_resolved ?env pm (Some ?p) (rebase [] 0 [] w)"
  have v: "deliver_resolved ?env pm (Some ?p) (rebase b i l w) = rebase b i l ?v"
    by (rule rebase_deliver_resolved)
  have "deliver_resolved ?env ?pm (Some ?p) u = deliver_resolved ?env pm (Some ?p) u"
    for u :: "'x rt_core_scheme chan_world"
    by (simp add: deliver_resolved_def message_of_def)
  then have v': "deliver_resolved ?env ?pm (Some ?p) (rebase b' i' l' w') = rebase b' i' l' ?v"
    using rebase_deliver_resolved [of lib script pm "Some ?p" b' i' l' w']
      alike_rebase [OF Cons.prems(3), of "[]" 0 "[]"] by simp
  have "alike (rebase b i l ?v) (rebase b' i' l' ?v)" by (simp add: alike_def)
  moreover have "decodes_on (item_target base it) (cw_ch (rebase b i l ?v))"
    using r(3-5) by (simp add: decodes_on_def delta_base_def)
  ultimately show ?case
    using Cons.IH [of "item_target base it" "rebase b i l ?v" "rebase b' i' l' ?v"] Cons.prems(1)
      handle_messages_resolved [OF r(1,2), of ?env] handle_messages_resolved [OF r'(1,2), of ?env] v v' x
    by (simp del: handle_messages.simps)
qed simp

section \<open>Transparency\<close>

text \<open>C6. Delta compression is transparent. On a channel with deltas enabled, a MESSAGE frame whose
  messages are full payloads and deltas in any order, each delta made for the payload before it, causes
  exactly the callbacks, calls and outbound frames that the same frame with every payload in full would
  cause, whatever API calls the callbacks make; and it leaves the last payload as the base for the next
  frame, so that frames compose to a stream of any length.\<close>

theorem delta_stream_transparent:
  fixes lib script rest w
  assumes "pf_action f = ACTION_MESSAGE" and "decodes_on base (cw_ch w)" and "delta_stream base items"
  defines "run \<equiv> \<lambda>msgs. channel_on_frame lib (script_env lib script) rest (f\<lparr>pf_messages := msgs\<rparr>) w"
  shows "cw_events (run (map snd items)) = cw_events (run (in_full base items)) \<and>
    cw_core (run (map snd items)) = cw_core (run (in_full base items)) \<and>
    ch_subscribers (cw_ch (run (map snd items))) = ch_subscribers (cw_ch (run (in_full base items))) \<and>
    ch_state (cw_ch (run (map snd items))) = ch_state (cw_ch (run (in_full base items))) \<and>
    decodes_on (stream_end base items) (cw_ch (run (map snd items)))"
proof -
  let ?w = "set_ch (track_serial f) w"
  have serial: "track_serial (f\<lparr>pf_messages := msgs\<rparr>) = track_serial f" for msgs
    by (rule ext) (simp add: track_serial_def)
  have run: "run msgs = handle_messages (script_env lib script) msgs ?w" for msgs
    using assms(1) by (simp add: run_def channel_on_frame_def serial)
  have on: "decodes_on base (cw_ch ?w)"
    using assms(2) by (simp add: decodes_on_def delta_base_def set_ch_def track_serial_def)
  then have "ch_delta_enabled (cw_ch ?w)" by (simp add: decodes_on_def)
  from stream_transparent [OF assms(3) on _ this, of lib script]
  show ?thesis unfolding run by (auto simp: alike_def dest: alike_seen [unfolded alike_def])
qed

definition demo_stream :: "(delta_item \<times> ably_proto_message) list" where
  "demo_stream = [(Full ''ab'', plain_message (Some ''ab'') None),
     (Delta [Op_Copy 0 2, Op_Add [33]],
      plain_message (Some (ably_base64_encode (vc_encode [97, 98] [Op_Copy 0 2, Op_Add [33]]))) (Some ''vcdiff''))]"

definition demo_delta_world :: "rt_core chan_world" where
  "demo_delta_world = \<lparr>cw_ch = snd (channel_subscribe None 11 (snd (channel_enable_delta True (channel_create ''chat'')))),
     cw_core = demo_core, cw_events = []\<rparr>"

lemma bytes_of_ab: "bytes_of ''ab'' = [97, 98]"
  by (simp add: bytes_of_def)

lemma demo_stream_ok: "delta_stream [] demo_stream" "stream_end [] demo_stream = [97, 98, 33]"
  by (simp_all add: demo_stream_def plain_message_def bytes_of_ab capacity_defs vc_encodable_def vc_encode_def
      vc_encode_window_def vc_put_def VCDIFF_MAGIC_def)

lemma demo_delta_world_ready: "decodes_on [] (cw_ch demo_delta_world)"
proof -
  have "decodes_on [] (snd (channel_subscribe f cb ch))" if "decodes_on [] ch" for f cb ch
    using that by (simp add: decodes_on_def delta_base_def channel_subscribe_def Let_def split: option.split)
  moreover have "decodes_on [] (snd (channel_enable_delta True (channel_create ''chat'')))"
    by (simp add: decodes_on_def delta_base_def channel_enable_delta_def channel_create_def)
  ultimately show ?thesis by (simp add: demo_delta_world_def)
qed

lemma delta_stream_transparent_witness:
  "decodes_on [97, 98, 33] (cw_ch (channel_on_frame no_lib (script_env no_lib (\<lambda>cb m. [Op_Publish None None])) None
     ((blank_frame ACTION_MESSAGE)\<lparr>pf_messages := map snd demo_stream\<rparr>) demo_delta_world))"
  using delta_stream_transparent [OF _ demo_delta_world_ready demo_stream_ok(1), of "blank_frame ACTION_MESSAGE"]
    demo_stream_ok(2) by (simp add: blank_frame_def)

end
