(* ===== verification/Ably_Codec_Agree.thy ===== *)
theory Ably_Codec_Agree
  imports Ably_Codec
begin

text \<open>
  The two codecs against each other. The same value written as JSON and as MessagePack decodes to the same
  frame, field by field, within limits: integers of 64 bits, strings without NUL, objects without
  duplicate keys, metrics that are complete, and strings that fit the pool of the MessagePack decoder
  together. The encoders write the same value in both encodings.
\<close>

section \<open>One value in both encodings\<close>

fun mp_of_json :: "json \<Rightarrow> mp_node" where
  "mp_of_json JNull = MP_Nil"
| "mp_of_json (JBool b) = MP_Other"
| "mp_of_json (JNum r) = MP_Int (trunc_rat r)"
| "mp_of_json (JStr s) = MP_Str s"
| "mp_of_json (JArr xs) = MP_Array (map mp_of_json xs)"
| "mp_of_json (JObj kvs) = MP_Map (map (\<lambda>(k, v). (MP_Str k, mp_of_json v)) kvs)"

fun wire_ok :: "json \<Rightarrow> bool" where
  "wire_ok JNull = True"
| "wire_ok (JBool b) = True"
| "wire_ok (JNum r) \<longleftrightarrow> r = of_int (trunc_rat r) \<and> - (2 ^ 63) \<le> trunc_rat r \<and> trunc_rat r < 2 ^ 63"
| "wire_ok (JStr s) \<longleftrightarrow> CHR 0x00 \<notin> set s"
| "wire_ok (JArr xs) \<longleftrightarrow> (\<forall>x \<in> set xs. wire_ok x)"
| "wire_ok (JObj kvs) \<longleftrightarrow> distinct (map fst kvs) \<and> (\<forall>(k, v) \<in> set kvs. wire_ok v)"

text \<open>What the strings of a value take in the pool, each with its NUL.\<close>

fun text_size :: "json \<Rightarrow> nat" where
  "text_size (JStr s) = length s + 1"
| "text_size (JArr xs) = sum_list (map text_size xs)"
| "text_size (JObj kvs) = sum_list (map (\<lambda>(k, v). text_size v) kvs)"
| "text_size _ = 0"

fun is_obj :: "json \<Rightarrow> bool" where
  "is_obj (JObj kvs) = True"
| "is_obj _ = False"

definition opt_all :: "('a \<Rightarrow> bool) \<Rightarrow> 'a option \<Rightarrow> bool" where
  "opt_all P x = (case x of None \<Rightarrow> True | Some y \<Rightarrow> P y)"

definition int32_at :: "json \<Rightarrow> string \<Rightarrow> bool" where
  "int32_at obj key =
     (case json_get obj key of
        Some (JNum r) \<Rightarrow> - (2 ^ 31) \<le> trunc_rat r \<and> trunc_rat r < 2 ^ 31 | _ \<Rightarrow> False)"

definition metrics_complete :: "json \<Rightarrow> bool" where
  "metrics_complete met \<longleftrightarrow> list_all (int32_at met) [''connections'', ''publishers'', ''subscribers'',
     ''presenceConnections'', ''presenceMembers'', ''presenceSubscribers'']"

definition message_ok :: "json \<Rightarrow> bool" where
  "message_ok m \<longleftrightarrow> is_obj m \<and>
     opt_all metrics_complete (Option.bind (Option.bind (json_obj m ''extras'') (\<lambda>e. json_obj e ''occupancy''))
       (\<lambda>e. json_obj e ''metrics''))"

text \<open>The shape of a frame: a non-negative action, arrays of objects.\<close>

definition frame_ok :: "json \<Rightarrow> bool" where
  "frame_ok t \<longleftrightarrow> is_obj t \<and> int32_at t ''action'' \<and> 0 \<le> json_int64 t ''action'' 0 \<and>
     opt_all (list_all message_ok) (json_arr t ''messages'') \<and>
     opt_all (list_all is_obj) (json_arr t ''presence'')"

section \<open>Running the MessagePack decoder within its pool\<close>

text \<open>\<open>reads m v n\<close>: where the pool has room for \<open>n\<close> bytes and nothing has failed, \<open>m\<close> yields \<open>v\<close>, takes at
  most \<open>n\<close> bytes and fails nothing.\<close>

definition reads :: "'a mp_dec \<Rightarrow> 'a \<Rightarrow> nat \<Rightarrow> bool" where
  "reads m v n \<longleftrightarrow> (\<forall>st. \<not> tree_error st \<longrightarrow> pool_used st + n \<le> ABLY_PROTO_STRING_POOL_SIZE \<longrightarrow>
     (\<exists>k \<le> n. run_state m st = (v, st\<lparr>pool_used := pool_used st + k\<rparr>)))"

lemma reads_bind:
  assumes "reads m v a" "reads (f v) w b"
  shows "reads (State_Monad.bind m f) w (a + b)"
  unfolding reads_def
proof (intro allI impI)
  fix st :: mp_state
  assume st: "\<not> tree_error st" "pool_used st + (a + b) \<le> ABLY_PROTO_STRING_POOL_SIZE"
  obtain k where k: "k \<le> a" "run_state m st = (v, st\<lparr>pool_used := pool_used st + k\<rparr>)"
    using assms(1) st unfolding reads_def by fastforce
  obtain j where "j \<le> b" "run_state (f v) (st\<lparr>pool_used := pool_used st + k\<rparr>) =
      (w, st\<lparr>pool_used := pool_used st + k + j\<rparr>)"
    using assms(2) [unfolded reads_def, rule_format, of "st\<lparr>pool_used := pool_used st + k\<rparr>"] st k(1) by auto
  then show "\<exists>i \<le> a + b. run_state (State_Monad.bind m f) st = (w, st\<lparr>pool_used := pool_used st + i\<rparr>)"
    using k by (intro exI [of _ "k + j"]) (simp add: run_bind add.assoc)
qed

lemma reads_return: "v = w \<Longrightarrow> reads (State_Monad.return v) w 0"
  unfolding reads_def by (auto simp: run_return)

lemma reads_more: "reads m v a \<Longrightarrow> a \<le> b \<Longrightarrow> reads m v b"
  unfolding reads_def by (metis add_le_mono le_trans order_refl)

lemma reads_view: "reads (mp_view node) node 0"
  by (auto simp: reads_def run_mp_view)

text \<open>The member of a name, as the MessagePack decoder sees it.\<close>

lemma mp_filter_json:
  "distinct (map fst kvs) \<Longrightarrow>
     filter (\<lambda>(k, v). k = MP_Str key) (map (\<lambda>(k, v). (MP_Str k, mp_of_json v)) kvs) =
       (case map_of kvs key of None \<Rightarrow> [] | Some v \<Rightarrow> [(MP_Str key, mp_of_json v)])"
proof (induction kvs)
  case (Cons kv kvs)
  have "key \<notin> fst ` set kvs \<Longrightarrow> map_of kvs key = None" by (simp add: map_of_eq_None_iff)
  then show ?case using Cons by (cases kv) (auto split: option.splits)
qed simp

lemma mp_child_json:
  assumes "wire_ok t" "is_obj t" "\<not> tree_error st"
  shows "mp_child (mp_of_json t) key st = (case json_get t key of None \<Rightarrow> MP_Nil | Some v \<Rightarrow> mp_of_json v, st)"
proof (cases t)
  case (JObj kvs)
  then show ?thesis
    using assms mp_filter_json [of kvs key] by (simp add: mp_child_def run_mp_get split: option.split)
qed (use assms in simp_all)

lemma wire_ok_get: "wire_ok t \<Longrightarrow> json_get t key = Some v \<Longrightarrow> wire_ok v"
  by (cases t) (auto dest: map_of_SomeD)

definition key_size :: "json \<Rightarrow> string \<Rightarrow> nat" where
  "key_size t key = (case json_get t key of None \<Rightarrow> 0 | Some v \<Rightarrow> text_size v)"

lemma c_string_id: "CHR 0x00 \<notin> set s \<Longrightarrow> c_string s = s"
  by (auto simp: c_string_def takeWhile_eq_all_conv)

lemma reads_pool_str:
  assumes "wire_ok t" "is_obj t"
  shows "reads (pool_str (mp_of_json t) key) (json_str t key) (key_size t key)"
  unfolding reads_def
proof (intro allI impI)
  fix st :: mp_state
  assume st: "\<not> tree_error st" "pool_used st + key_size t key \<le> ABLY_PROTO_STRING_POOL_SIZE"
  note child = mp_child_json [OF assms st(1), of key]
  have none: "json_str t key = None \<Longrightarrow> run_state (pool_str (mp_of_json t) key) st = (None, st)"
    by (auto simp: run_pool_str child json_str_def split: option.splits json.splits)
  show "\<exists>k \<le> key_size t key. run_state (pool_str (mp_of_json t) key) st =
      (json_str t key, st\<lparr>pool_used := pool_used st + k\<rparr>)"
  proof (cases "json_str t key")
    case None
    then show ?thesis using none by (intro exI [of _ 0]) simp
  next
    case (Some s)
    then have g: "json_get t key = Some (JStr s)" by (auto simp: json_str_def split: option.splits json.splits)
    then show ?thesis
      using wire_ok_get [OF assms(1) g] st Some
      by (intro exI [of _ "length s + 1"]) (auto simp: run_pool_str child key_size_def c_string_id)
  qed
qed

lemma reads_int64:
  assumes "wire_ok t" "is_obj t"
  shows "reads (node_int64 (mp_of_json t) key d) (json_int64 t key d) 0"
  using wire_ok_get [OF assms(1), of key]
  by (auto simp: reads_def run_node_int64 mp_child_json [OF assms] json_int64_def double_int64_def Let_def
      split: option.split json.split)

lemma reads_str_copy:
  assumes "wire_ok t" "is_obj t"
  shows "reads (node_str_copy (mp_of_json t) key n) (c_copy n (c_str (json_str t key))) 0"
proof -
  have "c_string (c_copy n s) = c_copy n s" if "CHR 0x00 \<notin> set s" for s
    using that set_c_copy [of n s] by (intro c_string_id) auto
  then show ?thesis
    using wire_ok_get [OF assms(1), of key]
    by (auto simp: reads_def run_node_str_copy mp_child_json [OF assms] json_str_def
        split: option.split json.split)
qed

lemma reads_map:
  assumes "wire_ok t" "is_obj t"
  shows "reads (node_map (mp_of_json t) key) (map_option mp_of_json (json_obj t key)) 0"
  by (auto simp: reads_def run_node_map mp_child_json [OF assms] json_obj_def split: option.split json.split)

lemma reads_array:
  assumes "wire_ok t" "is_obj t"
  shows "reads (node_array (mp_of_json t) key)
    (map mp_of_json (case json_arr t key of None \<Rightarrow> [] | Some xs \<Rightarrow> xs)) 0"
  by (auto simp: reads_def run_node_array mp_child_json [OF assms] json_arr_def split: option.split json.split)

lemma reads_when:
  assumes "\<And>x. obj = Some x \<Longrightarrow> reads (f (mp_of_json x)) (g x) (c x)"
  shows "reads (mp_when (map_option mp_of_json obj) d f) (case obj of None \<Rightarrow> d | Some x \<Rightarrow> g x)
    (case obj of None \<Rightarrow> 0 | Some x \<Rightarrow> c x)"
  using assms by (cases obj) (auto simp: mp_when_def intro: reads_return)

lemma reads_list:
  assumes "\<And>x. x \<in> set xs \<Longrightarrow> reads (f (mp_of_json x)) (g x) (c x)"
  shows "reads (mp_map_list f (map mp_of_json xs)) (map g xs) (sum_list (map c xs))"
  using assms
proof (induction xs)
  case (Cons x xs)
  have "reads (mp_map_list f (map mp_of_json (x # xs))) (map g (x # xs)) (c x + (sum_list (map c xs) + 0))"
    unfolding list.map mp_map_list.simps
    by (rule reads_bind [OF Cons.prems reads_bind [OF Cons.IH reads_return]]) (use Cons.prems in auto)
  then show ?case by simp
qed (simp add: reads_return)

text \<open>The members of an object with different names do not share text.\<close>

lemma sum_key_size:
  assumes "distinct ks" "distinct (map fst kvs)"
  shows "sum_list (map (key_size (JObj kvs)) ks) \<le> text_size (JObj kvs)"
  using assms
proof (induction kvs arbitrary: ks)
  case Nil
  then show ?case by (simp add: key_size_def)
next
  case (Cons kv kvs)
  obtain k v where kv: "kv = (k, v)" by fastforce
  have new: "map_of kvs k = None" using Cons.prems(2) kv by (simp add: map_of_eq_None_iff)
  have at: "key_size (JObj (kv # kvs)) = (\<lambda>x. if x = k then text_size v else key_size (JObj kvs) x)"
    by (rule ext) (simp add: key_size_def kv)
  have "sum_list (map (\<lambda>x. if x = k then text_size v else key_size (JObj kvs) x) ks) \<le>
      text_size v + sum_list (map (key_size (JObj kvs)) (removeAll k ks))" if "distinct ks" for ks
    using that
  proof (induction ks)
    case (Cons x ks)
    show ?case
    proof (cases "x = k")
      case True
      then have "k \<notin> set ks" using Cons.prems by simp
      then have "sum_list (map (\<lambda>x. if x = k then text_size v else key_size (JObj kvs) x) ks) =
          sum_list (map (key_size (JObj kvs)) ks)" and r: "removeAll k ks = ks"
        by (auto intro!: arg_cong [where f = sum_list] map_cong)
      then show ?thesis using True by (simp add: r)
    qed (use Cons in simp)
  qed simp
  then have "sum_list (map (key_size (JObj (kv # kvs))) ks) \<le>
      text_size v + sum_list (map (key_size (JObj kvs)) (removeAll k ks))"
    using Cons.prems(1) unfolding at by blast
  also have "\<dots> \<le> text_size v + text_size (JObj kvs)"
    using Cons.IH [of "removeAll k ks"] Cons.prems by (simp add: distinct_removeAll)
  finally show ?case by (simp add: kv)
qed

lemma keys_fit:
  assumes "wire_ok t" "is_obj t" "distinct ks"
  shows "sum_list (map (key_size t) ks) \<le> text_size t"
  using assms sum_key_size [of ks] by (cases t) auto

section \<open>Messages and frames\<close>

lemma is_obj_json_obj: "json_obj t key = Some x \<Longrightarrow> is_obj x \<and> json_get t key = Some x"
  by (auto simp: json_obj_def split: option.splits json.splits)

lemma json_obj_child:
  assumes "json_obj t key = Some x" "wire_ok t"
  shows "wire_ok x" "is_obj x" "text_size x = key_size t key"
  using is_obj_json_obj [OF assms(1)] wire_ok_get [OF assms(2), of key] by (auto simp: key_size_def)

lemma reads_int:
  assumes "wire_ok t" "is_obj t" "int32_at t key"
  shows "reads (node_int (mp_of_json t) key) (c_int (json_int64 t key 0)) 0"
proof -
  obtain r where r: "json_get t key = Some (JNum r)" "- (2 ^ 31) \<le> trunc_rat r" "trunc_rat r < 2 ^ 31"
    using assms(3) by (auto simp: int32_at_def split: option.splits json.splits)
  have "run_state (mp_get (mp_of_json t) key) st = (MP_Int (trunc_rat r), st)" if "\<not> tree_error st" for st
    using mp_child_json [OF assms(1,2) that, of key] r(1) that
    by (auto simp: mp_child_def Let_def split: prod.splits if_splits)
  then show ?thesis using r
    by (simp add: reads_def node_int_def mp_run run_bind json_int64_def double_int64_def c_int_id)
qed

lemma reads_occupancy:
  assumes t: "wire_ok t" "is_obj t" "metrics_complete t"
  shows "reads (decode_occupancy_mp (mp_of_json t)) (decode_occupancy_json t) 0"
proof -
  have r: "reads (node_int (mp_of_json t) key) (c_int (json_int64 t key 0)) 0"
    if "key \<in> set [''connections'', ''publishers'', ''subscribers'', ''presenceConnections'', ''presenceMembers'',
      ''presenceSubscribers'']" for key
    using t that by (intro reads_int) (simp_all only: metrics_complete_def list_all_iff)
  have "reads (decode_occupancy_mp (mp_of_json t)) (decode_occupancy_json t) (0 + (0 + (0 + (0 + (0 + (0 + 0))))))"
    unfolding decode_occupancy_mp_def decode_occupancy_json_def
    by (intro reads_bind reads_return) ((rule r, simp)+, rule refl)
  then show ?thesis by simp
qed

lemma reads_obj_of:
  assumes "\<And>x. obj = Some x \<Longrightarrow> wire_ok x \<and> is_obj x"
  shows "reads (mp_when (map_option mp_of_json obj) None (\<lambda>e. node_map e key))
    (map_option mp_of_json (Option.bind obj (\<lambda>e. json_obj e key))) 0"
  using reads_when [of obj "\<lambda>e. node_map e key" "\<lambda>x. map_option mp_of_json (json_obj x key)" "\<lambda>x. 0" None]
    reads_map assms by (cases obj) auto

lemma reads_str_of:
  assumes "\<And>x. obj = Some x \<Longrightarrow> wire_ok x \<and> is_obj x"
  shows "reads (mp_when (map_option mp_of_json obj) None (\<lambda>e. pool_str e key))
    (Option.bind obj (\<lambda>e. json_str e key)) (case obj of None \<Rightarrow> 0 | Some x \<Rightarrow> key_size x key)"
  using reads_when [of obj "\<lambda>e. pool_str e key" "\<lambda>x. json_str x key" "\<lambda>x. key_size x key" None]
    reads_pool_str assms by (cases obj) auto

lemma reads_message:
  assumes m: "wire_ok m" "message_ok m"
  shows "reads (decode_message_mp (mp_of_json m)) (decode_message_json m) (text_size m)"
proof -
  have obj: "is_obj m" using m(2) by (simp add: message_ok_def)
  define ext where "ext = json_obj m ''extras''"
  define del where "del = Option.bind ext (\<lambda>e. json_obj e ''delta'')"
  define occ where "occ = Option.bind ext (\<lambda>e. json_obj e ''occupancy'')"
  define met where "met = Option.bind occ (\<lambda>e. json_obj e ''metrics'')"
  have ext: "wire_ok x \<and> is_obj x \<and> text_size x = key_size m ''extras''" if "ext = Some x" for x
    using json_obj_child [of m "''extras''" x] m(1) that by (simp add: ext_def)
  have del: "wire_ok x \<and> is_obj x \<and> (\<exists>e. ext = Some e \<and> text_size x = key_size e ''delta'')" if "del = Some x" for x
    using that ext json_obj_child [of _ "''delta''" x] by (auto simp: del_def bind_eq_Some_conv)
  have occ: "wire_ok x \<and> is_obj x" if "occ = Some x" for x
    using that ext json_obj_child [of _ "''occupancy''" x] by (auto simp: occ_def bind_eq_Some_conv)
  have met: "wire_ok x \<and> is_obj x \<and> metrics_complete x" if "met = Some x" for x
    using that occ json_obj_child [of _ "''metrics''" x] m(2)
    by (auto simp: met_def occ_def ext_def message_ok_def opt_all_def bind_eq_Some_conv)
  let ?del = "\<lambda>key. case del of None \<Rightarrow> 0 | Some x \<Rightarrow> key_size x key"
  have delta: "?del ''format'' + ?del ''from'' \<le> key_size m ''extras''"
  proof (cases del)
    case (Some d)
    then obtain e where e: "ext = Some e" "text_size d = key_size e ''delta''" "wire_ok d" "is_obj d"
      using del by blast
    have "?del ''format'' + ?del ''from'' \<le> text_size d"
      using keys_fit [OF e(3,4), of "[''format'', ''from'']"] Some by simp
    also have "\<dots> \<le> text_size e" using keys_fit [of e "[''delta'']"] ext [OF e(1)] e(2) by simp
    finally show ?thesis using ext [OF e(1)] by simp
  qed simp
  note str = reads_pool_str [OF m(1) obj]
  have occupancy: "reads (mp_when (map_option mp_of_json met) zero_occupancy decode_occupancy_mp)
      (case met of None \<Rightarrow> zero_occupancy | Some x \<Rightarrow> decode_occupancy_json x) 0"
    using reads_when [of met decode_occupancy_mp decode_occupancy_json "\<lambda>x. 0" zero_occupancy]
      reads_occupancy met by (cases met) auto
  have "reads (decode_message_mp (mp_of_json m)) (decode_message_json m)
      (0 + (key_size m ''id'' + (key_size m ''clientId'' + (key_size m ''connectionId'' + (key_size m ''name'' +
       (key_size m ''data'' + (key_size m ''encoding'' + (0 + (0 + (0 + (?del ''format'' + (?del ''from'' +
       (0 + (0 + (0 + 0)))))))))))))))"
    unfolding decode_message_mp_def
    by (rule reads_bind [OF reads_view], (rule reads_bind [OF str])+,
        rule reads_bind [OF reads_int64 [OF m(1) obj]],
        rule reads_bind [OF reads_map [OF m(1) obj, of "''extras''", folded ext_def]],
        rule reads_bind [OF reads_obj_of [of ext "''delta''", folded del_def]], use ext in blast,
        rule reads_bind [OF reads_str_of [of del]], use del in blast,
        rule reads_bind [OF reads_str_of [of del]], use del in blast,
        rule reads_bind [OF reads_obj_of [of ext "''occupancy''", folded occ_def]], use ext in blast,
        rule reads_bind [OF reads_obj_of [of occ "''metrics''", folded met_def]], use occ in blast,
        rule reads_bind [OF occupancy], rule reads_return,
        simp add: decode_message_json_def ext_def del_def occ_def met_def Let_def)
  moreover have "key_size m ''id'' + key_size m ''clientId'' + key_size m ''connectionId'' + key_size m ''name'' +
      key_size m ''data'' + key_size m ''encoding'' + key_size m ''extras'' \<le> text_size m"
    using keys_fit [OF m(1) obj, of "[''id'', ''clientId'', ''connectionId'', ''name'', ''data'', ''encoding'', ''extras'']"]
    by simp
  ultimately show ?thesis using delta by (elim reads_more) linarith
qed

lemma reads_presence:
  assumes p: "wire_ok p" "is_obj p"
  shows "reads (decode_presence_mp (mp_of_json p)) (decode_presence_json p) 0"
proof -
  have "reads (decode_presence_mp (mp_of_json p)) (decode_presence_json p) (0 + (0 + (0 + (0 + (0 + (0 + 0))))))"
    unfolding decode_presence_mp_def
    by (rule reads_bind [OF reads_view], (rule reads_bind [OF reads_int64 [OF p]])+,
        (rule reads_bind [OF reads_str_copy [OF p]])+, rule reads_return, simp add: decode_presence_json_def)
  then show ?thesis by simp
qed

lemma reads_conn_details:
  assumes p: "wire_ok t"
  shows "reads (mp_when (map_option mp_of_json (json_obj t ''connectionDetails'')) no_conn_details decode_conn_details_mp)
    (decode_conn_details_json t) 0"
proof (cases "json_obj t ''connectionDetails''")
  case None
  then show ?thesis by (simp add: mp_when_def decode_conn_details_json_def reads_return)
next
  case (Some cd)
  note cd = json_obj_child(1,2) [OF Some p]
  have "reads (decode_conn_details_mp (mp_of_json cd)) (decode_conn_details_json t) (0 + (0 + (0 + (0 + (0 + 0)))))"
    unfolding decode_conn_details_mp_def
    by ((rule reads_bind [OF reads_str_copy [OF cd]])+, (rule reads_bind [OF reads_int64 [OF cd]])+,
        rule reads_return, simp add: decode_conn_details_json_def Some)
  then show ?thesis using Some by (simp add: mp_when_def)
qed

lemma json_arr_child:
  assumes "json_arr t key = Some xs" "wire_ok t"
  shows "\<forall>x \<in> set xs. wire_ok x" "sum_list (map text_size xs) = key_size t key"
proof -
  have g: "json_get t key = Some (JArr xs)" using assms(1) by (auto simp: json_arr_def split: option.splits json.splits)
  show "\<forall>x \<in> set xs. wire_ok x" using wire_ok_get [OF assms(2) g] by simp
  show "sum_list (map text_size xs) = key_size t key" by (simp add: key_size_def g)
qed

lemma sum_list_take: "sum_list (map f (take n xs)) \<le> sum_list (map (f :: 'a \<Rightarrow> nat) xs)"
  by (induction xs arbitrary: n) (simp_all add: take_Cons split: nat.split)

lemma reads_array_of:
  assumes "\<And>x. x \<in> set xs \<Longrightarrow> reads (f (mp_of_json x)) (g x) (c x)"
  shows "reads (mp_map_list f (take n (map mp_of_json xs))) (map g (take n xs)) (sum_list (map c xs))"
  unfolding take_map
proof (rule reads_more [OF reads_list sum_list_take])
  fix x
  assume "x \<in> set (take n xs)"
  then have "x \<in> set xs" by (rule in_set_takeD)
  then show "reads (f (mp_of_json x)) (g x) (c x)" by (rule assms)
qed

lemma reads_frame:
  assumes t: "wire_ok t" "frame_ok t" and a: "json_get t ''action'' = Some (JNum a)"
  shows "reads (decode_frame_mp (mp_of_json t)) (Some (decode_frame_json a t)) (text_size t)"
proof -
  have obj: "is_obj t" and i: "int32_at t ''action''" "0 \<le> json_int64 t ''action'' 0"
    using t(2) by (simp_all add: frame_ok_def)
  have act: "json_int64 t ''action'' (-1) = trunc_rat a" "\<not> c_int (trunc_rat a) < 0"
    using i a by (simp_all add: json_int64_def double_int64_def int32_at_def c_int_id)
  define err where "err = json_obj t ''error''"
  have err: "wire_ok x \<and> is_obj x \<and> text_size x = key_size t ''error''" if "err = Some x" for x
    using json_obj_child [of t "''error''" x] t(1) that by (simp add: err_def)
  let ?err = "case err of None \<Rightarrow> 0 | Some x \<Rightarrow> key_size x ''message''"
  have errs: "?err \<le> key_size t ''error''"
  proof (cases err)
    case (Some x)
    then show ?thesis using keys_fit [of x "[''message'']"] err by simp
  qed simp
  define ms where "ms = json_arr t ''messages''"
  define ps where "ps = json_arr t ''presence''"
  let ?ms = "case ms of None \<Rightarrow> [] | Some xs \<Rightarrow> xs" and ?ps = "case ps of None \<Rightarrow> [] | Some xs \<Rightarrow> xs"
  have msgs: "reads (decode_message_mp (mp_of_json x)) (decode_message_json x) (text_size x)" if "x \<in> set ?ms" for x
    using that t json_arr_child(1) [of t "''messages''"]
    by (intro reads_message) (auto simp: ms_def frame_ok_def opt_all_def list_all_iff split: option.splits)
  have pres: "reads (decode_presence_mp (mp_of_json x)) (decode_presence_json x) 0" if "x \<in> set ?ps" for x
    using that t json_arr_child(1) [of t "''presence''"]
    by (intro reads_presence) (auto simp: ps_def frame_ok_def opt_all_def list_all_iff split: option.splits)
  note msgs = reads_array_of [of ?ms decode_message_mp decode_message_json text_size DECODE_MSGS_CAP, OF msgs]
    and pres = reads_array_of [of ?ps decode_presence_mp decode_presence_json "\<lambda>x. 0" ABLY_MAX_PRESENCE_PER_FRAME, OF pres]
  have size: "sum_list (map text_size ?ms) \<le> key_size t ''messages''"
    using json_arr_child(2) [of t "''messages''"] t(1) by (simp add: ms_def split: option.split)
  have code: "reads (mp_when (map_option mp_of_json err) 0 (\<lambda>e. node_int64 e ''code'' 0))
      (case err of None \<Rightarrow> 0 | Some e \<Rightarrow> json_int64 e ''code'' 0) 0"
    using reads_when [of err "\<lambda>e. node_int64 e ''code'' 0" "\<lambda>e. json_int64 e ''code'' 0" "\<lambda>x. 0" 0] reads_int64 err
    by (cases err) auto
  have zero: "c_int 0 = 0" by (rule c_int_id) simp_all
  note int = reads_bind [OF reads_int64 [OF t(1) obj]] and str = reads_bind [OF reads_pool_str [OF t(1) obj]]
    and copy = reads_bind [OF reads_str_copy [OF t(1) obj]]
  have "reads (decode_frame_mp (mp_of_json t)) (Some (decode_frame_json a t))
      (0 + (key_size t ''channel'' + (0 + (0 + (0 + (0 + (key_size t ''connectionId'' +
       (key_size t ''connectionKey'' + (0 + (0 + (0 + (0 + (0 + (0 + (?err + (0 + (sum_list (map text_size ?ms) +
       (0 + (sum_list (map (\<lambda>x. 0) ?ps) + 0)))))))))))))))))))"
    unfolding decode_frame_mp_def
    by (rule int, rule str, (rule int)+, (rule str)+, (rule copy)+,
        rule reads_bind [OF reads_map [OF t(1) obj]], rule reads_bind [OF reads_conn_details [OF t(1)]],
        unfold act(1), subst if_not_P [OF act(2)],
        rule reads_bind [OF reads_map [OF t(1) obj, of "''error''", folded err_def]], rule reads_bind [OF code],
        rule reads_bind [OF reads_str_of [of err]], use err in blast,
        rule reads_bind [OF reads_array [OF t(1) obj, of "''messages''", folded ms_def]],
        rule reads_bind [OF msgs], assumption,
        rule reads_bind [OF reads_array [OF t(1) obj, of "''presence''", folded ps_def]],
        rule reads_bind [OF pres], assumption,
        rule reads_return, simp add: decode_frame_json_def err_def ms_def ps_def zero split: option.split)
  moreover have "key_size t ''channel'' + key_size t ''connectionId'' + key_size t ''connectionKey'' +
      key_size t ''error'' + key_size t ''messages'' \<le> text_size t"
    using keys_fit [OF t(1) obj, of "[''channel'', ''connectionId'', ''connectionKey'', ''error'', ''messages'']"]
    by simp
  moreover have "sum_list (map (\<lambda>x. 0 :: nat) ?ps) = 0" by simp
  ultimately show ?thesis using errs size by (elim reads_more) linarith
qed

section \<open>The encoders write the same value\<close>

lemma mp_of_json_opt: "map (\<lambda>(k, v). (MP_Str k, mp_of_json v)) (json_opt key s) = mp_opt key s"
  by (simp add: json_opt_def mp_opt_def mp_field_def split: option.split)

lemma encoders_agree:
  "\<bar>serial\<bar> \<le> 2 ^ 53 \<Longrightarrow> mp_of_json (publish_json channel name data client_id msg_id serial) =
     publish_mp channel name data client_id msg_id serial"
  "mp_of_json (presence_json channel action client_id data) = presence_mp channel action client_id data"
  "mp_of_json (attach_json channel p) = attach_mp channel p"
proof -
  show "mp_of_json (publish_json channel name data client_id msg_id serial) =
      publish_mp channel name data client_id msg_id serial" if "\<bar>serial\<bar> \<le> 2 ^ 53"
    using c_double_exact [OF that] by (simp add: publish_json_def publish_mp_def message_json_def message_mp_def mp_of_json_opt mp_field_def)
  show "mp_of_json (presence_json channel action client_id data) = presence_mp channel action client_id data"
    by (simp add: presence_json_def presence_mp_def mp_of_json_opt mp_field_def)
  have "trunc_rat (unsigned m) = uint m" for m :: u32 using trunc_rat_of_int [of "uint m"] by simp
  moreover have "(\<lambda>x. case case x of (k, v) \<Rightarrow> (k, JStr v) of (k, v) \<Rightarrow> (MP_Str k, mp_of_json v)) =
      (\<lambda>(k, v). mp_field k (MP_Str v))"
    by (rule ext) (simp add: mp_field_def split: prod.split)
  ultimately show "mp_of_json (attach_json channel p) = attach_mp channel p"
    by (simp add: attach_json_def attach_mp_def mp_of_json_opt mp_field_def comp_def)
qed

section \<open>Agreement\<close>

text \<open>C16. The codecs agree. A frame within the limits above decodes to the same result whether it arrives as
  JSON or as MessagePack: the same action, channel, serials, flags, error, connection details, messages with
  their deltas and occupancy, and presence members. Beyond the limits they can differ: the MessagePack decoder
  drops a string that does not fit its pool, and fails on incomplete metrics and duplicate keys.\<close>

theorem codecs_agree:
  assumes "wire_ok t" "frame_ok t" "text_size t \<le> ABLY_PROTO_STRING_POOL_SIZE"
    and "lib_json_parse lib text = Some t" "lib_mp_parse lib bin = Some (mp_of_json t)"
  shows "proto_decode lib ENCODING_JSON text = proto_decode lib ENCODING_MSGPACK bin \<and>
    proto_decode lib ENCODING_JSON text \<noteq> None"
proof -
  obtain a where a: "json_get t ''action'' = Some (JNum a)"
    using assms(2) by (auto simp: frame_ok_def int32_at_def split: option.splits json.splits)
  obtain kvs where kvs: "t = JObj kvs" using assms(2) by (cases t) (simp_all add: frame_ok_def)
  obtain k where "run_state (decode_frame_mp (mp_of_json t)) \<lparr>pool_used = 0, tree_error = False\<rparr> =
      (Some (decode_frame_json a t), \<lparr>pool_used = k, tree_error = False\<rparr>)"
    using reads_frame [OF assms(1,2) a, unfolded reads_def, rule_format, of "\<lparr>pool_used = 0, tree_error = False\<rparr>"]
      assms(3) by auto
  then show ?thesis
    using assms(4,5) a by (simp add: proto_decode_def proto_decode_json_def proto_decode_msgpack_def kvs)
qed

definition demo_frame_json :: json where
  "demo_frame_json = JObj [(''action'', JNum 15), (''channel'', JStr ''room''),
     (''messages'', JArr [JObj [(''data'', JStr ''hi''), (''extras'', JObj [(''delta'', JObj [(''format'', JStr ''vcdiff'')])])]])]"

definition demo_codec :: codec_lib where
  "demo_codec = \<lparr>lib_json_print = (\<lambda>j. Some ''{}''), lib_json_parse = (\<lambda>s. Some demo_frame_json),
     lib_mp_write = (\<lambda>n m. []), lib_mp_parse = (\<lambda>s. Some (mp_of_json demo_frame_json))\<rparr>"

lemma codecs_agree_witness:
  "proto_decode demo_codec ENCODING_JSON ''text'' = proto_decode demo_codec ENCODING_MSGPACK ''bin''"
proof -
  have "wire_ok demo_frame_json" "frame_ok demo_frame_json" "text_size demo_frame_json \<le> ABLY_PROTO_STRING_POOL_SIZE"
    by (simp_all add: demo_frame_json_def frame_ok_def int32_at_def json_int64_def json_arr_def message_ok_def
        json_obj_def opt_all_def ABLY_PROTO_STRING_POOL_SIZE_def)
  from codecs_agree [OF this, of demo_codec "''text''" "''bin''"] show ?thesis by (simp add: demo_codec_def)
qed

end
