(* ===== verification/Ably_Wire.thy ===== *)
theory Ably_Wire
  imports Ably_Realtime_Props Ably_Codec_Agree
begin

text \<open>
  From the call of the application to the peer: what \<^verbatim>\<open>ably_channel_publish\<close> puts into the ring is written
  to the socket by the service thread and decodes, in either encoding, to the message that was published.
\<close>

section \<open>Encoders and decoders that fit together\<close>

text \<open>The libraries print the value into the buffer and parse back what they printed.\<close>

definition codec_carries :: "codec_lib \<Rightarrow> ably_encoding \<Rightarrow> nat \<Rightarrow> json \<Rightarrow> bool" where
  "codec_carries lib enc len j =
     (case enc of
        ENCODING_JSON \<Rightarrow>
          (case lib_json_print lib j of None \<Rightarrow> False
           | Some s \<Rightarrow> s \<noteq> [] \<and> length s < len \<and> lib_json_parse lib s = Some j)
      | ENCODING_MSGPACK \<Rightarrow>
          (let s = lib_mp_write lib len (mp_of_json j) in s \<noteq> [] \<and> lib_mp_parse lib s = Some (mp_of_json j)))"

lemma publish_decodes_json:
  assumes "codec_carries lib ENCODING_JSON len (publish_json channel name data cid mid serial)"
  shows "proto_encode_publish lib len channel name data cid mid serial ENCODING_JSON \<noteq> []"
    and "proto_decode lib ENCODING_JSON (proto_encode_publish lib len channel name data cid mid serial ENCODING_JSON) =
      Some (decode_frame_json 15 (publish_json channel name data cid mid serial))"
  using assms
  by (auto simp: codec_carries_def proto_encode_publish_def proto_encode_publish_json_def emit_json_def
      proto_decode_def proto_decode_json_def publish_json_def split: option.splits)

text \<open>The text of a published frame, as the pool of the MessagePack decoder counts it.\<close>

definition opt_size :: "string option \<Rightarrow> nat" where
  "opt_size s = (case s of None \<Rightarrow> 0 | Some x \<Rightarrow> length x + 1)"

definition opt_text_ok :: "string option \<Rightarrow> bool" where
  "opt_text_ok s = (case s of None \<Rightarrow> True | Some x \<Rightarrow> CHR 0x00 \<notin> set x)"

definition publish_fits :: "string \<Rightarrow> string option \<Rightarrow> string option \<Rightarrow> string option \<Rightarrow> string option \<Rightarrow> int \<Rightarrow> bool" where
  "publish_fits channel name data cid mid serial \<longleftrightarrow>
     CHR 0x00 \<notin> set channel \<and> opt_text_ok name \<and> opt_text_ok data \<and> opt_text_ok cid \<and> opt_text_ok mid \<and>
     \<bar>serial\<bar> \<le> 2 ^ 53 \<and>
     length channel + 1 + opt_size name + opt_size data + opt_size cid + opt_size mid \<le> ABLY_PROTO_STRING_POOL_SIZE"

lemma publish_fits_frame:
  assumes "publish_fits channel name data cid mid serial"
  shows "wire_ok (publish_json channel name data cid mid serial)"
    and "frame_ok (publish_json channel name data cid mid serial)"
    and "text_size (publish_json channel name data cid mid serial) \<le> ABLY_PROTO_STRING_POOL_SIZE"
  using assms c_double_exact [of serial]
  by (auto simp: publish_fits_def publish_json_def message_json_def json_opt_def opt_text_ok_def opt_size_def
      frame_ok_def int32_at_def json_int64_def json_arr_def message_ok_def json_obj_def opt_all_def
      split: option.splits)

lemma publish_fits_serial: "publish_fits channel name data cid mid serial \<Longrightarrow> \<bar>serial\<bar> \<le> 2 ^ 53"
  by (simp add: publish_fits_def)

lemma publish_decodes:
  assumes "codec_carries lib enc len (publish_json channel name data cid mid serial)"
    and "enc = ENCODING_MSGPACK \<Longrightarrow> publish_fits channel name data cid mid serial"
  shows "proto_encode_publish lib len channel name data cid mid serial enc \<noteq> []"
    and "proto_decode lib enc (proto_encode_publish lib len channel name data cid mid serial enc) =
      Some (decode_frame_json 15 (publish_json channel name data cid mid serial))"
proof -
  let ?j = "publish_json channel name data cid mid serial"
  let ?buf = "proto_encode_publish lib len channel name data cid mid serial enc"
  have "?buf \<noteq> [] \<and> proto_decode lib enc ?buf = Some (decode_frame_json 15 ?j)"
  proof (cases enc)
    case ENCODING_JSON
    then show ?thesis using publish_decodes_json assms(1) by simp
  next
    case ENCODING_MSGPACK
    let ?lib = "lib\<lparr>lib_json_parse := \<lambda>s. Some ?j\<rparr>"
    have buf: "?buf \<noteq> []" "lib_mp_parse lib ?buf = Some (mp_of_json ?j)"
      using assms(1) ENCODING_MSGPACK publish_fits_serial [OF assms(2) [OF ENCODING_MSGPACK]]
      by (simp_all add: codec_carries_def proto_encode_publish_def proto_encode_publish_msgpack_def encoders_agree Let_def)
    have "proto_decode ?lib ENCODING_JSON [] = proto_decode ?lib ENCODING_MSGPACK ?buf"
      using codecs_agree [OF publish_fits_frame [OF assms(2) [OF ENCODING_MSGPACK]], of ?lib "[]" ?buf] buf(2) by simp
    moreover have "proto_decode ?lib ENCODING_JSON [] = Some (decode_frame_json 15 ?j)"
      by (simp add: proto_decode_def proto_decode_json_def publish_json_def)
    ultimately show ?thesis using buf(1) ENCODING_MSGPACK by (simp add: proto_decode_def)
  qed
  then show "?buf \<noteq> []" "proto_decode lib enc ?buf = Some (decode_frame_json 15 ?j)" by simp_all
qed

lemma published_frame_fields:
  fixes channel name data cid mid serial
  defines "f \<equiv> decode_frame_json 15 (publish_json channel name data cid mid serial)"
  shows "pf_action f = ACTION_MESSAGE" "pf_channel f = Some channel" "\<bar>serial\<bar> \<le> 2 ^ 53 \<Longrightarrow> pf_msg_serial f = serial"
    "\<exists>m. pf_messages f = [m] \<and> prm_name m = name \<and> prm_data m = data \<and> prm_client_id m = cid \<and> prm_id m = mid"
proof -
  have [simp]: "action_of_int (c_int 15) = ACTION_MESSAGE"
    by (simp add: c_int_def action_of_int_def known_actions_def)
  show "pf_action f = ACTION_MESSAGE" "pf_channel f = Some channel" "\<bar>serial\<bar> \<le> 2 ^ 53 \<Longrightarrow> pf_msg_serial f = serial"
    by (simp_all add: double_int64_serial f_def decode_frame_json_def publish_json_def json_str_def json_int64_def)
  show "\<exists>m. pf_messages f = [m] \<and> prm_name m = name \<and> prm_data m = data \<and> prm_client_id m = cid \<and> prm_id m = mid"
    by (simp add: f_def decode_frame_json_def publish_json_def json_arr_def DECODE_MSGS_CAP_def
        decode_message_json_def json_str_def message_json_def json_opt_def Let_def map_of_append split: option.split)
qed

section \<open>Publishing\<close>

lemma publish_call_attached:
  fixes lib name data
  assumes w: "rt_inv w" "i < length (rw_channels w)" "ch_state (rw_channels w ! i) = CHAN_ATTACHED"
    and room: "length (rc_pending_frames (rw_client w)) < 255"
  defines "buf \<equiv> proto_encode_publish lib PUBLISH_BUF (ch_name (rw_channels w ! i)) name data
    (c_opt (rc_client_id (rw_client w))) None (rc_msg_serial (rw_client w)) (rc_encoding (rw_client w))"
  assumes buf: "buf \<noteq> []"
  shows "rc_pending_frames (rw_client (on_channel i (chan_api lib (Op_Publish name data)) w)) =
    rc_pending_frames (rw_client w) @ [buf]"
proof -
  let ?cw = "\<lparr>cw_ch = rw_channels w ! i, cw_core = rw_client w, cw_events = []\<rparr>"
  have inv: "core_inv (cw_core ?cw)" using w(1) by (simp add: rt_inv_def)
  have "chan_api lib (Op_Publish name data) ?cw = snd (publish_frame lib PUBLISH_BUF name data None ?cw)"
    using w(3) by (simp add: channel_publish_def Let_def)
  moreover have "rc_pending_frames (cw_core (snd (publish_frame lib PUBLISH_BUF name data None ?cw))) =
      rc_pending_frames (rw_client w) @ [buf]"
    using publish_frame_spec(7) [OF inv, of lib PUBLISH_BUF name data None] room buf by (simp add: buf_def)
  ultimately show ?thesis by (simp add: on_channel_def Let_def)
qed

text \<open>C14. A message published on an attached channel reaches the peer as it was. The hypotheses: the outbound ring has
  room, the serial is at most 2^53, the codec libraries print the frame into the buffer and parse back what they
  printed, and, in MessagePack, the strings of the frame fit into the 4096 bytes of the decoder's pool and hold no
  NUL; the connection holds, sends succeed and nobody closes the client. Then, once the service thread has gone
  through its event loop more often than frames were waiting, whatever is received or called meanwhile, one of the
  frames written to the socket since the call decodes, in the client's encoding, to a MESSAGE frame of the channel
  with the serial claimed by the call and exactly the name and data that were given.\<close>

theorem published_message_reaches_peer:
  assumes w: "rt_inv w" "ww_sends w = []" "\<not> ws_close_sent (ww_ws w)"
    and ch: "i < length (rw_channels w)" "ch_state (rw_channels w ! i) = CHAN_ATTACHED"
    and room: "length (rc_pending_frames (rw_client w)) < 255" and serial: "\<bar>rc_msg_serial (rw_client w)\<bar> \<le> 2 ^ 53"
    and lib: "codec_carries lib (rc_encoding (rw_client w)) PUBLISH_BUF (publish_json (ch_name (rw_channels w ! i)) name data
        (c_opt (rc_client_id (rw_client w))) None (rc_msg_serial (rw_client w)))"
      "rc_encoding (rw_client w) = ENCODING_MSGPACK \<Longrightarrow> publish_fits (ch_name (rw_channels w ! i)) name data
        (c_opt (rc_client_id (rw_client w))) None (rc_msg_serial (rw_client w))"
    and run: "loop_run lib script n (Svc_Loop, on_channel i (chan_api lib (Op_Publish name data)) w) (pc, w')"
    and n: "length (rc_pending_frames (rw_client w)) < n"
  shows "\<exists>ss buf f m. ww_sent w' = ww_sent w @ ss \<and> buf \<in> set ss \<and>
    proto_decode lib (rc_encoding (rw_client w)) buf = Some f \<and> pf_action f = ACTION_MESSAGE \<and>
    pf_channel f = Some (ch_name (rw_channels w ! i)) \<and> pf_msg_serial f = rc_msg_serial (rw_client w) \<and>
    pf_messages f = [m] \<and> prm_name m = name \<and> prm_data m = data"
proof -
  let ?w = "on_channel i (chan_api lib (Op_Publish name data)) w"
  let ?P = "rc_pending_frames (rw_client w)"
  define buf where "buf = proto_encode_publish lib PUBLISH_BUF (ch_name (rw_channels w ! i)) name data
    (c_opt (rc_client_id (rw_client w))) None (rc_msg_serial (rw_client w)) (rc_encoding (rw_client w))"
  note dec = publish_decodes [OF lib, folded buf_def]
  have "rc_pending_frames (rw_client ?w) = ?P @ [buf]"
    unfolding buf_def by (rule publish_call_attached [OF w(1) ch room dec(1) [unfolded buf_def]])
  moreover have "rt_inv ?w" by (rule on_channel_safe [OF chan_safe_api w(1) ch(1)])
  then have "rounds_account lib n ?w w'" using loop_run_rounds [OF run] w(2,3) by simp
  ultimately obtain ss where "ww_sent w' = ww_sent w @ ss" "buf \<in> set ss"
    using rounds_sent [of lib n ?w w' "length ?P"] n by auto
  then show ?thesis using dec(2) published_frame_fields(1,2,4) published_frame_fields(3) [OF serial]
    by (intro exI [of _ ss] exI [of _ buf]) fastforce
qed

lemma loop_round_exists:
  assumes "ws_is_connected (ww_ws w)" "\<not> rt_close_requested (rw_client w)"
  shows "\<exists>pc w'. loop_run lib script 1 (Svc_Loop, w) (pc, w')"
proof -
  let ?inp = "quiet_input\<lparr>si_env := scripted lib script None 0\<rparr>"
  obtain pc w' where "svc_next ?inp (Svc_Loop, w) = Some (pc, w')"
    by (cases "svc_loop (si_env ?inp) (si_recv ?inp) (si_close ?inp) w") simp
  then have "svc_step lib script (Svc_Loop, w) (pc, w')" by (intro svc_piece [of ?inp _ _ None 0]) simp_all
  from loop_round [OF loop_nil assms this] show ?thesis by auto
qed

definition demo_attached :: rt_world where
  "demo_attached = demo_connected\<lparr>rw_channels := [(channel_create ''chat'')\<lparr>ch_state := CHAN_ATTACHED\<rparr>]\<rparr>"

definition publish_lib :: codec_lib where
  "publish_lib = \<lparr>lib_json_print = (\<lambda>j. Some ''frame''),
     lib_json_parse = (\<lambda>s. Some (publish_json ''chat'' (Some ''n'') (Some ''d'') None None 0)),
     lib_mp_write = (\<lambda>n m. []), lib_mp_parse = (\<lambda>s. None)\<rparr>"

lemma demo_attached_simps:
  "rt_inv demo_attached" "rc_encoding (rw_client demo_attached) = ENCODING_JSON"
  "rc_client_id (rw_client demo_attached) = []" "rc_msg_serial (rw_client demo_attached) = 0"
  "rc_pending_frames (rw_client demo_attached) = []" "ch_name (rw_channels demo_attached ! 0) = ''chat''"
proof -
  have "chan_inv ((channel_create ''chat'')\<lparr>ch_state := CHAN_ATTACHED\<rparr>)"
    using chan_create_inv [of "''chat''"] by (simp add: chan_inv_state)
  then show "rt_inv demo_attached"
    using demo_connected_inv by (simp add: rt_inv_def demo_attached_def ABLY_MAX_CHANNELS_def)
qed (simp_all add: demo_attached_def demo_connected_def set_ws_def rt_set_state_locked_def Let_def demo_world_def
    rt_client_create_def rt_options_init_def rc_pending_frames_def empty_ring_list channel_create_def
    ABLY_MAX_CHANNEL_NAME_LEN_def c_copy_id)

lemma published_message_reaches_peer_witness:
  "\<exists>pc w' f m. loop_run publish_lib (\<lambda>cb m. []) 1
       (Svc_Loop, on_channel 0 (chan_api publish_lib (Op_Publish (Some ''n'') (Some ''d''))) demo_attached) (pc, w') \<and>
     proto_decode publish_lib ENCODING_JSON (hd (ww_sent w')) = Some f \<and> pf_messages f = [m] \<and> prm_data m = Some ''d''"
proof -
  let ?w = "on_channel 0 (chan_api publish_lib (Op_Publish (Some ''n'') (Some ''d''))) demo_attached"
  have "core_kept (rw_client demo_attached) (rw_client ?w)" by (rule on_channel_kept(1) [OF chan_safe_api])
  then have c: "\<not> rt_close_requested (rw_client ?w)"
    using core_kept_client(1) [of "rw_client demo_attached"] demo_connected_simps by (simp add: demo_attached_def)
  have conn: "ws_is_connected (ww_ws ?w)" using demo_connected_simps by (simp add: demo_attached_def)
  obtain pc w' where run: "loop_run publish_lib (\<lambda>cb m. []) 1 (Svc_Loop, ?w) (pc, w')"
    using loop_round_exists [OF conn c] by blast
  have s: "ww_sends demo_attached = []" "\<not> ws_close_sent (ww_ws demo_attached)" "ww_sent demo_attached = []"
    "0 < length (rw_channels demo_attached)" "ch_state (rw_channels demo_attached ! 0) = CHAN_ATTACHED"
    using demo_connected_simps by (simp_all add: demo_attached_def)
  have "codec_carries publish_lib (rc_encoding (rw_client demo_attached)) PUBLISH_BUF
      (publish_json (ch_name (rw_channels demo_attached ! 0)) (Some ''n'') (Some ''d'')
        (c_opt (rc_client_id (rw_client demo_attached))) None (rc_msg_serial (rw_client demo_attached)))"
    by (simp add: demo_attached_simps codec_carries_def publish_lib_def PUBLISH_BUF_def c_opt_def)
  from published_message_reaches_peer [OF demo_attached_simps(1) s(1,2,4,5) _ _ this _ run]
  obtain ss buf f m where r: "ww_sent w' = ss" "buf \<in> set ss" "proto_decode publish_lib ENCODING_JSON buf = Some f"
    "pf_messages f = [m]" "prm_data m = Some ''d''"
    by (auto simp: demo_attached_simps s)
  have "proto_decode publish_lib ENCODING_JSON x = proto_decode publish_lib ENCODING_JSON buf" for x
    by (simp add: proto_decode_def proto_decode_json_def publish_lib_def)
  then show ?thesis using run r by metis
qed

end
