(* ===== verification/Ably_Ws_Io.thy ===== *)
theory Ably_Ws_Io
  imports Ably_Ws
begin

text \<open>
  The callbacks by which wslay reads from and writes to the TLS connection of \<^verbatim>\<open>src/ws/ws_client.c\<close>. The
  results of \<^verbatim>\<open>mbedtls_ssl_read\<close>, \<^verbatim>\<open>mbedtls_ssl_write\<close> and of the poll are inputs, one for each call; a
  callback that has used them up has not returned yet (\<open>None\<close>).
\<close>

datatype tls_read = Tr_Bytes nat | Tr_Ticket | Tr_Want_Read | Tr_Close_Notify | Tr_Error

text \<open>What the callback reports to wslay: a number of bytes, or an error.\<close>

datatype io_result = Io_Bytes nat | Io_Would_Block | Io_Failure

fun wslay_recv_callback :: "tls_read list \<Rightarrow> io_result option" where
  "wslay_recv_callback [] = None"
| "wslay_recv_callback (Tr_Ticket # rs) = wslay_recv_callback rs"
| "wslay_recv_callback (Tr_Want_Read # rs) = Some Io_Would_Block"
| "wslay_recv_callback (Tr_Close_Notify # rs) = Some Io_Failure"
| "wslay_recv_callback (Tr_Bytes n # rs) = (if n = 0 then Some Io_Failure else Some (Io_Bytes n))"
| "wslay_recv_callback (Tr_Error # rs) = Some Io_Failure"

text \<open>\<open>sent\<close> is what TLS has accepted of the buffer so far; it never accepts more than it is given. The result
  of the poll is not looked at.\<close>

fun wslay_send_loop :: "write_ret list \<Rightarrow> string \<Rightarrow> string \<Rightarrow> (io_result \<times> string) option" where
  "wslay_send_loop [] buffer sent = (if length sent < length buffer then None else Some (Io_Bytes (length buffer), sent))"
| "wslay_send_loop (r # rs) buffer sent =
     (if \<not> length sent < length buffer then Some (Io_Bytes (length buffer), sent)
      else case r of
        Wr_Want_Write p \<Rightarrow> wslay_send_loop rs buffer sent
      | Wr_Ticket \<Rightarrow> wslay_send_loop rs buffer sent
      | Wr_Fail \<Rightarrow> Some (Io_Failure, sent)
      | Wr_Wrote n \<Rightarrow>
          if n = 0 then Some (Io_Failure, sent)
          else wslay_send_loop rs buffer (sent @ take n (drop (length sent) buffer)))"

definition wslay_send_callback :: "write_ret list \<Rightarrow> string \<Rightarrow> (io_result \<times> string) option" where
  "wslay_send_callback rs buffer = wslay_send_loop rs buffer []"

text \<open>Waiting, or nothing to report.\<close>

fun idle_write :: "write_ret \<Rightarrow> bool" where
  "idle_write (Wr_Want_Write p) = True"
| "idle_write Wr_Ticket = True"
| "idle_write _ = False"

lemma send_loop_result:
  assumes "wslay_send_loop rs buffer sent = Some (r, out)" "\<exists>rest. buffer = sent @ rest"
  shows "(\<exists>rest. buffer = out @ rest) \<and>
    (r = Io_Bytes (length buffer) \<and> out = buffer \<or> r = Io_Failure \<and> length out < length buffer)"
  using assms
proof (induction rs arbitrary: sent)
  case Nil
  then show ?case by (auto split: if_splits)
next
  case (Cons w rs)
  show ?case
  proof (cases "length sent < length buffer")
    case False
    then show ?thesis using Cons.prems by auto
  next
    case True
    have more: "\<exists>rest. buffer = (sent @ take n (drop (length sent) buffer)) @ rest" for n
      using Cons.prems(2) by (metis append.assoc append_eq_conv_conj append_take_drop_id)
    show ?thesis using Cons.prems True Cons.IH more
      by (cases w) (auto split: if_splits)
  qed
qed

lemma send_loop_idle:
  "length sent < length buffer \<Longrightarrow> \<forall>r \<in> set rs. idle_write r \<Longrightarrow> wslay_send_loop rs buffer sent = None"
proof (induction rs)
  case (Cons r rs)
  then show ?case by (cases r) simp_all
qed simp

text \<open>A send callback that returns success has handed the whole buffer to TLS, every byte once and in order;
  when it reports a failure, TLS has accepted a proper prefix of it. But it has no time limit: while the peer does not read, it does not return, whatever the
  poll reports, and no timeout or close request reaches the thread. The handshake, in the same situation,
  reports a timeout.\<close>

theorem send_callback_whole_or_stuck:
  "(wslay_send_callback rs buffer = Some (r, out) \<longrightarrow>
     (r = Io_Bytes (length buffer) \<and> out = buffer) \<or>
     (r = Io_Failure \<and> out = take (length out) buffer \<and> length out < length buffer)) \<and>
   (buffer \<noteq> [] \<and> (\<forall>r \<in> set rs. idle_write r) \<longrightarrow> wslay_send_callback rs buffer = None) \<and>
   upgrade_send (Wr_Want_Write Poll_Timeout # rs) (Suc n) = Some ABLY_ERR_TIMEOUT"
proof (intro conjI impI)
  assume "wslay_send_callback rs buffer = Some (r, out)"
  from send_loop_result [OF this [unfolded wslay_send_callback_def]]
  show "(r = Io_Bytes (length buffer) \<and> out = buffer) \<or>
     (r = Io_Failure \<and> out = take (length out) buffer \<and> length out < length buffer)"
    by auto
next
  assume "buffer \<noteq> [] \<and> (\<forall>r \<in> set rs. idle_write r)"
  then show "wslay_send_callback rs buffer = None"
    unfolding wslay_send_callback_def by (intro send_loop_idle) simp_all
qed (simp add: poll_error_def)

lemma send_callback_whole_or_stuck_witness:
  "wslay_send_callback [Wr_Want_Write Poll_Timeout, Wr_Ticket] ''frame'' = None \<and>
   wslay_send_callback [Wr_Wrote 3, Wr_Want_Write Poll_Timeout, Wr_Wrote 9] ''frame'' = Some (Io_Bytes 5, ''frame'')"
proof
  show "wslay_send_callback [Wr_Want_Write Poll_Timeout, Wr_Ticket] ''frame'' = None"
    using send_callback_whole_or_stuck [of "[Wr_Want_Write Poll_Timeout, Wr_Ticket]" "''frame''"] by simp
qed (simp add: wslay_send_callback_def)

end
