(* ===== verification/Ably_Log.thy ===== *)
theory Ably_Log
  imports Ably_Types
begin

text \<open>
  Logging (\<^verbatim>\<open>src/log.c\<close>, \<^verbatim>\<open>src/log.h\<close>): the global level, the line written to standard error or handed to a
  callback, and which handle of a client has which log context. A context is copied when a handle is created.
  The text of a message is formatted by \<^verbatim>\<open>vsnprintf\<close>; the model takes it formatted.
\<close>

section \<open>Writing a line\<close>

datatype ably_log_level = ABLY_LOG_ERROR | ABLY_LOG_WARN | ABLY_LOG_INFO | ABLY_LOG_DEBUG

fun log_level_code :: "ably_log_level \<Rightarrow> int" where
  "log_level_code ABLY_LOG_ERROR = 0"
| "log_level_code ABLY_LOG_WARN = 1"
| "log_level_code ABLY_LOG_INFO = 2"
| "log_level_code ABLY_LOG_DEBUG = 3"

text \<open>The context: the callback, if one is set.\<close>

type_synonym log_ctx = "nat option"

datatype log_line =
    Log_Stderr string
  | Log_Callback nat int string int string

definition level_str :: "int \<Rightarrow> string" where
  "level_str level = (if level = 0 then ''ERROR'' else if level = 1 then ''WARN '' else if level = 2 then ''INFO ''
     else if level = 3 then ''DEBUG'' else ''?    '')"

text \<open>\<^verbatim>\<open>strrchr(file, '/')\<close> and what follows it.\<close>

definition log_basename :: "string \<Rightarrow> string" where
  "log_basename file = (if CHR ''/'' \<in> set file then rev (takeWhile (\<lambda>c. c \<noteq> CHR ''/'') (rev file)) else file)"

definition default_log_cb :: "int \<Rightarrow> int \<Rightarrow> string \<Rightarrow> int \<Rightarrow> string \<Rightarrow> log_line list" where
  "default_log_cb g_log_level level file line message =
     (if level > g_log_level then []
      else [Log_Stderr (''[ably '' @ level_str level @ ''] '' @ log_basename file @ '':'' @ dec_of_int line @ '': '' @
                        message @ [CHR 0x0A])])"

definition log_write :: "int \<Rightarrow> log_ctx \<Rightarrow> int \<Rightarrow> string \<Rightarrow> int \<Rightarrow> string \<Rightarrow> log_line list" where
  "log_write g_log_level ctx level file line text =
     (if level > g_log_level then []
      else let buf = c_copy 1024 text
           in case ctx of
                Some cb \<Rightarrow> [Log_Callback cb level file line buf]
              | None \<Rightarrow> default_log_cb g_log_level level file line buf)"

section \<open>The contexts of a client\<close>

text \<open>A realtime client has its own context, a copy in its transport and a copy in every channel; a REST client
  its own and a copy in its HTTP client. Both are created without a callback: there is no option for it.\<close>

record rt_logs =
  rl_client :: log_ctx
  rl_ws :: log_ctx
  rl_channels :: "log_ctx list"

record rest_logs =
  sl_client :: log_ctx
  sl_http :: log_ctx

definition rt_logs_create :: rt_logs where
  "rt_logs_create = (let log = None in \<lparr>rl_client = log, rl_ws = log, rl_channels = []\<rparr>)"

definition rt_client_set_log_cb :: "nat option \<Rightarrow> rt_logs \<Rightarrow> rt_logs" where
  "rt_client_set_log_cb cb l = l\<lparr>rl_client := cb\<rparr>"

text \<open>\<^verbatim>\<open>ably_rt_channel_get\<close> when it creates a channel.\<close>

definition rt_logs_channel_get :: "rt_logs \<Rightarrow> rt_logs" where
  "rt_logs_channel_get l = l\<lparr>rl_channels := rl_channels l @ [rl_client l]\<rparr>"

definition rest_logs_create :: rest_logs where
  "rest_logs_create = (let log = None in \<lparr>sl_client = log, sl_http = log\<rparr>)"

definition rest_client_set_log_cb :: "nat option \<Rightarrow> rest_logs \<Rightarrow> rest_logs" where
  "rest_client_set_log_cb cb l = l\<lparr>sl_client := cb\<rparr>"

datatype log_op = Set_Log_Cb "nat option" | New_Channel

fun rt_log_op :: "log_op \<Rightarrow> rt_logs \<Rightarrow> rt_logs" where
  "rt_log_op (Set_Log_Cb cb) l = rt_client_set_log_cb cb l"
| "rt_log_op New_Channel l = rt_logs_channel_get l"

text \<open>Who writes a line: a module of a realtime client.\<close>

datatype log_source = From_Client | From_Transport | From_Channel nat

fun context_of :: "log_source \<Rightarrow> rt_logs \<Rightarrow> log_ctx" where
  "context_of From_Client l = rl_client l"
| "context_of From_Transport l = rl_ws l"
| "context_of (From_Channel i) l = (if i < length (rl_channels l) then rl_channels l ! i else None)"

section \<open>Who sees a line\<close>

text \<open>The callback set last before the \<open>i\<close>-th channel was created.\<close>

fun callback_at_channel :: "log_ctx \<Rightarrow> log_op list \<Rightarrow> nat \<Rightarrow> log_ctx" where
  "callback_at_channel cb [] i = None"
| "callback_at_channel cb (Set_Log_Cb cb' # ops) i = callback_at_channel cb' ops i"
| "callback_at_channel cb (New_Channel # ops) i = (if i = 0 then cb else callback_at_channel cb ops (i - 1))"

lemma rt_log_ops_channels:
  "context_of (From_Channel (length (rl_channels l) + i)) (fold rt_log_op ops l) = callback_at_channel (rl_client l) ops i \<and>
   (\<forall>j < length (rl_channels l). rl_channels (fold rt_log_op ops l) ! j = rl_channels l ! j) \<and>
   length (rl_channels l) \<le> length (rl_channels (fold rt_log_op ops l)) \<and> rl_ws (fold rt_log_op ops l) = rl_ws l"
proof (induction ops arbitrary: l i)
  case (Cons op ops)
  show ?case
  proof (cases op)
    case (Set_Log_Cb cb)
    then show ?thesis using Cons.IH [of "rt_client_set_log_cb cb l" i] by (simp add: rt_client_set_log_cb_def)
  next
    case New_Channel
    define l1 where "l1 = rt_logs_channel_get l"
    have l1: "rl_channels l1 = rl_channels l @ [rl_client l]" "rl_client l1 = rl_client l" "rl_ws l1 = rl_ws l"
      by (simp_all add: l1_def rt_logs_channel_get_def)
    have old: "rl_channels (fold rt_log_op ops l1) ! j = rl_channels l1 ! j" if "j \<le> length (rl_channels l)" for j
      using Cons.IH [of l1] that l1 by simp
    have len: "length (rl_channels l) + 1 \<le> length (rl_channels (fold rt_log_op ops l1))"
      using Cons.IH [of l1] l1 by simp
    have "context_of (From_Channel (length (rl_channels l) + i)) (fold rt_log_op ops l1) =
        callback_at_channel (rl_client l) (New_Channel # ops) i"
    proof (cases i)
      case 0
      then show ?thesis using old [of "length (rl_channels l)"] len l1 by simp
    next
      case (Suc k)
      then show ?thesis using Cons.IH [of l1 k] l1 by simp
    qed
    moreover have "\<forall>j < length (rl_channels l). rl_channels (fold rt_log_op ops l1) ! j = rl_channels l ! j"
      using old l1 by (simp add: nth_append)
    moreover have "rl_ws (fold rt_log_op ops l1) = rl_ws l" using Cons.IH [of l1] l1 by simp
    moreover have "fold rt_log_op (op # ops) l = fold rt_log_op ops l1" by (simp add: New_Channel l1_def)
    ultimately show ?thesis using len New_Channel by simp
  qed
qed (simp add: nth_append)

text \<open>Whatever callbacks an application sets and whatever channels it opens, in any order: a line of the
  transport never reaches a callback, it goes to standard error; a line of a channel goes to the callback that
  was set when the channel was created, not to the present one; and the global level holds for callbacks too.\<close>

theorem log_callback_reach:
  "let l = fold rt_log_op ops rt_logs_create in (\<forall>cb level' path' ln' text'.
            Log_Callback cb level' path' ln' text' \<notin> set (log_write g (context_of From_Transport l) level path n msg)) \<and>
    context_of (From_Channel i) l = callback_at_channel None ops i \<and>
    (g < level \<longrightarrow> log_write g ctx level path n msg = [])"
  using rt_log_ops_channels [of rt_logs_create i ops]
  by (auto simp: rt_logs_create_def log_write_def default_log_cb_def Let_def)

lemma log_callback_reach_witness:
  "log_write 2 (Some 7) 3 ''channel.c'' 90 ''created'' = [] \<and>
   context_of (From_Channel 1) (fold rt_log_op [New_Channel, Set_Log_Cb (Some 7), New_Channel, Set_Log_Cb (Some 8)]
     rt_logs_create) = Some 7"
  using log_callback_reach [where g = 2 and level = 3 and i = 1 and path = "''channel.c''" and n = 90 and msg = "''created''"
      and ctx = "Some 7" and ops = "[New_Channel, Set_Log_Cb (Some 7), New_Channel, Set_Log_Cb (Some 8)]"]
  by (simp add: Let_def del: context_of.simps fold.simps)

lemma log_line_shape:
  "log_write 2 None 1 ''src/ws/ws_client.c'' 7 ''late'' = [Log_Stderr (''[ably WARN ] ws_client.c:7: late'' @ [CHR 0x0A])]"
proof -
  have "dec_of_int 7 = ''7''" by (code_simp)
  then show ?thesis by (simp add: log_write_def default_log_cb_def level_str_def log_basename_def c_copy_def)
qed

text \<open>The same holds of a REST client: the lines of its HTTP client never reach a callback.\<close>

lemma rest_log_callback_reach:
  "sl_http (fold rest_client_set_log_cb cbs rest_logs_create) = None"
proof -
  have "sl_http (fold rest_client_set_log_cb cbs l) = sl_http l" for l
    by (induction cbs arbitrary: l) (simp_all add: rest_client_set_log_cb_def)
  then show ?thesis by (simp add: rest_logs_create_def)
qed

end
