(* ===== verification/Ably_Decode_Trees.thy ===== *)
theory Ably_Decode_Trees
  imports Ably_Codec
begin

text \<open>
  Where the strings of a decoded frame live. The JSON decoder (\<^verbatim>\<open>src/realtime/protocol_json.c\<close>) points into the
  tree of cJSON, which a variable of the module keeps until the next frame is decoded, by whichever client; the
  MessagePack decoder (\<^verbatim>\<open>src/realtime/protocol_msgpack.c\<close>) copies the strings into the frame of the client and
  keeps its tree in a variable too. What the frames say is in \<^verbatim>\<open>Ably_Codec\<close>; here are the trees.
\<close>

section \<open>The variables of the decoders\<close>

text \<open>\<open>dc_root\<close> is \<^verbatim>\<open>s_last_root\<close>, \<open>dc_tree_init\<close> is \<^verbatim>\<open>s_tree_init\<close>. \<open>dc_roots\<close> are the trees cJSON has made that
  are not deleted, \<open>dc_trees\<close> counts the trees of mpack that are initialised and not destroyed.\<close>

record decoders =
  dc_root :: "nat option"
  dc_tree_init :: bool
  dc_roots :: "nat list"
  dc_trees :: nat
  dc_next :: nat

definition free_last_root :: "decoders \<Rightarrow> decoders" where
  "free_last_root d =
     (case dc_root d of None \<Rightarrow> d | Some a \<Rightarrow> d\<lparr>dc_roots := removeAll a (dc_roots d), dc_root := None\<rparr>)"

definition free_last_tree :: "decoders \<Rightarrow> decoders" where
  "free_last_tree d = (if dc_tree_init d then d\<lparr>dc_trees := dc_trees d - 1, dc_tree_init := False\<rparr> else d)"

text \<open>The strings of a frame point into a tree or into the pool of the frame itself.\<close>

datatype frame_home = In_Tree nat | In_Pool

definition decode_json_tree ::
  "codec_lib \<Rightarrow> string \<Rightarrow> decoders \<Rightarrow> (ably_proto_frame \<times> frame_home) option \<times> decoders" where
  "decode_json_tree lib buf d =
     (let d = free_last_root d
      in case lib_json_parse lib buf of
           None \<Rightarrow> (None, d)
         | Some _ \<Rightarrow>
             let a = dc_next d; d = d\<lparr>dc_roots := a # dc_roots d, dc_next := a + 1, dc_root := Some a\<rparr>
             in (map_option (\<lambda>f. (f, In_Tree a)) (proto_decode_json (lib_json_parse lib) buf), d))"

definition decode_msgpack_tree ::
  "codec_lib \<Rightarrow> string \<Rightarrow> decoders \<Rightarrow> (ably_proto_frame \<times> frame_home) option \<times> decoders" where
  "decode_msgpack_tree lib buf d =
     (let d = free_last_tree d; d = d\<lparr>dc_trees := dc_trees d + 1\<rparr>
      in case lib_mp_parse lib buf of
           None \<Rightarrow> (None, free_last_tree d)
         | Some _ \<Rightarrow>
             (map_option (\<lambda>f. (f, In_Pool)) (proto_decode_msgpack (lib_mp_parse lib) buf), d\<lparr>dc_tree_init := True\<rparr>))"

definition decode_tree ::
  "codec_lib \<Rightarrow> ably_encoding \<Rightarrow> string \<Rightarrow> decoders \<Rightarrow> (ably_proto_frame \<times> frame_home) option \<times> decoders" where
  "decode_tree lib enc buf d =
     (case enc of ENCODING_MSGPACK \<Rightarrow> decode_msgpack_tree lib buf d | ENCODING_JSON \<Rightarrow> decode_json_tree lib buf d)"

section \<open>Several clients\<close>

text \<open>What the clients of a process are dispatching, and how often a string of a tree that is deleted was read.
  A client decodes a frame, reads its strings while it dispatches it, and is done with it. The events of the
  clients come in any order: every client has a thread of its own.\<close>

record dispatching =
  dp_dec :: decoders
  dp_frame :: "nat \<Rightarrow> (ably_proto_frame \<times> frame_home) option"
  dp_dead :: nat

datatype dispatch_event = Frame_In nat string | Frame_Read nat | Frame_Done nat

fun dispatch_step :: "codec_lib \<Rightarrow> (nat \<Rightarrow> ably_encoding) \<Rightarrow> dispatch_event \<Rightarrow> dispatching \<Rightarrow> dispatching" where
  "dispatch_step lib enc (Frame_In c buf) w =
     (let (r, d) = decode_tree lib (enc c) buf (dp_dec w) in w\<lparr>dp_dec := d, dp_frame := (dp_frame w)(c := r)\<rparr>)"
| "dispatch_step lib enc (Frame_Read c) w =
     (case dp_frame w c of
        Some (f, In_Tree a) \<Rightarrow> if a \<in> set (dc_roots (dp_dec w)) then w else w\<lparr>dp_dead := dp_dead w + 1\<rparr>
      | _ \<Rightarrow> w)"
| "dispatch_step lib enc (Frame_Done c) w = w\<lparr>dp_frame := (dp_frame w)(c := None)\<rparr>"

definition dispatch_start :: dispatching where
  "dispatch_start = \<lparr>dp_dec = \<lparr>dc_root = None, dc_tree_init = False, dc_roots = [], dc_trees = 0, dc_next = 1\<rparr>,
     dp_frame = (\<lambda>c. None), dp_dead = 0\<rparr>"

definition dispatch_run :: "codec_lib \<Rightarrow> (nat \<Rightarrow> ably_encoding) \<Rightarrow> dispatch_event list \<Rightarrow> dispatching" where
  "dispatch_run lib enc evs = fold (dispatch_step lib enc) evs dispatch_start"

text \<open>No client decodes a frame while another one dispatches.\<close>

fun serial :: "nat option \<Rightarrow> dispatch_event list \<Rightarrow> bool" where
  "serial busy [] = True"
| "serial busy (Frame_In c buf # evs) = (busy = None \<and> serial (Some c) evs)"
| "serial busy (Frame_Read c # evs) = (busy = Some c \<and> serial busy evs)"
| "serial busy (Frame_Done c # evs) = (busy = Some c \<and> serial None evs)"

text \<open>The MessagePack frames that mpack cannot parse.\<close>

fun malformed :: "codec_lib \<Rightarrow> (nat \<Rightarrow> ably_encoding) \<Rightarrow> dispatch_event \<Rightarrow> bool" where
  "malformed lib enc (Frame_In c buf) = (enc c = ENCODING_MSGPACK \<and> lib_mp_parse lib buf = None)"
| "malformed lib enc _ = False"

section \<open>The trees that are live\<close>

definition trees_inv :: "nat \<Rightarrow> dispatching \<Rightarrow> bool" where
  "trees_inv bad w \<longleftrightarrow>
     (let d = dp_dec w
      in set (dc_roots d) = set_option (dc_root d) \<and> length (dc_roots d) \<le> 1 \<and> (\<forall>a \<in> set (dc_roots d). a < dc_next d) \<and>
         dc_trees d = bad + (if dc_tree_init d then 1 else 0) \<and>
         (\<forall>c f a. dp_frame w c = Some (f, In_Tree a) \<longrightarrow> a < dc_next d))"

lemma decode_json_tree_eq:
  assumes "set (dc_roots d) = set_option (dc_root d)" "length (dc_roots d) \<le> 1"
  shows "decode_json_tree lib buf d =
    (case lib_json_parse lib buf of
       None \<Rightarrow> (None, d\<lparr>dc_roots := [], dc_root := None\<rparr>)
     | Some _ \<Rightarrow> (map_option (\<lambda>f. (f, In_Tree (dc_next d))) (proto_decode_json (lib_json_parse lib) buf),
         d\<lparr>dc_roots := [dc_next d], dc_next := dc_next d + 1, dc_root := Some (dc_next d)\<rparr>))"
proof -
  have "free_last_root d = d\<lparr>dc_roots := [], dc_root := None\<rparr>"
  proof (cases "dc_root d")
    case None
    then show ?thesis using assms by (cases d) (simp add: free_last_root_def)
  next
    case (Some a)
    then have "dc_roots d = [a]" using assms by (cases "dc_roots d") auto
    then show ?thesis using Some by (simp add: free_last_root_def)
  qed
  then show ?thesis by (simp add: decode_json_tree_def Let_def split: option.split)
qed

lemma decode_msgpack_tree_eq:
  assumes "dc_trees d = bad + (if dc_tree_init d then 1 else 0)"
  shows "decode_msgpack_tree lib buf d =
    (case lib_mp_parse lib buf of
       None \<Rightarrow> (None, d\<lparr>dc_trees := Suc bad, dc_tree_init := False\<rparr>)
     | Some _ \<Rightarrow> (map_option (\<lambda>f. (f, In_Pool)) (proto_decode_msgpack (lib_mp_parse lib) buf),
         d\<lparr>dc_trees := Suc bad, dc_tree_init := True\<rparr>))"
  using assms by (cases d) (auto simp: decode_msgpack_tree_def free_last_tree_def Let_def split: option.split)

lemma trees_inv_step:
  assumes inv: "trees_inv bad w"
  shows "trees_inv (bad + (if malformed lib enc ev then 1 else 0)) (dispatch_step lib enc ev w)"
proof (cases ev)
  case (Frame_In c buf)
  show ?thesis
  proof (cases "enc c")
    case ENCODING_JSON
    have d: "set (dc_roots (dp_dec w)) = set_option (dc_root (dp_dec w))" "length (dc_roots (dp_dec w)) \<le> 1"
      using inv by (simp_all add: trees_inv_def Let_def)
    show ?thesis using inv
      by (auto simp: Frame_In ENCODING_JSON decode_tree_def decode_json_tree_eq [OF d] trees_inv_def Let_def less_SucI
          split: option.split)
  next
    case ENCODING_MSGPACK
    have d: "dc_trees (dp_dec w) = bad + (if dc_tree_init (dp_dec w) then 1 else 0)"
      using inv by (simp add: trees_inv_def Let_def)
    show ?thesis using inv
      by (auto simp: Frame_In ENCODING_MSGPACK decode_tree_def decode_msgpack_tree_eq [OF d] trees_inv_def Let_def
          split: option.split)
  qed
qed (use inv in \<open>auto simp: trees_inv_def Let_def split: option.split frame_home.split\<close>)

lemma trees_inv_fold:
  "trees_inv bad w \<Longrightarrow>
   trees_inv (bad + length (filter (malformed lib enc) evs)) (fold (dispatch_step lib enc) evs w)"
proof (induction evs arbitrary: bad w)
  case (Cons ev evs)
  from Cons.IH [OF trees_inv_step [OF Cons.prems, of lib enc ev]] show ?case
    by (cases "malformed lib enc ev") simp_all
qed simp

lemma trees_inv_run: "trees_inv (length (filter (malformed lib enc) evs)) (dispatch_run lib enc evs)"
  using trees_inv_fold [of 0 dispatch_start] by (simp add: dispatch_run_def trees_inv_def dispatch_start_def)

section \<open>Who reads what is deleted\<close>

text \<open>The frame of the client that dispatches points into the tree that is kept.\<close>

definition busy_ok :: "nat option \<Rightarrow> dispatching \<Rightarrow> bool" where
  "busy_ok busy w \<longleftrightarrow>
     (\<forall>c f a. busy = Some c \<longrightarrow> dp_frame w c = Some (f, In_Tree a) \<longrightarrow> a \<in> set (dc_roots (dp_dec w)))"

lemma decode_home:
  assumes "decode_tree lib enc buf d = (Some (f, In_Tree a), d')"
  shows "a \<in> set (dc_roots d')"
  using assms
  by (auto simp: decode_tree_def decode_json_tree_def decode_msgpack_tree_def Let_def
      split: ably_encoding.splits option.splits)

lemma serial_no_dead:
  "serial busy evs \<Longrightarrow> busy_ok busy w \<Longrightarrow> dp_dead (fold (dispatch_step lib enc) evs w) = dp_dead w"
proof (induction evs arbitrary: busy w)
  case (Cons ev evs)
  show ?case
  proof (cases ev)
    case (Frame_In c buf)
    obtain r d where d: "decode_tree lib (enc c) buf (dp_dec w) = (r, d)" by fastforce
    have "busy_ok (Some c) (dispatch_step lib enc ev w)"
      using d by (auto simp: Frame_In busy_ok_def dest: decode_home)
    then show ?thesis using Cons.IH [of "Some c"] Cons.prems(1) d by (simp add: Frame_In)
  next
    case (Frame_Read c)
    then have "dispatch_step lib enc ev w = w" "serial busy evs"
      using Cons.prems by (auto simp: busy_ok_def split: option.split frame_home.split)
    then show ?thesis using Cons.IH Cons.prems(2) by simp
  next
    case (Frame_Done c)
    then show ?thesis using Cons.IH [of None] Cons.prems(1) by (simp add: busy_ok_def)
  qed
qed simp

text \<open>C19. As long as no client decodes a frame while another dispatches one, no string is read from a tree that is
  deleted; in particular a process with one client is safe. Of the JSON trees at most one is kept. But every
  MessagePack frame that cannot be parsed leaves a tree that is never destroyed.\<close>

theorem frame_strings_live:
  "let w = dispatch_run lib enc evs
   in (serial None evs \<longrightarrow> dp_dead w = 0) \<and>
      length (dc_roots (dp_dec w)) \<le> 1 \<and>
      dc_trees (dp_dec w) = length (filter (malformed lib enc) evs) + (if dc_tree_init (dp_dec w) then 1 else 0)"
proof -
  have "serial None evs \<Longrightarrow> dp_dead (dispatch_run lib enc evs) = 0"
    using serial_no_dead [of None evs dispatch_start] by (simp add: dispatch_run_def busy_ok_def) (simp add: dispatch_start_def)
  then show ?thesis using trees_inv_run [of lib enc evs] by (auto simp: trees_inv_def Let_def)
qed

text \<open>C20. Two clients with the JSON encoding share the tree. Whatever happened before: when a client has decoded a
  frame and, while it dispatches it, another client receives a frame, of whatever contents, the strings of the
  first frame are gone, and the first client reads deleted memory.\<close>

theorem second_client_deletes_frame:
  assumes "enc c = ENCODING_JSON" "enc c' = ENCODING_JSON" "c \<noteq> c'"
    and "proto_decode lib ENCODING_JSON buf \<noteq> None"
  shows "dp_dead (dispatch_run lib enc (evs @ [Frame_In c buf, Frame_In c' buf', Frame_Read c])) =
    dp_dead (dispatch_run lib enc evs) + 1"
proof -
  define w where "w = dispatch_run lib enc evs"
  have inv: "set (dc_roots (dp_dec w)) = set_option (dc_root (dp_dec w))" "length (dc_roots (dp_dec w)) \<le> 1"
    using trees_inv_run [of lib enc evs] by (simp_all add: trees_inv_def Let_def w_def)
  obtain tree f where p: "lib_json_parse lib buf = Some tree" "proto_decode_json (lib_json_parse lib) buf = Some f"
    using assms(4) by (auto simp: proto_decode_def proto_decode_json_def split: option.splits)
  let ?a = "dc_next (dp_dec w)"
  define w1 where "w1 = dispatch_step lib enc (Frame_In c buf) w"
  have w1: "dp_frame w1 c = Some (f, In_Tree ?a)" "dc_roots (dp_dec w1) = [?a]" "dc_root (dp_dec w1) = Some ?a"
    "dc_next (dp_dec w1) = ?a + 1" "dp_dead w1 = dp_dead w"
    by (simp_all add: w1_def decode_tree_def assms(1) decode_json_tree_eq [OF inv] p)
  have inv1: "set (dc_roots (dp_dec w1)) = set_option (dc_root (dp_dec w1))" "length (dc_roots (dp_dec w1)) \<le> 1"
    using w1 by simp_all
  define w2 where "w2 = dispatch_step lib enc (Frame_In c' buf') w1"
  have w2: "dp_frame w2 c = Some (f, In_Tree ?a)" "?a \<notin> set (dc_roots (dp_dec w2))" "dp_dead w2 = dp_dead w"
    using w1 assms(3) by (auto simp: w2_def decode_tree_def assms(2) decode_json_tree_eq [OF inv1] split: option.split)
  have "dispatch_run lib enc (evs @ [Frame_In c buf, Frame_In c' buf', Frame_Read c]) =
      dispatch_step lib enc (Frame_Read c) w2"
    by (simp add: dispatch_run_def w_def w1_def w2_def del: dispatch_step.simps)
  then show ?thesis using w2 by (simp add: w_def)
qed

section \<open>Examples\<close>

definition heartbeat_lib :: codec_lib where
  "heartbeat_lib = \<lparr>lib_json_print = (\<lambda>t. None), lib_json_parse = (\<lambda>s. Some (JObj [(''action'', JNum 0)])),
     lib_mp_write = (\<lambda>n t. []), lib_mp_parse = (\<lambda>s. None)\<rparr>"

lemma frame_strings_live_witness:
  "dp_dead (dispatch_run heartbeat_lib (\<lambda>c. ENCODING_JSON)
     [Frame_In 1 ''{}'', Frame_Read 1, Frame_Done 1, Frame_In 2 ''{}'', Frame_Read 2]) = 0"
  using frame_strings_live [of heartbeat_lib "\<lambda>c. ENCODING_JSON"
      "[Frame_In 1 ''{}'', Frame_Read 1, Frame_Done 1, Frame_In 2 ''{}'', Frame_Read 2]"]
  by (simp add: Let_def del: dispatch_step.simps)

lemma second_client_deletes_frame_witness:
  "dp_dead (dispatch_run heartbeat_lib (\<lambda>c. ENCODING_JSON) [Frame_In 1 ''{}'', Frame_In 2 ''{'', Frame_Read 1]) = 1"
  using second_client_deletes_frame [of "\<lambda>c. ENCODING_JSON" 1 2 heartbeat_lib "''{}''" "[]" "''{''"]
  by (simp add: heartbeat_lib_def proto_decode_def proto_decode_json_def dispatch_run_def dispatch_start_def
      del: dispatch_step.simps)

end
