(* ===== verification/Ably_Page_Pool.thy ===== *)
theory Ably_Page_Pool
  imports Ably_Rest_Query
begin

text \<open>
  The memory of the pages that \<^verbatim>\<open>ably_rest_channel_history\<close> and \<^verbatim>\<open>ably_rest_presence_get\<close> return
  (\<^verbatim>\<open>src/rest/rest_client.c\<close>). A page is one block: a first pass over the reply adds up the strings, a second one
  copies them into the pool at the end of the block and points the items at them. \<^verbatim>\<open>Ably_Rest\<close> has the items as
  values; here they are offsets into the pool, and writing outside of it is an outcome.
\<close>

section \<open>The pool\<close>

record pool =
  pl_bytes :: string
  pl_ptr :: nat
  pl_bad :: bool

definition pool_calloc :: "nat \<Rightarrow> pool" where
  "pool_calloc n = \<lparr>pl_bytes = replicate n (CHR 0x00), pl_ptr = 0, pl_bad = False\<rparr>"

text \<open>\<^verbatim>\<open>memcpy(pool_ptr, s, l + 1); pool_ptr += l + 1\<close>, the NUL included.\<close>

definition pool_put :: "string \<Rightarrow> pool \<Rightarrow> pool" where
  "pool_put s p =
     (let i = pl_ptr p; j = i + length s + 1
      in if length (pl_bytes p) < j then p\<lparr>pl_bad := True\<rparr>
         else p\<lparr>pl_bytes := take i (pl_bytes p) @ s @ [CHR 0x00] @ drop j (pl_bytes p), pl_ptr := j\<rparr>)"

text \<open>The C string that starts at an offset.\<close>

definition pool_read :: "pool \<Rightarrow> nat \<Rightarrow> string" where
  "pool_read p i = c_string (drop i (pl_bytes p))"

text \<open>\<^verbatim>\<open>pool_size += strlen(f->valuestring) + 1\<close>\<close>

definition pool_need :: "json \<Rightarrow> string \<Rightarrow> nat" where
  "pool_need item key = (case json_str item key of None \<Rightarrow> 0 | Some s \<Rightarrow> length (c_string s) + 1)"

section \<open>History\<close>

record page_message =
  gm_id :: "nat option"
  gm_name :: "nat option"
  gm_data :: "nat option"
  gm_client_id :: "nat option"
  gm_timestamp :: int

definition history_pool_size :: "json list \<Rightarrow> nat" where
  "history_pool_size items = sum_list (map (\<lambda>item. pool_need item ''id'' + pool_need item ''name'' +
     pool_need item ''data'' + pool_need item ''clientId'') items)"

text \<open>\<^verbatim>\<open>COPY_STR\<close>\<close>

definition copy_str :: "json \<Rightarrow> string \<Rightarrow> pool \<Rightarrow> nat option \<times> pool" where
  "copy_str item key p =
     (case json_str item key of
        None \<Rightarrow> (None, p)
      | Some s \<Rightarrow> (Some (pl_ptr p), pool_put (c_string s) p))"

definition copy_message :: "json \<Rightarrow> pool \<Rightarrow> page_message \<times> pool" where
  "copy_message item p =
     (let (i, p) = copy_str item ''id'' p; (n, p) = copy_str item ''name'' p; (d, p) = copy_str item ''data'' p;
          (c, p) = copy_str item ''clientId'' p
      in (\<lparr>gm_id = i, gm_name = n, gm_data = d, gm_client_id = c, gm_timestamp = json_int64 item ''timestamp'' 0\<rparr>, p))"

fun copy_messages :: "json list \<Rightarrow> pool \<Rightarrow> page_message list \<times> pool" where
  "copy_messages [] p = ([], p)"
| "copy_messages (item # items) p =
     (let (m, p) = copy_message item p; (ms, p) = copy_messages items p in (m # ms, p))"

definition history_page_build :: "json list \<Rightarrow> page_message list \<times> pool" where
  "history_page_build items = copy_messages items (pool_calloc (history_pool_size items + 1))"

text \<open>What the application reads through the pointers of an item.\<close>

definition read_message :: "pool \<Rightarrow> page_message \<Rightarrow> ably_message" where
  "read_message p m =
     \<lparr>am_id = map_option (pool_read p) (gm_id m), am_name = map_option (pool_read p) (gm_name m),
      am_data = map_option (pool_read p) (gm_data m), am_client_id = map_option (pool_read p) (gm_client_id m),
      am_timestamp = gm_timestamp m\<rparr>"

text \<open>The item as a value, its strings as C strings.\<close>

definition c_message :: "ably_message \<Rightarrow> ably_message" where
  "c_message m =
     m\<lparr>am_id := map_option c_string (am_id m), am_name := map_option c_string (am_name m),
       am_data := map_option c_string (am_data m), am_client_id := map_option c_string (am_client_id m)\<rparr>"

section \<open>Presence\<close>

definition presence_pool_size :: "json list \<Rightarrow> nat" where
  "presence_pool_size items = sum_list (map (\<lambda>item. pool_need item ''clientId'' + pool_need item ''data'' +
     pool_need item ''connectionId'') items)"

text \<open>\<^verbatim>\<open>COPY_PRES\<close>: through the pool into the array of the item, cut to its size.\<close>

definition copy_pres :: "nat \<Rightarrow> json \<Rightarrow> string \<Rightarrow> pool \<Rightarrow> string \<times> pool" where
  "copy_pres max_len item key p =
     (case json_str item key of
        None \<Rightarrow> ([], p)
      | Some s \<Rightarrow>
          let l = length (c_string s); l = (if l \<ge> max_len then max_len - 1 else l); t = take l (c_string s)
          in (t, pool_put t p))"

definition copy_presence :: "json \<Rightarrow> pool \<Rightarrow> ably_presence_message \<times> pool" where
  "copy_presence item p =
     (let (cid, p) = copy_pres ABLY_MAX_CLIENT_ID_LEN item ''clientId'' p;
          (connid, p) = copy_pres 64 item ''connectionId'' p;
          (data, p) = copy_pres ABLY_MAX_MESSAGE_DATA_LEN item ''data'' p
      in (\<lparr>pm_action = presence_action_of_int (c_int (json_int64 item ''action'' (presence_action_code PRESENCE_PRESENT))),
           pm_client_id = cid, pm_connection_id = connid, pm_data = data,
           pm_timestamp = json_int64 item ''timestamp'' 0\<rparr>, p))"

fun copy_presences :: "json list \<Rightarrow> pool \<Rightarrow> ably_presence_message list \<times> pool" where
  "copy_presences [] p = ([], p)"
| "copy_presences (item # items) p =
     (let (m, p) = copy_presence item p; (ms, p) = copy_presences items p in (m # ms, p))"

definition presence_page_build :: "json list \<Rightarrow> ably_presence_message list \<times> pool" where
  "presence_page_build items = copy_presences items (pool_calloc (presence_pool_size items + 1))"

definition c_presence :: "json \<Rightarrow> ably_presence_message" where
  "c_presence item =
     (presence_item item)\<lparr>pm_client_id := c_copy ABLY_MAX_CLIENT_ID_LEN (c_string (c_str (json_str item ''clientId''))),
       pm_connection_id := c_copy 64 (c_string (c_str (json_str item ''connectionId''))),
       pm_data := c_copy ABLY_MAX_MESSAGE_DATA_LEN (c_string (c_str (json_str item ''data'')))\<rparr>"

section \<open>Writing inside the pool\<close>

text \<open>A string that the pool holds at an offset, with its NUL, below the write pointer.\<close>

definition holds :: "pool \<Rightarrow> nat \<Rightarrow> string \<Rightarrow> bool" where
  "holds p i s \<longleftrightarrow> i + length s + 1 \<le> pl_ptr p \<and> pl_ptr p \<le> length (pl_bytes p) \<and>
     take (length s + 1) (drop i (pl_bytes p)) = s @ [CHR 0x00]"

text \<open>The pool has grown by at most \<open>n\<close> bytes, inside its block, and keeps what it held.\<close>

definition grows :: "nat \<Rightarrow> pool \<Rightarrow> pool \<Rightarrow> bool" where
  "grows n p p' \<longleftrightarrow> length (pl_bytes p') = length (pl_bytes p) \<and> pl_ptr p' \<le> pl_ptr p + n \<and> pl_bad p' = pl_bad p \<and>
     (\<forall>i s. holds p i s \<longrightarrow> holds p' i s)"

lemma grows_refl: "grows n p p" by (simp add: grows_def)

lemma grows_trans: "grows n p p' \<Longrightarrow> grows k p' p'' \<Longrightarrow> grows (n + k) p p''"
  by (force simp: grows_def)

lemma grows_mono: "grows n p p' \<Longrightarrow> n \<le> k \<Longrightarrow> grows k p p'" by (auto simp: grows_def)

lemma grows_room: "grows n p p' \<Longrightarrow> pl_ptr p + (n + k) \<le> length (pl_bytes p) \<Longrightarrow> pl_ptr p' + k \<le> length (pl_bytes p')"
  by (auto simp: grows_def)

lemma pool_put_grows:
  assumes "pl_ptr p + (length s + 1) \<le> length (pl_bytes p)"
  shows "grows (length s + 1) p (pool_put s p)" "holds (pool_put s p) (pl_ptr p) s"
proof -
  have keep: "holds (pool_put s p) i t" if "holds p i t" for i t
  proof -
    have "take (length t + 1) (drop i (take (pl_ptr p) (pl_bytes p) @ r)) = take (length t + 1) (drop i (pl_bytes p))" for r
    proof -
      have "i + (length t + 1) \<le> length (take (pl_ptr p) (pl_bytes p))" using that by (simp add: holds_def)
      then have "take (length t + 1) (drop i (take (pl_ptr p) (pl_bytes p) @ r)) =
          take (length t + 1) (drop i (take (pl_ptr p) (pl_bytes p)))" by simp
      also have "\<dots> = take (min (length t + 1) (pl_ptr p - i)) (drop i (pl_bytes p))" by (simp add: drop_take)
      also have "min (length t + 1) (pl_ptr p - i) = length t + 1"
        using that by (intro min_absorb1) (auto simp: holds_def)
      finally show ?thesis .
    qed
    then show ?thesis using that assms by (simp add: holds_def pool_put_def Let_def)
  qed
  then show "grows (length s + 1) p (pool_put s p)" using assms by (simp add: grows_def pool_put_def Let_def)
  show "holds (pool_put s p) (pl_ptr p) s" using assms by (simp add: holds_def pool_put_def Let_def)
qed

lemma c_string_prefix:
  assumes "CHR 0x00 \<notin> set s"
  shows "c_string (s @ CHR 0x00 # r) = s"
  using assms by (induction s) (auto simp: c_string_def)

lemma c_string_plain: "CHR 0x00 \<notin> set (c_string s)"
  unfolding c_string_def using set_takeWhileD by fastforce

lemma holds_read: "holds p i (c_string s) \<Longrightarrow> pool_read p i = c_string s"
proof -
  assume h: "holds p i (c_string s)"
  have "drop i (pl_bytes p) = take (length (c_string s) + 1) (drop i (pl_bytes p)) @ drop (length (c_string s) + 1) (drop i (pl_bytes p))"
    by (simp only: append_take_drop_id)
  also have "take (length (c_string s) + 1) (drop i (pl_bytes p)) = c_string s @ [CHR 0x00]" using h by (simp add: holds_def)
  finally have "drop i (pl_bytes p) = c_string s @ CHR 0x00 # drop (length (c_string s) + 1) (drop i (pl_bytes p))" by simp
  then show ?thesis using c_string_prefix [OF c_string_plain] by (simp add: pool_read_def)
qed

section \<open>The items of a page\<close>

text \<open>The offset of an item points at its string.\<close>

definition points :: "pool \<Rightarrow> nat option \<Rightarrow> string option \<Rightarrow> bool" where
  "points p r t = (case t of None \<Rightarrow> r = None | Some s \<Rightarrow> \<exists>i. r = Some i \<and> holds p i (c_string s))"

lemma points_grow: "points p r t \<Longrightarrow> grows n p p' \<Longrightarrow> points p' r t"
  by (auto simp: points_def grows_def split: option.splits)

lemma points_read: "points p r t \<Longrightarrow> map_option (pool_read p) r = map_option c_string t"
  by (auto simp: points_def holds_read split: option.splits)

lemma copy_str_grows:
  assumes "copy_str item key p = (r, p')" "pl_ptr p + pool_need item key \<le> length (pl_bytes p)"
  shows "grows (pool_need item key) p p' \<and> points p' r (json_str item key)"
proof (cases "json_str item key")
  case None
  then show ?thesis using assms(1) by (simp add: copy_str_def points_def grows_refl)
next
  case (Some s)
  then have n: "pool_need item key = length (c_string s) + 1" by (simp add: pool_need_def)
  have "r = Some (pl_ptr p)" "p' = pool_put (c_string s) p" using assms(1) Some by (simp_all add: copy_str_def)
  then show ?thesis using pool_put_grows [of p "c_string s"] assms(2) Some n by (simp add: points_def)
qed

definition message_at :: "pool \<Rightarrow> json \<Rightarrow> page_message \<Rightarrow> bool" where
  "message_at p item m \<longleftrightarrow> points p (gm_id m) (json_str item ''id'') \<and> points p (gm_name m) (json_str item ''name'') \<and>
     points p (gm_data m) (json_str item ''data'') \<and> points p (gm_client_id m) (json_str item ''clientId'') \<and>
     gm_timestamp m = json_int64 item ''timestamp'' 0"

lemma message_at_read: "message_at p item m \<Longrightarrow> read_message p m = c_message (history_item item)"
  by (simp add: message_at_def read_message_def c_message_def history_item_def points_read)

lemma copy_message_grows:
  assumes "copy_message item p = (m, p')"
    and "pl_ptr p + (pool_need item ''id'' + pool_need item ''name'' + pool_need item ''data'' + pool_need item ''clientId'')
      \<le> length (pl_bytes p)"
  shows "grows (pool_need item ''id'' + pool_need item ''name'' + pool_need item ''data'' + pool_need item ''clientId'') p p' \<and>
    message_at p' item m"
proof -
  obtain i p1 where 1: "copy_str item ''id'' p = (i, p1)" by fastforce
  obtain n p2 where 2: "copy_str item ''name'' p1 = (n, p2)" by fastforce
  obtain d p3 where 3: "copy_str item ''data'' p2 = (d, p3)" by fastforce
  obtain c p4 where 4: "copy_str item ''clientId'' p3 = (c, p4)" by fastforce
  have m: "m = \<lparr>gm_id = i, gm_name = n, gm_data = d, gm_client_id = c, gm_timestamp = json_int64 item ''timestamp'' 0\<rparr>"
    "p' = p4" using assms(1) by (simp_all add: copy_message_def 1 2 3 4)
  note g1 = copy_str_grows [OF 1]
  have r1: "grows (pool_need item ''id'') p p1 \<and> points p1 i (json_str item ''id'')" using g1 assms(2) by simp
  have r2: "grows (pool_need item ''name'') p1 p2 \<and> points p2 n (json_str item ''name'')"
    using copy_str_grows [OF 2] r1 assms(2) by (auto simp: grows_def)
  have r3: "grows (pool_need item ''data'') p2 p3 \<and> points p3 d (json_str item ''data'')"
    using copy_str_grows [OF 3] r1 r2 assms(2) by (auto simp: grows_def)
  have r4: "grows (pool_need item ''clientId'') p3 p4 \<and> points p4 c (json_str item ''clientId'')"
    using copy_str_grows [OF 4] r1 r2 r3 assms(2) by (auto simp: grows_def)
  have "points p4 i (json_str item ''id'')" "points p4 n (json_str item ''name'')" "points p4 d (json_str item ''data'')"
    using r1 r2 r3 r4 by (blast intro: points_grow)+
  moreover have "grows (pool_need item ''id'' + pool_need item ''name'' + pool_need item ''data'' + pool_need item ''clientId'') p p4"
    using grows_trans [OF grows_trans [OF grows_trans]] r1 r2 r3 r4 by blast
  ultimately show ?thesis using r4 by (simp add: m message_at_def)
qed

lemma copy_messages_grows:
  assumes "copy_messages items p = (ms, p')" "pl_ptr p + history_pool_size items \<le> length (pl_bytes p)"
  shows "grows (history_pool_size items) p p' \<and> list_all2 (message_at p') items ms"
  using assms
proof (induction items arbitrary: p ms p')
  case Nil
  then show ?case by (simp add: grows_refl)
next
  case (Cons item items)
  let ?n = "pool_need item ''id'' + pool_need item ''name'' + pool_need item ''data'' + pool_need item ''clientId''"
  obtain m p1 where 1: "copy_message item p = (m, p1)" by fastforce
  obtain ms' p2 where 2: "copy_messages items p1 = (ms', p2)" by fastforce
  have size: "history_pool_size (item # items) = ?n + history_pool_size items" by (simp add: history_pool_size_def)
  have r1: "grows ?n p p1 \<and> message_at p1 item m" using copy_message_grows [OF 1] Cons.prems(2) size by simp
  have r2: "grows (history_pool_size items) p1 p2 \<and> list_all2 (message_at p2) items ms'"
    using Cons.IH [OF 2] grows_room [of ?n p p1] r1 Cons.prems(2) size by simp
  have "message_at p2 item m" using r1 r2 by (auto simp: message_at_def intro: points_grow)
  then show ?case using grows_trans r1 r2 Cons.prems(1) size by (auto simp: 1 2)
qed

lemma copy_pres_grows:
  assumes "copy_pres k item key p = (t, p')" "pl_ptr p + pool_need item key \<le> length (pl_bytes p)" "0 < k"
  shows "grows (pool_need item key) p p' \<and> t = c_copy k (c_string (c_str (json_str item key)))"
proof (cases "json_str item key")
  case None
  then show ?thesis using assms(1) by (simp add: copy_pres_def grows_refl c_string_def)
next
  case (Some s)
  have t: "t = c_copy k (c_string s)" "p' = pool_put t p"
    using assms(1,3) Some by (auto simp: copy_pres_def c_copy_def Let_def split: if_splits)
  have n: "length t + 1 \<le> pool_need item key" using Some t(1) by (simp add: pool_need_def c_copy_def)
  then have "grows (length t + 1) p p'" using pool_put_grows(1) [of p t] t(2) assms(2) by simp
  then show ?thesis using grows_mono n t(1) Some by auto
qed

lemma copy_presence_grows:
  assumes "copy_presence item p = (m, p')"
    and "pl_ptr p + (pool_need item ''clientId'' + pool_need item ''data'' + pool_need item ''connectionId'')
      \<le> length (pl_bytes p)"
  shows "grows (pool_need item ''clientId'' + pool_need item ''data'' + pool_need item ''connectionId'') p p' \<and>
    m = c_presence item"
proof -
  obtain c p1 where 1: "copy_pres ABLY_MAX_CLIENT_ID_LEN item ''clientId'' p = (c, p1)" by fastforce
  obtain n p2 where 2: "copy_pres 64 item ''connectionId'' p1 = (n, p2)" by fastforce
  obtain d p3 where 3: "copy_pres ABLY_MAX_MESSAGE_DATA_LEN item ''data'' p2 = (d, p3)" by fastforce
  have r1: "grows (pool_need item ''clientId'') p p1 \<and> c = c_copy ABLY_MAX_CLIENT_ID_LEN (c_string (c_str (json_str item ''clientId'')))"
    using copy_pres_grows [OF 1] assms(2) by (simp add: ABLY_MAX_CLIENT_ID_LEN_def)
  have r2: "grows (pool_need item ''connectionId'') p1 p2 \<and> n = c_copy 64 (c_string (c_str (json_str item ''connectionId'')))"
    using copy_pres_grows [OF 2] r1 assms(2) by (auto simp: grows_def)
  have "pl_ptr p2 + pool_need item ''data'' \<le> length (pl_bytes p2)" using r1 r2 assms(2) by (auto simp: grows_def)
  then have r3: "grows (pool_need item ''data'') p2 p3 \<and>
      d = c_copy ABLY_MAX_MESSAGE_DATA_LEN (c_string (c_str (json_str item ''data'')))"
    using copy_pres_grows [OF 3] by (simp add: ABLY_MAX_MESSAGE_DATA_LEN_def)
  have "grows (pool_need item ''clientId'' + pool_need item ''connectionId'' + pool_need item ''data'') p p3"
    using grows_trans [OF grows_trans] r1 r2 r3 by blast
  then show ?thesis using assms(1) r1 r2 r3
    by (auto simp: copy_presence_def 1 2 3 c_presence_def presence_item_def ac_simps)
qed

lemma copy_presences_grows:
  assumes "copy_presences items p = (ms, p')" "pl_ptr p + presence_pool_size items \<le> length (pl_bytes p)"
  shows "grows (presence_pool_size items) p p' \<and> ms = map c_presence items"
  using assms
proof (induction items arbitrary: p ms p')
  case Nil
  then show ?case by (simp add: grows_refl)
next
  case (Cons item items)
  let ?n = "pool_need item ''clientId'' + pool_need item ''data'' + pool_need item ''connectionId''"
  obtain m p1 where 1: "copy_presence item p = (m, p1)" by fastforce
  obtain ms' p2 where 2: "copy_presences items p1 = (ms', p2)" by fastforce
  have size: "presence_pool_size (item # items) = ?n + presence_pool_size items" by (simp add: presence_pool_size_def)
  have r1: "grows ?n p p1 \<and> m = c_presence item" using copy_presence_grows [OF 1] Cons.prems(2) size by simp
  have "grows (presence_pool_size items) p1 p2 \<and> ms' = map c_presence items"
    using Cons.IH [OF 2] grows_room [of ?n p p1] r1 Cons.prems(2) size by simp
  then show ?case using grows_trans r1 Cons.prems(1) size by (auto simp: 1 2)
qed

text \<open>C33. The pages are right and fit their memory. Whatever the service answers: the second pass writes inside the
  block that the first one measured, and afterwards the application reads, through the pointers of a history
  page and in the arrays of a presence page, the items of the reply; no string that is written later damages
  an earlier one.\<close>

theorem rest_pages_fit_their_pools:
  "(case history_page_build items of
      (ms, p) \<Rightarrow> \<not> pl_bad p \<and> pl_ptr p \<le> history_pool_size items \<and>
        map (read_message p) ms = map (\<lambda>item. c_message (history_item item)) items) \<and>
   (case presence_page_build items of
      (ms, p) \<Rightarrow> \<not> pl_bad p \<and> pl_ptr p \<le> presence_pool_size items \<and> ms = map c_presence items)"
proof -
  obtain ms p where h: "history_page_build items = (ms, p)" by fastforce
  have g: "grows (history_pool_size items) (pool_calloc (history_pool_size items + 1)) p \<and> list_all2 (message_at p) items ms"
    using copy_messages_grows [of items "pool_calloc (history_pool_size items + 1)" ms p] h
    by (simp add: history_page_build_def pool_calloc_def)
  have "map (read_message p) ms = map (\<lambda>item. c_message (history_item item)) items"
    using conjunct2 [OF g] by (induction rule: list_all2_induct) (simp_all add: message_at_read)
  moreover have "\<not> pl_bad p" "pl_ptr p \<le> history_pool_size items" using g by (simp_all add: grows_def pool_calloc_def)
  moreover obtain ms' p' where q: "presence_page_build items = (ms', p')" by fastforce
  moreover have "grows (presence_pool_size items) (pool_calloc (presence_pool_size items + 1)) p' \<and> ms' = map c_presence items"
    using copy_presences_grows [of items "pool_calloc (presence_pool_size items + 1)" ms' p'] q
    by (simp add: presence_page_build_def pool_calloc_def)
  ultimately show ?thesis using h by (simp add: grows_def pool_calloc_def)
qed

end
