(* ===== verification/Ably_Resources.thy ===== *)
theory Ably_Resources
  imports Ably_Http Ably_Rest Ably_Realtime "HOL-Library.Multiset"
begin

text \<open>
  What the handles of the library own: the blocks they allocate, the TLS contexts they initialise, the sockets,
  TLS sessions and wslay contexts of their connections and the pages of history requests, from
  their constructors, with every way these can fail, to their destructors (\<^verbatim>\<open>ws_client.c\<close>, \<^verbatim>\<open>http_client.c\<close>,
  \<^verbatim>\<open>rest_client.c\<close>, \<^verbatim>\<open>realtime_client.c\<close>, \<^verbatim>\<open>channel.c\<close>), over the allocator of \<^verbatim>\<open>alloc.c\<close>; and the TLS
  configuration the constructors make, with the search for CA certificates of \<^verbatim>\<open>tls_ca.c\<close>. The contents of
  the handles are in the theories of their modules.
\<close>

section \<open>The allocator\<close>

text \<open>\<open>mm_results\<close> says whether the allocations to come succeed; when there are none left they do.
  \<open>mm_tls\<close> has the blocks whose TLS contexts are initialised, \<open>mm_bad\<close> counts what was released without being
  live.\<close>

record mem_state =
  mm_live :: "nat list"
  mm_next :: nat
  mm_tls :: "nat list"
  mm_results :: "bool list"
  mm_bad :: nat

definition mem_malloc :: "mem_state \<Rightarrow> nat option \<times> mem_state" where
  "mem_malloc m =
     (let ok = (case mm_results m of [] \<Rightarrow> True | r # _ \<Rightarrow> r); m1 = m\<lparr>mm_results := tl (mm_results m)\<rparr>
      in if ok then (Some (mm_next m), m1\<lparr>mm_live := mm_next m # mm_live m, mm_next := mm_next m + 1\<rparr>)
         else (None, m1))"

definition mem_free :: "nat option \<Rightarrow> mem_state \<Rightarrow> mem_state" where
  "mem_free p m =
     (case p of None \<Rightarrow> m
      | Some a \<Rightarrow> if a \<in> set (mm_live m) then m\<lparr>mm_live := remove1 a (mm_live m)\<rparr> else m\<lparr>mm_bad := mm_bad m + 1\<rparr>)"

text \<open>\<^verbatim>\<open>mbedtls_*_init\<close> and \<^verbatim>\<open>mbedtls_*_free\<close> of the contexts in a block.\<close>

definition tls_init :: "nat \<Rightarrow> mem_state \<Rightarrow> mem_state" where
  "tls_init a m = m\<lparr>mm_tls := a # mm_tls m\<rparr>"

definition tls_free :: "nat \<Rightarrow> mem_state \<Rightarrow> mem_state" where
  "tls_free a m =
     (if a \<in> set (mm_tls m) then m\<lparr>mm_tls := remove1 a (mm_tls m)\<rparr> else m\<lparr>mm_bad := mm_bad m + 1\<rparr>)"

text \<open>Something that another library hands out and that is released like a block: a socket, what
  \<^verbatim>\<open>mbedtls_ssl_setup\<close> allocates.\<close>

definition mem_get :: "mem_state \<Rightarrow> nat \<times> mem_state" where
  "mem_get m = (mm_next m, m\<lparr>mm_live := mm_next m # mm_live m, mm_next := mm_next m + 1\<rparr>)"

section \<open>TLS configuration\<close>

text \<open>What mbedTLS and the environment answer. \<^verbatim>\<open>mbedtls_x509_crt_parse_file\<close> adds the certificates it could
  parse to the chain and returns the number of those it could not, or a negative code when it could parse
  none.\<close>

record tls_env =
  te_seed :: int
  te_defaults :: int
  te_parse_file :: "string \<Rightarrow> int"
  te_ca_bundle_path :: "string option"

datatype authmode = Verify_None | Verify_Required

definition k_ca_paths :: "string list" where
  "k_ca_paths = [''/etc/ssl/cert.pem'', ''/etc/ssl/certs/ca-certificates.crt'', ''/etc/pki/tls/certs/ca-bundle.crt'',
     ''/etc/ssl/ca-bundle.pem'', ''/usr/local/share/certs/ca-js-nss.crt'',
     ''/etc/pki/ca-trust/extracted/pem/tls-ca-bundle.pem'']"

text \<open>Parsing a file: the return value and the chain, here the files it has certificates of.\<close>

definition crt_parse_file :: "tls_env \<Rightarrow> string \<Rightarrow> string list \<Rightarrow> int \<times> string list" where
  "crt_parse_file env path chain =
     (let ret = te_parse_file env path in (ret, if ret \<ge> 0 then chain @ [path] else chain))"

fun load_ca_paths :: "tls_env \<Rightarrow> string list \<Rightarrow> string list \<Rightarrow> bool \<times> string list" where
  "load_ca_paths env [] chain = (False, chain)"
| "load_ca_paths env (path # paths) chain =
     (let (ret, chain1) = crt_parse_file env path chain
      in if ret = 0 then (True, chain1) else if ret > 0 then (True, chain1) else load_ca_paths env paths chain1)"

definition tls_load_system_ca :: "tls_env \<Rightarrow> string list \<Rightarrow> bool \<times> string list" where
  "tls_load_system_ca env chain =
     (case te_ca_bundle_path env of
        None \<Rightarrow> load_ca_paths env k_ca_paths chain
      | Some path \<Rightarrow>
          let (ret, chain1) = crt_parse_file env path chain
          in if ret = 0 then (True, chain1) else load_ca_paths env k_ca_paths chain1)"

text \<open>The configuration both constructors make, which can fail; the mode and the chain.\<close>

definition tls_configure :: "tls_env \<Rightarrow> bool \<Rightarrow> string \<Rightarrow> (authmode \<times> string list) option" where
  "tls_configure env tls_verify_peer ca_cert_pem_path =
     (if te_seed env \<noteq> 0 then None
      else if te_defaults env \<noteq> 0 then None
      else if tls_verify_peer then
        (if ca_cert_pem_path \<noteq> [] then
           (let (ca_ret, chain) = crt_parse_file env ca_cert_pem_path []
            in if ca_ret \<noteq> 0 then None else Some (Verify_Required, chain))
         else Some (Verify_Required, snd (tls_load_system_ca env [])))
      else Some (Verify_None, []))"

section \<open>The WebSocket and the HTTP client\<close>

text \<open>\<open>wb_lost\<close> is kept for the statements only: the sockets and TLS sessions that were overwritten.\<close>

record ws_blocks =
  wb_self :: nat
  wb_recv_buf :: nat
  wb_send_buf :: nat
  wb_handshake_buf :: nat
  wb_tls :: "authmode \<times> string list"
  wb_sock :: "nat option"
  wb_ssl :: "nat option"
  wb_wslay :: "nat option"
  wb_lost :: "nat list"

definition ws_mem_create :: "tls_env \<Rightarrow> bool \<Rightarrow> string \<Rightarrow> mem_state \<Rightarrow> ws_blocks option \<times> mem_state" where
  "ws_mem_create env verify ca m =
     (case mem_malloc m of
        (None, m) \<Rightarrow> (None, m)
      | (Some self, m) \<Rightarrow>
          let (recv_buf, m) = mem_malloc m; (send_buf, m) = mem_malloc m; (handshake_buf, m) = mem_malloc m;
              fail = (\<lambda>m. mem_free (Some self) (mem_free handshake_buf (mem_free send_buf (mem_free recv_buf m))))
          in case (recv_buf, send_buf, handshake_buf) of
               (Some r, Some s, Some h) \<Rightarrow>
                 let m = tls_init self m
                 in (case tls_configure env verify ca of
                       None \<Rightarrow> (None, fail (tls_free self m))
                     | Some cfg \<Rightarrow> (Some \<lparr>wb_self = self, wb_recv_buf = r, wb_send_buf = s, wb_handshake_buf = h,
                                            wb_tls = cfg, wb_sock = None, wb_ssl = None, wb_wslay = None, wb_lost = []\<rparr>, m))
             | _ \<Rightarrow> (None, fail m))"

definition ws_mem_destroy :: "ws_blocks \<Rightarrow> mem_state \<Rightarrow> mem_state" where
  "ws_mem_destroy b m =
     mem_free (Some (wb_self b)) (mem_free (Some (wb_handshake_buf b)) (mem_free (Some (wb_send_buf b))
       (mem_free (Some (wb_recv_buf b)) (mem_free (wb_sock b) (tls_free (wb_self b)
         (mem_free (wb_ssl b) (mem_free (wb_wslay b) m)))))))"

text \<open>\<^verbatim>\<open>ably_ws_connect\<close>, by the place where it returns. A socket or a TLS session that is still there, after a
  connection was lost, is overwritten (\<^verbatim>\<open>Ably_Ws.ws_reconnect_account\<close>); a failed handshake and the
  closing handshake release both. \<^verbatim>\<open>mbedtls_ssl_free\<close> and \<^verbatim>\<open>mbedtls_ssl_init\<close> follow each other, so the context stays
  initialised.\<close>

datatype connect_exit = No_Host | Refused | Setup_Fails | Handshake_Fails | Upgraded

definition drop_sock :: "nat option \<Rightarrow> ws_blocks \<Rightarrow> ws_blocks" where
  "drop_sock new b = b\<lparr>wb_sock := new, wb_lost := (case wb_sock b of None \<Rightarrow> [] | Some a \<Rightarrow> [a]) @ wb_lost b\<rparr>"

definition drop_ssl :: "nat option \<Rightarrow> ws_blocks \<Rightarrow> ws_blocks" where
  "drop_ssl new b = b\<lparr>wb_ssl := new, wb_lost := (case wb_ssl b of None \<Rightarrow> [] | Some a \<Rightarrow> [a]) @ wb_lost b\<rparr>"

definition ws_mem_fail_net :: "ws_blocks \<times> mem_state \<Rightarrow> ws_blocks \<times> mem_state" where
  "ws_mem_fail_net s = (case s of (b, m) \<Rightarrow> (b\<lparr>wb_sock := None\<rparr>, mem_free (wb_sock b) m))"

definition ws_mem_fail_ssl :: "ws_blocks \<times> mem_state \<Rightarrow> ws_blocks \<times> mem_state" where
  "ws_mem_fail_ssl s =
     (case s of (b, m) \<Rightarrow>
        ws_mem_fail_net (b\<lparr>wb_ssl := None\<rparr>, tls_init (wb_self b) (tls_free (wb_self b) (mem_free (wb_ssl b) m))))"

definition ws_mem_connect :: "connect_exit \<Rightarrow> ws_blocks \<times> mem_state \<Rightarrow> ws_blocks \<times> mem_state" where
  "ws_mem_connect e s =
     (case s of (b, m) \<Rightarrow>
        if e = No_Host then (b, m)
        else if e = Refused then (drop_sock None b, m)
        else let (sock, m) = mem_get m; b = drop_sock (Some sock) b
        in if e = Setup_Fails then ws_mem_fail_net (drop_ssl None b, m)
           else let (ssl, m) = mem_get m; b = drop_ssl (Some ssl) b
           in if e = Handshake_Fails then ws_mem_fail_ssl (b, m)
              else let m = mem_free (wb_wslay b) m; (ctx, m) = mem_malloc m; b = b\<lparr>wb_wslay := ctx\<rparr>
              in if ctx = None then ws_mem_fail_ssl (b, m) else (b, m))"

text \<open>The end of \<^verbatim>\<open>ably_ws_close\<close> on a connection.\<close>

definition ws_mem_close :: "ws_blocks \<times> mem_state \<Rightarrow> ws_blocks \<times> mem_state" where
  "ws_mem_close s = ws_mem_fail_ssl s"

record http_blocks =
  hb_self :: nat
  hb_request_buf :: nat
  hb_response_buf :: nat
  hb_tls :: "authmode \<times> string list"

definition http_mem_create :: "tls_env \<Rightarrow> bool \<Rightarrow> string \<Rightarrow> mem_state \<Rightarrow> http_blocks option \<times> mem_state" where
  "http_mem_create env verify ca m =
     (case mem_malloc m of
        (None, m) \<Rightarrow> (None, m)
      | (Some self, m) \<Rightarrow>
          (case mem_malloc m of
             (None, m) \<Rightarrow> (None, mem_free (Some self) m)
           | (Some q, m) \<Rightarrow>
               (case mem_malloc m of
                  (None, m) \<Rightarrow> (None, mem_free (Some self) (mem_free (Some q) m))
                | (Some r, m) \<Rightarrow>
                    let m = tls_init self m
                    in (case tls_configure env verify ca of
                          None \<Rightarrow> (None, mem_free (Some self) (mem_free (Some r) (mem_free (Some q) (tls_free self m))))
                        | Some cfg \<Rightarrow> (Some \<lparr>hb_self = self, hb_request_buf = q, hb_response_buf = r, hb_tls = cfg\<rparr>,
                            m)))))"

definition http_mem_destroy :: "http_blocks \<Rightarrow> mem_state \<Rightarrow> mem_state" where
  "http_mem_destroy b m =
     mem_free (Some (hb_self b)) (mem_free (Some (hb_response_buf b)) (mem_free (Some (hb_request_buf b))
       (tls_free (hb_self b) m)))"

section \<open>The REST client\<close>

record rest_blocks =
  rb_self :: nat
  rb_http :: http_blocks
  rb_body_buf :: nat

text \<open>The base64 text of the key is a block of its own for a while, when no token is set.\<close>

definition rest_mem_create ::
  "tls_env \<Rightarrow> string option \<Rightarrow> rest_options option \<Rightarrow> mem_state \<Rightarrow> rest_blocks option \<times> mem_state" where
  "rest_mem_create env api_key opts m =
     (if \<not> c_nonempty api_key then (None, m)
      else let o' = (case opts of None \<Rightarrow> rest_options_init | Some o' \<Rightarrow> o')
      in case mem_malloc m of
        (None, m) \<Rightarrow> (None, m)
      | (Some self, m) \<Rightarrow>
          let (b64_ok, m) = (if c_nonempty (so_token o') then (True, m)
                else case mem_malloc m of (None, m) \<Rightarrow> (False, m) | (Some b, m) \<Rightarrow> (True, mem_free (Some b) m))
          in if \<not> b64_ok then (None, mem_free (Some self) m)
             else if length (rest_auth_header (c_str api_key) (so_token o')) \<ge> ABLY_HTTP_AUTH_HEADER_MAX
             then (None, mem_free (Some self) m)
             else case http_mem_create env (so_tls_verify_peer o') (c_str (so_ca_cert_pem_path o')) m of
               (None, m) \<Rightarrow> (None, mem_free (Some self) m)
             | (Some http, m) \<Rightarrow>
                 (case mem_malloc m of
                    (None, m) \<Rightarrow> (None, mem_free (Some self) (http_mem_destroy http m))
                  | (Some body, m) \<Rightarrow> (Some \<lparr>rb_self = self, rb_http = http, rb_body_buf = body\<rparr>, m)))"

definition rest_mem_destroy :: "rest_blocks \<Rightarrow> mem_state \<Rightarrow> mem_state" where
  "rest_mem_destroy b m =
     mem_free (Some (rb_self b)) (mem_free (Some (rb_body_buf b)) (http_mem_destroy (rb_http b) m))"

section \<open>Channels and the realtime client\<close>

record chan_blocks =
  cb_self :: nat
  cb_delta0 :: "nat option"
  cb_delta1 :: "nat option"
  cb_pres :: "nat option"
  cb_delta_enabled :: bool

definition chan_mem_create :: "mem_state \<Rightarrow> chan_blocks option \<times> mem_state" where
  "chan_mem_create m =
     (case mem_malloc m of
        (None, m) \<Rightarrow> (None, m)
      | (Some self, m) \<Rightarrow>
          (Some \<lparr>cb_self = self, cb_delta0 = None, cb_delta1 = None, cb_pres = None, cb_delta_enabled = False\<rparr>, m))"

text \<open>\<^verbatim>\<open>ably_channel_enable_delta\<close> in a state that allows it.\<close>

definition chan_mem_enable_delta :: "chan_blocks \<Rightarrow> mem_state \<Rightarrow> chan_blocks \<times> mem_state" where
  "chan_mem_enable_delta b m =
     (if cb_delta_enabled b then (b, m)
      else let (d0, m) = mem_malloc m; (d1, m) = mem_malloc m
      in if d0 = None \<or> d1 = None then (b\<lparr>cb_delta0 := None, cb_delta1 := None\<rparr>, mem_free d1 (mem_free d0 m))
         else (b\<lparr>cb_delta0 := d0, cb_delta1 := d1, cb_delta_enabled := True\<rparr>, m))"

definition chan_mem_ensure_pres :: "chan_blocks \<Rightarrow> mem_state \<Rightarrow> chan_blocks \<times> mem_state" where
  "chan_mem_ensure_pres b m =
     (if cb_pres b \<noteq> None then (b, m) else let (p, m) = mem_malloc m in (b\<lparr>cb_pres := p\<rparr>, m))"

definition chan_mem_destroy :: "chan_blocks \<Rightarrow> mem_state \<Rightarrow> mem_state" where
  "chan_mem_destroy b m =
     mem_free (Some (cb_self b)) (mem_free (cb_pres b) (mem_free (cb_delta1 b) (mem_free (cb_delta0 b) m)))"

record rt_blocks =
  tb_self :: nat
  tb_send_ring :: nat
  tb_ws :: ws_blocks
  tb_channels :: "chan_blocks list"

definition rt_mem_create :: "tls_env \<Rightarrow> bool \<Rightarrow> string \<Rightarrow> mem_state \<Rightarrow> rt_blocks option \<times> mem_state" where
  "rt_mem_create env verify ca m =
     (case mem_malloc m of
        (None, m) \<Rightarrow> (None, m)
      | (Some self, m) \<Rightarrow>
          (case mem_malloc m of
             (None, m) \<Rightarrow> (None, mem_free (Some self) m)
           | (Some ring, m) \<Rightarrow>
               (case ws_mem_create env verify ca m of
                  (None, m) \<Rightarrow> (None, mem_free (Some self) (mem_free (Some ring) m))
                | (Some ws, m) \<Rightarrow> (Some \<lparr>tb_self = self, tb_send_ring = ring, tb_ws = ws, tb_channels = []\<rparr>, m))))"

text \<open>\<^verbatim>\<open>ably_rt_channel_get\<close> of a name that has no channel yet.\<close>

definition rt_mem_channel_get :: "rt_blocks \<Rightarrow> mem_state \<Rightarrow> rt_blocks \<times> mem_state" where
  "rt_mem_channel_get b m =
     (if length (tb_channels b) \<ge> ABLY_MAX_CHANNELS then (b, m)
      else case chan_mem_create m of
        (None, m) \<Rightarrow> (b, m)
      | (Some ch, m) \<Rightarrow> (b\<lparr>tb_channels := tb_channels b @ [ch]\<rparr>, m))"

text \<open>\<^verbatim>\<open>ably_rest_channel_history\<close>: the tree of the response is parsed and a page allocated, both are released again,
  and then parsed and allocated a second time. What the response is: not usable (the request failed or the status is
  not 2xx), not JSON, not an array, or a page with or without a cursor to the next. A tree can also fail to be
  allocated.\<close>

datatype history_answer = No_Answer | No_Json | No_Array | Page bool

definition mem_parse :: "history_answer \<Rightarrow> mem_state \<Rightarrow> nat option \<times> mem_state" where
  "mem_parse ans m = (if ans = No_Json then (None, m) else mem_malloc m)"

definition rest_mem_page :: "history_answer \<Rightarrow> mem_state \<Rightarrow> (nat \<times> nat) option \<times> mem_state" where
  "rest_mem_page ans m =
     (case mem_parse ans m of
        (None, m) \<Rightarrow> (None, m)
      | (Some js, m) \<Rightarrow>
          if ans = No_Array then (None, mem_free (Some js) m)
          else case mem_malloc m of
            (None, m) \<Rightarrow> (None, mem_free (Some js) m)
          | (Some page, m) \<Rightarrow> (Some (js, page), m))"

definition rest_mem_history :: "history_answer \<Rightarrow> mem_state \<Rightarrow> nat option \<times> mem_state" where
  "rest_mem_history ans m =
     (if ans = No_Answer then (None, m)
      else case rest_mem_page ans m of
        (None, m) \<Rightarrow> (None, m)
      | (Some (js, page), m) \<Rightarrow>
          (case rest_mem_page ans (mem_free (Some page) (mem_free (Some js) m)) of
             (None, m) \<Rightarrow> (None, m)
           | (Some (js, page), m) \<Rightarrow> (Some page, mem_free (Some js) m)))"

text \<open>The loop of \<^verbatim>\<open>rt_recover_gap\<close> over at most \<open>n\<close> pages; the messages of a page are delivered to callbacks, which may
  call the library, before \<^verbatim>\<open>ably_history_page_free\<close>.\<close>

fun rt_mem_gap_pages ::
  "(nat \<Rightarrow> history_answer) \<Rightarrow> (nat \<Rightarrow> rt_blocks \<times> mem_state \<Rightarrow> rt_blocks \<times> mem_state) \<Rightarrow> nat \<Rightarrow> rt_blocks \<times> mem_state \<Rightarrow>
   rt_blocks \<times> mem_state" where
  "rt_mem_gap_pages ans deliver 0 s = s"
| "rt_mem_gap_pages ans deliver (Suc n) s =
     (case s of (b, m) \<Rightarrow>
        case rest_mem_history (ans n) m of
          (None, m) \<Rightarrow> (b, m)
        | (Some page, m) \<Rightarrow>
            (case deliver n (b, m) of (b, m) \<Rightarrow>
               let s = (b, mem_free (Some page) m)
               in if ans n = Page True then rt_mem_gap_pages ans deliver n s else s))"

definition rt_mem_recover_gap ::
  "tls_env \<Rightarrow> string option \<Rightarrow> rest_options \<Rightarrow> (nat \<Rightarrow> history_answer) \<Rightarrow>
   (nat \<Rightarrow> rt_blocks \<times> mem_state \<Rightarrow> rt_blocks \<times> mem_state) \<Rightarrow> rt_blocks \<times> mem_state \<Rightarrow> rt_blocks \<times> mem_state" where
  "rt_mem_recover_gap env api_key opts ans deliver s =
     (case s of (b, m) \<Rightarrow>
        case rest_mem_create env api_key (Some opts) m of
          (None, m) \<Rightarrow> (b, m)
        | (Some rest, m) \<Rightarrow>
            (case rt_mem_gap_pages ans deliver 50 (b, m) of (b, m) \<Rightarrow> (b, rest_mem_destroy rest m)))"

text \<open>\<^verbatim>\<open>ably_channel_history\<close> hands the page to the application.\<close>

definition chan_mem_history ::
  "tls_env \<Rightarrow> string option \<Rightarrow> rest_options \<Rightarrow> history_answer \<Rightarrow> mem_state \<Rightarrow> nat option \<times> mem_state" where
  "chan_mem_history env api_key opts ans m =
     (case rest_mem_create env api_key (Some opts) m of
        (None, m) \<Rightarrow> (None, m)
      | (Some rest, m) \<Rightarrow> (case rest_mem_history ans m of (page, m) \<Rightarrow> (page, rest_mem_destroy rest m)))"

definition rt_mem_destroy :: "rt_blocks \<Rightarrow> mem_state \<Rightarrow> mem_state" where
  "rt_mem_destroy b m =
     mem_free (Some (tb_self b)) (fold chan_mem_destroy (tb_channels b)
       (mem_free (Some (tb_send_ring b)) (ws_mem_destroy (tb_ws b) m)))"

section \<open>What each operation owns\<close>

text \<open>The memory has exactly the blocks \<open>B\<close> and the TLS contexts \<open>T\<close>, and nothing was released wrongly.\<close>

definition mem_is :: "nat multiset \<Rightarrow> nat multiset \<Rightarrow> mem_state \<Rightarrow> bool" where
  "mem_is B T m \<longleftrightarrow> mset (mm_live m) = B \<and> mset (mm_tls m) = T \<and> mm_bad m = 0"

definition plus_block :: "nat option \<Rightarrow> nat multiset \<Rightarrow> nat multiset" where
  "plus_block p B = (case p of None \<Rightarrow> B | Some a \<Rightarrow> add_mset a B)"

lemma plus_block_simps [simp]: "plus_block None B = B" "plus_block (Some a) B = add_mset a B"
  by (simp_all add: plus_block_def)

lemma plus_block_rev: "plus_block p (plus_block q (plus_block r B)) = plus_block r (plus_block q (plus_block p B))"
  by (cases p; cases q; cases r) (simp_all add: add_mset_commute)

named_theorems mem_rules \<open>what an operation makes of the memory\<close>

lemma malloc_is: "mem_is B T m \<Longrightarrow> mem_malloc m = (p, m') \<Longrightarrow> mem_is (plus_block p B) T m'"
  by (auto simp: mem_malloc_def mem_is_def Let_def split: if_splits)

lemma free_is [mem_rules]: "mem_is (plus_block p B) T m \<Longrightarrow> mem_is B T (mem_free p m)"
  by (cases p) (auto simp: mem_free_def mem_is_def dest: arg_cong [of _ _ set_mset])

lemma tls_init_is [mem_rules]: "mem_is B T m \<Longrightarrow> mem_is B (add_mset a T) (tls_init a m)"
  by (simp add: tls_init_def mem_is_def)

lemma tls_free_is [mem_rules]: "mem_is B (add_mset a T) m \<Longrightarrow> mem_is B T (tls_free a m)"
  by (auto simp: tls_free_def mem_is_def dest: arg_cong [of _ _ set_mset])

lemma get_is: "mem_is B T m \<Longrightarrow> mem_get m = (a, m') \<Longrightarrow> mem_is (add_mset a B) T m'"
  by (auto simp: mem_get_def mem_is_def)

text \<open>The blocks of a connection, and all blocks with those that are lost.\<close>

definition conn_owned :: "ws_blocks \<Rightarrow> nat multiset" where
  "conn_owned b = plus_block (wb_sock b) (plus_block (wb_ssl b) (plus_block (wb_wslay b) (mset (wb_lost b))))"

definition ws_owned :: "ws_blocks \<Rightarrow> nat multiset" where
  "ws_owned b = {# wb_self b, wb_recv_buf b, wb_send_buf b, wb_handshake_buf b #} + conn_owned b"

definition http_owned :: "http_blocks \<Rightarrow> nat multiset" where
  "http_owned b = {# hb_self b, hb_request_buf b, hb_response_buf b #}"

definition rest_owned :: "rest_blocks \<Rightarrow> nat multiset" where
  "rest_owned b = {# rb_self b, rb_body_buf b #} + http_owned (rb_http b)"

definition chan_owned :: "chan_blocks \<Rightarrow> nat multiset" where
  "chan_owned b = plus_block (cb_delta0 b) (plus_block (cb_delta1 b) (plus_block (cb_pres b) {# cb_self b #}))"

definition rt_owned :: "rt_blocks \<Rightarrow> nat multiset" where
  "rt_owned b = {# tb_self b, tb_send_ring b #} + ws_owned (tb_ws b) + (\<Sum>ch \<leftarrow> tb_channels b. chan_owned ch)"

lemma ws_create_is:
  assumes m: "mem_is B T m" and c: "ws_mem_create env verify ca m = (r, m')"
  shows "case r of None \<Rightarrow> mem_is B T m' | Some b \<Rightarrow> mem_is (ws_owned b + B) (add_mset (wb_self b) T) m'"
proof (cases "mem_malloc m")
  case (Pair p m0)
  show ?thesis
  proof (cases p)
    case None
    then show ?thesis using malloc_is [OF m Pair] c Pair by (simp add: ws_mem_create_def)
  next
    case (Some self)
    obtain x1 m1 where 1: "mem_malloc m0 = (x1, m1)" by fastforce
    obtain x2 m2 where 2: "mem_malloc m1 = (x2, m2)" by fastforce
    obtain x3 m3 where 3: "mem_malloc m2 = (x3, m3)" by fastforce
    let ?all = "plus_block x3 (plus_block x2 (plus_block x1 (add_mset self B)))"
    have m3: "mem_is ?all T m3"
      using malloc_is [OF malloc_is [OF malloc_is [OF malloc_is [OF m Pair] 1] 2] 3] Some by simp
    let ?fail = "\<lambda>m. mem_free (Some self) (mem_free x3 (mem_free x2 (mem_free x1 m)))"
    have fail: "mem_is ?all T m'' \<Longrightarrow> mem_is B T (?fail m'')" for m''
      by (intro mem_rules) (simp only: plus_block_rev [of x1] plus_block_simps)
    have tls: "mem_is ?all T (tls_free self (tls_init self m3))" by (intro mem_rules m3)
    show ?thesis
    proof (cases "x1 = None \<or> x2 = None \<or> x3 = None")
      case True
      then have "ws_mem_create env verify ca m = (None, ?fail m3)"
        using Pair Some 1 2 3 by (cases x1; cases x2; cases x3) (simp_all add: ws_mem_create_def)
      then show ?thesis using fail [OF m3] c by simp
    next
      case False
      then obtain a b d where x: "x1 = Some a" "x2 = Some b" "x3 = Some d" by auto
      show ?thesis
      proof (cases "tls_configure env verify ca")
        case None
        then have "ws_mem_create env verify ca m = (None, ?fail (tls_free self (tls_init self m3)))"
          using Pair Some 1 2 3 x by (simp add: ws_mem_create_def Let_def)
        then show ?thesis using fail [OF tls] c by simp
      next
        case cfg: (Some cfg)
        have "r = Some \<lparr>wb_self = self, wb_recv_buf = a, wb_send_buf = b, wb_handshake_buf = d, wb_tls = cfg,
            wb_sock = None, wb_ssl = None, wb_wslay = None, wb_lost = []\<rparr>"
          "m' = tls_init self m3"
          using c Pair Some 1 2 3 x cfg by (auto simp: ws_mem_create_def Let_def)
        then show ?thesis using tls_init_is [OF m3, of self] by (simp add: ws_owned_def conn_owned_def x add_mset_commute)
      qed
    qed
  qed
qed

lemma ws_create_lost: "ws_mem_create env verify ca m = (Some b, m') \<Longrightarrow> wb_lost b = []"
  by (auto simp: ws_mem_create_def Let_def split: prod.splits option.splits)

lemma plus_block_add: "plus_block p B + C = plus_block p (B + C)" "plus_block p (add_mset a B) = add_mset a (plus_block p B)"
  by (cases p; simp)+

lemma ws_destroy_is [mem_rules]:
  "mem_is (ws_owned b + B) (add_mset (wb_self b) T) m \<Longrightarrow> mem_is (mset (wb_lost b) + B) T (ws_mem_destroy b m)"
  unfolding ws_mem_destroy_def
  by (intro mem_rules) (cases "wb_sock b"; cases "wb_ssl b"; cases "wb_wslay b"; simp add: ws_owned_def conn_owned_def add_mset_commute)

text \<open>Connecting and closing keep account; what is lost was there before.\<close>

definition ws_same :: "ws_blocks \<Rightarrow> ws_blocks \<Rightarrow> bool" where
  "ws_same b b' \<longleftrightarrow> wb_self b' = wb_self b \<and> wb_recv_buf b' = wb_recv_buf b \<and> wb_send_buf b' = wb_send_buf b \<and>
     wb_handshake_buf b' = wb_handshake_buf b"

lemma fail_ssl_is:
  assumes "mem_is (conn_owned b + B) (add_mset (wb_self b) T) m" "ws_mem_fail_ssl (b, m) = (b', m')"
  shows "mem_is (conn_owned b' + B) (add_mset (wb_self b) T) m' \<and> ws_same b b' \<and> wb_lost b' = wb_lost b"
proof -
  have "b' = b\<lparr>wb_ssl := None, wb_sock := None\<rparr>"
    "m' = mem_free (wb_sock b) (tls_init (wb_self b) (tls_free (wb_self b) (mem_free (wb_ssl b) m)))"
    using assms(2) by (auto simp: ws_mem_fail_ssl_def ws_mem_fail_net_def)
  moreover have "mem_is (plus_block (wb_wslay b) (mset (wb_lost b)) + B) (add_mset (wb_self b) T)
      (mem_free (wb_sock b) (tls_init (wb_self b) (tls_free (wb_self b) (mem_free (wb_ssl b) m))))"
    by (intro mem_rules) (use assms(1) in \<open>cases "wb_sock b"; cases "wb_ssl b"; simp add: conn_owned_def add_mset_commute\<close>)
  ultimately show ?thesis by (simp add: conn_owned_def ws_same_def)
qed

lemma connect_same: "ws_mem_connect e (b, m) = (b', m') \<Longrightarrow> ws_same b b'"
  by (auto simp: ws_mem_connect_def ws_mem_fail_ssl_def ws_mem_fail_net_def drop_sock_def drop_ssl_def ws_same_def Let_def
      split: prod.splits if_splits)

lemma connect_lost:
  "ws_mem_connect e (b, m) = (b', m') \<Longrightarrow> wb_sock b = None \<Longrightarrow> wb_ssl b = None \<Longrightarrow> wb_lost b' = wb_lost b"
  by (auto simp: ws_mem_connect_def ws_mem_fail_ssl_def ws_mem_fail_net_def drop_sock_def drop_ssl_def Let_def
      split: prod.splits if_splits)

lemma connect_is:
  assumes m: "mem_is (conn_owned b + B) (add_mset (wb_self b) T) m" and c: "ws_mem_connect e (b, m) = (b', m')"
  shows "mem_is (conn_owned b' + B) (add_mset (wb_self b) T) m' \<and> ws_same b b' \<and>
    (wb_sock b = None \<longrightarrow> wb_ssl b = None \<longrightarrow> wb_lost b' = wb_lost b)"
proof -
  obtain s m1 where 1: "mem_get m = (s, m1)" by fastforce
  obtain x m2 where 2: "mem_get m1 = (x, m2)" by fastforce
  define b1 where "b1 = drop_sock (Some s) b"
  define b2 where "b2 = drop_ssl (Some x) b1"
  have is1: "mem_is (conn_owned b1 + B) (add_mset (wb_self b) T) m1"
    using get_is [OF m 1] by (cases "wb_sock b"; cases "wb_ssl b"; cases "wb_wslay b") (simp_all add: b1_def drop_sock_def conn_owned_def add_mset_commute)
  have is2: "mem_is (conn_owned b2 + B) (add_mset (wb_self b2) T) m2"
    using get_is [OF is1 2] by (cases "wb_sock b"; cases "wb_ssl b"; cases "wb_wslay b") (simp_all add: b2_def b1_def drop_sock_def drop_ssl_def conn_owned_def add_mset_commute)
  have b2: "wb_self b2 = wb_self b" "ws_same b b2" "wb_sock b = None \<longrightarrow> wb_ssl b = None \<longrightarrow> wb_lost b2 = wb_lost b"
    by (simp_all add: b2_def b1_def drop_sock_def drop_ssl_def ws_same_def)
  obtain ctx m3 where 3: "mem_malloc (mem_free (wb_wslay b2) m2) = (ctx, m3)" by fastforce
  let ?b3 = "b2\<lparr>wb_wslay := ctx\<rparr>"
  have "mem_is (plus_block (wb_sock b2) (plus_block (wb_ssl b2) (mset (wb_lost b2))) + B) (add_mset (wb_self b2) T)
      (mem_free (wb_wslay b2) m2)"
    by (intro mem_rules) (use is2 in \<open>cases "wb_sock b2"; cases "wb_ssl b2"; cases "wb_wslay b2"; simp add: conn_owned_def add_mset_commute\<close>)
  from malloc_is [OF this 3] have is3: "mem_is (conn_owned ?b3 + B) (add_mset (wb_self ?b3) T) m3"
    by (cases ctx; cases "wb_sock b2"; cases "wb_ssl b2") (simp_all add: conn_owned_def add_mset_commute)
  show ?thesis
  proof (cases e)
    case No_Host
    then show ?thesis using c m by (auto simp: ws_mem_connect_def ws_same_def)
  next
    case Refused
    then have b': "b' = drop_sock None b" "m' = m" using c by (simp_all add: ws_mem_connect_def)
    have "conn_owned (drop_sock None b) = conn_owned b"
      by (cases "wb_sock b"; cases "wb_ssl b"; cases "wb_wslay b") (simp_all add: drop_sock_def conn_owned_def add_mset_commute)
    then show ?thesis using m unfolding b' by (simp add: drop_sock_def ws_same_def)
  next
    case Setup_Fails
    then have "b' = (drop_ssl None b1)\<lparr>wb_sock := None\<rparr>" "m' = mem_free (Some s) m1"
      using c 1 by (auto simp: ws_mem_connect_def ws_mem_fail_net_def b1_def drop_sock_def drop_ssl_def)
    moreover have "mem_is (conn_owned ((drop_ssl None b1)\<lparr>wb_sock := None\<rparr>) + B) (add_mset (wb_self b) T) (mem_free (Some s) m1)"
      by (intro mem_rules) (use is1 in \<open>cases "wb_sock b"; cases "wb_ssl b"; cases "wb_wslay b";
        simp add: b1_def drop_sock_def drop_ssl_def conn_owned_def add_mset_commute\<close>)
    ultimately show ?thesis by (simp add: b1_def drop_sock_def drop_ssl_def ws_same_def)
  next
    case Handshake_Fails
    then have "ws_mem_fail_ssl (b2, m2) = (b', m')" using c 1 2 by (simp add: ws_mem_connect_def b1_def b2_def)
    from fail_ssl_is [OF is2 this] b2 show ?thesis by (simp add: ws_same_def)
  next
    case Upgraded
    then have "(b', m') = (if ctx = None then ws_mem_fail_ssl (?b3, m3) else (?b3, m3))"
      using c 1 2 3 by (cases ctx) (simp_all add: ws_mem_connect_def b1_def b2_def Let_def)
    then show ?thesis using fail_ssl_is [OF is3, of b' m'] is3 b2 by (auto simp: ws_same_def split: if_splits)
  qed
qed

lemma http_create_is:
  assumes m: "mem_is B T m" and c: "http_mem_create env verify ca m = (r, m')"
  shows "case r of None \<Rightarrow> mem_is B T m' | Some b \<Rightarrow> mem_is (http_owned b + B) (add_mset (hb_self b) T) m'"
proof -
  obtain p m0 where 0: "mem_malloc m = (p, m0)" by fastforce
  obtain q m1 where 1: "mem_malloc m0 = (q, m1)" by fastforce
  obtain s m2 where 2: "mem_malloc m1 = (s, m2)" by fastforce
  note is0 = malloc_is [OF m 0] and is1 = malloc_is [OF malloc_is [OF m 0] 1]
  note is2 = malloc_is [OF is1 2]
  show ?thesis
  proof (cases "p = None \<or> q = None \<or> s = None")
    case True
    then show ?thesis
      using c 0 1 2 is0 is1 is2
      by (auto simp: http_mem_create_def add_mset_commute split: option.splits intro!: mem_rules)
  next
    case False
    then obtain a b d where x: "p = Some a" "q = Some b" "s = Some d" by auto
    have is2: "mem_is (add_mset d (add_mset b (add_mset a B))) T m2" using is2 x by simp
    show ?thesis
    proof (cases "tls_configure env verify ca")
      case None
      then have "r = None" "m' = mem_free (Some a) (mem_free (Some d) (mem_free (Some b) (tls_free a (tls_init a m2))))"
        using c 0 1 2 x by (auto simp: http_mem_create_def Let_def)
      moreover have "mem_is B T (mem_free (Some a) (mem_free (Some d) (mem_free (Some b) (tls_free a (tls_init a m2)))))"
        using is2 by (intro mem_rules) (simp add: add_mset_commute)
      ultimately show ?thesis by simp
    next
      case (Some cfg)
      then have "r = Some \<lparr>hb_self = a, hb_request_buf = b, hb_response_buf = d, hb_tls = cfg\<rparr>" "m' = tls_init a m2"
        using c 0 1 2 x by (auto simp: http_mem_create_def Let_def)
      then show ?thesis using tls_init_is [OF is2, of a] by (simp add: http_owned_def add_mset_commute)
    qed
  qed
qed

lemma http_destroy_is [mem_rules]:
  "mem_is (http_owned b + B) (add_mset (hb_self b) T) m \<Longrightarrow> mem_is B T (http_mem_destroy b m)"
  unfolding http_mem_destroy_def by (intro mem_rules) (simp add: http_owned_def add_mset_commute)

lemma rest_create_is:
  assumes m: "mem_is B T m" and c: "rest_mem_create env api_key opts m = (r, m')"
  shows "case r of None \<Rightarrow> mem_is B T m' | Some b \<Rightarrow> mem_is (rest_owned b + B) (add_mset (hb_self (rb_http b)) T) m'"
proof -
  define o' where "o' = (case opts of None \<Rightarrow> rest_options_init | Some o' \<Rightarrow> o')"
  obtain p m0 where 0: "mem_malloc m = (p, m0)" by fastforce
  show ?thesis
  proof (cases "c_nonempty api_key \<and> p \<noteq> None")
    case False
    then show ?thesis using c m malloc_is [OF m 0] 0 by (auto simp: rest_mem_create_def split: if_splits)
  next
    case True
    then obtain self where key: "c_nonempty api_key" and p: "p = Some self" by auto
    have is0: "mem_is (add_mset self B) T m0" using malloc_is [OF m 0] p by simp
    define tmp where "tmp = (if c_nonempty (so_token o') then (True, m0)
      else case mem_malloc m0 of (None, m) \<Rightarrow> (False, m) | (Some b, m) \<Rightarrow> (True, mem_free (Some b) m))"
    obtain ok m1 where t: "tmp = (ok, m1)" by fastforce
    have is1: "mem_is (add_mset self B) T m1"
      using t is0 malloc_is [OF is0] unfolding tmp_def
      by (auto split: if_splits prod.splits option.splits intro!: mem_rules)
    obtain h m2 where 2: "http_mem_create env (so_tls_verify_peer o') (c_str (so_ca_cert_pem_path o')) m1 = (h, m2)"
      by fastforce
    obtain body m3 where 3: "mem_malloc m2 = (body, m3)" by fastforce
    let ?big = "length (rest_auth_header (c_str api_key) (so_token o')) \<ge> ABLY_HTTP_AUTH_HEADER_MAX"
    have eq: "rest_mem_create env api_key opts m =
        (if \<not> ok \<or> ?big then (None, mem_free (Some self) m1)
         else case h of None \<Rightarrow> (None, mem_free (Some self) m2)
         | Some http \<Rightarrow> (case body of None \<Rightarrow> (None, mem_free (Some self) (http_mem_destroy http m3))
             | Some b \<Rightarrow> (Some \<lparr>rb_self = self, rb_http = http, rb_body_buf = b\<rparr>, m3)))"
      using key 0 p t 2 3
      by (simp add: rest_mem_create_def o'_def [symmetric] tmp_def [symmetric] Let_def split: option.split)
    note http = http_create_is [OF is1 2]
    show ?thesis
    proof (cases "\<not> ok \<or> ?big")
      case True
      then show ?thesis using eq c is1 by (auto intro: mem_rules)
    next
      case ok: False
      show ?thesis
      proof (cases h)
        case None
        then show ?thesis using eq c ok http by (auto intro: mem_rules)
      next
        case (Some hb)
        then have is2: "mem_is (http_owned hb + add_mset self B) (add_mset (hb_self hb) T) m2" using http by simp
        show ?thesis
        proof (cases body)
          case None
          then have "mem_is (http_owned hb + add_mset self B) (add_mset (hb_self hb) T) m3"
            using malloc_is [OF is2 3] by simp
          then have "mem_is B T (mem_free (Some self) (http_mem_destroy hb m3))" by (intro mem_rules) simp
          then show ?thesis using eq c ok Some None by auto
        next
          case b: (Some b)
          then show ?thesis using malloc_is [OF is2 3] eq c ok Some by (auto simp: rest_owned_def add_mset_commute)
        qed
      qed
    qed
  qed
qed

lemma rest_destroy_is [mem_rules]:
  assumes "mem_is (rest_owned b + B) (add_mset (hb_self (rb_http b)) T) m"
  shows "mem_is B T (rest_mem_destroy b m)"
  unfolding rest_mem_destroy_def by (intro mem_rules) (use assms in \<open>simp add: rest_owned_def add_mset_commute\<close>)

lemma page_is:
  assumes m: "mem_is B T m" and c: "rest_mem_page ans m = (r, m')"
  shows "case r of None \<Rightarrow> mem_is B T m' | Some (js, page) \<Rightarrow> mem_is (add_mset page (add_mset js B)) T m'"
proof -
  obtain p m0 where 0: "mem_malloc m = (p, m0)" by fastforce
  obtain q m1 where 1: "mem_malloc m0 = (q, m1)" by fastforce
  note is0 = malloc_is [OF m 0] and is1 = malloc_is [OF malloc_is [OF m 0] 1]
  show ?thesis
  proof (cases "ans = No_Json \<or> p = None")
    case True
    then show ?thesis using c 0 is0 m by (auto simp: rest_mem_page_def mem_parse_def split: if_splits)
  next
    case False
    then obtain js where js: "p = Some js" "ans \<noteq> No_Json" by auto
    have free: "mem_is B T (mem_free (Some js) m')" if "mem_is (add_mset js B) T m'" for m' using that by (intro free_is) simp
    show ?thesis
    proof (cases "ans = No_Array")
      case True
      then have "r = None" "m' = mem_free (Some js) m0" using c 0 js by (auto simp: rest_mem_page_def mem_parse_def)
      then show ?thesis using free is0 js by simp
    next
      case False
      then show ?thesis using c 0 1 js is1 free
        by (cases q) (auto simp: rest_mem_page_def mem_parse_def add_mset_commute)
    qed
  qed
qed

lemma history_is:
  assumes m: "mem_is B T m" and c: "rest_mem_history ans m = (r, m')"
  shows "mem_is (plus_block r B) T m'"
proof -
  obtain p m1 where 1: "rest_mem_page ans m = (p, m1)" by fastforce
  note p1 = page_is [OF m 1]
  show ?thesis
  proof (cases "ans = No_Answer \<or> p = None")
    case True
    then show ?thesis using c 1 p1 m by (auto simp: rest_mem_history_def split: if_splits)
  next
    case False
    then obtain js page where p: "p = Some (js, page)" by auto
    have is2: "mem_is B T (mem_free (Some page) (mem_free (Some js) m1))"
      by (intro mem_rules) (use p1 p in \<open>simp add: add_mset_commute\<close>)
    obtain q m2 where 2: "rest_mem_page ans (mem_free (Some page) (mem_free (Some js) m1)) = (q, m2)" by fastforce
    note p2 = page_is [OF is2 2]
    show ?thesis
    proof (cases q)
      case None
      then show ?thesis using c 1 2 p p2 False by (auto simp: rest_mem_history_def)
    next
      case (Some rp)
      obtain js2 page2 where rp: "rp = (js2, page2)" by (cases rp)
      have "r = Some page2" "m' = mem_free (Some js2) m2" using c 1 2 p Some rp False by (auto simp: rest_mem_history_def)
      moreover have "mem_is (add_mset page2 B) T (mem_free (Some js2) m2)"
        by (intro mem_rules) (use p2 Some rp in \<open>simp add: add_mset_commute\<close>)
      ultimately show ?thesis by simp
    qed
  qed
qed

lemma channel_history_is:
  assumes m: "mem_is B T m"
  shows "mem_is B T (case chan_mem_history env api_key opts ans m of (page, m') \<Rightarrow> mem_free page m')"
proof -
  obtain r m1 where 1: "rest_mem_create env api_key (Some opts) m = (r, m1)" by fastforce
  note c = rest_create_is [OF m 1]
  show ?thesis
  proof (cases r)
    case None
    then show ?thesis using c 1 by (simp add: chan_mem_history_def mem_free_def)
  next
    case (Some rest)
    obtain page m2 where 2: "rest_mem_history ans m1 = (page, m2)" by fastforce
    have "mem_is (plus_block page (rest_owned rest + B)) (add_mset (hb_self (rb_http rest)) T) m2"
      using history_is [OF _ 2] c Some by simp
    then have "mem_is (plus_block page B) T (rest_mem_destroy rest m2)"
      by (intro rest_destroy_is) (cases page; simp)
    then show ?thesis using 1 2 Some by (auto simp: chan_mem_history_def intro: free_is)
  qed
qed

definition chan_blocks_ok :: "chan_blocks \<Rightarrow> bool" where
  "chan_blocks_ok b \<longleftrightarrow> cb_delta_enabled b \<or> cb_delta0 b = None \<and> cb_delta1 b = None"

lemma enable_delta_is:
  assumes "mem_is (chan_owned b + B) T m" "chan_blocks_ok b" "chan_mem_enable_delta b m = (b', m')"
  shows "mem_is (chan_owned b' + B) T m' \<and> chan_blocks_ok b'"
proof (cases "cb_delta_enabled b")
  case True
  then show ?thesis using assms by (auto simp: chan_mem_enable_delta_def)
next
  case False
  then have b: "cb_delta0 b = None" "cb_delta1 b = None" using assms(2) by (simp_all add: chan_blocks_ok_def)
  obtain d0 m0 where 0: "mem_malloc m = (d0, m0)" by fastforce
  obtain d1 m1 where 1: "mem_malloc m0 = (d1, m1)" by fastforce
  have is1: "mem_is (plus_block d1 (plus_block d0 (chan_owned b + B))) T m1"
    by (rule malloc_is [OF malloc_is [OF assms(1) 0] 1])
  have "mem_is (chan_owned b + B) T (mem_free d1 (mem_free d0 m1))"
  proof (intro mem_rules)
    show "mem_is (plus_block d0 (plus_block d1 (chan_owned b + B))) T m1"
      using is1 by (cases d0; cases d1) (simp_all add: add_mset_commute)
  qed
  moreover have "b\<lparr>cb_delta0 := None, cb_delta1 := None\<rparr> = b" using b by (cases b) simp
  ultimately show ?thesis using assms(2,3) is1 b 0 1 False
    by (cases d0; cases d1)
      (auto simp: chan_mem_enable_delta_def chan_owned_def chan_blocks_ok_def add_mset_commute)
qed

lemma ensure_pres_is:
  assumes "mem_is (chan_owned b + B) T m" "chan_blocks_ok b" "chan_mem_ensure_pres b m = (b', m')"
  shows "mem_is (chan_owned b' + B) T m' \<and> chan_blocks_ok b'"
proof -
  obtain p m0 where 0: "mem_malloc m = (p, m0)" by fastforce
  show ?thesis using assms malloc_is [OF assms(1) 0] 0
    by (cases p; cases "cb_delta0 b"; cases "cb_delta1 b")
      (auto simp: chan_mem_ensure_pres_def chan_owned_def chan_blocks_ok_def add_mset_commute split: if_splits)
qed

lemma chan_destroy_is:
  assumes "mem_is (chan_owned b + B) T m"
  shows "mem_is B T (chan_mem_destroy b m)"
  unfolding chan_mem_destroy_def
proof (intro mem_rules)
  show "mem_is (plus_block (cb_delta0 b) (plus_block (cb_delta1 b) (plus_block (cb_pres b) (plus_block (Some (cb_self b)) B)))) T m"
    using assms by (cases "cb_delta0 b"; cases "cb_delta1 b"; cases "cb_pres b") (simp_all add: chan_owned_def)
qed

lemma channels_destroy_is:
  "mem_is ((\<Sum>ch \<leftarrow> chs. chan_owned ch) + B) T m \<Longrightarrow> mem_is B T (fold chan_mem_destroy chs m)"
  by (induction chs arbitrary: m) (auto intro: chan_destroy_is simp: add.assoc)

lemma rt_destroy_is:
  assumes "mem_is (rt_owned b + B) (add_mset (wb_self (tb_ws b)) T) m"
  shows "mem_is (mset (wb_lost (tb_ws b)) + B) T (rt_mem_destroy b m)"
  unfolding rt_mem_destroy_def
proof (intro free_is channels_destroy_is)
  let ?rest = "add_mset (tb_send_ring b) ((\<Sum>ch \<leftarrow> tb_channels b. chan_owned ch) + add_mset (tb_self b) B)"
  have "mem_is (ws_owned (tb_ws b) + ?rest) (add_mset (wb_self (tb_ws b)) T) m"
    using assms by (simp add: rt_owned_def ac_simps add_mset_commute)
  from ws_destroy_is [OF this]
  show "mem_is (plus_block (Some (tb_send_ring b)) ((\<Sum>ch \<leftarrow> tb_channels b. chan_owned ch) +
      plus_block (Some (tb_self b)) (mset (wb_lost (tb_ws b)) + B))) T (ws_mem_destroy (tb_ws b) m)"
    by (simp add: ac_simps add_mset_commute)
qed

section \<open>The life of a client\<close>

text \<open>What allocates or releases between creation and destruction of a realtime client, each with any
  allocations failing: a new channel, deltas and presence of a channel; gap recovery, whose callbacks may themselves
  do any of this, and a history request, whose page the application releases; connecting, again after a
  connection was lost or closed, and closing. A connection is made \<open>clean\<close> when socket and TLS session of the one
  before were released, as after closing or a failed attempt, not as after a lost connection.\<close>

inductive mem_step :: "bool \<Rightarrow> rt_blocks \<times> mem_state \<Rightarrow> rt_blocks \<times> mem_state \<Rightarrow> bool" for clean where
  mem_channel_get: "mem_step clean (b, m) (rt_mem_channel_get b m)"
| mem_enable_delta: "i < length (tb_channels b) \<Longrightarrow> chan_mem_enable_delta (tb_channels b ! i) m = (ch, m') \<Longrightarrow>
    mem_step clean (b, m) (b\<lparr>tb_channels := (tb_channels b)[i := ch]\<rparr>, m')"
| mem_presence: "i < length (tb_channels b) \<Longrightarrow> chan_mem_ensure_pres (tb_channels b ! i) m = (ch, m') \<Longrightarrow>
    mem_step clean (b, m) (b\<lparr>tb_channels := (tb_channels b)[i := ch]\<rparr>, m')"
| mem_recover_gap: "(\<And>n s. (mem_step clean)\<^sup>*\<^sup>* s (deliver n s)) \<Longrightarrow>
    mem_step clean s (rt_mem_recover_gap env api_key opts ans deliver s)"
| mem_history: "mem_step clean (b, m) (b, case chan_mem_history env api_key opts ans m of (page, m') \<Rightarrow> mem_free page m')"
| mem_connect: "(clean \<Longrightarrow> wb_sock (tb_ws b) = None \<and> wb_ssl (tb_ws b) = None) \<Longrightarrow> ws_mem_connect e (tb_ws b, m) = (ws, m') \<Longrightarrow>
    mem_step clean (b, m) (b\<lparr>tb_ws := ws\<rparr>, m')"
| mem_close: "ws_mem_close (tb_ws b, m) = (ws, m') \<Longrightarrow> mem_step clean (b, m) (b\<lparr>tb_ws := ws\<rparr>, m')"
| mem_time: "mem_step clean (b, m) (b, m\<lparr>mm_results := rs\<rparr>)"

definition client_memory :: "bool \<Rightarrow> nat multiset \<Rightarrow> nat multiset \<Rightarrow> rt_blocks \<times> mem_state \<Rightarrow> bool" where
  "client_memory clean B T s \<longleftrightarrow> mem_is (rt_owned (fst s) + B) (add_mset (wb_self (tb_ws (fst s))) T) (snd s) \<and>
     (\<forall>ch \<in> set (tb_channels (fst s)). chan_blocks_ok ch) \<and> (clean \<longrightarrow> wb_lost (tb_ws (fst s)) = [])"

lemma owned_split:
  assumes "i < length chs"
  obtains R where "\<And>ch. (\<Sum>c \<leftarrow> chs[i := ch]. chan_owned c) = chan_owned ch + R"
    "(\<Sum>c \<leftarrow> chs. chan_owned c) = chan_owned (chs ! i) + R"
proof
  let ?R = "(\<Sum>c \<leftarrow> take i chs. chan_owned c) + (\<Sum>c \<leftarrow> drop (Suc i) chs. chan_owned c)"
  show 1: "(\<Sum>c \<leftarrow> chs[i := ch]. chan_owned c) = chan_owned ch + ?R" for ch
    by (simp add: upd_conv_take_nth_drop [OF assms] ac_simps)
  show "(\<Sum>c \<leftarrow> chs. chan_owned c) = chan_owned (chs ! i) + ?R" using 1 [of "chs ! i"] by simp
qed

lemma client_memory_update:
  assumes inv: "client_memory clean B T (b, m)" and i: "i < length (tb_channels b)"
    and step: "\<And>B T. mem_is (chan_owned (tb_channels b ! i) + B) T m \<Longrightarrow> chan_blocks_ok (tb_channels b ! i) \<Longrightarrow>
      mem_is (chan_owned ch + B) T m' \<and> chan_blocks_ok ch"
  shows "client_memory clean B T (b\<lparr>tb_channels := (tb_channels b)[i := ch]\<rparr>, m')"
proof -
  obtain R where R: "\<And>ch. (\<Sum>c \<leftarrow> (tb_channels b)[i := ch]. chan_owned c) = chan_owned ch + R"
    "(\<Sum>c \<leftarrow> tb_channels b. chan_owned c) = chan_owned (tb_channels b ! i) + R"
    using owned_split [OF i] by metis
  have ok: "\<forall>c \<in> set (tb_channels b). chan_blocks_ok c" "clean \<longrightarrow> wb_lost (tb_ws b) = []"
    using inv by (simp_all add: client_memory_def)
  have "mem_is (chan_owned (tb_channels b ! i) + (R + {# tb_self b, tb_send_ring b #} + ws_owned (tb_ws b) + B))
      (add_mset (wb_self (tb_ws b)) T) m"
    using inv R(2) by (simp add: client_memory_def rt_owned_def ac_simps)
  from step [OF this] ok i have "mem_is (chan_owned ch + (R + {# tb_self b, tb_send_ring b #} + ws_owned (tb_ws b) + B))
      (add_mset (wb_self (tb_ws b)) T) m'" "chan_blocks_ok ch" by simp_all
  then show ?thesis using ok R(1) [of ch] set_update_subset_insert [of "tb_channels b" i ch]
    by (auto simp: client_memory_def rt_owned_def ac_simps)
qed

lemma client_memory_ws:
  assumes inv: "client_memory clean B T (b, m)" and same: "ws_same (tb_ws b) ws"
    and step: "\<And>B T. mem_is (conn_owned (tb_ws b) + B) (add_mset (wb_self (tb_ws b)) T) m \<Longrightarrow>
      mem_is (conn_owned ws + B) (add_mset (wb_self (tb_ws b)) T) m'"
    and lost: "clean \<Longrightarrow> wb_lost ws = wb_lost (tb_ws b)"
  shows "client_memory clean B T (b\<lparr>tb_ws := ws\<rparr>, m')"
proof -
  let ?R = "{# tb_self b, tb_send_ring b #} + {# wb_self (tb_ws b), wb_recv_buf (tb_ws b), wb_send_buf (tb_ws b), wb_handshake_buf (tb_ws b) #} +
    (\<Sum>ch \<leftarrow> tb_channels b. chan_owned ch) + B"
  have "mem_is (conn_owned (tb_ws b) + ?R) (add_mset (wb_self (tb_ws b)) T) m"
    using inv by (simp add: client_memory_def rt_owned_def ws_owned_def ac_simps add_mset_commute)
  from step [OF this] same lost inv show ?thesis
    by (simp add: client_memory_def rt_owned_def ws_owned_def ws_same_def ac_simps add_mset_commute)
qed

text \<open>Blocks of others that are live meanwhile make no difference.\<close>

lemma client_memory_plus:
  assumes "client_memory clean B T (b, m)" "\<And>B T. mem_is B T m \<Longrightarrow> mem_is (C + B) (D + T) m'"
  shows "client_memory clean (C + B) (D + T) (b, m')"
  using assms(1) assms(2) [of "rt_owned b + B" "add_mset (wb_self (tb_ws b)) T"]
  by (auto simp: client_memory_def ac_simps)

lemma client_memory_minus:
  assumes "client_memory clean (C + B) (D + T) (b, m)" "\<And>B T. mem_is (C + B) (D + T) m \<Longrightarrow> mem_is B T m'"
  shows "client_memory clean B T (b, m')"
  using assms(1) assms(2) [of "rt_owned b + B" "add_mset (wb_self (tb_ws b)) T"]
  by (auto simp: client_memory_def ac_simps)

lemma gap_pages_inv:
  assumes "\<And>n B T s. client_memory clean B T s \<Longrightarrow> client_memory clean B T (deliver n s)" "client_memory clean B T s"
  shows "client_memory clean B T (rt_mem_gap_pages ans deliver n s)"
  using assms(2)
proof (induction n arbitrary: s)
  case (Suc n)
  obtain b m where s: "s = (b, m)" by (cases s)
  obtain p m1 where 1: "rest_mem_history (ans n) m = (p, m1)" by fastforce
  show ?case
  proof (cases p)
    case None
    have "client_memory clean ({#} + B) ({#} + T) (b, m1)"
      by (rule client_memory_plus [of _ _ _ _ m]) (use Suc.prems s history_is [OF _ 1] None in auto)
    then show ?thesis using s 1 None by simp
  next
    case (Some page)
    obtain b2 m2 where 2: "deliver n (b, m1) = (b2, m2)" by fastforce
    have "client_memory clean ({# page #} + B) ({#} + T) (b, m1)"
      by (rule client_memory_plus [of _ _ _ _ m]) (use Suc.prems s history_is [OF _ 1] Some in auto)
    from assms(1) [OF this, of n] have "client_memory clean ({# page #} + B) ({#} + T) (b2, m2)" by (simp add: 2)
    then have "client_memory clean B T (b2, mem_free (Some page) m2)"
      by (rule client_memory_minus) (auto intro: free_is)
    then show ?thesis using s 1 2 Some Suc.IH by (simp add: Let_def)
  qed
qed simp

lemma recover_gap_inv:
  assumes "\<And>n B T s. client_memory clean B T s \<Longrightarrow> client_memory clean B T (deliver n s)" "client_memory clean B T s"
  shows "client_memory clean B T (rt_mem_recover_gap env api_key opts ans deliver s)"
proof -
  obtain b m where s: "s = (b, m)" by (cases s)
  obtain r m1 where 1: "rest_mem_create env api_key (Some opts) m = (r, m1)" by fastforce
  show ?thesis
  proof (cases r)
    case None
    have "client_memory clean ({#} + B) ({#} + T) (b, m1)"
      by (rule client_memory_plus [of _ _ _ _ m]) (use assms(2) s rest_create_is [OF _ 1] None in auto)
    then show ?thesis using s 1 None by (simp add: rt_mem_recover_gap_def)
  next
    case (Some rest)
    have "client_memory clean (rest_owned rest + B) ({# hb_self (rb_http rest) #} + T) (b, m1)"
      by (rule client_memory_plus [of _ _ _ _ m]) (use assms(2) s rest_create_is [OF _ 1] Some in auto)
    from gap_pages_inv [where deliver = deliver and ans = ans and n = 50, OF assms(1) this]
    obtain b2 m2 where 2: "rt_mem_gap_pages ans deliver 50 (b, m1) = (b2, m2)"
      "client_memory clean (rest_owned rest + B) ({# hb_self (rb_http rest) #} + T) (b2, m2)"
      by (cases "rt_mem_gap_pages ans deliver 50 (b, m1)") auto
    from 2(2) have "client_memory clean B T (b2, rest_mem_destroy rest m2)"
      by (rule client_memory_minus) (auto intro: rest_destroy_is)
    then show ?thesis using s 1 2(1) Some by (simp add: rt_mem_recover_gap_def)
  qed
qed

lemma mem_step_inv: "mem_step clean s s' \<Longrightarrow> client_memory clean B T s \<Longrightarrow> client_memory clean B T s'"
proof (induction arbitrary: B T rule: mem_step.induct)
  case (mem_channel_get b m)
  obtain p m0 where 0: "mem_malloc m = (p, m0)" by fastforce
  have "mem_is (plus_block p (rt_owned b + B)) (add_mset (wb_self (tb_ws b)) T) m0"
    using malloc_is [OF _ 0] mem_channel_get by (simp add: client_memory_def)
  then show ?case using mem_channel_get 0
    by (cases p) (auto simp: client_memory_def rt_mem_channel_get_def chan_mem_create_def rt_owned_def chan_owned_def
        chan_blocks_ok_def add_mset_commute ac_simps)
next
  case (mem_enable_delta i b m ch m')
  show ?case
    by (rule client_memory_update [OF mem_enable_delta(3,1) enable_delta_is [OF _ _ mem_enable_delta(2)]])
next
  case (mem_presence i b m ch m')
  show ?case
    by (rule client_memory_update [OF mem_presence(3,1) ensure_pres_is [OF _ _ mem_presence(2)]])
next
  case (mem_recover_gap deliver s env api_key opts ans)
  have "client_memory clean B T v" if "(\<lambda>s s'. mem_step clean s s' \<and> (\<forall>B T. client_memory clean B T s \<longrightarrow> client_memory clean B T s'))\<^sup>*\<^sup>* u v"
    "client_memory clean B T u" for B T u v
    using that by (induction rule: rtranclp_induct) auto
  then show ?case using mem_recover_gap by (intro recover_gap_inv) blast+
next
  case (mem_history b m env api_key opts ans)
  then show ?case using channel_history_is by (simp add: client_memory_def)
next
  case (mem_connect b e m ws m')
  show ?case
  proof (rule client_memory_ws [OF mem_connect(3) connect_same [OF mem_connect(2)]])
    show "mem_is (conn_owned ws + B') (add_mset (wb_self (tb_ws b)) T') m'"
      if "mem_is (conn_owned (tb_ws b) + B') (add_mset (wb_self (tb_ws b)) T') m" for B' T'
      using connect_is [OF that mem_connect(2)] by simp
    show "clean \<Longrightarrow> wb_lost ws = wb_lost (tb_ws b)" using connect_lost [OF mem_connect(2)] mem_connect(1) by simp
  qed
next
  case (mem_close b m ws m')
  show ?case
  proof (rule client_memory_ws [OF mem_close(2)])
    show "mem_is (conn_owned ws + B') (add_mset (wb_self (tb_ws b)) T') m'"
      if "mem_is (conn_owned (tb_ws b) + B') (add_mset (wb_self (tb_ws b)) T') m" for B' T'
      using fail_ssl_is [OF that mem_close(1) [unfolded ws_mem_close_def]] by simp
  qed (use mem_close(1) in \<open>auto simp: ws_mem_close_def ws_mem_fail_ssl_def ws_mem_fail_net_def ws_same_def\<close>)
next
  case (mem_time b m rs)
  then show ?case by (simp add: client_memory_def mem_is_def)
qed


definition demo_tls :: tls_env where
  "demo_tls = \<lparr>te_seed = 0, te_defaults = 0, te_parse_file = (\<lambda>path. if path = ''/etc/ssl/cert.pem'' then -1 else 0),
     te_ca_bundle_path = None\<rparr>"

definition demo_mem :: mem_state where
  "demo_mem = \<lparr>mm_live = [], mm_next = 1, mm_tls = [], mm_results = [True, True, True, True, False], mm_bad = 0\<rparr>"


section \<open>Whom a connection trusts\<close>

lemma load_ca_paths_first:
  "load_ca_paths env paths chain =
     (case find (\<lambda>p. 0 \<le> te_parse_file env p) paths of None \<Rightarrow> (False, chain) | Some p \<Rightarrow> (True, chain @ [p]))"
  by (induction paths arbitrary: chain) (auto simp: crt_parse_file_def Let_def)



end
