(* ===== verification/Ably_Cpp.thy ===== *)
theory Ably_Cpp
  imports Ably_Rest_Query Ably_Realtime "HOL-Library.AList"
begin

text \<open>
  \<^verbatim>\<open>include/ably/ably.hpp\<close>, the C++ binding: exceptions, the value types with their conversions, the owners
  of pages, \<^verbatim>\<open>RestClient\<close> and \<^verbatim>\<open>RealtimeClient\<close>. The class \<^verbatim>\<open>Channel\<close> is in theory \<open>Ably_Cpp_Channel\<close>.

  A method that can throw yields \<open>Inl\<close> the exception or \<open>Inr\<close> the value. A \<^verbatim>\<open>std::string_view\<close> argument is
  passed on as the C string it contains.
\<close>

section \<open>Errors\<close>

record cpp_exception =
  ex_code :: int
  ex_what :: string

type_synonym 'a cpp = "cpp_exception + 'a"

definition all_errors :: "ably_error list" where
  "all_errors = [ABLY_OK, ABLY_ERR_NOMEM, ABLY_ERR_INVALID_ARG, ABLY_ERR_AUTH, ABLY_ERR_NETWORK, ABLY_ERR_HTTP,
     ABLY_ERR_PROTOCOL, ABLY_ERR_TIMEOUT, ABLY_ERR_STATE, ABLY_ERR_THREAD, ABLY_ERR_CAPACITY, ABLY_ERR_INTERNAL]"

text \<open>\<^verbatim>\<open>Error(code)\<close>; an integer cast to \<^verbatim>\<open>ably_error_t\<close> need not be an enumerator.\<close>

definition cpp_error :: "int \<Rightarrow> cpp_exception" where
  "cpp_error code = \<lparr>ex_code = code,
     ex_what = (case find (\<lambda>e. ably_error_code e = code) all_errors of
       None \<Rightarrow> ''unknown error'' | Some e \<Rightarrow> ably_error_str e)\<rparr>"

definition cpp_check :: "ably_error \<Rightarrow> unit cpp" where
  "cpp_check err = (if err \<noteq> ABLY_OK then Inl (cpp_error (ably_error_code err)) else Inr ())"

text \<open>\<^verbatim>\<open>check(err)\<close> before a value is returned.\<close>

definition cpp_checked :: "ably_error \<Rightarrow> 'a \<Rightarrow> 'a cpp" where
  "cpp_checked err x = (case cpp_check err of Inl e \<Rightarrow> Inl e | Inr _ \<Rightarrow> Inr x)"

lemma cpp_error_what: "ex_what (cpp_error (ably_error_code e)) = ably_error_str e"
  by (cases e) (simp_all add: cpp_error_def all_errors_def)

lemma cpp_checked_iff:
  "cpp_checked err x = Inr y \<longleftrightarrow> err = ABLY_OK \<and> y = x"
  "cpp_checked err x = Inl e \<longleftrightarrow> err \<noteq> ABLY_OK \<and> e = cpp_error (ably_error_code err)"
  by (auto simp: cpp_checked_def cpp_check_def)

section \<open>Values\<close>

record cpp_message =
  cm_id :: string
  cm_name :: string
  cm_data :: string
  cm_client_id :: string
  cm_timestamp :: int

definition message_from_c :: "ably_message \<Rightarrow> cpp_message" where
  "message_from_c m = \<lparr>cm_id = c_str (am_id m), cm_name = c_str (am_name m), cm_data = c_str (am_data m),
     cm_client_id = c_str (am_client_id m), cm_timestamp = am_timestamp m\<rparr>"

record cpp_error_info =
  ce_ably_code :: int
  ce_message :: string

definition error_info_from_c :: "ably_error_info option \<Rightarrow> cpp_error_info" where
  "error_info_from_c e =
     (case e of None \<Rightarrow> \<lparr>ce_ably_code = 0, ce_message = []\<rparr>
      | Some i \<Rightarrow> \<lparr>ce_ably_code = ably_code i, ce_message = err_message i\<rparr>)"

definition error_info_ok :: "cpp_error_info \<Rightarrow> bool" where
  "error_info_ok e \<longleftrightarrow> ce_ably_code e = 0"

record cpp_presence_message =
  cp_action :: ably_presence_action
  cp_client_id :: string
  cp_connection_id :: string
  cp_data :: string
  cp_timestamp :: int

definition presence_from_c :: "ably_presence_message \<Rightarrow> cpp_presence_message" where
  "presence_from_c m = \<lparr>cp_action = pm_action m, cp_client_id = pm_client_id m, cp_connection_id = pm_connection_id m,
     cp_data = pm_data m, cp_timestamp = pm_timestamp m\<rparr>"

record cpp_channel_status =
  ccs_name :: string
  ccs_is_active :: bool
  ccs_occupancy :: ably_occupancy

definition channel_status_from_c :: "channel_status \<Rightarrow> cpp_channel_status" where
  "channel_status_from_c s =
     \<lparr>ccs_name = cs_name s, ccs_is_active = cs_is_active s, ccs_occupancy = cs_occupancy s\<rparr>"

record cpp_token_details =
  ctd_token :: string
  ctd_key_name :: string
  ctd_issued :: int
  ctd_expires :: int
  ctd_capability :: string
  ctd_client_id :: string

definition token_details_from_c :: "token_details \<Rightarrow> cpp_token_details" where
  "token_details_from_c d =
     \<lparr>ctd_token = td_token d, ctd_key_name = td_key_name d, ctd_issued = td_issued d, ctd_expires = td_expires d,
      ctd_capability = td_capability d, ctd_client_id = td_client_id d\<rparr>"

record cpp_token_params =
  ctp_capability :: string
  ctp_client_id :: string
  ctp_ttl_ms :: int

record cpp_rest_response =
  crr_http_status :: int
  crr_body :: string
  crr_next_cursor :: string

definition response_from_c :: "rest_response \<Rightarrow> cpp_rest_response" where
  "response_from_c r =
     \<lparr>crr_http_status = rr_http_status r,
      crr_body = (case rr_body r of None \<Rightarrow> [] | Some b \<Rightarrow> if length b \<noteq> 0 then b else []),
      crr_next_cursor = rr_next_cursor r\<rparr>"

section \<open>Pages\<close>

text \<open>\<^verbatim>\<open>HistoryPage\<close>, \<^verbatim>\<open>PresencePage\<close> and \<^verbatim>\<open>ChannelListPage\<close> own a page on the heap in the same way. The
  memory has the pages that are allocated, what the field \<^verbatim>\<open>page_\<close> of each live object holds, and the
  number of times a page was freed that was not allocated.\<close>

record page_mem =
  pg_live :: "nat list"
  pg_objs :: "(nat \<times> nat option) list"
  pg_bad_frees :: nat

definition page_free :: "nat option \<Rightarrow> page_mem \<Rightarrow> page_mem" where
  "page_free p m =
     (case p of None \<Rightarrow> m
      | Some a \<Rightarrow> if a \<in> set (pg_live m) then m\<lparr>pg_live := remove1 a (pg_live m)\<rparr>
                  else m\<lparr>pg_bad_frees := pg_bad_frees m + 1\<rparr>)"

definition page_of :: "nat \<Rightarrow> page_mem \<Rightarrow> nat option" where
  "page_of x m = (case map_of (pg_objs m) x of None \<Rightarrow> None | Some p \<Rightarrow> p)"

definition set_page :: "nat \<Rightarrow> nat option \<Rightarrow> page_mem \<Rightarrow> page_mem" where
  "set_page x p m = m\<lparr>pg_objs := AList.update x p (pg_objs m)\<rparr>"

text \<open>A query allocates a page and constructs object \<open>x\<close> from it; move construction, move assignment and
  the destructor.\<close>

definition page_construct :: "nat \<Rightarrow> nat \<Rightarrow> page_mem \<Rightarrow> page_mem" where
  "page_construct x a m = set_page x (Some a) (m\<lparr>pg_live := a # pg_live m\<rparr>)"

definition page_move_construct :: "nat \<Rightarrow> nat \<Rightarrow> page_mem \<Rightarrow> page_mem" where
  "page_move_construct x src m = set_page src None (set_page x (page_of src m) m)"

definition page_move_assign :: "nat \<Rightarrow> nat \<Rightarrow> page_mem \<Rightarrow> page_mem" where
  "page_move_assign x src m =
     (let m1 = page_free (page_of x m) m; m2 = set_page x (page_of src m1) m1 in set_page src None m2)"

definition page_destroy :: "nat \<Rightarrow> page_mem \<Rightarrow> page_mem" where
  "page_destroy x m = (page_free (page_of x m) m)\<lparr>pg_objs := AList.delete x (pg_objs m)\<rparr>"

text \<open>The accessors, on the page an object holds.\<close>

definition history_page_size :: "ably_history_page option \<Rightarrow> nat" where
  "history_page_size p = (case p of None \<Rightarrow> 0 | Some pg \<Rightarrow> length (hp_items pg))"

definition history_page_next_cursor :: "ably_history_page option \<Rightarrow> string" where
  "history_page_next_cursor p = (case p of None \<Rightarrow> [] | Some pg \<Rightarrow> hp_next_cursor pg)"

text \<open>Undefined (\<open>None\<close>) outside the page: the index is not checked.\<close>

definition history_page_at :: "ably_history_page option \<Rightarrow> nat \<Rightarrow> cpp_message option" where
  "history_page_at p i =
     (case p of None \<Rightarrow> None
      | Some pg \<Rightarrow> if i < length (hp_items pg) then Some (message_from_c (hp_items pg ! i)) else None)"

definition rest_page_size :: "'a rest_page option \<Rightarrow> nat" where
  "rest_page_size p = (case p of None \<Rightarrow> 0 | Some pg \<Rightarrow> length (pg_items pg))"

definition rest_page_next_cursor :: "'a rest_page option \<Rightarrow> string" where
  "rest_page_next_cursor p = (case p of None \<Rightarrow> [] | Some pg \<Rightarrow> pg_next_cursor pg)"

definition presence_page_at :: "ably_presence_message rest_page option \<Rightarrow> nat \<Rightarrow> cpp_presence_message option" where
  "presence_page_at p i =
     (case p of None \<Rightarrow> None
      | Some pg \<Rightarrow> if i < length (pg_items pg) then Some (presence_from_c (pg_items pg ! i)) else None)"

definition channel_list_page_at :: "channel_status rest_page option \<Rightarrow> nat \<Rightarrow> cpp_channel_status option" where
  "channel_list_page_at p i =
     (case p of None \<Rightarrow> None
      | Some pg \<Rightarrow> if i < length (pg_items pg) then Some (channel_status_from_c (pg_items pg ! i)) else None)"

section \<open>RestClient\<close>

record cpp_rest_options =
  cro_rest_host :: string
  cro_port :: nat
  cro_timeout_ms :: int
  cro_tls_verify_peer :: bool
  cro_encoding :: ably_encoding
  cro_token :: string

definition cpp_rest_options_init :: cpp_rest_options where
  "cpp_rest_options_init = \<lparr>cro_rest_host = [], cro_port = 443, cro_timeout_ms = 10000, cro_tls_verify_peer = True,
     cro_encoding = ENCODING_JSON, cro_token = []\<rparr>"

definition rest_options_of :: "cpp_rest_options \<Rightarrow> rest_options" where
  "rest_options_of o' =
     rest_options_init
       \<lparr>so_rest_host := (if cro_rest_host o' \<noteq> [] then Some (cro_rest_host o') else so_rest_host rest_options_init),
        so_port := (if cro_port o' \<noteq> 0 then cro_port o' else so_port rest_options_init),
        so_timeout_ms := cro_timeout_ms o', so_tls_verify_peer := cro_tls_verify_peer o',
        so_encoding := cro_encoding o',
        so_token := (if cro_token o' \<noteq> [] then Some (cro_token o') else so_token rest_options_init)\<rparr>"

text \<open>Every failure of the C function is reported as out of memory.\<close>

definition cpp_rest_client :: "string \<Rightarrow> cpp_rest_options \<Rightarrow> rest_client cpp" where
  "cpp_rest_client api_key opts =
     (case rest_client_create (Some (c_string api_key)) (Some (rest_options_of opts)) of
        None \<Rightarrow> Inl (cpp_error (ably_error_code ABLY_ERR_NOMEM))
      | Some c \<Rightarrow> Inr c)"

definition cpp_rest_publish ::
  "codec_lib \<Rightarrow> http_env \<Rightarrow> string \<Rightarrow> string \<Rightarrow> string \<Rightarrow> rest_client \<Rightarrow> (unit cpp \<times> rest_client) rest_run" where
  "cpp_rest_publish lib env channel name data c =
     rest_map (\<lambda>(err, c'). (cpp_check err, c'))
       (rest_publish lib env (c_string channel) (Some (c_string name)) (Some (c_string data)) c)"

text \<open>Only name and data of a message are passed on.\<close>

definition raw_message :: "cpp_message \<Rightarrow> rest_message" where
  "raw_message m = \<lparr>rm_name = Some (c_string (cm_name m)), rm_data = Some (c_string (cm_data m)), rm_id = None\<rparr>"

definition cpp_publish_batch ::
  "codec_lib \<Rightarrow> http_env \<Rightarrow> string \<Rightarrow> cpp_message list \<Rightarrow> rest_client \<Rightarrow> (unit cpp \<times> rest_client) rest_run" where
  "cpp_publish_batch lib env channel msgs c =
     rest_map (\<lambda>(err, c'). (cpp_check err, c')) (rest_publish_batch lib env (c_string channel) (map raw_message msgs) c)"

definition cpp_batch_publish ::
  "codec_lib \<Rightarrow> http_env \<Rightarrow> (string \<times> cpp_message list) list \<Rightarrow> rest_client \<Rightarrow> (unit cpp \<times> rest_client) rest_run" where
  "cpp_batch_publish lib env specs c =
     rest_map (\<lambda>(err, results, c'). (cpp_check err, c'))
       (rest_batch_publish lib env
          (map (\<lambda>(ch, msgs). \<lparr>bs_channel = c_string ch, bs_messages = map raw_message msgs\<rparr>) specs)
          (length specs * 2) c)"

definition cpp_channel_history ::
  "codec_lib \<Rightarrow> http_env \<Rightarrow> bool \<Rightarrow> string \<Rightarrow> int \<Rightarrow> string \<Rightarrow> string \<Rightarrow> rest_client \<Rightarrow>
   (ably_history_page option cpp \<times> rest_client) rest_run" where
  "cpp_channel_history lib env mem_ok channel limit direction from_serial c =
     rest_map (\<lambda>(err, page, c'). (cpp_checked err page, c'))
       (rest_channel_history lib env mem_ok (c_string channel) limit (Some (c_string direction))
          (if from_serial = [] then None else Some (c_string from_serial)) c)"

definition cpp_channel_status_get ::
  "codec_lib \<Rightarrow> http_env \<Rightarrow> string \<Rightarrow> rest_client \<Rightarrow> (cpp_channel_status cpp \<times> rest_client) rest_run" where
  "cpp_channel_status_get lib env channel c =
     rest_map (\<lambda>(err, s, c'). (cpp_checked err (channel_status_from_c s), c'))
       (rest_channel_status lib env (c_string channel) c)"

definition cpp_channel_list ::
  "codec_lib \<Rightarrow> http_env \<Rightarrow> bool \<Rightarrow> string \<Rightarrow> int \<Rightarrow> rest_client \<Rightarrow>
   (channel_status rest_page option cpp \<times> rest_client) rest_run" where
  "cpp_channel_list lib env mem_ok name_prefix limit c =
     rest_map (\<lambda>(err, page, c'). (cpp_checked err page, c'))
       (rest_channel_list lib env mem_ok (if name_prefix = [] then None else Some (c_string name_prefix)) limit c)"

definition cpp_presence_get ::
  "codec_lib \<Rightarrow> http_env \<Rightarrow> bool \<Rightarrow> string \<Rightarrow> int \<Rightarrow> string \<Rightarrow> rest_client \<Rightarrow>
   (ably_presence_message rest_page option cpp \<times> rest_client) rest_run" where
  "cpp_presence_get lib env mem_ok channel limit client_id c =
     rest_map (\<lambda>(err, page, c'). (cpp_checked err page, c'))
       (rest_presence_get lib env mem_ok (c_string channel) limit
          (if client_id = [] then None else Some (c_string client_id)) c)"

definition cpp_request_token ::
  "codec_lib \<Rightarrow> hmac_fn \<Rightarrow> http_env \<Rightarrow> int \<Rightarrow> cpp_token_params \<Rightarrow> rest_client \<Rightarrow>
   (cpp_token_details cpp \<times> rest_client) rest_run" where
  "cpp_request_token lib hmac env now params c =
     rest_map (\<lambda>(err, d, c'). (cpp_checked err (token_details_from_c d), c'))
       (rest_request_token lib hmac env now
          (Some \<lparr>tp_capability = Some (c_string (if ctp_capability params = [] then ''{\"*\":[\"*\"]}''
                   else ctp_capability params)),
                 tp_client_id = (if ctp_client_id params = [] then None else Some (c_string (ctp_client_id params))),
                 tp_ttl_ms = ctp_ttl_ms params\<rparr>) c)"

definition cpp_request ::
  "http_env \<Rightarrow> string \<Rightarrow> string \<Rightarrow> string \<Rightarrow> rest_client \<Rightarrow> (cpp_rest_response cpp \<times> rest_client) rest_run" where
  "cpp_request env request_method path body c =
     rest_map (\<lambda>(err, r, c'). (cpp_checked err (response_from_c r), c'))
       (rest_request env (c_string request_method) (c_string path) body c)"

definition cpp_time :: "codec_lib \<Rightarrow> http_env \<Rightarrow> rest_client \<Rightarrow> (int cpp \<times> rest_client) rest_run" where
  "cpp_time lib env c = rest_map (\<lambda>(err, t, c'). (cpp_checked err t, c')) (rest_time lib env c)"

definition cpp_last_http_status :: "rest_client \<Rightarrow> int" where
  "cpp_last_http_status c = rest_last_http_status c"

section \<open>Pages are owned once\<close>

inductive page_step :: "page_mem \<Rightarrow> page_mem \<Rightarrow> bool" where
  step_construct: "map_of (pg_objs m) x = None \<Longrightarrow> a \<notin> set (pg_live m) \<Longrightarrow> page_step m (page_construct x a m)"
| step_move_construct: "map_of (pg_objs m) x = None \<Longrightarrow> map_of (pg_objs m) src = Some p \<Longrightarrow>
    page_step m (page_move_construct x src m)"
| step_move_assign: "map_of (pg_objs m) x = Some q \<Longrightarrow> map_of (pg_objs m) src = Some p \<Longrightarrow>
    page_step m (page_move_assign x src m)"
| step_destroy: "map_of (pg_objs m) x = Some q \<Longrightarrow> page_step m (page_destroy x m)"

definition no_pages :: page_mem where
  "no_pages = \<lparr>pg_live = [], pg_objs = [], pg_bad_frees = 0\<rparr>"

definition page_inv :: "page_mem \<Rightarrow> bool" where
  "page_inv m \<longleftrightarrow> distinct (pg_live m) \<and> pg_bad_frees m = 0 \<and>
     (\<forall>x a. page_of x m = Some a \<longrightarrow> a \<in> set (pg_live m)) \<and>
     (\<forall>a \<in> set (pg_live m). \<exists>x. page_of x m = Some a) \<and>
     (\<forall>x y a. page_of x m = Some a \<longrightarrow> page_of y m = Some a \<longrightarrow> x = y)"

lemma page_of_set [simp]: "page_of x (set_page y p m) = (if x = y then p else page_of x m)"
  by (simp add: page_of_def set_page_def update_conv')

lemma page_of_live [simp]: "page_of x (m\<lparr>pg_live := l\<rparr>) = page_of x m"
  by (simp add: page_of_def)

lemma set_page_fields [simp]:
  "pg_live (set_page y p m) = pg_live m" "pg_bad_frees (set_page y p m) = pg_bad_frees m"
  by (simp_all add: set_page_def)

lemma page_free_held:
  assumes "page_inv m" "page_of x m = p"
  shows "pg_bad_frees (page_free p m) = 0" "pg_objs (page_free p m) = pg_objs m"
    "distinct (pg_live (page_free p m))" "set (pg_live (page_free p m)) = set (pg_live m) - set_option p"
  using assms by (auto simp: page_free_def page_inv_def split: option.split)

lemma page_of_objs: "pg_objs m = pg_objs m' \<Longrightarrow> page_of x m = page_of x m'"
  by (simp add: page_of_def)

lemma page_inv_same:
  "page_inv m \<Longrightarrow> (\<And>y. page_of y m' = page_of y m) \<Longrightarrow> pg_live m' = pg_live m \<Longrightarrow>
     pg_bad_frees m' = pg_bad_frees m \<Longrightarrow> page_inv m'"
  by (simp add: page_inv_def)

text \<open>Clear what object \<open>x\<close> holds after freeing it.\<close>

lemma page_inv_dropped:
  assumes inv: "page_inv m" and m': "page_of x m' = None" "\<And>y. y \<noteq> x \<Longrightarrow> page_of y m' = page_of y m"
    and f: "pg_live m' = pg_live (page_free (page_of x m) m)" "pg_bad_frees m' = pg_bad_frees (page_free (page_of x m) m)"
  shows "page_inv m'"
proof -
  note h = page_free_held [OF inv refl [of "page_of x m"]]
  have live: "set (pg_live m') = set (pg_live m) - set_option (page_of x m)" using f(1) h(4) by simp
  have one: "page_of y m = Some a \<Longrightarrow> page_of z m = Some a \<Longrightarrow> y = z" for y z a using inv by (simp add: page_inv_def)
  have at: "page_of y m' = Some a \<longleftrightarrow> y \<noteq> x \<and> page_of y m = Some a" for y a using m' by (cases "y = x") auto
  have "distinct (pg_live m')" "pg_bad_frees m' = 0" using f h(1,3) by simp_all
  moreover have "a \<in> set (pg_live m')" if "page_of y m' = Some a" for y a
    using that inv one [of x a y] unfolding at live by (auto simp: page_inv_def)
  moreover have "\<exists>y. page_of y m' = Some a" if "a \<in> set (pg_live m')" for a
    using that inv unfolding at live by (auto simp: page_inv_def)
  moreover have "y = z" if "page_of y m' = Some a" "page_of z m' = Some a" for y z a
    using that one unfolding at by blast
  ultimately show ?thesis unfolding page_inv_def by blast
qed

text \<open>Hand what \<open>src\<close> holds to an object that holds nothing.\<close>

lemma page_inv_handed:
  assumes inv: "page_inv m" and x: "page_of x m = None"
  shows "page_inv (set_page src None (set_page x (page_of src m) m))"
proof -
  let ?m = "set_page src None (set_page x (page_of src m) m)"
  have live: "\<And>y a. page_of y m = Some a \<Longrightarrow> a \<in> set (pg_live m)"
    "\<And>a. a \<in> set (pg_live m) \<Longrightarrow> \<exists>y. page_of y m = Some a"
    and one: "\<And>y z a. page_of y m = Some a \<Longrightarrow> page_of z m = Some a \<Longrightarrow> y = z"
    using inv unfolding page_inv_def by blast+
  have at: "page_of y ?m = Some a \<longleftrightarrow>
      y \<noteq> src \<and> (y = x \<and> page_of src m = Some a \<or> y \<noteq> x \<and> page_of y m = Some a)" for y a
    by auto
  have "a \<in> set (pg_live m)" if "page_of y ?m = Some a" for y a using that live(1) unfolding at by blast
  moreover have "\<exists>y. page_of y ?m = Some a" if a: "a \<in> set (pg_live m)" for a
  proof -
    obtain y where y: "page_of y m = Some a" using live(2) [OF a] by blast
    then have "y \<noteq> x" using x by auto
    show ?thesis
    proof (cases "y = src")
      case True
      then have "page_of x ?m = Some a" using y \<open>y \<noteq> x\<close> by simp
      then show ?thesis ..
    next
      case False
      then have "page_of y ?m = Some a" using y \<open>y \<noteq> x\<close> by simp
      then show ?thesis ..
    qed
  qed
  moreover have "y = z" if "page_of y ?m = Some a" "page_of z ?m = Some a" for y z a
    using that one [of y a z] one [of src a z] one [of y a src] unfolding at by blast
  moreover have "distinct (pg_live m)" "pg_bad_frees m = 0" using inv unfolding page_inv_def by blast+
  ultimately show ?thesis unfolding page_inv_def set_page_fields by blast
qed

lemma page_inv_construct:
  assumes inv: "page_inv m" and x: "page_of x m = None" and a: "a \<notin> set (pg_live m)"
  shows "page_inv (page_construct x a m)"
proof -
  have at: "page_of y (page_construct x a m) = Some b \<longleftrightarrow> y = x \<and> b = a \<or> y \<noteq> x \<and> page_of y m = Some b" for y b
    by (auto simp: page_construct_def)
  have live: "\<And>y b. page_of y m = Some b \<Longrightarrow> b \<in> set (pg_live m)"
    "\<And>b. b \<in> set (pg_live m) \<Longrightarrow> \<exists>y. page_of y m = Some b"
    and one: "\<And>y z b. page_of y m = Some b \<Longrightarrow> page_of z m = Some b \<Longrightarrow> y = z"
    using inv unfolding page_inv_def by blast+
  have f: "pg_live (page_construct x a m) = a # pg_live m" "pg_bad_frees (page_construct x a m) = pg_bad_frees m"
    by (simp_all add: page_construct_def)
  have "\<exists>y. page_of y (page_construct x a m) = Some b" if "b \<in> set (a # pg_live m)" for b
    using that live(2) [of b] x unfolding at by (cases "b = a") (auto, metis option.distinct(1))
  moreover have "y = z" if "page_of y (page_construct x a m) = Some b" "page_of z (page_construct x a m) = Some b" for y z b
    using that one live(1) a unfolding at by blast
  moreover have "b \<in> set (a # pg_live m)" if "page_of y (page_construct x a m) = Some b" for y b
    using that live(1) unfolding at by auto
  moreover have "distinct (a # pg_live m)" "pg_bad_frees m = 0" using inv a unfolding page_inv_def by auto
  ultimately show ?thesis unfolding page_inv_def f by blast
qed

lemma page_step_inv: "page_step m m' \<Longrightarrow> page_inv m \<Longrightarrow> page_inv m'"
proof (induction rule: page_step.induct)
  case (step_construct m x a)
  then have "page_of x m = None" by (simp add: page_of_def)
  then show ?case using page_inv_construct step_construct by blast
next
  case (step_move_construct m x src p)
  then have "page_of x m = None" by (simp add: page_of_def)
  with page_inv_handed [OF step_move_construct.prems this, of src] show ?case by (simp add: page_move_construct_def)
next
  case (step_move_assign m x q src p)
  let ?m1 = "page_free (page_of x m) m"
  have objs: "pg_objs ?m1 = pg_objs m" by (rule page_free_held [OF step_move_assign.prems refl])
  have 1: "page_inv (set_page x None ?m1)"
    by (rule page_inv_dropped [OF step_move_assign.prems, of x]) (simp_all add: page_of_objs [OF objs])
  let ?m2 = "set_page x None ?m1"
  show ?case
  proof (cases "x = src")
    case True
    show ?thesis
      by (rule page_inv_same [OF 1]) (simp_all add: page_move_assign_def Let_def True)
  next
    case False
    have "page_inv (set_page src None (set_page x (page_of src ?m2) ?m2))"
      by (rule page_inv_handed [OF 1]) simp
    then show ?thesis
      by (rule page_inv_same) (use False in \<open>auto simp: page_move_assign_def Let_def\<close>)
  qed
next
  case (step_destroy m x q)
  have objs: "pg_objs (page_free (page_of x m) m) = pg_objs m" by (rule page_free_held [OF step_destroy.prems refl])
  show ?case
    by (rule page_inv_dropped [OF step_destroy.prems, of x])
      (simp_all add: page_destroy_def page_of_def objs delete_conv')
qed

text \<open>The pages that queries return are owned by exactly one C++ object each, whatever is moved where
  (an object to itself included): no page is freed twice, none is reachable from two objects, and when no
  object is left none is allocated.\<close>

theorem pages_owned_once:
  assumes "page_step\<^sup>*\<^sup>* no_pages m"
  shows "pg_bad_frees m = 0 \<and> distinct (pg_live m) \<and>
    (\<forall>a. a \<in> set (pg_live m) \<longleftrightarrow> (\<exists>!x. page_of x m = Some a)) \<and> (pg_objs m = [] \<longrightarrow> pg_live m = [])"
proof -
  have "page_inv no_pages" by (simp add: no_pages_def page_inv_def page_of_def)
  with assms have inv: "page_inv m" by (induction rule: rtranclp_induct) (auto intro: page_step_inv)
  then have "pg_objs m = [] \<longrightarrow> pg_live m = []" by (auto simp: page_inv_def page_of_def)
  moreover have "a \<in> set (pg_live m) \<longleftrightarrow> (\<exists>!x. page_of x m = Some a)" for a using inv unfolding page_inv_def by blast
  ultimately show ?thesis using inv unfolding page_inv_def by blast
qed

lemma pages_owned_once_witness:
  "(let m = page_destroy 1 (page_move_construct 1 0 (page_construct 0 7 no_pages))
    in pg_bad_frees m = 0 \<and> pg_live m = [])"
proof -
  let ?m1 = "page_construct 0 7 no_pages" and ?m2 = "page_move_construct 1 0 (page_construct 0 7 no_pages)"
  have s1: "page_step no_pages ?m1" by (rule step_construct) (simp_all add: no_pages_def)
  have s2: "page_step ?m1 ?m2"
    by (rule step_move_construct [where p = "Some 7"]) (simp_all add: page_construct_def set_page_def no_pages_def)
  have s3: "page_step ?m2 (page_destroy 1 ?m2)"
    by (rule step_destroy [where q = "Some 7"])
      (simp add: page_move_construct_def page_construct_def set_page_def no_pages_def page_of_def)
  have "page_step\<^sup>*\<^sup>* no_pages (page_destroy 1 ?m2)"
    using s1 s2 s3 by (meson converse_rtranclp_into_rtranclp rtranclp.rtrancl_refl)
  from pages_owned_once [OF this] show ?thesis
    by (simp add: page_destroy_def page_free_def page_move_construct_def page_construct_def set_page_def no_pages_def
        page_of_def)
qed

section \<open>RealtimeClient\<close>

record cpp_rt_options =
  cto_realtime_host :: string
  cto_port :: nat
  cto_encoding :: ably_encoding
  cto_initial_delay_ms :: int
  cto_max_delay_ms :: int
  cto_max_attempts :: int
  cto_heartbeat_timeout_ms :: int
  cto_tls_verify_peer :: bool
  cto_client_id :: string

definition cpp_rt_options_init :: cpp_rt_options where
  "cpp_rt_options_init = \<lparr>cto_realtime_host = [], cto_port = 443, cto_encoding = ENCODING_JSON,
     cto_initial_delay_ms = 500, cto_max_delay_ms = 60000, cto_max_attempts = -1, cto_heartbeat_timeout_ms = 35000,
     cto_tls_verify_peer = True, cto_client_id = []\<rparr>"

definition rt_options_of :: "cpp_rt_options \<Rightarrow> rt_options" where
  "rt_options_of o' =
     rt_options_init
       \<lparr>ro_realtime_host := (if cto_realtime_host o' \<noteq> [] then c_string (cto_realtime_host o')
                             else ro_realtime_host rt_options_init),
        ro_port := (if cto_port o' \<noteq> 0 then cto_port o' else ro_port rt_options_init),
        ro_encoding := cto_encoding o', ro_initial_delay_ms := cto_initial_delay_ms o',
        ro_max_delay_ms := cto_max_delay_ms o', ro_max_attempts := cto_max_attempts o',
        ro_heartbeat_timeout_ms := cto_heartbeat_timeout_ms o', ro_tls_verify_peer := cto_tls_verify_peer o',
        ro_client_id := (if cto_client_id o' \<noteq> [] then Some (c_string (cto_client_id o')) else None)\<rparr>"

text \<open>The object: the C client, the channels handed out, and whether the host name in the C client's
  options points into the constructor's argument. \<^verbatim>\<open>ably_rt_client_create\<close> copies the pointer, the string
  behind it is destroyed when the constructor returns.\<close>

record cpp_rt =
  crt_world :: rt_world
  crt_conn_fn :: nat
  crt_channels :: "(string \<times> nat) list"
  crt_host_dead :: bool

definition cpp_rt_client :: "string \<Rightarrow> cpp_rt_options \<Rightarrow> cpp_rt cpp" where
  "cpp_rt_client api_key opts =
     (case rt_client_create (Some (c_string api_key)) (Some (rt_options_of opts)) of
        None \<Rightarrow> Inl (cpp_error (ably_error_code ABLY_ERR_NOMEM))
      | Some w \<Rightarrow> Inr \<lparr>crt_world = w, crt_conn_fn = 0, crt_channels = [], crt_host_dead = (cto_realtime_host opts \<noteq> [])\<rparr>)"

text \<open>The host that the service thread reads for its next attempt; \<open>None\<close> is a read of a dead string.\<close>

definition cpp_host_to_use :: "cpp_rt \<Rightarrow> string option" where
  "cpp_host_to_use c =
     (let k = rt_host_idx (rw_client (crt_world c))
      in if crt_host_dead c \<and> \<not> (0 < k \<and> k \<le> s_fallback_count) then None
         else Some (host_to_use (rw_client (crt_world c))))"

definition cpp_connect :: "bool \<Rightarrow> cpp_rt \<Rightarrow> unit cpp \<times> svc_pc \<times> cpp_rt" where
  "cpp_connect thread_ok c =
     (let (err, pc, w) = rt_client_connect thread_ok (crt_world c) in (cpp_check err, pc, c\<lparr>crt_world := w\<rparr>))"

text \<open>The connection callback: the object is the user data of the C callback, and the function it holds, if any,
  is called.\<close>

definition CPP_CONN_CB :: nat where "CPP_CONN_CB = 1"

definition cpp_on_connection_state :: "nat \<Rightarrow> cpp_rt \<Rightarrow> cpp_rt" where
  "cpp_on_connection_state fn c =
     c\<lparr>crt_conn_fn := fn, crt_world := rt_client_set_conn_state_cb CPP_CONN_CB (crt_world c)\<rparr>"

fun dispatch_conn_cb ::
  "cpp_rt \<Rightarrow> rt_event \<Rightarrow> (nat \<times> ably_connection_state \<times> ably_connection_state \<times> ably_error) option" where
  "dispatch_conn_cb c (Ev_Conn cb ns os reason) = (if crt_conn_fn c \<noteq> 0 then Some (crt_conn_fn c, ns, os, reason) else None)"
| "dispatch_conn_cb c _ = None"

text \<open>Once a function is set, every change of the connection state is reported to it.\<close>

lemma connection_state_reported:
  assumes "fn \<noteq> 0" and "s \<noteq> rc_state (rw_client (crt_world c))"
  shows "\<exists>e. rw_events (rt_set_state_locked s r (crt_world (cpp_on_connection_state fn c))) = rw_events (crt_world c) @ [e] \<and>
    dispatch_conn_cb (cpp_on_connection_state fn c) e = Some (fn, s, rc_state (rw_client (crt_world c)), r)"
  using assms
  by (simp add: cpp_on_connection_state_def rt_set_state_locked_def Let_def set_client_def rt_client_set_conn_state_cb_def
      CPP_CONN_CB_def)

text \<open>The result of \<^verbatim>\<open>close\<close>, given the wake-ups of the wait.\<close>

definition cpp_close_result :: "ably_connection_state \<Rightarrow> (bool \<times> ably_connection_state) list \<Rightarrow> unit cpp option" where
  "cpp_close_result s wakes = map_option cpp_check (rt_close_wait s wakes)"

definition cpp_state :: "cpp_rt \<Rightarrow> ably_connection_state" where
  "cpp_state c = rt_client_get_state (crt_world c)"

definition cpp_connection_id :: "cpp_rt \<Rightarrow> string" where
  "cpp_connection_id c = rt_client_get_connection_id (crt_world c)"

definition cpp_client_id_of :: "cpp_rt \<Rightarrow> string" where
  "cpp_client_id_of c = rt_client_get_client_id (crt_world c)"

definition cpp_last_error :: "cpp_rt \<Rightarrow> cpp_error_info" where
  "cpp_last_error c = error_info_from_c (Some (rt_client_get_last_error (crt_world c)))"

text \<open>\<^verbatim>\<open>waitConnected\<close>: the readings of the clock and of the state in the rounds of its loop, 50 ms apart.\<close>

fun cpp_wait_connected :: "int \<Rightarrow> (int \<times> ably_connection_state) list \<Rightarrow> bool option" where
  "cpp_wait_connected deadline [] = None"
| "cpp_wait_connected deadline ((now, s) # rounds) =
     (if \<not> now < deadline then Some False
      else if s = CONN_CONNECTED then Some True
      else cpp_wait_connected deadline rounds)"

text \<open>\<^verbatim>\<open>channel(name)\<close>: one object for each name; the index of the C channel stands for the object.\<close>

definition cpp_channel :: "string \<Rightarrow> cpp_rt \<Rightarrow> nat cpp \<times> cpp_rt" where
  "cpp_channel name c =
     (case map_of (crt_channels c) name of
        Some i \<Rightarrow> (Inr i, c)
      | None \<Rightarrow>
          (case rt_channel_get (c_string name) (crt_world c) of
             (None, w) \<Rightarrow> (Inl (cpp_error (ably_error_code ABLY_ERR_CAPACITY)), c\<lparr>crt_world := w\<rparr>)
           | (Some i, w) \<Rightarrow> (Inr i, c\<lparr>crt_world := w, crt_channels := (name, i) # crt_channels c\<rparr>)))"

lemma cpp_rt_client_host:
  assumes "cpp_rt_client key opts = Inr c"
  shows "cpp_host_to_use c = (if cto_realtime_host opts = [] then Some ''realtime.ably.io'' else None)"
  using assms
  by (auto simp: cpp_rt_client_def cpp_host_to_use_def Let_def rt_client_create_def rt_options_of_def
      rt_options_init_def host_to_use_def split: option.splits if_splits)

text \<open>\<^verbatim>\<open>waitConnected\<close> returns in time: with rounds at least 50 ms apart it decides after at most one
  round for each 50 ms of the timeout and one more; it answers true only when it has seen CONNECTED before
  the deadline. It does not look for FAILED or CLOSED, and so waits for the whole timeout when the client
  has given up.\<close>

theorem wait_connected_returns:
  assumes "0 \<le> timeout" "length rounds = nat (timeout div 50) + 2"
    and "\<And>i. i < length rounds \<Longrightarrow> start + 50 * int i \<le> fst (rounds ! i)"
  shows "\<exists>r. cpp_wait_connected (start + timeout) rounds = Some r \<and>
    (r \<longleftrightarrow> (\<exists>i < length rounds. snd (rounds ! i) = CONN_CONNECTED \<and>
       (\<forall>j \<le> i. fst (rounds ! j) < start + timeout)))"
proof -
  have spec: "(\<exists>i < length rs. \<not> fst (rs ! i) < d) \<Longrightarrow> \<exists>r. cpp_wait_connected d rs = Some r \<and>
      (r \<longleftrightarrow> (\<exists>i < length rs. snd (rs ! i) = CONN_CONNECTED \<and> (\<forall>j \<le> i. fst (rs ! j) < d)))" for d rs
  proof (induction rs)
    case (Cons x rs)
    obtain now s where x: "x = (now, s)" by fastforce
    consider "\<not> now < d" | "now < d" "s = CONN_CONNECTED" | "now < d" "s \<noteq> CONN_CONNECTED" by blast
    then show ?case
    proof cases
      case 1
      then show ?thesis by (auto simp: x)
    next
      case 2
      then show ?thesis by (auto simp: x intro!: exI [of _ 0])
    next
      case 3
      then have "\<exists>i < length rs. \<not> fst (rs ! i) < d"
        using Cons.prems x by (metis (no_types, lifting) One_nat_def Suc_less_eq fst_conv length_Cons less_Suc_eq_0_disj nth_Cons_0 nth_Cons_Suc)
      from Cons.IH [OF this] obtain r where r: "cpp_wait_connected d rs = Some r"
        "r \<longleftrightarrow> (\<exists>i < length rs. snd (rs ! i) = CONN_CONNECTED \<and> (\<forall>j \<le> i. fst (rs ! j) < d))" by blast
      have "(\<exists>i < length rs. snd (rs ! i) = CONN_CONNECTED \<and> (\<forall>j \<le> i. fst (rs ! j) < d)) \<longleftrightarrow>
          (\<exists>i < length (x # rs). snd ((x # rs) ! i) = CONN_CONNECTED \<and> (\<forall>j \<le> i. fst ((x # rs) ! j) < d))"
        using 3 by (simp add: x Ex_less_Suc2 All_less_Suc2 less_Suc_eq_le [symmetric])
      then show ?thesis using r 3 by (simp add: x)
    qed
  qed simp
  let ?k = "nat (timeout div 50) + 1"
  have "timeout \<le> 50 + 50 * (timeout div 50)" "0 \<le> timeout div 50" using assms(1) by presburger+
  then have "timeout \<le> 50 * int ?k" by simp
  then have "\<not> fst (rounds ! ?k) < start + timeout" using assms(2) assms(3) [of ?k] by simp
  then have "\<exists>i < length rounds. \<not> fst (rounds ! i) < start + timeout" using assms(2) by (intro exI [of _ ?k]) simp
  then show ?thesis by (rule spec)
qed

lemma wait_connected_returns_witness:
  "cpp_wait_connected 110 [(10, CONN_CONNECTING), (60, CONN_CONNECTED), (110, CONN_CONNECTED), (160, CONN_FAILED)] = Some True"
proof -
  let ?rounds = "[(10, CONN_CONNECTING), (60, CONN_CONNECTED), (110, CONN_CONNECTED), (160 :: int, CONN_FAILED)]"
  have "\<And>i. i < length ?rounds \<Longrightarrow> 10 + 50 * int i \<le> fst (?rounds ! i)"
    by (auto simp: less_Suc_eq nth_Cons')
  from wait_connected_returns [of 100 ?rounds 10, OF _ _ this] obtain r
    where "cpp_wait_connected 110 ?rounds = Some r" by auto
  then show ?thesis by simp
qed

end
