(* ===== verification/Ably_Cpp_Channel.thy ===== *)
theory Ably_Cpp_Channel
  imports Ably_Cpp Ably_Channel_Props "HOL-Library.Multiset"
begin

text \<open>
  The class \<^verbatim>\<open>Channel\<close> of \<^verbatim>\<open>include/ably/ably.hpp\<close>. A callback is a function object on the heap (\<^verbatim>\<open>SubSlot\<close>,
  \<^verbatim>\<open>PresSlot\<close>), whose address the C library gets as user data and gives back to the dispatcher. The fields of
  the class extend the client core, so that a world of theory \<open>Ably_Channel\<close> is the C channel together with
  its C++ object, and the operations of the C library, which are polymorphic in the core, leave them alone.
  The user data of a C callback is an address of the heap, 0 is null.

  What a user's function does is a script of calls on the channel. The library calls it without its lock, so
  other threads can make calls between the moment the library has read the slot and the dispatch: \<open>others\<close> gives
  them. A function that lets an exception escape is not modelled.
\<close>

section \<open>State\<close>

datatype cpp_fault =
    Call_Dead nat | Free_Dead nat
  | Free_Running nat \<comment> \<open>a function object is deleted while its function runs\<close>

record cpp_core = rt_core +
  cp_heap :: "(nat \<times> nat) list" \<comment> \<open>addresses of live function objects, and which function they hold\<close>
  cp_next :: nat
  cp_sub_slots :: "(int \<times> nat) list"
  cp_pres_slots :: "(int \<times> nat) list"
  cp_state_fn :: nat \<comment> \<open>0 is an empty function\<close>
  cp_running :: "nat list"
  cp_faults :: "cpp_fault list"

type_synonym cpp_world = "cpp_core chan_world"

definition set_core :: "(cpp_core \<Rightarrow> cpp_core) \<Rightarrow> cpp_world \<Rightarrow> cpp_world" where
  "set_core f w = w\<lparr>cw_core := f (cw_core w)\<rparr>"

definition cpp_fault :: "cpp_fault \<Rightarrow> cpp_world \<Rightarrow> cpp_world" where
  "cpp_fault x = set_core (\<lambda>c. c\<lparr>cp_faults := x # cp_faults c\<rparr>)"

text \<open>\<^verbatim>\<open>new\<close> and \<^verbatim>\<open>delete\<close> of a slot; addresses are not used again.\<close>

definition slot_new :: "nat \<Rightarrow> cpp_world \<Rightarrow> nat \<times> cpp_world" where
  "slot_new fn w =
     (let a = cp_next (cw_core w)
      in (a, set_core (\<lambda>c. c\<lparr>cp_heap := (a, fn) # cp_heap c, cp_next := a + 1\<rparr>) w))"

definition slot_delete :: "nat \<Rightarrow> cpp_world \<Rightarrow> cpp_world" where
  "slot_delete a w =
     (if map_of (cp_heap (cw_core w)) a = None then cpp_fault (Free_Dead a) w
      else (if a \<in> set (cp_running (cw_core w)) then cpp_fault (Free_Running a) else id)
             (set_core (\<lambda>c. c\<lparr>cp_heap := AList.delete a (cp_heap c)\<rparr>) w))"

section \<open>Message callbacks\<close>

definition cpp_subscribe :: "string option \<Rightarrow> nat \<Rightarrow> cpp_world \<Rightarrow> int cpp \<times> cpp_world" where
  "cpp_subscribe name_filter fn w =
     (let (slot, w1) = slot_new fn w;
          (token, ch) = channel_subscribe (map_option c_string name_filter) slot (cw_ch w1);
          w2 = w1\<lparr>cw_ch := ch\<rparr>
      in if token \<le> 0 then (Inl (cpp_error token), slot_delete slot w2)
         else (Inr token, set_core (\<lambda>c. c\<lparr>cp_sub_slots := AList.update token slot (cp_sub_slots c)\<rparr>) w2))"

definition cpp_unsubscribe :: "int \<Rightarrow> cpp_world \<Rightarrow> unit cpp \<times> cpp_world" where
  "cpp_unsubscribe token w =
     (let (err, ch) = channel_unsubscribe token (cw_ch w); w1 = w\<lparr>cw_ch := ch\<rparr>
      in case cpp_check err of
           Inl e \<Rightarrow> (Inl e, w1)
         | Inr _ \<Rightarrow>
             (case map_of (cp_sub_slots (cw_core w1)) token of
                None \<Rightarrow> (Inr (), w1)
              | Some slot \<Rightarrow> (Inr (), set_core (\<lambda>c. c\<lparr>cp_sub_slots := AList.delete token (cp_sub_slots c)\<rparr>)
                                       (slot_delete slot w1))))"

section \<open>Presence callbacks\<close>

definition cpp_subscribe_presence :: "bool \<Rightarrow> nat \<Rightarrow> cpp_world \<Rightarrow> int \<times> cpp_world" where
  "cpp_subscribe_presence mem_ok fn w =
     (let (slot, w1) = slot_new fn w;
          (token, ch) = channel_presence_subscribe mem_ok slot (cw_ch w1);
          w2 = w1\<lparr>cw_ch := ch\<rparr>
      in if token \<le> 0 then (token, slot_delete slot w2)
         else (token, set_core (\<lambda>c. c\<lparr>cp_pres_slots := AList.update token slot (cp_pres_slots c)\<rparr>) w2))"

definition cpp_unsubscribe_presence :: "int \<Rightarrow> cpp_world \<Rightarrow> cpp_world" where
  "cpp_unsubscribe_presence token w =
     (let w1 = w\<lparr>cw_ch := channel_presence_unsubscribe token (cw_ch w)\<rparr>
      in case map_of (cp_pres_slots (cw_core w1)) token of
           None \<Rightarrow> w1
         | Some slot \<Rightarrow> set_core (\<lambda>c. c\<lparr>cp_pres_slots := AList.delete token (cp_pres_slots c)\<rparr>) (slot_delete slot w1))"

section \<open>The other methods\<close>

definition checked :: "ably_error \<times> cpp_world \<Rightarrow> unit cpp \<times> cpp_world" where
  "checked r = (cpp_check (fst r), snd r)"

definition cpp_attach :: "codec_lib \<Rightarrow> cpp_world \<Rightarrow> unit cpp \<times> cpp_world" where
  "cpp_attach lib w = checked (channel_attach lib w)"

definition cpp_detach :: "codec_lib \<Rightarrow> cpp_world \<Rightarrow> unit cpp \<times> cpp_world" where
  "cpp_detach lib w = checked (channel_detach lib w)"

definition cpp_enable_delta :: "bool \<Rightarrow> cpp_world \<Rightarrow> unit cpp \<times> cpp_world" where
  "cpp_enable_delta mem_ok w =
     (let (err, ch) = channel_enable_delta mem_ok (cw_ch w) in checked (err, w\<lparr>cw_ch := ch\<rparr>))"

definition cpp_publish :: "codec_lib \<Rightarrow> string \<Rightarrow> string \<Rightarrow> cpp_world \<Rightarrow> unit cpp \<times> cpp_world" where
  "cpp_publish lib name data w = checked (channel_publish lib (Some (c_string name)) (Some (c_string data)) w)"

definition cpp_publish_with_id :: "codec_lib \<Rightarrow> string \<Rightarrow> string \<Rightarrow> string \<Rightarrow> cpp_world \<Rightarrow> unit cpp \<times> cpp_world" where
  "cpp_publish_with_id lib name data msg_id w =
     checked (channel_publish_with_id lib (Some (c_string name)) (Some (c_string data)) (Some (c_string msg_id)) w)"

definition cpp_set_rewind :: "int \<Rightarrow> cpp_world \<Rightarrow> cpp_world" where
  "cpp_set_rewind n w = set_ch (channel_set_rewind n) w"

definition cpp_set_modes :: "u32 \<Rightarrow> cpp_world \<Rightarrow> cpp_world" where
  "cpp_set_modes modes w = set_ch (channel_set_modes modes) w"

definition cpp_set_options :: "codec_lib \<Rightarrow> int \<Rightarrow> u32 \<Rightarrow> cpp_world \<Rightarrow> unit cpp \<times> cpp_world" where
  "cpp_set_options lib rewind modes w = checked (channel_set_options lib rewind modes w)"

definition cpp_set_occupancy_listener :: "nat \<Rightarrow> cpp_world \<Rightarrow> cpp_world" where
  "cpp_set_occupancy_listener cb w = set_ch (channel_set_occupancy_listener cb) w"

text \<open>An absent datum is a null pointer; the client id of \<^verbatim>\<open>leavePresence\<close> is ignored.\<close>

definition cpp_data :: "string \<Rightarrow> string option" where
  "cpp_data data = (if data = [] then None else Some (c_string data))"

definition cpp_enter_presence :: "codec_lib \<Rightarrow> bool \<Rightarrow> string \<Rightarrow> string \<Rightarrow> cpp_world \<Rightarrow> unit cpp \<times> cpp_world" where
  "cpp_enter_presence lib mem_ok client_id data w =
     checked (channel_presence_enter lib mem_ok (Some (c_string client_id)) (cpp_data data) w)"

definition cpp_leave_presence :: "codec_lib \<Rightarrow> string \<Rightarrow> string \<Rightarrow> cpp_world \<Rightarrow> unit cpp \<times> cpp_world" where
  "cpp_leave_presence lib client_id data w = checked (channel_presence_leave lib (cpp_data data) w)"

definition cpp_update_presence :: "codec_lib \<Rightarrow> string \<Rightarrow> cpp_world \<Rightarrow> unit cpp \<times> cpp_world" where
  "cpp_update_presence lib data w = checked (channel_presence_update lib (cpp_data data) w)"

text \<open>\<^verbatim>\<open>getPresenceMembers\<close> asks twice, and the channel can change in between: for the number, then for the
  members of an array of that size, which is finally resized to the second number.\<close>

definition cpp_get_presence_members :: "channel \<Rightarrow> channel \<Rightarrow> ably_presence_message list" where
  "cpp_get_presence_members ch1 ch2 =
     (let total = snd (channel_presence_get_members None ch1)
      in if total = 0 then []
         else let (written, total2) = channel_presence_get_members (Some total) ch2;
                  v = written @ replicate (total - length written) zero_presence_message
              in take total2 v @ replicate (total2 - total) zero_presence_message)"

definition cpp_channel_last_error :: "cpp_world \<Rightarrow> cpp_error_info" where
  "cpp_channel_last_error w = error_info_from_c (Some (channel_get_last_error (cw_ch w)))"

definition cpp_channel_state :: "cpp_world \<Rightarrow> ably_channel_state" where
  "cpp_channel_state w = channel_get_state (cw_ch w)"

definition cpp_channel_name :: "cpp_world \<Rightarrow> string" where
  "cpp_channel_name w = channel_get_name (cw_ch w)"

definition cpp_granted_modes :: "cpp_world \<Rightarrow> u32" where
  "cpp_granted_modes w = channel_get_granted_modes (cw_ch w)"

text \<open>\<^verbatim>\<open>history\<close>, through the REST client of the channel.\<close>

definition cpp_history ::
  "codec_lib \<Rightarrow> http_env \<Rightarrow> bool \<Rightarrow> int \<Rightarrow> string \<Rightarrow> string \<Rightarrow> cpp_world \<Rightarrow> ably_history_page option cpp rest_run" where
  "cpp_history lib env mem_ok limit direction from_serial w =
     rest_map (\<lambda>(err, page). cpp_checked err page)
       (channel_history lib env mem_ok limit (Some (c_string direction))
          (if from_serial = [] then None else Some (c_string from_serial)) w)"

section \<open>Dispatchers\<close>

text \<open>The C callback that \<^verbatim>\<open>setStateCallback\<close> registers has the object itself as user data.\<close>

definition CPP_STATE_CB :: nat where "CPP_STATE_CB = 1"

definition cpp_set_state_callback :: "nat \<Rightarrow> cpp_world \<Rightarrow> cpp_world" where
  "cpp_set_state_callback fn w =
     set_ch (channel_set_state_cb CPP_STATE_CB) (set_core (\<lambda>c. c\<lparr>cp_state_fn := fn\<rparr>) w)"

text \<open>The user's function that a state event of the C library ends in.\<close>

fun dispatch_state_cb :: "nat \<Rightarrow> chan_event \<Rightarrow> (nat \<times> ably_channel_state \<times> ably_channel_state \<times> ably_error) option" where
  "dispatch_state_cb fn (Ev_State cb ns os reason) = (if fn \<noteq> 0 then Some (fn, ns, os, reason) else None)"
| "dispatch_state_cb fn _ = None"

text \<open>\<^verbatim>\<open>dispatch_msg_cb\<close>, given what the functions do.\<close>

definition dispatch_msg_cb ::
  "(nat \<Rightarrow> cpp_message \<Rightarrow> cpp_world \<Rightarrow> cpp_world) \<Rightarrow> nat \<Rightarrow> ably_message \<Rightarrow> cpp_world \<Rightarrow> cpp_world" where
  "dispatch_msg_cb run slot msg w =
     (case map_of (cp_heap (cw_core w)) slot of
        None \<Rightarrow> cpp_fault (Call_Dead slot) w
      | Some fn \<Rightarrow>
          set_core (\<lambda>c. c\<lparr>cp_running := tl (cp_running c)\<rparr>)
            (run fn (message_from_c msg) (set_core (\<lambda>c. c\<lparr>cp_running := slot # cp_running c\<rparr>) w)))"

section \<open>The destructor\<close>

definition cpp_destroy :: "cpp_world \<Rightarrow> cpp_world" where
  "cpp_destroy w = fold slot_delete (map snd (cp_sub_slots (cw_core w))) w"

section \<open>Calls, callbacks and steps\<close>

datatype cpp_op =
    Cpp_Subscribe "string option" nat | Cpp_Unsubscribe int
  | Cpp_Subscribe_Presence bool nat | Cpp_Unsubscribe_Presence int
  | Cpp_Set_State_Callback nat
  | Cpp_Attach | Cpp_Detach | Cpp_Enable_Delta bool
  | Cpp_Publish string string | Cpp_Publish_With_Id string string string
  | Cpp_Set_Rewind int | Cpp_Set_Modes u32 | Cpp_Set_Options int u32 | Cpp_Set_Occupancy_Listener nat
  | Cpp_Enter_Presence bool string string | Cpp_Leave_Presence string string | Cpp_Update_Presence string

fun cpp_api :: "codec_lib \<Rightarrow> cpp_op \<Rightarrow> cpp_world \<Rightarrow> cpp_world" where
  "cpp_api lib (Cpp_Subscribe f fn) w = snd (cpp_subscribe f fn w)"
| "cpp_api lib (Cpp_Unsubscribe t) w = snd (cpp_unsubscribe t w)"
| "cpp_api lib (Cpp_Subscribe_Presence ok fn) w = snd (cpp_subscribe_presence ok fn w)"
| "cpp_api lib (Cpp_Unsubscribe_Presence t) w = cpp_unsubscribe_presence t w"
| "cpp_api lib (Cpp_Set_State_Callback fn) w = cpp_set_state_callback fn w"
| "cpp_api lib Cpp_Attach w = snd (cpp_attach lib w)"
| "cpp_api lib Cpp_Detach w = snd (cpp_detach lib w)"
| "cpp_api lib (Cpp_Enable_Delta ok) w = snd (cpp_enable_delta ok w)"
| "cpp_api lib (Cpp_Publish n d) w = snd (cpp_publish lib n d w)"
| "cpp_api lib (Cpp_Publish_With_Id n d i) w = snd (cpp_publish_with_id lib n d i w)"
| "cpp_api lib (Cpp_Set_Rewind r) w = cpp_set_rewind r w"
| "cpp_api lib (Cpp_Set_Modes m) w = cpp_set_modes m w"
| "cpp_api lib (Cpp_Set_Options r m) w = snd (cpp_set_options lib r m w)"
| "cpp_api lib (Cpp_Set_Occupancy_Listener cb) w = cpp_set_occupancy_listener cb w"
| "cpp_api lib (Cpp_Enter_Presence ok c d) w = snd (cpp_enter_presence lib ok c d w)"
| "cpp_api lib (Cpp_Leave_Presence c d) w = snd (cpp_leave_presence lib c d w)"
| "cpp_api lib (Cpp_Update_Presence d) w = snd (cpp_update_presence lib d w)"

type_synonym cpp_script = "nat \<Rightarrow> cpp_message \<Rightarrow> cpp_op list"
type_synonym cpp_others = "nat \<Rightarrow> ably_message \<Rightarrow> cpp_op list"

text \<open>A callback of the C library: calls of other threads, then the dispatcher runs the function.\<close>

definition cpp_env :: "codec_lib \<Rightarrow> cpp_others \<Rightarrow> cpp_script \<Rightarrow> cpp_core cb_env" where
  "cpp_env lib others script slot msg w =
     dispatch_msg_cb (\<lambda>fn m. fold (cpp_api lib) (script fn m)) slot msg (fold (cpp_api lib) (others slot msg) w)"

inductive cpp_step :: "codec_lib \<Rightarrow> cpp_others \<Rightarrow> cpp_script \<Rightarrow> cpp_world \<Rightarrow> cpp_world \<Rightarrow> bool"
  for lib others script
where
  cpp_call: "cpp_step lib others script w (cpp_api lib op w)"
| cpp_frame: "frame_bounded f \<Longrightarrow>
    cpp_step lib others script w (channel_on_frame lib (cpp_env lib others script) rest f w)"
| cpp_disconnect: "cpp_step lib others script w (channel_on_disconnect w)"
| cpp_reattach: "cpp_step lib others script w (channel_set_attaching w)"
| cpp_client: "core_inv (cw_core w\<lparr>rc_state := s, rc_send_ring := r, rc_msg_serial := n, rc_client_id := i\<rparr>) \<Longrightarrow>
    cpp_step lib others script w
      (w\<lparr>cw_core := cw_core w\<lparr>rc_state := s, rc_send_ring := r, rc_msg_serial := n, rc_client_id := i\<rparr>\<rparr>)"

end
