(* ===== verification/Ably_Cpp_Slots.thy ===== *)
theory Ably_Cpp_Slots
  imports Ably_Cpp_Channel
begin

text \<open>
  Ownership of the callback objects of the C++ class \<^verbatim>\<open>Channel\<close>: the locale \<open>subscription_table\<close> states what
  the C library promises about its subscriptions (tokens are positive and fresh until the counter wraps,
  adding and removing change one entry), and what an owner that files one object under each token gets from
  it; it is interpreted for the message and for the presence subscriptions of the C channel.
\<close>

section \<open>The contract of a subscription table\<close>

lemma keys_unique:
  assumes "mset slots = add_mset (t, a) N" "distinct (map fst slots)"
  shows "t \<notin> fst ` set_mset N"
proof
  assume "t \<in> fst ` set_mset N"
  then obtain e where e: "e \<in># N" "fst e = t" by auto
  have "mset (map fst slots) = add_mset t (image_mset fst N)" using assms(1) by simp
  moreover have "t \<in># image_mset fst N" using e by auto
  ultimately have "2 \<le> count (mset (map fst slots)) t" 
    by (simp del: mset_map add: Suc_le_eq)
  moreover have "count (mset (map fst slots)) t \<le> 1" using assms(2) by (simp add: distinct_count_atmost_1)
  ultimately show False by simp
qed

lemma mset_delete:
  "mset (AList.delete t slots) = {# e \<in># mset slots. t \<noteq> fst e #}"
  by (simp add: AList.delete_eq mset_filter comp_def case_prod_beta)

lemma mset_update_fresh:
  "t \<notin> fst ` set slots \<Longrightarrow> mset (AList.update t a slots) = add_mset (t, a) (mset slots)"
  by (induction slots) auto

locale subscription_table =
  fixes entries :: "'s \<Rightarrow> (int \<times> nat) multiset" and next_free :: "'s \<Rightarrow> int"
    and add :: "nat \<Rightarrow> 's \<Rightarrow> int \<times> 's" and remove :: "int \<Rightarrow> 's \<Rightarrow> 's"
  assumes add_law: "0 < next_free s \<Longrightarrow> next_free s < 2 ^ 31 - 1 \<Longrightarrow> 0 < fst (add a s) \<Longrightarrow>
      fst (add a s) = next_free s \<and> next_free (snd (add a s)) = next_free s + 1 \<and>
      entries (snd (add a s)) = add_mset (next_free s, a) (entries s)"
    and add_fails_law: "fst (add a s) \<le> 0 \<Longrightarrow> 0 < next_free s \<Longrightarrow>
      next_free (snd (add a s)) = next_free s \<and> entries (snd (add a s)) = entries s"
    and remove_law: "next_free (remove t s) = next_free s \<and>
      (entries (remove t s) = entries s \<and> (t \<le> 0 \<or> t \<notin> fst ` set_mset (entries s)) \<or>
       (\<exists>a. 0 < t \<and> entries s = add_mset (t, a) (entries (remove t s))))"
begin

definition owned :: "(int \<times> nat) list \<Rightarrow> 's \<Rightarrow> bool" where
  "owned slots s \<longleftrightarrow> entries s = mset slots \<and> distinct (map fst slots) \<and> 0 < next_free s \<and>
     (\<forall>e \<in> set slots. 0 < fst e \<and> fst e < next_free s)"

lemma owned_add:
  assumes o: "owned slots s" and n: "next_free s < 2 ^ 31 - 1" and t: "0 < fst (add a s)"
  shows "owned (AList.update (fst (add a s)) a slots) (snd (add a s))"
    and "mset (AList.update (fst (add a s)) a slots) = add_mset (fst (add a s), a) (mset slots)"
    and "next_free (snd (add a s)) = next_free s + 1"
proof -
  let ?t = "fst (add a s)"
  have law: "?t = next_free s" "next_free (snd (add a s)) = next_free s + 1"
    "entries (snd (add a s)) = add_mset (next_free s, a) (entries s)"
    using add_law [OF _ n t] o by (auto simp: owned_def)
  have fresh: "?t \<notin> fst ` set slots" using o unfolding owned_def law(1) by fastforce
  show m: "mset (AList.update ?t a slots) = add_mset (?t, a) (mset slots)" by (rule mset_update_fresh [OF fresh])
  have "set (AList.update ?t a slots) = insert (?t, a) (set slots)"
    using arg_cong [OF m, of set_mset] by simp
  then show "owned (AList.update ?t a slots) (snd (add a s))"
    using o law m distinct_update [of slots ?t a] by (auto simp: owned_def)
  show "next_free (snd (add a s)) = next_free s + 1" by (fact law(2))
qed

lemma owned_add_fails:
  "owned slots s \<Longrightarrow> fst (add a s) \<le> 0 \<Longrightarrow>
   owned slots (snd (add a s)) \<and> next_free (snd (add a s)) = next_free s"
  using add_fails_law [of a s] by (simp add: owned_def)

lemma owned_remove:
  assumes "owned slots s"
  shows "owned (AList.delete t slots) (remove t s)" "next_free (remove t s) = next_free s"
proof -
  have d: "distinct (map fst slots)" and e: "entries s = mset slots" using assms by (simp_all add: owned_def)
  have "entries (remove t s) = {# e \<in># mset slots. t \<noteq> fst e #}"
  proof (cases "\<exists>a. 0 < t \<and> entries s = add_mset (t, a) (entries (remove t s))")
    case True
    then obtain a where m: "mset slots = add_mset (t, a) (entries (remove t s))" using e by auto
    have "\<forall>e \<in># entries (remove t s). t \<noteq> fst e" using keys_unique [OF m d] by auto
    then have "{# e \<in># entries (remove t s). t \<noteq> fst e #} = entries (remove t s)"
      by (simp add: filter_mset_eq_conv)
    then show ?thesis unfolding m by simp
  next
    case False
    then have same: "entries (remove t s) = entries s" and t: "t \<le> 0 \<or> t \<notin> fst ` set_mset (entries s)"
      using remove_law [of t s] by blast+
    have "t \<notin> fst ` set slots" if "t \<le> 0" using assms that unfolding owned_def by fastforce
    then have "\<forall>e \<in># mset slots. t \<noteq> fst e" using t e by auto
    then have "{# e \<in># mset slots. t \<noteq> fst e #} = mset slots" by (simp add: filter_mset_eq_conv)
    then show ?thesis using same e by simp
  qed
  moreover show "next_free (remove t s) = next_free s" using remove_law by blast
  moreover have "set (AList.delete t slots) \<subseteq> set slots" by (auto simp: AList.delete_eq)
  ultimately show "owned (AList.delete t slots) (remove t s)"
    using assms d by (auto simp: owned_def mset_delete distinct_delete)
qed

lemma owned_empty: "entries s = {#} \<Longrightarrow> 0 < next_free s \<Longrightarrow> owned [] s"
  by (simp add: owned_def)

end

section \<open>The tables of a channel\<close>

text \<open>The entries of a table of slots; token 0 marks a free one.\<close>

definition pairs_of :: "('a \<Rightarrow> int) \<Rightarrow> ('a \<Rightarrow> nat) \<Rightarrow> 'a list \<Rightarrow> (int \<times> nat) multiset" where
  "pairs_of tok cb xs = {# (tok x, cb x). x \<in># filter_mset (\<lambda>x. tok x \<noteq> 0) (mset xs) #}"

lemma pairs_of_split:
  assumes "i < length xs"
  obtains M where "mset xs = add_mset (xs ! i) M" "\<And>y. mset (xs[i := y]) = add_mset y M"
proof
  show "mset xs = add_mset (xs ! i) (mset xs - {# xs ! i #})" using assms by simp
  show "mset (xs[i := y]) = add_mset y (mset xs - {# xs ! i #})" for y using assms by (rule mset_update)
qed

lemma pairs_of_add:
  assumes "first_index (\<lambda>x. tok x = 0) xs = Some i" "tok y \<noteq> 0"
  shows "pairs_of tok cb (xs[i := y]) = add_mset (tok y, cb y) (pairs_of tok cb xs)"
proof -
  have i: "i < length xs" "tok (xs ! i) = 0" using first_index_Some [OF assms(1)] by auto
  obtain M where "mset xs = add_mset (xs ! i) M" "mset (xs[i := y]) = add_mset y M"
    using pairs_of_split [OF i(1)] by metis
  then show ?thesis using i(2) assms(2) unfolding pairs_of_def by simp
qed

lemma pairs_of_remove:
  assumes "first_index (\<lambda>x. tok x = t) xs = Some i" "t \<noteq> 0" "tok y = 0"
  shows "pairs_of tok cb xs = add_mset (t, cb (xs ! i)) (pairs_of tok cb (xs[i := y]))"
proof -
  have i: "i < length xs" "tok (xs ! i) = t" using first_index_Some [OF assms(1)] by auto
  obtain M where "mset xs = add_mset (xs ! i) M" "mset (xs[i := y]) = add_mset y M"
    using pairs_of_split [OF i(1)] by metis
  then show ?thesis using i(2) assms(2,3) unfolding pairs_of_def by simp
qed

lemma pairs_of_keys: "fst ` set_mset (pairs_of tok cb xs) = tok ` set xs - {0}"
  by (auto simp: pairs_of_def image_iff)

definition sub_entries :: "channel \<Rightarrow> (int \<times> nat) multiset" where
  "sub_entries ch = pairs_of sub_token sub_cb (ch_subscribers ch)"

definition psub_addr :: "presence_sub \<Rightarrow> nat" where
  "psub_addr s = (case psub_cb s of None \<Rightarrow> 0 | Some a \<Rightarrow> a)"

definition pres_entries :: "channel \<Rightarrow> (int \<times> nat) multiset" where
  "pres_entries ch = pairs_of psub_token psub_addr (fst (pres_tables (ch_pres ch)))"

definition pres_next :: "channel \<Rightarrow> int" where
  "pres_next ch = snd (pres_tables (ch_pres ch))"

lemma next_token_small: "0 < t \<Longrightarrow> t < 2 ^ 31 - 1 \<Longrightarrow> next_token t = t + 1"
  by (simp add: next_token_def c_int_id)

interpretation msg_table: subscription_table sub_entries ch_next_token "channel_subscribe f"
  "\<lambda>t ch. snd (channel_unsubscribe t ch)"
proof
  fix ch :: channel and a t
  show "fst (channel_subscribe f a ch) = ch_next_token ch \<and>
      ch_next_token (snd (channel_subscribe f a ch)) = ch_next_token ch + 1 \<and>
      sub_entries (snd (channel_subscribe f a ch)) = add_mset (ch_next_token ch, a) (sub_entries ch)"
    if "0 < ch_next_token ch" "ch_next_token ch < 2 ^ 31 - 1" "0 < fst (channel_subscribe f a ch)"
    using that by (auto simp: channel_subscribe_def sub_entries_def pairs_of_add next_token_small Let_def split: option.splits)
  show "ch_next_token (snd (channel_subscribe f a ch)) = ch_next_token ch \<and>
      sub_entries (snd (channel_subscribe f a ch)) = sub_entries ch"
    if "fst (channel_subscribe f a ch) \<le> 0" "0 < ch_next_token ch"
    using that by (auto simp: channel_subscribe_def Let_def split: option.splits)
  show "ch_next_token (snd (channel_unsubscribe t ch)) = ch_next_token ch \<and>
      (sub_entries (snd (channel_unsubscribe t ch)) = sub_entries ch \<and> (t \<le> 0 \<or> t \<notin> fst ` set_mset (sub_entries ch)) \<or>
       (\<exists>a. 0 < t \<and> sub_entries ch = add_mset (t, a) (sub_entries (snd (channel_unsubscribe t ch)))))"
  proof (cases "first_index (\<lambda>s. sub_token s = t) (ch_subscribers ch)")
    case None
    then have "t \<notin> fst ` set_mset (sub_entries ch)" by (auto simp: sub_entries_def pairs_of_keys first_index_None)
    then show ?thesis using None by (simp add: channel_unsubscribe_def)
  next
    case (Some i)
    then show ?thesis using pairs_of_remove [OF Some, of free_subscriber sub_cb]
      by (auto simp: channel_unsubscribe_def sub_entries_def free_subscriber_def)
  qed
qed

lemma pres_tables_simps: "pres_tables (Some ps) = (ps_subs ps, ps_next_token ps)"
  "pres_tables None = (ps_subs presence_init, ps_next_token presence_init)"
  by (simp_all add: pres_tables_def)

lemma pres_subscribe_tables:
  assumes "pres_tables (ch_pres ch) = (subs, n)" "channel_presence_subscribe ok a ch = (t, ch')"
  shows "t = 0 \<and> pres_tables (ch_pres ch') = (subs, n) \<or>
    (\<exists>i. t = n \<and> first_index (\<lambda>s. psub_token s = 0) subs = Some i \<and>
      pres_tables (ch_pres ch') = (subs[i := \<lparr>psub_cb = Some a, psub_token = n\<rparr>], next_token n))"
proof (cases "ensure_pres ok ch")
  case (Pair r ch1)
  show ?thesis
  proof (cases r)
    case None
    then show ?thesis using assms Pair by (auto simp: channel_presence_subscribe_def ensure_pres_def split: option.splits if_splits)
  next
    case (Some ps)
    then have "pres_tables (Some ps) = (subs, n)"
      using assms(1) Pair by (auto simp: ensure_pres_def pres_tables_simps split: option.splits if_splits)
    then have "ps_subs ps = subs" "ps_next_token ps = n" by (simp_all add: pres_tables_simps)
    then show ?thesis using assms(2) Pair Some
      by (auto simp: channel_presence_subscribe_def presence_subscribe_def pres_tables_simps split: option.splits)
  qed
qed

interpretation pres_table: subscription_table pres_entries pres_next "channel_presence_subscribe ok"
  channel_presence_unsubscribe
proof
  fix ch :: channel and a t
  obtain t' ch' where r: "channel_presence_subscribe ok a ch = (t', ch')" by fastforce
  obtain subs n where p: "pres_tables (ch_pres ch) = (subs, n)" by fastforce
  note tables = pres_subscribe_tables [OF p r]
  show "fst (channel_presence_subscribe ok a ch) = pres_next ch \<and>
      pres_next (snd (channel_presence_subscribe ok a ch)) = pres_next ch + 1 \<and>
      pres_entries (snd (channel_presence_subscribe ok a ch)) = add_mset (pres_next ch, a) (pres_entries ch)"
    if "0 < pres_next ch" "pres_next ch < 2 ^ 31 - 1" "0 < fst (channel_presence_subscribe ok a ch)"
    using that tables pairs_of_add [of psub_token subs _ "\<lparr>psub_cb = Some a, psub_token = n\<rparr>" psub_addr]
    by (auto simp: p r pres_next_def pres_entries_def next_token_small psub_addr_def)
  show "pres_next (snd (channel_presence_subscribe ok a ch)) = pres_next ch \<and>
      pres_entries (snd (channel_presence_subscribe ok a ch)) = pres_entries ch"
    if "fst (channel_presence_subscribe ok a ch) \<le> 0" "0 < pres_next ch"
    using that tables by (auto simp: p r pres_next_def pres_entries_def)
  show "pres_next (channel_presence_unsubscribe t ch) = pres_next ch \<and>
      (pres_entries (channel_presence_unsubscribe t ch) = pres_entries ch \<and> (t \<le> 0 \<or> t \<notin> fst ` set_mset (pres_entries ch)) \<or>
       (\<exists>a. 0 < t \<and> pres_entries ch = add_mset (t, a) (pres_entries (channel_presence_unsubscribe t ch))))"
  proof (cases "ch_pres ch")
    case None
    have "pairs_of psub_token psub_addr (replicate n no_sub) = {#}" for n by (simp add: pairs_of_def no_sub_def)
    then show ?thesis using None
      by (simp add: channel_presence_unsubscribe_def pres_entries_def pres_next_def pres_tables_def presence_init_def)
  next
    case (Some ps)
    show ?thesis
    proof (cases "first_index (\<lambda>s. psub_token s = t) (ps_subs ps)")
      case None
      then have "t \<notin> fst ` set_mset (pres_entries ch)"
        using Some by (auto simp: pres_entries_def pres_tables_def Let_def pairs_of_keys first_index_None)
      moreover have "channel_presence_unsubscribe t ch = ch"
        using None Some by (simp add: channel_presence_unsubscribe_def presence_unsubscribe_def)
      ultimately show ?thesis by simp
    next
      case i: (Some i)
      then show ?thesis using Some pairs_of_remove [OF i, of no_sub psub_addr]
        by (auto simp: channel_presence_unsubscribe_def presence_unsubscribe_def pres_entries_def pres_next_def
            pres_tables_def no_sub_def)
    qed
  qed
qed

section \<open>Objects and their owners\<close>

fun dead_fault :: "cpp_fault \<Rightarrow> bool" where
  "dead_fault (Call_Dead a) = True"
| "dead_fault (Free_Dead a) = True"
| "dead_fault (Free_Running a) = False"

text \<open>The objects on the heap are those in \<open>A\<close>, each once.\<close>

definition heap_ok :: "(nat \<times> nat) list \<Rightarrow> nat \<Rightarrow> nat multiset \<Rightarrow> cpp_fault list \<Rightarrow> bool" where
  "heap_ok heap n A faults \<longleftrightarrow> mset (map fst heap) = A \<and> distinct (map fst heap) \<and>
     (\<forall>a \<in># A. 0 < a \<and> a < n) \<and> 0 < n \<and> (\<forall>x \<in> set faults. \<not> dead_fault x)"

lemma delete_absent: "k \<notin> fst ` set al \<Longrightarrow> AList.delete k al = al"
  by (force simp: AList.delete_eq filter_id_conv)

lemma mset_delete_Some:
  "distinct (map fst al) \<Longrightarrow> map_of al k = Some v \<Longrightarrow> mset al = add_mset (k, v) (mset (AList.delete k al))"
  by (induction al) (auto simp: delete_absent split: if_splits)

lemma heap_ok_fresh: "heap_ok heap n A faults \<Longrightarrow> n \<notin> fst ` set heap"
  unfolding heap_ok_def by fastforce

lemma heap_ok_new:
  assumes "heap_ok heap n A faults"
  shows "heap_ok ((n, fn) # heap) (n + 1) (add_mset n A) faults" "heap_ok heap (n + 1) A (Free_Running x # faults)"
    "heap_ok heap (n + 1) A faults"
  using assms heap_ok_fresh [OF assms] by (auto simp: heap_ok_def)

lemma heap_ok_delete:
  assumes h: "heap_ok heap n (add_mset a A) faults"
  shows "map_of heap a \<noteq> None" "heap_ok (AList.delete a heap) n A faults"
    "heap_ok (AList.delete a heap) n A (Free_Running x # faults)"
proof -
  have "a \<in># mset (map fst heap)" and d: "distinct (map fst heap)"
    using h unfolding heap_ok_def by (metis union_single_eq_member, blast)
  then have "a \<in> fst ` set heap" by simp
  then obtain v where v: "map_of heap a = Some v" by (metis map_of_eq_None_iff option.exhaust)
  then show "map_of heap a \<noteq> None" by simp
  have "mset (map fst heap) = add_mset a (mset (map fst (AList.delete a heap)))"
    using mset_delete_Some [OF d v] by (metis (no_types, lifting) fst_conv image_mset_add_mset mset_map)
  then have "mset (map fst (AList.delete a heap)) = A" using h by (simp add: heap_ok_def)
  then show "heap_ok (AList.delete a heap) n A faults" "heap_ok (AList.delete a heap) n A (Free_Running x # faults)"
    using h d by (auto simp: heap_ok_def distinct_delete)
qed

definition slots_inv :: "cpp_world \<Rightarrow> bool" where
  "slots_inv w \<longleftrightarrow> world_ok w \<and> msg_table.owned (cp_sub_slots (cw_core w)) (cw_ch w) \<and>
     pres_table.owned (cp_pres_slots (cw_core w)) (cw_ch w) \<and>
     heap_ok (cp_heap (cw_core w)) (cp_next (cw_core w))
       (mset (map snd (cp_sub_slots (cw_core w))) + mset (map snd (cp_pres_slots (cw_core w)))) (cp_faults (cw_core w)) \<and>
     ch_next_token (cw_ch w) \<le> int (cp_next (cw_core w)) \<and> pres_next (cw_ch w) \<le> int (cp_next (cw_core w))"

text \<open>The invariant, as long as fewer than \<open>2\<^sup>3\<^sup>1\<close> objects were made; each token belongs to an object, so no
  token counter has wrapped.\<close>

definition slots_ok :: "cpp_world \<Rightarrow> bool" where
  "slots_ok w \<longleftrightarrow> (cp_next (cw_core w) < 2 ^ 31 \<longrightarrow> slots_inv w)"

lemma owned_tables:
  assumes "tables ch' = tables ch"
  shows "msg_table.owned S ch' = msg_table.owned S ch" "pres_table.owned P ch' = pres_table.owned P ch"
    "ch_next_token ch' = ch_next_token ch" "pres_next ch' = pres_next ch"
  using assms by (simp_all add: tables_def msg_table.owned_def pres_table.owned_def sub_entries_def pres_entries_def
      pres_next_def)

lemma cpp_part:
  assumes "rt_core.more (c' :: cpp_core) = rt_core.more (c :: cpp_core)"
  shows "cp_heap c' = cp_heap c" "cp_next c' = cp_next c" "cp_sub_slots c' = cp_sub_slots c"
    "cp_pres_slots c' = cp_pres_slots c" "cp_faults c' = cp_faults c" "cp_running c' = cp_running c"
  using assms by (cases c, cases c', simp)+

lemma slots_ok_cong:
  assumes "slots_ok w" "world_ok w \<Longrightarrow> world_ok w'" "world_ok w \<Longrightarrow> tables (cw_ch w') = tables (cw_ch w)"
    and p: "rt_core.more (cw_core w') = rt_core.more (cw_core w)"
  shows "slots_ok w'"
  using assms(1-3) owned_tables [of "cw_ch w'" "cw_ch w"] cpp_part [OF p]
  by (auto simp: slots_ok_def slots_inv_def)

lemma core_quiet_more: "core_quiet c c' \<Longrightarrow> rt_core.more c' = rt_core.more c"
  unfolding core_quiet_def by (metis rt_core.select_convs(7) rt_core.surjective rt_core.update_convs(2,3))

interpretation slots: chan_preserved slots_ok "\<lambda>op. \<not> subscribes op"
proof
  fix w :: cpp_world
  show "slots_ok w \<Longrightarrow> slots_ok (set_state_locked s r w)" for s r
    by (rule slots_ok_cong [of w]) (auto simp: wf.state_law set_state_locked_ch tables_def)
  show "slots_ok w \<Longrightarrow> quiet (cw_ch w) ch \<Longrightarrow> slots_ok (w\<lparr>cw_ch := ch\<rparr>)" for ch
    by (rule slots_ok_cong [of w]) (auto simp: wf.quiet_law quiet_def world_ok_def resub_def)
  show "slots_ok w \<Longrightarrow> core_quiet (cw_core w) c \<Longrightarrow> slots_ok (w\<lparr>cw_core := c\<rparr>)" for c
    by (rule slots_ok_cong [of w]) (auto simp: wf.core_law core_quiet_more)
  show "slots_ok w \<Longrightarrow> \<not> is_state_event e \<Longrightarrow> slots_ok (emit [e] w)" for e
    by (rule slots_ok_cong [of w]) (auto simp: emit_def world_ok_def)
  show "slots_ok w \<Longrightarrow> slots_ok (set_ch (channel_set_state_cb cb) w)" for cb
    by (rule slots_ok_cong [of w])
      (auto simp: set_ch_def channel_set_state_cb_def world_ok_def chan_inv_state tables_def)
qed simp_all

text \<open>The calls of the C library leave the C++ part alone.\<close>

interpretation part: chan_preserved "\<lambda>w :: cpp_world. rt_core.more (cw_core w) = m" any_op
proof
  fix w :: cpp_world
  show "rt_core.more (cw_core w) = m \<Longrightarrow> core_quiet (cw_core w) c \<Longrightarrow> rt_core.more (cw_core (w\<lparr>cw_core := c\<rparr>)) = m" for c
    by (simp add: core_quiet_more)
qed (simp_all add: emit_def set_ch_def)

lemma chan_api_part:
  fixes w :: cpp_world
  shows "rt_core.more (cw_core (chan_api lib op w)) = rt_core.more (cw_core w)"
  by (rule part.api_law) (simp_all add: any_op_def)

section \<open>Subscribing and unsubscribing\<close>

text \<open>The core after an object was made and filed, or made and deleted again.\<close>

definition core_new :: "nat \<Rightarrow> cpp_core \<Rightarrow> cpp_core" where
  "core_new fn c = c\<lparr>cp_heap := (cp_next c, fn) # cp_heap c, cp_next := cp_next c + 1\<rparr>"

definition core_dropped :: "nat \<Rightarrow> cpp_core \<Rightarrow> cpp_core" where
  "core_dropped a c = c\<lparr>cp_heap := AList.delete a (cp_heap c),
     cp_faults := (if a \<in> set (cp_running c) then Free_Running a # cp_faults c else cp_faults c)\<rparr>"

lemma slot_delete_core:
  "map_of (cp_heap (cw_core w)) a \<noteq> None \<Longrightarrow> slot_delete a w = w\<lparr>cw_core := core_dropped a (cw_core w)\<rparr>"
  by (auto simp: slot_delete_def core_dropped_def set_core_def cpp_fault_def)

lemma slot_new_core: "slot_new fn w = (cp_next (cw_core w), w\<lparr>cw_core := core_new fn (cw_core w)\<rparr>)"
  by (simp add: slot_new_def core_new_def set_core_def Let_def)

lemma core_changed [simp]:
  "cp_next (core_new fn c) = cp_next c + 1" "cp_heap (core_new fn c) = (cp_next c, fn) # cp_heap c"
  "cp_sub_slots (core_new fn c) = cp_sub_slots c" "cp_pres_slots (core_new fn c) = cp_pres_slots c"
  "cp_faults (core_new fn c) = cp_faults c" "core_inv (core_new fn c) = core_inv c"
  "cp_next (core_dropped a c) = cp_next c" "cp_heap (core_dropped a c) = AList.delete a (cp_heap c)"
  "cp_sub_slots (core_dropped a c) = cp_sub_slots c" "cp_pres_slots (core_dropped a c) = cp_pres_slots c"
  "core_inv (core_dropped a c) = core_inv c"
  "core_inv (c\<lparr>cp_sub_slots := S\<rparr>) = core_inv c" "core_inv (c\<lparr>cp_pres_slots := P\<rparr>) = core_inv c"
  by (simp_all add: core_new_def core_dropped_def core_inv_def)

lemma heap_ok_dropped:
  assumes "heap_ok (cp_heap c) n (add_mset a A) (cp_faults c)"
  shows "heap_ok (cp_heap (core_dropped a c)) n A (cp_faults (core_dropped a c))"
  using heap_ok_delete [OF assms] by (simp add: core_dropped_def)

lemma heap_ok_new_dropped:
  assumes "heap_ok (cp_heap c) (cp_next c) A (cp_faults c)"
  shows "heap_ok (cp_heap (core_dropped (cp_next c) (core_new fn c))) (cp_next c + 1) A
    (cp_faults (core_dropped (cp_next c) (core_new fn c)))"
  using heap_ok_new(1) [OF assms, of fn] by (intro heap_ok_dropped) simp

lemma cpp_subscribe_eq:
  assumes "channel_subscribe (map_option c_string f) (cp_next (cw_core w)) (cw_ch w) = (t, ch)"
  shows "snd (cpp_subscribe f fn w) = w\<lparr>cw_ch := ch, cw_core :=
    (if t \<le> 0 then core_dropped (cp_next (cw_core w)) (core_new fn (cw_core w))
     else core_new fn (cw_core w)\<lparr>cp_sub_slots := AList.update t (cp_next (cw_core w)) (cp_sub_slots (cw_core w))\<rparr>)\<rparr>"
  using assms by (simp add: cpp_subscribe_def slot_new_core slot_delete_core set_core_def)

lemma cpp_subscribe_presence_eq:
  assumes "channel_presence_subscribe ok (cp_next (cw_core w)) (cw_ch w) = (t, ch)"
  shows "snd (cpp_subscribe_presence ok fn w) = w\<lparr>cw_ch := ch, cw_core :=
    (if t \<le> 0 then core_dropped (cp_next (cw_core w)) (core_new fn (cw_core w))
     else core_new fn (cw_core w)\<lparr>cp_pres_slots := AList.update t (cp_next (cw_core w)) (cp_pres_slots (cw_core w))\<rparr>)\<rparr>"
  using assms by (simp add: cpp_subscribe_presence_def slot_new_core slot_delete_core set_core_def)

text \<open>The tables of one kind do not see the subscriptions of the other.\<close>

lemma other_table:
  "pres_table.owned P (snd (channel_subscribe f a ch)) = pres_table.owned P ch"
  "pres_next (snd (channel_subscribe f a ch)) = pres_next ch"
  "pres_table.owned P (snd (channel_unsubscribe t ch)) = pres_table.owned P ch"
  "pres_next (snd (channel_unsubscribe t ch)) = pres_next ch"
  "msg_table.owned S (snd (channel_presence_subscribe ok a ch)) = msg_table.owned S ch"
  "ch_next_token (snd (channel_presence_subscribe ok a ch)) = ch_next_token ch"
  "msg_table.owned S (channel_presence_unsubscribe t ch) = msg_table.owned S ch"
  "ch_next_token (channel_presence_unsubscribe t ch) = ch_next_token ch"
  by (simp_all add: msg_table.owned_def pres_table.owned_def sub_entries_def pres_entries_def pres_next_def
      channel_subscribe_def channel_unsubscribe_def channel_presence_subscribe_def channel_presence_unsubscribe_def
      ensure_pres_def presence_subscribe_def Let_def case_prod_beta split: option.split)

lemma slots_subscribe: "slots_ok w \<Longrightarrow> slots_ok (snd (cpp_subscribe f fn w))"
proof -
  assume ok: "slots_ok w"
  let ?c = "cw_core w" and ?f = "map_option c_string f"
  obtain t ch where r: "channel_subscribe ?f (cp_next ?c) (cw_ch w) = (t, ch)" by fastforce
  have snd_r: "ch = snd (channel_subscribe ?f (cp_next ?c) (cw_ch w))"
    "t = fst (channel_subscribe ?f (cp_next ?c) (cw_ch w))" using r by simp_all
  show ?thesis unfolding slots_ok_def cpp_subscribe_eq [OF r]
  proof
    assume "cp_next (cw_core (w\<lparr>cw_ch := ch, cw_core := (if t \<le> 0 then core_dropped (cp_next ?c) (core_new fn ?c)
      else core_new fn ?c\<lparr>cp_sub_slots := AList.update t (cp_next ?c) (cp_sub_slots ?c)\<rparr>)\<rparr>)) < 2 ^ 31"
    then have n: "cp_next ?c + 1 < 2 ^ 31" by (simp split: if_splits)
    then have inv: "slots_inv w" using ok by (simp add: slots_ok_def)
    have ch: "chan_inv ch" using inv resub_subscribe [of "cw_ch w" ?f "cp_next ?c"] snd_r(1)
      by (simp add: slots_inv_def world_ok_def resub_def)
    show "slots_inv (w\<lparr>cw_ch := ch, cw_core := (if t \<le> 0 then core_dropped (cp_next ?c) (core_new fn ?c)
      else core_new fn ?c\<lparr>cp_sub_slots := AList.update t (cp_next ?c) (cp_sub_slots ?c)\<rparr>)\<rparr>)"
    proof (cases "t \<le> 0")
      case True
      then show ?thesis
        using inv ch msg_table.owned_add_fails [of "cp_sub_slots ?c" "cw_ch w" ?f "cp_next ?c"] heap_ok_new_dropped [of ?c]
        by (simp add: slots_inv_def world_ok_def other_table snd_r)
    next
      case False
      moreover have "ch_next_token (cw_ch w) < 2 ^ 31 - 1" using inv n by (simp add: slots_inv_def)
      ultimately show ?thesis
        using inv ch msg_table.owned_add [of "cp_sub_slots ?c" "cw_ch w" ?f "cp_next ?c", folded snd_r] heap_ok_new(1)
        by (simp add: slots_inv_def world_ok_def other_table snd_r(1) [symmetric])
          (simp add: snd_r(1) other_table)
    qed
  qed
qed

lemma slots_subscribe_presence: "slots_ok w \<Longrightarrow> slots_ok (snd (cpp_subscribe_presence ok fn w))"
proof -
  assume sok: "slots_ok w"
  let ?c = "cw_core w"
  obtain t ch where r: "channel_presence_subscribe ok (cp_next ?c) (cw_ch w) = (t, ch)" by fastforce
  have snd_r: "ch = snd (channel_presence_subscribe ok (cp_next ?c) (cw_ch w))"
    "t = fst (channel_presence_subscribe ok (cp_next ?c) (cw_ch w))" using r by simp_all
  show ?thesis unfolding slots_ok_def cpp_subscribe_presence_eq [OF r]
  proof
    assume "cp_next (cw_core (w\<lparr>cw_ch := ch, cw_core := (if t \<le> 0 then core_dropped (cp_next ?c) (core_new fn ?c)
      else core_new fn ?c\<lparr>cp_pres_slots := AList.update t (cp_next ?c) (cp_pres_slots ?c)\<rparr>)\<rparr>)) < 2 ^ 31"
    then have n: "cp_next ?c + 1 < 2 ^ 31" by (simp split: if_splits)
    then have inv: "slots_inv w" using sok by (simp add: slots_ok_def)
    have ch: "chan_inv ch" using inv resub_pres_subscribe [of "cw_ch w" ok "cp_next ?c"] snd_r(1)
      by (simp add: slots_inv_def world_ok_def resub_def)
    show "slots_inv (w\<lparr>cw_ch := ch, cw_core := (if t \<le> 0 then core_dropped (cp_next ?c) (core_new fn ?c)
      else core_new fn ?c\<lparr>cp_pres_slots := AList.update t (cp_next ?c) (cp_pres_slots ?c)\<rparr>)\<rparr>)"
    proof (cases "t \<le> 0")
      case True
      then show ?thesis
        using inv ch pres_table.owned_add_fails [of "cp_pres_slots ?c" "cw_ch w" ok "cp_next ?c"] heap_ok_new_dropped [of ?c]
        by (simp add: slots_inv_def world_ok_def other_table snd_r)
    next
      case False
      moreover have "pres_next (cw_ch w) < 2 ^ 31 - 1" using inv n by (simp add: slots_inv_def)
      ultimately show ?thesis
        using inv ch pres_table.owned_add [of "cp_pres_slots ?c" "cw_ch w" ok "cp_next ?c", folded snd_r] heap_ok_new(1)
        by (simp add: slots_inv_def world_ok_def other_table snd_r(1) [symmetric])
          (simp add: snd_r(1) other_table)
    qed
  qed
qed

lemma channel_unsubscribe_cases:
  obtains "channel_unsubscribe t ch = (ABLY_ERR_INVALID_ARG, ch)"
  | ch' where "channel_unsubscribe t ch = (ABLY_OK, ch')"
  by (cases "t \<le> 0"; cases "first_index (\<lambda>s. sub_token s = t) (ch_subscribers ch)")
    (simp_all add: channel_unsubscribe_def)

lemma cpp_unsubscribe_eq:
  assumes "channel_unsubscribe t (cw_ch w) = (ABLY_OK, ch)"
  shows "cpp_unsubscribe t w = (Inr (), case map_of (cp_sub_slots (cw_core w)) t of
      None \<Rightarrow> w\<lparr>cw_ch := ch\<rparr>
    | Some a \<Rightarrow> set_core (\<lambda>c. c\<lparr>cp_sub_slots := AList.delete t (cp_sub_slots c)\<rparr>) (slot_delete a (w\<lparr>cw_ch := ch\<rparr>)))"
  using assms by (simp add: cpp_unsubscribe_def cpp_check_def split: option.split)

lemma slots_unsubscribe: "slots_ok w \<Longrightarrow> slots_ok (snd (cpp_unsubscribe t w))"
proof (cases t "cw_ch w" rule: channel_unsubscribe_cases)
  case 1
  assume "slots_ok w"
  then show ?thesis using 1 by (simp add: cpp_unsubscribe_def cpp_check_def)
next
  case (2 ch)
  assume ok: "slots_ok w"
  let ?c = "cw_core w"
  have ch: "ch = snd (channel_unsubscribe t (cw_ch w))" using 2 by simp
  have next_eq: "cp_next (cw_core (snd (cpp_unsubscribe t w))) = cp_next ?c"
    by (auto simp: cpp_unsubscribe_eq [OF 2] set_core_def slot_delete_def cpp_fault_def split: option.split)
  show ?thesis unfolding slots_ok_def next_eq
  proof
    assume "cp_next ?c < 2 ^ 31"
    then have inv: "slots_inv w" using ok by (simp add: slots_ok_def)
    have cinv: "chan_inv ch" using inv resub_unsubscribe [of "cw_ch w" t] ch
      by (simp add: slots_inv_def world_ok_def resub_def)
    note o = msg_table.owned_remove [of "cp_sub_slots ?c" "cw_ch w" t, folded ch]
    have d: "distinct (map fst (cp_sub_slots ?c))" using inv by (simp add: slots_inv_def msg_table.owned_def)
    show "slots_inv (snd (cpp_unsubscribe t w))"
    proof (cases "map_of (cp_sub_slots ?c) t")
      case None
      then have "AList.delete t (cp_sub_slots ?c) = cp_sub_slots ?c"
        by (intro delete_absent) (simp add: map_of_eq_None_iff)
      then show ?thesis using inv o cinv None
        by (simp add: slots_inv_def world_ok_def cpp_unsubscribe_eq [OF 2] other_table ch)
    next
      case (Some a)
      have m: "mset (map snd (cp_sub_slots ?c)) = add_mset a (mset (map snd (AList.delete t (cp_sub_slots ?c))))"
        using mset_delete_Some [OF d Some] by (metis (no_types, lifting) image_mset_add_mset mset_map snd_conv)
      have h: "heap_ok (cp_heap ?c) (cp_next ?c) (add_mset a (mset (map snd (AList.delete t (cp_sub_slots ?c))) +
          mset (map snd (cp_pres_slots ?c)))) (cp_faults ?c)"
        using inv unfolding slots_inv_def m by simp
      have "map_of (cp_heap ?c) a \<noteq> None" using heap_ok_delete(1) [OF h] .
      then show ?thesis using inv o cinv Some heap_ok_dropped [OF h]
        by (simp add: slots_inv_def world_ok_def cpp_unsubscribe_eq [OF 2] slot_delete_core set_core_def other_table ch)
    qed
  qed
qed

lemma slots_unsubscribe_presence: "slots_ok w \<Longrightarrow> slots_ok (cpp_unsubscribe_presence t w)"
proof -
  assume ok: "slots_ok w"
  let ?c = "cw_core w" and ?ch = "channel_presence_unsubscribe t (cw_ch w)"
  have next_eq: "cp_next (cw_core (cpp_unsubscribe_presence t w)) = cp_next ?c"
    by (auto simp: cpp_unsubscribe_presence_def Let_def set_core_def slot_delete_def cpp_fault_def split: option.split)
  show ?thesis unfolding slots_ok_def next_eq
  proof
    assume "cp_next ?c < 2 ^ 31"
    then have inv: "slots_inv w" using ok by (simp add: slots_ok_def)
    have cinv: "chan_inv ?ch" using inv resub_pres_unsubscribe [of "cw_ch w" t]
      by (simp add: slots_inv_def world_ok_def resub_def)
    note o = pres_table.owned_remove [of "cp_pres_slots ?c" "cw_ch w" t]
    have d: "distinct (map fst (cp_pres_slots ?c))" using inv by (simp add: slots_inv_def pres_table.owned_def)
    show "slots_inv (cpp_unsubscribe_presence t w)"
    proof (cases "map_of (cp_pres_slots ?c) t")
      case None
      then have "AList.delete t (cp_pres_slots ?c) = cp_pres_slots ?c"
        by (intro delete_absent) (simp add: map_of_eq_None_iff)
      then show ?thesis using inv o cinv None
        by (simp add: slots_inv_def world_ok_def cpp_unsubscribe_presence_def Let_def other_table)
    next
      case (Some a)
      have m: "mset (map snd (cp_pres_slots ?c)) = add_mset a (mset (map snd (AList.delete t (cp_pres_slots ?c))))"
        using mset_delete_Some [OF d Some] by (metis (no_types, lifting) image_mset_add_mset mset_map snd_conv)
      have h: "heap_ok (cp_heap ?c) (cp_next ?c) (add_mset a (mset (map snd (cp_sub_slots ?c)) +
          mset (map snd (AList.delete t (cp_pres_slots ?c))))) (cp_faults ?c)"
        using inv unfolding slots_inv_def m by simp
      have "map_of (cp_heap ?c) a \<noteq> None" using heap_ok_delete(1) [OF h] .
      then show ?thesis using inv o cinv Some heap_ok_dropped [OF h]
        by (simp add: slots_inv_def world_ok_def cpp_unsubscribe_presence_def Let_def slot_delete_core set_core_def
            other_table)
    qed
  qed
qed

section \<open>Every call and every callback\<close>

text \<open>The methods that only forward.\<close>

fun forwarded :: "cpp_op \<Rightarrow> chan_op option" where
  "forwarded Cpp_Attach = Some Op_Attach"
| "forwarded Cpp_Detach = Some Op_Detach"
| "forwarded (Cpp_Enable_Delta ok) = Some (Op_Enable_Delta ok)"
| "forwarded (Cpp_Publish n d) = Some (Op_Publish (Some (c_string n)) (Some (c_string d)))"
| "forwarded (Cpp_Publish_With_Id n d i) =
     Some (Op_Publish_Id (Some (c_string n)) (Some (c_string d)) (Some (c_string i)))"
| "forwarded (Cpp_Set_Rewind r) = Some (Op_Set_Rewind r)"
| "forwarded (Cpp_Set_Modes m) = Some (Op_Set_Modes m)"
| "forwarded (Cpp_Set_Options r m) = Some (Op_Set_Options r m)"
| "forwarded (Cpp_Set_Occupancy_Listener cb) = Some (Op_Set_Occupancy cb)"
| "forwarded (Cpp_Enter_Presence ok c d) = Some (Op_Enter ok (Some (c_string c)) (cpp_data d))"
| "forwarded (Cpp_Leave_Presence c d) = Some (Op_Leave (cpp_data d))"
| "forwarded (Cpp_Update_Presence d) = Some (Op_Update (cpp_data d))"
| "forwarded _ = None"

lemma forwarded_api:
  "forwarded op = Some o' \<Longrightarrow> cpp_api lib op w = chan_api lib o' w \<and> \<not> subscribes o'"
  by (cases op) (auto simp: cpp_attach_def cpp_detach_def cpp_enable_delta_def cpp_publish_def cpp_publish_with_id_def
      cpp_set_rewind_def cpp_set_modes_def cpp_set_options_def cpp_set_occupancy_listener_def cpp_enter_presence_def
      cpp_leave_presence_def cpp_update_presence_def checked_def set_ch_def case_prod_beta)

lemma set_state_callback_parts:
  "cp_next (cw_core (cpp_set_state_callback fn w)) = cp_next (cw_core w)"
  "cp_heap (cw_core (cpp_set_state_callback fn w)) = cp_heap (cw_core w)"
  "slots_ok (cpp_set_state_callback fn w) = slots_ok w"
proof -
  show "cp_next (cw_core (cpp_set_state_callback fn w)) = cp_next (cw_core w)"
    "cp_heap (cw_core (cpp_set_state_callback fn w)) = cp_heap (cw_core w)"
    by (simp_all add: cpp_set_state_callback_def set_ch_def set_core_def)
  have "tables (channel_set_state_cb cb ch) = tables ch" "chan_inv (channel_set_state_cb cb ch) = chan_inv ch" for cb ch
    by (simp_all add: tables_def channel_set_state_cb_def chan_inv_state)
  then show "slots_ok (cpp_set_state_callback fn w) = slots_ok w"
    using owned_tables [of "channel_set_state_cb CPP_STATE_CB (cw_ch w)" "cw_ch w"]
    by (simp add: slots_ok_def slots_inv_def cpp_set_state_callback_def set_ch_def set_core_def world_ok_def core_inv_def)
qed

lemma slots_api: "slots_ok w \<Longrightarrow> slots_ok (cpp_api lib op w)"
proof (cases "forwarded op")
  case None
  assume "slots_ok w"
  with None show ?thesis
    by (cases op) (auto simp: set_state_callback_parts
        intro: slots_subscribe slots_unsubscribe slots_subscribe_presence slots_unsubscribe_presence)
next
  case (Some o')
  assume "slots_ok w"
  then show ?thesis using forwarded_api [OF Some, of lib w] slots.api_law by simp
qed

lemma slot_delete_next [simp]: "cp_next (cw_core (slot_delete a w)) = cp_next (cw_core w)"
  by (simp add: slot_delete_def set_core_def cpp_fault_def)

lemma api_next: "cp_next (cw_core w) \<le> cp_next (cw_core (cpp_api lib op w))"
proof (cases "forwarded op")
  case None
  then show ?thesis
    by (cases op) (auto simp: set_state_callback_parts cpp_subscribe_def cpp_subscribe_presence_def cpp_unsubscribe_def
        cpp_unsubscribe_presence_def slot_new_core set_core_def Let_def case_prod_beta split: option.split sum.split)
next
  case (Some o')
  then show ?thesis using forwarded_api [OF Some, of lib w] cpp_part(2) [OF chan_api_part] by simp
qed

fun unsubscribes :: "cpp_op \<Rightarrow> bool" where
  "unsubscribes (Cpp_Unsubscribe t) = True"
| "unsubscribes (Cpp_Unsubscribe_Presence t) = True"
| "unsubscribes _ = False"

text \<open>Calls that unsubscribe nothing keep every object alive.\<close>

lemma api_keeps:
  assumes "slots_inv w" "\<not> unsubscribes op" and a: "map_of (cp_heap (cw_core w)) a = Some fn"
  shows "map_of (cp_heap (cw_core (cpp_api lib op w))) a = Some fn"
proof (cases "forwarded op")
  case (Some o')
  then show ?thesis using forwarded_api [OF Some, of lib w] cpp_part(1) [OF chan_api_part] a by simp
next
  case None
  have fresh: "cp_next (cw_core w) \<notin> fst ` set (cp_heap (cw_core w))"
    using assms(1) heap_ok_fresh unfolding slots_inv_def by blast
  then have "a \<noteq> cp_next (cw_core w)" using a by (force dest: map_of_SomeD)
  then have "map_of (cp_heap (core_new g (cw_core w))) a = Some fn"
    "map_of (cp_heap (core_dropped (cp_next (cw_core w)) (core_new g (cw_core w)))) a = Some fn" for g
    using a by (simp_all add: delete_conv')
  note kept = this
  have "map_of (cp_heap (cw_core (snd (cpp_subscribe f g w)))) a = Some fn" for f g
    using kept cpp_subscribe_eq [OF surjective_pairing, where f = f and w = w and fn = g] by simp
  moreover have "map_of (cp_heap (cw_core (snd (cpp_subscribe_presence ok g w)))) a = Some fn" for ok g
    using kept cpp_subscribe_presence_eq [OF surjective_pairing, where ok = ok and w = w and fn = g] by simp
  ultimately show ?thesis using None assms(2) a by (cases op) (simp_all add: set_state_callback_parts)
qed

lemma slots_running [simp]:
  "slots_ok (set_core (\<lambda>c. c\<lparr>cp_running := f c\<rparr>) w) = slots_ok w"
  "cp_next (cw_core (set_core (\<lambda>c. c\<lparr>cp_running := f c\<rparr>) w)) = cp_next (cw_core w)"
  by (simp_all add: slots_ok_def slots_inv_def set_core_def world_ok_def core_inv_def)

lemma slots_fold: "slots_ok w \<Longrightarrow> slots_ok (fold (cpp_api lib) ops w)"
  by (induction ops arbitrary: w) (auto intro: slots_api)

lemma fold_next: "cp_next (cw_core w) \<le> cp_next (cw_core (fold (cpp_api lib) ops w))"
proof (induction ops arbitrary: w)
  case (Cons op ops)
  then show ?case using api_next [of w lib op] order_trans by fastforce
qed simp

lemma fold_keeps:
  "slots_ok w \<Longrightarrow> list_all (\<lambda>op. \<not> unsubscribes op) ops \<Longrightarrow> map_of (cp_heap (cw_core w)) a = Some fn \<Longrightarrow>
   cp_next (cw_core (fold (cpp_api lib) ops w)) < 2 ^ 31 \<Longrightarrow>
   map_of (cp_heap (cw_core (fold (cpp_api lib) ops w))) a = Some fn"
proof (induction ops arbitrary: w)
  case (Cons op ops)
  have "cp_next (cw_core w) < 2 ^ 31" using Cons.prems(4) fold_next [of w lib "op # ops"] by linarith
  then have "slots_inv w" using Cons.prems(1) by (simp add: slots_ok_def)
  then have "map_of (cp_heap (cw_core (cpp_api lib op w))) a = Some fn" using Cons.prems by (intro api_keeps) simp_all
  then show ?case using Cons slots_api [OF Cons.prems(1)] by simp
qed simp

lemma heap_address:
  assumes "slots_inv w"
  shows "fst ` set (cp_heap (cw_core w)) = snd ` set_mset (sub_entries (cw_ch w)) \<union> snd ` set_mset (pres_entries (cw_ch w))"
proof -
  have "mset (map fst (cp_heap (cw_core w))) =
      image_mset snd (sub_entries (cw_ch w)) + image_mset snd (pres_entries (cw_ch w))"
    using assms by (simp add: slots_inv_def heap_ok_def msg_table.owned_def pres_table.owned_def)
  from arg_cong [OF this, of set_mset] show ?thesis by simp
qed

lemma active_alive:
  assumes "slots_inv w" "active a w"
  shows "\<exists>fn. map_of (cp_heap (cw_core w)) a = Some fn"
proof -
  have "length (ch_subscribers (cw_ch w)) = ABLY_MAX_SUBSCRIBERS_PER_CHANNEL"
    using assms(1) by (simp add: slots_inv_def world_ok_def chan_inv_def)
  then obtain s where "s \<in> set (ch_subscribers (cw_ch w))" "sub_token s \<noteq> 0" "sub_cb s = a"
    using assms(2) nth_mem unfolding active_def by metis
  then have "a \<in> snd ` set_mset (sub_entries (cw_ch w))" by (force simp: sub_entries_def pairs_of_def)
  then have "a \<in> fst ` set (cp_heap (cw_core w))" using heap_address [OF assms(1)] by blast
  then show ?thesis by (metis map_of_eq_None_iff option.exhaust)
qed

lemma slots_env:
  assumes others: "\<forall>s m. list_all (\<lambda>op. \<not> unsubscribes op) (others s m)" and ok: "slots_ok w" and act: "active a w"
  shows "slots_ok (cpp_env lib others script a msg w)"
proof -
  let ?w1 = "fold (cpp_api lib) (others a msg) w"
  have 1: "slots_ok ?w1" by (rule slots_fold [OF ok])
  show ?thesis
  proof (cases "map_of (cp_heap (cw_core ?w1)) a")
    case (Some fn)
    then show ?thesis using 1 by (simp add: cpp_env_def dispatch_msg_cb_def slots_fold)
  next
    case None
    have "\<not> cp_next (cw_core ?w1) < 2 ^ 31"
    proof
      assume n: "cp_next (cw_core ?w1) < 2 ^ 31"
      then have "cp_next (cw_core w) < 2 ^ 31" using fold_next [of w lib "others a msg"] by linarith
      then have "slots_inv w" using ok by (simp add: slots_ok_def)
      from active_alive [OF this act] obtain fn where "map_of (cp_heap (cw_core w)) a = Some fn" by blast
      then show False using fold_keeps [OF ok _ _ n] others None by simp
    qed
    then show ?thesis using None by (simp add: cpp_env_def dispatch_msg_cb_def slots_ok_def cpp_fault_def set_core_def)
  qed
qed

lemma slots_step:
  assumes step: "cpp_step lib others script w w'" and others: "\<forall>s m. list_all (\<lambda>op. \<not> unsubscribes op) (others s m)"
    and ok: "slots_ok w"
  shows "slots_ok w'"
  using step
proof cases
  case (cpp_call op)
  then show ?thesis using slots_api ok by simp
next
  case (cpp_frame f rest)
  then show ?thesis using slots.frame_law [OF slots_env [OF others] ok] by simp
next
  case cpp_disconnect
  then show ?thesis using slots.disconnect_law ok by simp
next
  case cpp_reattach
  then show ?thesis using slots.attaching_law ok by simp
next
  case (cpp_client s r n i)
  then show ?thesis using ok by (simp add: slots_ok_def slots_inv_def world_ok_def)
qed

text \<open>A channel object when it is made.\<close>

definition cpp_channel_new :: "channel \<Rightarrow> rt_core \<Rightarrow> cpp_world" where
  "cpp_channel_new ch c = \<lparr>cw_ch = ch, cw_core = rt_core.extend c (cpp_core.fields [] 1 [] [] 0 [] []), cw_events = []\<rparr>"

lemma cpp_channel_new_ok: "core_inv c \<Longrightarrow> slots_ok (cpp_channel_new (channel_create name) c)"
proof -
  assume "core_inv c"
  then have "core_inv (cw_core (cpp_channel_new (channel_create name) c))"
    by (simp add: core_inv_def cpp_channel_new_def rt_core.defs)
  moreover have "pairs_of sub_token sub_cb (replicate n free_subscriber) = {#}" for n
    by (simp add: pairs_of_def free_subscriber_def)
  moreover have "pairs_of psub_token psub_addr (replicate n no_sub) = {#}" for n by (simp add: pairs_of_def no_sub_def)
  ultimately show ?thesis
    by (simp add: slots_ok_def slots_inv_def world_ok_def cpp_channel_new_def chan_create_inv heap_ok_def
        msg_table.owned_def pres_table.owned_def sub_entries_def pres_entries_def pres_next_def rt_core.defs cpp_core.defs)
      (simp add: channel_create_def pres_tables_simps presence_init_def)
qed

lemma cpp_reach_inv:
  assumes "(cpp_step lib others script)\<^sup>*\<^sup>* (cpp_channel_new (channel_create name) c) w" "core_inv c"
    and "\<forall>s m. list_all (\<lambda>op. \<not> unsubscribes op) (others s m)" "cp_next (cw_core w) < 2 ^ 31"
  shows "slots_inv w"
proof -
  have "slots_ok w" using assms(1)
    by (induction rule: rtranclp_induct) (auto intro: cpp_channel_new_ok assms(2) slots_step [OF _ assms(3)])
  then show ?thesis using assms(4) by (simp add: slots_ok_def)
qed

section \<open>What the class guarantees, and what not\<close>

definition message_addresses :: "channel \<Rightarrow> nat set" where
  "message_addresses ch = sub_cb ` {s \<in> set (ch_subscribers ch). sub_token s \<noteq> 0}"

definition presence_addresses :: "channel \<Rightarrow> nat set" where
  "presence_addresses ch =
     (case ch_pres ch of None \<Rightarrow> {} | Some ps \<Rightarrow> psub_addr ` {s \<in> set (ps_subs ps). psub_token s \<noteq> 0})"

lemma entry_addresses:
  "snd ` set_mset (sub_entries ch) = message_addresses ch"
  "snd ` set_mset (pres_entries ch) = presence_addresses ch"
proof -
  show "snd ` set_mset (sub_entries ch) = message_addresses ch"
    by (auto simp: sub_entries_def pairs_of_def message_addresses_def image_iff)
  have "pres_entries ch = {#}" if "ch_pres ch = None"
    using that by (simp add: pres_entries_def pres_tables_simps presence_init_def pairs_of_def no_sub_def)
  then show "snd ` set_mset (pres_entries ch) = presence_addresses ch"
    by (cases "ch_pres ch") (auto simp: pres_entries_def pres_tables_simps pairs_of_def presence_addresses_def image_iff)
qed

text \<open>C17. A callback object lives exactly as long as its subscription. Whatever the application, its callbacks
  and the service thread do, as long as no other thread unsubscribes while a message is on its way to a
  callback: no deleted object is called, none is deleted twice, and the objects on the heap are those of the
  message and presence subscriptions that the C channel has.\<close>

theorem callback_objects_live_with_subscription:
  assumes "(cpp_step lib others script)\<^sup>*\<^sup>* (cpp_channel_new (channel_create name) c) w" "core_inv c"
    and "\<forall>s m. list_all (\<lambda>op. \<not> unsubscribes op) (others s m)" "cp_next (cw_core w) < 2 ^ 31"
  shows "(\<forall>a. Call_Dead a \<notin> set (cp_faults (cw_core w)) \<and> Free_Dead a \<notin> set (cp_faults (cw_core w))) \<and>
    distinct (map fst (cp_heap (cw_core w))) \<and>
    fst ` set (cp_heap (cw_core w)) = message_addresses (cw_ch w) \<union> presence_addresses (cw_ch w)"
proof -
  have inv: "slots_inv w" by (rule cpp_reach_inv [OF assms])
  then have "\<forall>x \<in> set (cp_faults (cw_core w)). \<not> dead_fault x" by (simp add: slots_inv_def heap_ok_def)
  then have "Call_Dead a \<notin> set (cp_faults (cw_core w)) \<and> Free_Dead a \<notin> set (cp_faults (cw_core w))" for a
    using dead_fault.simps(1,2) by blast
  then show ?thesis using inv heap_address [OF inv] by (auto simp: slots_inv_def heap_ok_def entry_addresses)
qed

definition demo_cpp :: cpp_world where
  "demo_cpp = snd (cpp_subscribe None 7 (cpp_channel_new (channel_create ''chat'') demo_core))"

lemma demo_cpp_reach:
  "(cpp_step lib others script)\<^sup>*\<^sup>* (cpp_channel_new (channel_create ''chat'') demo_core) demo_cpp"
  unfolding demo_cpp_def using cpp_call [of lib others script _ "Cpp_Subscribe None 7"] by (auto simp del: cpp_call)

lemma demo_cpp_eq:
  "demo_cpp = \<lparr>cw_ch = (channel_create ''chat'')\<lparr>ch_next_token := 2,
       ch_subscribers := \<lparr>sub_token = 1, sub_cb = 1, sub_name_filter = []\<rparr> # replicate 31 free_subscriber\<rparr>,
     cw_core = rt_core.extend demo_core (cpp_core.fields [(1, 7)] 2 [(1, 1)] [] 0 [] []), cw_events = []\<rparr>"
proof -
  have "replicate ABLY_MAX_SUBSCRIBERS_PER_CHANNEL free_subscriber = free_subscriber # replicate 31 free_subscriber"
    by (simp add: ABLY_MAX_SUBSCRIBERS_PER_CHANNEL_def replicate_numeral)
  then have "channel_subscribe None 1 (channel_create ''chat'') = (1, (channel_create ''chat'')\<lparr>ch_next_token := 2,
      ch_subscribers := \<lparr>sub_token = 1, sub_cb = 1, sub_name_filter = []\<rparr> # replicate 31 free_subscriber\<rparr>)"
    by (simp add: channel_subscribe_def channel_create_def free_subscriber_def next_token_small Let_def)
  then show ?thesis
    by (simp add: demo_cpp_def cpp_subscribe_def slot_new_def cpp_channel_new_def set_core_def Let_def rt_core.defs cpp_core.defs)
qed

lemma callback_objects_live_with_subscription_witness:
  "fst ` set (cp_heap (cw_core demo_cpp)) = {1} \<and> message_addresses (cw_ch demo_cpp) = {1}"
proof -
  have "cp_next (cw_core demo_cpp) < 2 ^ 31" by (simp add: demo_cpp_eq rt_core.defs cpp_core.defs)
  from callback_objects_live_with_subscription [where lib = no_lib and others = "\<lambda>s m. []" and script = "\<lambda>fn m. []",
      OF demo_cpp_reach demo_core_inv _ this]
  have "fst ` set (cp_heap (cw_core demo_cpp)) = message_addresses (cw_ch demo_cpp) \<union> presence_addresses (cw_ch demo_cpp)"
    by simp
  moreover have "message_addresses (cw_ch demo_cpp) = {1}"
    by (force simp: demo_cpp_eq message_addresses_def free_subscriber_def image_iff)
  moreover have "presence_addresses (cw_ch demo_cpp) = {}"
    by (simp add: demo_cpp_eq presence_addresses_def channel_create_def)
  ultimately show ?thesis by simp
qed

text \<open>The destructor of the class deletes each message object once and no presence object: those of all
  presence subscriptions that are left leak.\<close>

lemma fold_delete:
  assumes "heap_ok (cp_heap (cw_core w)) n (mset as + A) (cp_faults (cw_core w))"
  shows "heap_ok (cp_heap (cw_core (fold slot_delete as w))) n A (cp_faults (cw_core (fold slot_delete as w))) \<and>
    cw_ch (fold slot_delete as w) = cw_ch w"
  using assms
proof (induction as arbitrary: w)
  case (Cons a as)
  let ?w = "w\<lparr>cw_core := core_dropped a (cw_core w)\<rparr>"
  have h: "heap_ok (cp_heap (cw_core w)) n (add_mset a (mset as + A)) (cp_faults (cw_core w))" using Cons.prems by simp
  have "slot_delete a w = ?w" by (rule slot_delete_core [OF heap_ok_delete(1) [OF h]])
  then show ?case using Cons.IH [of ?w] heap_ok_dropped [OF h] by simp
qed simp

theorem destructor_leaks_presence_objects:
  assumes "(cpp_step lib others script)\<^sup>*\<^sup>* (cpp_channel_new (channel_create name) c) w" "core_inv c"
    and "\<forall>s m. list_all (\<lambda>op. \<not> unsubscribes op) (others s m)" "cp_next (cw_core w) < 2 ^ 31"
  shows "fst ` set (cp_heap (cw_core (cpp_destroy w))) = presence_addresses (cw_ch w) \<and>
    (\<forall>a. Free_Dead a \<notin> set (cp_faults (cw_core (cpp_destroy w))))"
proof -
  have inv: "slots_inv w" by (rule cpp_reach_inv [OF assms])
  then have h: "heap_ok (cp_heap (cw_core (cpp_destroy w))) (cp_next (cw_core w)) (mset (map snd (cp_pres_slots (cw_core w))))
      (cp_faults (cw_core (cpp_destroy w)))"
    unfolding cpp_destroy_def slots_inv_def by (intro fold_delete [THEN conjunct1]) blast
  have "set (map fst (cp_heap (cw_core (cpp_destroy w)))) = snd ` set_mset (pres_entries (cw_ch w))"
    using h inv by (metis heap_ok_def mset_map pres_table.owned_def set_image_mset set_mset_mset slots_inv_def)
  moreover have "\<forall>x \<in> set (cp_faults (cw_core (cpp_destroy w))). \<not> dead_fault x" using h by (simp add: heap_ok_def)
  ultimately show ?thesis using entry_addresses(2) dead_fault.simps(2) by (metis list.set_map)
qed

text \<open>\<^verbatim>\<open>getPresenceMembers\<close> yields the members of its second call, cut to the number that the first call
  reported; when the set has grown in between, the rest are zero messages that are no members, and when it
  was empty the answer is empty.\<close>

definition present_of :: "channel \<Rightarrow> ably_presence_message list" where
  "present_of ch = (case ch_pres ch of None \<Rightarrow> [] | Some ps \<Rightarrow> present_members ps)"

theorem presence_members_padded:
  "cpp_get_presence_members ch1 ch2 =
     (if present_of ch1 = [] then []
      else take (length (present_of ch1)) (present_of ch2) @
        replicate (length (present_of ch2) - length (present_of ch1)) zero_presence_message)"
proof -
  have g: "channel_presence_get_members (Some n) ch = (take n (present_of ch), length (present_of ch))"
    "snd (channel_presence_get_members None ch) = length (present_of ch)" for n ch
    by (simp_all add: channel_presence_get_members_def presence_get_members_def present_of_def split: option.split)
  show ?thesis by (auto simp: cpp_get_presence_members_def g Let_def min_def)
qed

lemma destructor_leaks_presence_objects_witness:
  "fst ` set (cp_heap (cw_core (cpp_destroy demo_cpp))) = {}"
proof -
  have "cp_next (cw_core demo_cpp) < 2 ^ 31" by (simp add: demo_cpp_eq rt_core.defs cpp_core.defs)
  from destructor_leaks_presence_objects [where lib = no_lib and others = "\<lambda>s m. []" and script = "\<lambda>fn m. []",
      OF demo_cpp_reach demo_core_inv _ this]
  have "fst ` set (cp_heap (cw_core (cpp_destroy demo_cpp))) = presence_addresses (cw_ch demo_cpp)" by simp
  then show ?thesis by (simp add: demo_cpp_eq presence_addresses_def channel_create_def)
qed

lemma unsubscribe_deletes:
  assumes inv: "slots_inv w" and t: "map_of (cp_sub_slots (cw_core w)) t = Some a"
  shows "cp_heap (cw_core (cpp_api lib (Cpp_Unsubscribe t) w)) = AList.delete a (cp_heap (cw_core w))"
    and "a \<in> set (cp_running (cw_core w)) \<Longrightarrow> Free_Running a \<in> set (cp_faults (cw_core (cpp_api lib (Cpp_Unsubscribe t) w)))"
    and "map_of (cp_heap (cw_core w)) a \<noteq> None"
proof -
  let ?c = "cw_core w"
  have o: "msg_table.owned (cp_sub_slots ?c) (cw_ch w)" using inv by (simp add: slots_inv_def)
  have e: "(t, a) \<in># sub_entries (cw_ch w)" using o map_of_SomeD [OF t] by (simp add: msg_table.owned_def)
  have pos: "0 < t" using o map_of_SomeD [OF t] by (auto simp: msg_table.owned_def)
  have "t \<in> sub_token ` set (ch_subscribers (cw_ch w))" using e by (auto simp: sub_entries_def pairs_of_def)
  then have "\<exists>ch. channel_unsubscribe t (cw_ch w) = (ABLY_OK, ch)"
    using pos by (cases "first_index (\<lambda>s. sub_token s = t) (ch_subscribers (cw_ch w))")
      (auto simp: channel_unsubscribe_def first_index_None)
  then obtain ch where ch: "channel_unsubscribe t (cw_ch w) = (ABLY_OK, ch)" ..
  have "a \<in> fst ` set (cp_heap ?c)"
    using e heap_address [OF inv] by (metis UnI1 image_eqI snd_conv)
  then show h: "map_of (cp_heap ?c) a \<noteq> None" by (simp add: map_of_eq_None_iff)
  have "cpp_api lib (Cpp_Unsubscribe t) w =
      w\<lparr>cw_ch := ch, cw_core := core_dropped a ?c\<lparr>cp_sub_slots := AList.delete t (cp_sub_slots ?c)\<rparr>\<rparr>"
    using h by (simp add: cpp_unsubscribe_eq [OF ch] t slot_delete_core set_core_def)
  then show "cp_heap (cw_core (cpp_api lib (Cpp_Unsubscribe t) w)) = AList.delete a (cp_heap ?c)"
    "a \<in> set (cp_running ?c) \<Longrightarrow> Free_Running a \<in> set (cp_faults (cw_core (cpp_api lib (Cpp_Unsubscribe t) w)))"
    by (simp_all add: core_dropped_def)
qed

text \<open>The two ways a subscription can go wrong. While the library has read a subscriber and not called it
  yet, it holds no lock: when another thread unsubscribes it then, the dispatcher is handed an object that
  has been deleted. And a callback that unsubscribes itself deletes the function object that runs it.\<close>

theorem unsubscribe_during_delivery:
  assumes reach: "(cpp_step lib others script)\<^sup>*\<^sup>* (cpp_channel_new (channel_create name) c) w" "core_inv c"
    "\<forall>s m. list_all (\<lambda>op. \<not> unsubscribes op) (others s m)" "cp_next (cw_core w) < 2 ^ 31"
    and t: "map_of (cp_sub_slots (cw_core w)) t = Some a"
  shows "Call_Dead a \<in> set (cp_faults (cw_core (cpp_env lib (\<lambda>s m. [Cpp_Unsubscribe t]) script a msg w))) \<and>
    Free_Running a \<in> set (cp_faults (cw_core (cpp_env lib (\<lambda>s m. []) (\<lambda>fn m. [Cpp_Unsubscribe t]) a msg w)))"
proof
  have inv: "slots_inv w" by (rule cpp_reach_inv [OF reach])
  show "Call_Dead a \<in> set (cp_faults (cw_core (cpp_env lib (\<lambda>s m. [Cpp_Unsubscribe t]) script a msg w)))"
    using unsubscribe_deletes(1) [OF inv t, of lib]
    by (simp add: cpp_env_def dispatch_msg_cb_def delete_conv' cpp_fault_def set_core_def)
  let ?w = "set_core (\<lambda>c. c\<lparr>cp_running := a # cp_running c\<rparr>) w"
  have "slots_inv ?w" "map_of (cp_sub_slots (cw_core ?w)) t = Some a" "a \<in> set (cp_running (cw_core ?w))"
    using inv t by (simp_all add: slots_inv_def set_core_def world_ok_def core_inv_def)
  from unsubscribe_deletes(2) [OF this]
  show "Free_Running a \<in> set (cp_faults (cw_core (cpp_env lib (\<lambda>s m. []) (\<lambda>fn m. [Cpp_Unsubscribe t]) a msg w)))"
    using unsubscribe_deletes(3) [OF inv t]
    by (auto simp del: cpp_api.simps simp: cpp_env_def dispatch_msg_cb_def set_core_def)
qed

lemma unsubscribe_during_delivery_witness:
  "Call_Dead 1 \<in> set (cp_faults (cw_core (cpp_env no_lib (\<lambda>s m. [Cpp_Unsubscribe 1]) (\<lambda>fn m. []) 1 demo_message demo_cpp)))"
proof -
  have "cp_next (cw_core demo_cpp) < 2 ^ 31" "map_of (cp_sub_slots (cw_core demo_cpp)) 1 = Some 1"
    by (simp_all add: demo_cpp_eq rt_core.defs cpp_core.defs)
  from unsubscribe_during_delivery [where lib = no_lib and others = "\<lambda>s m. []" and script = "\<lambda>fn m. []",
      OF demo_cpp_reach demo_core_inv _ this]
  show ?thesis by simp
qed

end
