(* ===== verification/Ably_Event_Loop.thy ===== *)
theory Ably_Event_Loop
  imports Ably_Realtime_Props
begin

text \<open>
  The client without its service thread: \<^verbatim>\<open>ably_rt_client_connect_async\<close> and \<^verbatim>\<open>ably_rt_step\<close> driven by an event
  loop of the application, and the two programs of \<^verbatim>\<open>examples/\<close> that do it, \<^verbatim>\<open>libuv_glue.c\<close> and
  \<^verbatim>\<open>asio_glue.hpp\<close>. Of the event loops the model has what the programs ask of them: whether the socket is
  watched and which timer runs. Output is not modelled; the message callback only prints.
\<close>

section \<open>The examples\<close>

record glue =
  gl_world :: rt_world
  gl_channel :: nat
  gl_polling :: bool
  gl_timer :: "int option"
  gl_reconnect_ms :: int

text \<open>\<^verbatim>\<open>ctx->reconnect_ms < 30000 ? ctx->reconnect_ms * 2 : 30000\<close>\<close>

definition glue_backoff :: "int \<Rightarrow> int" where
  "glue_backoff ms = (if ms < 30000 then ms * 2 else 30000)"

text \<open>The channel name must have fewer than 256 characters and no failure occur; \<open>None\<close> is the error exit.\<close>

definition glue_create :: "string option \<Rightarrow> string \<Rightarrow> nat \<Rightarrow> glue option" where
  "glue_create api_key channel_name cb =
     (case rt_client_create api_key None of
        None \<Rightarrow> None
      | Some w \<Rightarrow>
          (case rt_channel_get channel_name w of
             (None, w1) \<Rightarrow> None
           | (Some i, w1) \<Rightarrow>
               Some \<lparr>gl_world = on_channel i (set_ch (\<lambda>ch. snd (channel_subscribe None cb ch))) w1, gl_channel = i,
                     gl_polling = False, gl_timer = None, gl_reconnect_ms = 1000\<rparr>))"

definition glue_attach :: "codec_lib \<Rightarrow> nat \<Rightarrow> rt_world \<Rightarrow> rt_world" where
  "glue_attach lib i w = on_channel i (\<lambda>cw. snd (channel_attach lib cw)) w"

text \<open>libuv. A handler that does not return yet, because the handshake waits, is \<open>None\<close>.\<close>

definition uv_do_connect :: "codec_lib \<Rightarrow> conn_env \<Rightarrow> glue \<Rightarrow> glue option" where
  "uv_do_connect lib ce g =
     (case rt_client_connect_async ce (gl_world g) of
        None \<Rightarrow> None
      | Some (err, w1) \<Rightarrow>
          if err \<noteq> ABLY_OK then
            Some (g\<lparr>gl_world := w1, gl_timer := Some (gl_reconnect_ms g),
                    gl_reconnect_ms := glue_backoff (gl_reconnect_ms g)\<rparr>)
          else Some (g\<lparr>gl_world := glue_attach lib (gl_channel g) w1, gl_reconnect_ms := 1000, gl_polling := True\<rparr>))"

definition uv_poll_cb :: "int \<Rightarrow> rt_env \<Rightarrow> recv_ret \<Rightarrow> glue \<Rightarrow> glue" where
  "uv_poll_cb status env r g =
     (if status < 0 then g\<lparr>gl_polling := False, gl_timer := Some (gl_reconnect_ms g)\<rparr>
      else let (rc, w1) = rt_step env r (gl_world g)
           in if rc < 0 then g\<lparr>gl_world := w1, gl_polling := False, gl_timer := Some (gl_reconnect_ms g),
                               gl_reconnect_ms := glue_backoff (gl_reconnect_ms g)\<rparr>
              else g\<lparr>gl_world := w1\<rparr>)"

definition uv_reconnect_timer_cb :: "codec_lib \<Rightarrow> conn_env \<Rightarrow> glue \<Rightarrow> glue option" where
  "uv_reconnect_timer_cb lib ce g = uv_do_connect lib ce (g\<lparr>gl_timer := None\<rparr>)"

text \<open>Asio.\<close>

definition asio_schedule_reconnect :: "glue \<Rightarrow> glue" where
  "asio_schedule_reconnect g =
     g\<lparr>gl_polling := False, gl_timer := Some (gl_reconnect_ms g), gl_reconnect_ms := glue_backoff (gl_reconnect_ms g)\<rparr>"

definition asio_connect :: "codec_lib \<Rightarrow> conn_env \<Rightarrow> glue \<Rightarrow> glue option" where
  "asio_connect lib ce g =
     (case rt_client_connect_async ce (gl_world g) of
        None \<Rightarrow> None
      | Some (err, w1) \<Rightarrow>
          if err \<noteq> ABLY_OK then Some (asio_schedule_reconnect (g\<lparr>gl_world := w1\<rparr>))
          else Some (g\<lparr>gl_world := glue_attach lib (gl_channel g) w1, gl_reconnect_ms := 1000, gl_polling := True\<rparr>))"

definition asio_on_readable :: "bool \<Rightarrow> rt_env \<Rightarrow> recv_ret \<Rightarrow> glue \<Rightarrow> glue" where
  "asio_on_readable ec env r g =
     (if ec then asio_schedule_reconnect g
      else let (rc, w1) = rt_step env r (gl_world g)
           in if rc < 0 then asio_schedule_reconnect (g\<lparr>gl_world := w1\<rparr>) else g\<lparr>gl_world := w1\<rparr>)"

definition asio_on_timer :: "bool \<Rightarrow> codec_lib \<Rightarrow> conn_env \<Rightarrow> glue \<Rightarrow> glue option" where
  "asio_on_timer ec lib ce g =
     (if ec then Some (g\<lparr>gl_timer := None\<rparr>) else asio_connect lib ce (g\<lparr>gl_timer := None\<rparr>))"

text \<open>The events of the two programs.\<close>

inductive glue_step :: "codec_lib \<Rightarrow> glue \<Rightarrow> glue \<Rightarrow> bool" for lib where
  uv_start: "uv_do_connect lib ce g = Some g' \<Longrightarrow> glue_step lib g g'"
| uv_readable: "gl_polling g \<Longrightarrow>
    glue_step lib g (uv_poll_cb status (scripted lib (\<lambda>cb m. []) rest now) r g)"
| uv_timer: "gl_timer g \<noteq> None \<Longrightarrow> uv_reconnect_timer_cb lib ce g = Some g' \<Longrightarrow> glue_step lib g g'"
| asio_start: "asio_connect lib ce g = Some g' \<Longrightarrow> glue_step lib g g'"
| asio_readable: "gl_polling g \<Longrightarrow>
    glue_step lib g (asio_on_readable ec (scripted lib (\<lambda>cb m. []) rest now) r g)"
| asio_timer: "gl_timer g \<noteq> None \<Longrightarrow> asio_on_timer ec lib ce g = Some g' \<Longrightarrow> glue_step lib g g'"

section \<open>A step is a round of the service thread\<close>

lemma recv_network_down:
  "ws_recv_once on_frame r w = (ABLY_ERR_NETWORK, w') \<Longrightarrow> \<not> ws_is_connected (ww_ws w')"
  by (auto simp: ws_recv_once_def ws_is_connected_def set_ws_def Let_def split: if_splits recv_ret.splits)

lemma recv_result: "fst (ws_recv_once on_frame r w) \<in> {ABLY_OK, ABLY_ERR_NETWORK}"
  by (auto simp: ws_recv_once_def Let_def split: recv_ret.splits)

text \<open>C24. The two drivers of a client agree: from the same world, with the same input and no close requested,
  \<^verbatim>\<open>ably_rt_step\<close> changes the world exactly as a round of the service thread does. It answers 1 or -1, never
  the 0 of the documentation; after 1 the thread would go on to its next round, after -1 it would leave its
  loop, at once or because the connection is down when it looks next.\<close>

theorem event_loop_step_is_service_round:
  assumes "\<not> rt_close_requested (rw_client w)"
  shows "snd (rt_step env r w) = snd (svc_loop env r rs w) \<and> fst (rt_step env r w) \<in> {1, -1} \<and>
    (fst (rt_step env r w) = 1 \<longrightarrow> fst (svc_loop env r rs w) = Svc_Loop) \<and>
    (fst (rt_step env r w) = -1 \<longrightarrow>
      fst (svc_loop env r rs w) = Svc_Check \<or> \<not> ws_is_connected (ww_ws (snd (rt_step env r w))))"
proof (cases "ws_is_connected (ww_ws w)")
  case True
  obtain did w1 where d: "rt_drain_ring w = (did, w1)" by fastforce
  obtain err w2 where e: "ws_recv_once (on_ws_frame env) r w1 = (err, w2)" by fastforce
  consider "err = ABLY_OK" | "err = ABLY_ERR_NETWORK" using recv_result [of "on_ws_frame env" r w1] e by auto
  then show ?thesis
    using assms True recv_network_down [of "on_ws_frame env" r w1 w2] e
    by cases (auto simp: rt_step_def svc_loop_def d)
qed (simp add: rt_step_def svc_loop_def)

section \<open>Reconnecting without the thread\<close>

lemma on_channel_same:
  assumes "f \<lparr>cw_ch = rw_channels w ! i, cw_core = rw_client w, cw_events = []\<rparr> =
    \<lparr>cw_ch = rw_channels w ! i, cw_core = rw_client w, cw_events = []\<rparr>"
  shows "on_channel i f w = w"
  using assms by (simp add: on_channel_def)

lemma reattach_none:
  assumes "\<forall>ch \<in> set (rw_channels w). \<not> ch_reattach_pending ch"
  shows "rt_reattach_pending_channels lib w = w"
proof -
  have "fold (\<lambda>i. on_channel i (rt_reattach_channel lib)) is w = w" if "\<forall>i \<in> set is. i < length (rw_channels w)" for "is"
    using that
  proof (induction "is")
    case (Cons i "is")
    then have "\<not> ch_reattach_pending (rw_channels w ! i)" using assms by simp
    then have "on_channel i (rt_reattach_channel lib) w = w"
      by (intro on_channel_same) (simp add: rt_reattach_channel_def channel_needs_reattach_def)
    then show ?case using Cons by simp
  qed simp
  from this [of "[0..<length (rw_channels w)]"] show ?thesis
    by (simp add: rt_reattach_pending_channels_def on_channels_def)
qed

interpretation own: ws_local "\<lambda>w :: rt_world. rw_channels w = chs \<and> rw_client w = c"
  by unfold_locales simp

lemma connect_async_owner:
  assumes "rt_client_connect_async ce w = Some (err, w')"
  shows "rw_channels w' = rw_channels w \<and> rc_send_ring (rw_client w') = rc_send_ring (rw_client w) \<and>
    rc_state (rw_client w') = (if err = ABLY_OK then CONN_CONNECTING else CONN_DISCONNECTED)"
proof -
  define w1 where "w1 = set_client (\<lambda>c. c\<lparr>rt_last_activity := 0, rt_connection_id := [], rc_msg_serial := 0\<rparr>)
    (rt_set_state_locked CONN_CONNECTING ABLY_OK (set_ws (ws_client_set_path (resume_url (rw_client w))) w))"
  have 1: "rw_channels w1 = rw_channels w" "rc_send_ring (rw_client w1) = rc_send_ring (rw_client w)"
    "rc_state (rw_client w1) = CONN_CONNECTING"
    by (simp_all add: w1_def set_client_def rt_set_state_locked_def set_ws_def Let_def)
  have "rw_channels (snd (ws_connect ce w1)) = rw_channels w1 \<and> rw_client (snd (ws_connect ce w1)) = rw_client w1"
    by (rule own.connect_law) simp
  moreover obtain x w2 where x: "ws_connect ce w1 = (x, w2)" by fastforce
  moreover have "rt_client_connect_async ce w = (case x of None \<Rightarrow> None
      | Some err \<Rightarrow> if err \<noteq> ABLY_OK then Some (err, rt_set_state_locked CONN_DISCONNECTED ABLY_ERR_NETWORK w2)
                    else Some (ABLY_OK, w2))"
    unfolding rt_client_connect_async_def w1_def [symmetric] by (simp add: x)
  ultimately show ?thesis using assms 1
    by (auto simp: rt_set_state_locked_def Let_def split: option.splits if_splits)
qed

text \<open>Without the service thread nobody tells the channels that the connection was lost. When the application
  reconnects as documented and the server answers CONNECTED, no channel is requested again and nothing is
  queued; a channel that was attached still says ATTACHED, and attaching it reports success without sending
  anything. On the new connection it receives nothing.\<close>

theorem event_loop_reconnect_not_reattached:
  assumes "\<forall>ch \<in> set (rw_channels w). \<not> ch_reattach_pending ch"
    and i: "i < length (rw_channels w)" "ch_state (rw_channels w ! i) = CHAN_ATTACHED"
    and c: "rt_client_connect_async ce w = Some (ABLY_OK, w1)"
  shows "let w2 = rt_on_connected env frame w1; cw = \<lparr>cw_ch = rw_channels w2 ! i, cw_core = rw_client w2, cw_events = []\<rparr>
    in rw_channels w2 = rw_channels w \<and> rc_send_ring (rw_client w2) = rc_send_ring (rw_client w) \<and>
       rc_state (rw_client w2) = CONN_CONNECTED \<and> channel_attach lib cw = (ABLY_OK, cw)"
proof -
  note w1 = connect_async_owner [OF c]
  define v where "v = set_client (\<lambda>c. c\<lparr>rt_attempt := 0\<rparr>)
    (rt_set_state_locked CONN_CONNECTED ABLY_OK (set_client (connected_client env frame) w1))"
  have v: "rw_channels v = rw_channels w" "rc_send_ring (rw_client v) = rc_send_ring (rw_client w)"
    "rc_state (rw_client v) = CONN_CONNECTED"
    using w1 by (simp_all add: v_def set_client_def rt_set_state_locked_def connected_client_def Let_def)
  have "rt_on_connected env frame w1 = v"
    using reattach_none [of v "re_lib env"] assms(1) v(1) by (simp add: rt_on_connected_def v_def [symmetric])
  then show ?thesis using v i by (simp add: channel_attach_def)
qed

section \<open>The examples never attach\<close>

text \<open>A channel that has nothing to send when it becomes attached.\<close>

definition silent_channel :: "channel \<Rightarrow> bool" where
  "silent_channel ch \<longleftrightarrow> \<not> ch_reattach_pending ch \<and> ch_pres ch = None \<and> ring_peek (ch_pending ch) = None"

definition silent_in :: "'x rt_core_scheme chan_world \<Rightarrow> 'x rt_core_scheme \<Rightarrow> bool" where
  "silent_in cw c \<longleftrightarrow> silent_channel (cw_ch cw) \<and> cw_core cw = c"

lemma silent_changes:
  "silent_in (set_state_locked s r cw) c = silent_in cw c"
  "silent_in (emit es cw) c = silent_in cw c"
  "silent_in (set_ch (track_serial f) cw) c = silent_in cw c"
  "silent_in (set_ch (\<lambda>ch. ch\<lparr>ch_last_error := e\<rparr>) cw) c = silent_in cw c"
  by (simp_all add: silent_in_def silent_channel_def set_state_locked_ch emit_def set_ch_def track_serial_def)

lemma silent_script [simp]: "script_env lib (\<lambda>cb m. []) = (\<lambda>cb m w. w)"
  by (intro ext) (simp add: script_env_def)

lemma silent_deliver: "silent_in (deliver_loop (\<lambda>cb m w. w) msg slots cw) c = silent_in cw c"
  by (induction slots arbitrary: cw) (simp_all add: Let_def silent_changes)

lemma silent_resolve: "silent_channel (snd (resolve_data pm ch)) = silent_channel ch"
  by (auto simp: silent_channel_def resolve_data_def resolve_delta_def store_base_def Let_def
      split: bool.splits option.splits vc_result.splits)

lemma silent_messages: "silent_in cw c \<Longrightarrow> silent_in (handle_messages (\<lambda>cb m w. w) pms cw) c"
proof (induction pms arbitrary: cw)
  case (Cons pm pms)
  obtain res ch where r: "resolve_data pm (cw_ch cw) = (res, ch)" by fastforce
  have 1: "silent_in (cw\<lparr>cw_ch := ch\<rparr>) c"
    using Cons.prems silent_resolve [of pm "cw_ch cw"] r by (simp add: silent_in_def)
  show ?case
    using 1 Cons.IH by (auto simp: r Let_def deliver_message_def silent_deliver silent_changes split: resolved.split)
qed simp

lemma silent_gap: "silent_in (gap_pages (\<lambda>cb m w. w) history n cursor cw) c = silent_in cw c"
proof (induction n arbitrary: cursor cw)
  case (Suc n)
  have "silent_in (fold (channel_deliver_history (\<lambda>cb m w. w)) items cw) c = silent_in cw c" for items cw
    by (induction items arbitrary: cw) (simp_all add: channel_deliver_history_def deliver_message_def silent_deliver)
  then show ?case using Suc by (simp split: option.split)
qed simp

lemma silent_recover: "silent_in (rt_recover_gap (\<lambda>cb m w. w) rest cw) c = silent_in cw c"
  by (simp add: rt_recover_gap_def silent_gap split: option.split)

lemma silent_attached:
  assumes "silent_in cw c"
  shows "silent_in (on_attached lib (\<lambda>cb m w. w) rest f cw) c"
proof -
  define w1 where "w1 = set_state_locked CHAN_ATTACHED ABLY_OK (set_ch (\<lambda>ch. (track_serial f
    (ch\<lparr>ch_reattach_pending := False, ch_granted_modes := pf_channel_modes f\<rparr>))\<lparr>ch_last_error := no_error_info\<rparr>) cw)"
  have 1: "silent_in w1 c" using assms
    by (simp add: w1_def silent_in_def silent_channel_def set_state_locked_ch set_ch_def track_serial_def)
  have "flush_loop lib n w1 = w1" for n using 1 by (cases n) (simp_all add: silent_in_def silent_channel_def)
  then have flush: "flush_pending_queue lib w1 = w1" by (simp add: flush_pending_queue_def)
  have pres: "with_pres g w1 = w1" for g using 1 by (simp add: with_pres_def silent_in_def silent_channel_def)
  have rec: "silent_in (rt_recover_gap (\<lambda>cb m w. w) rest w1) c" using 1 by (simp add: silent_recover)
  have "ch_pres (cw_ch w1) = None" "ch_pres (cw_ch (rt_recover_gap (\<lambda>cb m w. w) rest w1)) = None"
    using 1 rec by (simp_all add: silent_in_def silent_channel_def)
  then show ?thesis using 1 rec by (simp add: on_attached_def Let_def w1_def [symmetric] flush pres)
qed

lemma silent_frame:
  assumes "silent_in cw c"
  shows "silent_in (channel_on_frame lib (\<lambda>cb m w. w) rest f cw) c"
proof -
  have "with_pres g (set_ch (track_serial f) cw) = set_ch (track_serial f) cw" "with_pres g cw = cw" for g
    using assms by (simp_all add: with_pres_def silent_in_def silent_channel_def set_ch_def track_serial_def)
  then show ?thesis using assms silent_attached [OF assms, of lib rest f]
      silent_messages [of "set_ch (track_serial f) cw" c "pf_messages f"]
    by (simp add: channel_on_frame_def channel_fail_def silent_changes split: ably_action.split)
qed

definition silent :: "rt_world \<Rightarrow> bool" where
  "silent w \<longleftrightarrow> rc_send_ring (rw_client w) = empty_ring ABLY_SEND_RING_CAPACITY [] \<and>
     (\<forall>ch \<in> set (rw_channels w). silent_channel ch)"

lemma silent_on_channel:
  assumes "silent w" "i < length (rw_channels w)"
    and "\<And>cw. silent_in cw (rw_client w) \<Longrightarrow> silent_in (f cw) (rw_client w)"
  shows "silent (on_channel i f w)"
proof -
  have "silent_in (f \<lparr>cw_ch = rw_channels w ! i, cw_core = rw_client w, cw_events = []\<rparr>) (rw_client w)"
    using assms(1,2) by (intro assms(3)) (simp add: silent_in_def silent_def)
  then show ?thesis using assms(1) set_update_subset_insert [of "rw_channels w" i]
    by (auto simp: silent_def silent_in_def on_channel_def Let_def)
qed

lemma silent_client: "rc_send_ring (f (rw_client w)) = rc_send_ring (rw_client w) \<Longrightarrow> silent (set_client f w) = silent w"
  by (simp add: silent_def set_client_def)

lemma silent_state [simp]: "silent (rt_set_state_locked s r w) = silent w"
  by (simp add: silent_def rt_set_state_locked_def Let_def)

interpretation silent: ws_local silent
  by unfold_locales (simp add: silent_def)

lemma silent_dispatch:
  assumes w: "silent w"
  shows "silent (rt_dispatch_frame (scripted lib (\<lambda>cb m. []) rest now) frame w)"
proof -
  let ?env = "scripted lib (\<lambda>cb m. []) rest now"
  have "silent (rt_on_channel_frame ?env frame w)"
    using w by (auto simp: rt_on_channel_frame_def scripted_def find_channel_def split: option.split dest: first_index_Some
        intro!: silent_on_channel silent_frame)
  moreover have "silent (rt_on_heartbeat ?env w)"
    using w silent_client [of "\<lambda>c. c\<lparr>rt_last_activity := re_now ?env\<rparr>" w]
    by (auto simp: rt_on_heartbeat_def Let_def intro!: silent.send_law)
  moreover have "silent (rt_on_connected ?env frame w)"
  proof -
    define v where "v = set_client (\<lambda>c. c\<lparr>rt_attempt := 0\<rparr>)
      (rt_set_state_locked CONN_CONNECTED ABLY_OK (set_client (connected_client ?env frame) w))"
    have "silent v" using w by (simp add: v_def silent_client connected_client_def Let_def)
    moreover from this have "rt_reattach_pending_channels lib v = v"
      by (intro reattach_none) (simp add: silent_def silent_channel_def)
    moreover have "rt_on_connected ?env frame w = rt_reattach_pending_channels lib v"
      by (simp add: rt_on_connected_def v_def) (simp add: scripted_def)
    ultimately show ?thesis by simp
  qed
  moreover have "silent (rt_on_disconnected frame w)" "silent (rt_on_error frame w)"
    using w by (simp_all add: rt_on_disconnected_def rt_on_error_def silent_client Let_def)
  ultimately show ?thesis using w by (simp add: rt_dispatch_frame_def split: ably_action.split)
qed

interpretation silent: ws_preserved silent "on_ws_frame (scripted lib (\<lambda>cb m. []) rest now)"
proof
  show "silent w \<Longrightarrow> silent (on_ws_frame (scripted lib (\<lambda>cb m. []) rest now) msg w)" for w msg
    by (auto simp: on_ws_frame_def silent_dispatch split: option.split)
qed

lemma rt_drain_empty:
  assumes "rc_send_ring (rw_client w) = empty_ring ABLY_SEND_RING_CAPACITY []"
  shows "rt_drain_ring w = (False, w)"
proof -
  have "ring_peek (empty_ring n x) = None" for n and x :: string by (simp add: ring_peek_def empty_ring_def)
  then show ?thesis using assms by (simp add: rt_drain_ring_def rt_drain_one_def)
qed

lemma silent_step: "silent w \<Longrightarrow> silent (snd (rt_step (scripted lib (\<lambda>cb m. []) rest now) r w))"
  using rt_drain_empty [of w] silent.recv_law [of w lib rest now r]
  by (auto simp: rt_step_def Let_def silent_def case_prod_beta)

text \<open>Attaching right after the handshake fails, or does nothing: the client is CONNECTING until the first
  frame has been read.\<close>

lemma attach_without_effect:
  assumes "rc_state (rw_client w) = CONN_CONNECTING"
  shows "glue_attach lib i w = w"
  unfolding glue_attach_def by (rule on_channel_same) (simp add: channel_attach_def assms Let_def)

definition glue_inv :: "glue \<Rightarrow> bool" where
  "glue_inv g \<longleftrightarrow> silent (gl_world g) \<and> gl_reconnect_ms g \<in> {1000, 2000, 4000, 8000, 16000, 32000, 30000}"

lemma glue_inv_backoff: "glue_inv g \<Longrightarrow> glue_inv (g\<lparr>gl_reconnect_ms := glue_backoff (gl_reconnect_ms g)\<rparr>)"
  by (auto simp: glue_inv_def glue_backoff_def)

lemma glue_inv_world:
  "glue_inv g \<Longrightarrow> silent w \<Longrightarrow> glue_inv (g\<lparr>gl_world := w\<rparr>)"
  "glue_inv g \<Longrightarrow> glue_inv (g\<lparr>gl_polling := p\<rparr>)" "glue_inv g \<Longrightarrow> glue_inv (g\<lparr>gl_timer := t\<rparr>)"
  "glue_inv g \<Longrightarrow> glue_inv (g\<lparr>gl_reconnect_ms := 1000\<rparr>)"
  "glue_inv g \<Longrightarrow> silent (gl_world g)"
  by (simp_all add: glue_inv_def)

lemma glue_connect_cases:
  assumes "glue_inv g" "rt_client_connect_async ce (gl_world g) = Some (err, w)"
  shows "silent w" "err = ABLY_OK \<Longrightarrow> glue_attach lib i w = w"
proof -
  note w = connect_async_owner [OF assms(2)]
  show "silent w" using w glue_inv_world(5) [OF assms(1)] by (simp add: silent_def)
  show "err = ABLY_OK \<Longrightarrow> glue_attach lib i w = w" by (rule attach_without_effect) (simp add: w)
qed

lemma glue_reschedule:
  assumes "glue_inv g"
  shows "glue_inv (g\<lparr>gl_polling := p, gl_timer := t, gl_reconnect_ms := glue_backoff (gl_reconnect_ms g)\<rparr>)"
    "glue_inv (g\<lparr>gl_timer := t, gl_reconnect_ms := glue_backoff (gl_reconnect_ms g)\<rparr>)"
    "glue_inv (g\<lparr>gl_reconnect_ms := 1000, gl_polling := p\<rparr>)"
  using glue_inv_backoff [OF assms] glue_inv_world(4) [OF assms] by (auto simp: glue_inv_def)

lemma glue_connect_inv:
  assumes g: "glue_inv g"
  shows "uv_do_connect lib ce g = Some g' \<Longrightarrow> glue_inv g'" "asio_connect lib ce g = Some g' \<Longrightarrow> glue_inv g'"
proof -
  have c: "glue_inv (g\<lparr>gl_world := w\<rparr>) \<and> (err = ABLY_OK \<longrightarrow> glue_attach lib i w = w)"
    if "rt_client_connect_async ce (gl_world g) = Some (err, w)" for err w i
    using glue_connect_cases [OF g that] glue_inv_world(1) [OF g] by simp
  show "uv_do_connect lib ce g = Some g' \<Longrightarrow> glue_inv g'"
    using c glue_reschedule [of "g\<lparr>gl_world := w\<rparr>" for w]
    by (auto simp: uv_do_connect_def split: option.splits prod.splits if_splits)
  show "asio_connect lib ce g = Some g' \<Longrightarrow> glue_inv g'"
    using c glue_reschedule [of "g\<lparr>gl_world := w\<rparr>" for w]
    by (auto simp: asio_connect_def asio_schedule_reconnect_def split: option.splits prod.splits if_splits)
qed

lemma glue_step_inv: "glue_step lib g g' \<Longrightarrow> glue_inv g \<Longrightarrow> glue_inv g'"
proof (induction rule: glue_step.induct)
  case (uv_readable g status rest now r)
  then show ?case
    using glue_reschedule(1) glue_inv_world silent_step [OF glue_inv_world(5)]
    by (auto simp: uv_poll_cb_def Let_def case_prod_beta glue_inv_def glue_backoff_def)
next
  case (asio_readable g ec rest now r)
  then show ?case
    using silent_step [OF glue_inv_world(5) [OF asio_readable(2)], of lib rest now r]
    by (auto simp: asio_on_readable_def asio_schedule_reconnect_def Let_def case_prod_beta glue_inv_def glue_backoff_def)
qed (auto simp: uv_reconnect_timer_cb_def asio_on_timer_def intro: glue_connect_inv glue_inv_world(3) split: if_splits)

lemma glue_create_inv: "glue_create key name cb = Some g \<Longrightarrow> glue_inv g"
proof -
  assume c: "glue_create key name cb = Some g"
  then obtain w i w1 where w: "rt_client_create key None = Some w" "rt_channel_get name w = (Some i, w1)"
    and g: "g = \<lparr>gl_world = on_channel i (set_ch (\<lambda>ch. snd (channel_subscribe None cb ch))) w1, gl_channel = i,
                     gl_polling = False, gl_timer = None, gl_reconnect_ms = 1000\<rparr>"
    by (auto simp: glue_create_def split: option.splits prod.splits)
  have "rw_channels w = []" "rc_send_ring (rw_client w) = empty_ring ABLY_SEND_RING_CAPACITY []"
    using w(1) by (auto simp: rt_client_create_def Let_def split: if_splits)
  then have 1: "rw_channels w1 = [channel_create name]" "i = 0" "rc_send_ring (rw_client w1) = empty_ring ABLY_SEND_RING_CAPACITY []"
    using w(2) by (auto simp: rt_channel_get_def find_channel_def ABLY_MAX_CHANNELS_def split: if_splits)
  have "silent_channel (snd (channel_subscribe None cb (channel_create name)))"
    by (auto simp: silent_channel_def channel_subscribe_def channel_create_def ring_peek_def empty_ring_def Let_def
        split: option.split)
  then show ?thesis using 1 by (simp add: glue_inv_def g silent_def on_channel_def set_ch_def Let_def)
qed

text \<open>C35. The two example programs never ask for their channel. They call attach as soon as the handshake is done,
  when the client is still CONNECTING and attach refuses; nobody looks at the result, and no handler calls it
  again when CONNECTED arrives. Whatever the server sends and however often they reconnect, no frame is ever
  queued, so no message can be delivered to them. Their backoff is meant to end at 30 seconds and reaches 32.\<close>

theorem examples_never_attach:
  assumes "glue_create key name cb = Some g0" "(glue_step lib)\<^sup>*\<^sup>* g0 g"
  shows "rc_pending_frames (rw_client (gl_world g)) = [] \<and>
    (\<forall>ch \<in> set (rw_channels (gl_world g)). \<not> ch_reattach_pending ch) \<and>
    1000 \<le> gl_reconnect_ms g \<and> gl_reconnect_ms g \<le> 32000"
proof -
  have "glue_inv g" using assms(2)
    by (induction rule: rtranclp_induct) (auto intro: glue_step_inv glue_create_inv [OF assms(1)])
  then show ?thesis by (auto simp: glue_inv_def silent_def silent_channel_def rc_pending_frames_def empty_ring_list)
qed

section \<open>Examples\<close>

lemma event_loop_step_is_service_round_witness:
  "rt_step (scripted no_lib (\<lambda>cb m. []) None 0) Recv_Nothing demo_connected = (1, demo_connected) \<and>
   fst (svc_loop (scripted no_lib (\<lambda>cb m. []) None 0) Recv_Nothing [] demo_connected) = Svc_Loop"
proof -
  have "rc_send_ring (rw_client demo_connected) = empty_ring ABLY_SEND_RING_CAPACITY []"
    by (simp add: demo_connected_def set_ws_def rt_set_state_locked_def Let_def demo_world_def rt_client_create_def)
  note drain = rt_drain_empty [OF this]
  have "\<not> heartbeat_lost 0 (rw_client demo_connected)"
    by (simp add: heartbeat_lost_def demo_connected_def set_ws_def rt_set_state_locked_def Let_def demo_world_def
        rt_client_create_def)
  then have s: "rt_step (scripted no_lib (\<lambda>cb m. []) None 0) Recv_Nothing demo_connected = (1, demo_connected)"
    using demo_connected_simps(1) by (simp add: rt_step_def drain ws_recv_once_def ws_is_connected_def scripted_def)
  then show ?thesis
    using event_loop_step_is_service_round [OF demo_connected_simps(4), of "scripted no_lib (\<lambda>cb m. []) None 0" Recv_Nothing "[]"]
    by simp
qed

lemma demo_connect_any:
  assumes "length (ws_path (ww_ws w)) \<le> 400" "length (ws_host (ww_ws w)) \<le> 300"
  shows "fst (ws_connect demo_conn w) = Some ABLY_OK"
proof -
  have "length (upgrade_request p h k) = 114 + length p + length h + length k" for p h k
    by (simp add: upgrade_request_def crlf_def)
  moreover have "upgrade_send [Wr_Wrote 1000] n = Some ABLY_OK" if "n \<le> 1000" for n
    using that by (cases n) auto
  ultimately show ?thesis using assms
    by (simp add: ws_connect_def Let_def demo_conn_def ws_upgrade_handshake_def demo_upgrade_recv
        ABLY_WS_HANDSHAKE_BUF_def set_ws_def ssl_setup_def tcp_connect_def lose_socket_def generate_websocket_key_def
        length_base64_encode is_prefix_demo_response del: upgrade_recv.simps)
qed

lemma demo_paths:
  "length (rt_ws_path (rw_client demo_world)) \<le> 400" "length (ws_host (ww_ws demo_world)) \<le> 300"
  "rt_connection_key (rw_client demo_world) = []"
  by (simp_all add: demo_world_def rt_client_create_def Let_def base_ws_path_def rt_options_init_def ws_client_create_def
      format_name_def ABLY_WS_PATH_MAX_def ABLY_WS_HOST_MAX_def c_copy_def c_opt_def)

lemma demo_no_channels: "rw_channels demo_world = []"
  by (simp add: demo_world_def rt_client_create_def Let_def)

definition attached_before :: rt_world where
  "attached_before = demo_world\<lparr>rw_channels := [(channel_create ''chat'')\<lparr>ch_state := CHAN_ATTACHED\<rparr>]\<rparr>"

lemma connect_async_demo:
  assumes "length (rt_ws_path (rw_client w)) \<le> 400" "length (ws_host (ww_ws w)) \<le> 300" "rt_connection_key (rw_client w) = []"
  shows "\<exists>w1. rt_client_connect_async demo_conn w = Some (ABLY_OK, w1)"
proof -
  define v where "v = set_client (\<lambda>c. c\<lparr>rt_last_activity := 0, rt_connection_id := [], rc_msg_serial := 0\<rparr>)
    (rt_set_state_locked CONN_CONNECTING ABLY_OK (set_ws (ws_client_set_path (resume_url (rw_client w))) w))"
  have "length (c_copy n s) \<le> length s" for n s by (simp add: c_copy_def)
  then have "fst (ws_connect demo_conn v) = Some ABLY_OK" using assms
    by (intro demo_connect_any)
      (simp_all add: v_def set_client_def rt_set_state_locked_def set_ws_def Let_def ws_client_set_path_def resume_url_def,
       meson order_trans)
  then show ?thesis
    unfolding rt_client_connect_async_def v_def [symmetric] by (cases "ws_connect demo_conn v") simp
qed

lemma event_loop_reconnect_not_reattached_witness:
  "\<exists>w1. rt_client_connect_async demo_conn attached_before = Some (ABLY_OK, w1) \<and>
     rc_send_ring (rw_client (rt_on_connected (scripted no_lib (\<lambda>cb m. []) None 0) (blank_frame ACTION_CONNECTED) w1)) =
       rc_send_ring (rw_client attached_before)"
proof -
  obtain w1 where w1: "rt_client_connect_async demo_conn attached_before = Some (ABLY_OK, w1)"
    using connect_async_demo [of attached_before] demo_paths by (auto simp: attached_before_def)
  have "\<forall>ch \<in> set (rw_channels attached_before). \<not> ch_reattach_pending ch" "0 < length (rw_channels attached_before)"
    "ch_state (rw_channels attached_before ! 0) = CHAN_ATTACHED"
    by (simp_all add: attached_before_def channel_create_def)
  from event_loop_reconnect_not_reattached [OF this w1] show ?thesis using w1 by (auto simp: Let_def)
qed

lemma examples_never_attach_witness:
  "\<exists>g g'. glue_create (Some ''key.id:secret'') ''chat'' 1 = Some g \<and> uv_do_connect no_lib demo_conn g = Some g' \<and>
     gl_polling g' \<and> rc_pending_frames (rw_client (gl_world g')) = []"
proof -
  obtain g where g: "glue_create (Some ''key.id:secret'') ''chat'' 1 = Some g"
    by (simp add: glue_create_def demo_world_create rt_channel_get_def find_channel_def ABLY_MAX_CHANNEL_NAME_LEN_def
        ABLY_MAX_CHANNELS_def demo_no_channels)
  have "gl_world g = on_channel 0 (set_ch (\<lambda>ch. snd (channel_subscribe None 1 ch)))
      (demo_world\<lparr>rw_channels := [channel_create ''chat'']\<rparr>)"
    using g demo_world_create
    by (auto simp: glue_create_def rt_channel_get_def find_channel_def split: if_splits)
      (auto simp: demo_world_def rt_client_create_def Let_def)
  then have "rt_ws_path (rw_client (gl_world g)) = rt_ws_path (rw_client demo_world)"
    "ws_host (ww_ws (gl_world g)) = ws_host (ww_ws demo_world)" "rt_connection_key (rw_client (gl_world g)) = []"
    using demo_paths(3) by (simp_all add: on_channel_def set_ch_def Let_def)
  then obtain w1 where w1: "rt_client_connect_async demo_conn (gl_world g) = Some (ABLY_OK, w1)"
    using connect_async_demo [of "gl_world g"] demo_paths by auto
  then obtain g' where g': "uv_do_connect no_lib demo_conn g = Some g'" "gl_polling g'"
    by (simp add: uv_do_connect_def)
  have "glue_step no_lib g g'" by (rule uv_start [OF g'(1)])
  then have "(glue_step no_lib)\<^sup>*\<^sup>* g g'" by blast
  from examples_never_attach [OF g this] show ?thesis using g g' by blast
qed

end
