(* ===== verification/Ably_Locks.thy ===== *)
theory Ably_Locks
  imports Ably_Types
begin

text \<open>
  The mutexes of a realtime client (\<^verbatim>\<open>src/mutex.h\<close>): which function of \<^verbatim>\<open>realtime_client.c\<close> and \<^verbatim>\<open>channel.c\<close>
  takes and releases which of them, in which order, on every path, and what callbacks it makes meanwhile. The
  other theories take the critical sections as atomic pieces; here are the sections themselves. A function is
  the list of the lock operations on one path through it, its arguments are the outcomes of its tests.
\<close>

section \<open>Mutexes\<close>

text \<open>\<^verbatim>\<open>chan_mutex\<close>, the \<^verbatim>\<open>sub_mutex\<close> of each channel, \<^verbatim>\<open>state_mutex\<close> and \<^verbatim>\<open>send_mutex\<close>. They are not recursive:
  this is the POSIX half of \<^verbatim>\<open>mutex.h\<close>. (On Windows they are critical sections, which a thread can enter again.)\<close>

datatype mutex = Chan_Mutex | Sub_Mutex nat | State_Mutex | Send_Mutex

datatype act = Lock mutex | Unlock mutex | Join

text \<open>\<open>Join\<close> is \<^verbatim>\<open>ably_thread_join\<close> of the service thread. A critical section, and \<^verbatim>\<open>ably_cond_timedwait_ms\<close>, which
  gives the mutex back until it is woken or the time is over.\<close>

definition critical :: "mutex \<Rightarrow> act list \<Rightarrow> act list" where
  "critical m body = Lock m # body @ [Unlock m]"

definition timed_wait :: "mutex \<Rightarrow> act list" where
  "timed_wait m = [Unlock m, Lock m]"

text \<open>The deadline of the wait: seconds and nanoseconds now, and a time in milliseconds, all in C's division.\<close>

definition timedwait_deadline :: "int \<Rightarrow> int \<Rightarrow> int \<Rightarrow> int \<times> int" where
  "timedwait_deadline sec nsec timeout_ms =
     (let q = sgn timeout_ms * (\<bar>timeout_ms\<bar> div 1000); r = sgn timeout_ms * (\<bar>timeout_ms\<bar> mod 1000);
          s = sec + q; n = nsec + r * 1000000
      in if n \<ge> 1000000000 then (s + 1, n - 1000000000) else (s, n))"

section \<open>Functions of the client\<close>

definition enqueue_acts :: "act list" where
  "enqueue_acts = critical Send_Mutex []"

definition claim_acts :: "act list" where
  "claim_acts = critical Send_Mutex []"

definition client_state_acts :: "act list" where
  "client_state_acts = critical State_Mutex []"

definition channel_get_acts :: "act list" where
  "channel_get_acts = critical Chan_Mutex []"

text \<open>A change of the connection state: \<open>cb\<close> is what the callback does, \<open>[]\<close> when there is none or nothing changes.
  It is called with the mutex held.\<close>

definition conn_change_acts :: "act list \<Rightarrow> act list" where
  "conn_change_acts cb = critical State_Mutex cb"

definition close_acts :: "nat \<Rightarrow> bool \<Rightarrow> act list" where
  "close_acts wakes service_thread_running =
     critical State_Mutex [] @ critical State_Mutex (concat (replicate wakes (timed_wait State_Mutex))) @
     (if service_thread_running then [Join] else [])"

definition connect_async_acts :: "bool \<Rightarrow> act list \<Rightarrow> act list \<Rightarrow> act list" where
  "connect_async_acts connected cb1 cb2 = conn_change_acts cb1 @ (if connected then [] else conn_change_acts cb2)"

section \<open>Functions of a channel\<close>

text \<open>\<^verbatim>\<open>set_state_locked\<close> calls the state callback with \<^verbatim>\<open>sub_mutex\<close> held.\<close>

definition chan_change_acts :: "nat \<Rightarrow> act list \<Rightarrow> act list" where
  "chan_change_acts i cb = critical (Sub_Mutex i) cb"

definition channel_state_acts :: "nat \<Rightarrow> act list" where
  "channel_state_acts i = critical (Sub_Mutex i) []"

definition attach_acts :: "nat \<Rightarrow> bool \<Rightarrow> bool \<Rightarrow> bool \<Rightarrow> bool \<Rightarrow> act list \<Rightarrow> act list" where
  "attach_acts i active connected encoded room cb =
     channel_state_acts i @
     (if active then []
      else client_state_acts @
        (if \<not> connected \<or> \<not> encoded then []
         else enqueue_acts @ (if \<not> room then [] else chan_change_acts i cb)))"

definition detach_acts :: "nat \<Rightarrow> bool \<Rightarrow> bool \<Rightarrow> bool \<Rightarrow> act list \<Rightarrow> act list" where
  "detach_acts i active encoded room cb =
     channel_state_acts i @
     (if \<not> active \<or> \<not> encoded then []
      else enqueue_acts @ (if \<not> room then [] else chan_change_acts i cb))"

definition subscribe_acts :: "nat \<Rightarrow> act list" where
  "subscribe_acts i = critical (Sub_Mutex i) []"

definition unsubscribe_acts :: "nat \<Rightarrow> int \<Rightarrow> act list" where
  "unsubscribe_acts i token = (if token \<le> 0 then [] else critical (Sub_Mutex i) [])"

definition set_state_cb_acts :: "nat \<Rightarrow> act list" where
  "set_state_cb_acts i = critical (Sub_Mutex i) []"

definition publish_acts :: "nat \<Rightarrow> ably_channel_state \<Rightarrow> bool \<Rightarrow> act list" where
  "publish_acts i st encoded =
     critical (Sub_Mutex i) [] @
     (if st \<noteq> CHAN_ATTACHED then [] else claim_acts @ (if encoded then enqueue_acts else []))"

definition publish_with_id_acts :: "nat \<Rightarrow> ably_channel_state \<Rightarrow> ably_channel_state \<Rightarrow> bool \<Rightarrow> act list" where
  "publish_with_id_acts i st st' encoded =
     critical (Sub_Mutex i) [] @
     (if st = CHAN_ATTACHING then publish_acts i st' encoded
      else if st \<noteq> CHAN_ATTACHED then [] else claim_acts @ (if encoded then enqueue_acts else []))"

definition set_options_acts :: "nat \<Rightarrow> bool \<Rightarrow> bool \<Rightarrow> act list \<Rightarrow> act list \<Rightarrow> act list" where
  "set_options_acts i active detached det att =
     critical (Sub_Mutex i) [] @ (if \<not> active then [] else det @ (if detached then att else []))"

text \<open>Enter, leave and update of presence; \<open>sends\<close> when their tests pass and the frame is encoded.\<close>

definition presence_acts :: "nat \<Rightarrow> bool \<Rightarrow> bool \<Rightarrow> act list" where
  "presence_acts i known sends = (if \<not> known then [] else channel_state_acts i @ (if sends then enqueue_acts else []))"

text \<open>Delivery: every callback is made with the mutex released. \<open>cbs\<close> are the callbacks' lock operations.\<close>

definition deliver_acts :: "nat \<Rightarrow> act list list \<Rightarrow> act list" where
  "deliver_acts i cbs =
     critical (Sub_Mutex i) (concat (map (\<lambda>cb. [Unlock (Sub_Mutex i)] @ cb @ [Lock (Sub_Mutex i)]) cbs))"

text \<open>\<^verbatim>\<open>flush_pending_queue\<close>: for each message, whether it is encoded.\<close>

definition flush_acts :: "bool list \<Rightarrow> act list" where
  "flush_acts encoded = concat (map (\<lambda>e. claim_acts @ (if e then enqueue_acts else [])) encoded)"

text \<open>ATTACHED: the change of state, the flush, the presence callbacks, the recovered messages, and entering
  again. The other frames of a channel are a change of state, or deliveries, or presence callbacks.\<close>

definition on_attached_acts ::
  "nat \<Rightarrow> act list \<Rightarrow> bool list \<Rightarrow> act list \<Rightarrow> act list list list \<Rightarrow> bool \<Rightarrow> act list" where
  "on_attached_acts i cb pending presence history reenter =
     chan_change_acts i cb @ flush_acts pending @ presence @ concat (map (deliver_acts i) history) @
     (if reenter then enqueue_acts else [])"

definition on_messages_acts :: "nat \<Rightarrow> (act list \<times> act list list) list \<Rightarrow> act list" where
  "on_messages_acts i ms = concat (map (\<lambda>(occupancy, cbs). occupancy @ deliver_acts i cbs) ms)"

section \<open>The service thread\<close>

definition reattach_acts :: "(nat \<times> bool \<times> act list) list \<Rightarrow> act list" where
  "reattach_acts chs =
     critical Chan_Mutex (concat (map (\<lambda>(i, encoded, cb). if encoded then enqueue_acts @ chan_change_acts i cb else []) chs))"

definition disconnect_acts :: "(nat \<times> act list) list \<Rightarrow> act list" where
  "disconnect_acts chs = critical Chan_Mutex (concat (map (\<lambda>(i, cb). chan_change_acts i cb) chs))"

definition suspended_acts :: "act list \<Rightarrow> act list" where
  "suspended_acts cb = critical State_Mutex (cb @ timed_wait State_Mutex)"

definition retry_acts :: "bool \<Rightarrow> act list" where
  "retry_acts close_requested = critical State_Mutex (if close_requested then [] else timed_wait State_Mutex)"

text \<open>A frame for a channel: the channel is looked up with \<^verbatim>\<open>chan_mutex\<close> held, and gets the frame after it is
  released.\<close>

definition channel_frame_acts :: "act list \<Rightarrow> act list" where
  "channel_frame_acts frame = critical Chan_Mutex [] @ frame"

text \<open>What a callback of the given kind may be: nothing (no callback, no change), or one of its behaviours.\<close>

definition maybe :: "act list set \<Rightarrow> act list \<Rightarrow> bool" where
  "maybe C cb \<longleftrightarrow> cb = [] \<or> cb \<in> C"

text \<open>The paths through the functions an application can call (\<^verbatim>\<open>ably_channel_enable_delta\<close> locks like
  \<^verbatim>\<open>ably_channel_state\<close>, the others not listed do not lock; while a client is destroyed nobody may call
  it), with the behaviours \<open>CC\<close> of its connection
  callback and \<open>CH i\<close> of the callback of channel \<open>i\<close>.\<close>

inductive api_path :: "act list set \<Rightarrow> (nat \<Rightarrow> act list set) \<Rightarrow> act list \<Rightarrow> bool" for CC CH where
  state_path: "api_path CC CH client_state_acts"
| get_path: "api_path CC CH channel_get_acts"
| attach_path: "maybe (CH i) cb \<Longrightarrow> api_path CC CH (attach_acts i active connected encoded room cb)"
| detach_path: "maybe (CH i) cb \<Longrightarrow> api_path CC CH (detach_acts i active encoded room cb)"
| subscribe_path: "api_path CC CH (subscribe_acts i)"
| unsubscribe_path: "api_path CC CH (unsubscribe_acts i token)"
| set_cb_path: "api_path CC CH (set_state_cb_acts i)"
| channel_state_path: "api_path CC CH (channel_state_acts i)"
| publish_path: "api_path CC CH (publish_acts i st encoded)"
| publish_id_path: "api_path CC CH (publish_with_id_acts i st st' encoded)"
| presence_path: "api_path CC CH (presence_acts i known sends)"
| options_path: "maybe (CH i) cb1 \<Longrightarrow> maybe (CH i) cb2 \<Longrightarrow>
    api_path CC CH (set_options_acts i active detached (detach_acts i a1 e1 r1 cb1) (attach_acts i a2 c2 e2 r2 cb2))"
| async_path: "maybe CC cb1 \<Longrightarrow> maybe CC cb2 \<Longrightarrow> api_path CC CH (connect_async_acts connected cb1 cb2)"

text \<open>What a message, presence, occupancy or authentication callback does: calls, one after the other.\<close>

inductive calls :: "act list set \<Rightarrow> (nat \<Rightarrow> act list set) \<Rightarrow> act list \<Rightarrow> bool" for CC CH where
  no_call: "calls CC CH []"
| one_call: "calls CC CH as \<Longrightarrow> api_path CC CH bs \<Longrightarrow> calls CC CH (as @ bs)"

text \<open>The paths through the pieces of the service thread, and of \<^verbatim>\<open>ably_rt_step\<close>: a change of the connection
  state (connecting, closing, a CONNECTED, ERROR or CLOSED frame), taking a frame from the ring or setting the
  serial, looking at \<^verbatim>\<open>close_requested\<close>, and the frames.\<close>

inductive svc_path :: "act list set \<Rightarrow> (nat \<Rightarrow> act list set) \<Rightarrow> act list \<Rightarrow> bool" for CC CH where
  change_path: "maybe CC cb \<Longrightarrow> svc_path CC CH (conn_change_acts cb)"
| drain_path: "svc_path CC CH (critical Send_Mutex [])"
| connected_path: "maybe CC cb \<Longrightarrow> (\<forall>(i, encoded, cb) \<in> set chs. maybe (CH i) cb) \<Longrightarrow>
    svc_path CC CH (conn_change_acts cb @ reattach_acts chs)"
| disconnect_path: "(\<forall>(i, cb) \<in> set chs. maybe (CH i) cb) \<Longrightarrow> svc_path CC CH (disconnect_acts chs)"
| auth_path: "calls CC CH cb \<Longrightarrow> svc_path CC CH cb"
| suspended_path: "maybe CC cb \<Longrightarrow> svc_path CC CH (suspended_acts cb)"
| retry_path: "svc_path CC CH (retry_acts close_requested)"
| unknown_channel_path: "svc_path CC CH (channel_frame_acts [])"
| attached_path: "maybe (CH i) cb \<Longrightarrow> calls CC CH presence \<Longrightarrow> (\<forall>cbs \<in> set history. \<forall>c \<in> set cbs. calls CC CH c) \<Longrightarrow>
    svc_path CC CH (channel_frame_acts (on_attached_acts i cb pending presence history reenter))"
| detached_path: "maybe (CH i) cb \<Longrightarrow> svc_path CC CH (channel_frame_acts (chan_change_acts i cb))"
| message_path: "(\<forall>(occupancy, cbs) \<in> set ms. calls CC CH occupancy \<and> (\<forall>c \<in> set cbs. calls CC CH c)) \<Longrightarrow>
    svc_path CC CH (channel_frame_acts (on_messages_acts i ms))"
| presence_frame_path: "calls CC CH cb \<Longrightarrow> svc_path CC CH (channel_frame_acts cb)"

section \<open>Threads\<close>

text \<open>Thread 0 is the service thread, or the one that calls \<^verbatim>\<open>ably_rt_step\<close>. \<open>ls_prog t\<close> is what thread \<open>t\<close>
  still does of its present call.\<close>

record lock_state =
  ls_owner :: "mutex \<Rightarrow> nat option"
  ls_prog :: "nat \<Rightarrow> act list"
  ls_exited :: bool

definition lock_start :: lock_state where
  "lock_start = \<lparr>ls_owner = (\<lambda>m. None), ls_prog = (\<lambda>t. []), ls_exited = False\<rparr>"

text \<open>A step of a thread that is in a call.\<close>

inductive lock_step :: "lock_state \<Rightarrow> lock_state \<Rightarrow> bool" where
  acquire: "ls_prog s t = Lock m # as \<Longrightarrow> ls_owner s m = None \<Longrightarrow>
    lock_step s (s\<lparr>ls_owner := (ls_owner s)(m := Some t), ls_prog := (ls_prog s)(t := as)\<rparr>)"
| release: "ls_prog s t = Unlock m # as \<Longrightarrow> ls_owner s m = Some t \<Longrightarrow>
    lock_step s (s\<lparr>ls_owner := (ls_owner s)(m := None), ls_prog := (ls_prog s)(t := as)\<rparr>)"
| join: "ls_prog s t = Join # as \<Longrightarrow> ls_exited s \<Longrightarrow> lock_step s (s\<lparr>ls_prog := (ls_prog s)(t := as)\<rparr>)"

text \<open>Or the service thread begins its next piece or ends, or a thread of the application makes a call;
  \<^verbatim>\<open>ably_rt_client_close\<close> is one that waits for the service thread.\<close>

inductive lock_trans :: "act list set \<Rightarrow> (nat \<Rightarrow> act list set) \<Rightarrow> lock_state \<Rightarrow> lock_state \<Rightarrow> bool" for CC CH where
  own_step: "lock_step s s' \<Longrightarrow> lock_trans CC CH s s'"
| piece: "ls_prog s 0 = [] \<Longrightarrow> \<not> ls_exited s \<Longrightarrow> svc_path CC CH as \<Longrightarrow>
    lock_trans CC CH s (s\<lparr>ls_prog := (ls_prog s)(0 := as)\<rparr>)"
| exits: "ls_prog s 0 = [] \<Longrightarrow> \<not> ls_exited s \<Longrightarrow> lock_trans CC CH s (s\<lparr>ls_exited := True\<rparr>)"
| api_call: "t \<noteq> 0 \<Longrightarrow> ls_prog s t = [] \<Longrightarrow> api_path CC CH as \<Longrightarrow>
    lock_trans CC CH s (s\<lparr>ls_prog := (ls_prog s)(t := as)\<rparr>)"
| close_call: "t \<noteq> 0 \<Longrightarrow> ls_prog s t = [] \<Longrightarrow>
    lock_trans CC CH s (s\<lparr>ls_prog := (ls_prog s)(t := close_acts wakes running)\<rparr>)"

section \<open>The order of the mutexes\<close>

text \<open>A path is followed from a set of held mutexes: a mutex is taken only above all held ones, only a held one is
  released, and the thread is joined with nothing held. The result is the set held at the end.\<close>

fun rank :: "mutex \<Rightarrow> nat" where
  "rank Chan_Mutex = 0"
| "rank (Sub_Mutex i) = 1"
| "rank State_Mutex = 2"
| "rank Send_Mutex = 3"

fun follows :: "mutex set \<Rightarrow> act list \<Rightarrow> mutex set option" where
  "follows H [] = Some H"
| "follows H (Lock m # as) = (if \<forall>h\<in>H. rank h < rank m then follows (insert m H) as else None)"
| "follows H (Unlock m # as) = (if m \<in> H then follows (H - {m}) as else None)"
| "follows H (Join # as) = (if H = {} then follows H as else None)"

text \<open>A piece that may be called with mutexes up to rank \<open>r\<close> held: it takes only higher ones and returns with the
  same ones held. A callback is disciplined when it is such a piece for the mutex that it is called with.\<close>

definition nested :: "nat \<Rightarrow> act list \<Rightarrow> bool" where
  "nested r as \<longleftrightarrow> (\<forall>H. (\<forall>h\<in>H. rank h < r) \<longrightarrow> follows H as = Some H) \<and> Join \<notin> set as"

definition disciplined :: "act list set \<Rightarrow> (nat \<Rightarrow> act list set) \<Rightarrow> bool" where
  "disciplined CC CH \<longleftrightarrow> (\<forall>cb\<in>CC. nested 3 cb) \<and> (\<forall>i. \<forall>cb\<in>CH i. nested 2 cb)"

lemma follows_append: "follows H (as @ bs) = Option.bind (follows H as) (\<lambda>H'. follows H' bs)"
  by (induction H as rule: follows.induct) auto

lemma nested_Nil [simp, intro]: "nested r []"
  by (simp add: nested_def)

lemma nested_append [intro]: "nested r as \<Longrightarrow> nested r bs \<Longrightarrow> nested r (as @ bs)"
  by (auto simp: nested_def follows_append)

lemma nested_concat [intro]: "(\<And>as. as \<in> set ass \<Longrightarrow> nested r as) \<Longrightarrow> nested r (concat ass)"
  by (induction ass) auto

lemma nested_less: "nested r as \<Longrightarrow> r' \<le> r \<Longrightarrow> nested r' as"
  unfolding nested_def by (meson order.strict_trans2)

lemma nested_critical [intro]:
  assumes "r \<le> rank m" "nested (Suc (rank m)) as"
  shows "nested r (critical m as)"
proof -
  have "follows H (critical m as) = Some H" if H: "\<forall>h\<in>H. rank h < r" for H
  proof -
    from H assms(1) have "\<forall>h\<in>H. rank h < rank m" "m \<notin> H" by auto
    with assms(2) show ?thesis
      by (simp add: critical_def follows_append nested_def less_Suc_eq)
  qed
  with assms(2) show ?thesis by (simp add: nested_def critical_def)
qed

lemma nested_timed_wait: "Option.bind (follows (insert m {}) (timed_wait m)) f = f {m}"
  by (simp add: timed_wait_def)

text \<open>With nothing held, a piece is \<open>nested 0\<close> when it comes back with nothing held.\<close>

lemma nested_0: "nested 0 as \<longleftrightarrow> follows {} as = Some {} \<and> Join \<notin> set as"
  by (auto simp: nested_def)

lemma follows_waits: "follows {m} (concat (replicate n (timed_wait m))) = Some {m}"
  by (induction n) (simp_all add: follows_append timed_wait_def)

lemma nested_section_waits:
  assumes "nested (Suc (rank m)) cb"
  shows "nested 0 (critical m (cb @ concat (replicate n (timed_wait m))))"
proof -
  have "follows {m} cb = Some {m}" "Join \<notin> set cb" using assms by (simp_all add: nested_def)
  moreover have "Join \<notin> set (concat (replicate n (timed_wait m)))" by (auto simp: timed_wait_def)
  ultimately show ?thesis by (simp add: nested_0 critical_def follows_append follows_waits)
qed

lemma nested_deliver [intro]:
  assumes "\<And>cb. cb \<in> set cbs \<Longrightarrow> nested 0 cb"
  shows "nested 0 (deliver_acts i cbs)"
proof -
  let ?m = "Sub_Mutex i"
  have "follows {?m} (concat (map (\<lambda>cb. [Unlock ?m] @ cb @ [Lock ?m]) cbs)) = Some {?m} \<and>
    Join \<notin> set (concat (map (\<lambda>cb. [Unlock ?m] @ cb @ [Lock ?m]) cbs))"
    using assms by (induction cbs) (auto simp: nested_0 follows_append)
  then show ?thesis by (simp add: nested_0 deliver_acts_def critical_def follows_append)
qed

section \<open>Every path respects the order\<close>

lemma nested_client [intro]:
  shows "nested 3 enqueue_acts" "nested 3 claim_acts" "nested 2 client_state_acts" "nested 0 channel_get_acts"
    "nested 3 cb \<Longrightarrow> nested 2 (conn_change_acts cb)" "nested 2 cb \<Longrightarrow> nested 1 (chan_change_acts i cb)"
    "nested 1 (channel_state_acts i)"
  by (simp_all add: enqueue_acts_def claim_acts_def client_state_acts_def channel_get_acts_def conn_change_acts_def
      chan_change_acts_def channel_state_acts_def nested_critical numeral_2_eq_2 numeral_3_eq_3)

lemma nested_client_0 [intro, simp]:
  shows "nested 0 enqueue_acts" "nested 0 claim_acts" "nested 0 client_state_acts"
    "nested 0 (channel_state_acts i)"
  using nested_client(1,2,3,7) by (auto intro: nested_less)

lemma nested_change_0:
  shows "nested 3 cb \<Longrightarrow> nested 0 (conn_change_acts cb)" "nested 2 cb \<Longrightarrow> nested 0 (chan_change_acts i cb)"
  using nested_client(5)[of cb] nested_client(6)[of cb i] by (auto intro: nested_less)

lemma nested_channel [intro]:
  shows "nested 2 cb \<Longrightarrow> nested 0 (attach_acts i active connected encoded room cb)"
    "nested 2 cb \<Longrightarrow> nested 0 (detach_acts i active encoded room cb)"
    "nested 0 (publish_acts i st encoded)" "nested 0 (publish_with_id_acts i st st' encoded)"
    "nested 0 (subscribe_acts i)" "nested 0 (unsubscribe_acts i token)" "nested 0 (set_state_cb_acts i)"
    "nested 0 (presence_acts i known sends)" "nested 0 (flush_acts pending)"
    "nested 0 det \<Longrightarrow> nested 0 att \<Longrightarrow> nested 0 (set_options_acts i active detached det att)"
  by (auto simp: attach_acts_def detach_acts_def publish_acts_def publish_with_id_acts_def subscribe_acts_def
      unsubscribe_acts_def set_state_cb_acts_def presence_acts_def flush_acts_def set_options_acts_def
      intro!: nested_critical nested_change_0 nested_concat nested_append)

lemma maybe_nested:
  shows "disciplined CC CH \<Longrightarrow> maybe CC cb \<Longrightarrow> nested 3 cb" "disciplined CC CH \<Longrightarrow> maybe (CH i) cb \<Longrightarrow> nested 2 cb"
  by (auto simp: disciplined_def maybe_def)

lemma api_path_nested: "api_path CC CH as \<Longrightarrow> disciplined CC CH \<Longrightarrow> nested 0 as"
  by (induction rule: api_path.induct)
    (auto simp: connect_async_acts_def intro!: nested_channel nested_client(4) nested_change_0 intro: maybe_nested)

lemma calls_nested: "calls CC CH as \<Longrightarrow> disciplined CC CH \<Longrightarrow> nested 0 as"
  by (induction rule: calls.induct) (auto intro: api_path_nested)

lemma reattach_nested [intro]:
  assumes "disciplined CC CH" "\<forall>(i, encoded, cb) \<in> set chs. maybe (CH i) cb"
  shows "nested 0 (reattach_acts chs)"
  unfolding reattach_acts_def using assms
  by (force intro!: nested_critical nested_concat nested_append nested_client(6)[unfolded One_nat_def]
      intro: maybe_nested nested_less[OF nested_client(1)])

lemma disconnect_nested [intro]:
  assumes "disciplined CC CH" "\<forall>(i, cb) \<in> set chs. maybe (CH i) cb"
  shows "nested 0 (disconnect_acts chs)"
  unfolding disconnect_acts_def using assms
  by (force intro!: nested_critical nested_concat nested_client(6)[unfolded One_nat_def] intro: maybe_nested)

lemma suspended_nested: "nested 3 cb \<Longrightarrow> nested 0 (suspended_acts cb)"
  using nested_section_waits[of State_Mutex cb 1] by (simp add: suspended_acts_def)

lemma retry_nested: "nested 0 (retry_acts c)"
  using nested_section_waits[of State_Mutex "[]" 1] by (auto simp: retry_acts_def)

lemma close_follows: "follows {} (close_acts w r) = Some {}"
  using nested_section_waits[of State_Mutex "[]" w]
  by (auto simp: close_acts_def nested_0 follows_append) (simp_all add: critical_def)

lemma frame_nested: "nested 0 frame \<Longrightarrow> nested 0 (channel_frame_acts frame)"
  by (auto simp: channel_frame_acts_def intro!: nested_critical)

lemma attached_nested:
  assumes "nested 2 cb" "nested 0 presence" "\<forall>cbs \<in> set history. \<forall>c \<in> set cbs. nested 0 c"
  shows "nested 0 (on_attached_acts i cb pending presence history reenter)"
  using assms unfolding on_attached_acts_def
  by (auto intro!: nested_append nested_concat nested_deliver nested_channel(9) nested_change_0)

lemma messages_nested:
  assumes "\<forall>(occupancy, cbs) \<in> set ms. nested 0 occupancy \<and> (\<forall>c \<in> set cbs. nested 0 c)"
  shows "nested 0 (on_messages_acts i ms)"
  using assms unfolding on_messages_acts_def by fastforce

lemma svc_path_nested: "svc_path CC CH as \<Longrightarrow> disciplined CC CH \<Longrightarrow> nested 0 as"
proof (induction rule: svc_path.induct)
  case (message_path ms i)
  then show ?case by (intro frame_nested messages_nested) (force dest: calls_nested)
next
  case (attached_path i cb presence history pending reenter)
  then show ?case by (intro frame_nested attached_nested) (auto dest: calls_nested maybe_nested)
qed (auto intro!: nested_append nested_change_0 frame_nested suspended_nested retry_nested nested_critical
    intro: maybe_nested calls_nested)

section \<open>No deadlock\<close>

definition held :: "lock_state \<Rightarrow> nat \<Rightarrow> mutex set" where
  "held s t = {m. ls_owner s m = Some t}"

definition busy :: "(nat \<Rightarrow> act list) \<Rightarrow> nat set" where
  "busy p = {t. p t \<noteq> []}"

definition lock_ok :: "lock_state \<Rightarrow> bool" where
  "lock_ok s \<longleftrightarrow> (\<forall>t. follows (held s t) (ls_prog s t) = Some {}) \<and> Join \<notin> set (ls_prog s 0) \<and>
     finite (busy (ls_prog s)) \<and> (ls_exited s \<longrightarrow> ls_prog s 0 = [])"

lemma lock_ok_start: "lock_ok lock_start"
  by (simp add: lock_ok_def lock_start_def held_def busy_def)

lemma held_take:
  "held (s\<lparr>ls_owner := (ls_owner s)(m \<mapsto> t)\<rparr>) u =
     (if u = t then insert m (held s t) else held s u - {m})"
  by (auto simp: held_def)

lemma held_give:
  "held (s\<lparr>ls_owner := (ls_owner s)(m := None)\<rparr>) u = held s u - {m}"
  by (auto simp: held_def)

lemma held_other [simp]:
  shows "held (s\<lparr>ls_prog := p\<rparr>) u = held s u" "held (s\<lparr>ls_exited := e\<rparr>) u = held s u"
  by (simp_all add: held_def)

lemma finite_busy: "finite (busy p) \<Longrightarrow> finite (busy (p(u := as)))"
  by (rule finite_subset[of _ "insert u (busy p)"]) (auto simp: busy_def)

lemma lock_ok_move:
  assumes ok: "lock_ok s" and p: "ls_prog s t = a # as" and p': "ls_prog s' = (ls_prog s)(t := as)"
    and e: "ls_exited s' = ls_exited s" and others: "\<And>u. u \<noteq> t \<Longrightarrow> held s' u = held s u"
    and own: "follows (held s t) (a # as) = Some {} \<Longrightarrow> follows (held s' t) as = Some {}"
  shows "lock_ok s'"
proof -
  have f: "follows (held s u) (ls_prog s u) = Some {}" for u using ok by (simp add: lock_ok_def)
  have "follows (held s' u) (ls_prog s' u) = Some {}" for u
    using f[of u] own others[of u] by (cases "u = t") (simp_all add: p p')
  moreover have "set (ls_prog s' 0) \<subseteq> set (ls_prog s 0)" using p p' by (cases "t = 0") auto
  moreover have "ls_exited s' \<longrightarrow> ls_prog s' 0 = []" using ok p by (auto simp: lock_ok_def p' e)
  ultimately show ?thesis using ok by (auto simp: lock_ok_def p' intro: finite_busy)
qed

lemma lock_ok_step:
  assumes "lock_step s s'" "lock_ok s"
  shows "lock_ok s'"
  using assms
proof (induction rule: lock_step.induct)
  case (acquire s t m as)
  then have "held s u - {m} = held s u" for u by (auto simp: held_def)
  then show ?case
    by (intro lock_ok_move[OF acquire.prems acquire.hyps(1)]) (simp_all add: held_take split: if_splits)
next
  case (release s t m as)
  then have "u \<noteq> t \<Longrightarrow> held s u - {m} = held s u" for u by (auto simp: held_def)
  then show ?case
    by (intro lock_ok_move[OF release.prems release.hyps(1)]) (simp_all add: held_give split: if_splits)
next
  case (join s t as)
  then show ?case by (intro lock_ok_move[OF join.prems join.hyps(1)]) (simp_all split: if_splits)
qed

lemma lock_ok_free: "lock_ok s \<Longrightarrow> ls_prog s t = [] \<Longrightarrow> held s t = {}"
  unfolding lock_ok_def by (metis follows.simps(1) option.inject)

lemma lock_ok_call:
  assumes "lock_ok s" "ls_prog s t = []" "follows {} as = Some {}" "t = 0 \<longrightarrow> Join \<notin> set as \<and> \<not> ls_exited s"
  shows "lock_ok (s\<lparr>ls_prog := (ls_prog s)(t := as)\<rparr>)"
  using assms lock_ok_free[OF assms(1,2)]
  by (cases "t = 0") (simp_all add: lock_ok_def finite_busy)

lemma lock_ok_trans: "lock_trans CC CH s s' \<Longrightarrow> disciplined CC CH \<Longrightarrow> lock_ok s \<Longrightarrow> lock_ok s'"
proof (induction rule: lock_trans.induct)
  case (piece s as)
  then show ?case using svc_path_nested[of CC CH as] by (auto simp: nested_0 intro!: lock_ok_call)
next
  case (api_call t s as)
  then show ?case using api_path_nested[of CC CH as] by (auto simp: nested_0 intro!: lock_ok_call)
qed (auto simp: close_follows intro: lock_ok_step intro!: lock_ok_call, auto simp: lock_ok_def)

lemma lock_ok_reachable: "(lock_trans CC CH)\<^sup>*\<^sup>* lock_start s \<Longrightarrow> disciplined CC CH \<Longrightarrow> lock_ok s"
  by (induction rule: rtranclp_induct) (auto intro: lock_ok_start lock_ok_trans)

text \<open>The owner of a mutex that somebody waits for can step, or waits for a higher one.\<close>

lemma lock_progress:
  assumes "lock_ok s" "ls_prog s t = Lock m # as"
  shows "\<exists>s'. lock_step s s'"
  using assms(2)
proof (induction "4 - rank m" arbitrary: t m as rule: less_induct)
  case less
  show ?case
  proof (cases "ls_owner s m")
    case None
    then show ?thesis using acquire less.prems by blast
  next
    case (Some u)
    then have m: "m \<in> held s u" by (simp add: held_def)
    have f: "follows (held s u) (ls_prog s u) = Some {}" using assms(1) by (simp add: lock_ok_def)
    show ?thesis
    proof (cases "ls_prog s u")
      case Nil
      with f m show ?thesis by simp
    next
      case (Cons a bs)
      show ?thesis
      proof (cases a)
        case (Lock m')
        with f m Cons have "rank m < rank m'" by (auto split: if_splits)
        moreover have "rank m' < 4" by (cases m') auto
        ultimately show ?thesis using less.hyps[of m' u bs] Cons Lock by auto
      next
        case (Unlock m')
        with f Cons have "ls_owner s m' = Some u" by (auto simp: held_def split: if_splits)
        with Cons Unlock show ?thesis using release by blast
      next
        case Join
        with f m Cons show ?thesis by (auto split: if_splits)
      qed
    qed
  qed
qed

definition waits_for_service :: "lock_state \<Rightarrow> nat \<Rightarrow> bool" where
  "waits_for_service s t \<longleftrightarrow> hd (ls_prog s t) = Join \<and> ls_prog s 0 = [] \<and> \<not> ls_exited s"

lemma lock_live:
  assumes ok: "lock_ok s" and busy: "ls_prog s t \<noteq> []"
  shows "(\<exists>s'. lock_step s s') \<or> waits_for_service s t"
proof -
  have step: "\<exists>s'. lock_step s s'" if "ls_prog s u = a # as" "a \<noteq> Join" for u a as
  proof (cases a)
    case (Lock m)
    with that show ?thesis using lock_progress[OF ok] by blast
  next
    case (Unlock m)
    with that ok have "follows (held s u) (Unlock m # as) = Some {}" by (metis lock_ok_def)
    with that Unlock show ?thesis using release by (fastforce simp: held_def split: if_splits)
  qed (use that in simp)
  obtain a as where p: "ls_prog s t = a # as" using busy by (cases "ls_prog s t") auto
  show ?thesis
  proof (cases "a = Join")
    case True
    consider "ls_exited s" | "ls_prog s 0 = []" "\<not> ls_exited s" | b bs where "ls_prog s 0 = b # bs"
      by (cases "ls_prog s 0") auto
    then show ?thesis
    proof cases
      case 1
      with p True show ?thesis using join by blast
    next
      case 2
      with p True show ?thesis by (simp add: waits_for_service_def)
    next
      case 3
      with ok have "b \<noteq> Join" by (auto simp: lock_ok_def)
      with 3 step show ?thesis by blast
    qed
  qed (use p step in blast)
qed

text \<open>Every step does one of the finitely many operations that the calls in progress still have.\<close>

definition lock_work :: "lock_state \<Rightarrow> nat" where
  "lock_work s = (\<Sum>t\<in>busy (ls_prog s). length (ls_prog s t))"

lemma lock_work_pop:
  assumes "finite (busy p)" "p t = a # as"
  shows "(\<Sum>u\<in>busy p. length (p u)) = Suc (\<Sum>u\<in>busy (p(t := as)). length ((p(t := as)) u))"
proof -
  have t: "t \<in> busy p" using assms by (simp add: busy_def)
  have "(\<Sum>u\<in>busy (p(t := as)). length ((p(t := as)) u)) = (\<Sum>u\<in>busy p. length ((p(t := as)) u))"
    by (rule sum.mono_neutral_left) (use assms in \<open>auto simp: busy_def\<close>)
  also have "\<dots> = length as + (\<Sum>u\<in>busy p - {t}. length (p u))"
    using assms t by (simp add: sum.remove[of "busy p" t])
  finally show ?thesis using assms t by (simp add: sum.remove[of "busy p" t])
qed

lemma lock_work_step: "lock_step s s' \<Longrightarrow> lock_ok s \<Longrightarrow> lock_work s = Suc (lock_work s')"
  by (induction rule: lock_step.induct) (auto simp: lock_work_def lock_ok_def dest: lock_work_pop)

lemma lock_work_bound: "(lock_step ^^ n) s s' \<Longrightarrow> lock_ok s \<Longrightarrow> lock_ok s' \<and> lock_work s = n + lock_work s'"
proof (induction n arbitrary: s')
  case (Suc n)
  then obtain s1 where "(lock_step ^^ n) s s1" "lock_step s1 s'" by auto
  with Suc show ?case using lock_work_step lock_ok_step by fastforce
qed simp

text \<open>Thread \<open>t\<close> waits for a mutex that it owns itself; nothing that anybody does changes that, nor frees another
  thread that waits for it.\<close>

definition stuck :: "lock_state \<Rightarrow> nat \<Rightarrow> mutex \<Rightarrow> bool" where
  "stuck s t m \<longleftrightarrow> ls_owner s m = Some t \<and> (\<exists>as. ls_prog s t = Lock m # as)"

lemma waiter_trans:
  assumes "lock_trans CC CH s s'" "stuck s t m" "ls_prog s u = Lock m # bs"
  shows "stuck s' t m \<and> ls_prog s' u = Lock m # bs"
  using assms
proof (induction rule: lock_trans.induct)
  case (own_step s s')
  then show ?case by (induction rule: lock_step.induct) (auto simp: stuck_def)
qed (auto simp: stuck_def)

lemma waiter_for_ever:
  "(lock_trans CC CH)\<^sup>*\<^sup>* s s' \<Longrightarrow> stuck s t m \<Longrightarrow> ls_prog s u = Lock m # bs \<Longrightarrow> stuck s' t m \<and> ls_prog s' u = Lock m # bs"
  by (induction rule: rtranclp_induct) (auto dest: waiter_trans)

definition hung :: "act list set \<Rightarrow> (nat \<Rightarrow> act list set) \<Rightarrow> mutex \<Rightarrow> lock_state \<Rightarrow> bool" where
  "hung CC CH m s \<longleftrightarrow> (\<forall>s'. (lock_trans CC CH)\<^sup>*\<^sup>* s s' \<longrightarrow> stuck s' 0 m \<and>
     (\<forall>u as s''. ls_prog s' u = Lock m # as \<longrightarrow> (lock_trans CC CH)\<^sup>*\<^sup>* s' s'' \<longrightarrow> ls_prog s'' u = Lock m # as))"

lemma stuck_hung:
  assumes "stuck s 0 m"
  shows "hung CC CH m s"
proof -
  obtain bs where "ls_prog s 0 = Lock m # bs" using assms by (auto simp: stuck_def)
  then have "stuck s' 0 m" if "(lock_trans CC CH)\<^sup>*\<^sup>* s s'" for s' using waiter_for_ever[OF that assms] by blast
  then show ?thesis unfolding hung_def using waiter_for_ever by blast
qed

text \<open>The state after the service thread has begun a piece and taken its first mutexes.\<close>

lemma take_reachable:
  assumes "(lock_trans CC CH)\<^sup>*\<^sup>* s0 s" "ls_prog s 0 = Lock m # as" "ls_owner s m = None"
  shows "(lock_trans CC CH)\<^sup>*\<^sup>* s0 (s\<lparr>ls_owner := (ls_owner s)(m \<mapsto> 0), ls_prog := (ls_prog s)(0 := as)\<rparr>)"
  using assms(1) own_step[OF acquire[OF assms(2,3)]] by (rule rtranclp.rtrancl_into_rtrancl)

lemma give_reachable:
  assumes "(lock_trans CC CH)\<^sup>*\<^sup>* s0 s" "ls_prog s 0 = Unlock m # as" "ls_owner s m = Some 0"
  shows "(lock_trans CC CH)\<^sup>*\<^sup>* s0 (s\<lparr>ls_owner := (ls_owner s)(m := None), ls_prog := (ls_prog s)(0 := as)\<rparr>)"
  using assms(1) own_step[OF release[OF assms(2,3)]] by (rule rtranclp.rtrancl_into_rtrancl)

lemma piece_reachable:
  "svc_path CC CH as \<Longrightarrow> (lock_trans CC CH)\<^sup>*\<^sup>* lock_start (lock_start\<lparr>ls_prog := (\<lambda>t. [])(0 := as)\<rparr>)"
  using piece[of lock_start CC CH as] by (auto simp: lock_start_def)

lemma connection_callback_hangs:
  assumes "Lock State_Mutex # as \<in> CC"
  shows "\<exists>s. (lock_trans CC CH)\<^sup>*\<^sup>* lock_start s \<and> hung CC CH State_Mutex s"
proof -
  have "svc_path CC CH (conn_change_acts (Lock State_Mutex # as))"
    using assms by (intro change_path) (simp add: maybe_def)
  note r = piece_reachable[OF this]
  show ?thesis
    by - (rule exI, rule conjI, rule take_reachable[OF r], unfold conn_change_acts_def critical_def,
      auto simp: lock_start_def stuck_def intro!: stuck_hung)
qed

lemma connection_callback_attach_hangs:
  assumes "Lock (Sub_Mutex i) # Unlock (Sub_Mutex i) # Lock State_Mutex # as \<in> CC"
  shows "\<exists>s. (lock_trans CC CH)\<^sup>*\<^sup>* lock_start s \<and> hung CC CH State_Mutex s"
proof -
  have "svc_path CC CH (conn_change_acts (Lock (Sub_Mutex i) # Unlock (Sub_Mutex i) # Lock State_Mutex # as))"
    using assms by (intro change_path) (simp add: maybe_def)
  note r = piece_reachable[OF this]
  show ?thesis
    by - (rule exI, rule conjI, rule give_reachable[OF take_reachable[OF take_reachable[OF r]]],
      unfold conn_change_acts_def critical_def, auto simp: lock_start_def stuck_def intro!: stuck_hung)
qed

lemma channel_callback_hangs:
  assumes "Lock m # as \<in> CH i" "m = Sub_Mutex i \<or> m = Chan_Mutex"
  shows "\<exists>s. (lock_trans CC CH)\<^sup>*\<^sup>* lock_start s \<and> hung CC CH m s"
proof -
  have "svc_path CC CH (disconnect_acts [(i, Lock m # as)])"
    using assms by (intro disconnect_path) (simp add: maybe_def)
  note r = piece_reachable[OF this]
  show ?thesis using assms(2)
    by - (rule exI, rule conjI, rule take_reachable[OF take_reachable[OF r]],
      unfold disconnect_acts_def chan_change_acts_def critical_def,
      auto simp: lock_start_def stuck_def intro!: stuck_hung)
qed

section \<open>The properties\<close>

text \<open>C5. Callbacks that respect the order of the mutexes cannot make the client hang: in every state that any number of
  threads reach, no execution of the operations in progress is longer than \<open>lock_work\<close>, and where none can
  go on, every call has returned, unless it has closed the client and waits for the service thread, which is between
  two pieces; nothing is locked then.\<close>

theorem deadlock_free:
  assumes "disciplined CC CH" "(lock_trans CC CH)\<^sup>*\<^sup>* lock_start s"
  shows "((lock_step ^^ n) s s' \<longrightarrow> n \<le> lock_work s) \<and>
    (lock_step\<^sup>*\<^sup>* s s' \<and> (\<nexists>s''. lock_step s' s'') \<longrightarrow>
      (\<forall>t. (ls_prog s' t = [] \<or> waits_for_service s' t) \<and> (\<forall>m. ls_owner s' m \<noteq> Some t)))"
proof -
  note ok = lock_ok_reachable[OF assms(2,1)]
  have "(ls_prog s' t = [] \<or> waits_for_service s' t) \<and> ls_owner s' m \<noteq> Some t"
    if r: "lock_step\<^sup>*\<^sup>* s s'" and no: "\<nexists>s''. lock_step s' s''" for t m
  proof -
    from r obtain k where "(lock_step ^^ k) s s'" using rtranclp_imp_relpowp by metis
    with ok have ok': "lock_ok s'" using lock_work_bound by blast
    have done_or: "ls_prog s' t = [] \<or> waits_for_service s' t" using lock_live[OF ok'] no by blast
    have f: "follows (held s' t) (ls_prog s' t) = Some {}" using ok' by (simp add: lock_ok_def)
    have "held s' t = {}"
    proof (cases "ls_prog s' t")
      case (Cons a as)
      with done_or have "a = Join" by (auto simp: waits_for_service_def)
      with f Cons show ?thesis by (simp split: if_splits)
    qed (use f in simp)
    with done_or show ?thesis by (auto simp: held_def)
  qed
  moreover have "n \<le> lock_work s" if "(lock_step ^^ n) s s'" using lock_work_bound[OF that ok] by simp
  ultimately show ?thesis by blast
qed

lemma printing_callbacks_disciplined: "disciplined {[]} (\<lambda>i. {client_state_acts})"
  using nested_client(3) by (auto simp: disciplined_def)

lemma deadlock_free_witness:
  "\<exists>s. (lock_trans {[]} (\<lambda>i. {client_state_acts}))\<^sup>*\<^sup>* lock_start s \<and> ls_prog s 1 = publish_acts 0 CHAN_ATTACHED True \<and>
     (\<forall>n s'. (lock_step ^^ n) s s' \<longrightarrow> n \<le> lock_work s)"
proof -
  let ?s = "lock_start\<lparr>ls_prog := (ls_prog lock_start)(1 := publish_acts 0 CHAN_ATTACHED True)\<rparr>"
  have "lock_trans {[]} (\<lambda>i. {client_state_acts}) lock_start ?s"
    by (rule api_call) (simp_all add: lock_start_def publish_path)
  then have r: "(lock_trans {[]} (\<lambda>i. {client_state_acts}))\<^sup>*\<^sup>* lock_start ?s" by simp
  then show ?thesis using deadlock_free[OF printing_callbacks_disciplined r] by (intro exI[of _ ?s]) auto
qed

text \<open>C21. A state callback that calls the library can hang it: the connection's callback asking for the state of
  the connection or attaching a channel, the callback of a channel asking for the state of that channel, or looking
  up a channel while the connection is lost. From then on the service thread never goes on, and no call that needs
  the mutex returns; for \<^verbatim>\<open>state_mutex\<close> that includes \<^verbatim>\<open>ably_rt_client_close\<close>.\<close>

theorem state_callback_reentry_deadlocks:
  "(client_state_acts \<in> CC \<or> attach_acts i False connected encoded room cb \<in> CC \<longrightarrow>
      (\<exists>s. (lock_trans CC CH)\<^sup>*\<^sup>* lock_start s \<and> hung CC CH State_Mutex s)) \<and>
   (channel_state_acts i \<in> CH i \<longrightarrow> (\<exists>s. (lock_trans CC CH)\<^sup>*\<^sup>* lock_start s \<and> hung CC CH (Sub_Mutex i) s)) \<and>
   (channel_get_acts \<in> CH i \<longrightarrow> (\<exists>s. (lock_trans CC CH)\<^sup>*\<^sup>* lock_start s \<and> hung CC CH Chan_Mutex s)) \<and>
   (\<exists>as. close_acts wakes running = Lock State_Mutex # as)"
  using connection_callback_hangs[of "[Unlock State_Mutex]" CC CH]
    connection_callback_attach_hangs[of i "tl (drop 2 (attach_acts i False connected encoded room cb))" CC CH]
    channel_callback_hangs[of "Sub_Mutex i" "[Unlock (Sub_Mutex i)]" CH i CC]
    channel_callback_hangs[of Chan_Mutex "[Unlock Chan_Mutex]" CH i CC]
  by (auto simp: client_state_acts_def channel_state_acts_def channel_get_acts_def critical_def close_acts_def
      attach_acts_def)

lemma state_callback_reentry_deadlocks_witness:
  "(\<exists>s. (lock_trans {client_state_acts} (\<lambda>i. {}))\<^sup>*\<^sup>* lock_start s \<and> hung {client_state_acts} (\<lambda>i. {}) State_Mutex s) \<and>
   (\<exists>s. (lock_trans {} (\<lambda>i. {channel_state_acts i}))\<^sup>*\<^sup>* lock_start s \<and> hung {} (\<lambda>i. {channel_state_acts i}) (Sub_Mutex 3) s) \<and>
   (\<exists>s. (lock_trans {} (\<lambda>i. {channel_get_acts}))\<^sup>*\<^sup>* lock_start s \<and> hung {} (\<lambda>i. {channel_get_acts}) Chan_Mutex s)"
  using state_callback_reentry_deadlocks[of "{client_state_acts}" 0 True True True "[]" "\<lambda>i. {}"]
    state_callback_reentry_deadlocks[of "{}" 3 True True True "[]" "\<lambda>i. {channel_state_acts i}"]
    state_callback_reentry_deadlocks[of "{}" 0 True True True "[]" "\<lambda>i. {channel_get_acts}"] by simp

section \<open>Timed waits\<close>

text \<open>The time that the SUSPENDED state waits: the server's \<^verbatim>\<open>connectionStateTtl\<close>, an \<^verbatim>\<open>int64_t\<close>, as an \<^verbatim>\<open>int\<close>.\<close>

definition suspended_timeout :: "int \<Rightarrow> int" where
  "suspended_timeout ttl = sint (word_of_int (if ttl > 0 then ttl else 120000) :: 32 word)"

lemma deadline_of_positive:
  assumes "0 \<le> timeout_ms" "0 \<le> nsec" "nsec < 1000000000"
  shows "case timedwait_deadline sec nsec timeout_ms of (s, n) \<Rightarrow>
    0 \<le> n \<and> n < 1000000000 \<and> s * 1000000000 + n = sec * 1000000000 + nsec + timeout_ms * 1000000"
proof -
  have "timeout_ms div 1000 * 1000000000 + timeout_ms mod 1000 * 1000000 = timeout_ms * 1000000"
    using div_mult_mod_eq[of timeout_ms 1000] by linarith
  with assms show ?thesis by (auto simp: timedwait_deadline_def Let_def sgn_if)
qed

lemma suspended_timeout_negative: "suspended_timeout 3000000000 = - 1294967296"
  by (simp add: suspended_timeout_def)

lemma deadline_of_negative: "timedwait_deadline 1000000000 0 (suspended_timeout 3000000000) = (998705033, - 296000000)"
  by (simp add: suspended_timeout_negative timedwait_deadline_def)

end
