(* ===== verification/Ably_Publish_Race.thy ===== *)
theory Ably_Publish_Race
  imports Ably_Channel_Props "HOL-Library.Product_Lexorder"
begin

text \<open>
  Publishing from several threads. \<^verbatim>\<open>ably_channel_publish\<close> and \<^verbatim>\<open>ably_channel_publish_with_id\<close> look at the state of the
  channel, claim a serial and enqueue the frame in three critical sections, under \<^verbatim>\<open>sub_mutex\<close>, \<^verbatim>\<open>send_mutex\<close> and
  \<^verbatim>\<open>send_mutex\<close> again; \<^verbatim>\<open>flush_pending_queue\<close>, on the service thread, claims and enqueues in the same way. Elsewhere
  in the development they are one step; here each section is, and the sections of different threads and of all the
  channels of a client interleave with those of the service thread: its reset of the serial before a connection,
  the ATTACHED frame, the clientId of a CONNECTED frame, the draining of the ring, and any other change of a
  channel's state or frame put into the ring.
\<close>

section \<open>Threads and critical sections\<close>

text \<open>A message to encode: the size of the encoder's buffer, name, data and id. Where a thread is: outside, about to
  call \<^verbatim>\<open>ably_channel_publish\<close> from \<^verbatim>\<open>ably_channel_publish_with_id\<close>, having seen ATTACHED, or having claimed a serial;
  the service thread in the loop of \<^verbatim>\<open>flush_pending_queue\<close>, before a message or having claimed its serial. Beside a
  serial stands the number of the connection attempt it was claimed in, kept for the statements only.\<close>

type_synonym pub_msg = "nat \<times> string option \<times> string option \<times> string option"

datatype pub_pc =
    Pub_Idle
  | Pub_Again nat "string option" "string option"
  | Pub_Checked nat pub_msg
  | Pub_Claimed nat "nat \<times> int" pub_msg
  | Flush_Top nat
  | Flush_Claimed nat "nat \<times> int" pub_msg

text \<open>The channels and the client, the threads, and, kept for the statements only, the number of connection attempts,
  the frames put into the ring, in order, those of messages with the thread and the serial, and the frames that
  were taken off it.\<close>

record 'x race =
  pr_chans :: "nat \<Rightarrow> channel"
  pr_core :: "'x rt_core_scheme"
  pr_events :: "chan_event list"
  pr_pc :: "nat \<Rightarrow> pub_pc"
  pr_epoch :: nat
  pr_put :: "(string \<times> (nat \<times> nat \<times> int) option) list"
  pr_taken :: "string list"

definition set_pc :: "nat \<Rightarrow> pub_pc \<Rightarrow> 'x race \<Rightarrow> 'x race" where
  "set_pc t pc s = s\<lparr>pr_pc := (pr_pc s)(t := pc)\<rparr>"

definition race_start :: "(nat \<Rightarrow> channel) \<Rightarrow> 'x rt_core_scheme \<Rightarrow> 'x race" where
  "race_start chans c = \<lparr>pr_chans = chans, pr_core = c, pr_events = [], pr_pc = (\<lambda>t. Pub_Idle), pr_epoch = 0,
     pr_put = [], pr_taken = []\<rparr>"

text \<open>The operations of a channel see this channel and the client.\<close>

definition world_of :: "nat \<Rightarrow> 'x race \<Rightarrow> 'x rt_core_scheme chan_world" where
  "world_of i s = \<lparr>cw_ch = pr_chans s i, cw_core = pr_core s, cw_events = pr_events s\<rparr>"

definition put_world :: "nat \<Rightarrow> 'x rt_core_scheme chan_world \<Rightarrow> 'x race \<Rightarrow> 'x race" where
  "put_world i w s = s\<lparr>pr_chans := (pr_chans s)(i := cw_ch w), pr_core := cw_core w, pr_events := cw_events w\<rparr>"

text \<open>The frame of a message with its serial, and the section that enqueues a frame.\<close>

definition plain :: "string option \<Rightarrow> string option \<Rightarrow> pub_msg" where
  "plain name data = (PUBLISH_BUF, name, data, None)"

definition race_frame :: "codec_lib \<Rightarrow> channel \<Rightarrow> 'x rt_core_scheme \<Rightarrow> pub_msg \<Rightarrow> int \<Rightarrow> string" where
  "race_frame lib ch c m n =
     (case m of (cap, name, data, msg_id) \<Rightarrow>
        proto_encode_publish lib cap (ch_name ch) name data (c_opt (rc_client_id c)) msg_id n (rc_encoding c))"

text \<open>Frames are shorter than what the ring takes, as \<^verbatim>\<open>rt_enqueue_frame\<close> asserts; \<^verbatim>\<open>mpack_writer\<close> does not write beyond
  its buffer.\<close>

lemma race_frame_fits:
  assumes "fst m \<le> PUBLISH_BUF + 128" "\<And>len v. length (lib_mp_write lib len v) \<le> len"
  shows "length (race_frame lib ch c m n) < ABLY_FRAME_PAYLOAD_MAX"
proof -
  obtain cap name data msg_id where m: "m = (cap, name, data, msg_id)" by (cases m)
  have "length (race_frame lib ch c m n) \<le> cap"
    using assms(2)[of cap]
    by (cases "rc_encoding c") (auto simp: race_frame_def m proto_encode_publish_def proto_encode_publish_json_def
        proto_encode_publish_msgpack_def emit_json_def Let_def split: option.split)
  with assms(1) m show ?thesis
    by (simp add: PUBLISH_BUF_def ABLY_FRAME_PAYLOAD_MAX_def capacity_defs)
qed

definition race_enqueue :: "string \<Rightarrow> (nat \<times> nat \<times> int) option \<Rightarrow> 'x race \<Rightarrow> 'x race" where
  "race_enqueue buf by_whom s =
     (case rt_enqueue_frame buf (pr_core s) of (err, c) \<Rightarrow>
        s\<lparr>pr_core := c, pr_put := pr_put s @ (if err = ABLY_OK then [(buf, by_whom)] else [])\<rparr>)"

definition race_put :: "codec_lib \<Rightarrow> nat \<Rightarrow> nat \<Rightarrow> nat \<times> int \<Rightarrow> pub_msg \<Rightarrow> 'x race \<Rightarrow> 'x race" where
  "race_put lib t i st m s =
     (let buf = race_frame lib (pr_chans s i) (pr_core s) m (snd st)
      in if buf = [] then s else race_enqueue buf (Some (t, st)) s)"

text \<open>The section that claims a serial.\<close>

definition race_claim :: "'x race \<Rightarrow> (nat \<times> int) \<times> 'x race" where
  "race_claim s = (case rt_claim_msg_serial (pr_core s) of (n, c) \<Rightarrow> ((pr_epoch s, n), s\<lparr>pr_core := c\<rparr>))"

text \<open>The sections: a call of one of the two publishing functions with its first section, \<^verbatim>\<open>ably_channel_publish\<close> when
  it is called from the other, claiming and enqueuing; the service thread, which is thread 0, getting ATTACHED for a
  channel, resetting the serial before a connection, taking over the clientId of a CONNECTED frame and taking a frame off
  the ring; and a thread that is not publishing changing the state of a channel to any other (attach, detach, DETACHED,
  ERROR, a lost connection) or enqueuing any other frame. A step that cannot happen is \<open>None\<close>.\<close>

datatype race_act =
    Publish_Call nat nat "string option" "string option" "string option"
  | Again nat
  | Claim nat
  | Put nat
  | Attached nat
  | New_Connection
  | Client_Id string
  | Drain
  | Chan_State nat nat ably_channel_state ably_error
  | Other_Frame nat string

fun race_do :: "codec_lib \<Rightarrow> race_act \<Rightarrow> 'x race \<Rightarrow> 'x race option" where
  "race_do lib (Publish_Call t i name data msg_id) s =
     (if pr_pc s t \<noteq> Pub_Idle then None
      else if ch_state (pr_chans s i) = CHAN_ATTACHED
        then Some (set_pc t (Pub_Checked i (if msg_id = None then plain name data else (PUBLISH_BUF + 128, name, data, msg_id))) s)
      else if msg_id \<noteq> None \<and> ch_state (pr_chans s i) = CHAN_ATTACHING then Some (set_pc t (Pub_Again i name data) s)
      else Some (put_world i (snd (channel_publish lib name data (world_of i s))) s))"
| "race_do lib (Again t) s =
     (case pr_pc s t of
        Pub_Again i name data \<Rightarrow>
          (if ch_state (pr_chans s i) = CHAN_ATTACHED then Some (set_pc t (Pub_Checked i (plain name data)) s)
           else Some (set_pc t Pub_Idle (put_world i (snd (channel_publish lib name data (world_of i s))) s)))
      | _ \<Rightarrow> None)"
| "race_do lib (Claim t) s =
     (case pr_pc s t of
        Pub_Checked i m \<Rightarrow> (case race_claim s of (st, s') \<Rightarrow> Some (set_pc t (Pub_Claimed i st m) s'))
      | Flush_Top i \<Rightarrow>
          (case ring_peek (ch_pending (pr_chans s i)) of
             None \<Rightarrow> Some (set_pc t Pub_Idle s)
           | Some (name, data) \<Rightarrow>
               (case race_claim s of (st, s') \<Rightarrow> Some (set_pc t (Flush_Claimed i st (plain (c_opt name) (c_opt data))) s')))
      | _ \<Rightarrow> None)"
| "race_do lib (Put t) s =
     (case pr_pc s t of
        Pub_Claimed i st m \<Rightarrow> Some (set_pc t Pub_Idle (race_put lib t i st m s))
      | Flush_Claimed i st m \<Rightarrow>
          (let s' = race_put lib t i st m s in
           Some (set_pc t (Flush_Top i) (put_world i
             (set_ch (\<lambda>ch. ch\<lparr>ch_pending := ring_consume ABLY_CHANNEL_PENDING_CAPACITY (ch_pending ch)\<rparr>) (world_of i s')) s')))
      | _ \<Rightarrow> None)"
| "race_do lib (Attached i) s =
     (if pr_pc s 0 \<noteq> Pub_Idle then None
      else Some (set_pc 0 (Flush_Top i) (put_world i (set_state_locked CHAN_ATTACHED ABLY_OK (world_of i s)) s)))"
| "race_do lib New_Connection s =
     (if pr_pc s 0 \<noteq> Pub_Idle then None
      else Some (s\<lparr>pr_core := (pr_core s)\<lparr>rc_msg_serial := 0\<rparr>, pr_epoch := pr_epoch s + 1\<rparr>))"
| "race_do lib (Client_Id cid) s =
     (if pr_pc s 0 \<noteq> Pub_Idle then None
      else Some (s\<lparr>pr_core := (pr_core s)\<lparr>rc_client_id := (if cid \<noteq> [] \<and> rc_client_id (pr_core s) = []
        then c_copy ABLY_MAX_CLIENT_ID_LEN cid else rc_client_id (pr_core s))\<rparr>\<rparr>))"
| "race_do lib Drain s =
     (if pr_pc s 0 \<noteq> Pub_Idle then None
      else case rt_drain_one (pr_core s) of (f, c) \<Rightarrow>
        Some (s\<lparr>pr_core := c, pr_taken := pr_taken s @ (case f of None \<Rightarrow> [] | Some p \<Rightarrow> [p])\<rparr>))"
| "race_do lib (Chan_State t i st reason) s =
     (if pr_pc s t \<noteq> Pub_Idle then None
      else Some (put_world i (set_state_locked st reason (world_of i s)) s))"
| "race_do lib (Other_Frame t buf) s =
     (if pr_pc s t \<noteq> Pub_Idle then None else Some (race_enqueue buf None s))"

fun race_run :: "codec_lib \<Rightarrow> race_act list \<Rightarrow> 'x race \<Rightarrow> 'x race option" where
  "race_run lib [] s = Some s"
| "race_run lib (a # as) s = Option.bind (race_do lib a s) (race_run lib as)"

section \<open>Alone, a thread does what the whole function does\<close>

lemma world_of_simps [simp]:
  shows "cw_ch (world_of i s) = pr_chans s i" "cw_core (world_of i s) = pr_core s" "cw_events (world_of i s) = pr_events s"
  by (simp_all add: world_of_def)

lemma world_of_pc [simp]: "world_of i (set_pc t pc s) = world_of i s"
  by (simp add: world_of_def set_pc_def)

lemma put_world_simps [simp]:
  shows "pr_pc (put_world i w s) = pr_pc s" "pr_epoch (put_world i w s) = pr_epoch s" "pr_put (put_world i w s) = pr_put s"
    "pr_taken (put_world i w s) = pr_taken s" "pr_core (put_world i w s) = cw_core w"
    "pr_chans (put_world i w s) = (pr_chans s)(i := cw_ch w)" "world_of i (put_world i w s) = w"
  by (simp_all add: put_world_def world_of_def)

text \<open>The other channels are not touched.\<close>

lemma publish_alone:
  assumes "pr_pc s t = Pub_Idle" "ch_state (pr_chans s i) = CHAN_ATTACHED"
  shows "\<exists>s'. race_run lib [Publish_Call t i name data msg_id, Claim t, Put t] s = Some s' \<and>
    world_of i s' = snd (if msg_id = None then channel_publish lib name data (world_of i s)
      else channel_publish_with_id lib name data msg_id (world_of i s)) \<and> pr_pc s' = pr_pc s \<and> (\<forall>j. j \<noteq> i \<longrightarrow> pr_chans s' j = pr_chans s j)"
  using assms
  by (auto simp: set_pc_def race_claim_def race_put_def race_frame_def race_enqueue_def plain_def channel_publish_def
      channel_publish_with_id_def publish_frame_def chan_enqueue_def Let_def rt_claim_msg_serial_def world_of_def
      split: prod.splits)

text \<open>The service thread alone does what \<^verbatim>\<open>flush_pending_queue\<close> does; no message is lost or doubled in the loop.\<close>

lemma flush_alone:
  assumes "pr_pc s 0 = Flush_Top i"
  shows "\<exists>as s'. race_run lib as s = Some s' \<and> world_of i s' = flush_loop lib n (world_of i s) \<and> set as \<subseteq> {Claim 0, Put 0}"
  using assms
proof (induction n arbitrary: s)
  case 0
  show ?case by (rule exI[of _ "[]"]) simp
next
  case (Suc n)
  show ?case
  proof (cases "ring_peek (ch_pending (pr_chans s i))")
    case None
    then show ?thesis by (intro exI[of _ "[]"]) simp
  next
    case (Some q)
    obtain name data where q: "q = (name, data)" by (cases q)
    define s1 where "s1 = the (race_run lib [Claim 0, Put 0] s)"
    define w1 where "w1 = set_ch (\<lambda>ch. ch\<lparr>ch_pending := ring_consume ABLY_CHANNEL_PENDING_CAPACITY (ch_pending ch)\<rparr>)
      (snd (publish_frame lib PUBLISH_BUF (c_opt name) (c_opt data) None (world_of i s)))"
    have 1: "race_run lib [Claim 0, Put 0] s = Some s1" "world_of i s1 = w1" "pr_pc s1 0 = Flush_Top i"
      using Some Suc.prems
      by (auto simp: s1_def w1_def q set_pc_def race_claim_def race_put_def race_frame_def race_enqueue_def plain_def
          publish_frame_def chan_enqueue_def Let_def rt_claim_msg_serial_def world_of_def put_world_def set_ch_def split: prod.splits)
    obtain as s' where 2: "race_run lib as s1 = Some s'" "world_of i s' = flush_loop lib n w1" "set as \<subseteq> {Claim 0, Put 0}"
      using Suc.IH[OF 1(3)] 1(2) by auto
    have "race_run lib (Claim 0 # Put 0 # as) s = Some s'"
      using 1(1) 2(1) by (auto simp: bind_eq_Some_conv)
    then show ?thesis using 2 Some q
      by (intro exI[of _ "Claim 0 # Put 0 # as"] exI[of _ s']) (simp add: w1_def case_prod_beta)
  qed
qed

section \<open>Serials and order\<close>

text \<open>The sections of \<open>ch\<close> that publish: thread and serial with its connection attempt; such pairs are ordered by the
  attempt first.\<close>

fun pc_serial :: "pub_pc \<Rightarrow> (nat \<times> int) option" where
  "pc_serial (Pub_Claimed i st m) = Some st"
| "pc_serial (Flush_Claimed i st m) = Some st"
| "pc_serial pc = None"

definition messages_put :: "(string \<times> (nat \<times> nat \<times> int) option) list \<Rightarrow> (nat \<times> nat \<times> int) list" where
  "messages_put put = map (the \<circ> snd) (filter (\<lambda>e. snd e \<noteq> None) put)"

definition serials_of :: "nat \<Rightarrow> (nat \<times> 'a) list \<Rightarrow> 'a list" where
  "serials_of t put = map snd (filter (\<lambda>e. fst e = t) put)"

text \<open>About the next serial, the serials claimed by the threads, and what they have put: every serial is claimed once,
  and a thread claims them in rising order.\<close>

definition serials_ok :: "'a::linorder \<Rightarrow> (nat \<Rightarrow> 'a option) \<Rightarrow> (nat \<times> 'a) list \<Rightarrow> bool" where
  "serials_ok ser cl put \<longleftrightarrow>
     (\<forall>n \<in> snd ` set put. n < ser) \<and> distinct (map snd put) \<and>
     (\<forall>t n. cl t = Some n \<longrightarrow> n < ser \<and> n \<notin> snd ` set put \<and> (\<forall>k \<in> set (serials_of t put). k < n)) \<and>
     (\<forall>t u n. cl t = Some n \<longrightarrow> cl u = Some n \<longrightarrow> t = u) \<and> (\<forall>t. sorted_wrt (<) (serials_of t put))"

lemma serials_in: "k \<in> set (serials_of t put) \<Longrightarrow> k \<in> snd ` set put"
  by (force simp: serials_of_def)

lemma serials_later: "serials_ok ser cl put \<Longrightarrow> ser \<le> ser' \<Longrightarrow> serials_ok ser' cl put"
  by (force simp: serials_ok_def)

lemma serials_claim:
  assumes "serials_ok ser cl put" "ser < ser'"
  shows "serials_ok ser' (cl(t := Some ser)) put"
proof -
  have b: "n < ser" if "n \<in> snd ` set put" for n using assms(1) that by (auto simp: serials_ok_def)
  have c: "n < ser" if "cl u = Some n" for u n using assms(1) that by (auto simp: serials_ok_def)
  have "distinct (map snd put)" "\<forall>u. sorted_wrt (<) (serials_of u put)"
    using assms(1) by (simp_all add: serials_ok_def)
  moreover have "\<forall>n \<in> snd ` set put. n < ser'" using b assms(2) by (meson order_less_trans)
  moreover have "n < ser' \<and> n \<notin> snd ` set put \<and> (\<forall>k \<in> set (serials_of u put). k < n)"
    if u: "(cl(t := Some ser)) u = Some n" for u n
  proof (cases "u = t")
    case True
    with u have "n = ser" by simp
    moreover have "k < ser" if "k \<in> set (serials_of u put)" for k using b serials_in[OF that] by blast
    ultimately show ?thesis using b assms(2) by auto
  next
    case False
    with u have "n < ser'" using order.strict_trans[OF c assms(2)] by simp
    with False u assms(1) show ?thesis by (auto simp: serials_ok_def)
  qed
  moreover have "u = v" if "(cl(t := Some ser)) u = Some n" "(cl(t := Some ser)) v = Some n" for u v n
    using assms(1) c that by (auto simp: serials_ok_def split: if_splits)
  ultimately show ?thesis unfolding serials_ok_def by blast
qed

lemma serials_put:
  assumes "serials_ok ser cl put" "cl t = Some n"
  shows "serials_ok ser (cl(t := None)) (put @ [(t, n)])"
proof -
  have n: "n < ser" "n \<notin> snd ` set put" "\<forall>k \<in> set (serials_of t put). k < n"
    using assms by (auto simp: serials_ok_def)
  have eq: "serials_of u (put @ [(t, n)]) = serials_of u put @ (if u = t then [n] else [])" for u
    by (simp add: serials_of_def)
  from assms n show ?thesis unfolding serials_ok_def eq by (auto simp: sorted_wrt_append)
qed

lemma serials_skip: "serials_ok ser cl put \<Longrightarrow> serials_ok ser (cl(t := None)) put"
  by (auto simp: serials_ok_def)

definition claims :: "'x race \<Rightarrow> nat \<Rightarrow> (nat \<times> int) option" where
  "claims s t = pc_serial (pr_pc s t)"

text \<open>A frame of one of the channels, whatever the clientId at the time.\<close>

definition is_publish :: "codec_lib \<Rightarrow> (nat \<Rightarrow> channel) \<Rightarrow> 'x rt_core_scheme \<Rightarrow> string \<Rightarrow> int \<Rightarrow> bool" where
  "is_publish lib chans c f n \<longleftrightarrow> (\<exists>i m cid. f = race_frame lib (chans i) (c\<lparr>rc_client_id := cid\<rparr>) m n)"

definition race_inv :: "codec_lib \<Rightarrow> (nat \<Rightarrow> channel) \<Rightarrow> 'x rt_core_scheme \<Rightarrow> 'x race \<Rightarrow> bool" where
  "race_inv lib chans c s \<longleftrightarrow>
     core_inv (pr_core s) \<and> (\<forall>i. ch_name (pr_chans s i) = ch_name (chans i)) \<and> rc_encoding (pr_core s) = rc_encoding c \<and>
     pr_taken s @ rc_pending_frames (pr_core s) = rc_pending_frames c @ map fst (pr_put s) \<and>
     (\<forall>f t e n. (f, Some (t, e, n)) \<in> set (pr_put s) \<longrightarrow> is_publish lib chans c f n) \<and>
     serials_ok (pr_epoch s, rc_msg_serial (pr_core s)) (claims s) (messages_put (pr_put s))"

lemma messages_put_simps [simp]:
  shows "messages_put [] = []" "messages_put (put @ [(f, None)]) = messages_put put"
    "messages_put (put @ [(f, Some st)]) = messages_put put @ [st]"
  by (cases st, simp_all add: messages_put_def)+

lemma race_inv_start: "core_inv c \<Longrightarrow> race_inv lib chans c (race_start chans c)"
  by (simp add: race_inv_def race_start_def serials_ok_def claims_def serials_of_def)

lemma claims_set_pc: "claims (set_pc t pc s) = (claims s)(t := pc_serial pc)"
  by (auto simp: claims_def set_pc_def)

lemma claims_idem: "claims s t = v \<Longrightarrow> (claims s)(t := v) = claims s"
  by auto

lemma set_pc_fields [simp]:
  shows "pr_chans (set_pc t pc s) = pr_chans s" "pr_core (set_pc t pc s) = pr_core s" "pr_put (set_pc t pc s) = pr_put s"
    "pr_taken (set_pc t pc s) = pr_taken s" "pr_epoch (set_pc t pc s) = pr_epoch s" "pr_pc (set_pc t pc s) t = pc"
  by (simp_all add: set_pc_def)

lemma race_inv_pc:
  assumes "race_inv lib chans c s" "pc_serial (pr_pc s t) = None" "pc_serial pc = None"
  shows "race_inv lib chans c (set_pc t pc s)"
  using assms by (simp add: race_inv_def claims_set_pc claims_idem claims_def)

lemma race_inv_claim:
  assumes "race_inv lib chans c s" "race_claim s = (st, s')" "pc_serial pc = Some st"
  shows "race_inv lib chans c (set_pc t pc s')"
proof -
  from assms(2) have s': "st = (pr_epoch s, rc_msg_serial (pr_core s))"
    "s' = s\<lparr>pr_core := (pr_core s)\<lparr>rc_msg_serial := rc_msg_serial (pr_core s) + 1\<rparr>\<rparr>"
    by (auto simp: race_claim_def rt_claim_msg_serial_def)
  have "claims s' = claims s" by (simp add: claims_def fun_eq_iff s'(2))
  then show ?thesis
    using assms(1,3) serials_claim[of _ "claims s" "messages_put (pr_put s)" "(pr_epoch s, rc_msg_serial (pr_core s) + 1)" t]
    by (simp add: race_inv_def claims_set_pc s' core_inv_def rc_pending_frames_def)
qed

text \<open>Changes of a channel alone.\<close>

lemma race_inv_channel:
  assumes "race_inv lib chans c s" "cw_core w = pr_core s" "ch_name (cw_ch w) = ch_name (pr_chans s i)"
  shows "race_inv lib chans c (put_world i w s)"
proof -
  have "claims (put_world i w s) = claims s" by (simp add: claims_def fun_eq_iff)
  with assms show ?thesis by (simp add: race_inv_def)
qed

text \<open>A frame put into the ring, or refused because it is full.\<close>

lemma race_inv_enqueue:
  assumes inv: "race_inv lib chans c s"
    and by_whom: "\<And>t e n. by_whom = Some (t, e, n) \<Longrightarrow> is_publish lib chans c buf n"
    and ok: "serials_ok (pr_epoch s, rc_msg_serial (pr_core s)) cl (messages_put (pr_put s @ [(buf, by_whom)]))"
      "serials_ok (pr_epoch s, rc_msg_serial (pr_core s)) cl (messages_put (pr_put s))"
    and cl: "cl = (claims s)(t := pc_serial pc)"
  shows "race_inv lib chans c (set_pc t pc (race_enqueue buf by_whom s))"
proof -
  have core: "core_inv (pr_core s)" using inv by (simp add: race_inv_def)
  note spec = rt_enqueue_frame_spec[OF core, of buf] rt_enqueue_frame_inv[OF core, of buf]
  have "claims (race_enqueue buf by_whom s) = claims s"
    by (simp add: race_enqueue_def claims_def fun_eq_iff split: prod.splits)
  then have c: "claims (set_pc t pc (race_enqueue buf by_whom s)) = cl" by (simp add: claims_set_pc cl)
  have s1: "race_enqueue buf by_whom s = s\<lparr>pr_core := snd (rt_enqueue_frame buf (pr_core s)),
      pr_put := pr_put s @ (if length (rc_pending_frames (pr_core s)) = 255 then [] else [(buf, by_whom)])\<rparr>"
    using arg_cong[OF spec(1), of fst] by (simp add: race_enqueue_def case_prod_beta split: if_splits)
  show ?thesis
    using inv ok by_whom spec(2,3)
    unfolding race_inv_def c unfolding s1 by (auto simp: frame_simps)
qed

lemma race_frame_publish:
  assumes "race_inv lib chans c s"
  shows "is_publish lib chans c (race_frame lib (pr_chans s i) (pr_core s) m n) n"
proof -
  have "race_frame lib (pr_chans s i) (pr_core s) m n =
      race_frame lib (chans i) (c\<lparr>rc_client_id := rc_client_id (pr_core s)\<rparr>) m n"
    using assms by (simp add: race_frame_def race_inv_def split: prod.splits)
  then show ?thesis unfolding is_publish_def by blast
qed

lemma race_inv_put:
  assumes inv: "race_inv lib chans c s" and st: "pc_serial (pr_pc s t) = Some st" and pc: "pc_serial pc = None"
  shows "race_inv lib chans c (set_pc t pc (race_put lib t i st m s))"
proof -
  have cl: "claims s t = Some st" and ok: "serials_ok (pr_epoch s, rc_msg_serial (pr_core s)) (claims s) (messages_put (pr_put s))"
    using st inv by (simp_all add: claims_def race_inv_def)
  show ?thesis
  proof (cases "race_frame lib (pr_chans s i) (pr_core s) m (snd st) = []")
    case True
    then show ?thesis using inv pc serials_skip[OF ok, of t] by (simp add: race_put_def race_inv_def claims_set_pc)
  next
    case False
    have "race_inv lib chans c (set_pc t pc (race_enqueue (race_frame lib (pr_chans s i) (pr_core s) m (snd st)) (Some (t, st)) s))"
    proof (rule race_inv_enqueue[OF inv, where cl = "(claims s)(t := None)"])
      show "is_publish lib chans c (race_frame lib (pr_chans s i) (pr_core s) m (snd st)) n" if "Some (t, st) = Some (u, e, n)" for u e n
        using race_frame_publish[OF inv] that by simp
    qed (simp_all add: serials_put[OF ok cl] serials_skip[OF ok] pc)
    with False show ?thesis by (simp add: race_put_def)
  qed
qed

lemma race_put_fields [simp]: "pr_chans (race_put lib t i st m s) = pr_chans s"
  by (simp add: race_put_def race_enqueue_def Let_def split: prod.splits)

lemma set_pc_put_world: "set_pc t pc (put_world i w s) = put_world i w (set_pc t pc s)"
  by (simp add: set_pc_def put_world_def)

lemma race_inv_queue:
  assumes "race_inv lib chans c s" "ch_state (pr_chans s i) \<noteq> CHAN_ATTACHED"
  shows "race_inv lib chans c (put_world i (snd (channel_publish lib name data (world_of i s))) s)"
  using assms by (intro race_inv_channel) (auto simp: channel_publish_def Let_def split: option.splits)

lemma race_inv_state:
  assumes "race_inv lib chans c s"
  shows "race_inv lib chans c (put_world i (set_state_locked st reason (world_of i s)) s)"
  using assms by (intro race_inv_channel) (auto simp: set_state_locked_def Let_def emit_def)

lemma race_inv_drain:
  assumes "race_inv lib chans c s" "rt_drain_one (pr_core s) = (f, d)"
  shows "race_inv lib chans c (s\<lparr>pr_core := d, pr_taken := pr_taken s @ (case f of None \<Rightarrow> [] | Some p \<Rightarrow> [p])\<rparr>)"
proof -
  have core: "core_inv (pr_core s)" using assms by (simp add: race_inv_def)
  note d = rt_drain_one_spec[OF core, unfolded assms(2) snd_conv]
  have same: "rc_encoding d = rc_encoding (pr_core s)" "rc_msg_serial d = rc_msg_serial (pr_core s)"
    using assms(2) by (auto simp: rt_drain_one_def split: option.splits)
  have frames: "(case f of None \<Rightarrow> [] | Some p \<Rightarrow> [p]) @ rc_pending_frames d = rc_pending_frames (pr_core s)"
    using d by (cases "rc_pending_frames (pr_core s)") (auto split: option.splits)
  have "claims (s\<lparr>pr_core := d, pr_taken := ts\<rparr>) = claims s" for ts
    by (simp add: claims_def fun_eq_iff)
  then show ?thesis using assms(1) d(3) frames by (simp add: race_inv_def same)
qed

text \<open>The reset begins a new attempt: the serials claimed before it come before those claimed after it.\<close>

lemma race_inv_reset:
  assumes "race_inv lib chans c s"
  shows "race_inv lib chans c (s\<lparr>pr_core := (pr_core s)\<lparr>rc_msg_serial := 0\<rparr>, pr_epoch := pr_epoch s + 1\<rparr>)"
    "race_inv lib chans c (s\<lparr>pr_core := (pr_core s)\<lparr>rc_client_id := cid\<rparr>\<rparr>)"
proof -
  have "claims (s\<lparr>pr_core := d, pr_epoch := e\<rparr>) = claims s" "claims (s\<lparr>pr_core := d\<rparr>) = claims s" for d e
    by (simp_all add: claims_def fun_eq_iff)
  then show "race_inv lib chans c (s\<lparr>pr_core := (pr_core s)\<lparr>rc_msg_serial := 0\<rparr>, pr_epoch := pr_epoch s + 1\<rparr>)"
    "race_inv lib chans c (s\<lparr>pr_core := (pr_core s)\<lparr>rc_client_id := cid\<rparr>\<rparr>)"
    using assms serials_later[of "(pr_epoch s, rc_msg_serial (pr_core s))" _ _ "(Suc (pr_epoch s), 0)"]
    by (simp_all add: race_inv_def core_inv_def rc_pending_frames_def)
qed

lemma race_inv_do:
  assumes "race_do lib a s = Some s'" "race_inv lib chans c s"
  shows "race_inv lib chans c s'"
proof (cases a)
  case (Publish_Call t i name data msg_id)
  then show ?thesis using assms race_inv_queue[OF assms(2)]
    by (auto split: if_splits intro!: race_inv_pc)
next
  case (Again t)
  then show ?thesis using assms race_inv_queue[OF assms(2)]
    by (auto split: if_splits pub_pc.splits intro!: race_inv_pc)
next
  case (Claim t)
  then show ?thesis using assms
    by (auto split: pub_pc.splits option.splits prod.splits intro: race_inv_pc race_inv_claim)
next
  case (Put t)
  then show ?thesis using assms
    by (auto simp: Let_def set_pc_put_world set_ch_def split: pub_pc.splits intro!: race_inv_put race_inv_channel)
next
  case (Attached i)
  then show ?thesis using assms race_inv_state[OF assms(2)]
    by (auto split: if_splits intro!: race_inv_pc)
next
  case (Other_Frame t buf)
  from assms(1) have t: "pr_pc s t = Pub_Idle" "s' = race_enqueue buf None s" by (auto simp: Other_Frame split: if_splits)
  have "set_pc t Pub_Idle s' = s'"
    using t(1) fun_upd_idem[of "pr_pc s" t Pub_Idle] unfolding t(2)
    by (cases s) (simp add: set_pc_def race_enqueue_def case_prod_beta)
  with race_inv_enqueue[OF assms(2), of None buf "claims s" t Pub_Idle] assms(2) t show ?thesis
    by (simp add: race_inv_def claims_def fun_upd_idem)
qed (use assms race_inv_state[OF assms(2)] race_inv_drain[OF assms(2)] race_inv_reset[OF assms(2)]
  in \<open>auto split: if_splits prod.splits\<close>)

lemma race_inv_run: "race_run lib as s = Some s' \<Longrightarrow> race_inv lib chans c s \<Longrightarrow> race_inv lib chans c s'"
  by (induction as arbitrary: s) (auto simp: bind_eq_Some_conv dest: race_inv_do)

section \<open>The properties\<close>

lemma race_put_ok:
  assumes "core_inv (pr_core s)" "race_frame lib (pr_chans s i) (pr_core s) m (snd st) \<noteq> []"
    "length (rc_pending_frames (pr_core s)) < 255"
  shows "race_put lib t i st m s =
    s\<lparr>pr_core := snd (rt_enqueue_frame (race_frame lib (pr_chans s i) (pr_core s) m (snd st)) (pr_core s)),
      pr_put := pr_put s @ [(race_frame lib (pr_chans s i) (pr_core s) m (snd st), Some (t, st))]\<rparr>"
  using assms(2,3) arg_cong[OF rt_enqueue_frame_spec(1)[OF assms(1)], of fst "race_frame lib (pr_chans s i) (pr_core s) m (snd st)"]
  by (simp add: race_put_def race_enqueue_def case_prod_beta Let_def)

text \<open>C10. However the sections interleave, of all channels, connection attempts and threads: every frame of a message
  carries the serial that was claimed for it, no serial is claimed twice between two resets, the messages of one
  thread follow each other in the order in which their serials were claimed (those of the service thread in the order
  in which they were queued), and the frames taken off the ring and those in it are exactly the ones put.\<close>

theorem publish_serials_unique:
  assumes "core_inv c" "race_run lib as (race_start chans c) = Some s"
  shows "pr_taken s @ rc_pending_frames (pr_core s) = rc_pending_frames c @ map fst (pr_put s) \<and>
    (\<forall>f t e n. (f, Some (t, e, n)) \<in> set (pr_put s) \<longrightarrow>
       is_publish lib chans c f n \<and> (e, n) < (pr_epoch s, rc_msg_serial (pr_core s))) \<and>
    distinct (map snd (messages_put (pr_put s))) \<and>
    (\<forall>t. sorted_wrt (<) (map snd (filter (\<lambda>m. fst m = t) (messages_put (pr_put s)))))"
proof -
  note inv = race_inv_run[OF assms(2) race_inv_start[OF assms(1)]]
  have ok: "serials_ok (pr_epoch s, rc_msg_serial (pr_core s)) (claims s) (messages_put (pr_put s))"
    using inv by (simp only: race_inv_def)
  then have bound: "\<forall>st \<in> snd ` set (messages_put (pr_put s)). st < (pr_epoch s, rc_msg_serial (pr_core s))"
    unfolding serials_ok_def by (rule conjunct1)
  have "(e, n) < (pr_epoch s, rc_msg_serial (pr_core s))" if "(f, Some (t, e, n)) \<in> set (pr_put s)" for f t e n
  proof -
    have "(t, e, n) \<in> set (messages_put (pr_put s))" using that by (force simp: messages_put_def)
    then have "(e, n) \<in> snd ` set (messages_put (pr_put s))" by force
    with bound show ?thesis by (rule bspec)
  qed
  with inv ok show ?thesis by (simp only: race_inv_def serials_ok_def serials_of_def) simp
qed

lemma race_frame_cong:
  "ch_name ch = ch_name ch' \<Longrightarrow> rc_client_id c = rc_client_id c' \<Longrightarrow> rc_encoding c = rc_encoding c' \<Longrightarrow>
     race_frame lib ch c m n = race_frame lib ch' c' m n"
  by (simp add: race_frame_def)

text \<open>Two frames put one after the other.\<close>

lemma race_put_frames:
  fixes t :: nat
  assumes "core_inv (pr_core s)" "race_frame lib (pr_chans s i) (pr_core s) m (snd st) \<noteq> []"
    "length (rc_pending_frames (pr_core s)) < 255"
  defines "s' \<equiv> race_put lib t i st m s"
  shows "core_inv (pr_core s')" "race_frame lib ch (pr_core s') m' n = race_frame lib ch (pr_core s) m' n"
    "rc_pending_frames (pr_core s') = rc_pending_frames (pr_core s) @ [race_frame lib (pr_chans s i) (pr_core s) m (snd st)]"
    "rc_msg_serial (pr_core s') = rc_msg_serial (pr_core s)" "pr_chans s' = pr_chans s" "pr_pc s' = pr_pc s"
  using rt_enqueue_frame_spec(2)[OF assms(1)] rt_enqueue_frame_inv[OF assms(1)] assms(3)
  unfolding s'_def race_put_ok[OF assms(1-3)] by (auto simp: frame_simps intro: race_frame_cong)

definition bump :: "int \<Rightarrow> 'x rt_core_scheme \<Rightarrow> 'x rt_core_scheme" where
  "bump n c = c\<lparr>rc_msg_serial := n\<rparr>"

lemma bump_simps [simp]:
  shows "core_inv (bump n c) = core_inv c" "rc_pending_frames (bump n c) = rc_pending_frames c" "rc_msg_serial (bump n c) = n"
    "race_frame lib ch (bump n c) msg k = race_frame lib ch c msg k" "bump m (bump n c) = bump m c"
  by (simp_all add: bump_def core_inv_def rc_pending_frames_def race_frame_def)

lemma race_claim_bump:
  "race_claim s = ((pr_epoch s, rc_msg_serial (pr_core s)), s\<lparr>pr_core := bump (rc_msg_serial (pr_core s) + 1) (pr_core s)\<rparr>)"
  by (simp add: race_claim_def rt_claim_msg_serial_def bump_def)

lemma race_run_append: "race_run lib (as @ bs) s = Option.bind (race_run lib as s) (race_run lib bs)"
proof (induction as arbitrary: s)
  case (Cons a as)
  then show ?case by (cases "race_do lib a s") simp_all
qed simp

lemma race_run_snoc:
  assumes "race_run lib as s = Some s1"
  shows "race_do lib a s1 = Some s2 \<Longrightarrow> race_run lib (as @ [a]) s = Some s2"
  using assms by (simp add: race_run_append del: race_do.simps)

text \<open>Two threads that have claimed put their frames one after the other.\<close>

lemma two_puts:
  assumes run: "race_run lib as s0 = Some s"
    and core: "core_inv (pr_core s)" and room: "length (rc_pending_frames (pr_core s)) \<le> 253"
    and pcs: "pr_pc s t = Pub_Claimed i st m" "pr_pc s u = Pub_Claimed i st' m'" "t \<noteq> u"
    and frames: "race_frame lib (pr_chans s i) (pr_core s) m (snd st) \<noteq> []" "race_frame lib (pr_chans s i) (pr_core s) m' (snd st') \<noteq> []"
  shows "\<exists>s'. race_run lib (as @ [Put t, Put u]) s0 = Some s' \<and>
    rc_pending_frames (pr_core s') = rc_pending_frames (pr_core s) @
      [race_frame lib (pr_chans s i) (pr_core s) m (snd st), race_frame lib (pr_chans s i) (pr_core s) m' (snd st')]"
proof -
  define s1 where "s1 = set_pc t Pub_Idle (race_put lib t i st m s)"
  define s2 where "s2 = set_pc u Pub_Idle (race_put lib u i st' m' s1)"
  note p1 = race_put_frames[OF core frames(1), where t = t]
  have s1: "core_inv (pr_core s1)" "race_frame lib ch (pr_core s1) msg k = race_frame lib ch (pr_core s) msg k" "pr_chans s1 = pr_chans s"
    "rc_pending_frames (pr_core s1) = rc_pending_frames (pr_core s) @ [race_frame lib (pr_chans s i) (pr_core s) m (snd st)]"
    "pr_pc s1 u = Pub_Claimed i st' m'" for ch msg k
    using p1 room pcs by (simp_all add: s1_def) (simp add: set_pc_def)
  have "race_do lib (Put t) s = Some s1" "race_do lib (Put u) s1 = Some s2"
    using pcs s1(5) by (simp_all add: s1_def s2_def)
  from race_run_snoc[OF race_run_snoc[OF run this(1)] this(2)]
  have "race_run lib (as @ [Put t, Put u]) s0 = Some s2" by simp
  moreover have "rc_pending_frames (pr_core s2) = rc_pending_frames (pr_core s) @
      [race_frame lib (pr_chans s i) (pr_core s) m (snd st), race_frame lib (pr_chans s i) (pr_core s) m' (snd st')]"
    using race_put_frames[OF s1(1), where lib = lib and i = i and m = m' and st = st' and t = u] s1 frames room by (simp add: s2_def)
  ultimately show ?thesis by blast
qed

lemma overtake_attached:
  assumes core: "core_inv c" and room: "length (rc_pending_frames c) \<le> 253"
    and att: "ch_state (chans i) = CHAN_ATTACHED"
  defines "n \<equiv> rc_msg_serial c"
  assumes frames: "race_frame lib (chans i) c (plain a x) n \<noteq> []" "race_frame lib (chans i) c (plain b y) (n + 1) \<noteq> []"
  shows "\<exists>s. race_run lib [Publish_Call 1 i a x None, Publish_Call 2 i b y None, Claim 1, Claim 2, Put 2, Put 1] (race_start chans c) = Some s \<and>
    rc_pending_frames (pr_core s) = rc_pending_frames c @
      [race_frame lib (chans i) c (plain b y) (n + 1), race_frame lib (chans i) c (plain a x) n]"
proof -
  define s2 where "s2 = (race_start chans c)\<lparr>pr_core := bump (n + 2) c,
    pr_pc := (\<lambda>t. Pub_Idle)(1 := Pub_Claimed i (0, n) (plain a x), 2 := Pub_Claimed i (0, n + 1) (plain b y))\<rparr>"
  have "race_run lib [Publish_Call 1 i a x None, Publish_Call 2 i b y None, Claim 1, Claim 2] (race_start chans c) = Some s2"
    using att by (simp add: race_start_def set_pc_def race_claim_bump s2_def n_def fun_upd_twist add.commute)
  from two_puts[OF this, of 2 i "(0, n + 1)" "plain b y" 1 "(0, n)" "plain a x"] core room frames
  show ?thesis by (simp add: s2_def race_start_def del: race_do.simps race_run.simps)
qed

lemma overtake_flush:
  assumes core: "core_inv c" and room: "length (rc_pending_frames c) \<le> 253"
    and att: "ch_state (chans i) = CHAN_ATTACHING" and queued: "ring_peek (ch_pending (chans i)) = Some (q, z)"
  defines "n \<equiv> rc_msg_serial c"
  assumes frames: "race_frame lib (chans i) c (plain a x) n \<noteq> []" "race_frame lib (chans i) c (plain (c_opt q) (c_opt z)) (n + 1) \<noteq> []"
  shows "\<exists>s. race_run lib [Attached i, Publish_Call 1 i a x None, Claim 1, Put 1, Claim 0, Put 0] (race_start chans c) = Some s \<and>
    rc_pending_frames (pr_core s) = rc_pending_frames c @
      [race_frame lib (chans i) c (plain a x) n, race_frame lib (chans i) c (plain (c_opt q) (c_opt z)) (n + 1)]"
proof -
  define w where "w = set_state_locked CHAN_ATTACHED ABLY_OK (world_of i (race_start chans c))"
  have w: "cw_core w = c" "ch_state (cw_ch w) = CHAN_ATTACHED" "ch_pending (cw_ch w) = ch_pending (chans i)"
    "ch_name (cw_ch w) = ch_name (chans i)"
    using att by (auto simp: w_def set_state_locked_def emit_def Let_def race_start_def)
  have idle: "pr_pc (race_start chans c) t = Pub_Idle" "pr_epoch (race_start chans c) = 0" for t by (simp_all add: race_start_def)
  define s1 where "s1 = (put_world i w (race_start chans c))\<lparr>pr_core := bump (n + 1) c,
    pr_pc := (\<lambda>t. Pub_Idle)(0 := Flush_Top i, 1 := Pub_Claimed i (0, n) (plain a x))\<rparr>"
  have run: "race_run lib [Attached i, Publish_Call 1 i a x None, Claim 1] (race_start chans c) = Some s1"
    using w by (simp add: w_def[symmetric] idle) (simp add: s1_def set_pc_def race_claim_bump n_def fun_upd_twist put_world_def race_start_def)
  have s1: "core_inv (pr_core s1)" "race_frame lib (pr_chans s1 i) (pr_core s1) msg k = race_frame lib (chans i) c msg k"
    "rc_pending_frames (pr_core s1) = rc_pending_frames c" "rc_msg_serial (pr_core s1) = n + 1" "pr_epoch s1 = 0"
    "ch_pending (pr_chans s1 i) = ch_pending (chans i)" "pr_pc s1 1 = Pub_Claimed i (0, n) (plain a x)" "pr_pc s1 0 = Flush_Top i" for msg k
    using core w by (auto simp: s1_def idle intro: race_frame_cong)
  define s2 where "s2 = set_pc 1 Pub_Idle (race_put lib 1 i (0, n) (plain a x) s1)"
  define s3 where "s3 = set_pc 0 (Flush_Claimed i (pr_epoch s2, n + 1) (plain (c_opt q) (c_opt z))) (s2\<lparr>pr_core := bump (n + 2) (pr_core s2)\<rparr>)"
  define s4 where "s4 = the (race_do lib (Put 0) s3)"
  have s2: "core_inv (pr_core s2)" "race_frame lib (pr_chans s2 i) (pr_core s2) msg k = race_frame lib (chans i) c msg k"
    "rc_pending_frames (pr_core s2) = rc_pending_frames c @ [race_frame lib (chans i) c (plain a x) n]"
    "rc_msg_serial (pr_core s2) = n + 1" "ch_pending (pr_chans s2 i) = ch_pending (chans i)" "pr_pc s2 0 = Flush_Top i" for msg k
    using race_put_frames[where s = s1 and lib = lib and i = i and m = "plain a x" and st = "(0, n)" and t = 1] s1 frames room by (simp_all add: s2_def) (simp add: set_pc_def)
  have "race_do lib (Put 1) s1 = Some s2" "race_do lib (Claim 0) s2 = Some s3" "race_do lib (Put 0) s3 = Some s4"
    using s1(7) s2(4-6) queued by (simp_all add: s2_def race_claim_bump s3_def s4_def Let_def add.commute)
  from race_run_snoc[OF race_run_snoc[OF race_run_snoc[OF run this(1)] this(2)] this(3)]
  have "race_run lib [Attached i, Publish_Call 1 i a x None, Claim 1, Put 1, Claim 0, Put 0] (race_start chans c) = Some s4"
    by (simp only: append.simps)
  moreover have "rc_pending_frames (pr_core s4) = rc_pending_frames c @
      [race_frame lib (chans i) c (plain a x) n, race_frame lib (chans i) c (plain (c_opt q) (c_opt z)) (n + 1)]"
    using race_put_frames[where s = s3 and lib = lib and i = i and m = "plain (c_opt q) (c_opt z)" and st = "(pr_epoch s2, n + 1)" and t = 0] s2 frames room
    by (simp add: s4_def s3_def Let_def set_ch_def)
  ultimately show ?thesis by blast
qed

text \<open>C22. Between threads the order is lost. Of two threads that publish on an attached channel, the one that claims its
  serial first can enqueue last, so that the frames leave with their serials exchanged; and a message published
  when the channel has just become ATTACHED is enqueued before one that was queued while it was ATTACHING.\<close>

theorem publish_overtakes:
  assumes "core_inv c" "length (rc_pending_frames c) \<le> 253"
    and "race_frame lib (chans i) c (plain a x) (rc_msg_serial c) \<noteq> []"
      "race_frame lib (chans i) c (plain b y) (rc_msg_serial c + 1) \<noteq> []"
  shows "(ch_state (chans i) = CHAN_ATTACHED \<longrightarrow>
      (\<exists>s. race_run lib [Publish_Call 1 i a x None, Publish_Call 2 i b y None, Claim 1, Claim 2, Put 2, Put 1] (race_start chans c) = Some s \<and>
         rc_pending_frames (pr_core s) = rc_pending_frames c @
           [race_frame lib (chans i) c (plain b y) (rc_msg_serial c + 1), race_frame lib (chans i) c (plain a x) (rc_msg_serial c)])) \<and>
    (ch_state (chans i) = CHAN_ATTACHING \<and> ring_peek (ch_pending (chans i)) = Some (q, z) \<and> b = c_opt q \<and> y = c_opt z \<longrightarrow>
      (\<exists>s. race_run lib [Attached i, Publish_Call 1 i a x None, Claim 1, Put 1, Claim 0, Put 0] (race_start chans c) = Some s \<and>
         rc_pending_frames (pr_core s) = rc_pending_frames c @
           [race_frame lib (chans i) c (plain a x) (rc_msg_serial c), race_frame lib (chans i) c (plain b y) (rc_msg_serial c + 1)]))"
  using overtake_attached[OF assms(1,2), of chans i lib a x b y] overtake_flush[OF assms(1,2), of chans i q z lib a x] assms(3,4)
  by auto

text \<open>A serial claimed before a reset is put after it, behind the same serial claimed anew: the first message of a
  connection, published just before the connection is lost, and the first one of the next connection, both on one
  channel that was detached and attached again in between.\<close>

lemma stale_serial_repeats:
  assumes core: "core_inv c" "rc_msg_serial c = 0" and room: "length (rc_pending_frames c) \<le> 253"
    and att: "ch_state (chans i) = CHAN_ATTACHED" "ring_peek (ch_pending (chans i)) = None"
    and frames: "race_frame lib (chans i) c (plain a x) 0 \<noteq> []" "race_frame lib (chans i) c (plain b y) 0 \<noteq> []"
  shows "\<exists>s. race_run lib [Publish_Call 1 i a x None, Claim 1, Chan_State 0 i CHAN_DETACHED ABLY_ERR_NETWORK, New_Connection,
      Chan_State 0 i CHAN_ATTACHING ABLY_OK, Attached i, Claim 0, Publish_Call 2 i b y None, Claim 2, Put 2, Put 1] (race_start chans c) = Some s \<and>
    rc_pending_frames (pr_core s) = rc_pending_frames c @
      [race_frame lib (chans i) c (plain b y) 0, race_frame lib (chans i) c (plain a x) 0]"
proof -
  let ?as = "[Publish_Call 1 i a x None, Claim 1, Chan_State 0 i CHAN_DETACHED ABLY_ERR_NETWORK, New_Connection,
      Chan_State 0 i CHAN_ATTACHING ABLY_OK, Attached i, Claim 0, Publish_Call 2 i b y None, Claim 2]"
  obtain s where s: "race_run lib ?as (race_start chans c) = Some s" "pr_core s = bump 1 c"
    "ch_name (pr_chans s i) = ch_name (chans i)" "pr_pc s 1 = Pub_Claimed i (0, 0) (plain a x)" "pr_pc s 2 = Pub_Claimed i (1, 0) (plain b y)"
    using att core(2)
    by (simp add: race_start_def set_pc_def put_world_def world_of_def set_state_locked_def emit_def Let_def
        race_claim_def rt_claim_msg_serial_def bump_def fun_upd_twist)
  have "race_frame lib (pr_chans s i) c m n = race_frame lib (chans i) c m n" for m n using s(3) by (simp add: race_frame_def)
  with two_puts[OF s(1) _ _ s(5,4)] s(2) core room frames show ?thesis
    by (simp del: race_do.simps race_run.simps)
qed

text \<open>With the small library functions of the channel's theory, whose frames are never empty.\<close>

lemma demo_race_frame: "race_frame no_lib (channel_create ''chat''\<lparr>ch_state := CHAN_ATTACHED\<rparr>) demo_core (plain name data) n = ''{}''"
  by (simp add: race_frame_def plain_def proto_encode_publish_def proto_encode_publish_json_def emit_json_def no_lib_def PUBLISH_BUF_def
      demo_core_def capacity_defs)

abbreviation demo_chans :: "nat \<Rightarrow> channel" where
  "demo_chans \<equiv> \<lambda>i. channel_create ''chat''\<lparr>ch_state := CHAN_ATTACHED\<rparr>"

lemma publish_serials_unique_witness:
  "\<exists>s. race_run no_lib [Publish_Call 1 0 None None None, Claim 1, Put 1] (race_start demo_chans demo_core) = Some s \<and>
     distinct (map snd (messages_put (pr_put s)))"
proof -
  obtain s where s: "race_run no_lib [Publish_Call 1 0 None None None, Claim 1, Put 1] (race_start demo_chans demo_core) = Some s"
    using publish_alone[of "race_start demo_chans demo_core" 1 0 no_lib None None None] by (auto simp: race_start_def)
  from publish_serials_unique[OF demo_core_inv this] s show ?thesis by blast
qed

lemma publish_overtakes_witness:
  "\<exists>s. race_run no_lib [Publish_Call 1 0 None None None, Publish_Call 2 0 None None None, Claim 1, Claim 2, Put 2, Put 1]
       (race_start demo_chans demo_core) = Some s"
proof -
  have "length (rc_pending_frames demo_core) \<le> 253" using attaching_world_simps(4,6) by simp
  from publish_overtakes[OF demo_core_inv this, of no_lib demo_chans 0 None None None None] show ?thesis
    by (auto simp: demo_race_frame simp del: race_do.simps race_run.simps)
qed

end
