(* ===== verification/Ably_Examples.thy ===== *)
theory Ably_Examples
  imports Ably_Http
begin

text \<open>
  The programs of \<^verbatim>\<open>examples/\<close> that use a client with its own thread, or the REST client. A program is a function
  of what the library and the system answer it (\<open>ex_env\<close>, and the values that its loops read) to the calls that it
  makes and its exit code. A loop that waits without a limit is a function of the values that it has read so far;
  it is \<open>None\<close> while it is still waiting. What is printed on the way is left out, but for the lines of the state callbacks.
\<close>

section \<open>Printing states\<close>

fun conn_state_code :: "ably_connection_state \<Rightarrow> nat" where
  "conn_state_code CONN_INITIALIZED = 0"
| "conn_state_code CONN_CONNECTING = 1"
| "conn_state_code CONN_CONNECTED = 2"
| "conn_state_code CONN_DISCONNECTED = 3"
| "conn_state_code CONN_SUSPENDED = 4"
| "conn_state_code CONN_CLOSING = 5"
| "conn_state_code CONN_CLOSED = 6"
| "conn_state_code CONN_FAILED = 7"

fun chan_state_code :: "ably_channel_state \<Rightarrow> nat" where
  "chan_state_code CHAN_INITIALIZED = 0"
| "chan_state_code CHAN_ATTACHING = 1"
| "chan_state_code CHAN_ATTACHED = 2"
| "chan_state_code CHAN_DETACHING = 3"
| "chan_state_code CHAN_DETACHED = 4"
| "chan_state_code CHAN_FAILED = 5"

definition conn_names :: "string list" where
  "conn_names = [''INITIALIZED'', ''CONNECTING'', ''CONNECTED'', ''DISCONNECTED'', ''SUSPENDED'', ''CLOSING'',
     ''CLOSED'', ''FAILED'']"

definition chan_names :: "string list" where
  "chan_names = [''INITIALIZED'', ''ATTACHING'', ''ATTACHED'', ''DETACHING'', ''DETACHED'', ''FAILED'']"

definition name_of :: "string list \<Rightarrow> nat \<Rightarrow> string" where
  "name_of names k = (if k < length names then names ! k else ''UNKNOWN'')"

definition on_conn_state :: "ably_connection_state \<Rightarrow> string" where
  "on_conn_state st = ''Connection: '' @ name_of conn_names (conn_state_code st)"

definition on_conn_state_delta :: "string \<Rightarrow> ably_connection_state \<Rightarrow> string" where
  "on_conn_state_delta connection_id st =
     on_conn_state st @ (if st = CONN_CONNECTED then '' id='' @ connection_id else [])"

definition on_chan_state :: "string \<Rightarrow> ably_channel_state \<Rightarrow> string" where
  "on_chan_state channel st = ''Channel '' @ [CHR 0x27] @ channel @ [CHR 0x27] @ '': '' @ name_of chan_names (chan_state_code st)"

definition action_name :: "ably_presence_action \<Rightarrow> string" where
  "action_name a =
     (case a of PRESENCE_ENTER \<Rightarrow> ''ENTER'' | PRESENCE_LEAVE \<Rightarrow> ''LEAVE'' | PRESENCE_UPDATE \<Rightarrow> ''UPDATE''
      | PRESENCE_PRESENT \<Rightarrow> ''PRESENT'' | _ \<Rightarrow> ''UNKNOWN'')"

section \<open>Calls and answers\<close>

text \<open>The calls, with the number of the client (the presence programs have two), the arguments that matter and the
  answers. In C++ \<open>Ex_Destroy\<close> is the destructor.\<close>

datatype ex_call =
    Ex_Log_Level
  | Ex_Create nat bool
  | Ex_Conn_Cb nat
  | Ex_Get_Channel nat string bool
  | Ex_Chan_Cb nat
  | Ex_Subscribe nat
  | Ex_Enable_Delta nat ably_error
  | Ex_Connect nat ably_error
  | Ex_Read_Conn nat ably_connection_state
  | Ex_Attach nat ably_error
  | Ex_Read_Chan nat ably_channel_state
  | Ex_Publish nat string string ably_error
  | Ex_Presence nat
  | Ex_Rest_Publish nat string string string ably_error
  | Ex_Sleep nat
  | Ex_Close nat
  | Ex_Destroy nat

text \<open>How a program ends: with an exit code, or by an exception that nobody catches.\<close>

datatype ex_end = Exit int | Terminated

type_synonym ex_run = "ex_call list \<times> ex_end"

definition ex_then :: "ex_call list \<Rightarrow> ex_call list \<times> 'a \<Rightarrow> ex_call list \<times> 'a" where
  "ex_then cs r = (cs @ fst r, snd r)"

text \<open>The answers: by client, for the states by the number of the read, for publishes by the number of the
  message.\<close>

record ex_env =
  ex_key :: "string option"
  ex_made :: "nat \<Rightarrow> bool"
  ex_channel :: "nat \<Rightarrow> bool"
  ex_delta :: ably_error
  ex_connect :: "nat \<Rightarrow> ably_error"
  ex_attach :: "nat \<Rightarrow> ably_error"
  ex_publish :: "nat \<Rightarrow> ably_error"
  ex_conn :: "nat \<Rightarrow> nat \<Rightarrow> ably_connection_state"
  ex_chan :: "nat \<Rightarrow> ably_channel_state"
  ex_presence :: "nat \<Rightarrow> ably_error"
  ex_close :: "nat \<Rightarrow> ably_error"

text \<open>\<^verbatim>\<open>argc > k ? argv[k] : d\<close>, for the arguments after the program's name; \<^verbatim>\<open>atoi\<close>.\<close>

definition ex_arg :: "string list \<Rightarrow> nat \<Rightarrow> string \<Rightarrow> string" where
  "ex_arg args k d = (if k \<le> length args then args ! (k - 1) else d)"

definition c_atoi :: "string \<Rightarrow> int" where
  "c_atoi s = sint (word_of_int (c_strtol s) :: 32 word)"

section \<open>\<open>realtime_publish.c\<close>\<close>

text \<open>The two bounded waits: \<open>n\<close> rounds left, \<open>k\<close> reads done. The first ends early, with \<open>True\<close>, on FAILED.\<close>

fun publish_wait_connected :: "ex_env \<Rightarrow> nat \<Rightarrow> nat \<Rightarrow> ex_call list \<times> bool \<times> nat" where
  "publish_wait_connected e 0 k = ([], False, k)"
| "publish_wait_connected e (Suc n) k =
     (let st = ex_conn e 0 k in
      ex_then [Ex_Read_Conn 0 st]
        (if st = CONN_CONNECTED then ([], False, Suc k)
         else if st = CONN_FAILED then ([], True, Suc k)
         else ex_then [Ex_Sleep 1000] (publish_wait_connected e n (Suc k))))"

fun publish_wait_attached :: "ex_env \<Rightarrow> nat \<Rightarrow> nat \<Rightarrow> ex_call list \<times> nat" where
  "publish_wait_attached e 0 k = ([], k)"
| "publish_wait_attached e (Suc n) k =
     (let st = ex_chan e k in
      ex_then [Ex_Read_Chan 0 st]
        (if st = CHAN_ATTACHED then ([], Suc k)
         else ex_then [Ex_Sleep 1000] (publish_wait_attached e n (Suc k))))"

definition publish_payload :: "string \<Rightarrow> nat \<Rightarrow> string" where
  "publish_payload data i = c_copy 256 (data @ '' #'' @ dec_of_nat (i + 1))"

fun publish_loop :: "ex_env \<Rightarrow> string \<Rightarrow> string \<Rightarrow> nat \<Rightarrow> nat \<Rightarrow> ably_error \<Rightarrow> ex_call list \<times> ably_error" where
  "publish_loop e event data 0 i err = ([], err)"
| "publish_loop e event data (Suc n) i err =
     ex_then [Ex_Publish 0 event (publish_payload data i) (ex_publish e i)]
       (publish_loop e event data n (Suc i) (ex_publish e i))"

definition publish_connected :: "ex_env \<Rightarrow> string \<Rightarrow> string \<Rightarrow> int \<Rightarrow> ex_run" where
  "publish_connected e event data count =
     (let err = ex_attach e 0 in
      ex_then [Ex_Attach 0 err]
        (if err \<noteq> ABLY_OK then ([Ex_Destroy 0], Exit 1)
         else let (cs, k) = publish_wait_attached e 10 0; st = ex_chan e k in
           ex_then (cs @ [Ex_Read_Chan 0 st])
             (if st \<noteq> CHAN_ATTACHED then ([Ex_Destroy 0], Exit 1)
              else let (ps, err') = publish_loop e event data (nat count) 0 err in
                (ps @ [Ex_Sleep 2000, Ex_Close 0, Ex_Destroy 0], Exit (if err' = ABLY_OK then 0 else 1)))))"

definition realtime_publish_main :: "ex_env \<Rightarrow> string list \<Rightarrow> ex_run" where
  "realtime_publish_main e args =
     (if ex_key e = None then ([], Exit 1)
      else let ch = ex_arg args 1 ''ably-c-test''; event = ex_arg args 2 ''greeting'';
          data = ex_arg args 3 ''Hello from ably-c!'';
          count = (if 4 \<le> length args then c_atoi (args ! 3) else 5) in
        ex_then [Ex_Log_Level, Ex_Create 0 (ex_made e 0)]
          (if \<not> ex_made e 0 then ([], Exit 1)
           else ex_then [Ex_Conn_Cb 0, Ex_Get_Channel 0 ch (ex_channel e 0)]
             (if \<not> ex_channel e 0 then ([Ex_Destroy 0], Exit 1)
              else let err = ex_connect e 0 in ex_then [Ex_Chan_Cb 0, Ex_Connect 0 err]
                (if err \<noteq> ABLY_OK then ([Ex_Destroy 0], Exit 1)
                 else let (cs, failed, k) = publish_wait_connected e 30 0 in
                   ex_then cs
                     (if failed then ([Ex_Destroy 0], Exit 1)
                      else let st = ex_conn e 0 k in ex_then [Ex_Read_Conn 0 st]
                        (if st \<noteq> CONN_CONNECTED then ([Ex_Destroy 0], Exit 1)
                         else publish_connected e event data count))))))"

section \<open>\<open>realtime_subscribe.c\<close> and \<open>realtime_subscribe_delta.c\<close>\<close>

text \<open>The wait for CONNECTED: what each round reads of \<^verbatim>\<open>g_quit\<close>, and of the state unless it quits.\<close>

datatype wait_outcome = Wait_Quit | Wait_Connected | Wait_Failed

fun subscribe_wait :: "(bool \<times> ably_connection_state) list \<Rightarrow> (ex_call list \<times> wait_outcome) option" where
  "subscribe_wait [] = None"
| "subscribe_wait ((quit, st) # rs) =
     (if quit then Some ([], Wait_Quit)
      else if st = CONN_CONNECTED then Some ([Ex_Read_Conn 0 st], Wait_Connected)
      else if st = CONN_FAILED then Some ([Ex_Read_Conn 0 st], Wait_Failed)
      else map_option (ex_then [Ex_Read_Conn 0 st, Ex_Sleep 1000]) (subscribe_wait rs))"

fun quit_wait :: "bool list \<Rightarrow> ex_call list option" where
  "quit_wait [] = None"
| "quit_wait (quit # qs) = (if quit then Some [] else map_option ((#) (Ex_Sleep 1000)) (quit_wait qs))"

text \<open>After the wait; the first value of \<open>quits\<close> is read right after CONNECTED.\<close>

definition subscribe_connected :: "ex_env \<Rightarrow> bool list \<Rightarrow> ex_call list option" where
  "subscribe_connected e quits =
     (case quits of [] \<Rightarrow> None
      | q # qs \<Rightarrow>
        if q then Some []
        else let err = ex_attach e 0 in
          map_option ((#) (Ex_Attach 0 err)) (if err \<noteq> ABLY_OK then Some [] else quit_wait qs))"

definition subscribe_loop ::
  "ex_env \<Rightarrow> (bool \<times> ably_connection_state) list \<Rightarrow> bool list \<Rightarrow> ex_run option" where
  "subscribe_loop e reads quits =
     Option.bind (subscribe_wait reads) (\<lambda>(cs, out).
       map_option (\<lambda>ds. (cs @ ds @ [Ex_Close 0, Ex_Destroy 0], Exit 0))
         (if out = Wait_Connected then subscribe_connected e quits else Some []))"

definition realtime_subscribe_main ::
  "ex_env \<Rightarrow> string list \<Rightarrow> (bool \<times> ably_connection_state) list \<Rightarrow> bool list \<Rightarrow> ex_run option" where
  "realtime_subscribe_main e args reads quits =
     (if ex_key e = None then Some ([], Exit 1)
      else map_option (ex_then [Ex_Log_Level, Ex_Create 0 (ex_made e 0)])
        (if \<not> ex_made e 0 then Some ([], Exit 1)
         else map_option (ex_then [Ex_Conn_Cb 0, Ex_Get_Channel 0 (ex_arg args 1 ''ably-c-test'') (ex_channel e 0)])
           (if \<not> ex_channel e 0 then Some ([Ex_Destroy 0], Exit 1)
            else let err = ex_connect e 0 in
              map_option (ex_then [Ex_Chan_Cb 0, Ex_Subscribe 0, Ex_Connect 0 err])
                (if err \<noteq> ABLY_OK then Some ([Ex_Destroy 0], Exit 1) else subscribe_loop e reads quits))))"

text \<open>The delta program reads its arguments in a loop, and quits after so many messages.\<close>

fun delta_args :: "string list \<Rightarrow> string \<times> int \<Rightarrow> string \<times> int" where
  "delta_args [] r = r"
| "delta_args (a # as) (ch, n) =
     (if a = ''-n'' \<and> as \<noteq> [] then delta_args (tl as) (ch, c_atoi (hd as)) else delta_args as (a, n))"

definition delta_on_message :: "int \<Rightarrow> int \<times> bool \<Rightarrow> int \<times> bool" where
  "delta_on_message max_messages s =
     (let n = fst s + 1 in (n, snd s \<or> (max_messages > 0 \<and> n \<ge> max_messages)))"

text \<open>What \<^verbatim>\<open>g_quit\<close> reads as, when before each read a signal may arrive and some messages are delivered.\<close>

fun delta_quits :: "int \<Rightarrow> int \<times> bool \<Rightarrow> (bool \<times> nat) list \<Rightarrow> bool list" where
  "delta_quits m s [] = []"
| "delta_quits m s ((sig, k) # ts) =
     (let s' = (delta_on_message m ^^ k) (fst s, snd s \<or> sig) in snd s' # delta_quits m s' ts)"

definition realtime_subscribe_delta_main ::
  "ex_env \<Rightarrow> string list \<Rightarrow> (bool \<times> ably_connection_state) list \<Rightarrow> (bool \<times> nat) list \<Rightarrow> ex_run option" where
  "realtime_subscribe_delta_main e args reads ticks =
     (if ex_key e = None then Some ([], Exit 1)
      else let (ch, max_messages) = delta_args args (''ably-c-delta-test'', -1) in
        map_option (ex_then [Ex_Log_Level, Ex_Create 0 (ex_made e 0)])
        (if \<not> ex_made e 0 then Some ([], Exit 1)
         else map_option (ex_then [Ex_Conn_Cb 0, Ex_Get_Channel 0 ch (ex_channel e 0)])
           (if \<not> ex_channel e 0 then Some ([Ex_Destroy 0], Exit 1)
            else map_option (ex_then [Ex_Enable_Delta 0 (ex_delta e)])
              (if ex_delta e \<noteq> ABLY_OK then Some ([Ex_Destroy 0], Exit 1)
               else let err = ex_connect e 0 in
                 map_option (ex_then [Ex_Chan_Cb 0, Ex_Subscribe 0, Ex_Connect 0 err])
                   (if err \<noteq> ABLY_OK then Some ([Ex_Destroy 0], Exit 1)
                    else subscribe_loop e reads (delta_quits max_messages (0, False) ticks))))))"

section \<open>\<open>realtime_presence.c\<close> and \<open>rest_publish.c\<close>\<close>

text \<open>\<^verbatim>\<open>wait_connected\<close>: a read every 50 ms while fewer than \<open>timeout\<close> have passed. \<open>n\<close> is the number of rounds
  left.\<close>

fun wait_connected :: "ex_env \<Rightarrow> nat \<Rightarrow> nat \<Rightarrow> nat \<Rightarrow> ex_call list \<times> bool" where
  "wait_connected e c 0 k = ([], False)"
| "wait_connected e c (Suc n) k =
     (let st = ex_conn e c k in
      ex_then [Ex_Read_Conn c st]
        (if st = CONN_CONNECTED then ([], True) else ex_then [Ex_Sleep 50] (wait_connected e c n (Suc k))))"

definition wait_rounds :: "nat \<Rightarrow> nat" where
  "wait_rounds timeout_ms = (timeout_ms + 49) div 50"

definition presence_calls :: "nat \<Rightarrow> nat \<Rightarrow> ex_call list" where
  "presence_calls sub pub =
     [Ex_Sleep 2000, Ex_Presence pub, Ex_Sleep 1000, Ex_Presence pub, Ex_Sleep 1000, Ex_Presence sub,
      Ex_Presence pub, Ex_Sleep 1000, Ex_Close pub, Ex_Destroy pub, Ex_Close sub, Ex_Destroy sub]"

definition realtime_presence_main :: "ex_env \<Rightarrow> ex_run" where
  "realtime_presence_main e =
     (if \<not> c_nonempty (ex_key e) then ([], Exit 1)
      else ex_then [Ex_Create 0 (ex_made e 0)]
        (if \<not> ex_made e 0 then ([], Exit 1)
         else ex_then [Ex_Get_Channel 0 ''presence-demo'' (ex_channel e 0)]
           (if \<not> ex_channel e 0 then ([], Exit 1)
            else let (cs, connected) = wait_connected e 0 (wait_rounds 10000) 0 in
              ex_then (Ex_Presence 0 # Ex_Connect 0 (ex_connect e 0) # cs)
                (if \<not> connected then ([], Exit 1)
                 else ex_then [Ex_Attach 0 (ex_attach e 0), Ex_Create 1 (ex_made e 1)]
                   (if \<not> ex_made e 1 then ([], Exit 1)
                    else ex_then [Ex_Get_Channel 1 ''presence-demo'' (ex_channel e 1)]
                      (if \<not> ex_channel e 1 then ([], Exit 1)
                       else let (cs', connected') = wait_connected e 1 (wait_rounds 10000) 0 in
                         ex_then (Ex_Connect 1 (ex_connect e 1) # cs')
                           (if \<not> connected' then ([], Exit 1)
                            else (Ex_Attach 1 (ex_attach e 1) # presence_calls 0 1, Exit 0))))))))"

definition rest_publish_main :: "ex_env \<Rightarrow> string list \<Rightarrow> ex_run" where
  "rest_publish_main e args =
     (if ex_key e = None then ([], Exit 1)
      else ex_then [Ex_Log_Level, Ex_Create 0 (ex_made e 0)]
        (if \<not> ex_made e 0 then ([], Exit 1)
         else let err = ex_publish e 0 in
           ([Ex_Rest_Publish 0 (ex_arg args 1 ''ably-c-test'') (ex_arg args 2 ''greeting'')
               (ex_arg args 3 ''Hello from ably-c!'') err, Ex_Destroy 0],
            Exit (if err = ABLY_OK then 0 else 1))))"

section \<open>The C++ programs\<close>

text \<open>A call that fails throws; inside the \<^verbatim>\<open>try\<close> block the client is destroyed while the stack is unwound, the
  exception is printed and the exit code is 1. \<open>poll2\<close> is a loop that reads a state twice a round: for the end of the
  loop, and for the state that is fatal.\<close>

fun poll2 :: "('s \<Rightarrow> ex_call) \<Rightarrow> 's \<Rightarrow> 's \<Rightarrow> nat \<Rightarrow> ('s \<times> 's) list \<Rightarrow> (ex_call list \<times> bool) option" where
  "poll2 rd good bad ms [] = None"
| "poll2 rd good bad ms ((s1, s2) # rs) =
     (if s1 = good then Some ([rd s1], True)
      else if s2 = bad then Some ([rd s1, rd s2], False)
      else map_option (ex_then [rd s1, rd s2, Ex_Sleep ms]) (poll2 rd good bad ms rs))"

fun cpp_publish_loop :: "ex_env \<Rightarrow> string \<Rightarrow> string \<Rightarrow> nat \<Rightarrow> nat \<Rightarrow> ex_call list \<times> bool" where
  "cpp_publish_loop e event data 0 i = ([], True)"
| "cpp_publish_loop e event data (Suc n) i =
     ex_then [Ex_Publish 0 event data (ex_publish e i)]
       (if ex_publish e i \<noteq> ABLY_OK then ([], False)
        else ex_then (if n > 0 then [Ex_Sleep 100] else []) (cpp_publish_loop e event data n (Suc i)))"

definition cpp_publish_attached :: "ex_env \<Rightarrow> string \<Rightarrow> string \<Rightarrow> int \<Rightarrow> ex_run" where
  "cpp_publish_attached e event data count =
     (let (ps, all) = cpp_publish_loop e event data (nat count) 0 in
      if \<not> all then (ps @ [Ex_Destroy 0], Exit 1)
      else (ps @ [Ex_Close 0, Ex_Destroy 0], Exit (if ex_close e 0 = ABLY_OK then 0 else 1)))"

definition cpp_publish_main ::
  "ex_env \<Rightarrow> string list \<Rightarrow> (ably_connection_state \<times> ably_connection_state) list \<Rightarrow>
     (ably_channel_state \<times> ably_channel_state) list \<Rightarrow> ex_run option" where
  "cpp_publish_main e args conns chans =
     (if ex_key e = None then Some ([], Exit 1)
      else let ch = ex_arg args 1 ''ably-c-test''; event = ex_arg args 2 ''message'';
          data = ex_arg args 3 ''hello from ably-c C++'';
          n = (if 4 \<le> length args then c_atoi (args ! 3) else 1); count = (if n \<le> 0 then 1 else n) in
        map_option (ex_then [Ex_Log_Level, Ex_Create 0 (ex_made e 0)])
          (if \<not> ex_made e 0 then Some ([], Exit 1)
           else map_option (ex_then [Ex_Connect 0 (ex_connect e 0)])
             (if ex_connect e 0 \<noteq> ABLY_OK then Some ([Ex_Destroy 0], Exit 1)
              else Option.bind (poll2 (Ex_Read_Conn 0) CONN_CONNECTED CONN_FAILED 500 conns) (\<lambda>(cs, good).
                map_option (ex_then cs)
                  (if \<not> good then Some ([Ex_Destroy 0], Exit 1)
                   else map_option (ex_then [Ex_Get_Channel 0 ch (ex_channel e 0)])
                     (if \<not> ex_channel e 0 then Some ([Ex_Destroy 0], Exit 1)
                      else map_option (ex_then [Ex_Attach 0 (ex_attach e 0)])
                        (if ex_attach e 0 \<noteq> ABLY_OK then Some ([Ex_Destroy 0], Exit 1)
                         else Option.bind (poll2 (Ex_Read_Chan 0) CHAN_ATTACHED CHAN_FAILED 200 chans) (\<lambda>(ds, good').
                           Some (ex_then ds
                             (if \<not> good' then ([Ex_Destroy 0], Exit 1)
                              else cpp_publish_attached e event data count))))))))))"

text \<open>\<^verbatim>\<open>realtime_subscribe.cpp\<close>: each round reads \<^verbatim>\<open>g_quit\<close> and then, if it goes on, the state twice.\<close>

fun cpp_subscribe_wait ::
  "(bool \<times> ably_connection_state \<times> ably_connection_state) list \<Rightarrow> (ex_call list \<times> wait_outcome) option" where
  "cpp_subscribe_wait [] = None"
| "cpp_subscribe_wait ((quit, s1, s2) # rs) =
     (if quit then Some ([], Wait_Quit)
      else if s1 = CONN_CONNECTED then Some ([Ex_Read_Conn 0 s1], Wait_Connected)
      else if s2 = CONN_FAILED then Some ([Ex_Read_Conn 0 s1, Ex_Read_Conn 0 s2], Wait_Failed)
      else map_option (ex_then [Ex_Read_Conn 0 s1, Ex_Read_Conn 0 s2, Ex_Sleep 500]) (cpp_subscribe_wait rs))"

definition cpp_subscribe_connected :: "ex_env \<Rightarrow> bool list \<Rightarrow> ex_run option" where
  "cpp_subscribe_connected e quits =
     (case quits of [] \<Rightarrow> None
      | q # qs \<Rightarrow>
        if q then Some ([Ex_Destroy 0], Exit 0)
        else map_option (ex_then [Ex_Attach 0 (ex_attach e 0)])
          (if ex_attach e 0 \<noteq> ABLY_OK then Some ([Ex_Destroy 0], Exit 1)
           else map_option (\<lambda>cs. (cs @ [Ex_Close 0, Ex_Destroy 0], Exit (if ex_close e 0 = ABLY_OK then 0 else 1)))
             (quit_wait qs)))"

definition cpp_subscribe_main ::
  "ex_env \<Rightarrow> string list \<Rightarrow> (bool \<times> ably_connection_state \<times> ably_connection_state) list \<Rightarrow> bool list \<Rightarrow>
     ex_run option" where
  "cpp_subscribe_main e args reads quits =
     (if ex_key e = None then Some ([], Exit 1)
      else map_option (ex_then [Ex_Log_Level, Ex_Create 0 (ex_made e 0)])
        (if \<not> ex_made e 0 then Some ([], Exit 1)
         else map_option (ex_then [Ex_Conn_Cb 0, Ex_Get_Channel 0 (ex_arg args 1 ''ably-c-test'') (ex_channel e 0)])
           (if \<not> ex_channel e 0 then Some ([Ex_Destroy 0], Exit 1)
            else map_option (ex_then [Ex_Chan_Cb 0, Ex_Subscribe 0, Ex_Connect 0 (ex_connect e 0)])
              (if ex_connect e 0 \<noteq> ABLY_OK then Some ([Ex_Destroy 0], Exit 1)
               else Option.bind (cpp_subscribe_wait reads) (\<lambda>(cs, out).
                 map_option (ex_then cs)
                   (case out of Wait_Quit \<Rightarrow> Some ([Ex_Destroy 0], Exit 0)
                    | Wait_Failed \<Rightarrow> Some ([Ex_Destroy 0], Exit 1)
                    | Wait_Connected \<Rightarrow> cpp_subscribe_connected e quits))))))"

definition cpp_rest_main :: "ex_env \<Rightarrow> string list \<Rightarrow> ex_run" where
  "cpp_rest_main e args =
     (if ex_key e = None then ([], Exit 1)
      else ex_then [Ex_Create 0 (ex_made e 0)]
        (if \<not> ex_made e 0 then ([], Exit 1)
         else let err = ex_publish e 0 in
           ([Ex_Rest_Publish 0 (ex_arg args 1 ''ably-c-test'') (ex_arg args 2 ''greeting'')
               (ex_arg args 3 ''Hello from ably-c C++!'') err, Ex_Destroy 0],
            Exit (if err = ABLY_OK then 0 else 1))))"

text \<open>\<^verbatim>\<open>realtime_presence.cpp\<close> has no \<^verbatim>\<open>try\<close>: a call that fails ends the program where it is. \<open>thr\<close> is a call that
  throws unless it succeeds.\<close>

definition thr :: "ex_call \<Rightarrow> ably_error \<Rightarrow> ex_run \<Rightarrow> ex_run" where
  "thr c err r = ex_then [c] (if err \<noteq> ABLY_OK then ([], Terminated) else r)"

definition cpp_poll_connected :: "ex_env \<Rightarrow> nat \<Rightarrow> nat \<Rightarrow> ex_call list \<times> bool" where
  "cpp_poll_connected e c rounds = wait_connected e c rounds 0"

definition cpp_presence_session :: "ex_env \<Rightarrow> ex_run" where
  "cpp_presence_session e =
     ex_then [Ex_Sleep 2000] (thr (Ex_Presence 1) (ex_presence e 1) (ex_then [Ex_Sleep 1000]
       (thr (Ex_Presence 1) (ex_presence e 2) (ex_then [Ex_Sleep 1000, Ex_Presence 0]
         (thr (Ex_Presence 1) (ex_presence e 3) (ex_then [Ex_Sleep 1000]
           (thr (Ex_Close 1) (ex_close e 1) (thr (Ex_Close 0) (ex_close e 0)
             ([Ex_Destroy 1, Ex_Destroy 0], Exit 0)))))))))"

definition cpp_presence_publisher :: "ex_env \<Rightarrow> nat \<Rightarrow> ex_run" where
  "cpp_presence_publisher e rounds =
     ex_then [Ex_Create 1 (ex_made e 1)]
       (if \<not> ex_made e 1 then ([], Terminated)
        else thr (Ex_Connect 1 (ex_connect e 1)) (ex_connect e 1)
          (let (cs, connected) = cpp_poll_connected e 1 rounds in
           ex_then cs
             (if \<not> connected then ([Ex_Destroy 1, Ex_Destroy 0], Exit 1)
              else ex_then [Ex_Get_Channel 1 ''presence-demo-cpp'' (ex_channel e 1)]
                (if \<not> ex_channel e 1 then ([], Terminated)
                 else thr (Ex_Attach 1 (ex_attach e 1)) (ex_attach e 1) (cpp_presence_session e)))))"

definition cpp_presence_main :: "ex_env \<Rightarrow> nat \<Rightarrow> nat \<Rightarrow> ex_run" where
  "cpp_presence_main e rounds0 rounds1 =
     (if \<not> c_nonempty (ex_key e) then ([], Exit 1)
      else ex_then [Ex_Create 0 (ex_made e 0)]
        (if \<not> ex_made e 0 then ([], Terminated)
         else thr (Ex_Connect 0 (ex_connect e 0)) (ex_connect e 0)
           (let (cs, connected) = cpp_poll_connected e 0 rounds0 in
            ex_then cs
              (if \<not> connected then ([Ex_Destroy 0], Exit 1)
               else ex_then [Ex_Get_Channel 0 ''presence-demo-cpp'' (ex_channel e 0)]
                 (if \<not> ex_channel e 0 then ([], Terminated)
                  else thr (Ex_Attach 0 (ex_attach e 0)) (ex_attach e 0)
                    (ex_then [Ex_Presence 0] (cpp_presence_publisher e rounds1)))))))"

section \<open>The use of a client\<close>

text \<open>What \<^verbatim>\<open>ably_realtime.h\<close> allows: callbacks are set before the connection is started; a channel is attached once the
  client has been seen CONNECTED; messages are published once the channel has been seen ATTACHED; only a started
  client is closed; nothing is called after the client is destroyed. \<open>None\<close> is a call out of order.\<close>

datatype ex_phase = No_Client | Made | Running | Conn_Seen | Attach_Sent | Attached_Seen | Closed | Ended

fun phase_step :: "ex_phase \<Rightarrow> ex_call \<Rightarrow> ex_phase option" where
  "phase_step p Ex_Log_Level = Some p"
| "phase_step p (Ex_Sleep ms) = Some p"
| "phase_step p (Ex_Create c ok) = (if p = No_Client then Some (if ok then Made else No_Client) else None)"
| "phase_step p (Ex_Conn_Cb c) = (if p = Made then Some p else None)"
| "phase_step p (Ex_Get_Channel c name ok) = (if p = No_Client \<or> p = Ended then None else Some p)"
| "phase_step p (Ex_Chan_Cb c) = (if p = Made then Some p else None)"
| "phase_step p (Ex_Subscribe c) = (if p = No_Client \<or> p = Ended then None else Some p)"
| "phase_step p (Ex_Enable_Delta c err) = (if p = Made then Some p else None)"
| "phase_step p (Ex_Connect c err) = (if p = Made then Some (if err = ABLY_OK then Running else Made) else None)"
| "phase_step p (Ex_Read_Conn c st) =
     (if p = No_Client \<or> p = Ended then None
      else Some (if p = Running \<and> st = CONN_CONNECTED then Conn_Seen else p))"
| "phase_step p (Ex_Attach c err) =
     (if p = Conn_Seen then Some (if err = ABLY_OK then Attach_Sent else Conn_Seen) else None)"
| "phase_step p (Ex_Read_Chan c st) =
     (if p = No_Client \<or> p = Ended then None
      else Some (if p = Attach_Sent \<and> st = CHAN_ATTACHED then Attached_Seen else p))"
| "phase_step p (Ex_Publish c event data err) = (if p = Attached_Seen then Some p else None)"
| "phase_step p (Ex_Presence c) = (if p = No_Client \<or> p = Ended then None else Some p)"
| "phase_step p (Ex_Rest_Publish c ch event data err) = (if p = Made then Some p else None)"
| "phase_step p (Ex_Close c) =
     (if p \<in> {Running, Conn_Seen, Attach_Sent, Attached_Seen} then Some Closed else None)"
| "phase_step p (Ex_Destroy c) = (if p = No_Client \<or> p = Ended then None else Some Ended)"

fun client_of :: "ex_call \<Rightarrow> nat option" where
  "client_of Ex_Log_Level = None"
| "client_of (Ex_Sleep ms) = None"
| "client_of (Ex_Create c ok) = Some c"
| "client_of (Ex_Conn_Cb c) = Some c"
| "client_of (Ex_Get_Channel c name ok) = Some c"
| "client_of (Ex_Chan_Cb c) = Some c"
| "client_of (Ex_Subscribe c) = Some c"
| "client_of (Ex_Enable_Delta c err) = Some c"
| "client_of (Ex_Connect c err) = Some c"
| "client_of (Ex_Read_Conn c st) = Some c"
| "client_of (Ex_Attach c err) = Some c"
| "client_of (Ex_Read_Chan c st) = Some c"
| "client_of (Ex_Publish c event data err) = Some c"
| "client_of (Ex_Presence c) = Some c"
| "client_of (Ex_Rest_Publish c ch event data err) = Some c"
| "client_of (Ex_Close c) = Some c"
| "client_of (Ex_Destroy c) = Some c"

definition concerns :: "nat \<Rightarrow> ex_call \<Rightarrow> bool" where
  "concerns c x \<longleftrightarrow> client_of x = None \<or> client_of x = Some c"

fun phases :: "nat \<Rightarrow> ex_phase \<Rightarrow> ex_call list \<Rightarrow> ex_phase option" where
  "phases c p [] = Some p"
| "phases c p (x # xs) = (if concerns c x then Option.bind (phase_step p x) (\<lambda>q. phases c q xs) else phases c p xs)"

lemma concerns_simps [simp]:
  shows "concerns c Ex_Log_Level" "concerns c (Ex_Sleep ms)" "concerns c (Ex_Create d ok) \<longleftrightarrow> d = c"
    "concerns c (Ex_Conn_Cb d) \<longleftrightarrow> d = c" "concerns c (Ex_Get_Channel d name ok) \<longleftrightarrow> d = c"
    "concerns c (Ex_Chan_Cb d) \<longleftrightarrow> d = c" "concerns c (Ex_Subscribe d) \<longleftrightarrow> d = c"
    "concerns c (Ex_Enable_Delta d err) \<longleftrightarrow> d = c" "concerns c (Ex_Connect d err) \<longleftrightarrow> d = c"
    "concerns c (Ex_Read_Conn d st) \<longleftrightarrow> d = c" "concerns c (Ex_Attach d err) \<longleftrightarrow> d = c"
    "concerns c (Ex_Read_Chan d st') \<longleftrightarrow> d = c" "concerns c (Ex_Publish d event data err) \<longleftrightarrow> d = c"
    "concerns c (Ex_Presence d) \<longleftrightarrow> d = c" "concerns c (Ex_Rest_Publish d ch event data err) \<longleftrightarrow> d = c"
    "concerns c (Ex_Close d) \<longleftrightarrow> d = c" "concerns c (Ex_Destroy d) \<longleftrightarrow> d = c"
  by (simp_all add: concerns_def)

lemma phases_append: "phases c p (xs @ ys) = Option.bind (phases c p xs) (\<lambda>q. phases c q ys)"
  by (induction xs arbitrary: p) (auto simp: bind_assoc)

text \<open>A client that was used in order and is gone at the end.\<close>

definition used_well :: "nat \<Rightarrow> ex_phase \<Rightarrow> ex_call list \<Rightarrow> bool" where
  "used_well c p xs \<longleftrightarrow> (case phases c p xs of None \<Rightarrow> False | Some q \<Rightarrow> q = No_Client \<or> q = Ended)"

lemma used_well_Nil [simp]: "used_well c p [] \<longleftrightarrow> p = No_Client \<or> p = Ended"
  by (simp add: used_well_def)

lemma used_well_Cons [simp]:
  "used_well c p (x # xs) \<longleftrightarrow>
     (if concerns c x then (case phase_step p x of None \<Rightarrow> False | Some q \<Rightarrow> used_well c q xs) else used_well c p xs)"
  by (auto simp: used_well_def split: option.splits)

lemma used_well_append:
  "phases c p xs = Some q \<Longrightarrow> used_well c p (xs @ ys) \<longleftrightarrow> used_well c q ys"
  by (simp add: used_well_def phases_append)

text \<open>The loops only look.\<close>

lemma phases_wait_connected:
  "phases 0 Running (fst (publish_wait_connected e n k)) = Some Running \<or>
   phases 0 Running (fst (publish_wait_connected e n k)) = Some Conn_Seen"
  by (induction n arbitrary: k) (auto simp: Let_def ex_then_def)

lemma phases_read_conn: "phases 0 Conn_Seen (fst (publish_wait_connected e n k)) = Some Conn_Seen"
  by (induction n arbitrary: k) (auto simp: Let_def ex_then_def)

lemma phases_wait_attached:
  "phases 0 Attach_Sent (fst (publish_wait_attached e n k)) = Some Attach_Sent \<or>
   phases 0 Attach_Sent (fst (publish_wait_attached e n k)) = Some Attached_Seen"
  by (induction n arbitrary: k) (auto simp: Let_def ex_then_def)

lemma phases_publish_loop: "phases 0 Attached_Seen (fst (publish_loop e event data n i err)) = Some Attached_Seen"
  by (induction n arbitrary: i err) (auto simp: ex_then_def)

lemma phases_cpp_publish_loop: "phases 0 Attached_Seen (fst (cpp_publish_loop e event data n i)) = Some Attached_Seen"
  by (induction n arbitrary: i) (auto simp: ex_then_def)

lemma phases_subscribe_wait:
  "subscribe_wait rs = Some (cs, out) \<Longrightarrow>
     phases 0 Running cs = Some (if out = Wait_Connected then Conn_Seen else Running)"
  by (induction rs arbitrary: cs rule: subscribe_wait.induct) (auto simp: ex_then_def split: if_splits)

lemma phases_cpp_subscribe_wait:
  "cpp_subscribe_wait rs = Some (cs, out) \<Longrightarrow> p = Running \<or> p = Conn_Seen \<Longrightarrow>
     \<exists>q. phases 0 p cs = Some q \<and> (q = Running \<or> q = Conn_Seen) \<and> (out = Wait_Connected \<longrightarrow> q = Conn_Seen)"
  by (induction rs arbitrary: cs p rule: cpp_subscribe_wait.induct) (auto simp: ex_then_def split: if_splits)

lemma phases_poll2_conn:
  "poll2 (Ex_Read_Conn 0) CONN_CONNECTED CONN_FAILED ms rs = Some (cs, good) \<Longrightarrow> p = Running \<or> p = Conn_Seen \<Longrightarrow>
     \<exists>q. phases 0 p cs = Some q \<and> (q = Running \<or> q = Conn_Seen) \<and> (good \<longrightarrow> q = Conn_Seen)"
  by (induction rs arbitrary: cs p) (auto simp: ex_then_def split: if_splits)

lemma phases_poll2_chan:
  "poll2 (Ex_Read_Chan 0) CHAN_ATTACHED CHAN_FAILED ms rs = Some (cs, good) \<Longrightarrow> p = Attach_Sent \<or> p = Attached_Seen \<Longrightarrow>
     \<exists>q. phases 0 p cs = Some q \<and> (q = Attach_Sent \<or> q = Attached_Seen) \<and> (good \<longrightarrow> q = Attached_Seen)"
  by (induction rs arbitrary: cs p) (auto simp: ex_then_def split: if_splits)

lemma phases_quit_wait: "quit_wait qs = Some cs \<Longrightarrow> phases 0 p cs = Some p"
  by (induction qs arbitrary: cs) (auto split: if_splits)

lemma publish_connected_used_well: "used_well 0 Conn_Seen (fst (publish_connected e event data count))"
proof -
  obtain cs k where w: "publish_wait_attached e 10 0 = (cs, k)" by (cases "publish_wait_attached e 10 0")
  obtain ps err where p: "publish_loop e event data (nat count) 0 ABLY_OK = (ps, err)"
    by (cases "publish_loop e event data (nat count) 0 ABLY_OK")
  note phases_publish_loop[of e event data "nat count" 0 ABLY_OK, unfolded p fst_conv, THEN used_well_append, simp]
  from phases_wait_attached[of e 10 0] w have "phases 0 Attach_Sent cs \<in> {Some Attach_Sent, Some Attached_Seen}" by auto
  then show ?thesis
    by (auto simp: publish_connected_def Let_def ex_then_def w p used_well_append)
qed

lemma publish_used_well: "used_well 0 No_Client (fst (realtime_publish_main e args))"
proof -
  obtain cs failed k where w: "publish_wait_connected e 30 0 = (cs, failed, k)"
    by (cases "publish_wait_connected e 30 0") auto
  have tail: "used_well 0 Conn_Seen (fst (publish_connected e event data n))" for event data n
    by (rule publish_connected_used_well)
  from phases_wait_connected[of e 30 0] w have "phases 0 Running cs \<in> {Some Running, Some Conn_Seen}" by auto
  then show ?thesis
    by (auto simp: realtime_publish_main_def Let_def ex_then_def w used_well_append tail)
qed

lemma subscribe_loop_used_well:
  assumes "subscribe_loop e reads quits = Some r"
  shows "used_well 0 Running (fst r)"
proof -
  obtain cs out where w: "subscribe_wait reads = Some (cs, out)"
    using assms by (auto simp: subscribe_loop_def bind_eq_Some_conv)
  show ?thesis
  proof (cases "out = Wait_Connected")
    case True
    with assms w obtain ds where d: "subscribe_connected e quits = Some ds"
      and r: "fst r = cs @ ds @ [Ex_Close 0, Ex_Destroy 0]" by (auto simp: subscribe_loop_def)
    then have "\<exists>q. phases 0 Conn_Seen ds = Some q \<and> q \<in> {Conn_Seen, Attach_Sent}"
      by (auto simp: subscribe_connected_def Let_def split: list.splits if_splits
          dest: phases_quit_wait[where p = Attach_Sent])
    with True r phases_subscribe_wait[OF w] show ?thesis by (auto simp: used_well_append)
  next
    case False
    with assms w phases_subscribe_wait[OF w] show ?thesis by (auto simp: subscribe_loop_def used_well_append)
  qed
qed

lemma subscribe_used_well:
  "realtime_subscribe_main e args reads quits = Some r \<Longrightarrow> used_well 0 No_Client (fst r)"
  by (auto simp: realtime_subscribe_main_def ex_then_def Let_def split: if_splits dest: subscribe_loop_used_well)

lemma delta_used_well:
  "realtime_subscribe_delta_main e args reads ticks = Some r \<Longrightarrow> used_well 0 No_Client (fst r)"
  by (auto simp: realtime_subscribe_delta_main_def ex_then_def Let_def
      split: if_splits prod.splits dest: subscribe_loop_used_well)

lemma rest_used_well: "used_well 0 No_Client (fst (rest_publish_main e args))"
  by (simp add: rest_publish_main_def ex_then_def Let_def)

lemma cpp_rest_used_well: "used_well 0 No_Client (fst (cpp_rest_main e args))"
  by (simp add: cpp_rest_main_def ex_then_def Let_def)

lemma cpp_publish_attached_used_well: "used_well 0 Attached_Seen (fst (cpp_publish_attached e event data count))"
proof -
  obtain ps all where p: "cpp_publish_loop e event data (nat count) 0 = (ps, all)"
    by (cases "cpp_publish_loop e event data (nat count) 0")
  note phases_cpp_publish_loop[of e event data "nat count" 0, unfolded p fst_conv, THEN used_well_append, simp]
  show ?thesis by (simp add: cpp_publish_attached_def p)
qed

lemma cpp_subscribe_used_well:
  assumes "cpp_subscribe_main e args reads quits = Some r"
  shows "used_well 0 No_Client (fst r)"
proof -
  have "used_well 0 Conn_Seen (fst r)" if "cpp_subscribe_connected e quits = Some r" for r
    using that phases_quit_wait[where p = Attach_Sent]
    by (auto simp: cpp_subscribe_connected_def ex_then_def used_well_append split: list.splits if_splits)
  then show ?thesis using assms
    by (auto simp: cpp_subscribe_main_def ex_then_def bind_eq_Some_conv used_well_append
        split: if_splits wait_outcome.splits dest!: phases_cpp_subscribe_wait[where p = Running])
      (use wait_outcome.exhaust in blast)
qed

lemma cpp_publish_used_well:
  assumes "cpp_publish_main e args conns chans = Some r"
  shows "used_well 0 No_Client (fst r)"
  using assms
  by (auto simp: cpp_publish_main_def ex_then_def Let_def bind_eq_Some_conv used_well_append
      cpp_publish_attached_used_well split: if_splits
      dest!: phases_poll2_conn[where p = Running] phases_poll2_chan[where p = Attach_Sent])

section \<open>What the programs do\<close>

text \<open>The messages that a run publishes.\<close>

fun published :: "ex_call list \<Rightarrow> (string \<times> string \<times> ably_error) list" where
  "published [] = []"
| "published (Ex_Publish c event data err # xs) = (event, data, err) # published xs"
| "published (x # xs) = published xs"

lemma published_append [simp]: "published (xs @ ys) = published xs @ published ys"
  by (induction xs rule: published.induct) auto

lemma published_waits:
  shows "published (fst (publish_wait_connected e n k)) = []" "published (fst (publish_wait_attached e n k)) = []"
    "Ex_Close 0 \<notin> set (fst (publish_wait_connected e n k))" "Ex_Close 0 \<notin> set (fst (publish_wait_attached e n k))"
  by (induction n arbitrary: k) (auto simp: ex_then_def Let_def)

lemma publish_loop_eq:
  "publish_loop e event data n i err =
     (map (\<lambda>j. Ex_Publish 0 event (publish_payload data j) (ex_publish e j)) [i..<i + n],
      if n = 0 then err else ex_publish e (i + n - 1))"
proof (induction n arbitrary: i err)
  case (Suc n)
  have "[i..<i + Suc n] = i # [Suc i..<Suc i + n]" by (simp add: upt_conv_Cons del: upt_Suc)
  with Suc show ?case by (auto simp: ex_then_def simp del: upt_Suc)
qed (simp)

lemma published_map: "published (map (\<lambda>j. Ex_Publish 0 event (f j) (g j)) js) = map (\<lambda>j. (event, f j, g j)) js"
  by (induction js) auto

text \<open>How far a run came: it published (and closed the client), or stopped before.\<close>

definition publish_result :: "ex_env \<Rightarrow> string \<Rightarrow> string \<Rightarrow> int \<Rightarrow> ex_run \<Rightarrow> bool" where
  "publish_result e event data count r \<longleftrightarrow>
     (if Ex_Close 0 \<in> set (fst r)
      then published (fst r) = map (\<lambda>i. (event, publish_payload data i, ex_publish e i)) [0..<nat count] \<and>
           snd r = Exit (if count \<le> 0 \<or> ex_publish e (nat count - 1) = ABLY_OK then 0 else 1)
      else published (fst r) = [] \<and> snd r = Exit 1)"

lemma publish_result_Cons:
  shows "publish_result e event data count ([], Exit 1)" "publish_result e event data count ([Ex_Destroy 0], Exit 1)"
    "published cs = [] \<Longrightarrow> Ex_Close 0 \<notin> set cs \<Longrightarrow>
       publish_result e event data count (ex_then cs r) \<longleftrightarrow> publish_result e event data count r"
  by (simp_all add: publish_result_def ex_then_def)

lemma publish_connected_result: "publish_result e event data count (publish_connected e event data count)"
proof -
  obtain cs k where w: "publish_wait_attached e 10 0 = (cs, k)" by (cases "publish_wait_attached e 10 0")
  with published_waits(2,4)[of e 10 0] have cs: "published cs = []" "Ex_Close 0 \<notin> set cs" by simp_all
  show ?thesis
    by (auto simp: publish_connected_def w Let_def publish_loop_eq publish_result_Cons cs)
      (auto simp: publish_result_def published_map)
qed

lemma publish_main_result:
  "publish_result e (ex_arg args 2 ''greeting'') (ex_arg args 3 ''Hello from ably-c!'')
     (if 4 \<le> length args then c_atoi (args ! 3) else 5) (realtime_publish_main e args)"
proof -
  obtain cs failed k where w: "publish_wait_connected e 30 0 = (cs, failed, k)"
    by (cases "publish_wait_connected e 30 0") auto
  with published_waits(1,3)[of e 30 0] have cs: "published cs = []" "Ex_Close 0 \<notin> set cs" by simp_all
  show ?thesis
    by (simp add: realtime_publish_main_def Let_def w publish_result_Cons cs publish_connected_result)
qed

lemma wait_connected_no_destroy:
  "Ex_Destroy d \<notin> set (fst (wait_connected e c n k))"
  by (induction n arbitrary: k) (auto simp: ex_then_def Let_def)

lemma phases_other_wait:
  "c \<noteq> d \<Longrightarrow> phases d p (fst (wait_connected e c n k)) = Some p"
  by (induction n arbitrary: k) (auto simp: ex_then_def Let_def)

lemma phases_own_wait:
  "phases c Running (fst (wait_connected e c n k)) = Some (if snd (wait_connected e c n k) then Conn_Seen else Running)"
  by (induction n arbitrary: k) (auto simp: ex_then_def Let_def)

lemma wait_connected_never: "(\<And>k. ex_conn e c k \<noteq> CONN_CONNECTED) \<Longrightarrow> \<not> snd (wait_connected e c n k)"
  by (induction n arbitrary: k) (auto simp: ex_then_def Let_def)

lemma subscribe_wait_never:
  "\<forall>(quit, st) \<in> set reads. \<not> quit \<and> st \<noteq> CONN_CONNECTED \<and> st \<noteq> CONN_FAILED \<Longrightarrow> subscribe_wait reads = None"
  by (induction reads rule: subscribe_wait.induct) auto

lemma cpp_subscribe_wait_never:
  "\<forall>(quit, s1, s2) \<in> set reads. \<not> quit \<and> s1 \<noteq> CONN_CONNECTED \<and> s2 \<noteq> CONN_FAILED \<Longrightarrow> cpp_subscribe_wait reads = None"
  by (induction reads rule: cpp_subscribe_wait.induct) auto

lemma poll2_never: "\<forall>(s1, s2) \<in> set rs. s1 \<noteq> good \<and> s2 \<noteq> bad \<Longrightarrow> poll2 rd good bad ms rs = None"
  by (induction rs) auto

lemma state_names:
  shows "on_conn_state CONN_SUSPENDED = ''Connection: SUSPENDED''" "on_conn_state CONN_FAILED = ''Connection: FAILED''"
    "conn_state_code st < length conn_names" "chan_state_code ch < length chan_names"
proof -
  show "conn_state_code st < length conn_names" by (cases st) (simp_all add: conn_names_def)
  show "chan_state_code ch < length chan_names" by (cases ch) (simp_all add: chan_names_def)
qed (simp_all add: on_conn_state_def name_of_def conn_names_def)

lemma published_nothing [simp]: "published (map (\<lambda>j. Ex_Presence c) js) = []"
  by (induction js) auto

lemma thr_Exit: "snd (thr c err r) = Exit k \<longleftrightarrow> err = ABLY_OK \<and> snd r = Exit k"
  by (auto simp: thr_def ex_then_def)

lemma thr_fst: "err = ABLY_OK \<Longrightarrow> fst (thr c err r) = c # fst r"
  by (simp add: thr_def ex_then_def)

lemma ex_then_simps [simp]: shows "snd (ex_then cs r) = snd r" "fst (ex_then cs r) = cs @ fst r"
  by (simp_all add: ex_then_def)

lemma cpp_session_used_well:
  assumes "snd (cpp_presence_session e) = Exit k"
  shows "used_well 0 Attach_Sent (fst (cpp_presence_session e)) \<and> used_well 1 Attach_Sent (fst (cpp_presence_session e))"
  using assms by (simp add: cpp_presence_session_def thr_Exit thr_fst)

lemma cpp_publisher_used_well:
  assumes "snd (cpp_presence_publisher e rounds) = Exit k"
  shows "used_well 0 Attach_Sent (fst (cpp_presence_publisher e rounds)) \<and>
    used_well 1 No_Client (fst (cpp_presence_publisher e rounds))"
proof -
  obtain cs good where w: "wait_connected e 1 rounds 0 = (cs, good)" by (cases "wait_connected e 1 rounds 0")
  with phases_other_wait[of 1 0 Attach_Sent e rounds 0] phases_own_wait[of 1 e rounds 0]
  have ph: "phases 0 Attach_Sent cs = Some Attach_Sent" "phases 1 Running cs = Some (if good then Conn_Seen else Running)"
    by simp_all
  show ?thesis
    using assms cpp_session_used_well[of e k]
    by (auto simp: cpp_presence_publisher_def cpp_poll_connected_def w Let_def thr_Exit thr_fst used_well_append[OF ph(1)]
        used_well_append[OF ph(2)] simp del: One_nat_def split: if_splits)
qed

lemma cpp_presence_used_well:
  assumes "snd (cpp_presence_main e rounds0 rounds1) = Exit k"
  shows "used_well 0 No_Client (fst (cpp_presence_main e rounds0 rounds1)) \<and>
    used_well 1 No_Client (fst (cpp_presence_main e rounds0 rounds1))"
proof -
  obtain cs good where w: "wait_connected e 0 rounds0 0 = (cs, good)" by (cases "wait_connected e 0 rounds0 0")
  with phases_other_wait[of 0 1 No_Client e rounds0 0] phases_own_wait[of 0 e rounds0 0]
  have ph: "phases 1 No_Client cs = Some No_Client" "phases 0 Running cs = Some (if good then Conn_Seen else Running)"
    by simp_all
  show ?thesis
    using assms cpp_publisher_used_well[of e rounds1 k]
    by (auto simp: cpp_presence_main_def cpp_poll_connected_def w Let_def thr_Exit thr_fst used_well_append[OF ph(1)]
        used_well_append[OF ph(2)] simp del: One_nat_def split: if_splits)
qed

lemma presence_session_used_well:
  assumes "p = Attach_Sent"
  shows "used_well 0 p (presence_calls 0 1)" "used_well 1 p (presence_calls 0 1)"
  using assms by (simp_all add: presence_calls_def)

text \<open>C36. The publish, subscribe and delta programs, the REST programs and their C++ versions use the client in order on
  every path, whatever the library answers, and destroy it on every path on which they end; so does the C++ presence
  program unless an exception ends it. This is not said of the presence program in C, which does not (the theorem on
  it), of the programs over libuv and Asio, nor of runs of a C++ program that an exception ends.\<close>

theorem example_clients_released:
  "used_well 0 No_Client (fst (realtime_publish_main e args)) \<and>
   (realtime_subscribe_main e args reads quits = Some r \<longrightarrow> used_well 0 No_Client (fst r)) \<and>
   (realtime_subscribe_delta_main e args reads ticks = Some r \<longrightarrow> used_well 0 No_Client (fst r)) \<and>
   used_well 0 No_Client (fst (rest_publish_main e args)) \<and>
   (cpp_publish_main e args conns chans = Some r \<longrightarrow> used_well 0 No_Client (fst r)) \<and>
   (cpp_subscribe_main e args cpp_reads quits = Some r \<longrightarrow> used_well 0 No_Client (fst r)) \<and>
   used_well 0 No_Client (fst (cpp_rest_main e args)) \<and>
   (snd (cpp_presence_main e n m) = Exit k \<longrightarrow>
      used_well 0 No_Client (fst (cpp_presence_main e n m)) \<and> used_well 1 No_Client (fst (cpp_presence_main e n m)))"
  by (intro conjI impI)
    (auto intro: publish_used_well subscribe_used_well delta_used_well rest_used_well cpp_publish_used_well
      cpp_subscribe_used_well cpp_rest_used_well dest: cpp_presence_used_well)

definition ex_fine :: ex_env where
  "ex_fine = \<lparr>ex_key = Some ''app.key:secret'', ex_made = (\<lambda>c. True), ex_channel = (\<lambda>c. True), ex_delta = ABLY_OK,
     ex_connect = (\<lambda>c. ABLY_OK), ex_attach = (\<lambda>c. ABLY_OK), ex_publish = (\<lambda>i. if i = 0 then ABLY_ERR_CAPACITY else ABLY_OK),
     ex_conn = (\<lambda>c k. if k = 0 then CONN_CONNECTING else CONN_CONNECTED),
     ex_chan = (\<lambda>k. if k = 0 then CHAN_ATTACHING else CHAN_ATTACHED), ex_presence = (\<lambda>k. ABLY_OK), ex_close = (\<lambda>c. ABLY_OK)\<rparr>"

lemma example_clients_released_witness:
  "\<exists>r. realtime_subscribe_main ex_fine [] [(False, CONN_CONNECTING), (False, CONN_CONNECTED)] [False, False, True] = Some r \<and>
     used_well 0 No_Client (fst r) \<and> length (fst r) = 14"
proof -
  obtain r where r: "realtime_subscribe_main ex_fine [] [(False, CONN_CONNECTING), (False, CONN_CONNECTED)] [False, False, True] = Some r"
    "length (fst r) = 14"
    by (simp add: realtime_subscribe_main_def ex_fine_def Let_def subscribe_loop_def subscribe_connected_def ex_then_def)
  with example_clients_released[of ex_fine "[]" "[(False, CONN_CONNECTING), (False, CONN_CONNECTED)]" "[False, False, True]" r]
  show ?thesis by auto
qed

text \<open>The publish program either stops before it publishes anything, with exit code 1, or publishes all its messages,
  in order and numbered from 1; its exit code then tells only whether the last of them was taken.\<close>

theorem publish_example_result:
  "let r = realtime_publish_main e args; data = ex_arg args 3 ''Hello from ably-c!'';
       count = (if 4 \<le> length args then c_atoi (args ! 3) else 5) in
   if Ex_Close 0 \<in> set (fst r)
   then published (fst r) =
          map (\<lambda>i. (ex_arg args 2 ''greeting'', c_copy 256 (data @ '' #'' @ dec_of_nat (i + 1)), ex_publish e i)) [0..<nat count] \<and>
        snd r = Exit (if count \<le> 0 \<or> ex_publish e (nat count - 1) = ABLY_OK then 0 else 1)
   else published (fst r) = [] \<and> snd r = Exit 1"
  using publish_main_result[of e args] by (simp add: publish_result_def publish_payload_def Let_def)

text \<open>C37. The presence program in C destroys neither client when it ends early; a client that connects and is not CONNECTED
  within ten seconds is left running. It destroys both on its one successful path.\<close>

theorem presence_example_leaks:
  "(snd (realtime_presence_main e) = Exit 1 \<longrightarrow> (\<forall>c. Ex_Destroy c \<notin> set (fst (realtime_presence_main e)))) \<and>
   (c_nonempty (ex_key e) \<and> ex_made e 0 \<and> ex_channel e 0 \<and> ex_connect e 0 = ABLY_OK \<and> (\<forall>k. ex_conn e 0 k \<noteq> CONN_CONNECTED) \<longrightarrow>
      snd (realtime_presence_main e) = Exit 1 \<and> phases 0 No_Client (fst (realtime_presence_main e)) = Some Running) \<and>
   (snd (realtime_presence_main e) = Exit 0 \<and> (\<forall>c. ex_connect e c = ABLY_OK \<and> ex_attach e c = ABLY_OK) \<longrightarrow>
      used_well 0 No_Client (fst (realtime_presence_main e)) \<and> used_well 1 No_Client (fst (realtime_presence_main e)))"
proof -
  define n where "n = wait_rounds 10000"
  obtain cs good where w: "wait_connected e 0 n 0 = (cs, good)" by (cases "wait_connected e 0 n 0")
  obtain cs' good' where w': "wait_connected e 1 n 0 = (cs', good')" by (cases "wait_connected e 1 n 0")
  note nd = wait_connected_no_destroy[of _ e 0 n 0, unfolded w fst_conv] wait_connected_no_destroy[of _ e 1 n 0, unfolded w' fst_conv]
  note ph = phases_other_wait[OF zero_neq_one, of No_Client e n 0, unfolded w fst_conv]
    phases_own_wait[of 0 e n 0, unfolded w fst_conv snd_conv]
    phases_other_wait[OF one_neq_zero, of Attach_Sent e n 0, unfolded w' fst_conv]
    phases_own_wait[of 1 e n 0, unfolded w' fst_conv snd_conv]
  have never: "(\<forall>k. ex_conn e 0 k \<noteq> CONN_CONNECTED) \<longrightarrow> \<not> good" using wait_connected_never[of e 0 n 0] w by auto
  note def = realtime_presence_main_def[of e, folded n_def]
  show ?thesis
  proof (intro conjI)
    show "snd (realtime_presence_main e) = Exit 1 \<longrightarrow> (\<forall>c. Ex_Destroy c \<notin> set (fst (realtime_presence_main e)))"
      by (auto simp: def w w' nd simp del: One_nat_def split: if_splits)
  next
    show "c_nonempty (ex_key e) \<and> ex_made e 0 \<and> ex_channel e 0 \<and> ex_connect e 0 = ABLY_OK \<and> (\<forall>k. ex_conn e 0 k \<noteq> CONN_CONNECTED) \<longrightarrow>
      snd (realtime_presence_main e) = Exit 1 \<and> phases 0 No_Client (fst (realtime_presence_main e)) = Some Running"
      using never ph(2) by (auto simp: def w phases_append simp del: One_nat_def)
  next
    show "snd (realtime_presence_main e) = Exit 0 \<and> (\<forall>c. ex_connect e c = ABLY_OK \<and> ex_attach e c = ABLY_OK) \<longrightarrow>
      used_well 0 No_Client (fst (realtime_presence_main e)) \<and> used_well 1 No_Client (fst (realtime_presence_main e))"
      by (auto simp: def w w' used_well_append[OF ph(1)] used_well_append[OF ph(2)] used_well_append[OF ph(3)]
          used_well_append[OF ph(4)] presence_session_used_well simp del: One_nat_def split: if_splits)
  qed
qed

lemma presence_example_leaks_witness:
  "snd (realtime_presence_main (ex_fine\<lparr>ex_conn := (\<lambda>c k. CONN_DISCONNECTED)\<rparr>)) = Exit 1 \<and>
   phases 0 No_Client (fst (realtime_presence_main (ex_fine\<lparr>ex_conn := (\<lambda>c k. CONN_DISCONNECTED)\<rparr>))) = Some Running"
  using presence_example_leaks[of "ex_fine\<lparr>ex_conn := (\<lambda>c k. CONN_DISCONNECTED)\<rparr>"] by (simp add: ex_fine_def)

text \<open>The subscribe and delta programs and the C++ publish and subscribe programs wait for ever for a client that they
  only ever see in other states than CONNECTED and FAILED: however long they have been reading, they are still
  waiting. That is what they see of a client that failed and was CLOSED between two reads.\<close>

theorem examples_wait_for_ever:
  assumes "ex_key e \<noteq> None" "ex_made e 0" "ex_channel e 0" "ex_connect e 0 = ABLY_OK" "ex_delta e = ABLY_OK"
    and "\<forall>st \<in> set sts. st \<noteq> CONN_CONNECTED \<and> st \<noteq> CONN_FAILED"
  shows "realtime_subscribe_main e args (map (\<lambda>st. (False, st)) sts) quits = None \<and>
    realtime_subscribe_delta_main e args (map (\<lambda>st. (False, st)) sts) ticks = None \<and>
    cpp_subscribe_main e args (map (\<lambda>st. (False, st, st)) sts) quits = None \<and>
    cpp_publish_main e args (map (\<lambda>st. (st, st)) sts) chans = None"
proof -
  have never: "subscribe_wait (map (\<lambda>st. (False, st)) sts) = None" "cpp_subscribe_wait (map (\<lambda>st. (False, st, st)) sts) = None"
    "poll2 (Ex_Read_Conn 0) CONN_CONNECTED CONN_FAILED 500 (map (\<lambda>st. (st, st)) sts) = None"
    using assms(6) by (auto intro!: subscribe_wait_never cpp_subscribe_wait_never poll2_never)
  then show ?thesis using assms(1-5)
    by (simp add: realtime_subscribe_main_def realtime_subscribe_delta_main_def subscribe_loop_def cpp_subscribe_main_def
        cpp_publish_main_def Let_def split: prod.split)
qed

lemma examples_wait_for_ever_witness:
  "\<forall>n. realtime_subscribe_main ex_fine [] (map (\<lambda>st. (False, st)) (CONN_CONNECTING # replicate n CONN_CLOSED)) [] = None"
  using examples_wait_for_ever[of ex_fine "CONN_CONNECTING # replicate n CONN_CLOSED" for n] by (simp add: ex_fine_def)

end
