(* ===== verification/Ably_Reconnect.thy ===== *)
theory Ably_Reconnect
  imports Ably_Event_Loop
begin

text \<open>
  A lost connection, from end to end: the service thread leaves its event loop, tells the channels, tries hosts,
  waits, connects again, and attaches on CONNECTED. What was queued stays queued, and the channels that were in use
  are attached again; but the serials begin again.
\<close>

text \<open>A channel after \<^verbatim>\<open>ably_channel_on_disconnect\<close>.\<close>

definition lost_channel :: "channel \<Rightarrow> channel" where
  "lost_channel ch = ch\<lparr>ch_reattach_pending :=
       (ch_reattach_pending ch \<or> ch_state ch = CHAN_ATTACHED \<or> ch_state ch = CHAN_ATTACHING),
     ch_state := CHAN_DETACHED, ch_delta_bufs := [[], []], ch_delta_buf_idx := 0, ch_delta_last_id := []\<rparr>"

lemma lost_channel_twice [simp]: "lost_channel (lost_channel ch) = lost_channel ch"
  by (simp add: lost_channel_def)

lemma on_disconnect_spec:
  "cw_ch (channel_on_disconnect cw) = lost_channel (cw_ch cw)" "cw_core (channel_on_disconnect cw) = cw_core cw"
  by (cases "cw_ch cw"; auto simp: channel_on_disconnect_def lost_channel_def set_state_locked_def set_ch_def emit_def Let_def)+

lemma on_channels_disconnect:
  "rw_channels (on_channels channel_on_disconnect w) = map lost_channel (rw_channels w) \<and>
   rw_client (on_channels channel_on_disconnect w) = rw_client w"
proof -
  have "k \<le> length (rw_channels w) \<Longrightarrow>
      (let v = fold (\<lambda>i. on_channel i channel_on_disconnect) [0..<k] w in
        rw_channels v = map lost_channel (take k (rw_channels w)) @ drop k (rw_channels w) \<and> rw_client v = rw_client w)" for k
  proof (induction k)
    case (Suc k)
    define v where "v = fold (\<lambda>i. on_channel i channel_on_disconnect) [0..<k] w"
    have v: "rw_channels v = map lost_channel (take k (rw_channels w)) @ drop k (rw_channels w)" "rw_client v = rw_client w"
      using Suc by (simp_all add: v_def Let_def)
    have k: "k < length (rw_channels w)" "rw_channels v ! k = rw_channels w ! k"
      using Suc.prems v(1) by (simp_all add: nth_append)
    have "rw_channels (on_channel k channel_on_disconnect v) = (rw_channels v)[k := lost_channel (rw_channels v ! k)]"
      "rw_client (on_channel k channel_on_disconnect v) = rw_client v"
      by (simp_all add: on_channel_def Let_def on_disconnect_spec)
    moreover have "(rw_channels v)[k := lost_channel (rw_channels w ! k)] =
        map lost_channel (take (Suc k) (rw_channels w)) @ drop (Suc k) (rw_channels w)"
      using k(1) by (simp add: v(1) list_update_append take_Suc_conv_app_nth Cons_nth_drop_Suc[symmetric])
    ultimately show ?case using v(2) k(2) by (simp add: Let_def v_def)
  qed simp
  from this[of "length (rw_channels w)"] show ?thesis by (simp add: on_channels_def Let_def)
qed

text \<open>Until CONNECTED arrives: any number of attempts, waits and token refreshes, and attempts that fail after the
  handshake, with rounds of the event loop that receive nothing, an error, or frames that are neither CONNECTED nor
  for a channel.\<close>

fun away_run :: "svc_input list \<Rightarrow> svc_pc \<times> rt_world \<Rightarrow> (svc_pc \<times> rt_world) option" where
  "away_run [] s = Some s"
| "away_run (inp # inps) s = Option.bind (svc_next inp s) (away_run inps)"

definition channel_actions :: "ably_action set" where
  "channel_actions = {ACTION_ATTACHED, ACTION_DETACHED, ACTION_MESSAGE, ACTION_PRESENCE, ACTION_SYNC}"

definition brings :: "(ably_proto_frame \<Rightarrow> bool) \<Rightarrow> codec_lib \<Rightarrow> ably_encoding \<Rightarrow> string \<Rightarrow> bool" where
  "brings p lib enc buf \<longleftrightarrow>
     (case proto_decode lib enc (c_copy ABLY_WS_RECV_BUF_SIZE buf) of None \<Rightarrow> False | Some f \<Rightarrow> p f)"

fun msg_text :: "ws_msg \<Rightarrow> string" where
  "msg_text (Ws_Text buf) = buf"
| "msg_text (Ws_Binary buf) = buf"
| "msg_text m = []"

definition quiet_msg :: "codec_lib \<Rightarrow> ably_encoding \<Rightarrow> ws_msg \<Rightarrow> bool" where
  "quiet_msg lib enc m \<longleftrightarrow>
     msg_text m = [] \<or> \<not> brings (\<lambda>f. pf_action f \<in> insert ACTION_CONNECTED channel_actions) lib enc (msg_text m)"

definition unconnected :: "codec_lib \<Rightarrow> cb_script \<Rightarrow> ably_encoding \<Rightarrow> svc_input \<Rightarrow> bool" where
  "unconnected lib script enc inp \<longleftrightarrow> (\<exists>rest now. si_env inp = scripted lib script rest now) \<and>
     (case si_recv inp of Recv_Messages ms ok \<Rightarrow> list_all (quiet_msg lib enc) ms | _ \<Rightarrow> True)"

definition keeps :: "string list \<Rightarrow> ably_encoding \<Rightarrow> rt_world \<Rightarrow> bool" where
  "keeps P enc w \<longleftrightarrow> core_inv (rw_client w) \<and> rc_pending_frames (rw_client w) = P \<and> rc_encoding (rw_client w) = enc"

text \<open>The account of what left the ring: rounds send at most one frame each, and replies to heartbeats.\<close>

definition left_ring :: "codec_lib \<Rightarrow> ably_encoding \<Rightarrow> string list \<Rightarrow> string list \<Rightarrow> string list \<Rightarrow> string list \<Rightarrow> bool" where
  "left_ring lib enc P0 S0 P S \<longleftrightarrow>
     (\<exists>rounds. concat (map fst rounds) @ P = P0 \<and> (\<forall>r \<in> set rounds. length (fst r) \<le> 1) \<and>
        S = S0 @ concat (map (\<lambda>(fs, k). fs @ replicate k (beat lib enc)) rounds))"

lemma left_ring_refl: "left_ring lib enc P S P S"
  unfolding left_ring_def by (rule exI[of _ "[]"]) simp

lemma left_ring_round:
  assumes "left_ring lib enc P0 S0 P S"
  shows "left_ring lib enc P0 S0 (tl P) (S @ take 1 P @ replicate k (beat lib enc))"
proof -
  obtain rounds where r: "concat (map fst rounds) @ P = P0" "\<forall>r \<in> set rounds. length (fst r) \<le> 1"
    "S = S0 @ concat (map (\<lambda>(fs, k). fs @ replicate k (beat lib enc)) rounds)"
    using assms by (auto simp: left_ring_def)
  have "take 1 P @ tl P = P" by (cases P) simp_all
  with r show ?thesis unfolding left_ring_def
    by (intro exI[of _ "rounds @ [(take 1 P, k)]"]) auto
qed

text \<open>A round that is quiet in this sense leaves ring, channels and serial alone.\<close>

definition calm :: "codec_lib \<Rightarrow> ably_encoding \<Rightarrow> string list \<Rightarrow> string list \<Rightarrow> channel list \<Rightarrow> rt_world \<Rightarrow> bool" where
  "calm lib enc P S chs w \<longleftrightarrow> keeps P enc w \<and> rw_channels w = chs \<and> rc_msg_serial (rw_client w) = 0 \<and>
     (\<exists>k. ww_sent w = S @ replicate k (beat lib enc)) \<and> ww_sends w = [] \<and> \<not> ws_close_sent (ww_ws w)"

interpretation calm: ws_still "calm lib enc P S chs"
  by unfold_locales (auto simp: calm_def keeps_def ws_quiet_def)

lemma calm_client:
  assumes "calm lib enc P S chs w" "rc_send_ring (f (rw_client w)) = rc_send_ring (rw_client w)"
    "rc_encoding (f (rw_client w)) = rc_encoding (rw_client w)" "rc_msg_serial (f (rw_client w)) = rc_msg_serial (rw_client w)"
  shows "calm lib enc P S chs (set_client f w)"
  using assms by (simp add: calm_def keeps_def set_client_def core_inv_def rc_pending_frames_def)

lemma calm_state: "calm lib enc P S chs w \<Longrightarrow> calm lib enc P S chs (rt_set_state_locked st r w)"
  by (simp add: calm_def keeps_def rt_set_state_locked_def Let_def core_inv_def rc_pending_frames_def)

lemma calm_dispatch:
  assumes w: "calm lib enc P S chs w" and f: "pf_action frame \<notin> insert ACTION_CONNECTED channel_actions"
  shows "calm lib enc P S chs (rt_dispatch_frame (scripted lib script rest now) frame w)"
proof -
  have send: "calm lib enc P S chs (snd (ws_send_text (beat lib enc) v))" if v: "calm lib enc P S chs v" for v
  proof -
    obtain k where "ww_sent v = S @ replicate k (beat lib enc)" using v by (auto simp: calm_def)
    then have "ww_sent v @ [beat lib enc] = S @ replicate (Suc k) (beat lib enc)" by (simp add: replicate_append_same)
    then show ?thesis using v by (auto simp: calm_def keeps_def ws_send_text_def intro: exI[of _ "Suc k"])
  qed
  have "rc_encoding (rw_client w) = enc" using w by (simp add: calm_def keeps_def)
  then have "calm lib enc P S chs (rt_on_heartbeat (scripted lib script rest now) w)"
    using send[OF calm_client[OF w], of "\<lambda>c. c\<lparr>rt_last_activity := now\<rparr>"]
    by (simp add: rt_on_heartbeat_def scripted_def beat_def Let_def calm_client[OF w])
  moreover have "calm lib enc P S chs (rt_on_disconnected frame w)" "calm lib enc P S chs (rt_on_error frame w)"
    using w by (auto simp: rt_on_disconnected_def rt_on_error_def Let_def intro!: calm_client calm_state)
  ultimately show ?thesis using w f calm_state
    by (auto simp: rt_dispatch_frame_def channel_actions_def split: ably_action.split)
qed

lemma calm_message:
  assumes w: "calm lib enc P S chs w" and m: "quiet_msg lib enc m"
  shows "calm lib enc P S chs (ws_on_message (on_ws_frame (scripted lib script rest now)) m w)"
proof -
  have enc: "rc_encoding (rw_client w) = enc" using w by (simp add: calm_def keeps_def)
  have "calm lib enc P S chs (ws_deliver (on_ws_frame (scripted lib script rest now)) (msg_text m) w)"
    using w m calm_dispatch[OF w]
    by (auto simp: ws_deliver_def on_ws_frame_def quiet_msg_def brings_def enc scripted_def split: option.splits)
  with w show ?thesis
    by (cases m) (auto simp: ws_deliver_def ws_quiet_def intro!: calm.set_ws_law)
qed

lemma calm_recv:
  assumes w: "calm lib enc P S chs w" and u: "unconnected lib script enc inp"
  shows "calm lib enc P S chs (snd (ws_recv_once (on_ws_frame (si_env inp)) (si_recv inp) w))"
proof -
  obtain rest now where env: "si_env inp = scripted lib script rest now" using u by (auto simp: unconnected_def)
  have "calm lib enc P S chs (fold (ws_on_message (on_ws_frame (si_env inp))) ms w)" if "list_all (quiet_msg lib enc) ms" for ms
    using that w unfolding env by (induction ms arbitrary: w) (auto intro: calm_message)
  with u w show ?thesis
    by (auto simp: ws_recv_once_def unconnected_def ws_quiet_def Let_def split: recv_ret.splits intro!: calm.set_ws_law)
qed

text \<open>Where the thread is on the way. From the first pass of the label \<^verbatim>\<open>disconnected\<close> on the channels are lost; from
  \<^verbatim>\<open>prepare_connect\<close> on the serial is 0. A requested close never leads back.\<close>

definition away :: "codec_lib \<Rightarrow> ably_encoding \<Rightarrow> string list \<Rightarrow> string list \<Rightarrow> channel list \<Rightarrow> svc_pc \<times> rt_world \<Rightarrow> bool" where
  "away lib enc P0 S0 chs s \<longleftrightarrow>
     (fst s = Svc_Check \<and> closing (snd s)) \<or>
     (keeps (rc_pending_frames (rw_client (snd s))) enc (snd s) \<and> ww_sends (snd s) = [] \<and>
      left_ring lib enc P0 S0 (rc_pending_frames (rw_client (snd s))) (ww_sent (snd s)) \<and>
      map lost_channel (rw_channels (snd s)) = map lost_channel chs \<and>
      (fst s \<noteq> Svc_Down \<longrightarrow> rw_channels (snd s) = map lost_channel chs) \<and>
      (fst s \<in> {Svc_Connect, Svc_Loop} \<longrightarrow> rc_msg_serial (rw_client (snd s)) = 0) \<and>
      (fst s = Svc_Loop \<longrightarrow> \<not> ws_close_sent (ww_ws (snd s))))"

lemma keeps_client:
  assumes "keeps P enc w" "rc_send_ring (rw_client v) = rc_send_ring (rw_client w)" "rc_encoding (rw_client v) = rc_encoding (rw_client w)"
  shows "keeps P enc v"
  using assms by (simp add: keeps_def core_inv_def rc_pending_frames_def)

lemma set_state_fields [simp]:
  shows "rw_channels (rt_set_state_locked st r w) = rw_channels w"
    "rc_send_ring (rw_client (rt_set_state_locked st r w)) = rc_send_ring (rw_client w)"
    "rc_encoding (rw_client (rt_set_state_locked st r w)) = rc_encoding (rw_client w)"
    "rc_msg_serial (rw_client (rt_set_state_locked st r w)) = rc_msg_serial (rw_client w)"
  by (simp_all add: rt_set_state_locked_def Let_def)

lemma refresh_fields [simp]:
  shows "rc_send_ring (refresh_token a c) = rc_send_ring c" "rc_encoding (refresh_token a c) = rc_encoding c"
  by (simp_all add: refresh_token_def Let_def)

lemma set_state_traffic [simp]:
  shows "ww_sent (rt_set_state_locked st r w) = ww_sent w" "ww_sends (rt_set_state_locked st r w) = ww_sends w"
    "ww_ws (rt_set_state_locked st r w) = ww_ws w"
  by (simp_all add: rt_set_state_locked_def Let_def)

text \<open>Pieces of the thread that change neither ring nor traffic.\<close>

lemma away_keep:
  assumes w: "away lib enc P0 S0 chs (pc, w)" "\<not> (pc = Svc_Check \<and> closing w)"
    and v: "rc_send_ring (rw_client v) = rc_send_ring (rw_client w)" "rc_encoding (rw_client v) = rc_encoding (rw_client w)"
      "ww_sent v = ww_sent w" "ww_sends v = ww_sends w" "rw_channels v = map lost_channel chs"
    and pc: "pc' \<in> {Svc_Connect, Svc_Loop} \<longrightarrow> rc_msg_serial (rw_client v) = 0"
      "pc' = Svc_Loop \<longrightarrow> \<not> ws_close_sent (ww_ws v)"
  shows "away lib enc P0 S0 chs (pc', v)"
proof -
  have "rc_pending_frames (rw_client v) = rc_pending_frames (rw_client w)" using v(1) by (simp add: rc_pending_frames_def)
  moreover have "map lost_channel (map lost_channel chs) = map lost_channel chs" by simp
  moreover have k: "keeps (rc_pending_frames (rw_client w)) enc w" using w by (auto simp: away_def)
  ultimately show ?thesis using w v(3-5) pc keeps_client[OF k v(1,2)] by (simp add: away_def)
qed

lemma connect_traffic:
  shows "ww_sent (snd (ws_connect ce w)) = ww_sent w" "ww_sends (snd (ws_connect ce w)) = ww_sends w"
  by (simp_all add: ws_connect_def Let_def set_ws_def ssl_setup_def tcp_connect_def lose_socket_def fail_ssl_def
      fail_net_def split: option.split bool.split tcp_ret.split)

interpretation owner: ws_local "\<lambda>w :: rt_world. rw_client w = c \<and> rw_channels w = chs"
  by unfold_locales simp

lemma away_top:
  assumes w: "away lib enc P0 S0 chs (Svc_Top, w)" and t: "svc_top w = (pc, w')"
  shows "pc = Svc_Exit \<or> away lib enc P0 S0 chs (pc, w')"
proof (cases "rt_close_requested (rw_client w)")
  case False
  define w1 where "w1 = rt_set_state_locked CONN_CONNECTING ABLY_OK w"
  have w': "pc = Svc_Connect" "w' = prepare_connect w1" using False t by (auto simp: svc_top_def w1_def)
  have ch: "rw_channels w = map lost_channel chs" using w by (simp add: away_def)
  have "away lib enc P0 S0 chs (Svc_Connect, w')"
    by (rule away_keep[OF w])
      (simp_all add: w'(2) w1_def prepare_connect_def Let_def set_ws_def set_client_def ch)
  then show ?thesis using w'(1) by simp
qed (use t in \<open>auto simp: svc_top_def\<close>)

lemma away_connect:
  assumes w: "away lib enc P0 S0 chs (Svc_Connect, w)" and c: "svc_connect ce w = Some s"
  shows "away lib enc P0 S0 chs s"
proof -
  obtain err w' where e: "ws_connect ce w = (Some err, w')" "s = (if err = ABLY_OK then Svc_Loop else Svc_Down, w')"
    using c by (auto simp: svc_connect_def split: prod.splits option.splits)
  have o: "rw_client w' = rw_client w \<and> rw_channels w' = rw_channels w"
    using owner.connect_law[of w "rw_client w" "rw_channels w" ce] e(1) by simp
  have t: "ww_sent w' = ww_sent w" "ww_sends w' = ww_sends w" using connect_traffic[of ce w] e(1) by simp_all
  have "err = ABLY_OK \<Longrightarrow> \<not> ws_close_sent (ww_ws w')" using ws_connect_ok e(1) by blast
  then show ?thesis unfolding e(2)
    by (intro away_keep[OF w]) (use w o t in \<open>auto simp: away_def\<close>)
qed

lemma away_down:
  assumes w: "away lib enc P0 S0 chs (Svc_Down, w)"
  shows "away lib enc P0 S0 chs (svc_down auth w)"
proof -
  obtain pc w' where d: "svc_down auth w = (pc, w')" by (cases "svc_down auth w")
  have "pc \<in> {Svc_Top, Svc_Suspended, Svc_Retry} \<and> rw_channels w' = map lost_channel (rw_channels w) \<and>
      rc_send_ring (rw_client w') = rc_send_ring (rw_client w) \<and> rc_encoding (rw_client w') = rc_encoding (rw_client w) \<and>
      ww_sent w' = ww_sent w \<and> ww_sends w' = ww_sends w"
    using d by (auto simp: svc_down_def Let_def set_client_def on_channels_disconnect split: if_splits)
  with w show ?thesis unfolding d by (intro away_keep[OF w]) (auto simp: away_def)
qed

lemma ws_send_client: "rw_client (snd (ws_send_text p w)) = rw_client w" "rw_channels (snd (ws_send_text p w)) = rw_channels w"
  by (auto simp: ws_send_text_def Let_def set_ws_def split: if_splits list.splits send_ret.splits)

text \<open>A round sends the frame it takes off the ring.\<close>

lemma calm_drain:
  assumes k: "keeps P enc w" and w: "ws_is_connected (ww_ws w)" "ww_sends w = []" "\<not> ws_close_sent (ww_ws w)"
    "rw_channels w = chs" "rc_msg_serial (rw_client w) = 0"
  shows "calm lib enc (tl P) (ww_sent w @ take 1 P) chs (snd (rt_drain_ring w))"
proof -
  obtain f c where d: "rt_drain_one (rw_client w) = (f, c)" by (cases "rt_drain_one (rw_client w)")
  have core: "core_inv (rw_client w)" "rc_pending_frames (rw_client w) = P" using k by (simp_all add: keeps_def)
  note spec = rt_drain_one_spec[OF core(1), unfolded d snd_conv core(2)]
  have c: "rc_encoding c = rc_encoding (rw_client w)" "rc_msg_serial c = rc_msg_serial (rw_client w)" "f = None \<longrightarrow> c = rw_client w"
    using d by (auto simp: rt_drain_one_def split: option.splits)
  have f: "f = (case P of [] \<Rightarrow> None | p # ps \<Rightarrow> Some p)" using spec(1) by (auto split: list.splits)
  show ?thesis
  proof (cases P)
    case Nil
    then show ?thesis using f d k w by (simp add: rt_drain_ring_def calm_def)
  next
    case (Cons p ps)
    then have "snd (rt_drain_ring w) = w\<lparr>rw_client := c, ww_sends := [], ww_sent := ww_sent w @ [p]\<rparr>"
      using f d w by (simp add: rt_drain_ring_def ws_send_text_def ws_is_connected_def)
    then show ?thesis using c spec(2,3) k w Cons by (simp add: calm_def keeps_def)
  qed
qed

lemma away_round:
  assumes w: "away lib enc P0 S0 chs (Svc_Loop, w)" and u: "unconnected lib script enc inp"
    and n: "svc_next inp (Svc_Loop, w) = Some s"
  shows "away lib enc P0 S0 chs s"
proof (cases "ws_is_connected (ww_ws w)")
  case False
  then have "s = (Svc_Check, w)" using n by (simp add: svc_loop_def)
  then show ?thesis using w by (simp add: away_def)
next
  case True
  show ?thesis
  proof (cases "rt_close_requested (rw_client w)")
    case c: True
    obtain rest now where env: "si_env inp = scripted lib script rest now" using u by (auto simp: unconnected_def)
    have "closing w" using c by (simp add: closing_def)
    then have "closing (svc_close (si_env inp) (si_close inp) w)"
      unfolding env by (auto simp: svc_close_def Let_def intro!: closing.close_law closing.send_law)
    then show ?thesis using n c True by (auto simp: svc_loop_def away_def)
  next
    case False
    let ?P = "rc_pending_frames (rw_client w)"
    have k: "keeps ?P enc w" "ww_sends w = []" "\<not> ws_close_sent (ww_ws w)" "rw_channels w = map lost_channel chs"
      "rc_msg_serial (rw_client w) = 0" "left_ring lib enc P0 S0 ?P (ww_sent w)"
      using w by (simp_all add: away_def)
    define w2 where "w2 = snd (ws_recv_once (on_ws_frame (si_env inp)) (si_recv inp) (snd (rt_drain_ring w)))"
    have s: "s = (if heartbeat_lost (re_now (si_env inp)) (rw_client w2) then Svc_Check else Svc_Loop, w2)"
      using n False True by (simp add: svc_loop_def Let_def w2_def)
    have c: "calm lib enc (tl ?P) (ww_sent w @ take 1 ?P) (map lost_channel chs) w2"
      unfolding w2_def by (rule calm_recv[OF calm_drain[OF k(1) True k(2-5)] u])
    then obtain j where "ww_sent w2 = ww_sent w @ take 1 ?P @ replicate j (beat lib enc)" by (auto simp: calm_def)
    then have "left_ring lib enc P0 S0 (tl ?P) (ww_sent w2)" using left_ring_round[OF k(6), of j] by simp
    moreover have "map lost_channel (map lost_channel chs) = map lost_channel chs" by simp
    ultimately show ?thesis using c unfolding s by (auto simp: away_def calm_def keeps_def)
  qed
qed

lemma away_step:
  assumes w: "away lib enc P0 S0 chs (pc, w)" and n: "svc_next inp (pc, w) = Some s" and u: "unconnected lib script enc inp"
  shows "fst s = Svc_Exit \<or> away lib enc P0 S0 chs s"
proof (cases pc)
  case Svc_Top
  obtain pc' w' where t: "svc_top w = (pc', w')" by (cases "svc_top w")
  with Svc_Top n have "s = (pc', w')" by simp
  with away_top[OF w[unfolded Svc_Top] t] show ?thesis by auto
next
  case Svc_Connect
  with n away_connect[OF w[unfolded Svc_Connect]] show ?thesis by simp
next
  case Svc_Loop
  with away_round[OF w[unfolded Svc_Loop] u] n show ?thesis by simp
next
  case Svc_Check
  show ?thesis
  proof (cases "closing w")
    case True
    then show ?thesis using n Svc_Check by (auto simp: svc_check_def closing_def)
  next
    case False
    then have "away lib enc P0 S0 chs (Svc_Down, w)" using w Svc_Check by (auto simp: away_def)
    then show ?thesis using n Svc_Check by (auto simp: svc_check_def Let_def split: if_splits)
  qed
next
  case Svc_Down
  then have "s = svc_down (si_auth inp) w" using n by simp
  with away_down[OF w[unfolded Svc_Down]] show ?thesis by blast
next
  case Svc_Suspended
  then have "s = (Svc_Retry, set_client (\<lambda>c. c\<lparr>rt_attempt := 0\<rparr>) w)" using n by (simp add: svc_suspended_def)
  moreover have "away lib enc P0 S0 chs (Svc_Retry, set_client (\<lambda>c. c\<lparr>rt_attempt := 0\<rparr>) w)"
    by (rule away_keep[OF w]) (use w Svc_Suspended in \<open>simp_all add: set_client_def away_def\<close>)
  ultimately show ?thesis by simp
next
  case Svc_Retry
  obtain pc' v where v: "svc_retry (si_random inp) w = (pc', v)" by (cases "svc_retry (si_random inp) w")
  then have "s = (pc', v)" using n Svc_Retry by simp
  moreover have "rc_send_ring (rw_client v) = rc_send_ring (rw_client w) \<and> rc_encoding (rw_client v) = rc_encoding (rw_client w) \<and>
      ww_sent v = ww_sent w \<and> ww_sends v = ww_sends w \<and> rw_channels v = rw_channels w \<and> pc' \<notin> {Svc_Connect, Svc_Loop}"
    using v by (auto simp: svc_retry_def Let_def set_client_def split: if_splits)
  then have "away lib enc P0 S0 chs (pc', v)"
    by (intro away_keep[OF w]) (use w Svc_Retry in \<open>auto simp: away_def\<close>)
  ultimately show ?thesis by simp
next
  case Svc_Sleep
  with n w show ?thesis by (auto simp: away_def)
qed (use n in auto)

lemma away_run_keeps:
  "away_run inps s = Some (Svc_Loop, w') \<Longrightarrow> away lib enc P0 S0 chs s \<Longrightarrow> list_all (unconnected lib script enc) inps \<Longrightarrow>
     away lib enc P0 S0 chs (Svc_Loop, w')"
proof (induction inps arbitrary: s)
  case (Cons inp inps)
  then obtain s1 where s1: "svc_next inp s = Some s1" "away_run inps s1 = Some (Svc_Loop, w')"
    by (auto simp: bind_eq_Some_conv)
  obtain pc w where s: "s = (pc, w)" by (cases s)
  have "fst s1 \<noteq> Svc_Exit" using s1(2) by (cases s1; cases inps) auto
  with away_step[of lib enc P0 S0 chs pc w inp s1 script] s1 Cons.prems(2,3) s Cons.IH show ?case by auto
qed simp

lemma lost_attach [simp]:
  shows "attach_frame lib enc (lost_channel ch) = attach_frame lib enc ch"
    "reattaches lib enc (lost_channel ch) \<longleftrightarrow>
       (ch_reattach_pending ch \<or> ch_state ch = CHAN_ATTACHED \<or> ch_state ch = CHAN_ATTACHING) \<and> attach_frame lib enc ch \<noteq> []"
  by (simp_all add: attach_frame_def reattaches_def lost_channel_def channel_attach_params_def channel_needs_reattach_def)

definition in_use :: "codec_lib \<Rightarrow> ably_encoding \<Rightarrow> channel \<Rightarrow> bool" where
  "in_use lib enc ch \<longleftrightarrow>
     (ch_reattach_pending ch \<or> ch_state ch = CHAN_ATTACHED \<or> ch_state ch = CHAN_ATTACHING) \<and> attach_frame lib enc ch \<noteq> []"

lemma reattach_core:
  assumes "core_inv (cw_core cw)"
  shows "rc_msg_serial (cw_core (rt_reattach_channel lib cw)) = rc_msg_serial (cw_core cw)"
  using chan_enqueue_spec(4)[OF assms]
  by (auto simp: rt_reattach_channel_def Let_def channel_set_attaching_def set_state_locked_def set_ch_def emit_def)

lemma reattach_inv:
  assumes "core_inv (cw_core cw)"
  shows "core_inv (cw_core (rt_reattach_channel lib cw))"
  using chan_enqueue_spec(2)[OF assms] assms
  by (auto simp: rt_reattach_channel_def Let_def channel_set_attaching_def set_state_locked_def set_ch_def emit_def)

lemma reattach_serial:
  assumes "core_inv (rw_client w)"
  shows "rc_msg_serial (rw_client (rt_reattach_pending_channels lib w)) = rc_msg_serial (rw_client w)"
proof -
  have "core_inv (rw_client (fold (\<lambda>i. on_channel i (rt_reattach_channel lib)) is w)) \<and>
      rc_msg_serial (rw_client (fold (\<lambda>i. on_channel i (rt_reattach_channel lib)) is w)) = rc_msg_serial (rw_client w)" for "is"
    using assms
  proof (induction "is" rule: rev_induct)
    case (snoc i "is")
    define v where "v = fold (\<lambda>i. on_channel i (rt_reattach_channel lib)) is w"
    let ?cw = "\<lparr>cw_ch = rw_channels v ! i, cw_core = rw_client v, cw_events = []\<rparr>"
    have "core_inv (cw_core ?cw)" using snoc by (simp add: v_def)
    moreover have "rw_client (on_channel i (rt_reattach_channel lib) v) = cw_core (rt_reattach_channel lib ?cw)"
      by (simp add: on_channel_def Let_def)
    ultimately show ?case using reattach_inv[of ?cw lib] reattach_core[of ?cw lib] snoc by (simp add: v_def)
  qed simp
  then show ?thesis by (simp add: rt_reattach_pending_channels_def on_channels_def)
qed

lemma on_connected_spec:
  assumes "keeps Q enc w"
  defines "v \<equiv> \<lambda>env frame. rt_on_connected env frame w"
  shows "rc_pending_frames (rw_client (v env frame)) = Q @ take (255 - length Q)
      (map (attach_frame (re_lib env) enc) (filter (reattaches (re_lib env) enc) (rw_channels w))) \<and>
    rw_channels (v env frame) = map (reattached (re_lib env) enc) (rw_channels w) \<and>
    rc_msg_serial (rw_client (v env frame)) = rc_msg_serial (rw_client w)"
proof -
  define u where "u = set_client (\<lambda>c. c\<lparr>rt_attempt := 0\<rparr>)
    (rt_set_state_locked CONN_CONNECTED ABLY_OK (set_client (connected_client env frame) w))"
  have u: "rw_channels u = rw_channels w" "rc_send_ring (rw_client u) = rc_send_ring (rw_client w)"
    "rc_encoding (rw_client u) = rc_encoding (rw_client w)" "rc_msg_serial (rw_client u) = rc_msg_serial (rw_client w)"
    by (simp_all add: u_def set_client_def connected_client_def Let_def)
  have k: "keeps Q enc u" by (rule keeps_client[OF assms(1) u(2,3)])
  then have "core_inv (rw_client u)" "rc_pending_frames (rw_client u) = Q" "rc_encoding (rw_client u) = enc" by (simp_all add: keeps_def)
  with reattach_pending_spec[of u "re_lib env"] reattach_serial[of u "re_lib env"] u show ?thesis
    by (simp add: v_def rt_on_connected_def u_def[symmetric])
qed

lemma on_connected_traffic [simp]:
  shows "ww_sent (rt_on_connected env frame w) = ww_sent w"
  by (simp add: rt_on_connected_def rt_reattach_pending_channels_def set_client_def)

text \<open>The round that receives CONNECTED.\<close>

definition connected_input :: "codec_lib \<Rightarrow> cb_script \<Rightarrow> ably_encoding \<Rightarrow> svc_input \<Rightarrow> bool" where
  "connected_input lib script enc inp \<longleftrightarrow> (\<exists>rest now. si_env inp = scripted lib script rest now) \<and>
     (case si_recv inp of
        Recv_Messages [m] ok \<Rightarrow> msg_text m \<noteq> [] \<and> brings (\<lambda>f. pf_action f = ACTION_CONNECTED) lib enc (msg_text m)
      | _ \<Rightarrow> False)"

lemma connected_round:
  assumes w: "away lib enc P0 S0 chs (Svc_Loop, w)" and up: "ws_is_connected (ww_ws w)" "\<not> rt_close_requested (rw_client w)"
    and inp: "connected_input lib script enc inp" and n: "svc_next inp (Svc_Loop, w) = Some (pc, v)"
  shows "\<exists>Q. left_ring lib enc P0 S0 Q (ww_sent v) \<and>
    rc_pending_frames (rw_client v) = Q @ take (255 - length Q)
      (map (attach_frame lib enc) (filter (reattaches lib enc) (map lost_channel chs))) \<and>
    rw_channels v = map (reattached lib enc) (map lost_channel chs) \<and> rc_msg_serial (rw_client v) = 0"
proof -
  let ?P = "rc_pending_frames (rw_client w)"
  have k: "keeps ?P enc w" "ww_sends w = []" "\<not> ws_close_sent (ww_ws w)" "rw_channels w = map lost_channel chs"
    "rc_msg_serial (rw_client w) = 0" "left_ring lib enc P0 S0 ?P (ww_sent w)"
    using w by (simp_all add: away_def)
  define w1 where "w1 = snd (rt_drain_ring w)"
  have c: "calm lib enc (tl ?P) (ww_sent w @ take 1 ?P) (map lost_channel chs) w1"
    unfolding w1_def by (rule calm_drain[OF k(1) up(1) k(2-5)])
  then obtain j where j: "ww_sent w1 = ww_sent w @ take 1 ?P @ replicate j (beat lib enc)" by (auto simp: calm_def)
  obtain rest now where env: "si_env inp = scripted lib script rest now" using inp by (auto simp: connected_input_def)
  obtain m ok f where m: "si_recv inp = Recv_Messages [m] ok" "msg_text m \<noteq> []"
    "proto_decode lib enc (c_copy ABLY_WS_RECV_BUF_SIZE (msg_text m)) = Some f" "pf_action f = ACTION_CONNECTED"
    using inp by (auto simp: connected_input_def brings_def split: recv_ret.splits list.splits option.splits)
  define u where "u = rt_on_connected (si_env inp) f w1"
  have "rc_encoding (rw_client w1) = enc" using c by (simp add: calm_def keeps_def)
  then have del: "ws_on_message (on_ws_frame (si_env inp)) m w1 = u"
    using m(2-4) by (cases m) (simp_all add: ws_deliver_def on_ws_frame_def env scripted_def rt_dispatch_frame_def u_def)
  have "ws_connected (ww_ws w1) \<and> \<not> ws_close_received (ww_ws w1)"
    using up(1) k(2,3) unfolding w1_def
    by (auto simp: rt_drain_ring_def ws_send_text_def ws_is_connected_def split: prod.split option.split)
  then have v: "v = u \<or> v = set_ws (\<lambda>ws. ws\<lparr>ws_connected := False\<rparr>) u"
    using n up m(1) del by (auto simp: svc_loop_def Let_def ws_recv_once_def w1_def split: if_splits)
  have keeps1: "keeps (tl ?P) enc w1" "rw_channels w1 = map lost_channel chs" "rc_msg_serial (rw_client w1) = 0"
    using c by (simp_all add: calm_def)
  have "re_lib (si_env inp) = lib" by (simp add: env scripted_def)
  with on_connected_spec[OF keeps1(1), of "si_env inp" f] keeps1(2,3)
  have u: "rc_pending_frames (rw_client u) = tl ?P @ take (255 - length (tl ?P))
      (map (attach_frame lib enc) (filter (reattaches lib enc) (map lost_channel chs)))"
    "rw_channels u = map (reattached lib enc) (map lost_channel chs)" "rc_msg_serial (rw_client u) = 0"
    by (simp_all add: u_def)
  have "left_ring lib enc P0 S0 (tl ?P) (ww_sent u)"
    using left_ring_round[OF k(6), of j] by (simp add: u_def j)
  then show ?thesis using u v by (intro exI[of _ "tl ?P"]) (auto simp: set_ws_def)
qed

text \<open>C15. From a lost connection to the next CONNECTED, when sends succeed, the application calls nothing and no frame for
  a channel arrives before CONNECTED; however many attempts fail on the way, before the handshake is done or after it.
  Nothing that was queued is lost or reordered: what left the ring was sent, frame by frame and in order (replies to
  heartbeats may stand between), and \<open>Q\<close>, which is left, stays in front. Every channel that was attached or attaching
  is ATTACHING again, the others are DETACHED. Behind \<open>Q\<close> are the ATTACH frames, in the order of the channels, as far
  as the ring of 255 has room: those beyond are dropped, and their channels are ATTACHING all the same. The next
  message gets the serial 0 again, whatever serials the frames carry that were queued before.\<close>

theorem lost_connection_recovers:
  assumes "core_inv (rw_client w)" "ww_sends w = []" "away_run inps (Svc_Down, w) = Some (Svc_Loop, w')"
    and "list_all (unconnected lib script (rc_encoding (rw_client w))) inps"
    and "ws_is_connected (ww_ws w')" "\<not> rt_close_requested (rw_client w')"
    and "connected_input lib script (rc_encoding (rw_client w)) inp" "svc_next inp (Svc_Loop, w') = Some (pc, v)"
  shows "let enc = rc_encoding (rw_client w); attach = map (attach_frame lib enc) (filter (in_use lib enc) (rw_channels w)) in
    (\<exists>rounds Q. concat (map fst rounds) @ Q = rc_pending_frames (rw_client w) \<and> (\<forall>r \<in> set rounds. length (fst r) \<le> 1) \<and>
       ww_sent v = ww_sent w @ concat (map (\<lambda>(fs, k). fs @ replicate k (proto_encode_heartbeat lib 32 enc)) rounds) \<and>
       rc_pending_frames (rw_client v) = Q @ take (255 - length Q) attach) \<and>
    map ch_state (rw_channels v) = map (\<lambda>ch. if in_use lib enc ch then CHAN_ATTACHING else CHAN_DETACHED) (rw_channels w) \<and>
    rc_msg_serial (rw_client v) = 0"
proof -
  define enc where "enc = rc_encoding (rw_client w)"
  let ?P = "rc_pending_frames (rw_client w)"
  have "away lib enc ?P (ww_sent w) (rw_channels w) (Svc_Down, w)"
    using assms(1,2) by (simp add: away_def keeps_def enc_def left_ring_refl)
  from away_run_keeps[OF assms(3) this assms(4)[folded enc_def]]
  have "away lib enc ?P (ww_sent w) (rw_channels w) (Svc_Loop, w')" .
  from connected_round[OF this assms(5,6) assms(7)[folded enc_def] assms(8)]
  obtain Q where Q: "left_ring lib enc ?P (ww_sent w) Q (ww_sent v)"
    "rc_pending_frames (rw_client v) = Q @ take (255 - length Q)
      (map (attach_frame lib enc) (filter (reattaches lib enc) (map lost_channel (rw_channels w))))"
    "rw_channels v = map (reattached lib enc) (map lost_channel (rw_channels w))" "rc_msg_serial (rw_client v) = 0" by blast
  have use: "reattaches lib enc (lost_channel ch) = in_use lib enc ch" for ch by (simp add: in_use_def)
  have att: "map (attach_frame lib enc) (filter (reattaches lib enc) (map lost_channel chs)) =
      map (attach_frame lib enc) (filter (in_use lib enc) chs)" for chs
    by (induction chs) (simp_all add: use del: lost_attach(2))
  have st: "ch_state (reattached lib enc (lost_channel ch)) = (if in_use lib enc ch then CHAN_ATTACHING else CHAN_DETACHED)" for ch
    by (simp add: reattached_def use del: lost_attach(2)) (simp add: lost_channel_def)
  obtain rounds where "concat (map fst rounds) @ Q = ?P" "\<forall>r \<in> set rounds. length (fst r) \<le> 1"
    "ww_sent v = ww_sent w @ concat (map (\<lambda>(fs, k). fs @ replicate k (proto_encode_heartbeat lib 32 enc)) rounds)"
    using Q(1) by (auto simp: left_ring_def beat_def)
  then show ?thesis unfolding Let_def enc_def[symmetric] Q(2-4) att by (intro conjI exI[of _ rounds] exI[of _ Q]) (simp_all add: st)
qed

text \<open>A peer that greets with CONNECTED, whatever it is asked.\<close>

definition greeting_lib :: codec_lib where
  "greeting_lib = no_lib\<lparr>lib_json_parse := \<lambda>s. Some (JObj [(''action'', JNum 4)])\<rparr>"

definition greeting_input :: svc_input where
  "greeting_input = quiet_input\<lparr>si_env := scripted greeting_lib (\<lambda>cb m. []) None 0, si_conn := demo_conn\<rparr>"

lemma lost_connection_recovers_witness:
  "\<exists>w' pc v. away_run (replicate 3 greeting_input) (Svc_Down, attached_before) = Some (Svc_Loop, w') \<and>
     svc_next (greeting_input\<lparr>si_recv := Recv_Messages [Ws_Text ''frame''] True\<rparr>) (Svc_Loop, w') = Some (pc, v) \<and>
     map ch_state (rw_channels v) = [CHAN_ATTACHING]"
proof -
  let ?inp = greeting_input
  define w1 where "w1 = snd (svc_down (si_auth ?inp) attached_before)"
  have idle: "rt_host_idx (rw_client attached_before) = 0" "\<not> rt_close_requested (rw_client attached_before)"
    "rt_connection_key (rw_client attached_before) = []" "length (rt_ws_path (rw_client attached_before)) \<le> 400"
    "\<not> rt_need_refresh (rw_client attached_before)"
    using demo_paths
    by (simp_all add: attached_before_def) (simp_all add: demo_world_def rt_client_create_def Let_def)
  have down: "svc_down (si_auth ?inp) attached_before = (Svc_Top, w1)" "rt_host_idx (rw_client w1) = 1"
    "\<not> rt_close_requested (rw_client w1)" "rt_connection_key (rw_client w1) = []" "length (rt_ws_path (rw_client w1)) \<le> 400"
    using idle
    by (simp_all add: w1_def svc_down_def Let_def set_client_def on_channels_disconnect rt_set_state_locked_def
        refresh_token_def s_fallback_count_def s_fallback_hosts_def)
  define w2 where "w2 = snd (svc_top w1)"
  have top: "svc_top w1 = (Svc_Connect, w2)" using down by (simp add: w2_def svc_top_def)
  have "length (ws_path (ww_ws w2)) \<le> 400" "length (ws_host (ww_ws w2)) \<le> 300"
  proof -
    have c: "length (c_copy n t) \<le> length t" for n t by (simp add: c_copy_def)
    show "length (ws_path (ww_ws w2)) \<le> 400" using down order_trans[OF c]
      by (simp add: w2_def svc_top_def prepare_connect_def Let_def set_ws_def set_client_def ws_client_set_path_def
          ws_client_set_host_def rt_set_state_locked_def resume_url_def)
    show "length (ws_host (ww_ws w2)) \<le> 300" using down
      by (simp add: w2_def svc_top_def prepare_connect_def Let_def set_ws_def set_client_def ws_client_set_path_def
          ws_client_set_host_def rt_set_state_locked_def host_to_use_def s_fallback_count_def s_fallback_hosts_def c_copy_def)
  qed
  from demo_connect_any[OF this] obtain w3 where w3: "ws_connect demo_conn w2 = (Some ABLY_OK, w3)"
    by (cases "ws_connect demo_conn w2") auto
  have run: "away_run (replicate 3 ?inp) (Svc_Down, attached_before) = Some (Svc_Loop, w3)"
    using down top w3 by (simp add: numeral_3_eq_3 svc_connect_def greeting_input_def)
  have core: "core_inv (rw_client attached_before)"
    by (simp add: attached_before_def demo_world_def rt_client_create_def Let_def core_inv_def ring_inv_def empty_ring_def
        ABLY_SEND_RING_CAPACITY_def)
  have sends: "ww_sends attached_before = []"
    by (simp add: attached_before_def demo_world_def rt_client_create_def Let_def)
  have enc: "rc_encoding (rw_client attached_before) = ENCODING_JSON"
    by (simp add: attached_before_def demo_world_def rt_client_create_def Let_def rt_options_init_def)
  have "attach_frame greeting_lib ENCODING_JSON ((channel_create ''chat'')\<lparr>ch_state := CHAN_ATTACHED\<rparr>) \<noteq> []" by code_simp
  then have use: "in_use greeting_lib ENCODING_JSON ((channel_create ''chat'')\<lparr>ch_state := CHAN_ATTACHED\<rparr>)"
    by (simp add: in_use_def)
  have "pf_action (decode_frame_json 4 (JObj [(''action'', JNum 4)])) = ACTION_CONNECTED" by code_simp
  then have conn: "connected_input greeting_lib (\<lambda>cb m. []) ENCODING_JSON (?inp\<lparr>si_recv := Recv_Messages [Ws_Text ''frame''] True\<rparr>)"
    by (auto simp: connected_input_def greeting_input_def brings_def greeting_lib_def proto_decode_def proto_decode_json_def)
  have quiet: "list_all (unconnected greeting_lib (\<lambda>cb m. []) ENCODING_JSON) (replicate 3 ?inp)"
    by (auto simp: unconnected_def greeting_input_def quiet_input_def list_all_iff)
  have up: "ws_is_connected (ww_ws w3)" using ws_connect_ok[OF w3] by simp
  have "rw_client w3 = rw_client w2" using owner.connect_law[of w2 "rw_client w2" "rw_channels w2" demo_conn] w3 by simp
  moreover have "\<not> rt_close_requested (rw_client w2)"
    using down(3) by (simp add: w2_def svc_top_def prepare_connect_def Let_def set_ws_def set_client_def rt_set_state_locked_def)
  ultimately have nc: "\<not> rt_close_requested (rw_client w3)" by simp
  obtain pc v where n: "svc_next (?inp\<lparr>si_recv := Recv_Messages [Ws_Text ''frame''] True\<rparr>) (Svc_Loop, w3) = Some (pc, v)"
    by (cases "svc_loop (si_env ?inp) (Recv_Messages [Ws_Text ''frame''] True) (si_close ?inp) w3") simp
  have "rw_channels attached_before = [(channel_create ''chat'')\<lparr>ch_state := CHAN_ATTACHED\<rparr>]" by (simp add: attached_before_def)
  with lost_connection_recovers[OF core sends run _ up nc _ n, unfolded enc, OF quiet conn] use run n
  show ?thesis by (auto simp: Let_def)
qed

end
