(* ===== verification/Ably_Close_Wait.thy ===== *)
theory Ably_Close_Wait
  imports Ably_Types
begin

text \<open>
  Closing a client while its service thread waits: \<^verbatim>\<open>ably_rt_client_close\<close> and the two timed waits of
  \<^verbatim>\<open>service_thread_fn\<close> on \<^verbatim>\<open>state_cond\<close>, with the time in milliseconds. A condition variable wakes only those who
  already wait. Each step is a section under \<^verbatim>\<open>state_mutex\<close>; everything else that the service thread does is
  \<open>Svc_Working\<close>.
\<close>

datatype svc_at = Svc_Working | Svc_Backoff nat | Svc_Suspended_Until nat | Svc_Gone

datatype user_at = User_Away | User_Asked | User_Waits nat | User_Joins bool | User_Back bool

text \<open>The time, where the two threads are (a wait has its deadline; after the wait the flag \<^verbatim>\<open>timed_out\<close>),
  \<^verbatim>\<open>close_requested\<close>, and whether the state is CLOSED or FAILED.\<close>

record close_state =
  cw_now :: nat
  cw_svc :: svc_at
  cw_user :: user_at
  cw_close :: bool
  cw_closed :: bool

definition close_start :: close_state where
  "close_start = \<lparr>cw_now = 0, cw_svc = Svc_Working, cw_user = User_Away, cw_close = False, cw_closed = False\<rparr>"

text \<open>\<^verbatim>\<open>ably_cond_broadcast\<close>, as far as the service thread is concerned.\<close>

definition svc_woken :: "svc_at \<Rightarrow> svc_at" where
  "svc_woken a = (case a of Svc_Backoff d \<Rightarrow> Svc_Working | Svc_Suspended_Until d \<Rightarrow> Svc_Working | _ \<Rightarrow> a)"

text \<open>The same broadcast from \<^verbatim>\<open>rt_set_state_locked\<close>, as far as the closing thread is concerned: it
  tests again.\<close>

definition user_woken :: "user_at \<Rightarrow> user_at" where
  "user_woken u = (case u of User_Waits d \<Rightarrow> User_Asked | _ \<Rightarrow> u)"

definition svc_backoff_wait :: "nat \<Rightarrow> close_state \<Rightarrow> close_state" where
  "svc_backoff_wait delay s = (if cw_close s then s else s\<lparr>cw_svc := Svc_Backoff (cw_now s + delay)\<rparr>)"

definition svc_suspended_wait :: "nat \<Rightarrow> close_state \<Rightarrow> close_state" where
  "svc_suspended_wait ttl s =
     s\<lparr>cw_svc := Svc_Suspended_Until (cw_now s + ttl), cw_user := user_woken (cw_user s)\<rparr>"

definition close_ask :: "close_state \<Rightarrow> close_state" where
  "close_ask s = s\<lparr>cw_close := True, cw_svc := svc_woken (cw_svc s), cw_user := User_Asked\<rparr>"

text \<open>The test of the loop in \<^verbatim>\<open>ably_rt_client_close\<close>: every wake-up waits for the whole timeout again.\<close>

definition close_test :: "nat \<Rightarrow> close_state \<Rightarrow> close_state" where
  "close_test timeout s =
     s\<lparr>cw_user := (if cw_closed s then User_Joins False else User_Waits (cw_now s + timeout))\<rparr>"

definition overdue :: "close_state \<Rightarrow> bool" where
  "overdue s \<longleftrightarrow> (case cw_svc s of Svc_Backoff d \<Rightarrow> d \<le> cw_now s | Svc_Suspended_Until d \<Rightarrow> d \<le> cw_now s | _ \<Rightarrow> False) \<or>
     (case cw_user s of User_Waits d \<Rightarrow> d \<le> cw_now s | _ \<Rightarrow> False)"

text \<open>A wait returns at its deadline; until then, and while the threads run, time passes. The service thread changes the
  state now and then (and wakes a closing thread), ends with the state CLOSED or FAILED, or ends on a request to close
  without either.\<close>

inductive close_step :: "nat \<Rightarrow> close_state \<Rightarrow> close_state \<Rightarrow> bool" for timeout where
  time_passes: "\<not> overdue s \<Longrightarrow> close_step timeout s (s\<lparr>cw_now := cw_now s + 1\<rparr>)"
| backoff: "cw_svc s = Svc_Working \<Longrightarrow> close_step timeout s (svc_backoff_wait delay s)"
| suspend: "cw_svc s = Svc_Working \<Longrightarrow> close_step timeout s (svc_suspended_wait ttl s)"
| backoff_over: "cw_svc s = Svc_Backoff d \<Longrightarrow> d \<le> cw_now s \<Longrightarrow> close_step timeout s (s\<lparr>cw_svc := Svc_Working\<rparr>)"
| suspend_over: "cw_svc s = Svc_Suspended_Until d \<Longrightarrow> d \<le> cw_now s \<Longrightarrow> close_step timeout s (s\<lparr>cw_svc := Svc_Working\<rparr>)"
| state_change: "cw_svc s = Svc_Working \<Longrightarrow> close_step timeout s (s\<lparr>cw_user := user_woken (cw_user s)\<rparr>)"
| thread_ends: "cw_svc s = Svc_Working \<Longrightarrow> cw_close s \<Longrightarrow> close_step timeout s (s\<lparr>cw_svc := Svc_Gone\<rparr>)"
| thread_closes: "cw_svc s = Svc_Working \<Longrightarrow>
    close_step timeout s (s\<lparr>cw_svc := Svc_Gone, cw_closed := True, cw_user := user_woken (cw_user s)\<rparr>)"
| ask: "cw_user s = User_Away \<Longrightarrow> close_step timeout s (close_ask s)"
| test: "cw_user s = User_Asked \<Longrightarrow> close_step timeout s (close_test timeout s)"
| give_up: "cw_user s = User_Waits d \<Longrightarrow> d \<le> cw_now s \<Longrightarrow> close_step timeout s (s\<lparr>cw_user := User_Joins True\<rparr>)"
| joined: "cw_user s = User_Joins t \<Longrightarrow> cw_svc s = Svc_Gone \<Longrightarrow> close_step timeout s (s\<lparr>cw_user := User_Back t\<rparr>)"

lemma close_step_backoff: "close_step timeout s s' \<Longrightarrow> cw_close s \<longrightarrow> (\<forall>d. cw_svc s \<noteq> Svc_Backoff d) \<Longrightarrow>
    cw_close s' \<longrightarrow> (\<forall>d. cw_svc s' \<noteq> Svc_Backoff d)"
  by (induction rule: close_step.induct)
    (auto simp: svc_backoff_wait_def svc_suspended_wait_def close_ask_def svc_woken_def close_test_def split: svc_at.splits if_splits)

text \<open>A closing thread that has given up does not come back before the service thread has slept.\<close>

lemma asleep_step:
  assumes "close_step timeout s s'" "cw_svc s = Svc_Suspended_Until d" "cw_user s = User_Joins t" "cw_now s \<le> d"
  shows "cw_now s' \<le> d \<and> (cw_svc s' = Svc_Suspended_Until d \<or> cw_now s' = d) \<and> cw_user s' = User_Joins t \<and>
    (cw_svc s' = Svc_Suspended_Until d \<or> cw_svc s' = Svc_Working)"
  using assms by (induction rule: close_step.induct) (auto simp: overdue_def)

lemma asleep_until:
  assumes "(close_step timeout)\<^sup>*\<^sup>* s s'" "cw_svc s = Svc_Suspended_Until d" "cw_user s = User_Joins t" "cw_now s \<le> d"
  shows "(cw_svc s' = Svc_Suspended_Until d \<and> cw_user s' = User_Joins t \<and> cw_now s' \<le> d) \<or> d \<le> cw_now s'"
  using assms
proof (induction rule: rtranclp_induct)
  case (step s1 s2)
  have mono: "cw_now s1 \<le> cw_now s2" using step.hyps(2)
    by (induction rule: close_step.induct)
      (auto simp: svc_backoff_wait_def svc_suspended_wait_def close_ask_def close_test_def)
  with step asleep_step[OF step.hyps(2)] show ?case by fastforce
qed simp

text \<open>Time passes up to a deadline.\<close>

lemma wait_until:
  assumes "cw_svc s = Svc_Suspended_Until d" "\<And>e. cw_user s = User_Waits e \<Longrightarrow> cw_now s + k \<le> e" "cw_now s + k \<le> d"
  shows "(close_step timeout)\<^sup>*\<^sup>* s (s\<lparr>cw_now := cw_now s + k\<rparr>)"
  using assms(2,3)
proof (induction k)
  case (Suc k)
  let ?s = "s\<lparr>cw_now := cw_now s + k\<rparr>"
  have "\<not> overdue ?s" using Suc.prems assms(1) by (auto simp: overdue_def split: user_at.splits)
  moreover have "(close_step timeout)\<^sup>*\<^sup>* s ?s" using Suc.prems by (intro Suc.IH) (fastforce, simp)
  ultimately show ?case using time_passes[of ?s timeout] by (simp add: rtranclp.rtrancl_into_rtrancl)
qed simp

lemma suspended_close_reachable:
  assumes "timeout \<le> ttl"
  shows "(close_step timeout)\<^sup>*\<^sup>* close_start
    \<lparr>cw_now = timeout, cw_svc = Svc_Suspended_Until ttl, cw_user = User_Joins True, cw_close = True, cw_closed = False\<rparr>"
proof -
  let ?last = "\<lparr>cw_now = timeout, cw_svc = Svc_Suspended_Until ttl, cw_user = User_Joins True, cw_close = True,
    cw_closed = False\<rparr>"
  let ?s1 = "close_ask close_start"
  let ?s2 = "svc_suspended_wait ttl ?s1"
  let ?s3 = "close_test timeout ?s2"
  have "close_step timeout close_start ?s1" by (rule ask) (simp add: close_start_def)
  moreover have "close_step timeout ?s1 ?s2" by (rule suspend) (simp add: close_start_def close_ask_def svc_woken_def)
  moreover have "close_step timeout ?s2 ?s3"
    by (rule test) (simp add: close_start_def close_ask_def svc_suspended_wait_def user_woken_def)
  ultimately have "(close_step timeout)\<^sup>*\<^sup>* close_start ?s3" by (meson converse_rtranclp_into_rtranclp rtranclp.rtrancl_refl)
  moreover have s3: "?s3 = \<lparr>cw_now = 0, cw_svc = Svc_Suspended_Until ttl, cw_user = User_Waits timeout, cw_close = True, cw_closed = False\<rparr>"
    by (simp add: close_start_def close_ask_def svc_woken_def svc_suspended_wait_def user_woken_def close_test_def)
  moreover have "(close_step timeout)\<^sup>*\<^sup>* ?s3 (?s3\<lparr>cw_now := timeout\<rparr>)"
    using wait_until[of ?s3 ttl timeout timeout] assms unfolding s3 by simp
  moreover have "close_step timeout (?s3\<lparr>cw_now := timeout\<rparr>) (?s3\<lparr>cw_now := timeout, cw_user := User_Joins True\<rparr>)"
    using give_up[of "?s3\<lparr>cw_now := timeout\<rparr>" timeout timeout] unfolding s3 by simp
  moreover have "?s3\<lparr>cw_now := timeout, cw_user := User_Joins True\<rparr> = ?last" unfolding s3 by simp
  ultimately show ?thesis by (metis rtranclp.rtrancl_into_rtrancl rtranclp_trans)
qed

lemma asleep_close_returns:
  assumes "cw_svc u = Svc_Suspended_Until d" "cw_user u = User_Joins t" "cw_now u \<le> d" "cw_close u"
  shows "\<exists>v. (close_step timeout)\<^sup>*\<^sup>* u v \<and> cw_now v = d \<and> cw_user v = User_Back t"
proof -
  let ?a = "u\<lparr>cw_now := d\<rparr>" and ?b = "u\<lparr>cw_now := d, cw_svc := Svc_Working\<rparr>"
    and ?c = "u\<lparr>cw_now := d, cw_svc := Svc_Gone\<rparr>" and ?e = "u\<lparr>cw_now := d, cw_svc := Svc_Gone, cw_user := User_Back t\<rparr>"
  have "(close_step timeout)\<^sup>*\<^sup>* u ?a" using wait_until[of u d "d - cw_now u" timeout] assms by simp
  also have "close_step timeout ?a ?b" using suspend_over[of ?a d timeout] assms(1) by simp
  also have "close_step timeout ?b ?c" using thread_ends[of ?b timeout] assms(4) by simp
  also have "close_step timeout ?c ?e" using joined[of ?c t timeout] assms(2) by simp
  finally show ?thesis by (intro exI[of _ ?e]) simp
qed

text \<open>C23. A request to close is never lost on a thread that waits between two attempts: it does not begin such a wait once
  close is requested, and is woken from one. It can be lost on the SUSPENDED wait, which begins without looking: then
  \<^verbatim>\<open>ably_rt_client_close\<close> gives up after its timeout, joins the thread, and is back only when the whole
  connectionStateTtl is over.\<close>

theorem close_request_noticed:
  "((close_step timeout)\<^sup>*\<^sup>* close_start s \<and> cw_close s \<longrightarrow> (\<forall>d. cw_svc s \<noteq> Svc_Backoff d)) \<and>
   (timeout < ttl \<longrightarrow> (\<exists>u. (close_step timeout)\<^sup>*\<^sup>* close_start u \<and> cw_now u = timeout \<and> cw_close u \<and>
      (\<exists>v t. (close_step timeout)\<^sup>*\<^sup>* u v \<and> cw_user v = User_Back t) \<and>
      (\<forall>v t. (close_step timeout)\<^sup>*\<^sup>* u v \<and> cw_user v = User_Back t \<longrightarrow> ttl \<le> cw_now v)))"
proof -
  have "cw_close s \<longrightarrow> (\<forall>d. cw_svc s \<noteq> Svc_Backoff d)" if "(close_step timeout)\<^sup>*\<^sup>* close_start s"
    using that by (induction rule: rtranclp_induct) (simp add: close_start_def, rule close_step_backoff)
  moreover have "\<exists>u. (close_step timeout)\<^sup>*\<^sup>* close_start u \<and> cw_now u = timeout \<and> cw_close u \<and>
      (\<exists>v t. (close_step timeout)\<^sup>*\<^sup>* u v \<and> cw_user v = User_Back t) \<and>
      (\<forall>v t. (close_step timeout)\<^sup>*\<^sup>* u v \<and> cw_user v = User_Back t \<longrightarrow> ttl \<le> cw_now v)" if "timeout < ttl"
  proof -
    let ?u = "\<lparr>cw_now = timeout, cw_svc = Svc_Suspended_Until ttl, cw_user = User_Joins True, cw_close = True,
      cw_closed = False\<rparr>"
    have "ttl \<le> cw_now v" if "(close_step timeout)\<^sup>*\<^sup>* ?u v" "cw_user v = User_Back t" for v t
      using asleep_until[OF that(1), of ttl True] that(2) \<open>timeout < ttl\<close> by simp
    moreover have "\<exists>v t. (close_step timeout)\<^sup>*\<^sup>* ?u v \<and> cw_user v = User_Back t"
      using asleep_close_returns[of ?u ttl True timeout] that by auto
    moreover have "(close_step timeout)\<^sup>*\<^sup>* close_start ?u" using that by (intro suspended_close_reachable) simp
    ultimately show ?thesis by (intro exI[of _ ?u]) simp
  qed
  ultimately show ?thesis by blast
qed

lemma close_request_noticed_witness:
  "\<exists>u. (close_step 5000)\<^sup>*\<^sup>* close_start u \<and> cw_now u = 5000 \<and> cw_close u \<and>
     (\<exists>v t. (close_step 5000)\<^sup>*\<^sup>* u v \<and> cw_user v = User_Back t) \<and>
     (\<forall>v t. (close_step 5000)\<^sup>*\<^sup>* u v \<and> cw_user v = User_Back t \<longrightarrow> 120000 \<le> cw_now v)"
  using close_request_noticed[of 5000 _ 120000] by simp

end
