(* ===== verification/Spec2Isabelle.thy ===== *)
theory Spec2Isabelle
  imports Ably_Prelude Ably_Types Ably_Base64 Ably_Vcdiff Ably_Hashmap Ably_Ring Ably_Url
    Ably_Protocol Ably_Json Ably_Msgpack Ably_Codec Ably_Core Ably_Presence
    Ably_Channel Ably_Channel_Steps Ably_Channel_Props Ably_Ws Ably_Realtime Ably_Realtime_Steps
    Ably_Realtime_Props Ably_Http Ably_Rest Ably_Rest_Query Ably_Rest_Props
    Ably_Conn_Machine Ably_Channel_Delta Ably_Codec_Agree Ably_Wire Ably_Ws_Io Ably_Log
    Ably_Decode_Trees Ably_Page_Pool
    Ably_Resources Ably_Cpp Ably_Cpp_Channel Ably_Cpp_Slots Ably_Event_Loop
    Ably_Locks Ably_Publish_Race Ably_Examples Ably_Reconnect Ably_Close_Wait
begin

text \<open>
  A model of ably-c, the C client library for the Ably realtime service (\<^verbatim>\<open>ably-c/\<close> of the
  repository), and the theorems that make its components correct, or say where they are not.

  \<^bold>\<open>The program.\<close> An application creates a realtime client and a service thread (\<^verbatim>\<open>realtime_client.c\<close>)
  that connects a WebSocket (\<^verbatim>\<open>ws_client.c\<close>), sends the frames other threads put into an outbound ring,
  decodes inbound frames (\<^verbatim>\<open>protocol_json.c\<close>, \<^verbatim>\<open>protocol_msgpack.c\<close>) and dispatches them to channels
  (\<^verbatim>\<open>channel.c\<close>), which deliver messages to subscribers, decode deltas (\<^verbatim>\<open>vcdiff.c\<close>, \<^verbatim>\<open>base64.c\<close>), keep
  the members present (\<^verbatim>\<open>presence.c\<close> over \<^verbatim>\<open>hashmap.c\<close>) and queue what is published while they attach.
  After a lost connection the thread goes through fallback hosts and backoff, and attaches the channels
  again. A REST client (\<^verbatim>\<open>rest_client.c\<close> over \<^verbatim>\<open>http_client.c\<close>) publishes and queries, and a channel
  uses it to fetch what it missed. An application can drive the client from an event loop instead of the
  thread, as the programs of \<^verbatim>\<open>examples/\<close> do, and use both clients from C++ through \<^verbatim>\<open>ably.hpp\<close>. All paths
  below are relative to \<^verbatim>\<open>ably-c/src\<close>, where they do not begin with \<^verbatim>\<open>include\<close> or \<^verbatim>\<open>examples\<close>.

  \<^bold>\<open>Theories.\<close>
  \<^item> \<^verbatim>\<open>Ably_Prelude\<close>: C strings and their buffers, searching, decimal numbers, collections of rules.
    \<^verbatim>\<open>Ably_Types\<close>: \<^verbatim>\<open>ably_types.h\<close>.
  \<^item> \<^verbatim>\<open>Ably_Base64\<close>, \<^verbatim>\<open>Ably_Vcdiff\<close>, \<^verbatim>\<open>Ably_Hashmap\<close>: \<^verbatim>\<open>base64.c\<close>, \<^verbatim>\<open>delta/vcdiff.c\<close>, \<^verbatim>\<open>hashmap.c\<close>,
    at the width of their integers. Every read and write of the decoder is an access with a bound (\<open>vc_read\<close>,
    \<open>vc_write\<close>), whose fault is a result of its own; it is shown memory safe and the inverse of an encoder. The
    map refines a partial map with a capacity limit (locale \<^verbatim>\<open>string_map\<close>).
  \<^item> \<^verbatim>\<open>Ably_Ring\<close>, \<^verbatim>\<open>Ably_Core\<close>: the ring buffers of the client and of the channels (locale
    \<^verbatim>\<open>bounded_queue\<close>, interpreted for both capacities) and the message serial.
  \<^item> \<^verbatim>\<open>Ably_Url\<close>: percent encoding, path building with \<^verbatim>\<open>snprintf\<close>, pagination links.
  \<^item> \<^verbatim>\<open>Ably_Protocol\<close>, \<^verbatim>\<open>Ably_Json\<close>, \<^verbatim>\<open>Ably_Msgpack\<close>, \<^verbatim>\<open>Ably_Codec\<close>: \<^verbatim>\<open>realtime/protocol*\<close>. Frames are
    records; cJSON and mpack trees are datatypes, their printers and parsers the fields of \<open>codec_lib\<close>.
    \<^verbatim>\<open>Ably_Decode_Trees\<close>: the static trees in which the strings of a frame live, and the clients that share
    them.
  \<^item> \<^verbatim>\<open>Ably_Presence\<close>: \<^verbatim>\<open>realtime/presence.c\<close>, and its refinement to a set of members without a
    limit, for as long as no more than the 96 members are present that the index takes (the headers document 128).
  \<^item> \<^verbatim>\<open>Ably_Channel\<close>: \<^verbatim>\<open>realtime/channel.c\<close>. An operation maps a world (the channel, the client core it
    shares, the callbacks made so far) to a world; what a message callback does is a function of the
    world. \<^verbatim>\<open>Ably_Channel_Steps\<close> has the reachable worlds, with callbacks that call back, and the locales
    \<^verbatim>\<open>chan_preserved\<close> and \<^verbatim>\<open>chan_invariant\<close>: a property that a few kinds of change preserve is preserved
    by every operation. The locales take the operations a callback may make as a parameter, and tell changes
    that leave the subscriber tables alone from those that do not (\<open>resub\<close>). \<^verbatim>\<open>Ably_Channel_Props\<close>
    interprets them for the channel invariant and for the completeness of the state callbacks, and has the
    properties of publishing, delivery and attachment. \<^verbatim>\<open>Ably_Channel_Delta\<close>: a stream of deltas has the
    effects of the same stream in full.
  \<^item> \<^verbatim>\<open>Ably_Ws\<close>: \<^verbatim>\<open>ws/ws_client.c\<close>. The results of the TLS, poll and wslay calls are inputs; the handshake
    loops consume lists of them. The world counts sockets lost and TLS contexts set up twice. Locales
    state what the transport may change: \<^verbatim>\<open>ws_still\<close> for what no call touches, \<^verbatim>\<open>ws_receives\<close> for what inbound
    frames preserve, \<^verbatim>\<open>ws_local\<close> and \<^verbatim>\<open>ws_preserved\<close> for what the calls and the rounds preserve, \<^verbatim>\<open>ws_closing\<close>
    for the way out. \<^verbatim>\<open>Ably_Ws_Io\<close>: the
    callbacks by which wslay reads and writes.
  \<^item> \<^verbatim>\<open>Ably_Realtime\<close>: \<^verbatim>\<open>realtime/realtime_client.c\<close>. \<^verbatim>\<open>service_thread_fn\<close> is cut at its waits and critical
    sections into the pieces \<open>svc_top\<close>, \<open>svc_connect\<close>, \<open>svc_loop\<close>, \<open>svc_check\<close>, \<open>svc_down\<close>, \<open>svc_suspended\<close>,
    \<open>svc_retry\<close>, which \<open>svc_next\<close> chains by a program counter. \<^verbatim>\<open>Ably_Realtime_Steps\<close> interleaves them with
    calls of the application (\<open>rt_trans\<close>, \<open>rt_reach\<close>) and proves the invariant of the reachable worlds over
    the locales \<^verbatim>\<open>rt_local\<close> and \<^verbatim>\<open>rt_preserved\<close>. \<^verbatim>\<open>Ably_Realtime_Props\<close> has the properties: well-formedness, the end of the
    thread after a close request, sending of queued frames exactly once and in order, re-attachment, fallback hosts, backoff.
    \<^verbatim>\<open>Ably_Reconnect\<close>: a lost connection from end to end, through attempts that fail at any point before CONNECTED.
    \<^verbatim>\<open>Ably_Conn_Machine\<close>: the connection states are a run of a state machine. \<^verbatim>\<open>Ably_Codec_Agree\<close> and
    \<^verbatim>\<open>Ably_Wire\<close>: the two encodings mean the same, and what is published reaches the socket.
  \<^item> \<^verbatim>\<open>Ably_Event_Loop\<close>: \<^verbatim>\<open>examples/libuv_glue.c\<close> and \<^verbatim>\<open>examples/asio_glue.hpp\<close>, as events of an event
    loop over the client's world (\<open>glue_step\<close>).
  \<^item> \<^verbatim>\<open>Ably_Http\<close>, \<^verbatim>\<open>Ably_Rest\<close>, \<^verbatim>\<open>Ably_Rest_Query\<close>: \<^verbatim>\<open>http/http_client.c\<close> and \<^verbatim>\<open>rest/rest_client.c\<close>;
    \<^verbatim>\<open>Ably_Rest_Props\<close>: their paths, in and out of bounds, and the text a token request signs.
    \<^verbatim>\<open>Ably_Page_Pool\<close>: the block of a history or presence page holds the items of the reply.
  \<^item> \<^verbatim>\<open>Ably_Resources\<close>: the constructors and destructors of the handles over \<^verbatim>\<open>alloc.c\<close>, the connections (sockets,
    TLS sessions, wslay contexts), the requests and the pages of history, as transformers of a memory of blocks and
    TLS contexts in which any call can fail, and the TLS configuration they make (\<^verbatim>\<open>tls_ca.c\<close>). \<^verbatim>\<open>Ably_Log\<close>: \<^verbatim>\<open>log.c\<close> and the log contexts of the handles.
  \<^item> \<^verbatim>\<open>Ably_Cpp\<close>, \<^verbatim>\<open>Ably_Cpp_Channel\<close>, \<^verbatim>\<open>Ably_Cpp_Slots\<close>: \<^verbatim>\<open>include/ably/ably.hpp\<close>. A method returns a value
    or an exception (\<open>cpp\<close>); a channel has a heap of callback objects. The locale \<^verbatim>\<open>subscription_table\<close>,
    interpreted for message and presence subscriptions, relates the tokens of the C channel to the objects.
  \<^item> \<^verbatim>\<open>Ably_Locks\<close>: the mutexes. Each function of \<^verbatim>\<open>realtime_client.c\<close> and \<^verbatim>\<open>channel.c\<close> is the list of lock
    operations on a path through it (\<open>attach_acts\<close>, \<open>deliver_acts\<close>, ...), \<open>lock_trans\<close> interleaves any number of
    threads, and every path respects an order of the mutexes (\<open>follows\<close>, \<open>nested\<close>), so that nothing hangs as long
    as the callbacks respect it too; those that do not are the subject of a second theorem.
    \<^verbatim>\<open>Ably_Publish_Race\<close>: publishing to several channels from several threads, section by section
    (\<open>race_do\<close>), where the other theories take a call as one step; alone, a thread does the same. The service thread's
    sections are among them, with the one that starts the serials again for a new connection. \<^verbatim>\<open>Ably_Close_Wait\<close>: closing while the
    service thread waits (\<open>close_step\<close>, with the time): which of its waits notice the request.
  \<^item> \<^verbatim>\<open>Ably_Examples\<close>: the programs of \<^verbatim>\<open>examples\<close> in C and C++ as functions of the library's answers to their calls
    and exit code, and the order of calls that the header asks for (\<open>phase_step\<close>).

  \<^bold>\<open>Conventions.\<close> A nullable C string is an option; a buffer of size \<open>n\<close> holds \<open>c_copy n s\<close>. An error code is
  a value of \<open>ably_error\<close>, undefined behaviour a value of its own (\<open>VC_FAULT\<close>, \<open>Path_Overflow\<close>,
  \<open>Res_Undefined\<close>, \<open>Rest_Out_Of_Bounds\<close>), a call that waits for ever the result \<open>None\<close> or \<open>Rest_Waiting\<close>.
  Callbacks that are made are events of the world. The names of definitions are those of the code without
  \<^verbatim>\<open>ably_\<close>, where that does not clash.

  \<^bold>\<open>Bounds and fuel.\<close> Loops over fixed arrays run over their indices. Probing of the hash map, the flush of
  the pending queue and the gap recovery count down from the capacity, the capacity and the 50 pages of the
  code: a probe sequence and a ring have no more elements than that, so the count ends no loop early. The
  windows of a delta are recursion on the remaining input. Loops that wait for the network consume a list of
  results, and are undecided when it is used up.

  \<^bold>\<open>Parameters.\<close> cJSON, mpack, mbedTLS, wslay, the clock, \<^verbatim>\<open>rand\<close>, the authentication callback and the
  application's callbacks are arguments. Numbers of JSON are rationals; an integer
  goes into one through the double nearest to it (\<open>c_double\<close>), and comes back through \<open>double_int64\<close>.

  \<^bold>\<open>Not modelled.\<close> Data races on memory that no mutex protects (the presence state, \<^verbatim>\<open>last_error\<close>, the callbacks of
  a client), spurious wake-ups of the condition variables (except in \<^verbatim>\<open>Ably_Locks\<close>, where a timed wait may end at any time), the Windows
  variants, the set-up of a TLS connection inside mbedTLS, vendored libraries, what the examples print of messages,
  tests and the Java connector. The headers are modelled with the functions and types they declare.

  \<^bold>\<open>Open.\<close> Extensions worth their proofs: the delta stream of a
  channel across gap recovery; the pages of presence and channel lists in C++, which are classes of the same shape as
  \<^verbatim>\<open>HistoryPage\<close>; and the service thread's other shared fields at the granularity of \<open>lock_trans\<close>.
\<close>

end
